(* ===== verification/Enc_Prelude.thy ===== *)
theory Enc_Prelude
  imports Main "HOL-Library.Word" "HOL-Library.Monad_Syntax"
begin

text \<open>
  Shared vocabulary of the development.  Machine integers are words of their C width; a C
  function that may fail to return normally is a function into \<open>option\<close>, composed with the
  \<open>do\<close> notation of \<open>Option.bind\<close>: \<open>None\<close> stands for an execution that never comes back
  to its caller (a call through a NULL function pointer, or a polling loop whose condition
  never becomes false).  The theory also holds the byte-level views of 16-bit words that the
  C unions give, and the lemmas on masks and shifts the components share.
\<close>

unbundle bit_operations_syntax

type_synonym u8 = "8 word"
type_synonym u16 = "16 word"
type_synonym u32 = "32 word"

named_theorems bitmask_simps \<open>evaluation of C bit masks and byte splits\<close>
named_theorems frame_simps \<open>which part of the state an operation leaves alone\<close>

section \<open>Little-endian halves of a 16-bit word\<close>

definition lo8 :: "u16 \<Rightarrow> u8" where
  "lo8 v = ucast v"

definition hi8 :: "u16 \<Rightarrow> u8" where
  "hi8 v = ucast (drop_bit 8 v)"

definition u16_of :: "u8 \<Rightarrow> u8 \<Rightarrow> u16" where
  "u16_of l h = (ucast l OR push_bit 8 (ucast h))"

lemma bit_lo8 [bitmask_simps]: "bit (lo8 v) i \<longleftrightarrow> i < 8 \<and> bit v i"
  by (simp add: lo8_def bit_simps)

lemma bit_hi8 [bitmask_simps]: "bit (hi8 v) i \<longleftrightarrow> i < 8 \<and> bit v (i + 8)"
  by (auto simp: hi8_def bit_simps ac_simps)

lemma bit_u16_of [bitmask_simps]:
  "bit (u16_of l h) i \<longleftrightarrow> (if i < 8 then bit l i else i < 16 \<and> bit h (i - 8))"
  by (auto simp: u16_of_def bit_simps dest: bit_imp_le_length)

lemma u16_of_lo_hi [simp]: "u16_of (lo8 v) (hi8 v) = v"
  by (rule bit_word_eqI) (auto simp: bitmask_simps)

lemma lo8_u16_of [simp]: "lo8 (u16_of l h) = l"
  by (rule bit_word_eqI) (auto simp: bitmask_simps)

lemma hi8_u16_of [simp]: "hi8 (u16_of l h) = h"
  by (rule bit_word_eqI) (auto simp: bitmask_simps)

lemma mask255_lo8: "ucast (v AND 0xFF :: u16) = lo8 v"
proof -
  have m: "(0xFF :: u16) = mask 8" by (simp add: mask_eq_exp_minus_1)
  show ?thesis
    unfolding m by (intro bit_word_eqI) (auto simp: bit_simps bitmask_simps)
qed

lemma shift8_hi8: "ucast (drop_bit 8 v :: u16) = hi8 v"
  by (simp add: hi8_def)

lemma unat_u8_less: "unat (b :: u8) < 256"
proof -
  have "unat b < 2 ^ LENGTH(8)" by (rule unsigned_less)
  then show ?thesis by simp
qed

lemma unat_u16_less: "unat (b :: u16) < 65536"
proof -
  have "unat b < 2 ^ LENGTH(16)" by (rule unsigned_less)
  then show ?thesis by simp
qed

lemma unat_u32_less: "unat (b :: u32) < 4294967296"
proof -
  have "unat b < 2 ^ LENGTH(32)" by (rule unsigned_less)
  then show ?thesis by simp
qed

lemma unat_of_nat_u16: "n < 2 ^ 16 \<Longrightarrow> unat (of_nat n :: u16) = n"
  by (simp add: unsigned_of_nat take_bit_nat_eq_self)

lemma unat_u16_of: "unat (u16_of l h) = unat l + 256 * unat h"
proof -
  have disj: "ucast l AND push_bit 8 (ucast h) = (0 :: u16)"
    by (rule bit_word_eqI) (auto simp: bit_simps dest: bit_imp_le_length)
  have "u16_of l h = ucast l + push_bit 8 (ucast h)"
    using disj by (simp add: u16_of_def disjunctive_add_eq_or)
  also have "\<dots> = of_nat (unat l + 256 * unat h)"
    by (simp add: push_bit_eq_mult mult.commute)
  finally have eq: "u16_of l h = of_nat (unat l + 256 * unat h)" .
  have "unat l + 256 * unat h < 2 ^ 16"
    using unat_u8_less [of l] unat_u8_less [of h] by simp
  then show ?thesis unfolding eq by (rule unat_of_nat_u16)
qed

text \<open>Two bytes are equal when their eight bits are; with concrete masks each bit evaluates.\<close>

lemma u8_bits_eqI:
  assumes "\<And>n. n \<in> {0, 1, 2, 3, 4, 5, 6, 7} \<Longrightarrow> bit a n = bit b n"
  shows "(a :: u8) = b"
proof (rule bit_word_eqI)
  fix n assume "n < LENGTH(8)"
  then have "n \<in> {0, 1, 2, 3, 4, 5, 6, 7}" by auto
  then show "bit a n = bit b n" by (rule assms)
qed

section \<open>Options and lists\<close>

lemma bind_SomeI: "m = Some x \<Longrightarrow> f x = y \<Longrightarrow> Option.bind m f = y"
  by simp

end
