(* ===== verification/Hal_Spi.thy ===== *)
theory Hal_Spi
  imports Enc_Prelude
begin

text \<open>
  The blocking SPI functions of the HAL the board code calls
  (\<open>Drivers/STM32F4xx_HAL_Driver/Src/stm32f4xx_hal_spi.c\<close>): initialisation, transmit,
  receive and the full-duplex transfer, with their timeouts, their lock and their error codes.

  The peripheral is a parameter: \<open>spi_env\<close> gives what the core can do to the registers of
  SPI1, to BSRR of GPIOB and to the tick counter, each access possibly finding a new value.  The caller's buffer
  is the byte list \<open>mem\<close>, and the buffer pointers of the handle are offsets into it, so that
  \<open>HAL_SPI_Receive\<close>, which passes one buffer as source and destination, is modelled with
  that aliasing.  The sources are compiled with \<open>USE_SPI_CRC\<close> 0, without
  \<open>USE_FULL_ASSERT\<close> and without registered callbacks; the interrupt-mode function pointers of
  the handle are not modelled.

  What is proved here holds for every peripheral: a call that returns leaves the handle ready
  and unlocked, whatever the flags and the tick counter did.
\<close>

section \<open>Types\<close>

datatype HAL_StatusTypeDef = HAL_OK | HAL_ERROR | HAL_BUSY | HAL_TIMEOUT

datatype HAL_LockTypeDef = HAL_UNLOCKED | HAL_LOCKED

datatype HAL_SPI_StateTypeDef =
  HAL_SPI_STATE_RESET | HAL_SPI_STATE_READY | HAL_SPI_STATE_BUSY | HAL_SPI_STATE_BUSY_TX
  | HAL_SPI_STATE_BUSY_RX | HAL_SPI_STATE_BUSY_TX_RX | HAL_SPI_STATE_ERROR | HAL_SPI_STATE_ABORT

record SPI_InitTypeDef =
  Mode :: u32
  Direction :: u32
  DataSize :: u32
  CLKPolarity :: u32
  CLKPhase :: u32
  NSS :: u32
  BaudRatePrescaler :: u32
  FirstBit :: u32
  TIMode :: u32
  CRCCalculation :: u32
  CRCPolynomial :: u32

record SPI_HandleTypeDef =
  Init :: SPI_InitTypeDef
  pTxBuffPtr :: "nat option"
  TxXferSize :: u16
  TxXferCount :: u16
  pRxBuffPtr :: "nat option"
  RxXferSize :: u16
  RxXferCount :: u16
  Lock :: HAL_LockTypeDef
  State :: HAL_SPI_StateTypeDef
  ErrorCode :: u32

record 'h spi_env =
  rd_SR :: "'h \<Rightarrow> u32 \<times> 'h"
  rd_DR :: "'h \<Rightarrow> u16 \<times> 'h"
  wr_DR8 :: "u8 \<Rightarrow> 'h \<Rightarrow> 'h"
  wr_DR16 :: "u16 \<Rightarrow> 'h \<Rightarrow> 'h"
  rd_CR1 :: "'h \<Rightarrow> u32"
  wr_CR1 :: "u32 \<Rightarrow> 'h \<Rightarrow> 'h"
  rd_CR2 :: "'h \<Rightarrow> u32"
  wr_CR2 :: "u32 \<Rightarrow> 'h \<Rightarrow> 'h"
  rd_I2SCFGR :: "'h \<Rightarrow> u32"
  wr_I2SCFGR :: "u32 \<Rightarrow> 'h \<Rightarrow> 'h"
  wr_BSRR_B :: "u32 \<Rightarrow> 'h \<Rightarrow> 'h"
  rd_uwTick :: "'h \<Rightarrow> u32 \<times> 'h"

record 'h spi_st =
  hspi :: SPI_HandleTypeDef
  mem :: "u8 list"
  SystemCoreClock_v :: u32
  per :: 'h

section \<open>Constants\<close>

definition SPI_CR1_CPHA :: u32 where "SPI_CR1_CPHA = 0x0001"
definition SPI_CR1_CPOL :: u32 where "SPI_CR1_CPOL = 0x0002"
definition SPI_CR1_MSTR :: u32 where "SPI_CR1_MSTR = 0x0004"
definition SPI_CR1_BR_0 :: u32 where "SPI_CR1_BR_0 = 0x0008"
definition SPI_CR1_BR_Msk :: u32 where "SPI_CR1_BR_Msk = 0x0038"
definition SPI_CR1_SPE :: u32 where "SPI_CR1_SPE = 0x0040"
definition SPI_CR1_LSBFIRST :: u32 where "SPI_CR1_LSBFIRST = 0x0080"
definition SPI_CR1_SSI :: u32 where "SPI_CR1_SSI = 0x0100"
definition SPI_CR1_SSM :: u32 where "SPI_CR1_SSM = 0x0200"
definition SPI_CR1_RXONLY :: u32 where "SPI_CR1_RXONLY = 0x0400"
definition SPI_CR1_DFF :: u32 where "SPI_CR1_DFF = 0x0800"
definition SPI_CR1_CRCEN :: u32 where "SPI_CR1_CRCEN = 0x2000"
definition SPI_CR1_BIDIOE :: u32 where "SPI_CR1_BIDIOE = 0x4000"
definition SPI_CR1_BIDIMODE :: u32 where "SPI_CR1_BIDIMODE = 0x8000"
definition SPI_CR2_SSOE :: u32 where "SPI_CR2_SSOE = 0x0004"
definition SPI_CR2_FRF :: u32 where "SPI_CR2_FRF = 0x0010"
definition SPI_CR2_ERRIE :: u32 where "SPI_CR2_ERRIE = 0x0020"
definition SPI_CR2_RXNEIE :: u32 where "SPI_CR2_RXNEIE = 0x0040"
definition SPI_CR2_TXEIE :: u32 where "SPI_CR2_TXEIE = 0x0080"
definition SPI_I2SCFGR_I2SMOD :: u32 where "SPI_I2SCFGR_I2SMOD = 0x0800"

definition SPI_FLAG_RXNE :: u32 where "SPI_FLAG_RXNE = 0x0001"
definition SPI_FLAG_TXE :: u32 where "SPI_FLAG_TXE = 0x0002"
definition SPI_FLAG_BSY :: u32 where "SPI_FLAG_BSY = 0x0080"

definition SPI_MODE_SLAVE :: u32 where "SPI_MODE_SLAVE = 0"
definition SPI_MODE_MASTER :: u32 where "SPI_MODE_MASTER = SPI_CR1_MSTR OR SPI_CR1_SSI"
definition SPI_DIRECTION_2LINES :: u32 where "SPI_DIRECTION_2LINES = 0"
definition SPI_DIRECTION_2LINES_RXONLY :: u32 where "SPI_DIRECTION_2LINES_RXONLY = SPI_CR1_RXONLY"
definition SPI_DIRECTION_1LINE :: u32 where "SPI_DIRECTION_1LINE = SPI_CR1_BIDIMODE"
definition SPI_DATASIZE_8BIT :: u32 where "SPI_DATASIZE_8BIT = 0"
definition SPI_DATASIZE_16BIT :: u32 where "SPI_DATASIZE_16BIT = SPI_CR1_DFF"
definition SPI_POLARITY_LOW :: u32 where "SPI_POLARITY_LOW = 0"
definition SPI_PHASE_1EDGE :: u32 where "SPI_PHASE_1EDGE = 0"
definition SPI_NSS_SOFT :: u32 where "SPI_NSS_SOFT = SPI_CR1_SSM"
definition SPI_BAUDRATEPRESCALER_2 :: u32 where "SPI_BAUDRATEPRESCALER_2 = 0"
definition SPI_BAUDRATEPRESCALER_4 :: u32 where "SPI_BAUDRATEPRESCALER_4 = SPI_CR1_BR_0"
definition SPI_FIRSTBIT_MSB :: u32 where "SPI_FIRSTBIT_MSB = 0"
definition SPI_TIMODE_DISABLE :: u32 where "SPI_TIMODE_DISABLE = 0"
definition SPI_CRCCALCULATION_DISABLE :: u32 where "SPI_CRCCALCULATION_DISABLE = 0"
definition SPI_CRCCALCULATION_ENABLE :: u32 where "SPI_CRCCALCULATION_ENABLE = SPI_CR1_CRCEN"

definition HAL_SPI_ERROR_NONE :: u32 where "HAL_SPI_ERROR_NONE = 0"
definition HAL_SPI_ERROR_FLAG :: u32 where "HAL_SPI_ERROR_FLAG = 0x20"

definition HAL_MAX_DELAY :: u32 where "HAL_MAX_DELAY = 0xFFFFFFFF"

named_theorems spi_consts \<open>values of the SPI register constants\<close>

lemmas [spi_consts] =
  SPI_CR1_CPHA_def SPI_CR1_CPOL_def SPI_CR1_MSTR_def SPI_CR1_BR_0_def SPI_CR1_BR_Msk_def
  SPI_CR1_SPE_def SPI_CR1_LSBFIRST_def SPI_CR1_SSI_def SPI_CR1_SSM_def SPI_CR1_RXONLY_def
  SPI_CR1_DFF_def SPI_CR1_CRCEN_def SPI_CR1_BIDIOE_def SPI_CR1_BIDIMODE_def SPI_CR2_SSOE_def
  SPI_CR2_FRF_def SPI_CR2_ERRIE_def SPI_CR2_RXNEIE_def SPI_CR2_TXEIE_def SPI_I2SCFGR_I2SMOD_def
  SPI_FLAG_RXNE_def SPI_FLAG_TXE_def SPI_FLAG_BSY_def SPI_MODE_SLAVE_def SPI_MODE_MASTER_def
  SPI_DIRECTION_2LINES_def SPI_DIRECTION_2LINES_RXONLY_def SPI_DIRECTION_1LINE_def
  SPI_DATASIZE_8BIT_def SPI_DATASIZE_16BIT_def SPI_POLARITY_LOW_def SPI_PHASE_1EDGE_def
  SPI_NSS_SOFT_def SPI_BAUDRATEPRESCALER_2_def SPI_BAUDRATEPRESCALER_4_def SPI_FIRSTBIT_MSB_def
  SPI_TIMODE_DISABLE_def SPI_CRCCALCULATION_DISABLE_def SPI_CRCCALCULATION_ENABLE_def
  HAL_SPI_ERROR_NONE_def HAL_SPI_ERROR_FLAG_def HAL_MAX_DELAY_def

section \<open>Register access\<close>

definition HAL_GetTick :: "'h spi_env \<Rightarrow> 'h spi_st \<Rightarrow> u32 \<times> 'h spi_st" where
  "HAL_GetTick e s = (let (t, h) = rd_uwTick e (per s) in (t, s\<lparr>per := h\<rparr>))"

definition HAL_SPI_GET_FLAG :: "'h spi_env \<Rightarrow> u32 \<Rightarrow> 'h spi_st \<Rightarrow> bool \<times> 'h spi_st" where
  "HAL_SPI_GET_FLAG e flag s = (let (v, h) = rd_SR e (per s) in (v AND flag = flag, s\<lparr>per := h\<rparr>))"

definition CR1_set :: "'h spi_env \<Rightarrow> u32 \<Rightarrow> 'h spi_st \<Rightarrow> 'h spi_st" where
  "CR1_set e b s = s\<lparr>per := wr_CR1 e (rd_CR1 e (per s) OR b) (per s)\<rparr>"

definition CR1_clear :: "'h spi_env \<Rightarrow> u32 \<Rightarrow> 'h spi_st \<Rightarrow> 'h spi_st" where
  "CR1_clear e b s = s\<lparr>per := wr_CR1 e (rd_CR1 e (per s) AND NOT b) (per s)\<rparr>"

definition HAL_SPI_ENABLE :: "'h spi_env \<Rightarrow> 'h spi_st \<Rightarrow> 'h spi_st" where
  "HAL_SPI_ENABLE e = CR1_set e SPI_CR1_SPE"

definition HAL_SPI_DISABLE :: "'h spi_env \<Rightarrow> 'h spi_st \<Rightarrow> 'h spi_st" where
  "HAL_SPI_DISABLE e = CR1_clear e SPI_CR1_SPE"

definition HAL_SPI_DISABLE_IT :: "'h spi_env \<Rightarrow> u32 \<Rightarrow> 'h spi_st \<Rightarrow> 'h spi_st" where
  "HAL_SPI_DISABLE_IT e b s = s\<lparr>per := wr_CR2 e (rd_CR2 e (per s) AND NOT b) (per s)\<rparr>"

definition SPI_RESET_CRC :: "'h spi_env \<Rightarrow> 'h spi_st \<Rightarrow> 'h spi_st" where
  "SPI_RESET_CRC e s = CR1_set e SPI_CR1_CRCEN (CR1_clear e SPI_CR1_CRCEN s)"

text \<open>A read of DR followed by a read of SR.\<close>

definition HAL_SPI_CLEAR_OVRFLAG :: "'h spi_env \<Rightarrow> 'h spi_st \<Rightarrow> 'h spi_st" where
  "HAL_SPI_CLEAR_OVRFLAG e s =
     (let (_, h) = rd_DR e (per s); (_, h) = rd_SR e h in s\<lparr>per := h\<rparr>)"

definition HAL_UNLOCK :: "'h spi_st \<Rightarrow> 'h spi_st" where
  "HAL_UNLOCK s = s\<lparr>hspi := (hspi s)\<lparr>Lock := HAL_UNLOCKED\<rparr>\<rparr>"

definition set_State :: "HAL_SPI_StateTypeDef \<Rightarrow> 'h spi_st \<Rightarrow> 'h spi_st" where
  "set_State st s = s\<lparr>hspi := (hspi s)\<lparr>State := st\<rparr>\<rparr>"

definition set_ErrorCode :: "u32 \<Rightarrow> 'h spi_st \<Rightarrow> 'h spi_st" where
  "set_ErrorCode v s = s\<lparr>hspi := (hspi s)\<lparr>ErrorCode := v\<rparr>\<rparr>"

text \<open>\<^verbatim>\<open>if ((hspi->Instance->CR1 & SPI_CR1_SPE) != SPI_CR1_SPE) __HAL_SPI_ENABLE(hspi);\<close>\<close>

definition enable_if_off :: "'h spi_env \<Rightarrow> 'h spi_st \<Rightarrow> 'h spi_st" where
  "enable_if_off e s =
     (if rd_CR1 e (per s) AND SPI_CR1_SPE \<noteq> SPI_CR1_SPE then HAL_SPI_ENABLE e s else s)"

text \<open>
  One element written to or read from DR: two bytes (little endian) in 16-bit mode, one byte
  otherwise; the pointer and the counter advance.
\<close>

definition tx_elem :: "'h spi_env \<Rightarrow> bool \<Rightarrow> 'h spi_st \<Rightarrow> 'h spi_st" where
  "tx_elem e wide s =
     (let p = the (pTxBuffPtr (hspi s)) in
      s\<lparr>per := (if wide then wr_DR16 e (u16_of (mem s ! p) (mem s ! (p + 1))) (per s)
                else wr_DR8 e (mem s ! p) (per s)),
        hspi := (hspi s)\<lparr>pTxBuffPtr := Some (p + (if wide then 2 else 1)),
                        TxXferCount := TxXferCount (hspi s) - 1\<rparr>\<rparr>)"

definition rx_elem :: "'h spi_env \<Rightarrow> bool \<Rightarrow> 'h spi_st \<Rightarrow> 'h spi_st" where
  "rx_elem e wide s =
     (let p = the (pRxBuffPtr (hspi s)); (v, h) = rd_DR e (per s) in
      s\<lparr>per := h,
        mem := (if wide then (mem s)[p := lo8 v, p + 1 := hi8 v] else (mem s)[p := lo8 v]),
        hspi := (hspi s)\<lparr>pRxBuffPtr := Some (p + (if wide then 2 else 1)),
                        RxXferCount := RxXferCount (hspi s) - 1\<rparr>\<rparr>)"

section \<open>Waiting for flags\<close>

text \<open>The timeout branch of \<open>SPI_WaitFlagStateUntilTimeout\<close>.\<close>

definition wait_flag_timeout :: "'h spi_env \<Rightarrow> 'h spi_st \<Rightarrow> 'h spi_st" where
  "wait_flag_timeout e s =
     (let s = HAL_SPI_DISABLE_IT e (SPI_CR2_TXEIE OR SPI_CR2_RXNEIE OR SPI_CR2_ERRIE) s;
          s = (if Mode (Init (hspi s)) = SPI_MODE_MASTER \<and>
                  (Direction (Init (hspi s)) = SPI_DIRECTION_1LINE \<or>
                   Direction (Init (hspi s)) = SPI_DIRECTION_2LINES_RXONLY)
               then HAL_SPI_DISABLE e s else s);
          s = (if CRCCalculation (Init (hspi s)) = SPI_CRCCALCULATION_ENABLE
               then SPI_RESET_CRC e s else s)
      in HAL_UNLOCK (set_State HAL_SPI_STATE_READY s))"

partial_function (option) wait_flag_loop ::
  "'h spi_env \<Rightarrow> u32 \<Rightarrow> bool \<Rightarrow> u32 \<Rightarrow> u32 \<Rightarrow> u32 \<Rightarrow> u32 \<Rightarrow> 'h spi_st \<Rightarrow>
   (HAL_StatusTypeDef \<times> 'h spi_st) option" where
  "wait_flag_loop e flag st Timeout tmp_tickstart tmp_timeout count s =
     (case HAL_SPI_GET_FLAG e flag s of (f, s) \<Rightarrow>
        if f = st then Some (HAL_OK, s)
        else if Timeout \<noteq> HAL_MAX_DELAY then
          (case HAL_GetTick e s of (t, s) \<Rightarrow>
             if t - tmp_tickstart \<ge> tmp_timeout \<or> tmp_timeout = 0
             then Some (HAL_TIMEOUT, wait_flag_timeout e s)
             else wait_flag_loop e flag st Timeout tmp_tickstart
                    (if count = 0 then 0 else tmp_timeout) (if count = 0 then count else count - 1) s)
        else wait_flag_loop e flag st Timeout tmp_tickstart tmp_timeout count s)"

definition SPI_WaitFlagStateUntilTimeout ::
  "'h spi_env \<Rightarrow> u32 \<Rightarrow> bool \<Rightarrow> u32 \<Rightarrow> u32 \<Rightarrow> 'h spi_st \<Rightarrow> (HAL_StatusTypeDef \<times> 'h spi_st) option" where
  "SPI_WaitFlagStateUntilTimeout e flag st Timeout Tickstart s =
     (let (t, s) = HAL_GetTick e s;
          tmp_timeout = Timeout - (t - Tickstart);
          (tmp_tickstart, s) = HAL_GetTick e s;
          count = tmp_timeout * drop_bit 20 (SystemCoreClock_v s * 32)
      in wait_flag_loop e flag st Timeout tmp_tickstart tmp_timeout count s)"

text \<open>The slave branch: at most \<open>count\<close> polls of BSY, whose outcome is not used.\<close>

fun slave_bsy_loop :: "'h spi_env \<Rightarrow> nat \<Rightarrow> 'h spi_st \<Rightarrow> 'h spi_st" where
  "slave_bsy_loop e 0 s = s"
| "slave_bsy_loop e (Suc count) s =
     (case HAL_SPI_GET_FLAG e SPI_FLAG_BSY s of (f, s) \<Rightarrow> if f then slave_bsy_loop e count s else s)"

definition SPI_EndRxTxTransaction ::
  "'h spi_env \<Rightarrow> u32 \<Rightarrow> u32 \<Rightarrow> 'h spi_st \<Rightarrow> (HAL_StatusTypeDef \<times> 'h spi_st) option" where
  "SPI_EndRxTxTransaction e Timeout Tickstart s = do {
     (r, s) \<leftarrow> SPI_WaitFlagStateUntilTimeout e SPI_FLAG_TXE True Timeout Tickstart s;
     if r \<noteq> HAL_OK
     then Some (HAL_TIMEOUT, set_ErrorCode (ErrorCode (hspi s) OR HAL_SPI_ERROR_FLAG) s)
     else if Mode (Init (hspi s)) = SPI_MODE_MASTER
     then do {
       (r, s) \<leftarrow> SPI_WaitFlagStateUntilTimeout e SPI_FLAG_BSY False Timeout Tickstart s;
       if r \<noteq> HAL_OK
       then Some (HAL_TIMEOUT, set_ErrorCode (ErrorCode (hspi s) OR HAL_SPI_ERROR_FLAG) s)
       else Some (HAL_OK, s)
     }
     else Some (HAL_OK, slave_bsy_loop e
            (unat (1000 * (SystemCoreClock_v s div 24 div 1000000) :: u32)) s)
   }"

definition SPI_EndRxTransaction ::
  "'h spi_env \<Rightarrow> u32 \<Rightarrow> u32 \<Rightarrow> 'h spi_st \<Rightarrow> (HAL_StatusTypeDef \<times> 'h spi_st) option" where
  "SPI_EndRxTransaction e Timeout Tickstart s = do {
     let i = Init (hspi s);
     let s = (if Mode i = SPI_MODE_MASTER \<and>
                 (Direction i = SPI_DIRECTION_1LINE \<or> Direction i = SPI_DIRECTION_2LINES_RXONLY)
              then HAL_SPI_DISABLE e s else s);
     (r, s) \<leftarrow>
       (if Mode i = SPI_MODE_MASTER \<and> Direction i \<noteq> SPI_DIRECTION_2LINES_RXONLY
        then SPI_WaitFlagStateUntilTimeout e SPI_FLAG_BSY False Timeout Tickstart s
        else SPI_WaitFlagStateUntilTimeout e SPI_FLAG_RXNE False Timeout Tickstart s);
     if r \<noteq> HAL_OK
     then Some (HAL_TIMEOUT, set_ErrorCode (ErrorCode (hspi s) OR HAL_SPI_ERROR_FLAG) s)
     else Some (HAL_OK, s)
   }"

section \<open>Transmit\<close>

text \<open>The transfer loop; \<open>None\<close> as status when it ran to the end.\<close>

partial_function (option) tx_loop ::
  "'h spi_env \<Rightarrow> bool \<Rightarrow> u32 \<Rightarrow> u32 \<Rightarrow> 'h spi_st \<Rightarrow> (HAL_StatusTypeDef option \<times> 'h spi_st) option" where
  "tx_loop e wide Timeout tickstart s =
     (if TxXferCount (hspi s) > 0 then
        (case HAL_SPI_GET_FLAG e SPI_FLAG_TXE s of (f, s) \<Rightarrow>
           if f then tx_loop e wide Timeout tickstart (tx_elem e wide s)
           else (case HAL_GetTick e s of (t, s) \<Rightarrow>
             if (t - tickstart \<ge> Timeout \<and> Timeout \<noteq> HAL_MAX_DELAY) \<or> Timeout = 0
             then Some (Some HAL_TIMEOUT, HAL_UNLOCK (set_State HAL_SPI_STATE_READY s))
             else tx_loop e wide Timeout tickstart s))
      else Some (None, s))"

definition HAL_SPI_Transmit ::
  "'h spi_env \<Rightarrow> nat option \<Rightarrow> u16 \<Rightarrow> u32 \<Rightarrow> 'h spi_st \<Rightarrow> (HAL_StatusTypeDef \<times> 'h spi_st) option" where
  "HAL_SPI_Transmit e pData Size Timeout s =
     (let (tickstart, s) = HAL_GetTick e s in
      if State (hspi s) \<noteq> HAL_SPI_STATE_READY then Some (HAL_BUSY, s)
      else if pData = None \<or> Size = 0 then Some (HAL_ERROR, s)
      else if Lock (hspi s) = HAL_LOCKED then Some (HAL_BUSY, s)
      else do {
        let s = s\<lparr>hspi := (hspi s)\<lparr>Lock := HAL_LOCKED, State := HAL_SPI_STATE_BUSY_TX,
                  ErrorCode := HAL_SPI_ERROR_NONE, pTxBuffPtr := pData, TxXferSize := Size,
                  TxXferCount := Size, pRxBuffPtr := None, RxXferSize := 0, RxXferCount := 0\<rparr>\<rparr>;
        let s = (if Direction (Init (hspi s)) = SPI_DIRECTION_1LINE
                 then CR1_set e SPI_CR1_BIDIOE (HAL_SPI_DISABLE e s) else s);
        let s = enable_if_off e s;
        let wide = (DataSize (Init (hspi s)) = SPI_DATASIZE_16BIT);
        let s = (if Mode (Init (hspi s)) = SPI_MODE_SLAVE \<or> Size = 1 then tx_elem e wide s else s);
        (r, s) \<leftarrow> tx_loop e wide Timeout tickstart s;
        case r of Some r \<Rightarrow> Some (r, s)
        | None \<Rightarrow> do {
            (r, s) \<leftarrow> SPI_EndRxTxTransaction e Timeout tickstart s;
            let s = (if r \<noteq> HAL_OK then set_ErrorCode HAL_SPI_ERROR_FLAG s else s);
            let s = (if Direction (Init (hspi s)) = SPI_DIRECTION_2LINES
                     then HAL_SPI_CLEAR_OVRFLAG e s else s);
            let s = HAL_UNLOCK (set_State HAL_SPI_STATE_READY s);
            Some (if ErrorCode (hspi s) \<noteq> HAL_SPI_ERROR_NONE then HAL_ERROR else HAL_OK, s)
          }
      })"

section \<open>Full-duplex transfer and receive\<close>

partial_function (option) txrx_loop ::
  "'h spi_env \<Rightarrow> bool \<Rightarrow> u32 \<Rightarrow> u32 \<Rightarrow> bool \<Rightarrow> 'h spi_st \<Rightarrow> (HAL_StatusTypeDef option \<times> 'h spi_st) option" where
  "txrx_loop e wide Timeout tickstart txallowed s =
     (if TxXferCount (hspi s) > 0 \<or> RxXferCount (hspi s) > 0 then
        (case HAL_SPI_GET_FLAG e SPI_FLAG_TXE s of (f, s) \<Rightarrow>
         case (if f \<and> TxXferCount (hspi s) > 0 \<and> txallowed then (False, tx_elem e wide s)
               else (txallowed, s)) of (txallowed, s) \<Rightarrow>
         case HAL_SPI_GET_FLAG e SPI_FLAG_RXNE s of (f, s) \<Rightarrow>
         case (if f \<and> RxXferCount (hspi s) > 0 then (True, rx_elem e wide s)
               else (txallowed, s)) of (txallowed, s) \<Rightarrow>
         case HAL_GetTick e s of (t, s) \<Rightarrow>
           if (t - tickstart \<ge> Timeout \<and> Timeout \<noteq> HAL_MAX_DELAY) \<or> (Timeout = 0 \<and> \<not> wide)
           then Some (Some HAL_TIMEOUT, HAL_UNLOCK (set_State HAL_SPI_STATE_READY s))
           else txrx_loop e wide Timeout tickstart txallowed s)
      else Some (None, s))"

definition HAL_SPI_TransmitReceive ::
  "'h spi_env \<Rightarrow> nat option \<Rightarrow> nat option \<Rightarrow> u16 \<Rightarrow> u32 \<Rightarrow> 'h spi_st \<Rightarrow>
   (HAL_StatusTypeDef \<times> 'h spi_st) option" where
  "HAL_SPI_TransmitReceive e pTxData pRxData Size Timeout s =
     (let (tickstart, s) = HAL_GetTick e s; tmp_state = State (hspi s); tmp_mode = Mode (Init (hspi s)) in
      if \<not> (tmp_state = HAL_SPI_STATE_READY \<or>
            (tmp_mode = SPI_MODE_MASTER \<and> Direction (Init (hspi s)) = SPI_DIRECTION_2LINES \<and>
             tmp_state = HAL_SPI_STATE_BUSY_RX)) then Some (HAL_BUSY, s)
      else if pTxData = None \<or> pRxData = None \<or> Size = 0 then Some (HAL_ERROR, s)
      else if Lock (hspi s) = HAL_LOCKED then Some (HAL_BUSY, s)
      else do {
        let s = s\<lparr>hspi := (hspi s)\<lparr>Lock := HAL_LOCKED\<rparr>\<rparr>;
        let s = (if State (hspi s) \<noteq> HAL_SPI_STATE_BUSY_RX
                 then set_State HAL_SPI_STATE_BUSY_TX_RX s else s);
        let s = s\<lparr>hspi := (hspi s)\<lparr>ErrorCode := HAL_SPI_ERROR_NONE, pRxBuffPtr := pRxData,
                  RxXferCount := Size, RxXferSize := Size, pTxBuffPtr := pTxData,
                  TxXferCount := Size, TxXferSize := Size\<rparr>\<rparr>;
        let s = enable_if_off e s;
        let wide = (DataSize (Init (hspi s)) = SPI_DATASIZE_16BIT);
        let s = (if Mode (Init (hspi s)) = SPI_MODE_SLAVE \<or> Size = 1 then tx_elem e wide s else s);
        (r, s) \<leftarrow> txrx_loop e wide Timeout tickstart True s;
        case r of Some r \<Rightarrow> Some (r, s)
        | None \<Rightarrow> do {
            (r, s) \<leftarrow> SPI_EndRxTxTransaction e Timeout tickstart s;
            if r \<noteq> HAL_OK
            then Some (HAL_ERROR, HAL_UNLOCK (set_ErrorCode HAL_SPI_ERROR_FLAG s))
            else do {
              let s = (if Direction (Init (hspi s)) = SPI_DIRECTION_2LINES
                       then HAL_SPI_CLEAR_OVRFLAG e s else s);
              let s = HAL_UNLOCK (set_State HAL_SPI_STATE_READY s);
              Some (if ErrorCode (hspi s) \<noteq> HAL_SPI_ERROR_NONE then HAL_ERROR else HAL_OK, s)
            }
          }
      })"

partial_function (option) rx_loop ::
  "'h spi_env \<Rightarrow> bool \<Rightarrow> u32 \<Rightarrow> u32 \<Rightarrow> 'h spi_st \<Rightarrow> (HAL_StatusTypeDef option \<times> 'h spi_st) option" where
  "rx_loop e wide Timeout tickstart s =
     (if RxXferCount (hspi s) > 0 then
        (case HAL_SPI_GET_FLAG e SPI_FLAG_RXNE s of (f, s) \<Rightarrow>
           if f then rx_loop e wide Timeout tickstart (rx_elem e wide s)
           else (case HAL_GetTick e s of (t, s) \<Rightarrow>
             if (t - tickstart \<ge> Timeout \<and> Timeout \<noteq> HAL_MAX_DELAY) \<or> Timeout = 0
             then Some (Some HAL_TIMEOUT, HAL_UNLOCK (set_State HAL_SPI_STATE_READY s))
             else rx_loop e wide Timeout tickstart s))
      else Some (None, s))"

definition HAL_SPI_Receive ::
  "'h spi_env \<Rightarrow> nat option \<Rightarrow> u16 \<Rightarrow> u32 \<Rightarrow> 'h spi_st \<Rightarrow> (HAL_StatusTypeDef \<times> 'h spi_st) option" where
  "HAL_SPI_Receive e pData Size Timeout s =
     (if State (hspi s) \<noteq> HAL_SPI_STATE_READY then Some (HAL_BUSY, s)
      else if pData = None \<or> Size = 0 then Some (HAL_ERROR, s)
      else if Mode (Init (hspi s)) = SPI_MODE_MASTER \<and> Direction (Init (hspi s)) = SPI_DIRECTION_2LINES
      then HAL_SPI_TransmitReceive e pData pData Size Timeout (set_State HAL_SPI_STATE_BUSY_RX s)
      else (let (tickstart, s) = HAL_GetTick e s in
        if Lock (hspi s) = HAL_LOCKED then Some (HAL_BUSY, s)
        else do {
          let s = s\<lparr>hspi := (hspi s)\<lparr>Lock := HAL_LOCKED, State := HAL_SPI_STATE_BUSY_RX,
                    ErrorCode := HAL_SPI_ERROR_NONE, pRxBuffPtr := pData, RxXferSize := Size,
                    RxXferCount := Size, pTxBuffPtr := None, TxXferSize := 0, TxXferCount := 0\<rparr>\<rparr>;
          let s = (if Direction (Init (hspi s)) = SPI_DIRECTION_1LINE
                   then CR1_clear e SPI_CR1_BIDIOE (HAL_SPI_DISABLE e s) else s);
          let s = enable_if_off e s;
          (r, s) \<leftarrow> rx_loop e (DataSize (Init (hspi s)) \<noteq> SPI_DATASIZE_8BIT) Timeout tickstart s;
          case r of Some r \<Rightarrow> Some (r, s)
          | None \<Rightarrow> do {
              (r, s) \<leftarrow> SPI_EndRxTransaction e Timeout tickstart s;
              let s = (if r \<noteq> HAL_OK then set_ErrorCode HAL_SPI_ERROR_FLAG s else s);
              let s = HAL_UNLOCK (set_State HAL_SPI_STATE_READY s);
              Some (if ErrorCode (hspi s) \<noteq> HAL_SPI_ERROR_NONE then HAL_ERROR else HAL_OK, s)
            }
        }))"

section \<open>Initialisation\<close>

text \<open>\<open>msp\<close> is \<open>HAL_SPI_MspInit\<close>; the handle pointer is never NULL here.\<close>

definition HAL_SPI_Init :: "'h spi_env \<Rightarrow> ('h \<Rightarrow> 'h) \<Rightarrow> 'h spi_st \<Rightarrow> HAL_StatusTypeDef \<times> 'h spi_st" where
  "HAL_SPI_Init e msp s =
     (let i = Init (hspi s);
          i = (if TIMode i = SPI_TIMODE_DISABLE
               then (if Mode i = SPI_MODE_MASTER then i
                     else i\<lparr>BaudRatePrescaler := SPI_BAUDRATEPRESCALER_2\<rparr>)
               else i\<lparr>CLKPolarity := SPI_POLARITY_LOW, CLKPhase := SPI_PHASE_1EDGE\<rparr>);
          i = i\<lparr>CRCCalculation := SPI_CRCCALCULATION_DISABLE\<rparr>;
          s = s\<lparr>hspi := (hspi s)\<lparr>Init := i\<rparr>\<rparr>;
          s = (if State (hspi s) = HAL_SPI_STATE_RESET
               then s\<lparr>hspi := (hspi s)\<lparr>Lock := HAL_UNLOCKED\<rparr>, per := msp (per s)\<rparr> else s);
          s = set_State HAL_SPI_STATE_BUSY s;
          s = HAL_SPI_DISABLE e s;
          s = s\<lparr>per := wr_CR1 e
                 ((Mode i AND (SPI_CR1_MSTR OR SPI_CR1_SSI)) OR
                  (Direction i AND (SPI_CR1_RXONLY OR SPI_CR1_BIDIMODE)) OR
                  (DataSize i AND SPI_CR1_DFF) OR
                  (CLKPolarity i AND SPI_CR1_CPOL) OR
                  (CLKPhase i AND SPI_CR1_CPHA) OR
                  (NSS i AND SPI_CR1_SSM) OR
                  (BaudRatePrescaler i AND SPI_CR1_BR_Msk) OR
                  (FirstBit i AND SPI_CR1_LSBFIRST) OR
                  (CRCCalculation i AND SPI_CR1_CRCEN)) (per s)\<rparr>;
          s = s\<lparr>per := wr_CR2 e
                 ((drop_bit 16 (NSS i) AND SPI_CR2_SSOE) OR (TIMode i AND SPI_CR2_FRF)) (per s)\<rparr>;
          s = s\<lparr>per := wr_I2SCFGR e (rd_I2SCFGR e (per s) AND NOT SPI_I2SCFGR_I2SMOD) (per s)\<rparr>;
          s = set_State HAL_SPI_STATE_READY (set_ErrorCode HAL_SPI_ERROR_NONE s)
      in (HAL_OK, s))"

text \<open>\<open>MX_SPI1_Init\<close> of \<open>main.c\<close>; \<open>Error_Handler\<close> does not return.\<close>

definition spi1_Init :: SPI_InitTypeDef where
  "spi1_Init = \<lparr>
     Mode = SPI_MODE_MASTER,
     Direction = SPI_DIRECTION_2LINES,
     DataSize = SPI_DATASIZE_8BIT,
     CLKPolarity = SPI_POLARITY_LOW,
     CLKPhase = SPI_PHASE_1EDGE,
     NSS = SPI_NSS_SOFT,
     BaudRatePrescaler = SPI_BAUDRATEPRESCALER_4,
     FirstBit = SPI_FIRSTBIT_MSB,
     TIMode = SPI_TIMODE_DISABLE,
     CRCCalculation = SPI_CRCCALCULATION_DISABLE,
     CRCPolynomial = 10\<rparr>"

definition MX_SPI1_Init :: "'h spi_env \<Rightarrow> ('h \<Rightarrow> 'h) \<Rightarrow> 'h spi_st \<Rightarrow> 'h spi_st option" where
  "MX_SPI1_Init e msp s =
     (let s = s\<lparr>hspi := (hspi s)\<lparr>Init := spi1_Init\<rparr>\<rparr>;
          (r, s) = HAL_SPI_Init e msp s
      in if r \<noteq> HAL_OK then None else Some s)"

section \<open>GPIO and delay\<close>

datatype GPIO_PinState = GPIO_PIN_RESET | GPIO_PIN_SET

text \<open>\<open>bsrr\<close> writes the BSRR register of the port.\<close>

definition HAL_GPIO_WritePin :: "(u32 \<Rightarrow> 'h \<Rightarrow> 'h) \<Rightarrow> u16 \<Rightarrow> GPIO_PinState \<Rightarrow> 'h \<Rightarrow> 'h" where
  "HAL_GPIO_WritePin bsrr GPIO_Pin PinState h =
     (if PinState \<noteq> GPIO_PIN_RESET then bsrr (ucast GPIO_Pin) h
      else bsrr (push_bit 16 (ucast GPIO_Pin)) h)"

definition uwTickFreq :: u32 where "uwTickFreq = 1"

partial_function (option) delay_loop :: "'h spi_env \<Rightarrow> u32 \<Rightarrow> u32 \<Rightarrow> 'h spi_st \<Rightarrow> 'h spi_st option" where
  "delay_loop e tickstart wait s =
     (case HAL_GetTick e s of (t, s) \<Rightarrow>
        if t - tickstart < wait then delay_loop e tickstart wait s else Some s)"

definition HAL_Delay :: "'h spi_env \<Rightarrow> u32 \<Rightarrow> 'h spi_st \<Rightarrow> 'h spi_st option" where
  "HAL_Delay e d s =
     (let (tickstart, s) = HAL_GetTick e s;
          wait = (if d < HAL_MAX_DELAY then d + uwTickFreq else d)
      in delay_loop e tickstart wait s)"

section \<open>The pointers handed to the driver\<close>

text \<open>
  \<open>enc28j60_driver/Src/spiHwdInterface.c\<close>.  \<open>ptrData\<close> is the contents of the caller's
  buffer; a read gives the buffer back as the call leaves it.
\<close>

definition MAX_TIME_OUT :: u32 where "MAX_TIME_OUT = 1000"

definition ENC28J60_CS_Pin :: u16 where "ENC28J60_CS_Pin = 0x0040"

definition spi1ChipSelect :: "'h spi_env \<Rightarrow> 'h spi_st \<Rightarrow> 'h spi_st" where
  "spi1ChipSelect e s =
     s\<lparr>per := HAL_GPIO_WritePin (wr_BSRR_B e) ENC28J60_CS_Pin GPIO_PIN_RESET (per s)\<rparr>"

definition spi1ChipDeSelect :: "'h spi_env \<Rightarrow> 'h spi_st \<Rightarrow> 'h spi_st" where
  "spi1ChipDeSelect e s =
     s\<lparr>per := HAL_GPIO_WritePin (wr_BSRR_B e) ENC28J60_CS_Pin GPIO_PIN_SET (per s)\<rparr>"

definition spi1Read :: "'h spi_env \<Rightarrow> u8 list \<Rightarrow> u16 \<Rightarrow> 'h spi_st \<Rightarrow> ((u8 list \<times> u16) \<times> 'h spi_st) option" where
  "spi1Read e ptrData u16length s = do {
     (r, s) \<leftarrow> HAL_SPI_Receive e (Some 0) u16length MAX_TIME_OUT (s\<lparr>mem := ptrData\<rparr>);
     Some ((mem s, if r = HAL_OK then 1 else 0), s)
   }"

definition spi1Write :: "'h spi_env \<Rightarrow> u8 list \<Rightarrow> u16 \<Rightarrow> 'h spi_st \<Rightarrow> 'h spi_st option" where
  "spi1Write e ptrData u16length s = do {
     (r, s) \<leftarrow> HAL_SPI_Transmit e (Some 0) u16length MAX_TIME_OUT (s\<lparr>mem := ptrData\<rparr>);
     Some s
   }"

definition delayMsFunction :: "'h spi_env \<Rightarrow> u32 \<Rightarrow> 'h spi_st \<Rightarrow> 'h spi_st option" where
  "delayMsFunction e ms s = HAL_Delay e ms s"

section \<open>The handle after a call\<close>

definition hal_idle :: "'h spi_st \<Rightarrow> bool" where
  "hal_idle s \<longleftrightarrow> State (hspi s) = HAL_SPI_STATE_READY \<and> Lock (hspi s) = HAL_UNLOCKED"

text \<open>The fields of the handle that the transfer loops leave alone.\<close>

definition ctl :: "'h spi_st \<Rightarrow> HAL_SPI_StateTypeDef \<times> HAL_LockTypeDef \<times> SPI_InitTypeDef \<times> u32" where
  "ctl s = (State (hspi s), Lock (hspi s), Init (hspi s), ErrorCode (hspi s))"

lemma ctl_access [simp]:
  "ctl (snd (HAL_GetTick e s)) = ctl s"
  "ctl (snd (HAL_SPI_GET_FLAG e f s)) = ctl s"
  "ctl (CR1_set e b s) = ctl s" "ctl (CR1_clear e b s) = ctl s"
  "ctl (HAL_SPI_ENABLE e s) = ctl s" "ctl (HAL_SPI_DISABLE e s) = ctl s"
  "ctl (HAL_SPI_DISABLE_IT e b s) = ctl s" "ctl (SPI_RESET_CRC e s) = ctl s"
  "ctl (HAL_SPI_CLEAR_OVRFLAG e s) = ctl s" "ctl (enable_if_off e s) = ctl s"
  "ctl (tx_elem e w s) = ctl s" "ctl (rx_elem e w s) = ctl s"
  by (simp_all add: ctl_def HAL_GetTick_def HAL_SPI_GET_FLAG_def CR1_set_def CR1_clear_def
      HAL_SPI_ENABLE_def HAL_SPI_DISABLE_def HAL_SPI_DISABLE_IT_def SPI_RESET_CRC_def
      HAL_SPI_CLEAR_OVRFLAG_def enable_if_off_def tx_elem_def rx_elem_def Let_def split_beta)

lemma ctl_fst_snd:
  "HAL_GetTick e s = (t, s') \<Longrightarrow> ctl s' = ctl s"
  "HAL_SPI_GET_FLAG e f s = (b, s') \<Longrightarrow> ctl s' = ctl s"
  by (metis ctl_access(1) snd_conv, metis ctl_access(2) snd_conv)

lemma ctl_idle: "ctl s' = ctl s \<Longrightarrow> hal_idle s' = hal_idle s"
  by (simp add: ctl_def hal_idle_def)

lemma ctl_Init: "ctl s' = ctl s \<Longrightarrow> Init (hspi s') = Init (hspi s)"
  by (simp add: ctl_def)

lemma idle_unlock [simp]:
  "hal_idle (HAL_UNLOCK (set_State HAL_SPI_STATE_READY s))"
  "Init (hspi (HAL_UNLOCK s)) = Init (hspi s)" "Init (hspi (set_State st s)) = Init (hspi s)"
  "Init (hspi (set_ErrorCode v s)) = Init (hspi s)"
  "hal_idle (set_ErrorCode v s) = hal_idle s"
  "State (hspi (set_State st s)) = st" "Lock (hspi (set_State st s)) = Lock (hspi s)"
  "hal_idle s \<Longrightarrow> hal_idle (HAL_UNLOCK s)"
  by (simp_all add: hal_idle_def HAL_UNLOCK_def set_State_def set_ErrorCode_def)

lemmas Init_access [simp] = ctl_access [THEN ctl_Init]

lemma wait_flag_timeout_idle [simp]:
  "hal_idle (wait_flag_timeout e s)" "Init (hspi (wait_flag_timeout e s)) = Init (hspi s)"
  by (simp_all add: wait_flag_timeout_def Let_def)

text \<open>A wait or a transfer loop ends with the control fields as they were, or with the handle released.\<close>

definition ends_ok :: "bool \<Rightarrow> 'h spi_st \<Rightarrow> 'h spi_st \<Rightarrow> bool" where
  "ends_ok good s s' \<longleftrightarrow> (if good then ctl s' = ctl s else hal_idle s' \<and> Init (hspi s') = Init (hspi s))"

lemma ends_ok_trans: "ctl s1 = ctl s \<Longrightarrow> ends_ok g s1 s' \<Longrightarrow> ends_ok g s s'"
  by (simp add: ends_ok_def ctl_def split: if_splits)

lemma wait_flag_loop_ends:
  assumes "wait_flag_loop e flag st T t0 tt c s = Some (r, s')"
  shows "ends_ok (r = HAL_OK) s s'"
proof -
  have "(\<lambda>e flag st T t0 tt c s y. ends_ok (fst y = HAL_OK) s (snd y)) e flag st T t0 tt c s (r, s')"
  proof (rule wait_flag_loop.raw_induct [OF _ assms])
    fix f :: "'a spi_env \<Rightarrow> u32 \<Rightarrow> bool \<Rightarrow> u32 \<Rightarrow> u32 \<Rightarrow> u32 \<Rightarrow> u32 \<Rightarrow> 'a spi_st \<Rightarrow> (HAL_StatusTypeDef \<times> 'a spi_st) option"
      and e flag st T t0 tt c s y
    assume IH: "\<And>e flag st T t0 tt c s y. f e flag st T t0 tt c s = Some y \<Longrightarrow> ends_ok (fst y = HAL_OK) s (snd y)"
      and eq: "(case HAL_SPI_GET_FLAG e flag s of (fl, s) \<Rightarrow>
        if fl = st then Some (HAL_OK, s)
        else if T \<noteq> HAL_MAX_DELAY then
          (case HAL_GetTick e s of (t, s) \<Rightarrow>
             if tt \<le> t - t0 \<or> tt = 0 then Some (HAL_TIMEOUT, wait_flag_timeout e s)
             else f e flag st T t0 (if c = 0 then 0 else tt) (if c = 0 then c else c - 1) s)
        else f e flag st T t0 tt c s) = Some y"
    obtain fl s1 where g: "HAL_SPI_GET_FLAG e flag s = (fl, s1)" by fastforce
    obtain t s2 where k: "HAL_GetTick e s1 = (t, s2)" by fastforce
    have c1: "ctl s1 = ctl s" and c2: "ctl s2 = ctl s" using ctl_fst_snd g k by metis+
    show "ends_ok (fst y = HAL_OK) s (snd y)"
      using eq IH [THEN ends_ok_trans [OF c1]] IH [THEN ends_ok_trans [OF c2]]
      by (auto simp: g k ends_ok_def c1 ctl_Init [OF c2] split: if_splits)
  qed
  then show ?thesis by simp
qed

lemma tx_loop_ends:
  assumes "tx_loop e w T t0 s = Some (r, s')"
  shows "ends_ok (r = None) s s'"
proof -
  have "(\<lambda>e w T t0 s y. ends_ok (fst y = None) s (snd y)) e w T t0 s (r, s')"
  proof (rule tx_loop.raw_induct [OF _ assms])
    fix f :: "'a spi_env \<Rightarrow> bool \<Rightarrow> u32 \<Rightarrow> u32 \<Rightarrow> 'a spi_st \<Rightarrow> (HAL_StatusTypeDef option \<times> 'a spi_st) option"
      and e w T t0 s y
    assume IH: "\<And>e w T t0 s y. f e w T t0 s = Some y \<Longrightarrow> ends_ok (fst y = None) s (snd y)"
      and eq: "(if TxXferCount (hspi s) > 0 then
        (case HAL_SPI_GET_FLAG e SPI_FLAG_TXE s of (fl, s) \<Rightarrow>
           if fl then f e w T t0 (tx_elem e w s)
           else (case HAL_GetTick e s of (t, s) \<Rightarrow>
             if T \<le> t - t0 \<and> T \<noteq> HAL_MAX_DELAY \<or> T = 0
             then Some (Some HAL_TIMEOUT, HAL_UNLOCK (set_State HAL_SPI_STATE_READY s))
             else f e w T t0 s))
        else Some (None, s)) = Some y"
    obtain fl s1 where g: "HAL_SPI_GET_FLAG e SPI_FLAG_TXE s = (fl, s1)" by fastforce
    obtain t s2 where k: "HAL_GetTick e s1 = (t, s2)" by fastforce
    have c1: "ctl (tx_elem e w s1) = ctl s" and c2: "ctl s2 = ctl s"
      using ctl_fst_snd g k ctl_access(11) by metis+
    show "ends_ok (fst y = None) s (snd y)"
      using eq IH [THEN ends_ok_trans [OF c1]] IH [THEN ends_ok_trans [OF c2]]
      by (auto simp: g k ends_ok_def ctl_Init [OF c2] split: if_splits)
  qed
  then show ?thesis by simp
qed

lemma rx_loop_ends:
  assumes "rx_loop e w T t0 s = Some (r, s')"
  shows "ends_ok (r = None) s s'"
proof -
  have "(\<lambda>e w T t0 s y. ends_ok (fst y = None) s (snd y)) e w T t0 s (r, s')"
  proof (rule rx_loop.raw_induct [OF _ assms])
    fix f :: "'a spi_env \<Rightarrow> bool \<Rightarrow> u32 \<Rightarrow> u32 \<Rightarrow> 'a spi_st \<Rightarrow> (HAL_StatusTypeDef option \<times> 'a spi_st) option"
      and e w T t0 s y
    assume IH: "\<And>e w T t0 s y. f e w T t0 s = Some y \<Longrightarrow> ends_ok (fst y = None) s (snd y)"
      and eq: "(if RxXferCount (hspi s) > 0 then
        (case HAL_SPI_GET_FLAG e SPI_FLAG_RXNE s of (fl, s) \<Rightarrow>
           if fl then f e w T t0 (rx_elem e w s)
           else (case HAL_GetTick e s of (t, s) \<Rightarrow>
             if T \<le> t - t0 \<and> T \<noteq> HAL_MAX_DELAY \<or> T = 0
             then Some (Some HAL_TIMEOUT, HAL_UNLOCK (set_State HAL_SPI_STATE_READY s))
             else f e w T t0 s))
        else Some (None, s)) = Some y"
    obtain fl s1 where g: "HAL_SPI_GET_FLAG e SPI_FLAG_RXNE s = (fl, s1)" by fastforce
    obtain t s2 where k: "HAL_GetTick e s1 = (t, s2)" by fastforce
    have c1: "ctl (rx_elem e w s1) = ctl s" and c2: "ctl s2 = ctl s"
      using ctl_fst_snd g k ctl_access(12) by metis+
    show "ends_ok (fst y = None) s (snd y)"
      using eq IH [THEN ends_ok_trans [OF c1]] IH [THEN ends_ok_trans [OF c2]]
      by (auto simp: g k ends_ok_def ctl_Init [OF c2] split: if_splits)
  qed
  then show ?thesis by simp
qed

lemma ctl_if:
  "ctl (snd (if b then (a, tx_elem e w s) else (a', s))) = ctl s"
  "ctl (snd (if b then (a, rx_elem e w s) else (a', s))) = ctl s"
  by simp_all

lemma txrx_loop_ends:
  assumes "txrx_loop e w T t0 al s = Some (r, s')"
  shows "ends_ok (r = None) s s'"
proof -
  have "(\<lambda>e w T t0 al s y. ends_ok (fst y = None) s (snd y)) e w T t0 al s (r, s')"
  proof (rule txrx_loop.raw_induct [OF _ assms])
    fix f :: "'a spi_env \<Rightarrow> bool \<Rightarrow> u32 \<Rightarrow> u32 \<Rightarrow> bool \<Rightarrow> 'a spi_st \<Rightarrow> (HAL_StatusTypeDef option \<times> 'a spi_st) option"
      and e w T t0 al s y
    assume IH: "\<And>e w T t0 al s y. f e w T t0 al s = Some y \<Longrightarrow> ends_ok (fst y = None) s (snd y)"
      and eq: "(if TxXferCount (hspi s) > 0 \<or> RxXferCount (hspi s) > 0 then
        (case HAL_SPI_GET_FLAG e SPI_FLAG_TXE s of (fl, s) \<Rightarrow>
         case (if fl \<and> TxXferCount (hspi s) > 0 \<and> al then (False, tx_elem e w s)
               else (al, s)) of (al, s) \<Rightarrow>
         case HAL_SPI_GET_FLAG e SPI_FLAG_RXNE s of (fl, s) \<Rightarrow>
         case (if fl \<and> RxXferCount (hspi s) > 0 then (True, rx_elem e w s)
               else (al, s)) of (al, s) \<Rightarrow>
         case HAL_GetTick e s of (t, s) \<Rightarrow>
           if (T \<le> t - t0 \<and> T \<noteq> HAL_MAX_DELAY) \<or> (T = 0 \<and> \<not> w)
           then Some (Some HAL_TIMEOUT, HAL_UNLOCK (set_State HAL_SPI_STATE_READY s))
           else f e w T t0 al s)
      else Some (None, s)) = Some y"
    obtain f1 s1 where g1: "HAL_SPI_GET_FLAG e SPI_FLAG_TXE s = (f1, s1)" by fastforce
    obtain a2 s2 where g2: "(if f1 \<and> TxXferCount (hspi s1) > 0 \<and> al then (False, tx_elem e w s1)
        else (al, s1)) = (a2, s2)" by fastforce
    obtain f3 s3 where g3: "HAL_SPI_GET_FLAG e SPI_FLAG_RXNE s2 = (f3, s3)" by fastforce
    obtain a4 s4 where g4: "(if f3 \<and> RxXferCount (hspi s3) > 0 then (True, rx_elem e w s3)
        else (a2, s3)) = (a4, s4)" by fastforce
    obtain t s5 where g5: "HAL_GetTick e s4 = (t, s5)" by fastforce
    have c5: "ctl s5 = ctl s"
      using ctl_fst_snd(2) [OF g1] ctl_fst_snd(2) [OF g3] ctl_fst_snd(1) [OF g5]
        arg_cong [OF g2, of "\<lambda>p. ctl (snd p)"] arg_cong [OF g4, of "\<lambda>p. ctl (snd p)"]
      by (simp add: ctl_if)
    show "ends_ok (fst y = None) s (snd y)"
      using eq IH [THEN ends_ok_trans [OF c5]]
      by (auto simp: g1 g2 g3 g4 g5 ends_ok_def ctl_Init [OF c5] split: if_splits)
  qed
  then show ?thesis by simp
qed

lemma WaitFlag_ends:
  "SPI_WaitFlagStateUntilTimeout e f st T t0 s = Some (r, s') \<Longrightarrow> ends_ok (r = HAL_OK) s s'"
  unfolding SPI_WaitFlagStateUntilTimeout_def Let_def split_beta
  by (drule wait_flag_loop_ends, erule ends_ok_trans [rotated]) simp

lemma slave_bsy_ctl [simp]: "ctl (slave_bsy_loop e n s) = ctl s"
  by (induction n arbitrary: s) (auto split: prod.split simp: ctl_fst_snd)

lemma EndRxTx_ends:
  assumes "SPI_EndRxTxTransaction e T t0 s = Some (r, s')"
  shows "ends_ok (r = HAL_OK) s s'"
proof -
  obtain r1 s1 where w: "SPI_WaitFlagStateUntilTimeout e SPI_FLAG_TXE True T t0 s = Some (r1, s1)"
    using assms by (auto simp: SPI_EndRxTxTransaction_def bind_eq_Some_conv)
  note e1 = WaitFlag_ends [OF w]
  show ?thesis
  proof (cases "r1 = HAL_OK")
    case False
    with e1 assms w show ?thesis by (auto simp: SPI_EndRxTxTransaction_def ends_ok_def)
  next
    case True
    with e1 have c1: "ctl s1 = ctl s" by (simp add: ends_ok_def)
    from True assms w show ?thesis
      by (auto simp: SPI_EndRxTxTransaction_def bind_eq_Some_conv ends_ok_def ctl_Init [OF c1] c1
          dest!: WaitFlag_ends split: if_splits)
  qed
qed

lemma EndRx_ends:
  assumes "SPI_EndRxTransaction e T t0 s = Some (r, s')"
  shows "ends_ok (r = HAL_OK) s s'"
  using assms
  by (auto simp: SPI_EndRxTransaction_def bind_eq_Some_conv Let_def ends_ok_def
      dest!: WaitFlag_ends split: if_splits)

text \<open>
  Whatever the peripheral does, a blocking call that returns leaves an idle handle idle and its
  configuration unchanged, so the next call is not refused as busy.
\<close>

text \<open>\<open>post Q m\<close>: if \<open>m\<close> returns, its result satisfies \<open>Q\<close>.\<close>

definition post :: "('a \<Rightarrow> bool) \<Rightarrow> 'a option \<Rightarrow> bool" where
  "post Q m \<longleftrightarrow> (\<forall>x. m = Some x \<longrightarrow> Q x)"

lemma post_Some: "Q x \<Longrightarrow> post Q (Some x)"
  by (simp add: post_def)

lemma post_mono: "post P m \<Longrightarrow> (\<And>x. P x \<Longrightarrow> Q x) \<Longrightarrow> post Q m"
  by (simp add: post_def)

lemma post_bind: "post P m \<Longrightarrow> (\<And>x. P x \<Longrightarrow> post Q (f x)) \<Longrightarrow> post Q (m \<bind> f)"
  by (auto simp: post_def bind_eq_Some_conv)

lemma post_let: "(\<And>x. x = a \<Longrightarrow> post Q (f x)) \<Longrightarrow> post Q (Let a f)"
  by (simp add: post_def)

lemma post_if: "(b \<Longrightarrow> post Q x) \<Longrightarrow> (\<not> b \<Longrightarrow> post Q y) \<Longrightarrow> post Q (if b then x else y)"
  by simp

lemma post_prod: "post Q (f (fst p) (snd p)) \<Longrightarrow> post Q (case p of (a, b) \<Rightarrow> f a b)"
  by (cases p) simp

lemma post_option:
  "(x = None \<Longrightarrow> post Q y) \<Longrightarrow> (\<And>a. x = Some a \<Longrightarrow> post Q (f a)) \<Longrightarrow>
   post Q (case x of None \<Rightarrow> y | Some a \<Rightarrow> f a)"
  by (cases x) simp_all

lemma ends_post:
  "post (\<lambda>p. ends_ok (fst p = None) s (snd p)) (tx_loop e w T t0 s)"
  "post (\<lambda>p. ends_ok (fst p = None) s (snd p)) (rx_loop e w T t0 s)"
  "post (\<lambda>p. ends_ok (fst p = None) s (snd p)) (txrx_loop e w T t0 al s)"
  "post (\<lambda>p. ends_ok (fst p = HAL_OK) s (snd p)) (SPI_EndRxTxTransaction e T t0 s)"
  "post (\<lambda>p. ends_ok (fst p = HAL_OK) s (snd p)) (SPI_EndRxTransaction e T t0 s)"
  using tx_loop_ends rx_loop_ends txrx_loop_ends EndRxTx_ends EndRx_ends
  by (fastforce simp: post_def)+

lemmas post_intros = post_let post_prod post_if post_option post_Some post_bind [OF ends_post(1)]
  post_bind [OF ends_post(2)] post_bind [OF ends_post(3)] post_bind [OF ends_post(4)]
  post_bind [OF ends_post(5)]

lemma endsD: "ends_ok g s s' \<Longrightarrow> (\<not> g \<longrightarrow> hal_idle s') \<and> Init (hspi s') = Init (hspi s)"
  by (cases g) (simp_all add: ends_ok_def ctl_def)

lemma Init_if: "Init (hspi (if b then x else y)) = (if b then Init (hspi x) else Init (hspi y))"
  by simp

lemma GetTick_frame [simp]: "hspi (snd (HAL_GetTick e s)) = hspi s"
  by (simp add: HAL_GetTick_def Let_def split_beta)

definition idle_as :: "'h spi_st \<Rightarrow> HAL_StatusTypeDef \<times> 'h spi_st \<Rightarrow> bool" where
  "idle_as s p \<longleftrightarrow> hal_idle (snd p) \<and> Init (hspi (snd p)) = Init (hspi s)"

lemma HAL_SPI_Transmit_post: "hal_idle s \<Longrightarrow> post (idle_as s) (HAL_SPI_Transmit e p n T s)"
  unfolding HAL_SPI_Transmit_def
  by (intro post_intros)
    (auto simp: idle_as_def hal_idle_def [of s] hal_idle_def [of "snd (HAL_GetTick e s)"]
      Init_if dest!: endsD)

lemma HAL_SPI_TransmitReceive_post:
  assumes "Lock (hspi s) = HAL_UNLOCKED"
    and "State (hspi s) = HAL_SPI_STATE_READY \<or>
      State (hspi s) = HAL_SPI_STATE_BUSY_RX \<and> Mode (Init (hspi s)) = SPI_MODE_MASTER \<and>
      Direction (Init (hspi s)) = SPI_DIRECTION_2LINES \<and> p \<noteq> None \<and> q \<noteq> None \<and> n \<noteq> 0"
  shows "post (idle_as s) (HAL_SPI_TransmitReceive e p q n T s)"
  using assms unfolding HAL_SPI_TransmitReceive_def
  by (intro post_intros)
    (auto simp: idle_as_def hal_idle_def [of "snd (HAL_GetTick e s)"] Init_if dest!: endsD)

lemma HAL_SPI_Receive_post: "hal_idle s \<Longrightarrow> post (idle_as s) (HAL_SPI_Receive e p n T s)"
  unfolding HAL_SPI_Receive_def
  by (intro post_intros HAL_SPI_TransmitReceive_post [THEN post_mono])
    (auto simp: idle_as_def hal_idle_def [of s] hal_idle_def [of "snd (HAL_GetTick e s)"]
      Init_if dest!: endsD)

end
