(* ===== verification/Enc_Types.thy ===== *)
theory Enc_Types
  imports Enc_Prelude
begin

text \<open>
  The data of the ENC28J60 driver, from \<open>enc28j60_driver/Inc/enc28j60_hwd.h\<close> and the
  initialiser of \<open>dev\<close> at the end of \<open>enc28j60_driver/Src/enc28j60_hwd.c\<close>.

  A struct is a record with the fields of the source in their order; where two structs share a
  field name (\<open>commonRegs\<close>, \<open>undefined1\<close>, \<open>data\<close>, ...) the name carries a suffix
  for its struct.  The unions that overlay a 16-bit value with its two bytes are the 16-bit
  value, their byte members the functions \<open>lo8\<close> and \<open>hi8\<close> (the target is little-endian).
  The driver is polymorphic in the type \<open>'w\<close> of the hardware behind its function pointers;
  a function pointer is an option, \<open>None\<close> being NULL.
\<close>

section \<open>Function pointer types and constants\<close>

type_synonym 'w spiChipSel = "('w \<Rightarrow> 'w) option"
type_synonym 'w spiChipDSl = "('w \<Rightarrow> 'w) option"
type_synonym 'w slaveWrite = "(u8 list \<Rightarrow> 'w \<Rightarrow> 'w) option"
type_synonym 'w intHandler = "('w \<Rightarrow> 'w) option"
type_synonym 'w slaveRead = "(u16 \<Rightarrow> 'w \<Rightarrow> (u8 list \<times> u16) \<times> 'w) option"
type_synonym 'w delayMs = "(u32 \<Rightarrow> 'w \<Rightarrow> 'w) option"

definition BANK_0 :: u8 where "BANK_0 = 0"
definition BANK_1 :: u8 where "BANK_1 = push_bit 6 0x01"
definition BANK_2 :: u8 where "BANK_2 = push_bit 7 0x01"
definition BANK_3 :: u8 where "BANK_3 = push_bit 6 0x03"

datatype encj28j60_bank = bank_0 | bank_1 | bank_2 | bank_3 | undefBank

text \<open>The integer value of the enumerators; \<open>undefBank\<close> follows \<open>bank_3\<close>.\<close>

fun bank_val :: "encj28j60_bank \<Rightarrow> u8" where
  "bank_val bank_0 = BANK_0"
| "bank_val bank_1 = BANK_1"
| "bank_val bank_2 = BANK_2"
| "bank_val bank_3 = BANK_3"
| "bank_val undefBank = BANK_3 + 1"

datatype enc28j60_wUp_int_flag =
  BCWOLIF | MCWOLIF | HTWOLIF | MPWOLIF | PMWOLIF | AWOLIF | UCWOLIF

fun wUp_int_flag_val :: "enc28j60_wUp_int_flag \<Rightarrow> u8" where
  "wUp_int_flag_val BCWOLIF = push_bit 0 1"
| "wUp_int_flag_val MCWOLIF = push_bit 1 1"
| "wUp_int_flag_val HTWOLIF = push_bit 2 1"
| "wUp_int_flag_val MPWOLIF = push_bit 3 1"
| "wUp_int_flag_val PMWOLIF = push_bit 4 1"
| "wUp_int_flag_val AWOLIF = push_bit 6 1"
| "wUp_int_flag_val UCWOLIF = push_bit 7 1"

datatype enc28j60_eth_int_flag =
  RXERIF | TXERIF | WOLIF | TXIF | LINKIF | DMAIF | PKTIF

fun eth_int_flag_val :: "enc28j60_eth_int_flag \<Rightarrow> u8" where
  "eth_int_flag_val RXERIF = push_bit 0 1"
| "eth_int_flag_val TXERIF = push_bit 1 1"
| "eth_int_flag_val WOLIF = push_bit 2 1"
| "eth_int_flag_val TXIF = push_bit 3 1"
| "eth_int_flag_val LINKIF = push_bit 4 1"
| "eth_int_flag_val DMAIF = push_bit 5 1"
| "eth_int_flag_val PKTIF = push_bit 6 1"

datatype rx_filter_control =
  RX_BROADCAST | RX_MULTICAST | RX_HASH_TABLE | RX_MAGIC_PACKET
  | RX_PATTERN_MATCH | RX_CRC_CHECK | RX_AND_OR_CHECK | RX_UNICAST

fun rx_filter_val :: "rx_filter_control \<Rightarrow> u8" where
  "rx_filter_val RX_BROADCAST = push_bit 0 1"
| "rx_filter_val RX_MULTICAST = push_bit 1 1"
| "rx_filter_val RX_HASH_TABLE = push_bit 2 1"
| "rx_filter_val RX_MAGIC_PACKET = push_bit 3 1"
| "rx_filter_val RX_PATTERN_MATCH = push_bit 4 1"
| "rx_filter_val RX_CRC_CHECK = push_bit 5 1"
| "rx_filter_val RX_AND_OR_CHECK = push_bit 6 1"
| "rx_filter_val RX_UNICAST = push_bit 7 1"

section \<open>Structs\<close>

record 'w spiDriver =
  fncPtrCS :: "'w spiChipSel"
  fncPtrChipDS :: "'w spiChipDSl"
  fncPtrRead :: "'w slaveRead"
  fncPtrWrite :: "'w slaveWrite"

record enc28j60_common_regs =
  EIE :: u8
  EIR :: u8
  ESTAT :: u8
  ECON2 :: u8
  ECON1 :: u8

record enc28j60_bank_0 =
  ERDPTL :: u8
  ERDPTH :: u8
  EWRPTL :: u8
  EWRPTH :: u8
  ETXSTL :: u8
  ETXSTH :: u8
  ETXNDL :: u8
  ETXNDH :: u8
  ERXSTL :: u8
  ERXSTH :: u8
  ERXNDL :: u8
  ERXNDH :: u8
  ERXRDPTL :: u8
  ERXRDPTH :: u8
  ERXWRPTL :: u8
  ERXWRPTH :: u8
  EDMASTL :: u8
  EDMASTH :: u8
  EDMANDL :: u8
  EDMANDH :: u8
  EDMADSTL :: u8
  EDMADSTH :: u8
  EDMACSL :: u8
  EDMACSH :: u8
  undefined1_b0 :: u8
  undefined2_b0 :: u8
  Reversed1_b0 :: u8
  commonRegs_b0 :: enc28j60_common_regs

record enc28j60_bank_1 =
  EHT0 :: u8
  EHT1 :: u8
  EHT2 :: u8
  EHT3 :: u8
  EHT4 :: u8
  EHT5 :: u8
  EHT6 :: u8
  EHT7 :: u8
  EPMM0 :: u8
  EPMM1 :: u8
  EPMM2 :: u8
  EPMM3 :: u8
  EPMM4 :: u8
  EPMM5 :: u8
  EPMM6 :: u8
  EPMM7 :: u8
  EPMCSL :: u8
  EPMCSH :: u8
  undefined1_b1 :: u8
  undefined2_b1 :: u8
  EPMOL :: u8
  EPMOH :: u8
  EWOLIE :: u8
  EWOLIR :: u8
  ERXFCON :: u8
  EPKTCNT :: u8
  Reserved1_b1 :: u8
  commonRegs_b1 :: enc28j60_common_regs

record enc28j60_bank_2 =
  MACON1 :: u8
  MACON2 :: u8
  MACON3 :: u8
  MACON4 :: u8
  MABBIPG :: u8
  undefined1_b2 :: u8
  MAIPGL :: u8
  MAIPGH :: u8
  MACLCON1 :: u8
  MACLCON2 :: u8
  MAMXFLL :: u8
  MAMXFLH :: u8
  Reserved1_b2 :: u8
  MAPHSUP :: u8
  Reserved2_b2 :: u8
  undefined2_b2 :: u8
  Reserved3_b2 :: u8
  MICON :: u8
  MICMD :: u8
  undefined3_b2 :: u8
  MIREGADR :: u8
  Reserved4_b2 :: u8
  MIWRL :: u8
  MIWRH :: u8
  MIRDL :: u8
  MIRDH :: u8
  Reserved5_b2 :: u8
  commonRegs_b2 :: enc28j60_common_regs

record enc28j60_bank_3 =
  MAADR1 :: u8
  MAADR0 :: u8
  MAADR3 :: u8
  MAADR2 :: u8
  MAADR5 :: u8
  MAADR4 :: u8
  EBSTSD :: u8
  EBSTCON :: u8
  EBSTCSL :: u8
  EBSTCSH :: u8
  MISTAT :: u8
  undefined_b3 :: "u8 list"
  EREVID :: u8
  undefined8_b3 :: u8
  undefined9_b3 :: u8
  ECOCON :: u8
  Reserved1_b3 :: u8
  EFLOCON :: u8
  EPAUSL :: u8
  EPAUSH :: u8
  Reserved2_b3 :: u8
  commonRegs_b3 :: enc28j60_common_regs

record phy_registers =
  PHCON1 :: u8
  PHSTAT1 :: u8
  PHID1 :: u8
  PHID2 :: u8
  PHCON2 :: u8
  PHSTAT2 :: u8
  PHIE :: u8
  PHIR :: u8
  PHLCON :: u8

record enc28j60_opcode =
  u8readControlRegister :: u8
  u8readBufferMemory :: u8
  u8writeControlRegister :: u8
  u8WriteBufferMemory :: u8
  u8BitFieldSet :: u8
  u8BitFieldClear :: u8
  u8SoftReset :: u8

record enc28j60_rx_packet =
  nxtPktAddr :: "u8 list"
  rxStatVect :: "u8 list"
  rxPktLen :: u16
  rx_data :: "u8 list"
  ptrAddr :: u16

record enc28j60_tx_packet =
  txPktLen :: u16
  tx_data :: "u8 list"

record 'w enc28j60Drv =
  spi :: "'w spiDriver"
  fncPtrcallBack :: "'w intHandler"
  fncPtrDelayFunc :: "'w delayMs"
  bank0 :: enc28j60_bank_0
  bank1 :: enc28j60_bank_1
  bank2 :: enc28j60_bank_2
  bank3 :: enc28j60_bank_3
  phyReg :: phy_registers
  opcode :: enc28j60_opcode
  bnBank :: encj28j60_bank
  rxBufStartAddr :: u16
  rxBufEndAddr :: u16
  rxLockAddr :: u16
  txBufStartAddr :: u16
  txBufEndAddr :: u16
  MxmPkSize :: u16
  macSrcAddr :: "u8 list"
  rxPkt :: enc28j60_rx_packet
  txPkt :: enc28j60_tx_packet

section \<open>The initial device structure\<close>

definition mac :: "u8 list" where
  "mac = [0xED, 0x6A, 0xAF, 0x16, 0x7C, 0x04]"

definition bank0_init :: enc28j60_bank_0 where
  "bank0_init = \<lparr>
     ERDPTL = BANK_0 OR 0x00,
     ERDPTH = BANK_0 OR 0x01,
     EWRPTL = BANK_0 OR 0x02,
     EWRPTH = BANK_0 OR 0x03,
     ETXSTL = BANK_0 OR 0x04,
     ETXSTH = BANK_0 OR 0x05,
     ETXNDL = BANK_0 OR 0x06,
     ETXNDH = BANK_0 OR 0x07,
     ERXSTL = BANK_0 OR 0x08,
     ERXSTH = BANK_0 OR 0x09,
     ERXNDL = BANK_0 OR 0x0A,
     ERXNDH = BANK_0 OR 0x0B,
     ERXRDPTL = BANK_0 OR 0x0C,
     ERXRDPTH = BANK_0 OR 0x0D,
     ERXWRPTL = BANK_0 OR 0x0E,
     ERXWRPTH = BANK_0 OR 0x0F,
     EDMASTL = BANK_0 OR 0x10,
     EDMASTH = BANK_0 OR 0x11,
     EDMANDL = BANK_0 OR 0x12,
     EDMANDH = BANK_0 OR 0x13,
     EDMADSTL = BANK_0 OR 0x14,
     EDMADSTH = BANK_0 OR 0x15,
     EDMACSL = BANK_0 OR 0x16,
     EDMACSH = BANK_0 OR 0x17,
     undefined1_b0 = BANK_0 OR 0x18,
     undefined2_b0 = BANK_0 OR 0x19,
     Reversed1_b0 = BANK_0 OR 0x1A,
     commonRegs_b0 = \<lparr>EIE = BANK_0 OR 0x1B, EIR = BANK_0 OR 0x1C,
       ESTAT = BANK_0 OR 0x1D, ECON2 = BANK_0 OR 0x1E, ECON1 = BANK_0 OR 0x1F\<rparr>\<rparr>"

definition bank1_init :: enc28j60_bank_1 where
  "bank1_init = \<lparr>
     EHT0 = BANK_1 OR 0x00,
     EHT1 = BANK_1 OR 0x01,
     EHT2 = BANK_1 OR 0x02,
     EHT3 = BANK_1 OR 0x03,
     EHT4 = BANK_1 OR 0x04,
     EHT5 = BANK_1 OR 0x05,
     EHT6 = BANK_1 OR 0x06,
     EHT7 = BANK_1 OR 0x07,
     EPMM0 = BANK_1 OR 0x08,
     EPMM1 = BANK_1 OR 0x09,
     EPMM2 = BANK_1 OR 0x0A,
     EPMM3 = BANK_1 OR 0x0B,
     EPMM4 = BANK_1 OR 0x0C,
     EPMM5 = BANK_1 OR 0x0D,
     EPMM6 = BANK_1 OR 0x0E,
     EPMM7 = BANK_1 OR 0x0F,
     EPMCSL = BANK_1 OR 0x10,
     EPMCSH = BANK_1 OR 0x11,
     undefined1_b1 = BANK_1 OR 0x12,
     undefined2_b1 = BANK_1 OR 0x13,
     EPMOL = BANK_1 OR 0x14,
     EPMOH = BANK_1 OR 0x15,
     EWOLIE = BANK_1 OR 0x16,
     EWOLIR = BANK_1 OR 0x17,
     ERXFCON = BANK_1 OR 0x18,
     EPKTCNT = BANK_1 OR 0x19,
     Reserved1_b1 = BANK_1 OR 0x1A,
     commonRegs_b1 = \<lparr>EIE = BANK_1 OR 0x1B, EIR = BANK_1 OR 0x1C,
       ESTAT = BANK_1 OR 0x1D, ECON2 = BANK_1 OR 0x1E, ECON1 = BANK_1 OR 0x1F\<rparr>\<rparr>"

definition bank2_init :: enc28j60_bank_2 where
  "bank2_init = \<lparr>
     MACON1 = BANK_2 OR 0x00,
     MACON2 = BANK_2 OR 0x01,
     MACON3 = BANK_2 OR 0x02,
     MACON4 = BANK_2 OR 0x03,
     MABBIPG = BANK_2 OR 0x04,
     undefined1_b2 = BANK_2 OR 0x05,
     MAIPGL = BANK_2 OR 0x06,
     MAIPGH = BANK_2 OR 0x07,
     MACLCON1 = BANK_2 OR 0x08,
     MACLCON2 = BANK_2 OR 0x09,
     MAMXFLL = BANK_2 OR 0x0A,
     MAMXFLH = BANK_2 OR 0x0B,
     Reserved1_b2 = BANK_2 OR 0x0C,
     MAPHSUP = BANK_2 OR 0x0D,
     Reserved2_b2 = BANK_2 OR 0x0E,
     undefined2_b2 = BANK_2 OR 0x0F,
     Reserved3_b2 = BANK_2 OR 0x10,
     MICON = BANK_2 OR 0x11,
     MICMD = BANK_2 OR 0x12,
     undefined3_b2 = BANK_2 OR 0x13,
     MIREGADR = BANK_2 OR 0x14,
     Reserved4_b2 = BANK_2 OR 0x15,
     MIWRL = BANK_2 OR 0x16,
     MIWRH = BANK_2 OR 0x17,
     MIRDL = BANK_2 OR 0x18,
     MIRDH = BANK_2 OR 0x19,
     Reserved5_b2 = BANK_2 OR 0x1A,
     commonRegs_b2 = \<lparr>EIE = BANK_2 OR 0x1B, EIR = BANK_2 OR 0x1C,
       ESTAT = BANK_2 OR 0x1D, ECON2 = BANK_2 OR 0x1E, ECON1 = BANK_2 OR 0x1F\<rparr>\<rparr>"

definition bank3_init :: enc28j60_bank_3 where
  "bank3_init = \<lparr>
     MAADR1 = BANK_3 OR 0x00,
     MAADR0 = BANK_3 OR 0x01,
     MAADR3 = BANK_3 OR 0x02,
     MAADR2 = BANK_3 OR 0x03,
     MAADR5 = BANK_3 OR 0x04,
     MAADR4 = BANK_3 OR 0x05,
     EBSTSD = BANK_3 OR 0x06,
     EBSTCON = BANK_3 OR 0x07,
     EBSTCSL = BANK_3 OR 0x08,
     EBSTCSH = BANK_3 OR 0x09,
     MISTAT = BANK_3 OR 0x0A,
     undefined_b3 = [BANK_3 OR 0x0B, BANK_3 OR 0x0C, BANK_3 OR 0x0D, BANK_3 OR 0x0E,
       BANK_3 OR 0x0F, BANK_3 OR 0x10, BANK_3 OR 0x11],
     EREVID = BANK_3 OR 0x12,
     undefined8_b3 = BANK_3 OR 0x13,
     undefined9_b3 = BANK_3 OR 0x14,
     ECOCON = BANK_3 OR 0x15,
     Reserved1_b3 = BANK_3 OR 0x16,
     EFLOCON = BANK_3 OR 0x17,
     EPAUSL = BANK_3 OR 0x18,
     EPAUSH = BANK_3 OR 0x19,
     Reserved2_b3 = BANK_3 OR 0x1A,
     commonRegs_b3 = \<lparr>EIE = BANK_3 OR 0x1B, EIR = BANK_3 OR 0x1C,
       ESTAT = BANK_3 OR 0x1D, ECON2 = BANK_3 OR 0x1E, ECON1 = BANK_3 OR 0x1F\<rparr>\<rparr>"
definition phyReg_init :: phy_registers where
  "phyReg_init = \<lparr>PHCON1 = 0x00, PHSTAT1 = 0x01, PHID1 = 0x02, PHID2 = 0x03, PHCON2 = 0x10,
     PHSTAT2 = 0x11, PHIE = 0x12, PHIR = 0x13, PHLCON = 0x14\<rparr>"

definition opcode_init :: enc28j60_opcode where
  "opcode_init = \<lparr>
     u8readControlRegister = push_bit 5 0b000,
     u8readBufferMemory = push_bit 5 0b001 OR 0b11010,
     u8writeControlRegister = push_bit 5 0b010,
     u8WriteBufferMemory = push_bit 5 0b011 OR 0b11010,
     u8BitFieldSet = push_bit 5 0b100,
     u8BitFieldClear = push_bit 5 0b101,
     u8SoftReset = push_bit 5 0b111 OR 0b11111\<rparr>"

definition rxPkt_init :: enc28j60_rx_packet where
  "rxPkt_init = \<lparr>nxtPktAddr = [0, 0], rxStatVect = [0, 0, 0, 0], rxPktLen = 0,
     rx_data = replicate 1500 0, ptrAddr = 0x0000\<rparr>"

definition txPkt_init :: enc28j60_tx_packet where
  "txPkt_init = \<lparr>txPktLen = 0, tx_data = replicate 1500 0\<rparr>"

definition dev_init :: "'w enc28j60Drv" where
  "dev_init = \<lparr>
     spi = \<lparr>fncPtrCS = None, fncPtrChipDS = None, fncPtrRead = None, fncPtrWrite = None\<rparr>,
     fncPtrcallBack = None,
     fncPtrDelayFunc = None,
     bank0 = bank0_init, bank1 = bank1_init, bank2 = bank2_init, bank3 = bank3_init,
     phyReg = phyReg_init,
     opcode = opcode_init,
     bnBank = bank_0,
     rxBufStartAddr = 0x0000,
     rxBufEndAddr = 0x17FF,
     rxLockAddr = 0x0000,
     txBufStartAddr = 0x1800,
     txBufEndAddr = 0x1FFF,
     MxmPkSize = 1500,
     macSrcAddr = [mac ! 0, mac ! 1, mac ! 2, mac ! 3, mac ! 4, mac ! 5],
     rxPkt = rxPkt_init,
     txPkt = txPkt_init\<rparr>"

section \<open>The constant part of the structure\<close>

text \<open>
  The fields the C declares \<open>const\<close>, and the MAC address, which no function writes.
  \<open>dev_consts\<close> collects them, so that ``the constant part is unchanged'' is one equation;
  \<open>const_dev\<close> says that they have their initial values.
\<close>

definition dev_consts where
  "dev_consts d = ((bank0 d, bank1 d, bank2 d, bank3 d), (phyReg d, opcode d),
     (rxBufStartAddr d, rxBufEndAddr d, txBufStartAddr d, txBufEndAddr d, MxmPkSize d,
      macSrcAddr d))"

definition const_dev :: "'w enc28j60Drv \<Rightarrow> bool" where
  "const_dev d \<longleftrightarrow> dev_consts d = dev_consts (dev_init :: 'w enc28j60Drv)"

named_theorems reg_addrs \<open>register addresses, opcodes and device constants\<close>

lemma bank0_addrs [reg_addrs]:
  "ERDPTL bank0_init = 0x00"
  "ERDPTH bank0_init = 0x01"
  "EWRPTL bank0_init = 0x02"
  "EWRPTH bank0_init = 0x03"
  "ETXSTL bank0_init = 0x04"
  "ETXSTH bank0_init = 0x05"
  "ETXNDL bank0_init = 0x06"
  "ETXNDH bank0_init = 0x07"
  "ERXSTL bank0_init = 0x08"
  "ERXSTH bank0_init = 0x09"
  "ERXNDL bank0_init = 0x0A"
  "ERXNDH bank0_init = 0x0B"
  "ERXRDPTL bank0_init = 0x0C"
  "ERXRDPTH bank0_init = 0x0D"
  "EDMANDL bank0_init = 0x12"
  "EDMADSTL bank0_init = 0x14"
  "EIE (commonRegs_b0 bank0_init) = 0x1B"
  "EIR (commonRegs_b0 bank0_init) = 0x1C"
  "ESTAT (commonRegs_b0 bank0_init) = 0x1D"
  "ECON2 (commonRegs_b0 bank0_init) = 0x1E"
  "ECON1 (commonRegs_b0 bank0_init) = 0x1F"
  by (simp_all add: bank0_init_def BANK_0_def)

lemma bank1_addrs [reg_addrs]:
  "EWOLIR bank1_init = 0x57"
  "ERXFCON bank1_init = 0x58"
  "EIE (commonRegs_b1 bank1_init) = 0x5B"
  "EIR (commonRegs_b1 bank1_init) = 0x5C"
  "ESTAT (commonRegs_b1 bank1_init) = 0x5D"
  "ECON2 (commonRegs_b1 bank1_init) = 0x5E"
  "ECON1 (commonRegs_b1 bank1_init) = 0x5F"
  by (simp_all add: bank1_init_def BANK_1_def)

lemma bank2_addrs [reg_addrs]:
  "MACON1 bank2_init = 0x80"
  "MACON3 bank2_init = 0x82"
  "MABBIPG bank2_init = 0x84"
  "MAIPGL bank2_init = 0x86"
  "MACLCON2 bank2_init = 0x89"
  "MAMXFLL bank2_init = 0x8A"
  "MAMXFLH bank2_init = 0x8B"
  "MICMD bank2_init = 0x92"
  "MIREGADR bank2_init = 0x94"
  "MIWRL bank2_init = 0x96"
  "MIWRH bank2_init = 0x97"
  "MIRDL bank2_init = 0x98"
  "MIRDH bank2_init = 0x99"
  "EIE (commonRegs_b2 bank2_init) = 0x9B"
  "EIR (commonRegs_b2 bank2_init) = 0x9C"
  "ESTAT (commonRegs_b2 bank2_init) = 0x9D"
  "ECON2 (commonRegs_b2 bank2_init) = 0x9E"
  "ECON1 (commonRegs_b2 bank2_init) = 0x9F"
  by (simp_all add: bank2_init_def BANK_2_def)

lemma bank3_addrs [reg_addrs]:
  "MAADR0 bank3_init = 0xC1"
  "MAADR1 bank3_init = 0xC0"
  "MAADR2 bank3_init = 0xC3"
  "MAADR3 bank3_init = 0xC2"
  "MAADR4 bank3_init = 0xC5"
  "MAADR5 bank3_init = 0xC4"
  "MISTAT bank3_init = 0xCA"
  "EIE (commonRegs_b3 bank3_init) = 0xDB"
  "EIR (commonRegs_b3 bank3_init) = 0xDC"
  "ESTAT (commonRegs_b3 bank3_init) = 0xDD"
  "ECON2 (commonRegs_b3 bank3_init) = 0xDE"
  "ECON1 (commonRegs_b3 bank3_init) = 0xDF"
  by (simp_all add: bank3_init_def BANK_3_def)

lemma phy_addrs [reg_addrs]:
  "PHCON1 phyReg_init = 0x00" "PHSTAT1 phyReg_init = 0x01" "PHID1 phyReg_init = 0x02"
  "PHID2 phyReg_init = 0x03" "PHCON2 phyReg_init = 0x10"
  "PHSTAT2 phyReg_init = 0x11" "PHIE phyReg_init = 0x12" "PHIR phyReg_init = 0x13"
  by (simp_all add: phyReg_init_def)

lemma opcodes [reg_addrs]:
  "u8readControlRegister opcode_init = 0x00" "u8readBufferMemory opcode_init = 0x3A"
  "u8writeControlRegister opcode_init = 0x40" "u8WriteBufferMemory opcode_init = 0x7A"
  "u8BitFieldSet opcode_init = 0x80" "u8BitFieldClear opcode_init = 0xA0"
  "u8SoftReset opcode_init = 0xFF"
  by (simp_all add: opcode_init_def)

lemma const_devD [reg_addrs]:
  assumes "const_dev d"
  shows "bank0 d = bank0_init" and "bank1 d = bank1_init" and "bank2 d = bank2_init"
    and "bank3 d = bank3_init" and "phyReg d = phyReg_init" and "opcode d = opcode_init"
    and "rxBufStartAddr d = 0x0000" and "rxBufEndAddr d = 0x17FF"
    and "txBufStartAddr d = 0x1800" and "txBufEndAddr d = 0x1FFF" and "MxmPkSize d = 1500"
    and "macSrcAddr d = mac"
  using assms by (simp_all add: const_dev_def dev_consts_def dev_init_def mac_def)

lemma const_dev_init [simp]: "const_dev dev_init"
  by (simp add: const_dev_def)

lemma const_dev_upd [simp]:
  "const_dev (d\<lparr>bnBank := b\<rparr>) = const_dev d"
  "const_dev (d\<lparr>rxPkt := p\<rparr>) = const_dev d"
  "const_dev (d\<lparr>txPkt := q\<rparr>) = const_dev d"
  "const_dev (d\<lparr>spi := r\<rparr>) = const_dev d"
  "const_dev (d\<lparr>fncPtrcallBack := h\<rparr>) = const_dev d"
  "const_dev (d\<lparr>fncPtrDelayFunc := f\<rparr>) = const_dev d"
  by (simp_all add: const_dev_def dev_consts_def)

end
