(* ===== verification/Enc_Driver.thy ===== *)
theory Enc_Driver
  imports Enc_Types
begin

text \<open>
  The operations of \<open>enc28j60_driver/Src/enc28j60_hwd.c\<close>, in the order of the file.  The
  state \<open>sys\<close> holds the device structure \<open>dev\<close>, the hardware \<open>hw\<close> reached only through
  the function pointers of \<open>dev\<close>, and the messages handed to \<open>dMesgPrint\<close> (level, format
  and integer arguments).  Every C function \<open>f(dev, ...)\<close> is a HOL function of its
  arguments and the state, returning \<open>None\<close> when the call does not come back.
\<close>

section \<open>State and calls through function pointers\<close>

type_synonym dmsg = "nat \<times> string \<times> int list"

record 'w sys =
  dev :: "'w enc28j60Drv"
  hw :: 'w
  uart :: "dmsg list"

definition DEBUG_ERROR :: nat where "DEBUG_ERROR = 0"
definition DEBUG_INFO :: nat where "DEBUG_INFO = 2"

definition crlf :: string where "crlf = [CHR 0x0D, CHR 0x0A]"

definition dMesgPrint :: "nat \<Rightarrow> string \<Rightarrow> int list \<Rightarrow> 'w sys \<Rightarrow> 'w sys" where
  "dMesgPrint level fmt args s = s\<lparr>uart := uart s @ [(level, fmt @ crlf, args)]\<rparr>"

definition call_CS :: "'w sys \<Rightarrow> 'w sys option" where
  "call_CS s = do { f \<leftarrow> fncPtrCS (spi (dev s)); Some (s\<lparr>hw := f (hw s)\<rparr>) }"

definition call_ChipDS :: "'w sys \<Rightarrow> 'w sys option" where
  "call_ChipDS s = do { f \<leftarrow> fncPtrChipDS (spi (dev s)); Some (s\<lparr>hw := f (hw s)\<rparr>) }"

definition call_Write :: "u8 list \<Rightarrow> 'w sys \<Rightarrow> 'w sys option" where
  "call_Write bs s = do { f \<leftarrow> fncPtrWrite (spi (dev s)); Some (s\<lparr>hw := f bs (hw s)\<rparr>) }"

definition call_Read :: "u16 \<Rightarrow> 'w sys \<Rightarrow> (u8 list \<times> 'w sys) option" where
  "call_Read n s = do { f \<leftarrow> fncPtrRead (spi (dev s));
     Some (case f n (hw s) of ((bs, _), w) \<Rightarrow> (bs, s\<lparr>hw := w\<rparr>)) }"

definition call_Delay :: "u32 \<Rightarrow> 'w sys \<Rightarrow> 'w sys option" where
  "call_Delay ms s = do { f \<leftarrow> fncPtrDelayFunc (dev s); Some (s\<lparr>hw := f ms (hw s)\<rparr>) }"

section \<open>Banks\<close>

definition convertRegValToBank :: "u8 \<Rightarrow> encj28j60_bank" where
  "convertRegValToBank value =
     (let v = value AND 0xC0 in
      if v = bank_val bank_0 then bank_0
      else if v = bank_val bank_1 then bank_1
      else if v = bank_val bank_2 then bank_2
      else if v = bank_val bank_3 then bank_3
      else undefBank)"

definition convertBankToBits :: "encj28j60_bank \<Rightarrow> u8" where
  "convertBankToBits bBank = drop_bit 6 (bank_val bBank)"

definition enc28j60_bankChange :: "encj28j60_bank \<Rightarrow> 'w sys \<Rightarrow> 'w sys option" where
  "enc28j60_bankChange bBank s =
     (let d = dev s;
          u8data = 0x03;
          cmd = (case bnBank d of
              undefBank \<Rightarrow> None
            | bank_0 \<Rightarrow> Some (u8BitFieldClear (opcode d) OR (0x1F AND ECON1 (commonRegs_b0 (bank0 d))))
            | bank_1 \<Rightarrow> Some (u8BitFieldClear (opcode d) OR (0x1F AND ECON1 (commonRegs_b1 (bank1 d))))
            | bank_2 \<Rightarrow> Some (u8BitFieldClear (opcode d) OR (0x1F AND ECON1 (commonRegs_b2 (bank2 d))))
            | bank_3 \<Rightarrow> Some (u8BitFieldClear (opcode d) OR (0x1F AND ECON1 (commonRegs_b3 (bank3 d)))))
      in case cmd of
           None \<Rightarrow> Some s
         | Some u8Command \<Rightarrow> do {
             s \<leftarrow> call_CS s;
             s \<leftarrow> call_Write [u8Command] s;
             s \<leftarrow> call_Write [u8data] s;
             s \<leftarrow> call_ChipDS s;
             let u8CmdNextBank = u8BitFieldSet (opcode d) OR (0x1F AND ECON1 (commonRegs_b0 (bank0 d)));
             let u8BitsToSets = convertBankToBits bBank;
             if u8BitsToSets \<noteq> 0 \<and> u8BitsToSets \<le> 3
             then do {
               s \<leftarrow> call_CS s;
               s \<leftarrow> call_Write [u8CmdNextBank] s;
               s \<leftarrow> call_Write [u8BitsToSets] s;
               s \<leftarrow> call_ChipDS s;
               Some (s\<lparr>dev := (dev s)\<lparr>bnBank := bBank\<rparr>\<rparr>)
             }
             else Some s
           })"

text \<open>The three lines every register access starts with.\<close>

definition select_bank :: "u8 \<Rightarrow> 'w sys \<Rightarrow> 'w sys option" where
  "select_bank u8Reg s =
     (let bBank = convertRegValToBank u8Reg in
      if bBank \<noteq> bnBank (dev s) then enc28j60_bankChange bBank s else Some s)"

section \<open>Register access\<close>

definition enc28j60_readMacMIIReg :: "u8 \<Rightarrow> 'w sys \<Rightarrow> (u8 \<times> 'w sys) option" where
  "enc28j60_readMacMIIReg u8Reg s = do {
     s \<leftarrow> select_bank u8Reg s;
     let u8Command = u8readControlRegister (opcode (dev s)) OR (0x1F AND u8Reg);
     s \<leftarrow> call_CS s;
     s \<leftarrow> call_Write [u8Command] s;
     (_, s) \<leftarrow> call_Read 1 s;
     (bs, s) \<leftarrow> call_Read 1 s;
     s \<leftarrow> call_ChipDS s;
     Some (hd bs, s)
   }"

definition enc28j60_writeReg :: "u8 \<Rightarrow> u8 \<Rightarrow> 'w sys \<Rightarrow> 'w sys option" where
  "enc28j60_writeReg u8Reg u8Value s = do {
     s \<leftarrow> select_bank u8Reg s;
     let u8Command = u8writeControlRegister (opcode (dev s)) OR (0x1F AND u8Reg);
     s \<leftarrow> call_CS s;
     s \<leftarrow> call_Write [u8Command] s;
     s \<leftarrow> call_Write [u8Value] s;
     call_ChipDS s
   }"

definition enc28j60_SoftReset :: "'w sys \<Rightarrow> 'w sys option" where
  "enc28j60_SoftReset s = do {
     let u8Command = u8SoftReset (opcode (dev s));
     s \<leftarrow> call_CS s;
     s \<leftarrow> call_Write [u8Command] s;
     call_ChipDS s
   }"

definition enc28j60_BitFieldSet :: "u8 \<Rightarrow> u8 \<Rightarrow> 'w sys \<Rightarrow> 'w sys option" where
  "enc28j60_BitFieldSet u8Reg u8data s = do {
     s \<leftarrow> select_bank u8Reg s;
     let u8Command = u8BitFieldSet (opcode (dev s)) OR (0x1F AND u8Reg);
     s \<leftarrow> call_CS s;
     s \<leftarrow> call_Write [u8Command] s;
     s \<leftarrow> call_Write [u8data] s;
     call_ChipDS s
   }"

definition enc28j60_BitFieldClear :: "u8 \<Rightarrow> u8 \<Rightarrow> 'w sys \<Rightarrow> 'w sys option" where
  "enc28j60_BitFieldClear u8Reg u8data s = do {
     s \<leftarrow> select_bank u8Reg s;
     let u8Command = u8BitFieldClear (opcode (dev s)) OR (0x1F AND u8Reg);
     s \<leftarrow> call_CS s;
     s \<leftarrow> call_Write [u8Command] s;
     s \<leftarrow> call_Write [u8data] s;
     call_ChipDS s
   }"

definition enc28j60_readEtherReg :: "u8 \<Rightarrow> 'w sys \<Rightarrow> (u8 \<times> 'w sys) option" where
  "enc28j60_readEtherReg u8Reg s = do {
     s \<leftarrow> select_bank u8Reg s;
     let u8Command = u8readControlRegister (opcode (dev s)) OR (0x1F AND u8Reg);
     s \<leftarrow> call_CS s;
     s \<leftarrow> call_Write [u8Command] s;
     (bs, s) \<leftarrow> call_Read 1 s;
     s \<leftarrow> call_ChipDS s;
     Some (hd bs, s)
   }"

section \<open>PHY access\<close>

text \<open>\<^verbatim>\<open>while(enc28j60_readMacMIIReg(dev, dev->bank3.MISTAT) & (0x01)) continue;\<close>\<close>

partial_function (option) wait_MISTAT :: "'w sys \<Rightarrow> 'w sys option" where
  "wait_MISTAT s = do {
     (v, s) \<leftarrow> enc28j60_readMacMIIReg (MISTAT (bank3 (dev s))) s;
     if v AND 0x01 \<noteq> 0 then wait_MISTAT s else Some s
   }"

definition enc28j60_writePhyReg :: "u8 \<Rightarrow> u16 \<Rightarrow> 'w sys \<Rightarrow> 'w sys option" where
  "enc28j60_writePhyReg addr data s = do {
     s \<leftarrow> enc28j60_writeReg (MIREGADR (bank2 (dev s))) addr s;
     s \<leftarrow> enc28j60_writeReg (MIWRL (bank2 (dev s))) (ucast (data AND 0xFF)) s;
     s \<leftarrow> enc28j60_writeReg (MIWRH (bank2 (dev s))) (ucast (drop_bit 8 data)) s;
     s \<leftarrow> call_Delay 1 s;
     wait_MISTAT s
   }"

definition enc28j60_readPhyReg :: "u8 \<Rightarrow> 'w sys \<Rightarrow> (u16 \<times> 'w sys) option" where
  "enc28j60_readPhyReg addr s = do {
     s \<leftarrow> enc28j60_writeReg (MIREGADR (bank2 (dev s))) addr s;
     (v, s) \<leftarrow> enc28j60_readMacMIIReg (MICMD (bank2 (dev s))) s;
     let u8ReturnValuefrSet = v OR push_bit 0 1;
     s \<leftarrow> enc28j60_writeReg (MICMD (bank2 (dev s))) u8ReturnValuefrSet s;
     s \<leftarrow> call_Delay 1 s;
     s \<leftarrow> wait_MISTAT s;
     (v, s) \<leftarrow> enc28j60_readMacMIIReg (MICMD (bank2 (dev s))) s;
     let u8ReturnValueFrClr = v AND NOT (push_bit 0 1);
     s \<leftarrow> enc28j60_writeReg (MICMD (bank2 (dev s))) u8ReturnValueFrClr s;
     (h, s) \<leftarrow> enc28j60_readMacMIIReg (MIRDH (bank2 (dev s))) s;
     let u16Value = push_bit 8 (ucast h);
     (l, s) \<leftarrow> enc28j60_readMacMIIReg (MIRDL (bank2 (dev s))) s;
     Some (u16Value OR ucast l, s)
   }"

definition enc28j60_getPhyPartNumber :: "'w sys \<Rightarrow> (u16 \<times> 'w sys) option" where
  "enc28j60_getPhyPartNumber s = do {
     (u16returnValue, s) \<leftarrow> enc28j60_readPhyReg (PHID2 (phyReg (dev s))) s;
     Some (drop_bit 4 (u16returnValue AND 0x03F0), s)
   }"

text \<open>The local \<open>u32returnValue\<close> of the C function has type \<open>uint16_t\<close>.\<close>

definition enc28j60_getPhyIdentifier :: "'w sys \<Rightarrow> (u32 \<times> 'w sys) option" where
  "enc28j60_getPhyIdentifier s = do {
     (v, s) \<leftarrow> enc28j60_readPhyReg (PHID1 (phyReg (dev s))) s;
     let u32returnValue = drop_bit 0x03 (v :: u16);
     (v, s) \<leftarrow> enc28j60_readPhyReg (PHID2 (phyReg (dev s))) s;
     let u32returnValue = u32returnValue OR ucast (push_bit 0x09 (ucast v :: u32));
     Some (ucast (u32returnValue :: u16), s)
   }"

definition enc28j60_getPhyRevNumber :: "'w sys \<Rightarrow> (u8 \<times> 'w sys) option" where
  "enc28j60_getPhyRevNumber s = do {
     (u16returnValue, s) \<leftarrow> enc28j60_readPhyReg (PHID2 (phyReg (dev s))) s;
     Some (ucast u16returnValue AND 0x000F, s)
   }"

text \<open>A non-zero mask becomes \<open>true\<close> in the conversion to \<open>bool\<close>.\<close>

definition phyBit :: "u8 \<Rightarrow> nat \<Rightarrow> 'w sys \<Rightarrow> (bool \<times> 'w sys) option" where
  "phyBit r n s = do {
     (u16returnValue, s) \<leftarrow> enc28j60_readPhyReg r s;
     Some (u16returnValue AND push_bit n 1 \<noteq> 0, s)
   }"

definition enc28j60_getPhylinkHasBeenDown :: "'w sys \<Rightarrow> (bool \<times> 'w sys) option" where
  "enc28j60_getPhylinkHasBeenDown s = phyBit (PHSTAT1 (phyReg (dev s))) 2 s"

definition enc28j60_getPhyjabberStatusBit :: "'w sys \<Rightarrow> (bool \<times> 'w sys) option" where
  "enc28j60_getPhyjabberStatusBit s = phyBit (PHSTAT1 (phyReg (dev s))) 1 s"

definition enc28j60_getPhyPolarityStatus :: "'w sys \<Rightarrow> (bool \<times> 'w sys) option" where
  "enc28j60_getPhyPolarityStatus s = phyBit (PHSTAT2 (phyReg (dev s))) 4 s"

definition enc28j60_getPhyDuplexStatus :: "'w sys \<Rightarrow> (bool \<times> 'w sys) option" where
  "enc28j60_getPhyDuplexStatus s = phyBit (PHSTAT2 (phyReg (dev s))) 9 s"

definition enc28j60_getPhyLinkStatus :: "'w sys \<Rightarrow> (bool \<times> 'w sys) option" where
  "enc28j60_getPhyLinkStatus s = phyBit (PHSTAT2 (phyReg (dev s))) 10 s"

definition enc28j60_getPhyCollisionStatus :: "'w sys \<Rightarrow> (bool \<times> 'w sys) option" where
  "enc28j60_getPhyCollisionStatus s = phyBit (PHSTAT2 (phyReg (dev s))) 11 s"

definition enc28j60_getPhyIsRxStatus :: "'w sys \<Rightarrow> (bool \<times> 'w sys) option" where
  "enc28j60_getPhyIsRxStatus s = phyBit (PHSTAT2 (phyReg (dev s))) 12 s"

definition enc28j60_getPhyIsTxStatus :: "'w sys \<Rightarrow> (bool \<times> 'w sys) option" where
  "enc28j60_getPhyIsTxStatus s = phyBit (PHSTAT2 (phyReg (dev s))) 13 s"

definition enc28j60_getPhyInterrupt :: "'w sys \<Rightarrow> (u16 \<times> 'w sys) option" where
  "enc28j60_getPhyInterrupt s = enc28j60_readPhyReg (PHIR (phyReg (dev s))) s"

definition enc28j60_getwakeUpInterrupt :: "'w sys \<Rightarrow> (u8 \<times> 'w sys) option" where
  "enc28j60_getwakeUpInterrupt s = enc28j60_readEtherReg (EWOLIR (bank1 (dev s))) s"

definition enc28j60_getEtherInterrupt :: "'w sys \<Rightarrow> (u8 \<times> 'w sys) option" where
  "enc28j60_getEtherInterrupt s =
     (case bnBank (dev s) of
        undefBank \<Rightarrow> Some (0, s)
      | bank_0 \<Rightarrow> enc28j60_readEtherReg (EIR (commonRegs_b0 (bank0 (dev s)))) s
      | bank_1 \<Rightarrow> enc28j60_readEtherReg (EIR (commonRegs_b1 (bank1 (dev s)))) s
      | bank_2 \<Rightarrow> enc28j60_readEtherReg (EIR (commonRegs_b2 (bank2 (dev s)))) s
      | bank_3 \<Rightarrow> enc28j60_readEtherReg (EIR (commonRegs_b3 (bank3 (dev s)))) s)"

section \<open>Initialisation\<close>

definition enc2860_macInit :: "'w sys \<Rightarrow> 'w sys option" where
  "enc2860_macInit s = do {
     (v, s) \<leftarrow> enc28j60_readMacMIIReg (MACLCON2 (bank2 (dev s))) s;
     let u8TempValueHolder = v AND NOT (push_bit 7 1);
     s \<leftarrow> enc28j60_writeReg (MACLCON2 (bank2 (dev s))) u8TempValueHolder s;
     (v, s) \<leftarrow> enc28j60_readMacMIIReg (MACON1 (bank2 (dev s))) s;
     let u8TempValueHolder = v OR (push_bit 3 1 OR push_bit 2 1 OR 0x01);
     s \<leftarrow> enc28j60_writeReg (MACON1 (bank2 (dev s))) u8TempValueHolder s;
     (v, s) \<leftarrow> enc28j60_readMacMIIReg (MACON3 (bank2 (dev s))) s;
     let u8TempValueHolder = v OR (push_bit 5 7 OR push_bit 4 1 OR push_bit 2 1 OR 0x01);
     s \<leftarrow> enc28j60_writeReg (MACON3 (bank2 (dev s))) u8TempValueHolder s;
     s \<leftarrow> enc28j60_writeReg (MAMXFLL (bank2 (dev s))) (lo8 (MxmPkSize (dev s))) s;
     s \<leftarrow> enc28j60_writeReg (MAMXFLH (bank2 (dev s))) (hi8 (MxmPkSize (dev s))) s;
     s \<leftarrow> enc28j60_writeReg (MABBIPG (bank2 (dev s))) 0x15 s;
     s \<leftarrow> enc28j60_writeReg (MAIPGL (bank2 (dev s))) 0x12 s;
     s \<leftarrow> enc28j60_writeReg (MAADR0 (bank3 (dev s))) (macSrcAddr (dev s) ! 0) s;
     s \<leftarrow> enc28j60_writeReg (MAADR1 (bank3 (dev s))) (macSrcAddr (dev s) ! 1) s;
     s \<leftarrow> enc28j60_writeReg (MAADR2 (bank3 (dev s))) (macSrcAddr (dev s) ! 2) s;
     s \<leftarrow> enc28j60_writeReg (MAADR3 (bank3 (dev s))) (macSrcAddr (dev s) ! 3) s;
     s \<leftarrow> enc28j60_writeReg (MAADR4 (bank3 (dev s))) (macSrcAddr (dev s) ! 4) s;
     enc28j60_writeReg (MAADR5 (bank3 (dev s))) (macSrcAddr (dev s) ! 5) s
   }"

definition enc2860_phyInit :: "'w sys \<Rightarrow> 'w sys option" where
  "enc2860_phyInit s = do {
     (v, s) \<leftarrow> enc28j60_readPhyReg (PHCON1 (phyReg (dev s))) s;
     let u16ReturnValue = v OR push_bit 8 1;
     s \<leftarrow> enc28j60_writePhyReg (PHCON1 (phyReg (dev s))) u16ReturnValue s;
     (v, s) \<leftarrow> enc28j60_readPhyReg (PHIE (phyReg (dev s))) s;
     let u16ReturnValue = v OR (push_bit 1 1 OR push_bit 4 1);
     enc28j60_writePhyReg (PHIE (phyReg (dev s))) u16ReturnValue s
   }"

definition enc28j60_rxSetFilters :: "u8 \<Rightarrow> 'w sys \<Rightarrow> 'w sys option" where
  "enc28j60_rxSetFilters flt s = enc28j60_writeReg (ERXFCON (bank1 (dev s))) flt s"

definition enc28j60_initDr ::
  "'w spiChipSel \<Rightarrow> 'w spiChipDSl \<Rightarrow> 'w slaveRead \<Rightarrow> 'w slaveWrite \<Rightarrow> 'w intHandler \<Rightarrow>
   'w delayMs \<Rightarrow> 'w sys \<Rightarrow> 'w sys" where
  "enc28j60_initDr cs dCS rd wr hdle delay s =
     s\<lparr>dev := (dev s)\<lparr>
        spi := \<lparr>fncPtrCS = cs, fncPtrChipDS = dCS, fncPtrRead = rd, fncPtrWrite = wr\<rparr>,
        fncPtrcallBack := hdle,
        fncPtrDelayFunc := delay\<rparr>\<rparr>"

definition enc28j60_sftRst :: "'w sys \<Rightarrow> 'w sys option" where
  "enc28j60_sftRst s = enc28j60_SoftReset s"

text \<open>\<^verbatim>\<open>while(!(enc28j60_readEtherReg(dev, dev->bank0.commonRegs.ESTAT) & (0x01))) continue;\<close>\<close>

partial_function (option) wait_CLKRDY :: "'w sys \<Rightarrow> 'w sys option" where
  "wait_CLKRDY s = do {
     (v, s) \<leftarrow> enc28j60_readEtherReg (ESTAT (commonRegs_b0 (bank0 (dev s)))) s;
     if v AND 0x01 = 0 then wait_CLKRDY s else Some s
   }"

text \<open>The buffer pointers \<open>enc28j60_strtDr\<close> programs, from the receive start to the transmit end.\<close>

definition strtDr_buffers :: "'w sys \<Rightarrow> 'w sys option" where
  "strtDr_buffers s = do {
     s \<leftarrow> enc28j60_writeReg (ERXSTL (bank0 (dev s))) (lo8 (rxBufStartAddr (dev s))) s;
     s \<leftarrow> enc28j60_writeReg (ERXSTH (bank0 (dev s))) (hi8 (rxBufStartAddr (dev s))) s;
     s \<leftarrow> enc28j60_writeReg (ERDPTL (bank0 (dev s))) (lo8 (ptrAddr (rxPkt (dev s)))) s;
     s \<leftarrow> enc28j60_writeReg (ERDPTH (bank0 (dev s))) (hi8 (ptrAddr (rxPkt (dev s)))) s;
     s \<leftarrow> enc28j60_writeReg (ERXNDL (bank0 (dev s))) (lo8 (rxBufEndAddr (dev s))) s;
     s \<leftarrow> enc28j60_writeReg (ERXNDH (bank0 (dev s))) (hi8 (rxBufEndAddr (dev s))) s;
     s \<leftarrow> enc28j60_writeReg (ERXRDPTL (bank0 (dev s))) (lo8 (rxBufEndAddr (dev s))) s;
     s \<leftarrow> enc28j60_writeReg (ERXRDPTH (bank0 (dev s))) (hi8 (rxBufEndAddr (dev s))) s;
     s \<leftarrow> enc28j60_writeReg (ETXSTL (bank0 (dev s))) (lo8 (txBufStartAddr (dev s))) s;
     s \<leftarrow> enc28j60_writeReg (ETXSTH (bank0 (dev s))) (hi8 (txBufStartAddr (dev s))) s;
     s \<leftarrow> enc28j60_writeReg (ETXNDL (bank0 (dev s))) (lo8 (txBufEndAddr (dev s))) s;
     enc28j60_writeReg (ETXNDH (bank0 (dev s))) (hi8 (txBufEndAddr (dev s))) s
   }"

definition enc28j60_strtDr :: "'w sys \<Rightarrow> 'w sys option" where
  "enc28j60_strtDr s = do {
     s \<leftarrow> enc28j60_sftRst s;
     s \<leftarrow> call_Delay 1 s;
     s \<leftarrow> wait_CLKRDY s;
     (_, s) \<leftarrow> enc28j60_getPhyRevNumber s;
     (_, s) \<leftarrow> enc28j60_getPhyPartNumber s;
     (_, s) \<leftarrow> enc28j60_getPhyIdentifier s;
     s \<leftarrow> strtDr_buffers s;
     s \<leftarrow> enc2860_phyInit s;
     s \<leftarrow> enc2860_macInit s;
     s \<leftarrow> enc28j60_rxSetFilters
            (rx_filter_val RX_UNICAST OR rx_filter_val RX_CRC_CHECK OR rx_filter_val RX_BROADCAST) s;
     s \<leftarrow> enc28j60_writeReg (EIE (commonRegs_b0 (bank0 (dev s)))) 0xFF s;
     s \<leftarrow> enc28j60_BitFieldSet (ECON2 (commonRegs_b0 (bank0 (dev s)))) (push_bit 7 1) s;
     enc28j60_BitFieldSet (ECON1 (commonRegs_b0 (bank0 (dev s)))) (push_bit 2 1) s
   }"

section \<open>Transmit\<close>

text \<open>\<open>u8PtrData\<close> is the \<open>length\<close> bytes the pointer argument gives access to.\<close>

definition enc28j60_etherTransmit :: "u8 list \<Rightarrow> u16 \<Rightarrow> 'w sys \<Rightarrow> (bool \<times> 'w sys) option" where
  "enc28j60_etherTransmit u8PtrData len s = do {
     s \<leftarrow> enc28j60_writeReg (EWRPTL (bank0 (dev s))) (ucast (txBufStartAddr (dev s) AND 0xFF)) s;
     s \<leftarrow> enc28j60_writeReg (EWRPTH (bank0 (dev s))) (ucast (drop_bit 0x08 (txBufStartAddr (dev s)))) s;
     s \<leftarrow> enc28j60_writeReg (ETXSTL (bank0 (dev s))) (ucast (txBufStartAddr (dev s) AND 0xFF)) s;
     s \<leftarrow> enc28j60_writeReg (ETXSTH (bank0 (dev s))) (ucast (drop_bit 0x08 (txBufStartAddr (dev s)))) s;
     s \<leftarrow> call_CS s;
     let u8Command = u8WriteBufferMemory (opcode (dev s));
     s \<leftarrow> call_Write [u8Command] s;
     let s = s\<lparr>dev := (dev s)\<lparr>txPkt := (txPkt (dev s))\<lparr>txPktLen := txBufStartAddr (dev s) + len\<rparr>\<rparr>\<rparr>;
     let u8ControlByte = 0x00;
     s \<leftarrow> call_Write [u8ControlByte] s;
     s \<leftarrow> call_Write u8PtrData s;
     s \<leftarrow> call_ChipDS s;
     s \<leftarrow> enc28j60_writeReg (ETXNDL (bank0 (dev s))) (ucast (txPktLen (txPkt (dev s)) AND 0xFF)) s;
     s \<leftarrow> enc28j60_writeReg (ETXNDH (bank0 (dev s))) (ucast (drop_bit 0x08 (txPktLen (txPkt (dev s))))) s;
     s \<leftarrow> enc28j60_BitFieldClear (EIR (commonRegs_b0 (bank0 (dev s)))) (push_bit 3 1) s;
     s \<leftarrow> enc28j60_BitFieldSet (EIE (commonRegs_b0 (bank0 (dev s)))) (push_bit 3 1) s;
     s \<leftarrow> enc28j60_BitFieldSet (EIE (commonRegs_b0 (bank0 (dev s)))) (push_bit 7 1) s;
     s \<leftarrow> enc28j60_BitFieldSet (ECON1 (commonRegs_b0 (bank0 (dev s)))) (push_bit 3 1) s;
     Some (True, s)
   }"

section \<open>Receive\<close>

text \<open>
  \<open>fncPtrRead(dev->rxPkt.data, n)\<close> stores \<open>n\<close> bytes from the start of \<open>rxPkt.data\<close>.  The
  structs are packed, so what follows the 1500 bytes of \<open>data\<close> in memory is
  \<open>rxPkt.ptrAddr\<close>, then \<open>txPkt.txPktLen\<close> and \<open>txPkt.data\<close>: a store of more than
  1500 bytes runs into them.
\<close>

definition rx_tail :: "'w enc28j60Drv \<Rightarrow> u8 list" where
  "rx_tail d = [lo8 (ptrAddr (rxPkt d)), hi8 (ptrAddr (rxPkt d)),
                lo8 (txPktLen (txPkt d)), hi8 (txPktLen (txPkt d))] @ tx_data (txPkt d)"

definition store_rx_data :: "u8 list \<Rightarrow> 'w enc28j60Drv \<Rightarrow> 'w enc28j60Drv" where
  "store_rx_data bs d =
     (let m = bs @ drop (length bs) (rx_data (rxPkt d) @ rx_tail d) in
      d\<lparr>rxPkt := (rxPkt d)\<lparr>rx_data := take 1500 m, ptrAddr := u16_of (m ! 1500) (m ! 1501)\<rparr>,
        txPkt := (txPkt d)\<lparr>txPktLen := u16_of (m ! 1502) (m ! 1503), tx_data := drop 1504 m\<rparr>\<rparr>)"

text \<open>The messages of the \<open>switch\<close> over the status flags; case 13 falls through to case 14.\<close>

definition rx_flag_print :: "nat \<Rightarrow> 'w sys \<Rightarrow> 'w sys" where
  "rx_flag_print i s =
     (if i = 1 then dMesgPrint DEBUG_ERROR ''Long/Drop Event'' [] s
      else if i = 2 then dMesgPrint DEBUG_ERROR ''Carrier seen!'' [] s
      else if i = 4 then dMesgPrint DEBUG_ERROR ''CRC Err!'' [] s
      else if i = 5 then dMesgPrint DEBUG_ERROR ''Length Chk Err!'' [] s
      else if i = 6 then dMesgPrint DEBUG_ERROR ''Length range!'' [] s
      else if i = 7 then dMesgPrint DEBUG_INFO ''Rcv OK!'' [] s
      else if i = 8 then dMesgPrint DEBUG_INFO ''Rcv Multicast'' [] s
      else if i = 9 then dMesgPrint DEBUG_INFO ''Rcv Broadcast'' [] s
      else if i = 10 then dMesgPrint DEBUG_INFO ''Dribble Nibble'' [] s
      else if i = 11 then dMesgPrint DEBUG_INFO ''Rcv CTL'' [] s
      else if i = 12 then dMesgPrint DEBUG_INFO ''Rcv Pause CTL'' [] s
      else if i = 13 then dMesgPrint DEBUG_INFO ''VLAN!'' [] (dMesgPrint DEBUG_ERROR ''Rcd unkwn opcode'' [] s)
      else if i = 14 then dMesgPrint DEBUG_INFO ''VLAN!'' [] s
      else s)"

fun rx_flags_loop :: "nat list \<Rightarrow> u16 \<Rightarrow> 'w sys \<Rightarrow> 'w sys" where
  "rx_flags_loop [] u16Flags s = s"
| "rx_flags_loop (i # is) u16Flags s =
     rx_flags_loop is u16Flags
       (if u16Flags AND push_bit i 1 \<noteq> 0 then rx_flag_print i s else s)"

fun rx_stat_print :: "nat list \<Rightarrow> 'w sys \<Rightarrow> 'w sys" where
  "rx_stat_print [] s = s"
| "rx_stat_print (i # is) s =
     rx_stat_print is (dMesgPrint DEBUG_ERROR ''Status vector registers %d: %d''
        [int i, uint (rxStatVect (rxPkt (dev s)) ! i)] s)"

text \<open>
  \<open>enc28j60_etherReceive\<close> in its four stages: the read pointer, the next-packet pointer and
  the status vector; the length check; the data and the receive read pointer; the flag messages.
\<close>

definition rx_read_header :: "'w sys \<Rightarrow> 'w sys option" where
  "rx_read_header s = do {
     s \<leftarrow> enc28j60_writeReg (ERDPTL (bank0 (dev s))) (lo8 (ptrAddr (rxPkt (dev s)))) s;
     s \<leftarrow> enc28j60_writeReg (ERDPTH (bank0 (dev s))) (hi8 (ptrAddr (rxPkt (dev s)))) s;
     s \<leftarrow> call_CS s;
     let u8Command = u8readBufferMemory (opcode (dev s));
     s \<leftarrow> call_Write [u8Command] s;
     (bs, s) \<leftarrow> call_Read 2 s;
     let s = s\<lparr>dev := (dev s)\<lparr>rxPkt := (rxPkt (dev s))\<lparr>nxtPktAddr := bs\<rparr>\<rparr>\<rparr>;
     let u16Ptr = ucast (nxtPktAddr (rxPkt (dev s)) ! 0);
     let u16Ptr = u16Ptr OR push_bit 8 (ucast (nxtPktAddr (rxPkt (dev s)) ! 1));
     let s = s\<lparr>dev := (dev s)\<lparr>rxPkt := (rxPkt (dev s))\<lparr>ptrAddr := u16Ptr\<rparr>\<rparr>\<rparr>;
     let s = dMesgPrint DEBUG_INFO ''Next Point address --> %d'' [uint u16Ptr] s;
     (bs, s) \<leftarrow> call_Read 4 s;
     let s = s\<lparr>dev := (dev s)\<lparr>rxPkt := (rxPkt (dev s))\<lparr>rxStatVect := bs\<rparr>\<rparr>\<rparr>;
     let u16PktLen = ucast (rxStatVect (rxPkt (dev s)) ! 0);
     let u16PktLen = u16PktLen OR push_bit 8 (ucast (rxStatVect (rxPkt (dev s)) ! 1));
     Some (s\<lparr>dev := (dev s)\<lparr>rxPkt := (rxPkt (dev s))\<lparr>rxPktLen := u16PktLen\<rparr>\<rparr>\<rparr>)
   }"

definition rx_flags :: "'w sys \<Rightarrow> u16" where
  "rx_flags s = ucast (rxStatVect (rxPkt (dev s)) ! 2) OR push_bit 8 (ucast (rxStatVect (rxPkt (dev s)) ! 3))"

definition rx_check_len :: "'w sys \<Rightarrow> bool \<times> 'w sys" where
  "rx_check_len s =
     (if rxPktLen (rxPkt (dev s)) \<ge> 1518
      then (let s = rx_stat_print [0..<4] s;
                s = dMesgPrint DEBUG_ERROR
                  ''Packet length is probably the result of (0 - 4) which is wrong 0'' [] s
            in (False, s\<lparr>dev := (dev s)\<lparr>rxPkt := (rxPkt (dev s))\<lparr>rxPktLen := 0\<rparr>\<rparr>\<rparr>))
      else (True, s))"

definition rx_read_data :: "'w sys \<Rightarrow> 'w sys option" where
  "rx_read_data s = do {
     (bs, s) \<leftarrow> call_Read (rxPktLen (rxPkt (dev s))) s;
     let s = s\<lparr>dev := store_rx_data bs (dev s)\<rparr>;
     s \<leftarrow> call_ChipDS s;
     let u16ValueToLoad =
       (if ptrAddr (rxPkt (dev s)) = rxBufStartAddr (dev s)
        then rxBufEndAddr (dev s)
        else ptrAddr (rxPkt (dev s)) - 1);
     s \<leftarrow> enc28j60_writeReg (ERXRDPTL (bank0 (dev s))) (ucast (u16ValueToLoad AND 0xFF)) s;
     enc28j60_writeReg (ERXRDPTH (bank0 (dev s))) (ucast (drop_bit 0x08 u16ValueToLoad)) s
   }"

definition enc28j60_etherReceive :: "'w sys \<Rightarrow> (bool \<times> 'w sys) option" where
  "enc28j60_etherReceive s = do {
     s \<leftarrow> rx_read_header s;
     let u16Flags = rx_flags s;
     let (bReturnValue, s) = rx_check_len s;
     s \<leftarrow> rx_read_data s;
     Some (bReturnValue, rx_flags_loop [0..<16] u16Flags s)
   }"

section \<open>Interrupt flags\<close>

definition enc28j60_clear_interrupt :: "enc28j60_eth_int_flag \<Rightarrow> 'w sys \<Rightarrow> 'w sys option" where
  "enc28j60_clear_interrupt flags s =
     (let value = eth_int_flag_val flags in
      if value \<le> 64
      then (if flags = PKTIF
            then enc28j60_BitFieldSet (ECON2 (commonRegs_b0 (bank0 (dev s)))) (push_bit 6 1) s
            else enc28j60_BitFieldClear (EIR (commonRegs_b0 (bank0 (dev s)))) value s)
      else Some s)"

definition enc28j60_global_Int_Set :: "'w sys \<Rightarrow> 'w sys option" where
  "enc28j60_global_Int_Set s =
     enc28j60_BitFieldSet (EIE (commonRegs_b0 (bank0 (dev s)))) (push_bit 7 1) s"

definition enc28j60_global_int_Clear :: "'w sys \<Rightarrow> 'w sys option" where
  "enc28j60_global_int_Clear s =
     enc28j60_BitFieldClear (EIE (commonRegs_b0 (bank0 (dev s)))) (push_bit 7 1) s"

definition enc28j60_link_change_int_clear :: "'w sys \<Rightarrow> 'w sys option" where
  "enc28j60_link_change_int_clear s =
     enc28j60_BitFieldClear (EIE (commonRegs_b0 (bank0 (dev s)))) (push_bit 4 1) s"

end
