(* ===== verification/Spi_Bus.thy ===== *)
theory Spi_Bus
  imports Enc_Prelude
begin

text \<open>
  What the driver relies on behind its function pointers.  \<open>bus_event\<close> is what can be seen on
  the SPI wires: the chip-select line driven low or high, and one byte exchanged, as the host
  drove it and as the device answered (SPI is full duplex: both always happen).  \<open>spi_bus\<close> is
  the interface the pointers must satisfy: each call appends exactly its own events to the bus
  log, a write drives the bytes it is given, and a read of \<open>n\<close> bytes delivers the \<open>n\<close>
  answers.  Nothing is assumed of the answers, nor of what the host drives during a read.

  \<open>chip\<close> reads a bus log back as the ENC28J60 instruction set does (data sheet, SPI instruction
  set): the control registers as the host has programmed them, the part of the buffer memory it
  has written, and the PHY accesses it has commanded.  It is the specification the driver is
  proved against; what the chip changes by itself (interrupt flags, received frames) is not
  part of it, but for the bytes it has answered with, kept in \<open>cread\<close>.
\<close>

section \<open>Events on the bus\<close>

datatype bus_event = CS | DS | Xfer u8 u8

section \<open>The registers as the host commands them\<close>

record chip =
  csel :: bool
  ccmd :: "u8 option"
  creg :: "u8 \<Rightarrow> u8"
  cmem :: "u16 \<Rightarrow> u8"
  phyw :: "(u8 \<times> u16) list"
  phyr :: "u8 list"
  cread :: "u8 list"

text \<open>
  A register is named by its bank in the two top bits and its address in the five low ones; the
  five registers from 0x1B on are common to all banks and named as in bank 0.
\<close>

definition common_reg :: "u8 \<Rightarrow> bool" where
  "common_reg r \<longleftrightarrow> 0x1B \<le> r AND 0x1F"

definition reg_key :: "u8 \<Rightarrow> u8 \<Rightarrow> u8" where
  "reg_key b a = (if 0x1B \<le> a then a else push_bit 6 b OR a)"

definition bsel :: "chip \<Rightarrow> u8" where
  "bsel c = creg c 0x1F AND 3"

text \<open>MAC and MII registers accept no bit-field instruction.\<close>

definition mac_mii_key :: "u8 \<Rightarrow> bool" where
  "mac_mii_key k \<longleftrightarrow> k AND 0xC0 = 0x80 \<or> k \<in> {0xC0, 0xC1, 0xC2, 0xC3, 0xC4, 0xC5, 0xCA}"

text \<open>
  Writing MIWRH (0x97) starts a write of the PHY register in MIREGADR (0x94) with
  MIWRH:MIWRL; setting MIIRD in MICMD (0x92) starts a read of it.
\<close>

definition reg_write :: "u8 \<Rightarrow> u8 \<Rightarrow> chip \<Rightarrow> chip" where
  "reg_write k v c = c\<lparr>creg := (creg c)(k := v),
     phyw := phyw c @ (if k = 0x97 then [(creg c 0x94, u16_of (creg c 0x96) v)] else []),
     phyr := phyr c @ (if k = 0x92 \<and> v AND 1 \<noteq> 0 then [creg c 0x94] else [])\<rparr>"

definition reg_set :: "u8 \<Rightarrow> u8 \<Rightarrow> chip \<Rightarrow> chip" where
  "reg_set k v c = (if mac_mii_key k then c else c\<lparr>creg := (creg c)(k := creg c k OR v)\<rparr>)"

definition reg_clear :: "u8 \<Rightarrow> u8 \<Rightarrow> chip \<Rightarrow> chip" where
  "reg_clear k v c = (if mac_mii_key k then c else c\<lparr>creg := (creg c)(k := creg c k AND NOT v)\<rparr>)"

text \<open>The write pointer EWRPT (0x02, 0x03) and its increment with wrap at the end of the 8 KB buffer.\<close>

definition ewrpt :: "chip \<Rightarrow> u16" where
  "ewrpt c = u16_of (creg c 0x02) (creg c 0x03)"

definition next_wrpt :: "u16 \<Rightarrow> u16" where
  "next_wrpt p = (p + 1) AND 0x1FFF"

definition autoinc :: "chip \<Rightarrow> bool" where
  "autoinc c \<longleftrightarrow> creg c 0x1E AND 0x80 \<noteq> 0"

definition mem_write :: "u8 \<Rightarrow> chip \<Rightarrow> chip" where
  "mem_write v c =
     (let p = ewrpt c; q = next_wrpt p;
          c' = c\<lparr>cmem := (cmem c)(p := v)\<rparr>
      in if autoinc c then c'\<lparr>creg := (creg c)(0x02 := lo8 q, 0x03 := hi8 q)\<rparr> else c')"

text \<open>The control registers after a system reset, for the registers whose reset value is not 0.\<close>

definition reset_reg :: "u8 \<Rightarrow> u8" where
  "reset_reg k =
     (if k \<in> {0x00, 0x08, 0x0C} then 0xFA
      else if k \<in> {0x01, 0x09, 0x0D} then 0x05
      else if k = 0x0A then 0xFF
      else if k = 0x0B then 0x1F
      else if k = 0x1E then 0x80
      else if k = 0x58 then 0xA1
      else if k = 0x88 then 0x0F
      else if k = 0x89 then 0x37
      else if k = 0x8B then 0x06
      else if k = 0xD5 then 0x04
      else if k = 0xD9 then 0x10
      else 0)"

definition chip_reset :: "chip \<Rightarrow> chip" where
  "chip_reset c = c\<lparr>creg := reset_reg\<rparr>"

text \<open>One byte from the host: the first after chip select is the instruction.\<close>

definition chip_byte :: "u8 \<Rightarrow> chip \<Rightarrow> chip" where
  "chip_byte v c =
     (if \<not> csel c then c
      else case ccmd c of
        None \<Rightarrow> (if v = 0xFF then chip_reset c else c)\<lparr>ccmd := Some v\<rparr>
      | Some op \<Rightarrow>
          (let k = reg_key (bsel c) (op AND 0x1F) in
           if op AND 0xE0 = 0x40 then reg_write k v c
           else if op AND 0xE0 = 0x80 then reg_set k v c
           else if op AND 0xE0 = 0xA0 then reg_clear k v c
           else if op = 0x7A then mem_write v c
           else c))"

text \<open>
  During a read instruction (RCR 0x00 or RBM 0x20) the chip answers, and ignores what the host
  drives; in the data phase of the others it takes what the host drives.
\<close>

definition reading :: "chip \<Rightarrow> bool" where
  "reading c \<longleftrightarrow> csel c \<and> (case ccmd c of None \<Rightarrow> False | Some op \<Rightarrow> op AND 0xE0 = 0 \<or> op AND 0xE0 = 0x20)"

definition writing :: "chip \<Rightarrow> bool" where
  "writing c \<longleftrightarrow> csel c \<and> ccmd c \<noteq> None \<and> \<not> reading c"

lemma chip_byte_reading: "reading c \<Longrightarrow> chip_byte d c = c"
  by (auto simp: reading_def chip_byte_def Let_def split: option.splits)

fun chip_event :: "bus_event \<Rightarrow> chip \<Rightarrow> chip" where
  "chip_event CS c = c\<lparr>csel := True, ccmd := None\<rparr>"
| "chip_event DS c = c\<lparr>csel := False, ccmd := None\<rparr>"
| "chip_event (Xfer d v) c = (chip_byte d c)\<lparr>cread := cread c @ (if reading c then [v] else [])\<rparr>"

definition chip_power_on :: chip where
  "chip_power_on = \<lparr>csel = False, ccmd = None, creg = reset_reg, cmem = (\<lambda>_. 0), phyw = [], phyr = [], cread = []\<rparr>"

definition chip_run :: "bus_event list \<Rightarrow> chip" where
  "chip_run evs = fold chip_event evs chip_power_on"

lemma chip_run_snoc [simp]: "chip_run (evs @ [e]) = chip_event e (chip_run evs)"
  by (simp add: chip_run_def)

lemma chip_run_append: "chip_run (evs @ evs') = fold chip_event evs' (chip_run evs)"
  by (simp add: chip_run_def)

text \<open>A burst of bytes from the host.\<close>

definition tx_bytes :: "u8 list \<Rightarrow> chip \<Rightarrow> chip" where
  "tx_bytes bs = fold chip_byte bs"

lemma cread_chip_byte [simp]: "cread (chip_byte v c) = cread c"
  by (simp add: chip_byte_def reg_write_def reg_set_def reg_clear_def mem_write_def chip_reset_def
      Let_def split: option.split)

lemma chip_byte_frame:
  assumes "writing c"
  shows "csel (chip_byte v c) = csel c" and "ccmd (chip_byte v c) = ccmd c"
  using assms
  by (auto simp: writing_def chip_byte_def reg_write_def reg_set_def reg_clear_def mem_write_def Let_def)

lemma chip_byte_writing: "writing c \<Longrightarrow> writing (chip_byte v c)"
  using chip_byte_frame [of c v] by (simp add: writing_def reading_def)

lemma chip_event_quiet: "\<not> reading c \<Longrightarrow> chip_event (Xfer d v) c = chip_byte d c"
  by (cases "chip_byte d c") (use cread_chip_byte [of d c] in simp)

lemma fold_writing:
  "length bs = length vs \<Longrightarrow> writing c \<Longrightarrow> fold chip_event (map2 Xfer bs vs) c = tx_bytes bs c"
proof (induction bs vs arbitrary: c rule: list_induct2)
  case (Cons b bs v vs)
  have "\<not> reading c" using Cons.prems by (simp add: writing_def)
  with Cons show ?case by (simp add: tx_bytes_def chip_event_quiet chip_byte_writing del: chip_event.simps)
qed (simp add: tx_bytes_def)

lemma fold_reading:
  "length ds = length vs \<Longrightarrow> reading c \<Longrightarrow>
   fold chip_event (map2 Xfer ds vs) c = c\<lparr>cread := cread c @ vs\<rparr>"
proof (induction ds vs arbitrary: c rule: list_induct2)
  case (Cons d ds v vs)
  have "reading (c\<lparr>cread := cread c @ [v]\<rparr>)"
    using Cons.prems by (simp add: reading_def)
  from Cons.IH [OF this] Cons.prems show ?case by (simp add: chip_byte_reading)
qed simp

definition chip_idle :: "chip \<Rightarrow> bool" where
  "chip_idle c \<longleftrightarrow> \<not> csel c \<and> ccmd c = None"

lemma chip_idle_power_on [simp]: "chip_idle (chip_run [])"
  by (simp add: chip_run_def chip_power_on_def chip_idle_def)

lemma chip_idle_DS [simp]: "chip_idle (chip_event DS c)"
  by (simp add: chip_idle_def)

text \<open>An idle chip is unchanged by setting the select and command fields again.\<close>

lemma chip_idle_upd: "chip_idle c \<Longrightarrow> c\<lparr>csel := False, ccmd := None\<rparr> = c"
  by (cases c) (simp add: chip_idle_def)

subsection \<open>Selecting a bank\<close>

definition c_sel :: "u8 \<Rightarrow> chip \<Rightarrow> chip" where
  "c_sel b c = c\<lparr>creg := (creg c)(0x1F := (creg c 0x1F AND NOT 3) OR b)\<rparr>"

lemma and_not_or_and: "((x :: u8) AND NOT m) OR (x AND m) = x"
  by (rule bit_word_eqI) (auto simp: bit_simps)

lemma c_sel_same: "bsel c = b \<Longrightarrow> c_sel b c = c"
proof -
  assume "bsel c = b"
  with and_not_or_and [of "creg c 0x1F" 3] have eq: "(creg c 0x1F AND NOT 3) OR b = creg c 0x1F"
    by (simp only: bsel_def)
  show ?thesis by (simp only: c_sel_def eq fun_upd_triv) simp
qed

lemma bsel_c_sel: "b AND NOT 3 = 0 \<Longrightarrow> bsel (c_sel b c) = b"
proof -
  assume "b AND NOT 3 = 0"
  then have "b AND 3 = b"
    by (metis and_not_or_and or.left_neutral)
  moreover have "((x AND NOT 3) OR b) AND 3 = b AND 3" for x :: u8
    by (rule bit_word_eqI) (auto simp: bit_simps)
  ultimately show ?thesis by (simp add: bsel_def c_sel_def)
qed

section \<open>The interface behind the function pointers\<close>

locale spi_bus =
  fixes cs :: "'w \<Rightarrow> 'w"
    and ds :: "'w \<Rightarrow> 'w"
    and rd :: "u16 \<Rightarrow> 'w \<Rightarrow> (u8 list \<times> u16) \<times> 'w"
    and wr :: "u8 list \<Rightarrow> 'w \<Rightarrow> 'w"
    and dly :: "u32 \<Rightarrow> 'w \<Rightarrow> 'w"
    and log :: "'w \<Rightarrow> bus_event list"
  assumes log_cs: "log (cs w) = log w @ [CS]"
    and log_ds: "log (ds w) = log w @ [DS]"
    and log_wr: "length bs < 2 ^ 16 \<Longrightarrow> \<exists>vs. length vs = length bs \<and> log (wr bs w) = log w @ map2 Xfer bs vs"
    and log_dly: "log (dly n w) = log w"
    and log_rd: "\<exists>ds. length ds = unat k \<and> log (snd (rd k w)) = log w @ map2 Xfer ds (fst (fst (rd k w)))"
    and len_rd: "length (fst (fst (rd k w))) = unat k"
begin

text \<open>The programmed chip behind a state of the hardware.\<close>

definition chipw :: "'w \<Rightarrow> chip" where
  "chipw w = chip_run (log w)"

lemma chipw_simps [simp]:
  "chipw (cs w) = chip_event CS (chipw w)"
  "chipw (ds w) = chip_event DS (chipw w)"
  "chipw (dly n w) = chipw w"
  by (simp_all add: chipw_def log_cs log_ds log_dly)

text \<open>The first byte after chip select is the instruction, the following ones are data.\<close>

lemma chipw_cmd: "chipw (wr [op] (cs w)) = tx_bytes [op] (chip_event CS (chipw w))"
proof -
  obtain vs where l: "length vs = length [op]" and e: "log (wr [op] (cs w)) = log (cs w) @ map2 Xfer [op] vs"
    using log_wr [of "[op]"] by auto
  from l obtain v where "vs = [v]" by (cases vs) auto
  with e have "chipw (wr [op] (cs w)) = chip_event (Xfer op v) (chip_event CS (chipw w))"
    by (simp add: chipw_def log_cs chip_run_append)
  also have "\<dots> = tx_bytes [op] (chip_event CS (chipw w))"
    by (subst chip_event_quiet) (simp_all add: reading_def tx_bytes_def)
  finally show ?thesis .
qed

lemma chipw_data:
  assumes "writing (chipw w)" and "length bs < 2 ^ 16"
  shows "chipw (wr bs w) = tx_bytes bs (chipw w)"
proof -
  obtain vs where l: "length vs = length bs" and e: "log (wr bs w) = log w @ map2 Xfer bs vs"
    using log_wr [OF assms(2)] by blast
  show ?thesis using fold_writing [OF l [symmetric] assms(1)] by (simp add: chipw_def e chip_run_append)
qed

text \<open>An instruction byte that is no read opens a data phase.\<close>

lemma chipw_txn:
  assumes "op AND 0xE0 \<noteq> 0" and "op AND 0xE0 \<noteq> 0x20"
  shows "length bs < 2 ^ 16 \<Longrightarrow> chipw (wr bs (wr [op] (cs w))) = tx_bytes bs (tx_bytes [op] (chip_event CS (chipw w)))"
    and "writing (chipw (wr [op] (cs w)))"
proof -
  show w: "writing (chipw (wr [op] (cs w)))"
    using assms by (simp add: chipw_cmd tx_bytes_def chip_byte_def writing_def reading_def chip_reset_def)
  show "chipw (wr bs (wr [op] (cs w))) = tx_bytes bs (tx_bytes [op] (chip_event CS (chipw w)))"
    if "length bs < 2 ^ 16" using chipw_data [OF w that] by (simp add: chipw_cmd)
qed

lemma chipw_rd:
  assumes "reading (chipw w)"
  shows "chipw (snd (rd k w)) = (chipw w)\<lparr>cread := cread (chipw w) @ fst (fst (rd k w))\<rparr>"
    and "reading (chipw (snd (rd k w)))"
proof -
  obtain ds where l: "length ds = unat k" and e: "log (snd (rd k w)) = log w @ map2 Xfer ds (fst (fst (rd k w)))"
    using log_rd by blast
  from l len_rd have "length ds = length (fst (fst (rd k w)))" by simp
  from fold_reading [OF this assms] show c: "chipw (snd (rd k w)) = (chipw w)\<lparr>cread := cread (chipw w) @ fst (fst (rd k w))\<rparr>"
    by (simp add: chipw_def e chip_run_append)
  show "reading (chipw (snd (rd k w)))" using assms by (simp add: c reading_def)
qed

end

text \<open>
  A device that is ready whenever it is asked: MISTAT.BUSY (bank 3) reads clear and
  ESTAT.CLKRDY (all banks) reads set.  Each law looks at the last events of the log: which register is
  being read, and whether the answer is the first byte or the one after the dummy byte.
\<close>

locale ready_bus = spi_bus +
  assumes mistat_idle: "log w = es @ [CS, Xfer 0x0A a, Xfer d b] \<Longrightarrow> bsel (chip_run es) = 3 \<Longrightarrow>
        hd (fst (fst (rd 1 w))) AND 1 = 0"
    and estat_ready: "log w = es @ [CS, Xfer 0x1D a] \<Longrightarrow> hd (fst (fst (rd 1 w))) AND 1 \<noteq> 0"

end
