(* ===== verification/Enc_Bank.thy ===== *)
theory Enc_Bank
  imports Enc_Driver Spi_Bus
begin

text \<open>
  Bank selection and single register accesses, proved once for every bus that satisfies
  \<open>spi_bus\<close>.  The driver caches the selected bank in \<open>bnBank\<close>.  The cache is exact for the
  banks 1 to 3, but a change to bank 0 leaves it at the old bank, so what holds at all times is
  the weaker \<open>bank_inv\<close>: the chip is in the cached bank or in bank 0.  An access is \<open>routed\<close>
  when it reaches the register it names; accesses to bank 0 always are.
\<close>

section \<open>Names of registers\<close>

definition rbits :: "u8 \<Rightarrow> u8" where
  "rbits r = drop_bit 6 r"

definition rkey :: "u8 \<Rightarrow> u8" where
  "rkey r = reg_key (rbits r) (r AND 0x1F)"

lemma bank_bits_split:
  "r AND 0xC0 = push_bit 6 (of_bool (bit r 6)) OR push_bit 7 (of_bool (bit r 7))"
  "rbits r = of_bool (bit r 6) OR push_bit 1 (of_bool (bit r 7))"
  by (rule u8_bits_eqI; auto simp: rbits_def bit_simps dest: bit_imp_le_length)+

lemma rbits_cases: "rbits r \<in> {0, 1, 2, 3}"
  by (cases "bit r 6"; cases "bit r 7") (simp_all add: bank_bits_split)

lemma convertRegValToBank_cases:
  "convertRegValToBank r = (if rbits r = 0 then bank_0 else if rbits r = 1 then bank_1
     else if rbits r = 2 then bank_2 else bank_3)"
  by (cases "bit r 6"; cases "bit r 7")
    (simp_all add: bank_bits_split convertRegValToBank_def BANK_0_def BANK_1_def BANK_2_def BANK_3_def)

lemma convertRegValToBank_defined [simp]: "convertRegValToBank r \<noteq> undefBank"
  by (simp add: convertRegValToBank_cases)

lemma convertBankToBits_simps [simp]:
  "convertBankToBits bank_0 = 0" "convertBankToBits bank_1 = 1"
  "convertBankToBits bank_2 = 2" "convertBankToBits bank_3 = 3"
  by (simp_all add: convertBankToBits_def BANK_0_def BANK_1_def BANK_2_def BANK_3_def)

lemma convertBankToBits_reg [simp]: "convertBankToBits (convertRegValToBank r) = rbits r"
  using rbits_cases [of r] by (auto simp: convertRegValToBank_cases)

lemma rbits_small: "rbits r AND NOT 3 = 0"
  using rbits_cases [of r] by auto

lemma convertBankToBits_inj:
  "b \<noteq> undefBank \<Longrightarrow> b' \<noteq> undefBank \<Longrightarrow> convertBankToBits b = convertBankToBits b' \<longleftrightarrow> b = b'"
  by (cases b; cases b') simp_all

lemma convertBankToBits_zero: "b \<noteq> undefBank \<Longrightarrow> convertBankToBits b = 0 \<longleftrightarrow> b = bank_0"
  by (cases b) simp_all

lemma cmd_addr: "((op :: u8) OR (0x1F AND r)) AND 0x1F = r AND 0x1F" if "op AND 0x1F = 0"
  using that by (simp add: and.commute bit.conj_disj_distrib2 bit.conj_disj_distrib ac_simps)

lemma cmd_op:
  "((0x40 :: u8) OR (0x1F AND r)) AND 0xE0 = 0x40"
  "((0x80 :: u8) OR (0x1F AND r)) AND 0xE0 = 0x80"
  "((0xA0 :: u8) OR (0x1F AND r)) AND 0xE0 = 0xA0"
  by (rule u8_bits_eqI, auto simp: bit_simps)+

lemma cmd_not_reset:
  "((0x40 :: u8) OR (0x1F AND r)) \<noteq> 0xFF"
  "((0x80 :: u8) OR (0x1F AND r)) \<noteq> 0xFF"
  "((0xA0 :: u8) OR (0x1F AND r)) \<noteq> 0xFF"
  "(0x1F AND r :: u8) \<noteq> 0xFF"
  using cmd_op [of r] by force+

section \<open>Transactions on the chip\<close>

text \<open>
  What the two-byte instructions and the one-byte instruction with reads do to an idle chip:
  the register named by the selected bank and the address changes, nothing else.
\<close>

lemma txn_write:
  assumes "chip_idle c"
  shows "chip_event DS (tx_bytes [v] (tx_bytes [0x40 OR (0x1F AND r)] (chip_event CS c)))
    = reg_write (reg_key (bsel c) (r AND 0x1F)) v c"
  using chip_idle_upd [OF assms]
  by (cases c) (simp add: tx_bytes_def chip_byte_def cmd_not_reset cmd_op cmd_addr Let_def reg_write_def bsel_def)

lemma txn_set:
  assumes "chip_idle c"
  shows "chip_event DS (tx_bytes [v] (tx_bytes [0x80 OR (0x1F AND r)] (chip_event CS c)))
    = reg_set (reg_key (bsel c) (r AND 0x1F)) v c"
  using chip_idle_upd [OF assms]
  by (cases c) (simp add: tx_bytes_def chip_byte_def cmd_not_reset cmd_op cmd_addr Let_def reg_set_def bsel_def)

lemma txn_clear:
  assumes "chip_idle c"
  shows "chip_event DS (tx_bytes [v] (tx_bytes [0xA0 OR (0x1F AND r)] (chip_event CS c)))
    = reg_clear (reg_key (bsel c) (r AND 0x1F)) v c"
  using chip_idle_upd [OF assms]
  by (cases c) (simp add: tx_bytes_def chip_byte_def cmd_not_reset cmd_op cmd_addr Let_def reg_clear_def bsel_def)

lemma cmd_read: "(0x1F AND r :: u8) AND 0xE0 = 0"
  by (rule u8_bits_eqI) (auto simp: bit_simps)

lemma txn_read:
  assumes "chip_idle c"
  shows "reading (tx_bytes [0x1F AND r] (chip_event CS c))"
    and "cread (tx_bytes [0x1F AND r] (chip_event CS c)) = cread c"
    and "chip_event DS ((tx_bytes [0x1F AND r] (chip_event CS c))\<lparr>cread := x\<rparr>) = c\<lparr>cread := x\<rparr>"
  using chip_idle_upd [OF assms] cmd_read [of r]
  by (cases c, simp add: tx_bytes_def chip_byte_def cmd_not_reset reading_def)+

lemma cread_upd [simp]:
  "chip_idle (c\<lparr>cread := x\<rparr>) = chip_idle c"
  "bsel (c\<lparr>cread := x\<rparr>) = bsel c"
  "cread (reg_write k v c) = cread c" "cread (reg_set k v c) = cread c"
  "cread (reg_clear k v c) = cread c" "cread (c_sel b c) = cread c"
  by (simp_all add: chip_idle_def bsel_def reg_write_def reg_set_def reg_clear_def c_sel_def)

lemma reg_ops_idle [simp]:
  "chip_idle (reg_write k v c) = chip_idle c"
  "chip_idle (reg_set k v c) = chip_idle c"
  "chip_idle (reg_clear k v c) = chip_idle c"
  "chip_idle (c_sel b c) = chip_idle c"
  by (simp_all add: chip_idle_def reg_write_def reg_set_def reg_clear_def c_sel_def)

lemma set_txn: "reg_set 0x1F b (c_sel 0 c) = c_sel b c"
  by (simp add: reg_set_def c_sel_def mac_mii_key_def)

lemma clear_txn: "reg_clear 0x1F 3 c = c_sel 0 c"
  by (simp add: reg_clear_def c_sel_def mac_mii_key_def)

declare chip_event.simps [simp del]

lemma reg_key_addr: "reg_key b (r AND 0x1F) AND 0x1F = r AND 0x1F"
  unfolding reg_key_def by (auto intro!: u8_bits_eqI simp: bit_simps)

lemma reg_key_ECON1: "reg_key b (r AND 0x1F) = 0x1F \<longleftrightarrow> r AND 0x1F = 0x1F"
  using reg_key_addr [of b r] by (auto simp: reg_key_def)

lemma bsel_reg_write: "k \<noteq> 0x1F \<Longrightarrow> bsel (reg_write k v c) = bsel c"
  by (simp add: bsel_def reg_write_def)

lemma bsel_reg_set: "(k = 0x1F \<longrightarrow> v AND 3 = 0) \<Longrightarrow> bsel (reg_set k v c) = bsel c"
  by (auto simp: bsel_def reg_set_def bit.conj_disj_distrib2)

lemma bsel_reg_clear: "(k = 0x1F \<longrightarrow> v AND 3 = 0) \<Longrightarrow> bsel (reg_clear k v c) = bsel c"
proof -
  assume a: "k = 0x1F \<longrightarrow> v AND 3 = 0"
  have "(x AND NOT v) AND 3 = x AND 3" if "v AND 3 = 0" for x :: u8
  proof (rule bit_word_eqI)
    fix n assume "n < LENGTH(8)"
    from that have "bit (v AND 3) n \<longleftrightarrow> False" by simp
    then show "bit ((x AND NOT v) AND 3) n \<longleftrightarrow> bit (x AND 3) n"
      by (auto simp: bit_simps)
  qed
  with a show ?thesis by (auto simp: bsel_def reg_clear_def)
qed

section \<open>The driver invariant\<close>

definition wired ::
  "('w \<Rightarrow> 'w) \<Rightarrow> ('w \<Rightarrow> 'w) \<Rightarrow> (u16 \<Rightarrow> 'w \<Rightarrow> (u8 list \<times> u16) \<times> 'w) \<Rightarrow> (u8 list \<Rightarrow> 'w \<Rightarrow> 'w) \<Rightarrow>
   (u32 \<Rightarrow> 'w \<Rightarrow> 'w) \<Rightarrow> 'w enc28j60Drv \<Rightarrow> bool" where
  "wired cs ds rd wr dly d \<longleftrightarrow>
     spi d = \<lparr>fncPtrCS = Some cs, fncPtrChipDS = Some ds, fncPtrRead = Some rd, fncPtrWrite = Some wr\<rparr> \<and>
     fncPtrDelayFunc d = Some dly"

definition prog_chip :: "('w \<Rightarrow> bus_event list) \<Rightarrow> 'w sys \<Rightarrow> chip" where
  "prog_chip log s = chip_run (log (hw s))"

definition bank_inv :: "chip \<Rightarrow> encj28j60_bank \<Rightarrow> bool" where
  "bank_inv c b \<longleftrightarrow> b \<noteq> undefBank \<and> (bsel c = convertBankToBits b \<or> bsel c = 0)"

definition drv_inv where
  "drv_inv cs ds rd wr dly log s \<longleftrightarrow>
     wired cs ds rd wr dly (dev s) \<and> const_dev (dev s) \<and> chip_idle (prog_chip log s) \<and>
     bank_inv (prog_chip log s) (bnBank (dev s))"

definition routed :: "('w \<Rightarrow> bus_event list) \<Rightarrow> u8 \<Rightarrow> 'w sys \<Rightarrow> bool" where
  "routed log r s \<longleftrightarrow> convertRegValToBank r \<noteq> bnBank (dev s) \<or> bsel (prog_chip log s) = rbits r"

text \<open>The cached bank after an access to register \<open>r\<close>.\<close>

definition next_bank :: "u8 \<Rightarrow> encj28j60_bank \<Rightarrow> encj28j60_bank" where
  "next_bank r b = (if convertRegValToBank r = bank_0 then b else convertRegValToBank r)"

lemma wired_upd [simp]:
  "wired cs ds rd wr dly (d\<lparr>bnBank := b\<rparr>) = wired cs ds rd wr dly d"
  "wired cs ds rd wr dly (d\<lparr>rxPkt := p\<rparr>) = wired cs ds rd wr dly d"
  "wired cs ds rd wr dly (d\<lparr>txPkt := q\<rparr>) = wired cs ds rd wr dly d"
  by (simp_all add: wired_def)

lemma prog_chip_upd [simp]:
  "prog_chip log (s\<lparr>dev := d\<rparr>) = prog_chip log s"
  "prog_chip log (s\<lparr>uart := u\<rparr>) = prog_chip log s"
  by (simp_all add: prog_chip_def)

lemma drv_inv_uart [simp]:
  "drv_inv cs ds rd wr dly log (s\<lparr>uart := u\<rparr>) = drv_inv cs ds rd wr dly log s"
  by (simp add: drv_inv_def)

lemma drv_inv_dev:
  "drv_inv cs ds rd wr dly log s \<Longrightarrow> wired cs ds rd wr dly d \<Longrightarrow> const_dev d \<Longrightarrow>
   bnBank d = bnBank (dev s) \<Longrightarrow> drv_inv cs ds rd wr dly log (s\<lparr>dev := d\<rparr>)"
  by (simp add: drv_inv_def)

lemma rbits_bank_0: "convertRegValToBank r = bank_0 \<longleftrightarrow> rbits r = 0"
  by (simp add: convertRegValToBank_cases)

context spi_bus
begin

abbreviation inv :: "'w sys \<Rightarrow> bool" where
  "inv s \<equiv> drv_inv cs ds rd wr dly log s"

abbreviation chips :: "'w sys \<Rightarrow> chip" where
  "chips s \<equiv> prog_chip log s"

lemma chips_hw [simp]: "chips (s\<lparr>hw := w\<rparr>) = chipw w"
  by (simp add: prog_chip_def chipw_def)

lemma chipw_hw: "chipw (hw s) = chips s"
  by (simp add: prog_chip_def chipw_def)

lemma calls:
  assumes "wired cs ds rd wr dly (dev s)"
  shows "call_CS s = Some (s\<lparr>hw := cs (hw s)\<rparr>)"
    and "call_ChipDS s = Some (s\<lparr>hw := ds (hw s)\<rparr>)"
    and "call_Write bs s = Some (s\<lparr>hw := wr bs (hw s)\<rparr>)"
    and "call_Read n s = Some (fst (fst (rd n (hw s))), s\<lparr>hw := snd (rd n (hw s))\<rparr>)"
    and "call_Delay ms s = Some (s\<lparr>hw := dly ms (hw s)\<rparr>)"
  using assms
  by (simp_all add: wired_def call_CS_def call_ChipDS_def call_Write_def call_Read_def
      call_Delay_def split_beta)

subsection \<open>Bank selection\<close>

lemma bankChange_spec:
  assumes i: "inv s" and b: "b \<noteq> undefBank"
  shows "\<exists>w. enc28j60_bankChange b s =
      Some (s\<lparr>hw := w, dev := (dev s)\<lparr>bnBank := (if b = bank_0 then bnBank (dev s) else b)\<rparr>\<rparr>)
    \<and> chipw w = c_sel (convertBankToBits b) (chips s)"
proof -
  have w: "wired cs ds rd wr dly (dev s)" and c: "const_dev (dev s)"
    and idle: "chip_idle (chips s)" and nb: "bnBank (dev s) \<noteq> undefBank"
    using i by (auto simp: drv_inv_def bank_inv_def)
  define w1 where "w1 = ds (wr [3] (wr [0xBF] (cs (hw s))))"
  define w2 where "w2 = ds (wr [convertBankToBits b] (wr [0x9F] (cs w1)))"
  have cw1: "chipw w1 = c_sel 0 (chips s)"
    using txn_clear [where v = 3 and r = "0x1F", OF idle]
    by (simp add: w1_def chipw_txn chipw_hw reg_key_def clear_txn)
  have cw2: "chipw w2 = c_sel (convertBankToBits b) (chips s)"
    using txn_set [where c = "c_sel 0 (chips s)" and v = "convertBankToBits b" and r = "0x1F"] idle
    by (simp add: w2_def chipw_txn cw1 reg_key_def set_txn)
  have eq: "enc28j60_bankChange b s =
     (if convertBankToBits b \<noteq> 0 \<and> convertBankToBits b \<le> 3
      then Some (s\<lparr>hw := w2, dev := (dev s)\<lparr>bnBank := b\<rparr>\<rparr>) else Some (s\<lparr>hw := w1\<rparr>))"
    using nb w c
    by (cases "bnBank (dev s)")
      (simp_all add: enc28j60_bankChange_def calls const_devD reg_addrs w1_def w2_def Let_def)
  have small: "convertBankToBits b \<le> 3" and z: "convertBankToBits b = 0 \<longleftrightarrow> b = bank_0"
    using b by (cases b; simp)+
  show ?thesis
  proof (cases "b = bank_0")
    case True
    then show ?thesis using eq cw1 by (auto intro!: exI [of _ w1])
  next
    case False
    then show ?thesis using eq cw2 small z by (auto intro!: exI [of _ w2])
  qed
qed

lemma select_bank_spec:
  assumes i: "inv s"
  obtains w where "select_bank r s = Some (s\<lparr>hw := w, dev := (dev s)\<lparr>bnBank := next_bank r (bnBank (dev s))\<rparr>\<rparr>)"
    and "chipw w = (if convertRegValToBank r = bnBank (dev s) then chips s else c_sel (rbits r) (chips s))"
proof (cases "convertRegValToBank r = bnBank (dev s)")
  case True
  then have "next_bank r (bnBank (dev s)) = bnBank (dev s)" by (simp add: next_bank_def)
  then have "select_bank r s = Some (s\<lparr>hw := hw s, dev := (dev s)\<lparr>bnBank := next_bank r (bnBank (dev s))\<rparr>\<rparr>)"
    using True by (simp add: select_bank_def)
  then show thesis by (rule that) (simp add: chipw_hw True)
next
  case False
  with bankChange_spec [OF i, of "convertRegValToBank r"] show thesis
    using that by (auto simp: select_bank_def next_bank_def)
qed

subsection \<open>Register accesses\<close>

text \<open>The chip as an access to \<open>r\<close> finds it, after the bank change the driver may make.\<close>

definition acc_chip :: "u8 \<Rightarrow> 'w sys \<Rightarrow> chip" where
  "acc_chip r s = (if convertRegValToBank r = bnBank (dev s) then chips s else c_sel (rbits r) (chips s))"

definition acc_key :: "u8 \<Rightarrow> 'w sys \<Rightarrow> u8" where
  "acc_key r s = reg_key (bsel (acc_chip r s)) (r AND 0x1F)"

lemma acc_routed:
  assumes "routed log r s"
  shows "acc_chip r s = c_sel (rbits r) (chips s)" and "acc_key r s = rkey r"
proof -
  show c: "acc_chip r s = c_sel (rbits r) (chips s)"
    using assms by (auto simp: acc_chip_def routed_def c_sel_same)
  show "acc_key r s = rkey r"
    by (simp add: acc_key_def c bsel_c_sel [OF rbits_small] rkey_def)
qed

lemma acc_misrouted:
  assumes "inv s" and "\<not> routed log r s"
  shows "acc_chip r s = chips s" and "acc_key r s = reg_key 0 (r AND 0x1F)"
    and "bsel (chips s) = 0" and "convertRegValToBank r = bnBank (dev s)"
proof -
  have b: "convertRegValToBank r = bnBank (dev s)" and ne: "bsel (chips s) \<noteq> rbits r"
    using assms(2) by (auto simp: routed_def)
  then have "convertBankToBits (bnBank (dev s)) = rbits r"
    by (metis convertBankToBits_reg)
  with assms(1) ne show z: "bsel (chips s) = 0"
    by (auto simp: drv_inv_def bank_inv_def)
  show "convertRegValToBank r = bnBank (dev s)" by (rule b)
  show c: "acc_chip r s = chips s" by (simp add: acc_chip_def b)
  show "acc_key r s = reg_key 0 (r AND 0x1F)" by (simp add: acc_key_def c z)
qed

lemma bank0_routed: "inv s \<Longrightarrow> rbits r = 0 \<Longrightarrow> routed log r s"
  by (auto simp: routed_def drv_inv_def bank_inv_def convertRegValToBank_cases)

lemma acc_chip_idle: "inv s \<Longrightarrow> chip_idle (acc_chip r s)"
  by (simp add: acc_chip_def drv_inv_def)

lemma invD:
  assumes "inv s"
  shows "wired cs ds rd wr dly (dev s)" and "const_dev (dev s)" and "chip_idle (chips s)"
    and "bnBank (dev s) \<noteq> undefBank"
  using assms by (auto simp: drv_inv_def bank_inv_def)

lemma acc_bank_inv:
  assumes i: "inv s"
  shows "bank_inv (acc_chip r s) (next_bank r (bnBank (dev s)))"
proof (cases "convertRegValToBank r = bnBank (dev s)")
  case True
  with i show ?thesis by (auto simp: acc_chip_def next_bank_def drv_inv_def)
next
  case False
  have "bsel (c_sel (rbits r) (chips s)) = rbits r" by (rule bsel_c_sel [OF rbits_small])
  with False invD(4) [OF i] show ?thesis
    by (simp add: acc_chip_def next_bank_def bank_inv_def rbits_bank_0)
qed

lemma select_bank_acc:
  assumes "inv s"
  obtains w where "select_bank r s =
      Some (s\<lparr>hw := w, dev := (dev s)\<lparr>bnBank := next_bank r (bnBank (dev s))\<rparr>\<rparr>)"
    and "chipw w = acc_chip r s"
  using select_bank_spec [OF assms, of r] by (auto simp: acc_chip_def)

lemma writeReg_spec:
  assumes i: "inv s"
  shows "\<exists>w. enc28j60_writeReg r v s =
      Some (s\<lparr>hw := w, dev := (dev s)\<lparr>bnBank := next_bank r (bnBank (dev s))\<rparr>\<rparr>)
    \<and> chipw w = reg_write (acc_key r s) v (acc_chip r s)"
proof -
  obtain w where "select_bank r s =
      Some (s\<lparr>hw := w, dev := (dev s)\<lparr>bnBank := next_bank r (bnBank (dev s))\<rparr>\<rparr>)"
    and "chipw w = acc_chip r s"
    using i by (rule select_bank_acc)
  with txn_write [OF acc_chip_idle [OF i, of r], of v r] invD [OF i] show ?thesis
    by (intro exI [of _ "ds (wr [v] (wr [0x40 OR (0x1F AND r)] (cs w)))"])
      (simp add: enc28j60_writeReg_def calls reg_addrs acc_key_def chipw_txn cmd_op)
qed

lemma BitFieldSet_spec:
  assumes i: "inv s"
  shows "\<exists>w. enc28j60_BitFieldSet r v s =
      Some (s\<lparr>hw := w, dev := (dev s)\<lparr>bnBank := next_bank r (bnBank (dev s))\<rparr>\<rparr>)
    \<and> chipw w = reg_set (acc_key r s) v (acc_chip r s)"
proof -
  obtain w where "select_bank r s =
      Some (s\<lparr>hw := w, dev := (dev s)\<lparr>bnBank := next_bank r (bnBank (dev s))\<rparr>\<rparr>)"
    and "chipw w = acc_chip r s"
    using i by (rule select_bank_acc)
  with txn_set [OF acc_chip_idle [OF i, of r], of v r] invD [OF i] show ?thesis
    by (intro exI [of _ "ds (wr [v] (wr [0x80 OR (0x1F AND r)] (cs w)))"])
      (simp add: enc28j60_BitFieldSet_def calls reg_addrs acc_key_def chipw_txn cmd_op)
qed

lemma BitFieldClear_spec:
  assumes i: "inv s"
  shows "\<exists>w. enc28j60_BitFieldClear r v s =
      Some (s\<lparr>hw := w, dev := (dev s)\<lparr>bnBank := next_bank r (bnBank (dev s))\<rparr>\<rparr>)
    \<and> chipw w = reg_clear (acc_key r s) v (acc_chip r s)"
proof -
  obtain w where "select_bank r s =
      Some (s\<lparr>hw := w, dev := (dev s)\<lparr>bnBank := next_bank r (bnBank (dev s))\<rparr>\<rparr>)"
    and "chipw w = acc_chip r s"
    using i by (rule select_bank_acc)
  with txn_clear [OF acc_chip_idle [OF i, of r], of v r] invD [OF i] show ?thesis
    by (intro exI [of _ "ds (wr [v] (wr [0xA0 OR (0x1F AND r)] (cs w)))"])
      (simp add: enc28j60_BitFieldClear_def calls reg_addrs acc_key_def chipw_txn cmd_op)
qed

lemma rd1: "fst (fst (rd 1 w)) = [hd (fst (fst (rd 1 w)))]"
  using len_rd [of 1 w] by (cases "fst (fst (rd 1 w))") simp_all

lemma rd1_map: "map2 Xfer [d] (fst (fst (rd 1 w))) = [Xfer d (hd (fst (fst (rd 1 w))))]"
  by (cases "fst (fst (rd 1 w))") (use rd1 [of w] in auto)

lemma rd1_log: "\<exists>o'. log (snd (rd 1 w)) = log w @ [Xfer o' (hd (fst (fst (rd 1 w))))]"
proof -
  obtain ds where "length ds = unat (1 :: u16)" and e: "log (snd (rd 1 w)) = log w @ map2 Xfer ds (fst (fst (rd 1 w)))"
    using log_rd by blast
  then obtain d where "ds = [d]" by (cases ds) auto
  then show ?thesis using e rd1_map [of d w] by metis
qed

lemma wr1_log: "\<exists>a. log (wr [v] w) = log w @ [Xfer v a]"
proof -
  obtain vs where "length vs = length [v]" and e: "log (wr [v] w) = log w @ map2 Xfer [v] vs"
    using log_wr [of "[v]"] by auto
  then obtain a where "vs = [a]" by (cases vs) auto
  with e show ?thesis by auto
qed

lemma readMacMIIReg_spec:
  assumes i: "inv s"
  shows "\<exists>w d v. enc28j60_readMacMIIReg r s =
      Some (v, s\<lparr>hw := w, dev := (dev s)\<lparr>bnBank := next_bank r (bnBank (dev s))\<rparr>\<rparr>)
    \<and> chipw w = (acc_chip r s)\<lparr>cread := cread (acc_chip r s) @ [d, v]\<rparr>
    \<and> (\<exists>w' es a o'. v = hd (fst (fst (rd 1 w'))) \<and> log w' = es @ [CS, Xfer (0x1F AND r) a, Xfer o' d] \<and>
        chip_run es = acc_chip r s)"
proof -
  obtain w where sel: "select_bank r s =
      Some (s\<lparr>hw := w, dev := (dev s)\<lparr>bnBank := next_bank r (bnBank (dev s))\<rparr>\<rparr>)"
    and c: "chipw w = acc_chip r s"
    using i by (rule select_bank_acc)
  define w1 where "w1 = wr [0x1F AND r] (cs w)"
  define w2 where "w2 = snd (rd 1 w1)"
  define w3 where "w3 = ds (snd (rd 1 w2))"
  note t = txn_read [OF acc_chip_idle [OF i, of r], where r = r]
  have r1: "reading (chipw w1)" using t(1) by (simp add: w1_def chipw_cmd c)
  have "enc28j60_readMacMIIReg r s = Some (hd (fst (fst (rd 1 w2))),
      s\<lparr>hw := w3, dev := (dev s)\<lparr>bnBank := next_bank r (bnBank (dev s))\<rparr>\<rparr>)"
    using invD [OF i] by (simp add: enc28j60_readMacMIIReg_def sel calls reg_addrs w1_def w2_def w3_def)
  moreover have "chipw w3 = (acc_chip r s)\<lparr>cread := cread (acc_chip r s) @
      [hd (fst (fst (rd 1 w1))), hd (fst (fst (rd 1 w2)))]\<rparr>"
    using chipw_rd [OF chipw_rd(2) [OF r1, of 1], of 1] chipw_rd(1) [OF r1, of 1] rd1 [of w1] rd1 [of w2] t
    by (simp add: w3_def flip: w2_def) (simp add: w1_def chipw_cmd c)
  moreover obtain a o' where "log w2 = log w @ [CS, Xfer (0x1F AND r) a, Xfer o' (hd (fst (fst (rd 1 w1))))]"
    using rd1_log [of w1] wr1_log [of "0x1F AND r" "cs w"] by (auto simp: w2_def w1_def log_cs)
  moreover have "chip_run (log w) = acc_chip r s" using c by (simp add: chipw_def)
  ultimately show ?thesis by blast
qed

lemma readEtherReg_spec:
  assumes i: "inv s"
  shows "\<exists>w v. enc28j60_readEtherReg r s =
      Some (v, s\<lparr>hw := w, dev := (dev s)\<lparr>bnBank := next_bank r (bnBank (dev s))\<rparr>\<rparr>)
    \<and> chipw w = (acc_chip r s)\<lparr>cread := cread (acc_chip r s) @ [v]\<rparr>
    \<and> (\<exists>w' es a. v = hd (fst (fst (rd 1 w'))) \<and> log w' = es @ [CS, Xfer (0x1F AND r) a])"
proof -
  obtain w where sel: "select_bank r s =
      Some (s\<lparr>hw := w, dev := (dev s)\<lparr>bnBank := next_bank r (bnBank (dev s))\<rparr>\<rparr>)"
    and c: "chipw w = acc_chip r s"
    using i by (rule select_bank_acc)
  define w1 where "w1 = wr [0x1F AND r] (cs w)"
  define w2 where "w2 = ds (snd (rd 1 w1))"
  note t = txn_read [OF acc_chip_idle [OF i, of r], where r = r]
  have r1: "reading (chipw w1)" using t(1) by (simp add: w1_def chipw_cmd c)
  have "enc28j60_readEtherReg r s = Some (hd (fst (fst (rd 1 w1))),
      s\<lparr>hw := w2, dev := (dev s)\<lparr>bnBank := next_bank r (bnBank (dev s))\<rparr>\<rparr>)"
    using invD [OF i] by (simp add: enc28j60_readEtherReg_def sel calls reg_addrs w1_def w2_def)
  moreover have "chipw w2 = (acc_chip r s)\<lparr>cread := cread (acc_chip r s) @ [hd (fst (fst (rd 1 w1)))]\<rparr>"
    using chipw_rd(1) [OF r1, of 1] rd1 [of w1] t by (simp add: w2_def) (simp add: w1_def chipw_cmd c)
  moreover obtain a where "log w1 = log w @ [CS, Xfer (0x1F AND r) a]"
    using wr1_log [of "0x1F AND r" "cs w"] by (auto simp: w1_def log_cs)
  ultimately show ?thesis by blast
qed

subsection \<open>The state after an access\<close>

text \<open>
  Under the invariant every access returns; naming the state it returns turns a sequence of
  accesses into a term the simplifier evaluates from the left.
\<close>

definition wr_st :: "u8 \<Rightarrow> u8 \<Rightarrow> 'w sys \<Rightarrow> 'w sys" where
  "wr_st r v s = the (enc28j60_writeReg r v s)"

lemma wr_st_eqs:
  assumes "inv s"
  shows "enc28j60_writeReg r v s = Some (wr_st r v s)"
    and "dev (wr_st r v s) = (dev s)\<lparr>bnBank := next_bank r (bnBank (dev s))\<rparr>"
    and "uart (wr_st r v s) = uart s"
    and "chips (wr_st r v s) = reg_write (acc_key r s) v (acc_chip r s)"
  using writeReg_spec [OF assms, of r v] by (auto simp: wr_st_def)

lemma inv_wr_st:
  assumes i: "inv s" and e: "r AND 0x1F \<noteq> 0x1F"
  shows "inv (wr_st r v s)"
proof -
  have "bank_inv (reg_write (acc_key r s) v (acc_chip r s)) (next_bank r (bnBank (dev s)))"
    using acc_bank_inv [OF i, of r] e
    by (simp add: bank_inv_def acc_key_def bsel_reg_write reg_key_ECON1)
  with invD [OF i] acc_chip_idle [OF i] show ?thesis
    by (simp add: drv_inv_def wr_st_eqs [OF i])
qed

definition set_st :: "u8 \<Rightarrow> u8 \<Rightarrow> 'w sys \<Rightarrow> 'w sys" where
  "set_st r v s = the (enc28j60_BitFieldSet r v s)"

lemma set_st_eqs:
  assumes "inv s"
  shows "enc28j60_BitFieldSet r v s = Some (set_st r v s)"
    and "dev (set_st r v s) = (dev s)\<lparr>bnBank := next_bank r (bnBank (dev s))\<rparr>"
    and "uart (set_st r v s) = uart s"
    and "chips (set_st r v s) = reg_set (acc_key r s) v (acc_chip r s)"
  using BitFieldSet_spec [OF assms, of r v] by (auto simp: set_st_def)

lemma inv_set_st:
  assumes i: "inv s" and e: "r AND 0x1F = 0x1F \<longrightarrow> v AND 3 = 0"
  shows "inv (set_st r v s)"
proof -
  have "bank_inv (reg_set (acc_key r s) v (acc_chip r s)) (next_bank r (bnBank (dev s)))"
    using acc_bank_inv [OF i, of r] e
    by (simp add: bank_inv_def acc_key_def bsel_reg_set reg_key_ECON1)
  with invD [OF i] acc_chip_idle [OF i] show ?thesis
    by (simp add: drv_inv_def set_st_eqs [OF i])
qed

definition clr_st :: "u8 \<Rightarrow> u8 \<Rightarrow> 'w sys \<Rightarrow> 'w sys" where
  "clr_st r v s = the (enc28j60_BitFieldClear r v s)"

lemma clr_st_eqs:
  assumes "inv s"
  shows "enc28j60_BitFieldClear r v s = Some (clr_st r v s)"
    and "dev (clr_st r v s) = (dev s)\<lparr>bnBank := next_bank r (bnBank (dev s))\<rparr>"
    and "uart (clr_st r v s) = uart s"
    and "chips (clr_st r v s) = reg_clear (acc_key r s) v (acc_chip r s)"
  using BitFieldClear_spec [OF assms, of r v] by (auto simp: clr_st_def)

lemma inv_clr_st:
  assumes i: "inv s" and e: "r AND 0x1F = 0x1F \<longrightarrow> v AND 3 = 0"
  shows "inv (clr_st r v s)"
proof -
  have "bank_inv (reg_clear (acc_key r s) v (acc_chip r s)) (next_bank r (bnBank (dev s)))"
    using acc_bank_inv [OF i, of r] e
    by (simp add: bank_inv_def acc_key_def bsel_reg_clear reg_key_ECON1)
  with invD [OF i] acc_chip_idle [OF i] show ?thesis
    by (simp add: drv_inv_def clr_st_eqs [OF i])
qed

definition rdm_st :: "u8 \<Rightarrow> 'w sys \<Rightarrow> 'w sys" where
  "rdm_st r s = snd (the (enc28j60_readMacMIIReg r s))"

definition rdm_val :: "u8 \<Rightarrow> 'w sys \<Rightarrow> u8" where
  "rdm_val r s = fst (the (enc28j60_readMacMIIReg r s))"

definition rdm_dummy :: "u8 \<Rightarrow> 'w sys \<Rightarrow> u8" where
  "rdm_dummy r s = (let rs = cread (chips (rdm_st r s)) in rs ! (length rs - 2))"

lemma rdm_st_eqs:
  assumes "inv s"
  shows "enc28j60_readMacMIIReg r s = Some (rdm_val r s, rdm_st r s)"
    and "dev (rdm_st r s) = (dev s)\<lparr>bnBank := next_bank r (bnBank (dev s))\<rparr>"
    and "uart (rdm_st r s) = uart s"
    and "chips (rdm_st r s) =
      (acc_chip r s)\<lparr>cread := cread (acc_chip r s) @ [rdm_dummy r s, rdm_val r s]\<rparr>"
proof -
  obtain w d v where r: "enc28j60_readMacMIIReg r s =
      Some (v, s\<lparr>hw := w, dev := (dev s)\<lparr>bnBank := next_bank r (bnBank (dev s))\<rparr>\<rparr>)"
    and c: "chipw w = (acc_chip r s)\<lparr>cread := cread (acc_chip r s) @ [d, v]\<rparr>"
    using readMacMIIReg_spec [OF assms, of r] by blast
  have st: "chips (rdm_st r s) = chipw w" by (simp add: rdm_st_def r)
  have "rdm_dummy r s = d" by (simp add: rdm_dummy_def st c nth_append)
  with r c st show "enc28j60_readMacMIIReg r s = Some (rdm_val r s, rdm_st r s)"
    and "dev (rdm_st r s) = (dev s)\<lparr>bnBank := next_bank r (bnBank (dev s))\<rparr>"
    and "uart (rdm_st r s) = uart s"
    and "chips (rdm_st r s) =
      (acc_chip r s)\<lparr>cread := cread (acc_chip r s) @ [rdm_dummy r s, rdm_val r s]\<rparr>"
    by (simp_all add: rdm_st_def rdm_val_def)
qed

lemma bank_inv_cread [simp]: "bank_inv (c\<lparr>cread := x\<rparr>) b = bank_inv c b"
  by (simp add: bank_inv_def)

lemma inv_rdm_st: "inv s \<Longrightarrow> inv (rdm_st r s)"
  using acc_bank_inv [of s r] acc_chip_idle [of s r] invD [of s]
  by (simp add: drv_inv_def [where s = "rdm_st r s"] rdm_st_eqs)

definition rde_st :: "u8 \<Rightarrow> 'w sys \<Rightarrow> 'w sys" where
  "rde_st r s = snd (the (enc28j60_readEtherReg r s))"

definition rde_val :: "u8 \<Rightarrow> 'w sys \<Rightarrow> u8" where
  "rde_val r s = fst (the (enc28j60_readEtherReg r s))"

lemma rde_st_eqs:
  assumes "inv s"
  shows "enc28j60_readEtherReg r s = Some (rde_val r s, rde_st r s)"
    and "dev (rde_st r s) = (dev s)\<lparr>bnBank := next_bank r (bnBank (dev s))\<rparr>"
    and "uart (rde_st r s) = uart s"
    and "chips (rde_st r s) = (acc_chip r s)\<lparr>cread := cread (acc_chip r s) @ [rde_val r s]\<rparr>"
  using readEtherReg_spec [OF assms, of r] by (auto simp: rde_st_def rde_val_def)

lemma inv_rde_st: "inv s \<Longrightarrow> inv (rde_st r s)"
  using acc_bank_inv [of s r] acc_chip_idle [of s r] invD [of s]
  by (simp add: drv_inv_def [where s = "rde_st r s"] rde_st_eqs)

end

text \<open>On a ready device the two polled bits have the value the loops wait for.\<close>

context ready_bus
begin

lemma mistat_ready:
  assumes i: "inv s" and r: "routed log 0xCA s"
  shows "rdm_val 0xCA s AND 1 = 0"
proof -
  obtain w es a o' d where v: "rdm_val 0xCA s = hd (fst (fst (rd 1 w)))"
    and l: "log w = es @ [CS, Xfer 0x0A a, Xfer o' d]" and c: "chip_run es = acc_chip 0xCA s"
    using readMacMIIReg_spec [OF i, of "0xCA"] by (auto simp: rdm_val_def)
  have "bsel (chip_run es) = 3"
    using acc_routed(1) [OF r] by (simp add: c rbits_def bsel_c_sel)
  from mistat_idle [OF l this] v show ?thesis by simp
qed

lemma clkrdy_ready: "inv s \<Longrightarrow> rde_val 0x1D s AND 1 \<noteq> 0"
  using readEtherReg_spec [of s "0x1D"] estat_ready by (fastforce simp: rde_val_def)

end

end
