(* ===== verification/Enc_Transfer.thy ===== *)
theory Enc_Transfer
  imports Enc_Bank
begin

text \<open>
  Frame transmission and reception.  Both work in bank 0 only, where every access is routed,
  so they are correct whatever bank the cache remembers.  \<open>etherTransmit\<close> is proved to leave
  the frame, its control byte and the pointers where the transmit engine takes them;
  \<open>etherReceive\<close> to deliver what the device sends and to program ERXRDPT as the errata demand,
  for frames that fit the buffer, and what happens to the driver's own state for those that do not.
\<close>

section \<open>Writing the buffer memory\<close>

lemma next_wrpt_unat:
  assumes "unat p < 8191"
  shows "unat (next_wrpt p) = Suc (unat p)"
proof -
  have "(0x1FFF :: u16) = mask 13" by (simp add: mask_eq_exp_minus_1)
  then have "next_wrpt p = take_bit 13 (p + 1)"
    by (simp add: next_wrpt_def take_bit_eq_mask)
  then have "unat (next_wrpt p) = take_bit 13 (unat (p + 1))"
    by (simp only: unsigned_take_bit_eq)
  then have "unat (next_wrpt p) = unat (p + 1) mod 8192"
    by (simp add: take_bit_eq_mod)
  moreover have "unat (p + 1) = Suc (unat p)"
    using assms by (simp add: unat_word_ariths)
  ultimately show ?thesis using assms by simp
qed

lemma unat_eq_iff16: "(a :: u16) = b \<longleftrightarrow> unat a = unat b"
  by (simp add: word_eq_iff_unsigned [where 'a = nat])

definition chip_logs :: "chip \<Rightarrow> (u8 \<times> u16) list \<times> u8 list \<times> u8 list" where
  "chip_logs c = (phyw c, phyr c, cread c)"

lemma mem_write_eqs:
  assumes "autoinc c"
  shows "cmem (mem_write v c) = (cmem c)(ewrpt c := v)"
    and "ewrpt (mem_write v c) = next_wrpt (ewrpt c)"
    and "k \<noteq> 2 \<Longrightarrow> k \<noteq> 3 \<Longrightarrow> creg (mem_write v c) k = creg c k"
    and "csel (mem_write v c) = csel c" and "ccmd (mem_write v c) = ccmd c"
    and "chip_logs (mem_write v c) = chip_logs c"
  using assms by (simp_all add: mem_write_def Let_def ewrpt_def chip_logs_def)

lemma autoinc_mem_write: "autoinc c \<Longrightarrow> autoinc (mem_write v c)"
  by (simp add: autoinc_def mem_write_def Let_def)

definition wbm_mode :: "chip \<Rightarrow> bool" where
  "wbm_mode c \<longleftrightarrow> csel c \<and> ccmd c = Some 0x7A \<and> autoinc c"

lemma chip_byte_wbm: "wbm_mode c \<Longrightarrow> chip_byte v c = mem_write v c"
  by (simp add: chip_byte_def wbm_mode_def Let_def)

lemma wbm_mode_mem_write: "wbm_mode c \<Longrightarrow> wbm_mode (mem_write v c)"
  by (simp add: wbm_mode_def mem_write_eqs autoinc_mem_write)

text \<open>
  A burst written with WBM: the bytes land at consecutive addresses, nothing else in the buffer
  changes, and no register but EWRPT does.
\<close>

lemma wbm_burst:
  assumes "wbm_mode c" and "unat (ewrpt c) + length bs \<le> 8192"
  shows "cmem (fold chip_byte bs c) a =
      (if unat (ewrpt c) \<le> unat a \<and> unat a < unat (ewrpt c) + length bs
       then bs ! (unat a - unat (ewrpt c)) else cmem c a)
    \<and> (k \<noteq> 2 \<longrightarrow> k \<noteq> 3 \<longrightarrow> creg (fold chip_byte bs c) k = creg c k)
    \<and> chip_logs (fold chip_byte bs c) = chip_logs c"
  using assms
proof (induction bs arbitrary: c)
  case Nil
  then show ?case by auto
next
  case (Cons b bs)
  let ?c = "mem_write b c"
  have ai: "autoinc c" using Cons.prems(1) by (simp add: wbm_mode_def)
  show ?case
  proof (cases bs)
    case Nil
    with ai show ?thesis
      by (auto simp: chip_byte_wbm [OF Cons.prems(1)] mem_write_eqs unat_eq_iff16)
  next
    case (Cons b' bs')
    then have "unat (ewrpt c) < 8191" using Cons.prems(2) by simp
    then have p: "unat (ewrpt ?c) = Suc (unat (ewrpt c))"
      by (simp add: mem_write_eqs(2) [OF ai] next_wrpt_unat)
    note IH = Cons.IH [OF wbm_mode_mem_write [OF Cons.prems(1)], of b]
    have "unat (ewrpt ?c) + length bs \<le> 8192" using Cons.prems(2) p by simp
    from IH [OF this] p ai show ?thesis
      by (auto simp: chip_byte_wbm [OF Cons.prems(1)] mem_write_eqs nth_Cons' unat_eq_iff16
          Suc_diff_le)
  qed
qed

section \<open>Sequences of accesses to bank 0\<close>

context spi_bus
begin

lemma next_bank_bank0: "rbits r = 0 \<Longrightarrow> next_bank r b = b"
  by (simp add: next_bank_def rbits_bank_0)

text \<open>An access to bank 0 returns, keeps the device structure and the messages, and is routed.\<close>

lemma bank0_write:
  assumes "inv s" and "rbits r = 0"
  shows "enc28j60_writeReg r v s = Some (wr_st r v s)"
    and "dev (wr_st r v s) = dev s" and "uart (wr_st r v s) = uart s"
    and "chips (wr_st r v s) = reg_write (rkey r) v (c_sel 0 (chips s))"
    and "r AND 0x1F \<noteq> 0x1F \<Longrightarrow> inv (wr_st r v s)"
  using assms bank0_routed [OF assms] inv_wr_st [OF assms(1), of r v]
  by (simp_all add: wr_st_eqs next_bank_bank0 acc_routed)

lemma bank0_set:
  assumes "inv s" and "rbits r = 0"
  shows "enc28j60_BitFieldSet r v s = Some (set_st r v s)"
    and "dev (set_st r v s) = dev s" and "uart (set_st r v s) = uart s"
    and "chips (set_st r v s) = reg_set (rkey r) v (c_sel 0 (chips s))"
    and "r AND 0x1F = 0x1F \<longrightarrow> v AND 3 = 0 \<Longrightarrow> inv (set_st r v s)"
  using assms bank0_routed [OF assms] inv_set_st [OF assms(1), of r v]
  by (simp_all add: set_st_eqs next_bank_bank0 acc_routed)

lemma bank0_clear:
  assumes "inv s" and "rbits r = 0"
  shows "enc28j60_BitFieldClear r v s = Some (clr_st r v s)"
    and "dev (clr_st r v s) = dev s" and "uart (clr_st r v s) = uart s"
    and "chips (clr_st r v s) = reg_clear (rkey r) v (c_sel 0 (chips s))"
    and "r AND 0x1F = 0x1F \<longrightarrow> v AND 3 = 0 \<Longrightarrow> inv (clr_st r v s)"
  using assms bank0_routed [OF assms] inv_clr_st [OF assms(1), of r v]
  by (simp_all add: clr_st_eqs next_bank_bank0 acc_routed)

lemmas bank0 = bank0_write bank0_set bank0_clear

lemma bsel_c_sel0: "bsel (c_sel 0 c) = 0"
  by (rule bsel_c_sel) simp

text \<open>Once in bank 0, further selections of it change nothing.\<close>

lemmas stay_bank0 = c_sel_same [where b = 0] bsel_reg_write bsel_reg_set bsel_reg_clear bsel_c_sel0

text \<open>A register read back from the programmed chip.\<close>

lemmas creg_eval = reg_write_def reg_set_def reg_clear_def c_sel_def mac_mii_key_def
  rkey_def rbits_def reg_key_def

section \<open>Transmission\<close>

text \<open>The WBM transaction of \<open>etherTransmit\<close>: a control byte and the frame.\<close>

abbreviation wbm_hw :: "u8 list \<Rightarrow> 'w \<Rightarrow> 'w" where
  "wbm_hw bs w \<equiv> ds (wr bs (wr [0x00] (wr [0x7A] (cs w))))"

lemma wbm_txn:
  assumes "autoinc (chipw w)" and "unat (ewrpt (chipw w)) + Suc (length bs) \<le> 8192"
  shows "chip_idle (chipw (wbm_hw bs w))"
    and "cmem (chipw (wbm_hw bs w)) a =
      (if unat (ewrpt (chipw w)) \<le> unat a \<and> unat a \<le> unat (ewrpt (chipw w)) + length bs
       then (0x00 # bs) ! (unat a - unat (ewrpt (chipw w))) else cmem (chipw w) a)"
    and "k \<noteq> 2 \<Longrightarrow> k \<noteq> 3 \<Longrightarrow> creg (chipw (wbm_hw bs w)) k = creg (chipw w) k"
    and "chip_logs (chipw (wbm_hw bs w)) = chip_logs (chipw w)"
proof -
  let ?c = "(chipw w)\<lparr>csel := True, ccmd := Some 0x7A\<rparr>"
  have len: "length bs < 65536" using assms(2) by simp
  have eq: "chipw (wbm_hw bs w) = chip_event DS (fold chip_byte (0x00 # bs) ?c)"
    by (simp add: chipw_data chip_byte_writing chipw_txn tx_bytes_def len)
      (simp add: chipw_cmd chip_event.simps chip_byte_def tx_bytes_def)
  have m: "wbm_mode ?c" and e: "ewrpt ?c = ewrpt (chipw w)"
    using assms(1) by (simp_all add: wbm_mode_def autoinc_def ewrpt_def)
  note burst = wbm_burst [OF m, where bs = "0x00 # bs", unfolded e]
  show "chip_idle (chipw (wbm_hw bs w))" by (simp add: eq)
  show "cmem (chipw (wbm_hw bs w)) a =
      (if unat (ewrpt (chipw w)) \<le> unat a \<and> unat a \<le> unat (ewrpt (chipw w)) + length bs
       then (0x00 # bs) ! (unat a - unat (ewrpt (chipw w))) else cmem (chipw w) a)"
    using burst [of a] assms(2) unfolding eq by (auto simp: chip_event.simps simp del: fold.simps)
  show "creg (chipw (wbm_hw bs w)) k = creg (chipw w) k" if "k \<noteq> 2" "k \<noteq> 3"
    using burst [of _ k] assms(2) that unfolding eq
    by (auto simp: chip_event.simps simp del: fold.simps)
  show "chip_logs (chipw (wbm_hw bs w)) = chip_logs (chipw w)"
    using burst assms(2) unfolding eq by (auto simp: chip_event.simps chip_logs_def simp del: fold.simps)
qed

text \<open>Whatever AUTOINC and the length are, the transaction changes no register but EWRPT and leaves the chip idle.\<close>

lemma wbm_regs:
  "csel c \<Longrightarrow> ccmd c = Some 0x7A \<Longrightarrow> k \<noteq> 2 \<Longrightarrow> k \<noteq> 3 \<Longrightarrow> creg (fold chip_byte bs c) k = creg c k"
proof (induction bs arbitrary: c)
  case (Cons b bs)
  have "chip_byte b c = mem_write b c" using Cons.prems by (simp add: chip_byte_def Let_def)
  moreover have "csel (mem_write b c) = csel c" "ccmd (mem_write b c) = ccmd c"
    "creg (mem_write b c) k = creg c k"
    using Cons.prems by (simp_all add: mem_write_def Let_def)
  ultimately show ?case using Cons by simp
qed simp

lemma wbm_txn_frame:
  assumes "length bs < 2 ^ 16"
  shows "chip_idle (chipw (wbm_hw bs w))"
    and "k \<noteq> 2 \<Longrightarrow> k \<noteq> 3 \<Longrightarrow> creg (chipw (wbm_hw bs w)) k = creg (chipw w) k"
proof -
  let ?c = "(chipw w)\<lparr>csel := True, ccmd := Some 0x7A\<rparr>"
  have eq: "chipw (wbm_hw bs w) = chip_event DS (fold chip_byte (0x00 # bs) ?c)"
    using assms by (simp add: chipw_data chip_byte_writing chipw_txn tx_bytes_def)
      (simp add: chipw_cmd chip_event.simps chip_byte_def tx_bytes_def)
  show "chip_idle (chipw (wbm_hw bs w))" by (simp add: eq)
  show "creg (chipw (wbm_hw bs w)) k = creg (chipw w) k" if "k \<noteq> 2" "k \<noteq> 3"
    using wbm_regs [of ?c k "0x00 # bs"] that unfolding eq by (simp add: chip_event.simps del: fold.simps)
qed

text \<open>The state after the pointer writes, and after the frame has been written.\<close>

definition tx_ptr_st :: "'w sys \<Rightarrow> 'w sys" where
  "tx_ptr_st s = wr_st 5 0x18 (wr_st 4 0x00 (wr_st 3 0x18 (wr_st 2 0x00 s)))"

definition tx_mem_st :: "u8 list \<Rightarrow> u16 \<Rightarrow> 'w sys \<Rightarrow> 'w sys" where
  "tx_mem_st bs len s = (tx_ptr_st s)\<lparr>
     dev := (dev s)\<lparr>txPkt := (txPkt (dev s))\<lparr>txPktLen := 0x1800 + len\<rparr>\<rparr>,
     hw := wbm_hw bs (hw (tx_ptr_st s))\<rparr>"

lemma tx_ptr_st:
  assumes i: "inv s"
  shows "inv (tx_ptr_st s)" and "dev (tx_ptr_st s) = dev s" and "uart (tx_ptr_st s) = uart s"
    and "creg (chips (tx_ptr_st s)) = (creg (chips s))(0x1F := creg (chips s) 0x1F AND NOT 3,
      2 := 0x00, 3 := 0x18, 4 := 0x00, 5 := 0x18)"
    and "cmem (chips (tx_ptr_st s)) = cmem (chips s)"
    and "chip_logs (chips (tx_ptr_st s)) = chip_logs (chips s)"
  using i by (simp_all add: tx_ptr_st_def bank0 rbits_def) (simp_all add: creg_eval fun_eq_iff chip_logs_def)

lemma tx_mem_frame:
  assumes i: "inv s" and len: "length bs < 2 ^ 16"
  shows "inv (tx_mem_st bs len s)"
    and "dev (tx_mem_st bs len s) = (dev s)\<lparr>txPkt := (txPkt (dev s))\<lparr>txPktLen := 0x1800 + len\<rparr>\<rparr>"
    and "uart (tx_mem_st bs len s) = uart s"
    and "creg (chips (tx_mem_st bs len s)) 0x1E = creg (chips s) 0x1E"
proof -
  note p = tx_ptr_st [OF i] and x = wbm_txn_frame [OF len, where w = "hw (tx_ptr_st s)"]
  have c: "chips (tx_mem_st bs len s) = chipw (wbm_hw bs (hw (tx_ptr_st s)))"
    by (simp add: tx_mem_st_def prog_chip_def chipw_def)
  have "bsel (chipw (wbm_hw bs (hw (tx_ptr_st s)))) = 0"
    using x(2) [where k = "0x1F"] p(4) by (simp add: bsel_def chipw_hw and.assoc)
  then show "inv (tx_mem_st bs len s)"
    using x(1) invD [OF i] unfolding drv_inv_def c
    by (simp add: bank_inv_def tx_mem_st_def)
  show "dev (tx_mem_st bs len s) = (dev s)\<lparr>txPkt := (txPkt (dev s))\<lparr>txPktLen := 0x1800 + len\<rparr>\<rparr>"
    "uart (tx_mem_st bs len s) = uart s"
    by (simp_all add: tx_mem_st_def p)
  show "creg (chips (tx_mem_st bs len s)) 0x1E = creg (chips s) 0x1E"
    using x(2) [where k = "0x1E"] p(4) by (simp add: c chipw_hw)
qed

lemma tx_mem_st:
  assumes i: "inv s" and ai: "autoinc (chips s)" and len: "length bs \<le> 2047"
  shows "cmem (chips (tx_mem_st bs len s)) a =
      (if 0x1800 \<le> unat a \<and> unat a \<le> 0x1800 + length bs then (0x00 # bs) ! (unat a - 0x1800)
       else cmem (chips s) a)"
    and "k \<noteq> 2 \<Longrightarrow> k \<noteq> 3 \<Longrightarrow> creg (chips (tx_mem_st bs len s)) k =
      ((creg (chips s))(0x1F := creg (chips s) 0x1F AND NOT 3, 4 := 0x00, 5 := 0x18)) k"
    and "chip_logs (chips (tx_mem_st bs len s)) = chip_logs (chips s)"
proof -
  note p = tx_ptr_st [OF i]
  have a: "autoinc (chipw (hw (tx_ptr_st s)))"
    using ai by (simp add: autoinc_def chipw_hw p)
  have e: "unat (ewrpt (chipw (hw (tx_ptr_st s)))) = 0x1800"
    by (simp add: ewrpt_def chipw_hw p unat_u16_of)
  have l: "unat (ewrpt (chipw (hw (tx_ptr_st s)))) + Suc (length bs) \<le> 8192"
    using len by (simp add: e)
  note x = wbm_txn [OF a l, unfolded e]
  have c: "chips (tx_mem_st bs len s) = chipw (wbm_hw bs (hw (tx_ptr_st s)))"
    by (simp add: tx_mem_st_def prog_chip_def chipw_def)
  show "cmem (chips (tx_mem_st bs len s)) a =
      (if 0x1800 \<le> unat a \<and> unat a \<le> 0x1800 + length bs then (0x00 # bs) ! (unat a - 0x1800)
       else cmem (chips s) a)"
    unfolding c x(2) by (simp add: chipw_hw p)
  show "creg (chips (tx_mem_st bs len s)) k =
      ((creg (chips s))(0x1F := creg (chips s) 0x1F AND NOT 3, 4 := 0x00, 5 := 0x18)) k"
    if "k \<noteq> 2" "k \<noteq> 3"
    unfolding c x(3) [OF that] using that by (simp add: chipw_hw p)
  show "chip_logs (chips (tx_mem_st bs len s)) = chip_logs (chips s)"
    unfolding c x(4) by (simp add: chipw_hw p)
qed

definition tx_end_st :: "u8 list \<Rightarrow> u16 \<Rightarrow> 'w sys \<Rightarrow> 'w sys" where
  "tx_end_st bs len s = set_st 0x1F 8 (set_st 0x1B 0x80 (set_st 0x1B 8 (clr_st 0x1C 8
     (wr_st 7 (hi8 (0x1800 + len)) (wr_st 6 (lo8 (0x1800 + len)) (tx_mem_st bs len s))))))"

lemma etherTransmit_eq:
  assumes i: "inv s" and len: "length bs < 2 ^ 16"
  shows "enc28j60_etherTransmit bs len s = Some (True, tx_end_st bs len s)"
proof -
  note p = tx_ptr_st [OF i] and m = tx_mem_frame [OF i len, where len = len]
  have head: "enc28j60_writeReg 2 0x00 s = Some (wr_st 2 0x00 s)"
    "enc28j60_writeReg 3 0x18 (wr_st 2 0x00 s) = Some (wr_st 3 0x18 (wr_st 2 0x00 s))"
    "enc28j60_writeReg 4 0x00 (wr_st 3 0x18 (wr_st 2 0x00 s)) =
       Some (wr_st 4 0x00 (wr_st 3 0x18 (wr_st 2 0x00 s)))"
    "enc28j60_writeReg 5 0x18 (wr_st 4 0x00 (wr_st 3 0x18 (wr_st 2 0x00 s))) = Some (tx_ptr_st s)"
    using i by (simp_all add: bank0 rbits_def tx_ptr_st_def)
  have w: "wired cs ds rd wr dly (dev s)" and c: "const_dev (dev s)"
    using invD [OF i] by simp_all
  have halves: "lo8 0x1800 = 0x00" "hi8 0x1800 = 0x18"
    by (simp_all add: lo8_def hi8_def)
  show ?thesis
    unfolding enc28j60_etherTransmit_def tx_end_st_def
    using i w c m(1)
    by (simp add: calls reg_addrs bank0 rbits_def p head m(2) mask255_lo8 shift8_hi8 halves
        tx_mem_st_def [symmetric])
qed

text \<open>
  What the transmit engine finds: the start and end pointers, the control byte and the frame
  between them, the request bit and the interrupt enables.
\<close>

lemma tx_end_frame:
  assumes i: "inv s" and len: "length bs < 2 ^ 16"
  shows "inv (tx_end_st bs len s)"
    and "dev (tx_end_st bs len s) = (dev s)\<lparr>txPkt := (txPkt (dev s))\<lparr>txPktLen := 0x1800 + len\<rparr>\<rparr>"
    and "uart (tx_end_st bs len s) = uart s"
    and "creg (chips (tx_end_st bs len s)) 0x1E = creg (chips s) 0x1E"
  using tx_mem_frame [OF i len, where len = len]
  by (simp_all add: tx_end_st_def bank0 rbits_def) (simp_all add: creg_eval)

lemma tx_end_st:
  assumes i: "inv s" and ai: "autoinc (chips s)" and len: "length bs \<le> 2047"
  shows "cmem (chips (tx_end_st bs len s)) = cmem (chips (tx_mem_st bs len s))"
    and "k \<noteq> 2 \<Longrightarrow> k \<noteq> 3 \<Longrightarrow> creg (chips (tx_end_st bs len s)) k =
      ((creg (chips s))(4 := 0x00, 5 := 0x18, 6 := lo8 (0x1800 + len), 7 := hi8 (0x1800 + len),
        0x1C := creg (chips s) 0x1C AND NOT 8, 0x1B := (creg (chips s) 0x1B OR 8) OR 0x80,
        0x1F := (creg (chips s) 0x1F AND NOT 3) OR 8)) k"
    and "chip_logs (chips (tx_end_st bs len s)) = chip_logs (chips s)"
proof -
  have len': "length bs < 2 ^ 16" using len by simp
  note m = tx_mem_st [OF i ai len, where len = len]
  note mi = tx_mem_frame(1) [OF i len', where len = len]
  have c: "chips (tx_end_st bs len s) = reg_set 0x1F 8 (reg_set 0x1B 0x80 (reg_set 0x1B 8
     (reg_clear 0x1C 8 (reg_write 7 (hi8 (0x1800 + len)) (reg_write 6 (lo8 (0x1800 + len))
       (c_sel 0 (chips (tx_mem_st bs len s))))))))"
    using mi by (simp add: tx_end_st_def bank0 rbits_def) (simp add: creg_eval)
  show "cmem (chips (tx_end_st bs len s)) = cmem (chips (tx_mem_st bs len s))"
    unfolding c by (simp add: creg_eval)
  show "chip_logs (chips (tx_end_st bs len s)) = chip_logs (chips s)"
    using m(3) unfolding c by (simp add: creg_eval chip_logs_def)
  show "creg (chips (tx_end_st bs len s)) k =
      ((creg (chips s))(4 := 0x00, 5 := 0x18, 6 := lo8 (0x1800 + len), 7 := hi8 (0x1800 + len),
        0x1C := creg (chips s) 0x1C AND NOT 8, 0x1B := (creg (chips s) 0x1B OR 8) OR 0x80,
        0x1F := (creg (chips s) 0x1F AND NOT 3) OR 8)) k" if "k \<noteq> 2" "k \<noteq> 3"
    using that unfolding c by (simp add: creg_eval m(2) and.assoc)
qed

end

section \<open>Reception\<close>

subsection \<open>The messages, and the store into the packet buffer\<close>

lemma dMesgPrint_frame [simp]:
  "dev (dMesgPrint l f a s) = dev s" "hw (dMesgPrint l f a s) = hw s"
  by (simp_all add: dMesgPrint_def)

lemma if_fieldI: "f x = d \<Longrightarrow> f y = d \<Longrightarrow> f (if b then x else y) = d"
  by simp

lemma rx_flag_print_frame [simp]:
  "dev (rx_flag_print i s) = dev s" "hw (rx_flag_print i s) = hw s"
  unfolding rx_flag_print_def
  by (intro if_fieldI [where f = dev] if_fieldI [where f = hw], simp_all only: dMesgPrint_frame)+

lemma rx_flags_loop_frame [simp]:
  "dev (rx_flags_loop is f s) = dev s" "hw (rx_flags_loop is f s) = hw s"
  by (induction "is" f s rule: rx_flags_loop.induct) simp_all

lemma rx_stat_print_frame [simp]:
  "dev (rx_stat_print is s) = dev s" "hw (rx_stat_print is s) = hw s"
  by (induction "is" s rule: rx_stat_print.induct) simp_all

lemma sys_eq_uart: "dev t = dev s \<Longrightarrow> hw t = hw s \<Longrightarrow> t = s\<lparr>uart := uart t\<rparr>" for s t :: "'w sys"
  by simp

lemma sys_eqI: "dev t = d \<Longrightarrow> hw t = w \<Longrightarrow> t = s\<lparr>dev := d, hw := w, uart := uart t\<rparr>" for s t :: "'w sys"
  by simp

lemma prog_chip_cong: "hw t = hw s \<Longrightarrow> prog_chip log t = prog_chip log s"
  by (simp add: prog_chip_def)

lemma drv_inv_cong:
  "dev t = dev s \<Longrightarrow> hw t = hw s \<Longrightarrow> drv_inv cs ds rd wr dly log t = drv_inv cs ds rd wr dly log s"
  by (simp add: drv_inv_def prog_chip_def)

lemma store_rx_data_frame [simp]:
  "const_dev (store_rx_data bs d) = const_dev d"
  "wired cs ds rd wr dly (store_rx_data bs d) = wired cs ds rd wr dly d"
  "bnBank (store_rx_data bs d) = bnBank d"
  "rxPktLen (rxPkt (store_rx_data bs d)) = rxPktLen (rxPkt d)"
  "nxtPktAddr (rxPkt (store_rx_data bs d)) = nxtPktAddr (rxPkt d)"
  "rxStatVect (rxPkt (store_rx_data bs d)) = rxStatVect (rxPkt d)"
  by (simp_all add: store_rx_data_def Let_def wired_def const_dev_def dev_consts_def)

text \<open>A frame that fits is stored in \<open>data\<close> and nowhere else.\<close>

lemma store_rx_data_fits:
  assumes "length bs \<le> 1500" and "length (rx_data (rxPkt d)) = 1500"
  shows "store_rx_data bs d =
    d\<lparr>rxPkt := (rxPkt d)\<lparr>rx_data := bs @ drop (length bs) (rx_data (rxPkt d))\<rparr>\<rparr>"
proof -
  have "drop (length bs) (rx_data (rxPkt d) @ rx_tail d) =
      drop (length bs) (rx_data (rxPkt d)) @ rx_tail d"
    using assms by simp
  moreover have "length (bs @ drop (length bs) (rx_data (rxPkt d))) = 1500"
    using assms by simp
  ultimately show ?thesis
    by (simp add: store_rx_data_def Let_def nth_append rx_tail_def flip: append_assoc)
qed

text \<open>A longer one overwrites the saved next-packet pointer with bytes 1500 and 1501 of the frame.\<close>

lemma store_rx_data_overrun:
  assumes "1502 \<le> length bs"
  shows "ptrAddr (rxPkt (store_rx_data bs d)) = u16_of (bs ! 1500) (bs ! 1501)"
    and "1502 < length bs \<Longrightarrow> lo8 (txPktLen (txPkt (store_rx_data bs d))) = bs ! 1502"
  using assms by (simp_all add: store_rx_data_def Let_def nth_append)

lemma store_rx_data_lens:
  assumes "length (rx_data (rxPkt d)) = 1500" and "length (tx_data (txPkt d)) = 1500"
    and "length bs \<le> 3004"
  shows "length (rx_data (rxPkt (store_rx_data bs d))) = 1500"
    and "length (tx_data (txPkt (store_rx_data bs d))) = 1500"
  using assms by (simp_all add: store_rx_data_def Let_def rx_tail_def)

subsection \<open>The receive sequence\<close>

text \<open>The value for ERXRDPT: one before the next packet, wrapping inside the receive buffer.\<close>

definition erxrdpt_for :: "u16 \<Rightarrow> u16" where
  "erxrdpt_for p = (if p = 0x0000 then 0x17FF else p - 1)"

lemma txn_rbm:
  assumes "chip_idle c"
  shows "reading (tx_bytes [0x3A] (chip_event CS c))"
    and "cread (tx_bytes [0x3A] (chip_event CS c)) = cread c"
    and "chip_event DS ((tx_bytes [0x3A] (chip_event CS c))\<lparr>cread := x\<rparr>) = c\<lparr>cread := x\<rparr>"
  using chip_idle_upd [OF assms]
  by (cases c, simp add: tx_bytes_def chip_byte_def chip_event.simps reading_def)+

context spi_bus
begin

definition rx_ptr_st :: "'w sys \<Rightarrow> 'w sys" where
  "rx_ptr_st s = wr_st 1 (hi8 (ptrAddr (rxPkt (dev s)))) (wr_st 0 (lo8 (ptrAddr (rxPkt (dev s)))) s)"

definition rx_w0 :: "'w sys \<Rightarrow> 'w" where
  "rx_w0 s = wr [0x3A] (cs (hw (rx_ptr_st s)))"

definition rx_nxt :: "'w sys \<Rightarrow> u8 list" where
  "rx_nxt s = fst (fst (rd 2 (rx_w0 s)))"

definition rx_w1 :: "'w sys \<Rightarrow> 'w" where
  "rx_w1 s = snd (rd 2 (rx_w0 s))"

definition rx_sv :: "'w sys \<Rightarrow> u8 list" where
  "rx_sv s = fst (fst (rd 4 (rx_w1 s)))"

definition rx_w2 :: "'w sys \<Rightarrow> 'w" where
  "rx_w2 s = snd (rd 4 (rx_w1 s))"

definition rx_len :: "'w sys \<Rightarrow> u16" where
  "rx_len s = u16_of (rx_sv s ! 0) (rx_sv s ! 1)"

definition rx_ok :: "'w sys \<Rightarrow> bool" where
  "rx_ok s \<longleftrightarrow> rx_len s < 1518"

definition rx_n :: "'w sys \<Rightarrow> u16" where
  "rx_n s = (if rx_ok s then rx_len s else 0)"

definition rx_dat :: "'w sys \<Rightarrow> u8 list" where
  "rx_dat s = fst (fst (rd (rx_n s) (rx_w2 s)))"

definition rx_w3 :: "'w sys \<Rightarrow> 'w" where
  "rx_w3 s = ds (snd (rd (rx_n s) (rx_w2 s)))"

definition rx_dev :: "'w sys \<Rightarrow> 'w enc28j60Drv" where
  "rx_dev s = store_rx_data (rx_dat s) ((dev s)\<lparr>rxPkt := (rxPkt (dev s))\<lparr>nxtPktAddr := rx_nxt s,
     rxStatVect := rx_sv s, rxPktLen := rx_n s, ptrAddr := u16_of (rx_nxt s ! 0) (rx_nxt s ! 1)\<rparr>\<rparr>)"

definition rx_mid :: "'w sys \<Rightarrow> dmsg list \<Rightarrow> 'w sys" where
  "rx_mid s u = s\<lparr>dev := rx_dev s, hw := rx_w3 s, uart := u\<rparr>"

definition rx_end :: "'w sys \<Rightarrow> dmsg list \<Rightarrow> 'w sys" where
  "rx_end s u = (let v = erxrdpt_for (ptrAddr (rxPkt (rx_dev s))) in
     wr_st 0x0D (hi8 v) (wr_st 0x0C (lo8 v) (rx_mid s u)))"

lemma rx_ptr_st:
  assumes i: "inv s"
  shows "inv (rx_ptr_st s)" and "dev (rx_ptr_st s) = dev s" and "uart (rx_ptr_st s) = uart s"
    and "chips (rx_ptr_st s) = reg_write 1 (hi8 (ptrAddr (rxPkt (dev s))))
      (reg_write 0 (lo8 (ptrAddr (rxPkt (dev s)))) (c_sel 0 (chips s)))"
  using i by (simp_all add: rx_ptr_st_def bank0 rbits_def rkey_def reg_key_def stay_bank0)

lemma rx_lengths: "length (rx_nxt s) = 2" "length (rx_sv s) = 4" "length (rx_dat s) = unat (rx_n s)"
  by (simp_all add: rx_nxt_def rx_sv_def rx_dat_def len_rd)

lemma rx_mid:
  assumes i: "inv s"
  shows "inv (rx_mid s u)"
    and "chips (rx_mid s u) = (chips (rx_ptr_st s))\<lparr>cread := cread (chips s) @ rx_nxt s @ rx_sv s @ rx_dat s\<rparr>"
proof -
  note p = rx_ptr_st [OF i]
  have idle: "chip_idle (chips (rx_ptr_st s))" using invD [OF p(1)] by simp
  note t = txn_rbm [OF idle]
  have c0: "chipw (rx_w0 s) = tx_bytes [0x3A] (chip_event CS (chips (rx_ptr_st s)))"
    by (simp add: rx_w0_def chipw_cmd chipw_hw)
  have r0: "reading (chipw (rx_w0 s))" using t(1) by (simp add: c0)
  have r1: "reading (chipw (rx_w1 s))" using chipw_rd(2) [OF r0] by (simp add: rx_w1_def)
  have r2: "reading (chipw (rx_w2 s))" using chipw_rd(2) [OF r1] by (simp add: rx_w2_def)
  have c1: "chipw (rx_w1 s) = (chipw (rx_w0 s))\<lparr>cread := cread (chipw (rx_w0 s)) @ rx_nxt s\<rparr>"
    by (simp add: rx_w1_def rx_nxt_def chipw_rd(1) [OF r0])
  have c2: "chipw (rx_w2 s) = (chipw (rx_w1 s))\<lparr>cread := cread (chipw (rx_w1 s)) @ rx_sv s\<rparr>"
    by (simp add: rx_w2_def rx_sv_def chipw_rd(1) [OF r1])
  have "chipw (rx_w3 s) = (chips (rx_ptr_st s))\<lparr>cread := cread (chips (rx_ptr_st s)) @
      rx_nxt s @ rx_sv s @ rx_dat s\<rparr>"
    using t(2,3) by (simp add: rx_w3_def chipw_rd(1) [OF r2] c2 c1 c0 rx_dat_def)
  then show c: "chips (rx_mid s u) = (chips (rx_ptr_st s))\<lparr>cread := cread (chips s) @ rx_nxt s @ rx_sv s @ rx_dat s\<rparr>"
    by (simp add: rx_mid_def prog_chip_def chipw_def) (simp add: p(4) flip: prog_chip_def)
  show "inv (rx_mid s u)"
    using p(1) unfolding drv_inv_def c by (simp add: rx_mid_def rx_dev_def p)
qed

lemma rx_end:
  assumes i: "inv s"
  shows "inv (rx_end s u)" and "dev (rx_end s u) = rx_dev s" and "uart (rx_end s u) = u"
    and "creg (chips (rx_end s u)) = (creg (chips s))(0x1F := creg (chips s) 0x1F AND NOT 3,
      0x00 := lo8 (ptrAddr (rxPkt (dev s))), 0x01 := hi8 (ptrAddr (rxPkt (dev s))),
      0x0C := lo8 (erxrdpt_for (ptrAddr (rxPkt (rx_dev s)))),
      0x0D := hi8 (erxrdpt_for (ptrAddr (rxPkt (rx_dev s)))))"
    and "cmem (chips (rx_end s u)) = cmem (chips s)"
    and "chip_logs (chips (rx_end s u)) =
      (phyw (chips s), phyr (chips s), cread (chips s) @ rx_nxt s @ rx_sv s @ rx_dat s)"
proof -
  note m = rx_mid [OF i, of u] and p = rx_ptr_st [OF i]
  show "inv (rx_end s u)" "dev (rx_end s u) = rx_dev s" "uart (rx_end s u) = u"
    using m(1) by (simp_all add: rx_end_def bank0 rbits_def Let_def) (simp_all add: rx_mid_def)
  have c: "chips (rx_end s u) = reg_write 0x0D (hi8 (erxrdpt_for (ptrAddr (rxPkt (rx_dev s)))))
      (reg_write 0x0C (lo8 (erxrdpt_for (ptrAddr (rxPkt (rx_dev s))))) (chips (rx_mid s u)))"
    using m(1) by (simp add: rx_end_def bank0 rbits_def rkey_def reg_key_def Let_def m(2) p(4)
        stay_bank0)
  show "creg (chips (rx_end s u)) = (creg (chips s))(0x1F := creg (chips s) 0x1F AND NOT 3,
      0x00 := lo8 (ptrAddr (rxPkt (dev s))), 0x01 := hi8 (ptrAddr (rxPkt (dev s))),
      0x0C := lo8 (erxrdpt_for (ptrAddr (rxPkt (rx_dev s)))),
      0x0D := hi8 (erxrdpt_for (ptrAddr (rxPkt (rx_dev s)))))"
    "cmem (chips (rx_end s u)) = cmem (chips s)"
    "chip_logs (chips (rx_end s u)) =
      (phyw (chips s), phyr (chips s), cread (chips s) @ rx_nxt s @ rx_sv s @ rx_dat s)"
    unfolding c m(2) p(4) by (simp_all add: creg_eval chip_logs_def)
qed

text \<open>The state between the header and the data, and what each stage does to it.\<close>

definition rx_hdr :: "'w sys \<Rightarrow> u16 \<Rightarrow> dmsg list \<Rightarrow> 'w sys" where
  "rx_hdr s n u = s\<lparr>dev := (dev s)\<lparr>rxPkt := (rxPkt (dev s))\<lparr>nxtPktAddr := rx_nxt s,
     rxStatVect := rx_sv s, rxPktLen := n, ptrAddr := u16_of (rx_nxt s ! 0) (rx_nxt s ! 1)\<rparr>\<rparr>,
     hw := rx_w2 s, uart := u\<rparr>"

lemma rx_read_header_eq:
  assumes i: "inv s"
  obtains u where "rx_read_header s = Some (rx_hdr s (rx_len s) u)"
proof -
  note p = rx_ptr_st [OF i] and d = invD [OF i]
  have ptr: "enc28j60_writeReg 0 (lo8 (ptrAddr (rxPkt (dev s)))) s =
      Some (wr_st 0 (lo8 (ptrAddr (rxPkt (dev s)))) s)"
    "enc28j60_writeReg 1 (hi8 (ptrAddr (rxPkt (dev s)))) (wr_st 0 (lo8 (ptrAddr (rxPkt (dev s)))) s) =
      Some (rx_ptr_st s)"
    "dev (wr_st 0 (lo8 (ptrAddr (rxPkt (dev s)))) s) = dev s"
    using i by (simp_all add: bank0 rbits_def rx_ptr_st_def)
  define t where "t = the (rx_read_header s)"
  have t: "rx_read_header s = Some t"
    and h: "hw t = rx_w2 s" and dv: "dev t = dev (rx_hdr s (rx_len s) [])"
    using i d
    by (simp_all add: t_def rx_read_header_def rx_hdr_def ptr p calls reg_addrs Let_def
        u16_of_def rx_len_def rx_nxt_def rx_sv_def rx_w0_def rx_w1_def rx_w2_def)
  from sys_eqI [OF dv h, of s] have "t = rx_hdr s (rx_len s) (uart t)"
    by (simp add: rx_hdr_def)
  with t show thesis by (intro that) simp
qed

lemma rx_check_len_eq:
  obtains u' where "rx_check_len (rx_hdr s (rx_len s) u) = (rx_ok s, rx_hdr s (rx_n s) u')"
proof -
  define t where "t = snd (rx_check_len (rx_hdr s (rx_len s) u))"
  have f: "fst (rx_check_len (rx_hdr s (rx_len s) u)) = rx_ok s"
    by (auto simp: rx_check_len_def rx_hdr_def rx_ok_def Let_def)
  have h: "hw t = rx_w2 s" and dv: "dev t = dev (rx_hdr s (rx_n s) [])"
    by (auto simp: t_def rx_check_len_def rx_hdr_def rx_ok_def rx_n_def Let_def)
  have "rx_check_len (rx_hdr s (rx_len s) u) = (rx_ok s, t)"
    by (simp add: t_def prod_eq_iff f)
  also from sys_eqI [OF dv h, of s] have "t = rx_hdr s (rx_n s) (uart t)"
    by (simp add: rx_hdr_def)
  finally show thesis by (rule that)
qed

lemma rx_read_data_eq:
  assumes i: "inv s"
  shows "rx_read_data (rx_hdr s (rx_n s) u) = Some (rx_end s u)"
proof -
  note m = rx_mid [OF i, of u] and d = invD [OF i]
  have h: "wired cs ds rd wr dly (dev (rx_hdr s (rx_n s) u))"
    using d by (simp add: rx_hdr_def)
  have k: "const_dev (rx_dev s)" "wired cs ds rd wr dly (rx_dev s)"
    using d by (simp_all add: rx_dev_def)
  have rest: "enc28j60_writeReg 0x0C v (rx_mid s u) = Some (wr_st 0x0C v (rx_mid s u))"
    "enc28j60_writeReg 0x0D v' (wr_st 0x0C v (rx_mid s u)) =
      Some (wr_st 0x0D v' (wr_st 0x0C v (rx_mid s u)))"
    "dev (wr_st 0x0C v (rx_mid s u)) = rx_dev s" "dev (rx_mid s u) = rx_dev s" for v v'
    using m(1) by (simp_all add: bank0 rbits_def) (simp_all add: rx_mid_def)
  have hdr: "rxPktLen (rxPkt (dev (rx_hdr s (rx_n s) u))) = rx_n s" "hw (rx_hdr s (rx_n s) u) = rx_w2 s"
    "store_rx_data (rx_dat s) (dev (rx_hdr s (rx_n s) u)) = rx_dev s"
    by (simp_all add: rx_hdr_def rx_dev_def)
  have st: "(rx_hdr s (rx_n s) u)\<lparr>dev := rx_dev s, hw := rx_w3 s\<rparr> = rx_mid s u"
    by (simp add: rx_hdr_def rx_mid_def)
  have st': "(rx_hdr s (rx_n s) u)\<lparr>hw := rx_w3 s, dev := rx_dev s\<rparr> = rx_mid s u"
    by (simp add: rx_hdr_def rx_mid_def)
  note fold = rx_dat_def [symmetric] rx_w3_def [symmetric]
  show ?thesis
    unfolding rx_read_data_def
    by (simp add: calls h hdr fold k st st' reg_addrs rest rx_end_def erxrdpt_for_def
        mask255_lo8 shift8_hi8 Let_def)
qed

lemma etherReceive_eq:
  assumes i: "inv s"
  obtains u u' where "enc28j60_etherReceive s = Some (rx_ok s, (rx_end s u)\<lparr>uart := u'\<rparr>)"
proof -
  obtain u where h: "rx_read_header s = Some (rx_hdr s (rx_len s) u)"
    using i by (rule rx_read_header_eq)
  obtain u' where c: "rx_check_len (rx_hdr s (rx_len s) u) = (rx_ok s, rx_hdr s (rx_n s) u')"
    by (rule rx_check_len_eq)
  let ?l = "rx_flags_loop [0..<16] (rx_flags (rx_hdr s (rx_len s) u)) (rx_end s u')"
  have r: "enc28j60_etherReceive s = Some (rx_ok s, ?l)"
    by (simp add: enc28j60_etherReceive_def h c rx_read_data_eq [OF i])
  have l: "?l = (rx_end s u')\<lparr>uart := uart ?l\<rparr>"
    by (rule sys_eq_uart) simp_all
  from r have "enc28j60_etherReceive s = Some (rx_ok s, (rx_end s u')\<lparr>uart := uart ?l\<rparr>)"
    by (subst (asm) l)
  then show thesis by (rule that)
qed

end

end
