(* ===== verification/Enc_Phy.thy ===== *)
theory Enc_Phy
  imports Enc_Transfer
begin

text \<open>
  The polling loops and PHY access through the MII registers.  A PHY access begins in bank 2;
  when the cache says bank 2 while the chip is in bank 0 its first instructions go astray.
\<close>

section \<open>Polling\<close>

text \<open>The \<open>n\<close>-th poll of MISTAT, and when the loop returns.\<close>

fun poll_MISTAT :: "nat \<Rightarrow> 'w sys \<Rightarrow> (u8 \<times> 'w sys) option" where
  "poll_MISTAT 0 s = enc28j60_readMacMIIReg (MISTAT (bank3 (dev s))) s"
| "poll_MISTAT (Suc n) s = do {
     (_, s) \<leftarrow> enc28j60_readMacMIIReg (MISTAT (bank3 (dev s))) s;
     poll_MISTAT n s
   }"

lemma wait_MISTAT_returns:
  "poll_MISTAT n s = Some (v, t) \<Longrightarrow> v AND 1 = 0 \<Longrightarrow> \<exists>s'. wait_MISTAT s = Some s'"
proof (induction n arbitrary: s)
  case 0
  then show ?case by (simp add: wait_MISTAT.simps [of s])
next
  case (Suc n)
  then obtain u s1 where r: "enc28j60_readMacMIIReg (MISTAT (bank3 (dev s))) s = Some (u, s1)"
    and p: "poll_MISTAT n s1 = Some (v, t)"
    by (auto simp: bind_eq_Some_conv)
  from Suc.IH [OF p Suc.prems(2)] r show ?case
    by (auto simp: wait_MISTAT.simps [of s])
qed

lemma wait_MISTAT_polls:
  assumes "wait_MISTAT s = Some s'"
  shows "\<exists>n v. poll_MISTAT n s = Some (v, s') \<and> v AND 1 = 0"
proof (rule wait_MISTAT.raw_induct [where P = "\<lambda>s s'. \<exists>n v. poll_MISTAT n s = Some (v, s') \<and> v AND 1 = 0",
      OF _ assms])
  fix f :: "'a sys \<Rightarrow> 'a sys option" and s s'
  assume IH: "\<And>s s'. f s = Some s' \<Longrightarrow> \<exists>n v. poll_MISTAT n s = Some (v, s') \<and> v AND 1 = 0"
    and eq: "do { (v, s) \<leftarrow> enc28j60_readMacMIIReg (MISTAT (bank3 (dev s))) s;
       if v AND 1 \<noteq> 0 then f s else Some s } = Some s'"
  then obtain u s1 where r: "enc28j60_readMacMIIReg (MISTAT (bank3 (dev s))) s = Some (u, s1)"
    and e: "(if u AND 1 \<noteq> 0 then f s1 else Some s1) = Some s'"
    by (auto simp: bind_eq_Some_conv)
  show "\<exists>n v. poll_MISTAT n s = Some (v, s') \<and> v AND 1 = 0"
  proof (cases "u AND 1 = 0")
    case True
    with r e show ?thesis by (intro exI [of _ 0] exI [of _ u]) auto
  next
    case False
    with e IH obtain n v where "poll_MISTAT n s1 = Some (v, s')" "v AND 1 = 0"
      by (metis (full_types))
    with r show ?thesis by (intro exI [of _ "Suc n"]) auto
  qed
qed

context spi_bus
begin

lemma poll_MISTAT_state:
  assumes "inv s" and "routed log 0xCA s" and "poll_MISTAT n s = Some (v, s')"
  shows "inv s' \<and> dev s' = (dev s)\<lparr>bnBank := bank_3\<rparr> \<and> uart s' = uart s \<and>
    (\<exists>rs. chips s' = (c_sel 3 (chips s))\<lparr>cread := cread (chips s) @ rs\<rparr>)"
  using assms
proof (induction n arbitrary: s)
  case 0
  then show ?case
    by (auto simp: reg_addrs invD rdm_st_eqs inv_rdm_st next_bank_def convertRegValToBank_cases
        rbits_def acc_routed)
next
  case (Suc n)
  note r = rdm_st_eqs [OF Suc.prems(1), of "0xCA"]
  have d1: "dev (rdm_st 0xCA s) = (dev s)\<lparr>bnBank := bank_3\<rparr>"
    by (simp add: r next_bank_def convertRegValToBank_cases rbits_def)
  have c1: "chips (rdm_st 0xCA s) = (c_sel 3 (chips s))\<lparr>cread := cread (chips s) @
      [rdm_dummy 0xCA s, rdm_val 0xCA s]\<rparr>"
    using Suc.prems(2) by (simp add: r acc_routed rbits_def)
  have b: "bsel (chips (rdm_st 0xCA s)) = 3"
    by (simp add: c1 bsel_c_sel)
  have rt: "routed log 0xCA (rdm_st 0xCA s)"
    by (simp add: routed_def b rbits_def)
  have p: "poll_MISTAT n (rdm_st 0xCA s) = Some (v, s')"
    using Suc.prems(1,3) by (simp add: reg_addrs invD r)
  note h = Suc.IH [OF inv_rdm_st [OF Suc.prems(1)] rt p]
  have "c_sel 3 (chips (rdm_st 0xCA s)) = chips (rdm_st 0xCA s)"
    using b by (rule c_sel_same)
  with h show ?case by (auto simp: d1 c1 r)
qed

lemma wait_MISTAT_state:
  assumes "inv s" and "routed log 0xCA s" and "wait_MISTAT s = Some s'"
  shows "inv s'" and "dev s' = (dev s)\<lparr>bnBank := bank_3\<rparr>" and "uart s' = uart s"
    and "\<exists>rs. chips s' = (c_sel 3 (chips s))\<lparr>cread := cread (chips s) @ rs\<rparr>"
  using poll_MISTAT_state [OF assms(1,2)] wait_MISTAT_polls [OF assms(3)] by blast+

section \<open>PHY access\<close>

lemma bank2_banks:
  "convertRegValToBank 0x92 = bank_2" "convertRegValToBank 0x94 = bank_2"
  "convertRegValToBank 0x96 = bank_2" "convertRegValToBank 0x97 = bank_2"
  "convertRegValToBank 0x98 = bank_2" "convertRegValToBank 0x99 = bank_2"
  "convertRegValToBank 0xCA = bank_3"
  by (simp_all add: convertRegValToBank_cases rbits_def)

lemma next_bank_simps:
  "next_bank 0x92 b = bank_2" "next_bank 0x94 b = bank_2" "next_bank 0x96 b = bank_2"
  "next_bank 0x97 b = bank_2" "next_bank 0x98 b = bank_2" "next_bank 0x99 b = bank_2"
  "next_bank 0xCA b = bank_3"
  by (simp_all add: next_bank_def bank2_banks)

text \<open>When the cached bank is that of the register, the access goes wherever the chip is.\<close>

lemma acc_cached:
  assumes "bnBank (dev s) = convertRegValToBank r"
  shows "acc_chip r s = chips s" and "acc_key r s = reg_key (bsel (chips s)) (r AND 0x1F)"
  using assms by (simp_all add: acc_key_def acc_chip_def)

text \<open>The chip a PHY access starts on, and the bank its first instructions reach.\<close>

definition mii_chip :: "'w sys \<Rightarrow> chip" where
  "mii_chip s = (if routed log 0x94 s then c_sel 2 (chips s) else chips s)"

definition mii_bank :: "'w sys \<Rightarrow> u8" where
  "mii_bank s = (if routed log 0x94 s then 2 else 0)"

lemma bsel_mii_chip: "inv s \<Longrightarrow> bsel (mii_chip s) = mii_bank s"
  using acc_misrouted(3) [of s "0x94"] by (simp add: mii_chip_def mii_bank_def bsel_c_sel)

lemma mii_chip_frame:
  "cmem (mii_chip s) = cmem (chips s)" "phyw (mii_chip s) = phyw (chips s)"
  "phyr (mii_chip s) = phyr (chips s)" "cread (mii_chip s) = cread (chips s)"
  "k \<noteq> 0x1F \<Longrightarrow> creg (mii_chip s) k = creg (chips s) k"
  by (simp_all add: mii_chip_def c_sel_def)

lemma mii_chip_econ1: "creg (mii_chip s) 0x1F AND - 4 = creg (chips s) 0x1F AND - 4"
  by (simp add: mii_chip_def c_sel_def bit.conj_disj_distrib2 and.assoc)

lemma write_MIREGADR:
  assumes i: "inv s"
  shows "chips (wr_st 0x94 a s) = reg_write (reg_key (mii_bank s) 0x14) a (mii_chip s)"
    and "dev (wr_st 0x94 a s) = (dev s)\<lparr>bnBank := bank_2\<rparr>"
    and "bsel (chips (wr_st 0x94 a s)) = mii_bank s" and "inv (wr_st 0x94 a s)"
proof -
  show c: "chips (wr_st 0x94 a s) = reg_write (reg_key (mii_bank s) 0x14) a (mii_chip s)"
    using acc_routed [of "0x94" s] acc_misrouted [OF i, of "0x94"]
    by (auto simp: wr_st_eqs [OF i] mii_bank_def mii_chip_def rbits_def rkey_def)
  show "dev (wr_st 0x94 a s) = (dev s)\<lparr>bnBank := bank_2\<rparr>"
    by (simp add: wr_st_eqs [OF i] next_bank_simps)
  have "reg_key (mii_bank s) 0x14 \<noteq> 0x1F" by (simp add: mii_bank_def reg_key_def)
  then show "bsel (chips (wr_st 0x94 a s)) = mii_bank s"
    by (simp add: c bsel_reg_write bsel_mii_chip [OF i])
  show "inv (wr_st 0x94 a s)" using i by (rule inv_wr_st) simp
qed

text \<open>The second half of a PHY read: wait, clear MIIRD, fetch the data.\<close>

definition mii_fetch :: "'w sys \<Rightarrow> (u16 \<times> 'w sys) option" where
  "mii_fetch s = do {
     s \<leftarrow> wait_MISTAT s;
     (v, s) \<leftarrow> enc28j60_readMacMIIReg (MICMD (bank2 (dev s))) s;
     s \<leftarrow> enc28j60_writeReg (MICMD (bank2 (dev s))) (v AND NOT (push_bit 0 1)) s;
     (h, s) \<leftarrow> enc28j60_readMacMIIReg (MIRDH (bank2 (dev s))) s;
     (l, s) \<leftarrow> enc28j60_readMacMIIReg (MIRDL (bank2 (dev s))) s;
     Some (push_bit 8 (ucast h) OR ucast l, s)
   }"

lemma mii_fetch_state:
  assumes i: "inv s" and b: "bnBank (dev s) = bank_2" and r: "mii_fetch s = Some (v, s')"
  shows "inv s' \<and> dev s' = dev s \<and> uart s' = uart s \<and> bsel (chips s') = 2 \<and>
    (\<exists>y z rs d h d' l. chips s' = (chips s)\<lparr>creg := (creg (chips s))(0x1F := y, 0x92 := z AND NOT 1),
       cread := cread (chips s) @ rs @ [d, h, d', l]\<rparr> \<and>
       y AND NOT 3 = creg (chips s) 0x1F AND NOT 3 \<and> v = u16_of l h)"
proof -
  have k: "const_dev (dev s)" using invD [OF i] by simp
  have rt: "routed log 0xCA s" by (simp add: routed_def b bank2_banks)
  from r obtain s5 where w5: "wait_MISTAT s = Some s5"
    by (auto simp: mii_fetch_def bind_eq_Some_conv)
  note f5 = wait_MISTAT_state [OF i rt w5]
  from f5(4) obtain rs where c5: "chips s5 = (c_sel 3 (chips s))\<lparr>cread := cread (chips s) @ rs\<rparr>"
    by blast
  define s6 where "s6 = rdm_st 0x92 s5"
  define z where "z = rdm_val 0x92 s5"
  define s7 where "s7 = wr_st 0x92 (z AND - 2) s6"
  define s8 where "s8 = rdm_st 0x99 s7"
  define s9 where "s9 = rdm_st 0x98 s8"
  have i6: "inv s6" unfolding s6_def by (rule inv_rdm_st [OF f5(1)])
  have i7: "inv s7" unfolding s7_def by (rule inv_wr_st [OF i6]) simp
  have i8: "inv s8" unfolding s8_def by (rule inv_rdm_st [OF i7])
  have d6: "dev s6 = dev s" "uart s6 = uart s"
    using b by (simp_all add: s6_def rdm_st_eqs [OF f5(1)] next_bank_simps f5(2,3))
  have c6: "chips s6 = (c_sel 2 (chips s5))\<lparr>cread := cread (chips s5) @ [rdm_dummy 0x92 s5, z]\<rparr>"
    by (simp add: s6_def rdm_st_eqs [OF f5(1)] acc_chip_def f5(2) bank2_banks z_def rbits_def)
  have b6: "bsel (chips s6) = 2" by (simp add: c6 bsel_c_sel)
  have d7: "dev s7 = dev s" "uart s7 = uart s"
    using b by (simp_all add: s7_def wr_st_eqs [OF i6] next_bank_simps d6)
  have c7: "chips s7 = reg_write 0x92 (z AND NOT 1) (chips s6)"
    by (simp add: s7_def wr_st_eqs [OF i6] acc_cached d6 b bank2_banks b6 reg_key_def)
  have d8: "dev s8 = dev s" "uart s8 = uart s"
    using b by (simp_all add: s8_def rdm_st_eqs [OF i7] next_bank_simps d7)
  have c8: "chips s8 = (chips s7)\<lparr>cread := cread (chips s7) @ [rdm_dummy 0x99 s7, rdm_val 0x99 s7]\<rparr>"
    by (simp add: s8_def rdm_st_eqs [OF i7] acc_cached d7 b bank2_banks)
  have d9: "dev s9 = dev s" "uart s9 = uart s" and i9: "inv s9"
    using b inv_rdm_st [OF i8] by (simp_all add: s9_def rdm_st_eqs [OF i8] next_bank_simps d8)
  have c9: "chips s9 = (chips s8)\<lparr>cread := cread (chips s8) @ [rdm_dummy 0x98 s8, rdm_val 0x98 s8]\<rparr>"
    by (simp add: s9_def rdm_st_eqs [OF i8] acc_cached d8 b bank2_banks)
  have run: "enc28j60_readMacMIIReg 0x92 s5 = Some (z, s6)"
    "enc28j60_writeReg 0x92 (z AND - 2) s6 = Some s7"
    "enc28j60_readMacMIIReg 0x99 s7 = Some (rdm_val 0x99 s7, s8)"
    "enc28j60_readMacMIIReg 0x98 s8 = Some (rdm_val 0x98 s8, s9)"
    using rdm_st_eqs(1) [OF f5(1), of "0x92"] wr_st_eqs(1) [OF i6, of "0x92" "z AND - 2"]
      rdm_st_eqs(1) [OF i7, of "0x99"] rdm_st_eqs(1) [OF i8, of "0x98"]
    by (simp_all flip: s6_def z_def s7_def s8_def s9_def)
  have "mii_fetch s = Some (push_bit 8 (ucast (rdm_val 0x99 s7)) OR ucast (rdm_val 0x98 s8), s9)"
    unfolding mii_fetch_def using k by (simp add: w5 f5(2) reg_addrs run d6 d7 d8)
  with r have v: "v = u16_of (rdm_val 0x98 s8) (rdm_val 0x99 s7)" and s': "s' = s9"
    by (simp_all add: u16_of_def or.commute)
  have "bsel (chips s9) = 2" by (simp add: c9 c8 c7 bsel_reg_write b6)
  moreover have "chips s9 = (chips s)\<lparr>creg := (creg (chips s))(0x1F := creg (chips s9) 0x1F, 0x92 := z AND NOT 1),
       cread := cread (chips s) @ (rs @ [rdm_dummy 0x92 s5, z]) @
         [rdm_dummy 0x99 s7, rdm_val 0x99 s7, rdm_dummy 0x98 s8, rdm_val 0x98 s8]\<rparr>"
    by (simp add: c9 c8 c7 c6 c5 reg_write_def c_sel_def and.assoc fun_upd_twist)
  moreover have "creg (chips s9) 0x1F AND NOT 3 = creg (chips s) 0x1F AND NOT 3"
    by (simp add: c9 c8 c7 c6 c5 reg_write_def c_sel_def bit.conj_disj_distrib2 and.assoc)
  ultimately show ?thesis using i9 d9 v s' by blast
qed

text \<open>
  The whole read.  Routed, it commands a PHY read of \<open>a\<close>; astray, it writes \<open>a\<close> to EDMADSTL
  (0x14) and sets bit 0 of EDMANDL (0x12), and commands no PHY read.  Either way the value
  returned is MIRDH:MIRDL as the device gives them, and the cache ends exact.
\<close>

lemma readPhyReg_state:
  assumes i: "inv s" and r: "enc28j60_readPhyReg a s = Some (v, s')"
  shows "inv s'" and "dev s' = (dev s)\<lparr>bnBank := bank_2\<rparr>" and "uart s' = uart s"
    and "bsel (chips s') = 2"
    and "\<exists>x y z. creg (chips s') = (creg (chips s))(reg_key (mii_bank s) 0x14 := a,
      reg_key (mii_bank s) 0x12 := x OR 1, 0x1F := y, 0x92 := z AND NOT 1) \<and>
      y AND NOT 3 = creg (chips s) 0x1F AND NOT 3"
    and "cmem (chips s') = cmem (chips s)" and "phyw (chips s') = phyw (chips s)"
    and "phyr (chips s') = phyr (chips s) @ (if routed log 0x94 s then [a] else [])"
    and "\<exists>rs d h d' l. cread (chips s') = cread (chips s) @ rs @ [d, h, d', l] \<and> v = u16_of l h"
proof -
  define s1 where "s1 = wr_st 0x94 a s"
  note f1 = write_MIREGADR [OF i, of a, folded s1_def]
  define s2 where "s2 = rdm_st 0x92 s1"
  define x where "x = rdm_val 0x92 s1"
  define s3 where "s3 = wr_st 0x92 (x OR 1) s2"
  define s4 where "s4 = s3\<lparr>hw := dly 1 (hw s3)\<rparr>"
  have i2: "inv s2" unfolding s2_def by (rule inv_rdm_st [OF f1(4)])
  have i3: "inv s3" unfolding s3_def by (rule inv_wr_st [OF i2]) simp
  have b1: "bnBank (dev s1) = bank_2" by (simp add: f1)
  have d2: "dev s2 = dev s1" "uart s2 = uart s1"
    by (simp_all add: s2_def rdm_st_eqs [OF f1(4)] next_bank_simps b1 f1(2))
  have c2: "chips s2 = (chips s1)\<lparr>cread := cread (chips s1) @ [rdm_dummy 0x92 s1, x]\<rparr>"
    by (simp add: s2_def rdm_st_eqs [OF f1(4)] acc_cached b1 bank2_banks x_def)
  have d3: "dev s3 = dev s1" "uart s3 = uart s1"
    by (simp_all add: s3_def wr_st_eqs [OF i2] next_bank_simps b1 f1(2) d2)
  have c3: "chips s3 = reg_write (reg_key (mii_bank s) 0x12) (x OR 1) (chips s2)"
    using f1(3) by (simp add: s3_def wr_st_eqs [OF i2] acc_cached d2 b1 bank2_banks c2)
  have k: "const_dev (dev s)" "wired cs ds rd wr dly (dev s)" using invD [OF i] by simp_all
  have i4: "inv s4" and c4: "chips s4 = chips s3" and d4: "dev s4 = dev s1" "uart s4 = uart s1"
    using i3 d3 by (simp_all add: s4_def drv_inv_def chipw_hw)
  have run: "enc28j60_writeReg 0x94 a s = Some s1" "enc28j60_readMacMIIReg 0x92 s1 = Some (x, s2)"
    "enc28j60_writeReg 0x92 (x OR 1) s2 = Some s3"
    using wr_st_eqs(1) [OF i, of "0x94" a] rdm_st_eqs(1) [OF f1(4), of "0x92"]
      wr_st_eqs(1) [OF i2, of "0x92" "x OR 1"]
    by (simp_all flip: s1_def s2_def x_def s3_def)
  have "enc28j60_readPhyReg a s = mii_fetch s4"
    unfolding enc28j60_readPhyReg_def mii_fetch_def s4_def
    using k by (simp add: reg_addrs run f1(2) d2 d3 calls)
  with r have "mii_fetch s4 = Some (v, s')" by simp
  from mii_fetch_state [OF i4 _ this] obtain y z rs d h d' l where
    m: "inv s'" "dev s' = dev s1" "uart s' = uart s1" "bsel (chips s') = 2" "v = u16_of l h"
    and c: "chips s' = (chips s3)\<lparr>creg := (creg (chips s3))(0x1F := y, 0x92 := z AND NOT 1),
       cread := cread (chips s3) @ rs @ [d, h, d', l]\<rparr>"
    and y: "y AND NOT 3 = creg (chips s3) 0x1F AND NOT 3"
    by (auto simp: d4 b1 c4)
  show "inv s'" "bsel (chips s') = 2" by (rule m)+
  show "dev s' = (dev s)\<lparr>bnBank := bank_2\<rparr>" by (simp add: m f1(2))
  show "uart s' = uart s" by (simp add: m s1_def wr_st_eqs(3) [OF i])
  note mc = mii_chip_frame [where s = s]
  show "cmem (chips s') = cmem (chips s)" "phyw (chips s') = phyw (chips s)"
    by (simp_all add: c c3 c2 f1(1) reg_write_def mc mii_bank_def reg_key_def)
  show "phyr (chips s') = phyr (chips s) @ (if routed log 0x94 s then [a] else [])"
    by (simp add: c c3 c2 f1(1) reg_write_def mc mii_bank_def reg_key_def bit.conj_disj_distrib2)
  have "creg (chips s') = (creg (chips s))(reg_key (mii_bank s) 0x14 := a,
      reg_key (mii_bank s) 0x12 := x OR 1, 0x1F := y, 0x92 := z AND NOT 1)"
    by (auto simp: c c3 c2 f1(1) reg_write_def mii_bank_def reg_key_def fun_eq_iff mc)
  moreover have "y AND NOT 3 = creg (chips s) 0x1F AND NOT 3"
    unfolding y by (simp add: c3 c2 f1(1) reg_write_def mii_bank_def reg_key_def mii_chip_econ1)
  ultimately show "\<exists>x y z. creg (chips s') = (creg (chips s))(reg_key (mii_bank s) 0x14 := a,
      reg_key (mii_bank s) 0x12 := x OR 1, 0x1F := y, 0x92 := z AND NOT 1) \<and>
      y AND NOT 3 = creg (chips s) 0x1F AND NOT 3"
    by blast
  have "cread (chips s') = cread (chips s) @ ([rdm_dummy 0x92 s1, x] @ rs) @ [d, h, d', l]"
    by (simp add: c c3 c2 f1(1) mc)
  then show "\<exists>rs d h d' l. cread (chips s') = cread (chips s) @ rs @ [d, h, d', l] \<and> v = u16_of l h"
    using m(5) by blast
qed

text \<open>A PHY write: routed, it commands the write of \<open>data\<close> to register \<open>a\<close>.\<close>

lemma writePhyReg_state:
  assumes i: "inv s" and r: "enc28j60_writePhyReg a data s = Some s'"
  shows "inv s'" and "dev s' = (dev s)\<lparr>bnBank := bank_3\<rparr>" and "uart s' = uart s"
    and "bsel (chips s') = 3"
    and "\<exists>y. creg (chips s') = (creg (chips s))(reg_key (mii_bank s) 0x14 := a,
      reg_key (mii_bank s) 0x16 := lo8 data, reg_key (mii_bank s) 0x17 := hi8 data, 0x1F := y) \<and>
      y AND NOT 3 = creg (chips s) 0x1F AND NOT 3"
    and "cmem (chips s') = cmem (chips s)"
    and "phyw (chips s') = phyw (chips s) @ (if routed log 0x94 s then [(a, data)] else [])"
    and "phyr (chips s') = phyr (chips s)"
    and "\<exists>rs. cread (chips s') = cread (chips s) @ rs"
proof -
  define s1 where "s1 = wr_st 0x94 a s"
  note f1 = write_MIREGADR [OF i, of a, folded s1_def]
  define s2 where "s2 = wr_st 0x96 (lo8 data) s1"
  define s3 where "s3 = wr_st 0x97 (hi8 data) s2"
  define s4 where "s4 = s3\<lparr>hw := dly 1 (hw s3)\<rparr>"
  have b1: "bnBank (dev s1) = bank_2" by (simp add: f1)
  have i2: "inv s2" unfolding s2_def by (rule inv_wr_st [OF f1(4)]) simp
  have i3: "inv s3" unfolding s3_def by (rule inv_wr_st [OF i2]) simp
  have d2: "dev s2 = dev s1" "uart s2 = uart s1"
    by (simp_all add: s2_def wr_st_eqs [OF f1(4)] next_bank_simps b1 f1(2))
  have c2: "chips s2 = reg_write (reg_key (mii_bank s) 0x16) (lo8 data) (chips s1)"
    using f1(3) by (simp add: s2_def wr_st_eqs [OF f1(4)] acc_cached b1 bank2_banks)
  have "reg_key (mii_bank s) 0x16 \<noteq> 0x1F" by (simp add: mii_bank_def reg_key_def)
  then have b2: "bsel (chips s2) = mii_bank s" by (simp add: c2 bsel_reg_write f1(3))
  have d3: "dev s3 = dev s1" "uart s3 = uart s1"
    by (simp_all add: s3_def wr_st_eqs [OF i2] next_bank_simps b1 f1(2) d2)
  have c3: "chips s3 = reg_write (reg_key (mii_bank s) 0x17) (hi8 data) (chips s2)"
    by (simp add: s3_def wr_st_eqs [OF i2] acc_cached d2 b1 bank2_banks b2)
  have k: "const_dev (dev s)" "wired cs ds rd wr dly (dev s)" using invD [OF i] by simp_all
  have i4: "inv s4" and c4: "chips s4 = chips s3" and d4: "dev s4 = dev s1" "uart s4 = uart s1"
    using i3 d3 by (simp_all add: s4_def drv_inv_def chipw_hw)
  have run: "enc28j60_writeReg 0x94 a s = Some s1" "enc28j60_writeReg 0x96 (lo8 data) s1 = Some s2"
    "enc28j60_writeReg 0x97 (hi8 data) s2 = Some s3"
    using wr_st_eqs(1) [OF i, of "0x94" a] wr_st_eqs(1) [OF f1(4), of "0x96" "lo8 data"]
      wr_st_eqs(1) [OF i2, of "0x97" "hi8 data"]
    by (simp_all flip: s1_def s2_def s3_def)
  have w: "wait_MISTAT s4 = Some s'"
    using r k by (simp add: enc28j60_writePhyReg_def reg_addrs mask255_lo8 shift8_hi8 run f1(2) d2 d3
        calls s4_def)
  have rt: "routed log 0xCA s4" by (simp add: routed_def d4 b1 bank2_banks)
  note m = wait_MISTAT_state [OF i4 rt w]
  from m(4) obtain rs where c: "chips s' = (c_sel 3 (chips s3))\<lparr>cread := cread (chips s3) @ rs\<rparr>"
    by (auto simp: c4)
  show "inv s'" by (rule m)
  show "dev s' = (dev s)\<lparr>bnBank := bank_3\<rparr>" by (simp add: m d4 f1(2))
  show "uart s' = uart s" by (simp add: m d4 s1_def wr_st_eqs(3) [OF i])
  show "bsel (chips s') = 3" by (simp add: c bsel_c_sel)
  note mc = mii_chip_frame [where s = s]
  show "cmem (chips s') = cmem (chips s)" "phyr (chips s') = phyr (chips s)"
    "\<exists>rs. cread (chips s') = cread (chips s) @ rs"
    by (simp_all add: c c3 c2 f1(1) reg_write_def c_sel_def mc mii_bank_def reg_key_def)
  show "phyw (chips s') = phyw (chips s) @ (if routed log 0x94 s then [(a, data)] else [])"
    by (simp add: c c3 c2 f1(1) reg_write_def c_sel_def mc mii_bank_def reg_key_def)
  have "creg (chips s') = (creg (chips s))(reg_key (mii_bank s) 0x14 := a,
      reg_key (mii_bank s) 0x16 := lo8 data, reg_key (mii_bank s) 0x17 := hi8 data,
      0x1F := creg (chips s') 0x1F)"
    by (auto simp: c c3 c2 f1(1) reg_write_def c_sel_def mii_bank_def reg_key_def fun_eq_iff mc)
  moreover have "creg (chips s') 0x1F AND NOT 3 = creg (chips s) 0x1F AND NOT 3"
    by (simp add: c c3 c2 f1(1) reg_write_def c_sel_def mii_bank_def reg_key_def mii_chip_econ1
        bit.conj_disj_distrib2 and.assoc)
  ultimately show "\<exists>y. creg (chips s') = (creg (chips s))(reg_key (mii_bank s) 0x14 := a,
      reg_key (mii_bank s) 0x16 := lo8 data, reg_key (mii_bank s) 0x17 := hi8 data, 0x1F := y) \<and>
      y AND NOT 3 = creg (chips s) 0x1F AND NOT 3"
    by blast
qed

text \<open>After a PHY read the next PHY access is routed; so it is whenever the cache is not bank 2.\<close>

lemma mii_routed: "bnBank (dev s) \<noteq> bank_2 \<or> bsel (chips s) = 2 \<Longrightarrow> routed log 0x94 s"
  by (auto simp: routed_def bank2_banks rbits_def)

end

end
