(* ===== verification/Enc_Start.thy ===== *)
theory Enc_Start
  imports Enc_Phy
begin

text \<open>
  The start-up sequence \<open>enc28j60_strtDr\<close> as a refinement: \<open>cfg\<close> forgets the bank bits and the
  SPI transactions, and what is left is the register file a driver writer has in mind.  Register
  accesses that are routed act on \<open>cfg\<close> as plain reads and writes, so the start-up is proved to
  program an explicit register file.  The one access that is not routed is the first PHY read of
  \<open>enc2860_phyInit\<close>.
\<close>

section \<open>The register file behind the banks\<close>

definition cfg_of :: "chip \<Rightarrow> chip" where
  "cfg_of c = c\<lparr>creg := (creg c)(0x1F := creg c 0x1F AND NOT 3), csel := False, ccmd := None, cread := []\<rparr>"

lemma cfg_of_c_sel: "b AND NOT 3 = 0 \<Longrightarrow> cfg_of (c_sel b c) = cfg_of c"
  by (simp add: cfg_of_def c_sel_def bit.conj_disj_distrib2 and.assoc)

lemma cfg_of_write: "k \<noteq> 0x1F \<Longrightarrow> cfg_of (reg_write k v c) = reg_write k v (cfg_of c)"
  by (simp add: cfg_of_def reg_write_def fun_upd_twist)

lemma and3_not: "v AND 3 = 0 \<Longrightarrow> v AND - 4 = (v :: u8)"
proof -
  assume "v AND 3 = 0"
  with and_not_or_and [of v 3] show ?thesis by simp
qed

lemma cfg_of_set: "k = 0x1F \<longrightarrow> v AND 3 = 0 \<Longrightarrow> cfg_of (reg_set k v c) = reg_set k v (cfg_of c)"
  by (auto simp: cfg_of_def reg_set_def fun_upd_twist bit.conj_disj_distrib2 and3_not)

lemma cfg_of_clear: "cfg_of (reg_clear k v c) = reg_clear k v (cfg_of c)"
  by (auto simp: cfg_of_def reg_clear_def fun_upd_twist ac_simps)

lemma cfg_of_cread [simp]: "cfg_of (c\<lparr>cread := x\<rparr>) = cfg_of c"
  by (simp add: cfg_of_def)

subsection \<open>What start-up programs\<close>

text \<open>The register file after \<open>enc2860_macInit\<close>; \<open>a\<close>, \<open>b\<close> and \<open>e\<close> are the values read back.\<close>

definition mac_cfg :: "u8 \<Rightarrow> u8 \<Rightarrow> u8 \<Rightarrow> chip \<Rightarrow> chip" where
  "mac_cfg a b e c = fold (\<lambda>(k, v). reg_write k v)
     [(0x89, a AND NOT 0x80), (0x80, b OR 0x0D), (0x82, e OR 0xF5), (0x8A, 0xDC), (0x8B, 0x05),
      (0x84, 0x15), (0x86, 0x12), (0xC1, mac ! 0), (0xC0, mac ! 1), (0xC3, mac ! 2),
      (0xC2, mac ! 3), (0xC5, mac ! 4), (0xC4, mac ! 5)] c"

text \<open>The buffer pointers, with the saved read pointer \<open>p\<close>.\<close>

definition buf_cfg :: "u16 \<Rightarrow> chip \<Rightarrow> chip" where
  "buf_cfg p c = fold (\<lambda>(k, v). reg_write k v)
     [(0x08, 0x00), (0x09, 0x00), (0x00, lo8 p), (0x01, hi8 p), (0x0A, 0xFF), (0x0B, 0x17),
      (0x0C, 0xFF), (0x0D, 0x17), (0x04, 0x00), (0x05, 0x18), (0x06, 0xFF), (0x07, 0x1F)] c"

text \<open>
  A routed PHY read and write, and a PHY read whose first two writes land in bank 0 (EDMADSTL
  and EDMANDL); \<open>x\<close> and \<open>z\<close> are the values of MICMD read back.
\<close>

definition mii_read :: "u8 \<Rightarrow> u8 \<Rightarrow> u8 \<Rightarrow> chip \<Rightarrow> chip" where
  "mii_read a x z c = reg_write 0x92 (z AND NOT 1) (reg_write 0x92 (x OR 1) (reg_write 0x94 a c))"

definition mii_write :: "u8 \<Rightarrow> u16 \<Rightarrow> chip \<Rightarrow> chip" where
  "mii_write a v c = reg_write 0x97 (hi8 v) (reg_write 0x96 (lo8 v) (reg_write 0x94 a c))"

definition mii_astray :: "u8 \<Rightarrow> u8 \<Rightarrow> u8 \<Rightarrow> chip \<Rightarrow> chip" where
  "mii_astray a x z c = reg_write 0x92 (z AND NOT 1) (reg_write 0x12 (x OR 1) (reg_write 0x14 a c))"

text \<open>
  The register file after start-up.  \<open>xs\<close> holds what the device answered: the values of MICMD
  around each PHY read, the three MAC registers that are read back, and the PHY data words.
\<close>

record start_reads =
  micmd :: "(u8 \<times> u8) list"
  macon :: "u8 \<times> u8 \<times> u8"
  phcon1 :: u16
  phie :: u16

definition ident_cfg :: "start_reads \<Rightarrow> chip \<Rightarrow> chip" where
  "ident_cfg xs c = fold (\<lambda>(a, x, z). mii_read a x z) (zip [3, 3, 2, 3] (take 4 (micmd xs))) c"

definition phy_cfg :: "start_reads \<Rightarrow> chip \<Rightarrow> chip" where
  "phy_cfg xs c =
     (let (x0, z0) = micmd xs ! 4; (x1, z1) = micmd xs ! 5 in
      mii_write 0x12 (phie xs OR 0x12) (mii_read 0x12 x1 z1
        (mii_write 0x00 (phcon1 xs OR 0x100) (mii_astray 0x00 x0 z0 c))))"

definition start_cfg :: "start_reads \<Rightarrow> u16 \<Rightarrow> chip \<Rightarrow> chip" where
  "start_cfg xs p c =
     (let (a, b, e) = macon xs in
      reg_set 0x1F 0x04 (reg_set 0x1E 0x80 (reg_write 0x1B 0xFF (reg_write 0x58 0xA1
        (mac_cfg a b e (phy_cfg xs (buf_cfg p (ident_cfg xs (c\<lparr>creg := reset_reg\<rparr>)))))))))"

lemma or1_and1: "(x OR 1) AND 1 = (1 :: u8)" "(x AND - 2) AND 1 = (0 :: u8)"
  by (simp_all add: bit.conj_disj_distrib2 and.assoc)

lemma chip_eqI:
  assumes "creg c = creg c'" "cmem c = cmem c'" "phyw c = phyw c'" "phyr c = phyr c'"
    "cread c = cread c'" "csel c = csel c'" "ccmd c = ccmd c'"
  shows "c = (c' :: chip)"
  using assms by (cases c; cases c') simp

lemma bnBank_cong:
  assumes "d\<lparr>bnBank := b\<rparr> = d'\<lparr>bnBank := b\<rparr>"
  shows "d\<lparr>bnBank := c\<rparr> = d'\<lparr>bnBank := c\<rparr>" and "rxPkt d = rxPkt d'"
proof -
  from assms have "(d\<lparr>bnBank := b\<rparr>)\<lparr>bnBank := c\<rparr> = (d'\<lparr>bnBank := b\<rparr>)\<lparr>bnBank := c\<rparr>"
    "rxPkt (d\<lparr>bnBank := b\<rparr>) = rxPkt (d'\<lparr>bnBank := b\<rparr>)" by simp_all
  then show "d\<lparr>bnBank := c\<rparr> = d'\<lparr>bnBank := c\<rparr>" "rxPkt d = rxPkt d'" by simp_all
qed

context spi_bus
begin

abbreviation cfg :: "'w sys \<Rightarrow> chip" where
  "cfg s \<equiv> cfg_of (chips s)"

text \<open>The cache is exact: then every access is routed, and an access to banks 1 to 3 leaves it exact.\<close>

definition exact :: "'w sys \<Rightarrow> bool" where
  "exact s \<longleftrightarrow> bsel (chips s) = convertBankToBits (bnBank (dev s))"

lemma exact_routed: "exact s \<Longrightarrow> routed log r s"
  by (auto simp: exact_def routed_def dest: sym)

lemma routed_other: "convertRegValToBank r \<noteq> bnBank (dev s) \<Longrightarrow> routed log r s"
  by (simp add: routed_def)

lemma acc_cfg: "cfg_of (acc_chip r s) = cfg s"
  by (simp add: acc_chip_def cfg_of_c_sel [OF rbits_small])

lemma bsel_acc: "routed log r s \<Longrightarrow> bsel (acc_chip r s) = rbits r"
  by (simp add: acc_routed bsel_c_sel [OF rbits_small])

lemma rkey_ECON1: "rkey r = 0x1F \<longleftrightarrow> r AND 0x1F = 0x1F"
  by (simp add: rkey_def reg_key_ECON1)

lemma next_bank_bits:
  "rbits r \<noteq> 0 \<Longrightarrow> convertBankToBits (next_bank r b) = rbits r"
  by (simp add: next_bank_def rbits_bank_0)

lemma write_step:
  assumes i: "inv s" and r: "routed log r s" and e: "r AND 0x1F \<noteq> 0x1F"
  obtains s' where "enc28j60_writeReg r v s = Some s'" "inv s'" "cfg s' = reg_write (rkey r) v (cfg s)"
    "dev s' = (dev s)\<lparr>bnBank := next_bank r (bnBank (dev s))\<rparr>" "uart s' = uart s"
    "bsel (chips s') = rbits r" "rbits r \<noteq> 0 \<Longrightarrow> exact s'"
proof -
  have k: "rkey r \<noteq> 0x1F" using e by (simp add: rkey_ECON1)
  have b: "bsel (chips (wr_st r v s)) = rbits r"
    by (simp add: wr_st_eqs [OF i] acc_routed(2) [OF r] bsel_reg_write [OF k] bsel_acc [OF r])
  show thesis
  proof (rule that [of "wr_st r v s"])
    show "cfg (wr_st r v s) = reg_write (rkey r) v (cfg s)"
      by (simp add: wr_st_eqs [OF i] acc_routed(2) [OF r] cfg_of_write [OF k] acc_cfg)
    show "rbits r \<noteq> 0 \<Longrightarrow> exact (wr_st r v s)"
      by (simp add: exact_def b) (simp add: wr_st_eqs [OF i] next_bank_bits)
  qed (simp_all add: wr_st_eqs [OF i] inv_wr_st [OF i e] b [unfolded wr_st_eqs [OF i]])
qed

lemma read_step:
  assumes i: "inv s" and r: "routed log r s"
  obtains v s' where "enc28j60_readMacMIIReg r s = Some (v, s')" "inv s'" "cfg s' = cfg s"
    "dev s' = (dev s)\<lparr>bnBank := next_bank r (bnBank (dev s))\<rparr>" "uart s' = uart s"
    "bsel (chips s') = rbits r" "rbits r \<noteq> 0 \<Longrightarrow> exact s'"
proof -
  have b: "bsel (chips (rdm_st r s)) = rbits r"
    by (simp add: rdm_st_eqs [OF i] bsel_acc [OF r])
  show thesis
  proof (rule that [of "rdm_val r s" "rdm_st r s"])
    show "rbits r \<noteq> 0 \<Longrightarrow> exact (rdm_st r s)"
      by (simp add: exact_def b) (simp add: rdm_st_eqs [OF i] next_bank_bits)
  qed (simp_all add: rdm_st_eqs [OF i] inv_rdm_st [OF i] acc_cfg bsel_acc [OF r])
qed

subsection \<open>Sequences of accesses\<close>

text \<open>
  \<open>here c d u s\<close>: the invariant holds with an exact cache, the register file is \<open>c\<close>, the device
  structure is \<open>d\<close> up to the cached bank and \<open>u\<close> has been printed.
\<close>

definition here :: "chip \<Rightarrow> 'w enc28j60Drv \<Rightarrow> dmsg list \<Rightarrow> 'w sys \<Rightarrow> bool" where
  "here c d u s \<longleftrightarrow> inv s \<and> exact s \<and> cfg s = c \<and> (dev s)\<lparr>bnBank := bank_0\<rparr> = d\<lparr>bnBank := bank_0\<rparr> \<and> uart s = u"

lemma hereD: "here c d u s \<Longrightarrow> inv s" "here c d u s \<Longrightarrow> exact s" "here c d u s \<Longrightarrow> cfg s = c"
  "here c d u s \<Longrightarrow> uart s = u"
  by (simp_all add: here_def)

lemma here_fields:
  assumes "here c d u s"
  shows "bank0 (dev s) = bank0_init" "bank1 (dev s) = bank1_init" "bank2 (dev s) = bank2_init"
    "bank3 (dev s) = bank3_init" "phyReg (dev s) = phyReg_init" "MxmPkSize (dev s) = 1500"
    "macSrcAddr (dev s) = mac"
  using invD(2) [OF hereD(1) [OF assms]] by (simp_all add: const_devD)

definition tot :: "('w sys \<Rightarrow> bool) \<Rightarrow> 'w sys option \<Rightarrow> bool" where
  "tot Q m \<longleftrightarrow> (\<exists>s. m = Some s \<and> Q s)"

lemma tot_write:
  assumes h: "here c d u s" and "rbits r \<noteq> 0" and "r AND 0x1F \<noteq> 0x1F"
    and f: "\<And>s'. here (reg_write (rkey r) v c) d u s' \<Longrightarrow> tot Q (f s')"
  shows "tot Q (enc28j60_writeReg r v s \<bind> f)"
proof -
  obtain s' where "enc28j60_writeReg r v s = Some s'" "inv s'" "cfg s' = reg_write (rkey r) v (cfg s)"
    "dev s' = (dev s)\<lparr>bnBank := next_bank r (bnBank (dev s))\<rparr>" "uart s' = uart s" "exact s'"
    using write_step [OF hereD(1) [OF h] exact_routed [OF hereD(2) [OF h]] assms(3)] assms(2) by metis
  moreover from this h have "here (reg_write (rkey r) v c) d u s'"
    by (simp add: here_def)
  ultimately show ?thesis using f by simp
qed

lemma tot_write_last:
  assumes "here c d u s" and "rbits r \<noteq> 0" and "r AND 0x1F \<noteq> 0x1F"
    and "\<And>s'. here (reg_write (rkey r) v c) d u s' \<Longrightarrow> Q s'"
  shows "tot Q (enc28j60_writeReg r v s)"
proof -
  have "tot Q (enc28j60_writeReg r v s \<bind> Some)"
    using assms(1-3) by (rule tot_write) (simp add: tot_def assms(4))
  then show ?thesis by simp
qed

lemma tot_read:
  assumes h: "here c d u s" and "rbits r \<noteq> 0"
    and f: "\<And>v s'. here c d u s' \<Longrightarrow> tot Q (f (v, s'))"
  shows "tot Q (enc28j60_readMacMIIReg r s \<bind> f)"
proof -
  obtain v s' where "enc28j60_readMacMIIReg r s = Some (v, s')" "inv s'" "cfg s' = cfg s"
    "dev s' = (dev s)\<lparr>bnBank := next_bank r (bnBank (dev s))\<rparr>" "uart s' = uart s" "exact s'"
    using read_step [OF hereD(1) [OF h] exact_routed [OF hereD(2) [OF h]]] assms(2) by metis
  moreover from this h have "here c d u s'"
    by (simp add: here_def)
  ultimately show ?thesis using f by simp
qed

subsection \<open>The MAC registers\<close>

lemma le_1: "\<not> (0x1B :: u8) \<le> 1"
  by (simp add: word_le_nat_alt)

lemma MxmPkSize_halves: "lo8 1500 = 0xDC" "hi8 1500 = 0x05"
  by (simp_all add: lo8_def hi8_def)

lemma macInit_here:
  assumes "here c d u s"
  shows "tot (\<lambda>s'. \<exists>a b e. here (mac_cfg a b e c) d u s') (enc2860_macInit s)"
  unfolding enc2860_macInit_def Let_def
  using assms
  by - ((simp only: here_fields reg_addrs prod.case, rule tot_read tot_write tot_write_last,
      assumption, simp add: rbits_def, (simp; fail)?)+,
    auto simp: mac_cfg_def rkey_def reg_key_def rbits_def MxmPkSize_halves le_1)

subsection \<open>Reset, clock and buffer pointers\<close>

lemma SoftReset_state:
  assumes i: "inv s"
  shows "\<exists>s'. enc28j60_SoftReset s = Some s' \<and> inv s' \<and> dev s' = dev s \<and> uart s' = uart s \<and>
    bsel (chips s') = 0 \<and> cfg s' = (cfg s)\<lparr>creg := reset_reg\<rparr> \<and> cread (chips s') = cread (chips s)"
proof -
  note d = invD [OF i]
  let ?s = "s\<lparr>hw := ds (wr [0xFF] (cs (hw s)))\<rparr>"
  have c: "chips ?s = (chips s)\<lparr>creg := reset_reg\<rparr>"
    using chip_idle_upd [OF d(3)]
    by (simp add: chipw_cmd chipw_hw tx_bytes_def chip_byte_def chip_event.simps chip_reset_def)
      (cases "chips s", simp)
  have "enc28j60_SoftReset s = Some ?s"
    using d by (simp add: enc28j60_SoftReset_def calls reg_addrs)
  moreover have "bsel (chips ?s) = 0" unfolding c bsel_def by (simp add: reset_reg_def)
  moreover from this have "inv ?s"
    using d unfolding drv_inv_def c by (simp add: bank_inv_def chip_idle_def)
  moreover have "cfg ?s = (cfg s)\<lparr>creg := reset_reg\<rparr>"
    unfolding c by (simp add: cfg_of_def) (simp add: reset_reg_def fun_eq_iff)
  moreover have "cread (chips ?s) = cread (chips s)" unfolding c by simp
  ultimately show ?thesis by (intro exI [of _ ?s]) simp
qed

lemma rde_bank0:
  assumes "inv s" and "rbits r = 0"
  shows "dev (rde_st r s) = dev s" and "uart (rde_st r s) = uart s" and "cfg (rde_st r s) = cfg s"
    and "bsel (chips (rde_st r s)) = 0"
  using assms bank0_routed [OF assms]
  by (simp_all add: rde_st_eqs next_bank_bank0 acc_cfg bsel_acc)

lemma wait_CLKRDY_state:
  assumes w: "wait_CLKRDY s = Some s'" and i: "inv s"
  shows "inv s' \<and> dev s' = dev s \<and> uart s' = uart s \<and> cfg s' = cfg s \<and> bsel (chips s') = 0"
proof -
  have "(\<lambda>s s'. inv s \<longrightarrow> inv s' \<and> dev s' = dev s \<and> uart s' = uart s \<and> cfg s' = cfg s \<and> bsel (chips s') = 0) s s'"
  proof (rule wait_CLKRDY.raw_induct [OF _ w], intro impI)
    fix f :: "'w sys \<Rightarrow> 'w sys option" and s s'
    assume IH: "\<And>s s'. f s = Some s' \<Longrightarrow>
        inv s \<longrightarrow> inv s' \<and> dev s' = dev s \<and> uart s' = uart s \<and> cfg s' = cfg s \<and> bsel (chips s') = 0"
      and eq: "do { (v, s) \<leftarrow> enc28j60_readEtherReg (ESTAT (commonRegs_b0 (bank0 (dev s)))) s;
        if v AND 1 = 0 then f s else Some s } = Some s'"
      and i: "inv s"
    have r: "enc28j60_readEtherReg (ESTAT (commonRegs_b0 (bank0 (dev s)))) s = Some (rde_val 0x1D s, rde_st 0x1D s)"
      using invD(2) [OF i] by (simp add: reg_addrs rde_st_eqs [OF i])
    have b: "rbits 0x1D = 0" by (simp add: rbits_def)
    note f = rde_bank0 [OF i b]
    show "inv s' \<and> dev s' = dev s \<and> uart s' = uart s \<and> cfg s' = cfg s \<and> bsel (chips s') = 0"
      using eq IH [of "rde_st 0x1D s" s'] inv_rde_st [OF i] f by (auto simp: r split: if_splits)
  qed
  with i show ?thesis by simp
qed

lemma buf_halves:
  "lo8 0x17FF = 0xFF" "hi8 0x17FF = 0x17" "lo8 0x1800 = 0x00" "hi8 0x1800 = 0x18"
  "lo8 0x1FFF = 0xFF" "hi8 0x1FFF = 0x1F" "lo8 0 = 0" "hi8 0 = 0"
  by (simp_all add: lo8_def hi8_def)

text \<open>In bank 0 the cache need not be exact, and is not afterwards.\<close>

definition here0 :: "chip \<Rightarrow> 'w enc28j60Drv \<Rightarrow> dmsg list \<Rightarrow> 'w sys \<Rightarrow> bool" where
  "here0 c d u s \<longleftrightarrow> inv s \<and> bsel (chips s) = 0 \<and> cfg s = c \<and> dev s = d \<and> uart s = u"

definition hereB :: "chip \<Rightarrow> 'w enc28j60Drv \<Rightarrow> dmsg list \<Rightarrow> 'w sys \<Rightarrow> bool" where
  "hereB c d u s \<longleftrightarrow> inv s \<and> cfg s = c \<and> dev s = d \<and> uart s = u"

lemma hereB_fields:
  assumes "hereB c d u s"
  shows "bank0 (dev s) = bank0_init" "rxBufStartAddr (dev s) = 0x0000" "rxBufEndAddr (dev s) = 0x17FF"
    "txBufStartAddr (dev s) = 0x1800" "txBufEndAddr (dev s) = 0x1FFF" "rxPkt (dev s) = rxPkt d"
  using invD(2) [of s] assms by (simp_all add: const_devD hereB_def)

lemma tot_write0:
  assumes h: "hereB c d u s" and "rbits r = 0" and "r AND 0x1F \<noteq> 0x1F"
    and f: "\<And>s'. hereB (reg_write (rkey r) v c) d u s' \<Longrightarrow> bsel (chips s') = 0 \<Longrightarrow> tot Q (f s')"
  shows "tot Q (enc28j60_writeReg r v s \<bind> f)"
proof -
  have i: "inv s" using h by (simp add: hereB_def)
  obtain s' where "enc28j60_writeReg r v s = Some s'" "inv s'" "cfg s' = reg_write (rkey r) v (cfg s)"
    "dev s' = (dev s)\<lparr>bnBank := next_bank r (bnBank (dev s))\<rparr>" "uart s' = uart s" "bsel (chips s') = rbits r"
    using write_step [OF i bank0_routed [OF i assms(2)] assms(3)] by metis
  moreover from this h assms(2) have "hereB (reg_write (rkey r) v c) d u s'"
    by (simp add: hereB_def next_bank_bank0)
  ultimately show ?thesis using f assms(2) by simp
qed

lemma tot_write0_last:
  assumes "hereB c d u s" and "rbits r = 0" and "r AND 0x1F \<noteq> 0x1F"
    and "\<And>s'. here0 (reg_write (rkey r) v c) d u s' \<Longrightarrow> Q s'"
  shows "tot Q (enc28j60_writeReg r v s)"
proof -
  have "tot Q (enc28j60_writeReg r v s \<bind> Some)"
    using assms(1-3) by (rule tot_write0) (simp add: tot_def assms(4) here0_def hereB_def)
  then show ?thesis by simp
qed

lemma strtDr_buffers_here:
  assumes "hereB c d u s"
  shows "tot (here0 (buf_cfg (ptrAddr (rxPkt d)) c) d u) (strtDr_buffers s)"
  unfolding strtDr_buffers_def
  using assms
  by - ((simp only: hereB_fields reg_addrs, rule tot_write0 tot_write0_last, assumption,
      simp add: rbits_def, simp)+,
    simp add: buf_cfg_def rkey_def reg_key_def rbits_def buf_halves le_1)

subsection \<open>PHY access on the register file\<close>

lemma readPhy_here:
  assumes i: "inv s" and r: "routed log 0x94 s" and e: "enc28j60_readPhyReg a s = Some (v, s')"
  shows "\<exists>x z. here (mii_read a x z (cfg s)) (dev s) (uart s) s' \<and> bnBank (dev s') = bank_2"
proof -
  note f = readPhyReg_state [OF i e]
  from f(5) obtain x y z where c: "creg (chips s') = (creg (chips s))(0x94 := a, 0x92 := x OR 1,
      0x1F := y, 0x92 := z AND NOT 1)" and y: "y AND NOT 3 = creg (chips s) 0x1F AND NOT 3"
    using r by (auto simp: mii_bank_def reg_key_def)
  have "cfg s' = mii_read a x z (cfg s)"
    using f(6-8) y r c
    by (intro chip_eqI) (auto simp: cfg_of_def mii_read_def reg_write_def or1_and1 fun_eq_iff)
  moreover have "exact s'" by (simp add: exact_def f)
  ultimately show ?thesis using f(1-3) by (auto simp: here_def)
qed

lemma readPhy_astray:
  assumes i: "inv s" and b: "bnBank (dev s) = bank_2" "bsel (chips s) = 0"
    and e: "enc28j60_readPhyReg a s = Some (v, s')"
  shows "\<exists>x z. here (mii_astray a x z (cfg s)) (dev s) (uart s) s' \<and> bnBank (dev s') = bank_2"
proof -
  have r: "\<not> routed log 0x94 s" using b by (simp add: routed_def bank2_banks rbits_def)
  note f = readPhyReg_state [OF i e]
  from f(5) obtain x y z where c: "creg (chips s') = (creg (chips s))(0x14 := a, 0x12 := x OR 1,
      0x1F := y, 0x92 := z AND NOT 1)" and y: "y AND NOT 3 = creg (chips s) 0x1F AND NOT 3"
    using r by (auto simp: mii_bank_def reg_key_def)
  have "cfg s' = mii_astray a x z (cfg s)"
    using f(6-8) y r c
    by (intro chip_eqI) (auto simp: cfg_of_def mii_astray_def reg_write_def or1_and1 fun_eq_iff)
  moreover have "exact s'" by (simp add: exact_def f)
  ultimately show ?thesis using f(1-3) by (auto simp: here_def)
qed

lemma writePhy_here:
  assumes i: "inv s" and r: "routed log 0x94 s" and e: "enc28j60_writePhyReg a v s = Some s'"
  shows "here (mii_write a v (cfg s)) (dev s) (uart s) s' \<and> bnBank (dev s') = bank_3"
proof -
  note f = writePhyReg_state [OF i e]
  from f(5) obtain y where c: "creg (chips s') = (creg (chips s))(0x94 := a, 0x96 := lo8 v,
      0x97 := hi8 v, 0x1F := y)" and y: "y AND NOT 3 = creg (chips s) 0x1F AND NOT 3"
    using r by (auto simp: mii_bank_def reg_key_def)
  have "cfg s' = mii_write a v (cfg s)"
    using f(6-8) y r c
    by (intro chip_eqI) (auto simp: cfg_of_def mii_write_def reg_write_def fun_eq_iff)
  moreover have "exact s'" by (simp add: exact_def f)
  ultimately show ?thesis using f(1-3) by (auto simp: here_def)
qed

subsection \<open>The start-up sequence\<close>

text \<open>Identification: four routed PHY reads.\<close>

lemma here_read:
  assumes h: "here c d u s" and e: "enc28j60_readPhyReg a s = Some (v, s')"
  shows "\<exists>x z. here (mii_read a x z c) d u s' \<and> bnBank (dev s') = bank_2"
  using readPhy_here [OF hereD(1) [OF h] exact_routed [OF hereD(2) [OF h]] e] h
  by (auto simp: here_def)

lemma here_write:
  assumes h: "here c d u s" and e: "enc28j60_writePhyReg a v s = Some s'"
  shows "here (mii_write a v c) d u s' \<and> bnBank (dev s') = bank_3"
  using writePhy_here [OF hereD(1) [OF h] exact_routed [OF hereD(2) [OF h]] e] h
  by (auto simp: here_def)

lemma phyInit_here:
  assumes h: "here0 c d u s" and b: "bnBank d = bank_2" and e: "enc2860_phyInit s = Some s'"
  shows "\<exists>x0 z0 x1 z1 v w. here (mii_write 0x12 (w OR 0x12) (mii_read 0x12 x1 z1
    (mii_write 0x00 (v OR 0x100) (mii_astray 0x00 x0 z0 c)))) d u s' \<and> bnBank (dev s') = bank_3"
proof -
  have i: "inv s" and k: "bnBank (dev s) = bank_2" "bsel (chips s) = 0" "cfg s = c" "dev s = d" "uart s = u"
    using h b by (simp_all add: here0_def)
  have p: "phyReg (dev s) = phyReg_init" using invD(2) [OF i] by (simp add: const_devD)
  from e obtain v s1 where r1: "enc28j60_readPhyReg 0 s = Some (v, s1)"
    by (auto simp: enc2860_phyInit_def bind_eq_Some_conv p reg_addrs)
  from readPhy_astray [OF i k(1,2) r1] k(3-5) obtain x0 z0 where h1: "here (mii_astray 0 x0 z0 c) d u s1"
    by auto
  from e r1 obtain s2 where w1: "enc28j60_writePhyReg 0 (v OR 0x100) s1 = Some s2"
    by (auto simp: enc2860_phyInit_def bind_eq_Some_conv p here_fields [OF h1] reg_addrs)
  note h2 = here_write [OF h1 w1, THEN conjunct1]
  from e r1 w1 obtain w s3 where r2: "enc28j60_readPhyReg 0x12 s2 = Some (w, s3)"
    by (auto simp: enc2860_phyInit_def bind_eq_Some_conv p here_fields [OF h1] here_fields [OF h2] reg_addrs)
  from here_read [OF h2 r2] obtain x1 z1 where
    h3: "here (mii_read 0x12 x1 z1 (mii_write 0 (v OR 0x100) (mii_astray 0 x0 z0 c))) d u s3"
    by auto
  from e r1 w1 r2 have w2: "enc28j60_writePhyReg 0x12 (w OR 0x12) s3 = Some s'"
    by (simp add: enc2860_phyInit_def p here_fields [OF h1] here_fields [OF h2] here_fields [OF h3] reg_addrs)
  from here_write [OF h3 w2] show ?thesis by blast
qed

text \<open>The tail: receive filter, interrupt enables, auto-increment, receive enable.\<close>

definition strtDr_tail :: "'w sys \<Rightarrow> 'w sys option" where
  "strtDr_tail s = do {
     s \<leftarrow> enc28j60_rxSetFilters
            (rx_filter_val RX_UNICAST OR rx_filter_val RX_CRC_CHECK OR rx_filter_val RX_BROADCAST) s;
     s \<leftarrow> enc28j60_writeReg (EIE (commonRegs_b0 (bank0 (dev s)))) 0xFF s;
     s \<leftarrow> enc28j60_BitFieldSet (ECON2 (commonRegs_b0 (bank0 (dev s)))) (push_bit 7 1) s;
     enc28j60_BitFieldSet (ECON1 (commonRegs_b0 (bank0 (dev s)))) (push_bit 2 1) s
   }"

lemma strtDr_tail_here:
  assumes h: "here c d u s"
  shows "\<exists>s'. strtDr_tail s = Some s' \<and>
    here0 (reg_set 0x1F 0x04 (reg_set 0x1E 0x80 (reg_write 0x1B 0xFF (reg_write 0x58 0xA1 c))))
      (d\<lparr>bnBank := bank_1\<rparr>) u s'"
proof -
  have t: "tot (\<lambda>s'. here (reg_write 0x58 0xA1 c) d u s') (enc28j60_writeReg 0x58 0xA1 s)"
    using h by (rule tot_write_last) (simp_all add: rbits_def rkey_def reg_key_def)
  then obtain s1 where w: "enc28j60_writeReg 0x58 0xA1 s = Some s1" and h1: "here (reg_write 0x58 0xA1 c) d u s1"
    by (auto simp: tot_def)
  have i1: "inv s1" by (rule hereD(1) [OF h1])
  have "dev s1 = (dev s)\<lparr>bnBank := bank_1\<rparr>"
    using w wr_st_eqs(1,2) [OF hereD(1) [OF h], of "0x58" "0xA1"]
    by (simp add: next_bank_def convertRegValToBank_cases rbits_def)
  moreover have d0: "(dev s)\<lparr>bnBank := bank_0\<rparr> = d\<lparr>bnBank := bank_0\<rparr>" using h by (simp add: here_def)
  ultimately have d1: "dev s1 = d\<lparr>bnBank := bank_1\<rparr>"
    using bnBank_cong(1) [OF d0] by simp
  define s2 where "s2 = wr_st 0x1B 0xFF s1"
  define s3 where "s3 = set_st 0x1E 0x80 s2"
  define s4 where "s4 = set_st 0x1F 0x04 s3"
  have rb: "rbits 0x1B = 0" "rbits 0x1E = 0" "rbits 0x1F = 0" by (simp_all add: rbits_def)
  note a2 = bank0_write [OF i1 rb(1), of "0xFF", folded s2_def]
  have i2: "inv s2" using a2(5) by simp
  note a3 = bank0_set [OF i2 rb(2), of "0x80", folded s3_def]
  have i3: "inv s3" using a3(5) by simp
  note a4 = bank0_set [OF i3 rb(3), of "0x04", folded s4_def]
  have i4: "inv s4" using a4(5) by simp
  have "strtDr_tail s = Some s4"
    using a2 a3 a4 here_fields [OF h] here_fields [OF h1]
    by (simp add: strtDr_tail_def enc28j60_rxSetFilters_def reg_addrs w)
  moreover have "cfg s4 = reg_set 0x1F 0x04 (reg_set 0x1E 0x80 (reg_write 0x1B 0xFF (reg_write 0x58 0xA1 c)))"
    using hereD(3) [OF h1] by (simp add: a4(4) a3(4) a2(4) cfg_of_set cfg_of_write cfg_of_c_sel rkey_def rb reg_key_def)
  moreover have "bsel (chips s4) = 0"
    by (simp add: a4(4) bsel_reg_set bsel_c_sel0)
  ultimately show ?thesis
    using i4 a2 a3 a4 d1 hereD(4) [OF h1] by (auto simp: here0_def)
qed

lemma call_Delay_state:
  assumes i: "inv s"
  shows "call_Delay n s = Some (s\<lparr>hw := dly n (hw s)\<rparr>)" and "inv (s\<lparr>hw := dly n (hw s)\<rparr>)"
    and "chips (s\<lparr>hw := dly n (hw s)\<rparr>) = chips s"
  using invD [OF i] i by (simp_all add: calls drv_inv_def chipw_hw)

lemma getPhy_reads:
  assumes "phyReg (dev s) = phyReg_init"
  shows "enc28j60_getPhyRevNumber s = Some (v, s') \<Longrightarrow> \<exists>w. enc28j60_readPhyReg 3 s = Some (w, s')"
    and "enc28j60_getPhyPartNumber s = Some (v', s') \<Longrightarrow> \<exists>w. enc28j60_readPhyReg 3 s = Some (w, s')"
    and "enc28j60_getPhyIdentifier s = Some (v'', s') \<Longrightarrow> \<exists>w s1 w'. enc28j60_readPhyReg 2 s = Some (w, s1) \<and>
      enc28j60_readPhyReg (PHID2 (phyReg (dev s1))) s1 = Some (w', s')"
  using assms
  by (auto simp: enc28j60_getPhyRevNumber_def enc28j60_getPhyPartNumber_def enc28j60_getPhyIdentifier_def
      bind_eq_Some_conv reg_addrs)

text \<open>From reset to the identification of the PHY.\<close>

lemma strtDr_ident:
  assumes i: "inv s" and b: "bnBank (dev s) \<noteq> bank_2" and e: "enc28j60_strtDr s = Some s'"
  shows "\<exists>t ps. length ps = 4 \<and> bnBank (dev t) = bank_2 \<and>
    here (fold (\<lambda>(a, x, z). mii_read a x z) (zip [3, 3, 2, 3] ps) ((cfg s)\<lparr>creg := reset_reg\<rparr>)) (dev s) (uart s) t \<and>
    strtDr_buffers t \<bind> enc2860_phyInit \<bind> enc2860_macInit \<bind> strtDr_tail = Some s'"
proof -
  obtain s1 where r1: "enc28j60_SoftReset s = Some s1" and f1: "inv s1" "dev s1 = dev s" "uart s1 = uart s"
    "cfg s1 = (cfg s)\<lparr>creg := reset_reg\<rparr>"
    using SoftReset_state [OF i] by blast
  note f2 = call_Delay_state [OF f1(1), of 1]
  let ?s2 = "s1\<lparr>hw := dly 1 (hw s1)\<rparr>"
  from e obtain s3 where r3: "wait_CLKRDY ?s2 = Some s3"
    by (auto simp: enc28j60_strtDr_def enc28j60_sftRst_def r1 f2 bind_eq_Some_conv)
  from wait_CLKRDY_state [OF r3 f2(2)] f1 f2(3) have f3: "inv s3" "dev s3 = dev s" "uart s3 = uart s"
    "cfg s3 = (cfg s)\<lparr>creg := reset_reg\<rparr>" by simp_all
  have p3: "phyReg (dev s3) = phyReg_init" using invD(2) [OF f3(1)] by (simp add: const_devD)
  note pre = enc28j60_strtDr_def enc28j60_sftRst_def r1 f2(1) r3
  from e obtain u4 s4 where q4: "enc28j60_getPhyRevNumber s3 = Some (u4, s4)"
    by (auto simp: pre bind_eq_Some_conv)
  then obtain v4 where r4: "enc28j60_readPhyReg 3 s3 = Some (v4, s4)" using getPhy_reads(1) [OF p3] by blast
  have "routed log 0x94 s3" using b f3(2) by (intro routed_other) (simp add: bank2_banks)
  from readPhy_here [OF f3(1) this r4] f3 obtain x4 z4 where
    h4: "here (mii_read 3 x4 z4 ((cfg s)\<lparr>creg := reset_reg\<rparr>)) (dev s) (uart s) s4" by auto
  from e obtain u5 s5 where q5: "enc28j60_getPhyPartNumber s4 = Some (u5, s5)"
    by (auto simp: pre q4 bind_eq_Some_conv)
  then obtain v5 where r5: "enc28j60_readPhyReg 3 s4 = Some (v5, s5)"
    using getPhy_reads(2) [OF here_fields(5) [OF h4]] by blast
  from here_read [OF h4 r5] obtain x5 z5 where
    h5: "here (mii_read 3 x5 z5 (mii_read 3 x4 z4 ((cfg s)\<lparr>creg := reset_reg\<rparr>))) (dev s) (uart s) s5" by auto
  from e obtain u7 s7 where q7: "enc28j60_getPhyIdentifier s5 = Some (u7, s7)"
    by (auto simp: pre q4 q5 bind_eq_Some_conv)
  then obtain v6 s6 v7 where r6: "enc28j60_readPhyReg 2 s5 = Some (v6, s6)"
    and r7: "enc28j60_readPhyReg (PHID2 (phyReg (dev s6))) s6 = Some (v7, s7)"
    using getPhy_reads(3) [OF here_fields(5) [OF h5]] by blast
  from here_read [OF h5 r6] obtain x6 z6 where
    h6: "here (mii_read 2 x6 z6 (mii_read 3 x5 z5 (mii_read 3 x4 z4 ((cfg s)\<lparr>creg := reset_reg\<rparr>)))) (dev s) (uart s) s6"
    by auto
  from r7 have r7': "enc28j60_readPhyReg 3 s6 = Some (v7, s7)" by (simp add: here_fields [OF h6] reg_addrs)
  from here_read [OF h6 r7'] obtain x7 z7 where "bnBank (dev s7) = bank_2"
    and h7: "here (mii_read 3 x7 z7 (mii_read 2 x6 z6 (mii_read 3 x5 z5 (mii_read 3 x4 z4
      ((cfg s)\<lparr>creg := reset_reg\<rparr>))))) (dev s) (uart s) s7"
    by auto
  moreover have "strtDr_buffers s7 \<bind> enc2860_phyInit \<bind> enc2860_macInit \<bind> strtDr_tail = Some s'"
    using e by (simp add: pre q4 q5 q7 strtDr_tail_def [abs_def])
  ultimately show ?thesis
    by (intro exI [of _ s7] exI [of _ "[(x4, z4), (x5, z5), (x6, z6), (x7, z7)]"]) simp
qed

lemma tot_Some: "tot Q m \<Longrightarrow> m = Some s \<Longrightarrow> Q s"
  by (simp add: tot_def)

lemma strtDr_state:
  assumes i: "inv s" and b: "bnBank (dev s) \<noteq> bank_2" and e: "enc28j60_strtDr s = Some s'"
  shows "\<exists>xs. 4 \<le> length (micmd xs) \<and> here0 (start_cfg xs (ptrAddr (rxPkt (dev s))) (cfg s)) ((dev s)\<lparr>bnBank := bank_1\<rparr>) (uart s) s'"
proof -
  let ?p = "ptrAddr (rxPkt (dev s))" and ?c = "(cfg s)\<lparr>creg := reset_reg\<rparr>"
  obtain t ps where l: "length ps = 4" and bt: "bnBank (dev t) = bank_2"
    and h: "here (fold (\<lambda>(a, x, z). mii_read a x z) (zip [3, 3, 2, 3] ps) ?c) (dev s) (uart s) t"
    (is "here ?c1 _ _ _")
    and r: "strtDr_buffers t \<bind> enc2860_phyInit \<bind> enc2860_macInit \<bind> strtDr_tail = Some s'"
    using strtDr_ident [OF i b e] by blast
  define d where "d = dev t"
  have dev0: "d\<lparr>bnBank := bank_0\<rparr> = (dev s)\<lparr>bnBank := bank_0\<rparr>" using h by (simp add: here_def d_def)
  have dt: "d\<lparr>bnBank := b\<rparr> = (dev s)\<lparr>bnBank := b\<rparr>" "rxPkt d = rxPkt (dev s)" for b
    by (fact bnBank_cong [OF dev0])+
  have "hereB ?c1 d (uart s) t" using h by (simp add: here_def hereB_def d_def)
  from strtDr_buffers_here [OF this] r obtain t1 where r1: "strtDr_buffers t = Some t1"
    and h1: "here0 (buf_cfg ?p ?c1) d (uart s) t1"
    by (auto simp: tot_def dt)
  from r r1 obtain t2 where r2: "enc2860_phyInit t1 = Some t2" by (auto simp: bind_eq_Some_conv)
  have bd: "bnBank d = bank_2" using bt by (simp add: d_def)
  from phyInit_here [OF h1 bd r2] obtain x0 z0 x1 z1 v w where
    h2: "here (mii_write 0x12 (w OR 0x12) (mii_read 0x12 x1 z1 (mii_write 0x00 (v OR 0x100)
      (mii_astray 0x00 x0 z0 (buf_cfg ?p ?c1))))) d (uart s) t2"
    by blast
  from macInit_here [OF h2] obtain t3 a b e where r3: "enc2860_macInit t2 = Some t3"
    and h3: "here (mac_cfg a b e (mii_write 0x12 (w OR 0x12) (mii_read 0x12 x1 z1 (mii_write 0x00 (v OR 0x100)
      (mii_astray 0x00 x0 z0 (buf_cfg ?p ?c1)))))) d (uart s) t3"
    by (auto simp: tot_def)
  let ?xs = "\<lparr>micmd = ps @ [(x0, z0), (x1, z1)], macon = (a, b, e), phcon1 = v, phie = w\<rparr>"
  from strtDr_tail_here [OF h3] r r1 r2 r3 have
    "here0 (start_cfg ?xs ?p (cfg s)) (d\<lparr>bnBank := bank_1\<rparr>) (uart s) s'"
    using l by (auto simp: start_cfg_def phy_cfg_def ident_cfg_def nth_append)
  then show ?thesis using l by (intro exI [of _ ?xs]) (simp add: dt)
qed

subsection \<open>The invariant along start-up\<close>

lemma ok_writeReg:
  assumes "inv s" and "r AND 0x1F \<noteq> 0x1F" and "\<And>s'. inv s' \<Longrightarrow> tot inv (f s')"
  shows "tot inv (enc28j60_writeReg r v s \<bind> f)"
  using assms by (simp add: wr_st_eqs(1) inv_wr_st)

lemma ok_readMac:
  assumes "inv s" and "\<And>v s'. inv s' \<Longrightarrow> tot inv (f (v, s'))"
  shows "tot inv (enc28j60_readMacMIIReg r s \<bind> f)"
  using assms by (simp add: rdm_st_eqs(1) inv_rdm_st)

lemma ok_BitFieldSet:
  assumes "inv s" and "r AND 0x1F = 0x1F \<longrightarrow> v AND 3 = 0" and "\<And>s'. inv s' \<Longrightarrow> tot inv (f s')"
  shows "tot inv (enc28j60_BitFieldSet r v s \<bind> f)"
  using assms by (simp add: set_st_eqs(1) inv_set_st)

lemma ok_Delay: "inv s \<Longrightarrow> (\<And>s'. inv s' \<Longrightarrow> tot inv (f s')) \<Longrightarrow> tot inv (call_Delay n s \<bind> f)"
  by (simp add: call_Delay_state)

lemma ok_sftRst: "inv s \<Longrightarrow> (\<And>s'. inv s' \<Longrightarrow> tot inv (f s')) \<Longrightarrow> tot inv (enc28j60_sftRst s \<bind> f)"
  using SoftReset_state [of s] by (auto simp: enc28j60_sftRst_def)

lemma tot_last: "tot inv (m \<bind> Some) \<Longrightarrow> tot inv m"
  by simp

lemma tot_seq: "tot inv m \<Longrightarrow> (\<And>s. inv s \<Longrightarrow> tot inv (f s)) \<Longrightarrow> tot inv (m \<bind> f)"
  by (auto simp: tot_def)

lemma inv_fields:
  "inv s \<Longrightarrow> bank0 (dev s) = bank0_init" "inv s \<Longrightarrow> bank1 (dev s) = bank1_init"
  "inv s \<Longrightarrow> bank2 (dev s) = bank2_init" "inv s \<Longrightarrow> bank3 (dev s) = bank3_init"
  by (rule const_devD [OF invD(2)], assumption)+

lemma ok_macInit: "inv s \<Longrightarrow> tot inv (enc2860_macInit s)"
  unfolding enc2860_macInit_def Let_def
  apply ((simp only: prod.case inv_fields reg_addrs, (rule ok_readMac, assumption | rule ok_writeReg, assumption, simp))+)
  apply (rule tot_last, rule ok_writeReg, assumption, simp_all add: inv_fields reg_addrs)
  by (simp add: tot_def)

lemma ok_buffers: "inv s \<Longrightarrow> tot inv (strtDr_buffers s)"
  unfolding strtDr_buffers_def
  apply ((simp only: inv_fields reg_addrs, (rule ok_writeReg, assumption, simp))+)
  apply (rule tot_last, rule ok_writeReg, assumption, simp_all add: inv_fields reg_addrs)
  by (simp add: tot_def)

lemma ok_tail: "inv s \<Longrightarrow> tot inv (strtDr_tail s)"
  unfolding strtDr_tail_def enc28j60_rxSetFilters_def
  apply (simp only: inv_fields reg_addrs, rule ok_writeReg, assumption, simp)
  apply (simp only: inv_fields reg_addrs, rule ok_writeReg, assumption, simp)
  apply (simp only: inv_fields reg_addrs, rule ok_BitFieldSet, assumption, simp)
  apply (rule tot_last, rule ok_BitFieldSet, assumption, simp_all add: inv_fields reg_addrs)
  by (simp add: tot_def)

lemma strtDr_split:
  "enc28j60_strtDr s = do {
     s \<leftarrow> enc28j60_sftRst s; s \<leftarrow> call_Delay 1 s; s \<leftarrow> wait_CLKRDY s;
     (_, s) \<leftarrow> enc28j60_getPhyRevNumber s; (_, s) \<leftarrow> enc28j60_getPhyPartNumber s;
     (_, s) \<leftarrow> enc28j60_getPhyIdentifier s;
     s \<leftarrow> strtDr_buffers s; s \<leftarrow> enc2860_phyInit s; s \<leftarrow> enc2860_macInit s; strtDr_tail s }"
  by (simp add: enc28j60_strtDr_def strtDr_tail_def)

lemma getPhy_inv:
  assumes "inv s"
  shows "enc28j60_getPhyRevNumber s = Some (v, s') \<Longrightarrow> inv s'"
    and "enc28j60_getPhyPartNumber s = Some (v', s') \<Longrightarrow> inv s'"
    and "enc28j60_getPhyIdentifier s = Some (v'', s') \<Longrightarrow> inv s'"
    and "enc2860_phyInit s = Some s' \<Longrightarrow> inv s'"
  using assms
  by (auto simp: enc28j60_getPhyRevNumber_def enc28j60_getPhyPartNumber_def enc28j60_getPhyIdentifier_def
      enc2860_phyInit_def bind_eq_Some_conv Let_def dest!: readPhyReg_state(1) [rotated] writePhyReg_state(1) [rotated])

lemma strtDr_inv:
  assumes i: "inv s" and e: "enc28j60_strtDr s = Some s'"
  shows "inv s'"
proof -
  obtain s1 where s1: "enc28j60_sftRst s = Some s1" "inv s1"
    using SoftReset_state [OF i] by (auto simp: enc28j60_sftRst_def)
  let ?s2 = "s1\<lparr>hw := dly 1 (hw s1)\<rparr>"
  note s2 = call_Delay_state [OF s1(2), of 1]
  from e s1 s2 obtain s3 v4 s4 v5 s5 v6 s6 t1 t2 t3 where
    w: "wait_CLKRDY ?s2 = Some s3" and g: "enc28j60_getPhyRevNumber s3 = Some (v4, s4)"
    "enc28j60_getPhyPartNumber s4 = Some (v5, s5)" "enc28j60_getPhyIdentifier s5 = Some (v6, s6)"
    and t: "strtDr_buffers s6 = Some t1" "enc2860_phyInit t1 = Some t2" "enc2860_macInit t2 = Some t3"
    "strtDr_tail t3 = Some s'"
    by (auto simp: strtDr_split bind_eq_Some_conv)
  have "inv s3" using wait_CLKRDY_state [OF w s2(2)] by (rule conjunct1)
  then have "inv s6" using getPhy_inv g by metis
  then have "inv t1" using tot_Some [OF ok_buffers t(1)] by blast
  then have "inv t2" using getPhy_inv(4) t(2) by blast
  then have "inv t3" using tot_Some [OF ok_macInit t(3)] by blast
  then show ?thesis using tot_Some [OF ok_tail t(4)] by blast
qed

end

section \<open>What the registers hold after start-up\<close>

lemma creg_reg_write: "creg (reg_write k v c) = (creg c)(k := v)"
  by (simp add: reg_write_def)

lemma creg_mii: "creg (mii_read a x z c) = (creg c)(0x94 := a, 0x92 := z AND NOT 1)"
  "creg (mii_astray a x z c) = (creg c)(0x14 := a, 0x12 := x OR 1, 0x92 := z AND NOT 1)"
  "creg (mii_write a v c) = (creg c)(0x94 := a, 0x96 := lo8 v, 0x97 := hi8 v)"
  by (simp_all add: mii_read_def mii_astray_def mii_write_def creg_reg_write)

lemma phy_mii:
  "phyr (mii_read a x z c) = phyr c @ [a]" "phyw (mii_read a x z c) = phyw c"
  "phyr (mii_astray a x z c) = phyr c" "phyw (mii_astray a x z c) = phyw c"
  "phyr (mii_write a v c) = phyr c" "phyw (mii_write a v c) = phyw c @ [(a, v)]"
  by (simp_all add: mii_read_def mii_astray_def mii_write_def reg_write_def or1_and1)

lemma creg_ident: "k \<noteq> 0x92 \<Longrightarrow> k \<noteq> 0x94 \<Longrightarrow> creg (ident_cfg xs c) k = creg c k"
proof -
  assume k: "k \<noteq> 0x92" "k \<noteq> 0x94"
  have "creg (fold (\<lambda>(a, x, z). mii_read a x z) ps c) k = creg c k" for ps
    using k by (induction ps arbitrary: c) (auto simp: creg_mii)
  then show ?thesis by (simp add: ident_cfg_def)
qed

lemma phy_ident:
  assumes "4 \<le> length (micmd xs)"
  shows "phyr (ident_cfg xs c) = phyr c @ [3, 3, 2, 3]" and "phyw (ident_cfg xs c) = phyw c"
proof -
  have "phyr (fold (\<lambda>(a, x, z). mii_read a x z) (zip as ps) c) = phyr c @ as"
    "phyw (fold (\<lambda>(a, x, z). mii_read a x z) (zip as ps) c) = phyw c"
    if "length as = length ps" for as ps
    using that by (induction as ps arbitrary: c rule: list_induct2) (auto simp: phy_mii)
  from this [of "[3, 3, 2, 3]" "take 4 (micmd xs)"] assms
  show "phyr (ident_cfg xs c) = phyr c @ [3, 3, 2, 3]" "phyw (ident_cfg xs c) = phyw c"
    by (simp_all add: ident_cfg_def)
qed

lemma phy_bank0_writes:
  "phyr (buf_cfg p c) = phyr c" "phyw (buf_cfg p c) = phyw c"
  "phyr (mac_cfg a b e c) = phyr c" "phyw (mac_cfg a b e c) = phyw c"
  by (simp_all add: buf_cfg_def mac_cfg_def reg_write_def)

lemma creg_start:
  "creg (start_cfg xs p c) 0x00 = lo8 p" "creg (start_cfg xs p c) 0x01 = hi8 p"
  "creg (start_cfg xs p c) 0x04 = 0x00" "creg (start_cfg xs p c) 0x05 = 0x18"
  "creg (start_cfg xs p c) 0x06 = 0xFF" "creg (start_cfg xs p c) 0x07 = 0x1F"
  "creg (start_cfg xs p c) 0x08 = 0x00" "creg (start_cfg xs p c) 0x09 = 0x00"
  "creg (start_cfg xs p c) 0x0A = 0xFF" "creg (start_cfg xs p c) 0x0B = 0x17"
  "creg (start_cfg xs p c) 0x0C = 0xFF" "creg (start_cfg xs p c) 0x0D = 0x17"
  "creg (start_cfg xs p c) 0x1B = 0xFF" "creg (start_cfg xs p c) 0x1E = 0x80"
  "creg (start_cfg xs p c) 0x1F = 0x04" "creg (start_cfg xs p c) 0x58 = 0xA1"
  "creg (start_cfg xs p c) 0x8A = 0xDC" "creg (start_cfg xs p c) 0x8B = 0x05"
  "map (creg (start_cfg xs p c)) [0xC1, 0xC0, 0xC3, 0xC2, 0xC5, 0xC4] = mac"
  by (simp_all add: start_cfg_def Let_def split_beta reg_set_def mac_mii_key_def creg_reg_write
      mac_cfg_def phy_cfg_def creg_mii buf_cfg_def creg_ident reset_reg_def mac_def)

lemma phy_start:
  assumes "4 \<le> length (micmd xs)"
  shows "phyr (start_cfg xs p c) = phyr c @ [3, 3, 2, 3, 0x12]"
    and "phyw (start_cfg xs p c) = phyw c @ [(0x00, phcon1 xs OR 0x100), (0x12, phie xs OR 0x12)]"
  using assms
  by (simp_all add: start_cfg_def Let_def split_beta reg_set_def mac_mii_key_def phy_bank0_writes
      phy_cfg_def phy_mii phy_ident) (simp_all add: reg_write_def phy_bank0_writes phy_mii phy_ident)

context ready_bus
begin

lemma wait_MISTAT_ready:
  assumes i: "inv s" and r: "routed log 0xCA s"
  shows "\<exists>s'. wait_MISTAT s = Some s' \<and> inv s'"
proof -
  have m: "MISTAT (bank3 (dev s)) = 0xCA" using invD(2) [OF i] by (simp add: reg_addrs)
  have "wait_MISTAT s = Some (rdm_st 0xCA s)"
    using mistat_ready [OF i r] by (subst wait_MISTAT.simps) (simp add: m rdm_st_eqs [OF i])
  with inv_rdm_st [OF i] show ?thesis by blast
qed

lemma readPhyReg_ready:
  assumes i: "inv s"
  shows "\<exists>v s'. enc28j60_readPhyReg a s = Some (v, s')"
proof -
  define s1 where "s1 = wr_st 0x94 a s"
  note f1 = write_MIREGADR [OF i, of a, folded s1_def]
  define s2 where "s2 = rdm_st 0x92 s1"
  define s3 where "s3 = wr_st 0x92 (rdm_val 0x92 s1 OR 1) s2"
  define s4 where "s4 = s3\<lparr>hw := dly 1 (hw s3)\<rparr>"
  have i2: "inv s2" unfolding s2_def by (rule inv_rdm_st [OF f1(4)])
  have i3: "inv s3" unfolding s3_def by (rule inv_wr_st [OF i2]) simp
  have b3: "bnBank (dev s3) = bank_2" by (simp add: s3_def wr_st_eqs [OF i2] next_bank_simps)
  have i4: "inv s4" unfolding s4_def by (rule call_Delay_state(2) [OF i3])
  have "routed log 0xCA s4" by (simp add: s4_def routed_def b3 bank2_banks)
  from wait_MISTAT_ready [OF i4 this] obtain s5 where w: "wait_MISTAT s4 = Some s5" and i5: "inv s5" by blast
  define s6 where "s6 = rdm_st 0x92 s5"
  define s7 where "s7 = wr_st 0x92 (rdm_val 0x92 s5 AND - 2) s6"
  define s8 where "s8 = rdm_st 0x99 s7"
  have i6: "inv s6" unfolding s6_def by (rule inv_rdm_st [OF i5])
  have i7: "inv s7" unfolding s7_def by (rule inv_wr_st [OF i6]) simp
  have i8: "inv s8" unfolding s8_def by (rule inv_rdm_st [OF i7])
  note k = invD(2) [OF i] invD(2) [OF f1(4)] invD(2) [OF i2] invD(2) [OF i5] invD(2) [OF i6]
    invD(2) [OF i7] invD(2) [OF i8]
  have run: "enc28j60_writeReg 0x94 a s = Some s1" "enc28j60_readMacMIIReg 0x92 s1 = Some (rdm_val 0x92 s1, s2)"
    "enc28j60_writeReg 0x92 (rdm_val 0x92 s1 OR 1) s2 = Some s3" "call_Delay 1 s3 = Some s4"
    "enc28j60_readMacMIIReg 0x92 s5 = Some (rdm_val 0x92 s5, s6)"
    "enc28j60_writeReg 0x92 (rdm_val 0x92 s5 AND - 2) s6 = Some s7"
    "enc28j60_readMacMIIReg 0x99 s7 = Some (rdm_val 0x99 s7, s8)"
    "enc28j60_readMacMIIReg 0x98 s8 = Some (rdm_val 0x98 s8, rdm_st 0x98 s8)"
    using wr_st_eqs(1) [OF i, of "0x94" a] rdm_st_eqs(1) [OF f1(4), of "0x92"]
      wr_st_eqs(1) [OF i2, of "0x92" "rdm_val 0x92 s1 OR 1"] call_Delay_state(1) [OF i3, of 1]
      rdm_st_eqs(1) [OF i5, of "0x92"] wr_st_eqs(1) [OF i6, of "0x92" "rdm_val 0x92 s5 AND - 2"]
      rdm_st_eqs(1) [OF i7, of "0x99"] rdm_st_eqs(1) [OF i8, of "0x98"]
    by (simp_all flip: s1_def s2_def s3_def s4_def s6_def s7_def s8_def)
  show ?thesis
    by (simp add: enc28j60_readPhyReg_def reg_addrs k run w)
qed

lemma writePhyReg_ready:
  assumes i: "inv s"
  shows "\<exists>s'. enc28j60_writePhyReg a v s = Some s'"
proof -
  define s1 where "s1 = wr_st 0x94 a s"
  note f1 = write_MIREGADR [OF i, of a, folded s1_def]
  define s2 where "s2 = wr_st 0x96 (lo8 v) s1"
  define s3 where "s3 = wr_st 0x97 (hi8 v) s2"
  define s4 where "s4 = s3\<lparr>hw := dly 1 (hw s3)\<rparr>"
  have i2: "inv s2" unfolding s2_def by (rule inv_wr_st [OF f1(4)]) simp
  have i3: "inv s3" unfolding s3_def by (rule inv_wr_st [OF i2]) simp
  have b3: "bnBank (dev s3) = bank_2" by (simp add: s3_def wr_st_eqs [OF i2] next_bank_simps)
  have i4: "inv s4" unfolding s4_def by (rule call_Delay_state(2) [OF i3])
  have "routed log 0xCA s4" by (simp add: s4_def routed_def b3 bank2_banks)
  from wait_MISTAT_ready [OF i4 this] obtain s5 where w: "wait_MISTAT s4 = Some s5" by blast
  note k = invD(2) [OF i] invD(2) [OF f1(4)] invD(2) [OF i2]
  have run: "enc28j60_writeReg 0x94 a s = Some s1" "enc28j60_writeReg 0x96 (lo8 v) s1 = Some s2"
    "enc28j60_writeReg 0x97 (hi8 v) s2 = Some s3" "call_Delay 1 s3 = Some s4"
    using wr_st_eqs(1) [OF i, of "0x94" a] wr_st_eqs(1) [OF f1(4), of "0x96" "lo8 v"]
      wr_st_eqs(1) [OF i2, of "0x97" "hi8 v"] call_Delay_state(1) [OF i3, of 1]
    by (simp_all flip: s1_def s2_def s3_def s4_def)
  show ?thesis
    by (simp add: enc28j60_writePhyReg_def reg_addrs k run w mask255_lo8 shift8_hi8)
qed

lemma wait_CLKRDY_ready:
  assumes i: "inv s"
  shows "\<exists>s'. wait_CLKRDY s = Some s'"
  using clkrdy_ready [OF i] invD(2) [OF i]
  by (subst wait_CLKRDY.simps) (simp add: reg_addrs rde_st_eqs [OF i])

text \<open>
  On a ready device every step of start-up returns and keeps the invariant, whatever bank is
  cached.
\<close>

lemma ok_readPhy:
  assumes i: "inv s" and f: "\<And>v s'. inv s' \<Longrightarrow> tot inv (f (v, s'))"
  shows "tot inv (enc28j60_readPhyReg r s \<bind> f)"
  using readPhyReg_ready [OF i, of r] readPhyReg_state(1) [OF i, of r] f by auto

lemma ok_writePhy:
  assumes i: "inv s" and f: "\<And>s'. inv s' \<Longrightarrow> tot inv (f s')"
  shows "tot inv (enc28j60_writePhyReg r v s \<bind> f)"
  using writePhyReg_ready [OF i, of r v] writePhyReg_state(1) [OF i, of r v] f by auto

lemma ok_CLKRDY:
  assumes i: "inv s" and f: "\<And>s'. inv s' \<Longrightarrow> tot inv (f s')"
  shows "tot inv (wait_CLKRDY s \<bind> f)"
proof -
  obtain s' where w: "wait_CLKRDY s = Some s'" using wait_CLKRDY_ready [OF i] by blast
  have "inv s'" using wait_CLKRDY_state [OF w i] by (rule conjunct1)
  from f [OF this] show ?thesis by (simp add: w)
qed

lemma ok_phyInit: "inv s \<Longrightarrow> tot inv (enc2860_phyInit s)"
  unfolding enc2860_phyInit_def Let_def
  by (rule ok_readPhy, assumption, simp only: prod.case, rule ok_writePhy, assumption,
    rule ok_readPhy, assumption, simp only: prod.case, rule tot_last, rule ok_writePhy, assumption)
    (simp add: tot_def)

lemma ok_strtDr:
  assumes "inv s"
  shows "tot inv (enc28j60_strtDr s)"
  unfolding strtDr_split enc28j60_getPhyRevNumber_def enc28j60_getPhyPartNumber_def
    enc28j60_getPhyIdentifier_def Let_def
  apply (simp add: split_beta)
  apply (rule ok_sftRst [OF assms], rule ok_Delay, assumption, rule ok_CLKRDY, assumption)
  apply (rule ok_readPhy, assumption, simp)+
  by (rule tot_seq [OF ok_buffers], assumption, rule tot_seq [OF ok_phyInit], assumption,
    rule tot_seq [OF ok_macInit], assumption, rule ok_tail)

end

end
