(* ===== verification/Spi_Board.thy ===== *)
theory Spi_Board
  imports Hal_Spi Enc_Start
begin

text \<open>
  The board the driver runs on: SPI1 as configured by \<open>MX_SPI1_Init\<close> (SCK at a quarter of the
  80 MHz core clock), the chip-select pin PB6, and the tick counter that counts 80000 core
  cycles.  The device on the bus is a function from the history of the bus to its next answer,
  so any device that is determined by what it has been sent fits.

  On this board the HAL calls are evaluated: a transfer of any 16-bit length ends with
  \<open>HAL_OK\<close>, has exchanged exactly its bytes, and cannot reach its timeout of 1000 ms even
  when the tick counter wraps around; \<open>HAL_Delay\<close> returns for every argument.  The functions
  of \<open>spiHwdInterface.c\<close> therefore satisfy \<open>spi_bus\<close>.
\<close>

section \<open>The board\<close>

record board =
  cr1 :: u32
  cr2 :: u32
  i2scfgr :: u32
  rxd :: "u8 option"
  gpiob_odr :: u32
  cyc :: nat
  bus :: "bus_event list"
  stale :: "nat \<Rightarrow> u8"

type_synonym device = "bus_event list \<Rightarrow> u8 \<Rightarrow> u8"

definition cycles_per_tick :: nat where "cycles_per_tick = 80000"

definition elapse :: "nat \<Rightarrow> board \<Rightarrow> board" where
  "elapse n b = b\<lparr>cyc := cyc b + n\<rparr>"

text \<open>
  A byte written to DR is exchanged when the peripheral is enabled, eight bits of four core
  cycles each; a received byte that is not read keeps later ones out.  TXE is always set and BSY
  always clear when the core looks again.
\<close>

definition exchange :: "device \<Rightarrow> u8 \<Rightarrow> board \<Rightarrow> board" where
  "exchange dv v b =
     (if cr1 b AND SPI_CR1_SPE = SPI_CR1_SPE
      then (let a = dv (bus b) v in
        elapse 32 (b\<lparr>bus := bus b @ [Xfer v a], rxd := (case rxd b of None \<Rightarrow> Some a | Some x \<Rightarrow> Some x)\<rparr>))
      else elapse 1 b)"

definition pin_events :: "u32 \<Rightarrow> bus_event list" where
  "pin_events v = (if v AND 0x40 \<noteq> 0 then [DS] else if drop_bit 16 v AND 0x40 \<noteq> 0 then [CS] else [])"

definition board_env :: "device \<Rightarrow> board spi_env" where
  "board_env dv = \<lparr>
     rd_SR = (\<lambda>b. (SPI_FLAG_TXE OR (if rxd b = None then 0 else SPI_FLAG_RXNE), elapse 4 b)),
     rd_DR = (\<lambda>b. (case rxd b of None \<Rightarrow> 0 | Some x \<Rightarrow> ucast x, elapse 4 (b\<lparr>rxd := None\<rparr>))),
     wr_DR8 = exchange dv,
     wr_DR16 = (\<lambda>v. exchange dv (lo8 v)),
     rd_CR1 = cr1,
     wr_CR1 = (\<lambda>v b. b\<lparr>cr1 := v\<rparr>),
     rd_CR2 = cr2,
     wr_CR2 = (\<lambda>v b. b\<lparr>cr2 := v\<rparr>),
     rd_I2SCFGR = i2scfgr,
     wr_I2SCFGR = (\<lambda>v b. b\<lparr>i2scfgr := v\<rparr>),
     wr_BSRR_B = (\<lambda>v b. b\<lparr>gpiob_odr := (gpiob_odr b AND NOT (drop_bit 16 v)) OR (v AND 0xFFFF),
                         bus := bus b @ pin_events v\<rparr>),
     rd_uwTick = (\<lambda>b. (of_nat (cyc b div cycles_per_tick), elapse 4 b))\<rparr>"

text \<open>The answers a device gives to a sequence of bytes.\<close>

fun answers :: "device \<Rightarrow> bus_event list \<Rightarrow> u8 list \<Rightarrow> u8 list" where
  "answers dv log [] = []"
| "answers dv log (d # ds) = dv log d # answers dv (log @ [Xfer d (dv log d)]) ds"

lemma length_answers [simp]: "length (answers dv log ds) = length ds"
  by (induction ds arbitrary: log) simp_all

text \<open>The state between two calls of the driver.\<close>

definition board_ok :: "board spi_st \<Rightarrow> bool" where
  "board_ok s \<longleftrightarrow> hal_idle s \<and> Init (hspi s) = spi1_Init \<and> rxd (per s) = None"

section \<open>Single accesses\<close>

definition step :: "nat \<Rightarrow> board spi_st \<Rightarrow> board spi_st" where
  "step n s = s\<lparr>per := elapse n (per s)\<rparr>"

lemma elapse_simps [simp]:
  "cr1 (elapse n b) = cr1 b" "rxd (elapse n b) = rxd b" "bus (elapse n b) = bus b"
  "stale (elapse n b) = stale b" "cyc (elapse n b) = cyc b + n" "elapse m (elapse n b) = elapse (n + m) b"
  by (simp_all add: elapse_def)

lemma step_simps [simp]:
  "hspi (step n s) = hspi s" "mem (step n s) = mem s" "per (step n s) = elapse n (per s)"
  "step m (step n s) = step (n + m) s" "ctl (step n s) = ctl s"
  by (simp_all add: step_def ctl_def)

lemma board_GetTick:
  "HAL_GetTick (board_env dv) s = (of_nat (cyc (per s) div cycles_per_tick), step 4 s)"
  by (simp add: HAL_GetTick_def board_env_def step_def)

lemma board_flags:
  "HAL_SPI_GET_FLAG (board_env dv) SPI_FLAG_TXE s = (True, step 4 s)"
  "HAL_SPI_GET_FLAG (board_env dv) SPI_FLAG_BSY s = (False, step 4 s)"
  "HAL_SPI_GET_FLAG (board_env dv) SPI_FLAG_RXNE s = (rxd (per s) \<noteq> None, step 4 s)"
  by (simp_all add: HAL_SPI_GET_FLAG_def board_env_def step_def spi_consts)

lemma board_WaitFlag:
  "SPI_WaitFlagStateUntilTimeout (board_env dv) SPI_FLAG_TXE True T t s = Some (HAL_OK, step 12 s)"
  "SPI_WaitFlagStateUntilTimeout (board_env dv) SPI_FLAG_BSY False T t s = Some (HAL_OK, step 12 s)"
  by (simp_all add: SPI_WaitFlagStateUntilTimeout_def board_GetTick wait_flag_loop.simps board_flags)

lemma board_EndRxTx:
  "Mode (Init (hspi s)) = SPI_MODE_MASTER \<Longrightarrow>
   SPI_EndRxTxTransaction (board_env dv) T t s = Some (HAL_OK, step 24 s)"
  by (simp add: SPI_EndRxTxTransaction_def board_WaitFlag)

lemma board_CLEAR_OVRFLAG:
  "HAL_SPI_CLEAR_OVRFLAG (board_env dv) s = s\<lparr>per := elapse 8 ((per s)\<lparr>rxd := None\<rparr>)\<rparr>"
  by (simp add: HAL_SPI_CLEAR_OVRFLAG_def board_env_def)

lemma board_tx_elem:
  assumes "cr1 (per s) AND SPI_CR1_SPE = SPI_CR1_SPE"
  shows "tx_elem (board_env dv) False s = s\<lparr>per := exchange dv (mem s ! the (pTxBuffPtr (hspi s))) (per s),
    hspi := (hspi s)\<lparr>pTxBuffPtr := Some (Suc (the (pTxBuffPtr (hspi s)))),
      TxXferCount := TxXferCount (hspi s) - 1\<rparr>\<rparr>"
  by (simp add: tx_elem_def board_env_def Let_def)

lemma exchange_simps:
  assumes "cr1 b AND SPI_CR1_SPE = SPI_CR1_SPE"
  shows "cr1 (exchange dv v b) = cr1 b" and "bus (exchange dv v b) = bus b @ [Xfer v (dv (bus b) v)]"
    and "stale (exchange dv v b) = stale b" and "cyc (exchange dv v b) = cyc b + 32"
    and "rxd b = None \<Longrightarrow> rxd (exchange dv v b) = Some (dv (bus b) v)"
  using assms by (simp_all add: exchange_def Let_def)

lemma board_enable:
  "enable_if_off (board_env dv) s =
    s\<lparr>per := (per s)\<lparr>cr1 := (if cr1 (per s) AND SPI_CR1_SPE = SPI_CR1_SPE then cr1 (per s)
      else cr1 (per s) OR SPI_CR1_SPE)\<rparr>\<rparr>"
  by (simp add: enable_if_off_def HAL_SPI_ENABLE_def CR1_set_def board_env_def)

lemma spe_set: "(x OR SPI_CR1_SPE) AND SPI_CR1_SPE = SPI_CR1_SPE"
  by (simp add: bit.conj_disj_distrib2 spi_consts)

section \<open>Transmit\<close>

text \<open>What a transfer leaves alone, and the counters it runs on.\<close>

lemma u16_count: "0 < k \<Longrightarrow> k < 2 ^ 16 \<Longrightarrow> (of_nat k :: u16) > 0 \<and> (of_nat k :: u16) - 1 = of_nat (k - 1)"
proof -
  assume k: "0 < k" "k < 2 ^ 16"
  then have "unat (of_nat k :: u16) = k" by (simp add: unat_of_nat take_bit_eq_mod)
  with k(1) have "(of_nat k :: u16) > 0" by (simp add: word_less_nat_alt)
  moreover have "(of_nat k :: u16) - 1 = of_nat (k - 1)" using k(1) by (cases k) simp_all
  ultimately show ?thesis ..
qed

lemma u16_eq_iff: "(a :: u16) = b \<longleftrightarrow> unat a = unat b"
  by (simp add: word_eq_iff_unsigned [where 'a = nat])

lemma board_tx_loop:
  assumes "TxXferCount (hspi s) = of_nat k" and "k < 2 ^ 16" and "pTxBuffPtr (hspi s) = Some p"
    and "cr1 (per s) AND SPI_CR1_SPE = SPI_CR1_SPE" and "p + k \<le> length (mem s)"
  shows "\<exists>s'. tx_loop (board_env dv) False T t s = Some (None, s') \<and> ctl s' = ctl s \<and>
    bus (per s') = bus (per s) @ map2 Xfer (take k (drop p (mem s)))
      (answers dv (bus (per s)) (take k (drop p (mem s)))) \<and>
    stale (per s') = stale (per s) \<and> cr1 (per s') = cr1 (per s)"
  using assms
proof (induction k arbitrary: s p)
  case 0
  then show ?case by (auto simp: tx_loop.simps [of _ _ _ _ s])
next
  case (Suc k)
  define s1 where "s1 = tx_elem (board_env dv) False (step 4 s)"
  have c: "TxXferCount (hspi s) > 0" and d: "TxXferCount (hspi s) - 1 = of_nat k"
    using u16_count [of "Suc k"] Suc.prems(1,2) by simp_all
  note x = exchange_simps [of "elapse 4 (per s)", unfolded elapse_simps, OF Suc.prems(4)]
  have s1: "TxXferCount (hspi s1) = of_nat k" "pTxBuffPtr (hspi s1) = Some (Suc p)"
    "cr1 (per s1) = cr1 (per s)" "mem s1 = mem s" "stale (per s1) = stale (per s)" "ctl s1 = ctl s"
    "bus (per s1) = bus (per s) @ [Xfer (mem s ! p) (dv (bus (per s)) (mem s ! p))]"
    using Suc.prems d by (simp_all add: s1_def board_tx_elem x) (simp_all add: ctl_def)
  have h: "take (Suc k) (drop p (mem s)) = mem s ! p # take k (drop (Suc p) (mem s))"
    using Suc.prems(5) by (simp add: Cons_nth_drop_Suc [symmetric])
  have "tx_loop (board_env dv) False T t s = tx_loop (board_env dv) False T t s1"
    using c by (subst tx_loop.simps) (simp add: board_flags s1_def)
  with Suc.IH [of s1 "Suc p"] Suc.prems s1 show ?case by (auto simp: h)
qed

lemma spi1_Init_simps [simp]:
  "Mode spi1_Init = SPI_MODE_MASTER" "Direction spi1_Init = SPI_DIRECTION_2LINES"
  "DataSize spi1_Init = SPI_DATASIZE_8BIT"
  by (simp_all add: spi1_Init_def)

lemma spi_const_neqs [simp]:
  "SPI_MODE_MASTER \<noteq> SPI_MODE_SLAVE" "SPI_DIRECTION_2LINES \<noteq> SPI_DIRECTION_1LINE"
  "SPI_DATASIZE_8BIT \<noteq> SPI_DATASIZE_16BIT"
  by (simp_all add: spi_consts)

text \<open>The first byte of a one-byte transfer is written before the loop.\<close>

lemma board_tx_start:
  assumes s: "TxXferCount (hspi s) = of_nat k" "k < 2 ^ 16" "pTxBuffPtr (hspi s) = Some 0" "k \<noteq> 0"
    "cr1 (per s) AND SPI_CR1_SPE = SPI_CR1_SPE" "k \<le> length (mem s)"
  shows "\<exists>s'. tx_loop (board_env dv) False T t (if k = 1 then tx_elem (board_env dv) False s else s) = Some (None, s') \<and>
    ctl s' = ctl s \<and> stale (per s') = stale (per s) \<and>
    bus (per s') = bus (per s) @ map2 Xfer (take k (mem s)) (answers dv (bus (per s)) (take k (mem s)))"
proof (cases "k = 1")
  case False
  then show ?thesis using board_tx_loop [OF s(1-3,5), of dv T t] s(6) by auto
next
  case True
  then obtain v vs where v: "mem s = v # vs" using s(6) by (cases "mem s") auto
  define s1 where "s1 = tx_elem (board_env dv) False s"
  have "TxXferCount (hspi s1) = 0" "ctl s1 = ctl s" "stale (per s1) = stale (per s)"
    "bus (per s1) = bus (per s) @ [Xfer v (dv (bus (per s)) v)]"
    using s True v by (simp_all add: s1_def board_tx_elem exchange_simps) (simp_all add: ctl_def)
  then show ?thesis using True v by (simp flip: s1_def add: tx_loop.simps [of _ _ _ _ s1])
qed

lemma HAL_SPI_Transmit_board:
  assumes ok: "board_ok s" and m: "take (unat n) (mem s) = bs" and ne: "n \<noteq> 0"
    and len: "unat n \<le> length (mem s)"
  shows "\<exists>s'. HAL_SPI_Transmit (board_env dv) (Some 0) n T s = Some (HAL_OK, s') \<and>
    board_ok s' \<and> stale (per s') = stale (per s) \<and>
    bus (per s') = bus (per s) @ map2 Xfer bs (answers dv (bus (per s)) bs)"
proof -
  let ?e = "board_env dv"
  define one where "one \<longleftrightarrow> n = 1"
  define s1 where "s1 = (step 4 s)\<lparr>hspi := (hspi s)\<lparr>Lock := HAL_LOCKED, State := HAL_SPI_STATE_BUSY_TX,
                  ErrorCode := HAL_SPI_ERROR_NONE, pTxBuffPtr := Some 0, TxXferSize := n,
                  TxXferCount := n, pRxBuffPtr := None, RxXferSize := 0, RxXferCount := 0\<rparr>\<rparr>"
  define s2 where "s2 = enable_if_off ?e s1"
  have st: "State (hspi s) = HAL_SPI_STATE_READY" "Lock (hspi s) = HAL_UNLOCKED" "Init (hspi s) = spi1_Init"
    using ok by (simp_all add: board_ok_def hal_idle_def)
  have n1: "unat n = Suc 0 \<longleftrightarrow> n = 1" "unat n < 2 ^ 16" "unat n \<noteq> 0"
    using unat_u16_less [of n] ne by (auto simp: u16_eq_iff)
  have i1: "Init (hspi s1) = spi1_Init" "Init (hspi s2) = spi1_Init" "ErrorCode (hspi s2) = HAL_SPI_ERROR_NONE"
    using st by (simp_all add: s1_def s2_def board_enable)
  have s2: "TxXferCount (hspi s2) = of_nat (unat n)" "pTxBuffPtr (hspi s2) = Some 0" "mem s2 = mem s"
    "cr1 (per s2) AND SPI_CR1_SPE = SPI_CR1_SPE" "bus (per s2) = bus (per s)" "stale (per s2) = stale (per s)"
    by (simp_all add: s1_def s2_def board_enable spe_set)
  obtain s3 where l: "tx_loop ?e False T (of_nat (cyc (per s) div cycles_per_tick))
      (if one then tx_elem ?e False s2 else s2) = Some (None, s3)"
    and c: "ctl s3 = ctl s2" and s3: "stale (per s3) = stale (per s)"
    "bus (per s3) = bus (per s) @ map2 Xfer bs (answers dv (bus (per s)) bs)"
    using board_tx_start [OF s2(1) n1(2) s2(2) n1(3) s2(4),
        where dv = dv and T = T and t = "of_nat (cyc (per s) div cycles_per_tick)"] s2(3,5,6) len m
    by (auto simp: one_def n1(1))
  from c have i3: "Init (hspi s3) = spi1_Init" "ErrorCode (hspi s3) = HAL_SPI_ERROR_NONE"
    using i1 by (simp_all add: ctl_def)
  define s4 where "s4 = HAL_UNLOCK (set_State HAL_SPI_STATE_READY (HAL_SPI_CLEAR_OVRFLAG ?e (step 24 s3)))"
  have e4: "ErrorCode (hspi s4) = HAL_SPI_ERROR_NONE"
    using i3 by (simp add: s4_def board_CLEAR_OVRFLAG HAL_UNLOCK_def set_State_def)
  have "HAL_SPI_Transmit ?e (Some 0) n T s = Some (HAL_OK, s4)"
    unfolding HAL_SPI_Transmit_def
    using st ne i1 i3 l
    by (cases one) (simp_all add: board_GetTick Let_def s1_def [symmetric] s2_def [symmetric]
        board_EndRxTx s4_def [symmetric] e4 one_def [symmetric])
  moreover have "board_ok s4"
    using i3 by (simp add: board_ok_def s4_def) (simp add: board_CLEAR_OVRFLAG HAL_UNLOCK_def set_State_def elapse_def)
  moreover have "bus (per s4) = bus (per s3)" "stale (per s4) = stale (per s3)"
    by (simp_all add: s4_def board_CLEAR_OVRFLAG HAL_UNLOCK_def set_State_def elapse_def)
  ultimately show ?thesis using s3 by auto
qed

section \<open>Receive\<close>

text \<open>No transfer lasts 1000 ticks: at most 60 cycles for each of at most 65535 bytes.\<close>

lemma tick_in_time:
  assumes "c0 \<le> c" and "c \<le> c0 + 4000000"
  shows "(of_nat (c div cycles_per_tick) - of_nat (c0 div cycles_per_tick) :: u32) < MAX_TIME_OUT"
proof -
  have le: "c0 div cycles_per_tick \<le> c div cycles_per_tick" using assms(1) by (rule div_le_mono)
  have "c div cycles_per_tick \<le> (c0 + 4000000) div cycles_per_tick" using assms(2) by (rule div_le_mono)
  then have d: "c div cycles_per_tick - c0 div cycles_per_tick \<le> 51" by (simp add: cycles_per_tick_def)
  have "(of_nat (c div cycles_per_tick) - of_nat (c0 div cycles_per_tick) :: u32)
      = of_nat (c div cycles_per_tick - c0 div cycles_per_tick)"
    using le by (simp add: of_nat_diff)
  also have "\<dots> < MAX_TIME_OUT"
    using d by (simp add: MAX_TIME_OUT_def word_less_nat_alt unat_of_nat take_bit_eq_mod)
  finally show ?thesis .
qed

lemma lo8_ucast: "lo8 (ucast (x :: u8)) = x" "lo8 0 = 0"
  by (auto simp: lo8_def intro!: u8_bits_eqI simp: bit_simps)

lemma board_rx_elem:
  "rx_elem (board_env dv) False s = s\<lparr>per := elapse 4 ((per s)\<lparr>rxd := None\<rparr>),
    mem := (mem s)[the (pRxBuffPtr (hspi s)) := (case rxd (per s) of None \<Rightarrow> 0 | Some x \<Rightarrow> x)],
    hspi := (hspi s)\<lparr>pRxBuffPtr := Some (Suc (the (pRxBuffPtr (hspi s)))),
      RxXferCount := RxXferCount (hspi s) - 1\<rparr>\<rparr>"
  by (cases "rxd (per s)") (simp_all add: rx_elem_def board_env_def Let_def lo8_ucast)

lemma board_txrx_loop:
  assumes "TxXferCount (hspi s) = of_nat k" and "RxXferCount (hspi s) = of_nat k" and "k < 2 ^ 16"
    and "pTxBuffPtr (hspi s) = Some p" and "pRxBuffPtr (hspi s) = Some p"
    and "cr1 (per s) AND SPI_CR1_SPE = SPI_CR1_SPE" and "rxd (per s) = None"
    and "p + k \<le> length (mem s)" and "c0 \<le> cyc (per s)" and "cyc (per s) + 60 * k \<le> c0 + 4000000"
  shows "\<exists>s'. txrx_loop (board_env dv) False MAX_TIME_OUT (of_nat (c0 div cycles_per_tick)) True s = Some (None, s') \<and>
    ctl s' = ctl s \<and> rxd (per s') = None \<and> stale (per s') = stale (per s) \<and>
    mem s' = take p (mem s) @ answers dv (bus (per s)) (take k (drop p (mem s))) @ drop (p + k) (mem s) \<and>
    bus (per s') = bus (per s) @ map2 Xfer (take k (drop p (mem s)))
      (answers dv (bus (per s)) (take k (drop p (mem s))))"
  using assms
proof (induction k arbitrary: s p)
  case 0
  then show ?case by (auto simp: txrx_loop.simps [of _ _ _ _ _ s])
next
  case (Suc k)
  let ?e = "board_env dv" and ?v = "mem s ! p"
  let ?a = "dv (bus (per s)) ?v"
  define s1 where "s1 = tx_elem ?e False (step 4 s)"
  define s2 where "s2 = step 4 (rx_elem ?e False (step 4 s1))"
  have cnt: "TxXferCount (hspi s) > 0" "(of_nat (Suc k) :: u16) - 1 = of_nat k" "(of_nat (Suc k) :: u16) > 0"
    using u16_count [of "Suc k"] Suc.prems(1,3) by simp_all
  note x = exchange_simps [of "elapse 4 (per s)", unfolded elapse_simps, OF Suc.prems(6)]
  have s1: "TxXferCount (hspi s1) = of_nat k" "pTxBuffPtr (hspi s1) = Some (Suc p)"
    "RxXferCount (hspi s1) = of_nat (Suc k)" "pRxBuffPtr (hspi s1) = Some p"
    "cr1 (per s1) = cr1 (per s)" "mem s1 = mem s" "stale (per s1) = stale (per s)" "ctl s1 = ctl s"
    "bus (per s1) = bus (per s) @ [Xfer ?v ?a]" "rxd (per s1) = Some ?a" "cyc (per s1) = cyc (per s) + 36"
    using Suc.prems cnt by (simp_all add: s1_def board_tx_elem x) (simp_all add: ctl_def)
  have s2: "TxXferCount (hspi s2) = of_nat k" "RxXferCount (hspi s2) = of_nat k"
    "pTxBuffPtr (hspi s2) = Some (Suc p)" "pRxBuffPtr (hspi s2) = Some (Suc p)"
    "cr1 (per s2) = cr1 (per s)" "mem s2 = (mem s)[p := ?a]" "stale (per s2) = stale (per s)"
    "ctl s2 = ctl s" "bus (per s2) = bus (per s) @ [Xfer ?v ?a]" "rxd (per s2) = None"
    "cyc (per s2) = cyc (per s) + 48"
    using cnt s1 by (simp_all add: s2_def board_rx_elem) (simp_all add: elapse_def ctl_def)
  have tick: "\<not> (MAX_TIME_OUT \<le> of_nat ((cyc (per s) + 44) div cycles_per_tick) - of_nat (c0 div cycles_per_tick))"
    using tick_in_time [of c0 "cyc (per s) + 44"] Suc.prems(9,10) by simp
  have cy: "cyc (per (rx_elem ?e False (step 4 s1))) = cyc (per s) + 44"
    using s1 by (simp add: board_rx_elem)
  have "txrx_loop ?e False MAX_TIME_OUT (of_nat (c0 div cycles_per_tick)) True s =
      txrx_loop ?e False MAX_TIME_OUT (of_nat (c0 div cycles_per_tick)) True s2"
    using cnt tick s1 cy by (subst txrx_loop.simps)
      (simp add: board_flags board_GetTick s2_def MAX_TIME_OUT_def flip: s1_def)
  moreover have "drop (Suc p) ((mem s)[p := ?a]) = drop (Suc p) (mem s)"
    "take (Suc p) ((mem s)[p := ?a]) = take p (mem s) @ [?a]"
    "drop (Suc p + k) ((mem s)[p := ?a]) = drop (Suc p + k) (mem s)"
    using Suc.prems(8) by (simp_all add: take_Suc_conv_app_nth)
  moreover have "take (Suc k) (drop p (mem s)) = ?v # take k (drop (Suc p) (mem s))"
    using Suc.prems(8) by (simp add: Cons_nth_drop_Suc [symmetric])
  ultimately show ?case
    using Suc.IH [of s2 "Suc p"] Suc.prems s2 by auto
qed

lemma board_txrx_start:
  assumes s: "TxXferCount (hspi s) = of_nat k" "RxXferCount (hspi s) = of_nat k" "k < 2 ^ 16" "k \<noteq> 0"
    "pTxBuffPtr (hspi s) = Some 0" "pRxBuffPtr (hspi s) = Some 0"
    "cr1 (per s) AND SPI_CR1_SPE = SPI_CR1_SPE" "rxd (per s) = None" "length (mem s) = k"
    "c0 \<le> cyc (per s)" "cyc (per s) \<le> c0 + 60"
  shows "\<exists>s'. txrx_loop (board_env dv) False MAX_TIME_OUT (of_nat (c0 div cycles_per_tick)) True
      (if k = 1 then tx_elem (board_env dv) False s else s) = Some (None, s') \<and>
    ctl s' = ctl s \<and> rxd (per s') = None \<and> stale (per s') = stale (per s) \<and>
    mem s' = answers dv (bus (per s)) (mem s) \<and>
    bus (per s') = bus (per s) @ map2 Xfer (mem s) (answers dv (bus (per s)) (mem s))"
proof (cases "k = 1")
  case False
  then show ?thesis using board_txrx_loop [OF s(1-3,5-8), of c0 dv] s(3,9-11) by auto
next
  case True
  let ?e = "board_env dv"
  obtain v where v: "mem s = [v]" using s(9) True by (cases "mem s") auto
  define s1 where "s1 = tx_elem ?e False s"
  define s2 where "s2 = step 4 (rx_elem ?e False (step 8 s1))"
  note x = exchange_simps [OF s(7)]
  have s1: "TxXferCount (hspi s1) = 0" "RxXferCount (hspi s1) = 1" "pRxBuffPtr (hspi s1) = Some 0"
    "mem s1 = [v]" "stale (per s1) = stale (per s)" "ctl s1 = ctl s" "rxd (per s1) = Some (dv (bus (per s)) v)"
    "bus (per s1) = bus (per s) @ [Xfer v (dv (bus (per s)) v)]" "cyc (per s1) = cyc (per s) + 32"
    using s True v by (simp_all add: s1_def board_tx_elem x) (simp_all add: ctl_def)
  have s2: "TxXferCount (hspi s2) = 0" "RxXferCount (hspi s2) = 0" "ctl s2 = ctl s" "rxd (per s2) = None"
    "stale (per s2) = stale (per s)" "mem s2 = [dv (bus (per s)) v]" "bus (per s2) = bus (per s1)"
    using s1 by (simp_all add: s2_def board_rx_elem) (simp_all add: ctl_def elapse_def)
  have cy: "cyc (per (rx_elem ?e False (step 8 s1))) = cyc (per s) + 44"
    using s1 by (simp add: board_rx_elem)
  have tick: "\<not> (MAX_TIME_OUT \<le> of_nat ((cyc (per s) + 44) div cycles_per_tick) - of_nat (c0 div cycles_per_tick))"
    using tick_in_time [of c0 "cyc (per s) + 44"] s(10,11) by simp
  have "txrx_loop ?e False MAX_TIME_OUT (of_nat (c0 div cycles_per_tick)) True s1 = Some (None, s2)"
    using s1 tick cy s2(1,2)
    by (subst txrx_loop.simps) (simp add: board_flags board_GetTick s2_def [symmetric] MAX_TIME_OUT_def
        txrx_loop.simps [of _ _ _ _ _ s2])
  with True v s1 s2 show ?thesis by (simp flip: s1_def)
qed

lemma HAL_SPI_Receive_board:
  assumes ok: "board_ok s" and m: "length (mem s) = unat n" and ne: "n \<noteq> 0"
  shows "\<exists>s'. HAL_SPI_Receive (board_env dv) (Some 0) n MAX_TIME_OUT s = Some (HAL_OK, s') \<and>
    board_ok s' \<and> stale (per s') = stale (per s) \<and> mem s' = answers dv (bus (per s)) (mem s) \<and>
    bus (per s') = bus (per s) @ map2 Xfer (mem s) (answers dv (bus (per s)) (mem s))"
proof -
  let ?e = "board_env dv" and ?t = "of_nat (cyc (per s) div cycles_per_tick) :: u32"
  define one where "one \<longleftrightarrow> n = 1"
  define s0 where "s0 = step 4 (set_State HAL_SPI_STATE_BUSY_RX s)"
  define s1 where "s1 = s0\<lparr>hspi := (hspi s0)\<lparr>Lock := HAL_LOCKED\<rparr>\<rparr>"
  define s2 where "s2 = enable_if_off ?e (s1\<lparr>hspi := (hspi s1)\<lparr>ErrorCode := HAL_SPI_ERROR_NONE,
      pRxBuffPtr := Some 0, RxXferCount := n, RxXferSize := n, pTxBuffPtr := Some 0,
      TxXferCount := n, TxXferSize := n\<rparr>\<rparr>)"
  have st: "State (hspi s) = HAL_SPI_STATE_READY" "Lock (hspi s) = HAL_UNLOCKED" "Init (hspi s) = spi1_Init"
    "rxd (per s) = None"
    using ok by (simp_all add: board_ok_def hal_idle_def)
  have s0: "State (hspi s0) = HAL_SPI_STATE_BUSY_RX" "Lock (hspi s0) = HAL_UNLOCKED" "Init (hspi s0) = spi1_Init"
    "State (hspi s1) = HAL_SPI_STATE_BUSY_RX" "Init (hspi s1) = spi1_Init"
    using st by (simp_all add: s0_def s1_def)
  have s2: "TxXferCount (hspi s2) = of_nat (unat n)" "RxXferCount (hspi s2) = of_nat (unat n)"
    "pTxBuffPtr (hspi s2) = Some 0" "pRxBuffPtr (hspi s2) = Some 0" "mem s2 = mem s"
    "cr1 (per s2) AND SPI_CR1_SPE = SPI_CR1_SPE" "bus (per s2) = bus (per s)" "stale (per s2) = stale (per s)"
    "rxd (per s2) = None" "cyc (per s2) = cyc (per s) + 4" "Init (hspi s2) = spi1_Init"
    "ErrorCode (hspi s2) = HAL_SPI_ERROR_NONE"
    using st by (simp_all add: s0_def s1_def s2_def board_enable spe_set set_State_def)
  have n1: "unat n = Suc 0 \<longleftrightarrow> n = 1" "unat n < 2 ^ 16" "unat n \<noteq> 0"
    using unat_u16_less [of n] ne by (auto simp: u16_eq_iff)
  obtain s3 where l: "txrx_loop ?e False MAX_TIME_OUT ?t True
      (if one then tx_elem ?e False s2 else s2) = Some (None, s3)"
    and c: "ctl s3 = ctl s2" and s3: "rxd (per s3) = None" "stale (per s3) = stale (per s)"
    "mem s3 = answers dv (bus (per s)) (mem s)"
    "bus (per s3) = bus (per s) @ map2 Xfer (mem s) (answers dv (bus (per s)) (mem s))"
    using board_txrx_start [OF s2(1,2) n1(2,3) s2(3,4,6,9), of "cyc (per s)" dv] s2(5,7,8,10) m
    by (auto simp: n1(1) one_def)
  from c have i3: "Init (hspi s3) = spi1_Init" "ErrorCode (hspi s3) = HAL_SPI_ERROR_NONE"
    using s2 by (simp_all add: ctl_def)
  define s4 where "s4 = HAL_UNLOCK (set_State HAL_SPI_STATE_READY (HAL_SPI_CLEAR_OVRFLAG ?e (step 24 s3)))"
  have e4: "ErrorCode (hspi s4) = HAL_SPI_ERROR_NONE"
    using i3 by (simp add: s4_def board_CLEAR_OVRFLAG HAL_UNLOCK_def set_State_def)
  have g: "HAL_GetTick ?e (set_State HAL_SPI_STATE_BUSY_RX s) = (?t, s0)"
    by (simp add: board_GetTick s0_def set_State_def)
  have "HAL_SPI_TransmitReceive ?e (Some 0) (Some 0) n MAX_TIME_OUT (set_State HAL_SPI_STATE_BUSY_RX s)
      = Some (HAL_OK, s4)"
    unfolding HAL_SPI_TransmitReceive_def
    using s0 s2(11) ne i3 l
    by (cases one) (simp_all add: g Let_def s1_def [symmetric] s2_def [symmetric] board_EndRxTx s4_def [symmetric] e4 one_def [symmetric])
  then have "HAL_SPI_Receive ?e (Some 0) n MAX_TIME_OUT s = Some (HAL_OK, s4)"
    using st ne by (simp add: HAL_SPI_Receive_def)
  moreover have "board_ok s4"
    using i3 by (simp add: board_ok_def s4_def) (simp add: board_CLEAR_OVRFLAG HAL_UNLOCK_def set_State_def elapse_def)
  moreover have "bus (per s4) = bus (per s3)" "stale (per s4) = stale (per s3)" "mem s4 = mem s3"
    by (simp_all add: s4_def board_CLEAR_OVRFLAG HAL_UNLOCK_def set_State_def elapse_def)
  ultimately show ?thesis using s3 by auto
qed

section \<open>Delay\<close>

text \<open>
  Each poll of the tick counter takes four cycles, so the difference of ticks grows by at most
  one per poll and reaches every 32-bit bound.
\<close>

lemma tick_diff:
  assumes "c0 \<le> c" and "(c div cycles_per_tick - c0 div cycles_per_tick) < 2 ^ 32"
  shows "unat (of_nat (c div cycles_per_tick) - of_nat (c0 div cycles_per_tick) :: u32) =
    c div cycles_per_tick - c0 div cycles_per_tick"
proof -
  have le: "c0 div cycles_per_tick \<le> c div cycles_per_tick" using assms(1) by (rule div_le_mono)
  then have "(of_nat (c div cycles_per_tick) - of_nat (c0 div cycles_per_tick) :: u32)
      = of_nat (c div cycles_per_tick - c0 div cycles_per_tick)"
    by (simp add: of_nat_diff)
  with assms(2) show ?thesis by (simp add: unat_of_nat take_bit_eq_mod)
qed

lemma delay_loop_board:
  assumes "c0 \<le> cyc (per s)"
    and "cyc (per s) div cycles_per_tick - c0 div cycles_per_tick \<le> unat wait"
  shows "\<exists>n. delay_loop (board_env dv) (of_nat (c0 div cycles_per_tick)) wait s = Some (step n s)"
  using assms
proof (induction "(c0 div cycles_per_tick + unat wait + 1) * cycles_per_tick - cyc (per s)"
    arbitrary: s rule: less_induct)
  case less
  let ?d = "cyc (per s) div cycles_per_tick - c0 div cycles_per_tick"
  have u: "unat (of_nat (cyc (per s) div cycles_per_tick) - of_nat (c0 div cycles_per_tick) :: u32) = ?d"
    using tick_diff [OF less.prems(1)] less.prems(2) unat_u32_less [of wait] by simp
  note unf = delay_loop.simps [of "board_env dv" _ _ s] board_GetTick
  show ?case
  proof (cases "?d < unat wait")
    case False
    with u show ?thesis by (auto simp: unf word_less_nat_alt)
  next
    case True
    let ?s = "step 4 s"
    have c: "cyc (per s) < (c0 div cycles_per_tick + unat wait) * cycles_per_tick"
      using True div_less_iff_less_mult [of cycles_per_tick "cyc (per s)"] less.prems(1)
        div_le_mono [of c0 "cyc (per s)" cycles_per_tick]
      by (simp add: cycles_per_tick_def)
    have p: "c0 \<le> cyc (per ?s)" "cyc (per ?s) div cycles_per_tick - c0 div cycles_per_tick \<le> unat wait"
      using less.prems(1) True by (simp_all add: cycles_per_tick_def)
    have "(c0 div cycles_per_tick + unat wait + 1) * cycles_per_tick - cyc (per ?s)
        < (c0 div cycles_per_tick + unat wait + 1) * cycles_per_tick - cyc (per s)"
      using c by (simp add: cycles_per_tick_def)
    from less.hyps [OF this p] obtain n where
      "delay_loop (board_env dv) (of_nat (c0 div cycles_per_tick)) wait ?s = Some (step n ?s)" by blast
    with True u show ?thesis by (auto simp: unf word_less_nat_alt)
  qed
qed

lemma HAL_Delay_board: "\<exists>n. HAL_Delay (board_env dv) d s = Some (step n s)"
proof -
  define wait where "wait = (if d < HAL_MAX_DELAY then d + uwTickFreq else d)"
  have "cyc (per (step 4 s)) div cycles_per_tick - cyc (per s) div cycles_per_tick \<le> 1"
    by (simp add: cycles_per_tick_def)
  moreover have "1 \<le> unat wait"
  proof (cases "d < HAL_MAX_DELAY")
    case True
    then have "unat (d + 1) = unat d + 1"
      by (simp add: HAL_MAX_DELAY_def word_less_nat_alt unat_word_ariths)
    with True show ?thesis by (simp add: wait_def uwTickFreq_def)
  next
    case False
    then show ?thesis by (auto simp: wait_def HAL_MAX_DELAY_def word_less_nat_alt)
  qed
  ultimately obtain n where
    "delay_loop (board_env dv) (of_nat (cyc (per s) div cycles_per_tick)) wait (step 4 s) = Some (step n (step 4 s))"
    using delay_loop_board [of "cyc (per s)" "step 4 s" wait dv] by auto
  then show ?thesis by (auto simp: HAL_Delay_def board_GetTick wait_def [symmetric] Let_def)
qed

section \<open>The bus the driver sees\<close>

definition board_init :: "board spi_st" where
  "board_init = \<lparr>hspi = \<lparr>Init = spi1_Init, pTxBuffPtr = None, TxXferSize = 0, TxXferCount = 0,
       pRxBuffPtr = None, RxXferSize = 0, RxXferCount = 0, Lock = HAL_UNLOCKED,
       State = HAL_SPI_STATE_READY, ErrorCode = HAL_SPI_ERROR_NONE\<rparr>,
     mem = [], SystemCoreClock_v = 80000000,
     per = \<lparr>cr1 = 0x30C, cr2 = 0, i2scfgr = 0, rxd = None, gpiob_odr = 0x40, cyc = 0, bus = [],
       stale = (\<lambda>_. 0)\<rparr>\<rparr>"

lemma board_ok_init [simp]: "board_ok board_init"
  by (simp add: board_ok_def board_init_def hal_idle_def)

text \<open>
  The boards between two calls.  A read is given a buffer with arbitrary contents, which the
  full-duplex transfer puts on the wire.
\<close>

typedef wboard = "{s :: board spi_st. board_ok s}"
  morphisms rep_board Abs_board
  by (rule exI [of _ board_init]) simp

setup_lifting type_definition_wboard

definition stale_buf :: "nat \<Rightarrow> board spi_st \<Rightarrow> u8 list" where
  "stale_buf n s = map (\<lambda>i. stale (per s) (length (bus (per s)) + i)) [0..<n]"

lemma spi1Write_board:
  assumes "board_ok s"
  shows "\<exists>s'. spi1Write (board_env dv) bs (of_nat (length bs)) s = Some s' \<and> board_ok s' \<and>
    (length bs < 2 ^ 16 \<longrightarrow> bus (per s') = bus (per s) @ map2 Xfer bs (answers dv (bus (per s)) bs))"
proof (cases "(of_nat (length bs) :: u16) = 0")
  case True
  then have "length bs < 2 ^ 16 \<Longrightarrow> bs = []"
    by (simp add: u16_eq_iff unat_of_nat take_bit_eq_mod)
  with True assms show ?thesis
    by (auto simp: spi1Write_def HAL_SPI_Transmit_def board_GetTick board_ok_def hal_idle_def)
next
  case False
  have "board_ok (s\<lparr>mem := bs\<rparr>)" using assms by (simp add: board_ok_def hal_idle_def)
  from HAL_SPI_Transmit_board [OF this refl False, of dv MAX_TIME_OUT] show ?thesis
    by (auto simp: spi1Write_def unat_of_nat take_bit_eq_mod)
qed

lemma spi1Read_board:
  assumes ok: "board_ok s" and b: "length buf = unat n"
  shows "\<exists>s' r. spi1Read (board_env dv) buf n s = Some ((answers dv (bus (per s)) buf, r), s') \<and>
    board_ok s' \<and> bus (per s') = bus (per s) @ map2 Xfer buf (answers dv (bus (per s)) buf)"
proof (cases "n = 0")
  case True
  with assms show ?thesis
    by (auto simp: spi1Read_def HAL_SPI_Receive_def board_ok_def hal_idle_def)
next
  case False
  have "board_ok (s\<lparr>mem := buf\<rparr>)" using assms by (simp add: board_ok_def hal_idle_def)
  from HAL_SPI_Receive_board [OF this _ False, of dv] b show ?thesis
    by (auto simp: spi1Read_def)
qed

lemma board_ok_step: "board_ok (step n s) = board_ok s"
  by (simp add: board_ok_def hal_idle_def)

lift_definition brd_cs :: "device \<Rightarrow> wboard \<Rightarrow> wboard" is "\<lambda>dv. spi1ChipSelect (board_env dv)"
  by (simp add: spi1ChipSelect_def board_ok_def hal_idle_def HAL_GPIO_WritePin_def board_env_def)

lift_definition brd_ds :: "device \<Rightarrow> wboard \<Rightarrow> wboard" is "\<lambda>dv. spi1ChipDeSelect (board_env dv)"
  by (simp add: spi1ChipDeSelect_def board_ok_def hal_idle_def HAL_GPIO_WritePin_def board_env_def)

lift_definition brd_wr :: "device \<Rightarrow> u8 list \<Rightarrow> wboard \<Rightarrow> wboard" is
  "\<lambda>dv bs s. the (spi1Write (board_env dv) bs (of_nat (length bs)) s)"
  using spi1Write_board by (metis option.sel)

lift_definition brd_rd :: "device \<Rightarrow> u16 \<Rightarrow> wboard \<Rightarrow> (u8 list \<times> u16) \<times> wboard" is
  "\<lambda>dv n s. the (spi1Read (board_env dv) (stale_buf (unat n) s) n s)"
  subgoal for dv n s
    using spi1Read_board [of s "stale_buf (unat n) s" n dv] by (auto simp: stale_buf_def)
  done

lift_definition brd_dly :: "device \<Rightarrow> u32 \<Rightarrow> wboard \<Rightarrow> wboard" is
  "\<lambda>dv ms s. the (delayMsFunction (board_env dv) ms s)"
  subgoal for dv ms s
    using HAL_Delay_board [of dv ms s] by (auto simp: delayMsFunction_def board_ok_step)
  done

lift_definition brd_log :: "wboard \<Rightarrow> bus_event list" is "\<lambda>s. bus (per s)" .

text \<open>A read returns what the device answers to the old contents of the buffer.\<close>

lemma brd_rd_answers:
  "fst (fst (brd_rd dv k w)) = answers dv (brd_log w) (stale_buf (unat k) (rep_board w))"
  "brd_log (snd (brd_rd dv k w)) = brd_log w @ map2 Xfer (stale_buf (unat k) (rep_board w))
     (answers dv (brd_log w) (stale_buf (unat k) (rep_board w)))"
proof -
  obtain s' r where "spi1Read (board_env dv) (stale_buf (unat k) (rep_board w)) k (rep_board w) =
      Some ((answers dv (bus (per (rep_board w))) (stale_buf (unat k) (rep_board w)), r), s')"
    and "bus (per s') = bus (per (rep_board w)) @ map2 Xfer (stale_buf (unat k) (rep_board w))
      (answers dv (bus (per (rep_board w))) (stale_buf (unat k) (rep_board w)))"
    using spi1Read_board [of "rep_board w" "stale_buf (unat k) (rep_board w)" k dv] rep_board [of w]
    by (auto simp: stale_buf_def)
  then show "fst (fst (brd_rd dv k w)) = answers dv (brd_log w) (stale_buf (unat k) (rep_board w))"
    "brd_log (snd (brd_rd dv k w)) = brd_log w @ map2 Xfer (stale_buf (unat k) (rep_board w))
      (answers dv (brd_log w) (stale_buf (unat k) (rep_board w)))"
    using brd_rd.rep_eq [of dv k w] by (cases "brd_rd dv k w", simp add: brd_log.rep_eq)+
qed

interpretation brd: spi_bus "brd_cs dv" "brd_ds dv" "brd_rd dv" "brd_wr dv" "brd_dly dv" brd_log for dv
proof
  show "brd_log (brd_cs dv w) = brd_log w @ [CS]" for w
    by transfer (simp add: spi1ChipSelect_def HAL_GPIO_WritePin_def board_env_def pin_events_def ENC28J60_CS_Pin_def)
  show "brd_log (brd_ds dv w) = brd_log w @ [DS]" for w
    by transfer (simp add: spi1ChipDeSelect_def HAL_GPIO_WritePin_def board_env_def pin_events_def ENC28J60_CS_Pin_def)
  show "\<exists>vs. length vs = length bs \<and> brd_log (brd_wr dv bs w) = brd_log w @ map2 Xfer bs vs"
    if "length bs < 2 ^ 16" for bs w
    using that
  proof transfer
    fix dv :: device and bs :: "u8 list" and s :: "board spi_st" assume "board_ok s" and "length bs < 2 ^ 16"
    with spi1Write_board [of s dv bs] show "\<exists>vs. length vs = length bs \<and>
        bus (per (the (spi1Write (board_env dv) bs (word_of_nat (length bs)) s))) = bus (per s) @ map2 Xfer bs vs"
      by (metis length_answers option.sel)
  qed
  show "brd_log (brd_dly dv n w) = brd_log w" for n w
  proof transfer
    fix dv n and s :: "board spi_st"
    show "bus (per (the (delayMsFunction (board_env dv) n s))) = bus (per s)"
      using HAL_Delay_board [of dv n s] by (auto simp: delayMsFunction_def)
  qed
  fix k w
  show "length (fst (fst (brd_rd dv k w))) = unat k"
    by (simp add: brd_rd_answers stale_buf_def)
  show "\<exists>ds. length ds = unat k \<and>
      brd_log (snd (brd_rd dv k w)) = brd_log w @ map2 Xfer ds (fst (fst (brd_rd dv k w)))"
    unfolding brd_rd_answers by (rule exI [of _ "stale_buf (unat k) (rep_board w)"]) (simp add: stale_buf_def)
qed

section \<open>A device\<close>

text \<open>
  The register file of the chip as a device: it answers a register read with what has been
  programmed, is never busy with the MII and has its clock ready.  For the other instructions it
  answers 0.  On this device the polling loops of the driver end.
\<close>

definition chip_device :: device where
  "chip_device log d =
     (let c = chip_run log in
      case ccmd c of None \<Rightarrow> 0
      | Some op \<Rightarrow>
          (if op AND 0xE0 \<noteq> 0 then 0
           else (let k = reg_key (bsel c) (op AND 0x1F) in
             if k = 0xCA then 0 else if k = 0x1D then creg c k OR 1 else creg c k)))"

lemma chip_device_cmd:
  assumes "v AND 0xE0 = 0"
  shows "ccmd (chip_run (es @ [CS, Xfer v a])) = Some v" and "bsel (chip_run (es @ [CS, Xfer v a])) = bsel (chip_run es)"
    and "reading (chip_run (es @ [CS, Xfer v a]))"
proof -
  have "v \<noteq> 0xFF" using assms by auto
  then show "ccmd (chip_run (es @ [CS, Xfer v a])) = Some v"
    "bsel (chip_run (es @ [CS, Xfer v a])) = bsel (chip_run es)"
    "reading (chip_run (es @ [CS, Xfer v a]))"
    using assms by (simp_all add: chip_run_append chip_byte_def bsel_def reading_def chip_event.simps)
qed

interpretation dev: ready_bus "brd_cs chip_device" "brd_ds chip_device" "brd_rd chip_device"
  "brd_wr chip_device" "brd_dly chip_device" brd_log
proof
  have hd1: "hd (fst (fst (brd_rd chip_device 1 w))) AND 1 = m"
    if "\<And>d. chip_device (brd_log w) d AND 1 = m" for w m
  proof -
    obtain d where "stale_buf (unat (1 :: u16)) (rep_board w) = [d]" by (simp add: stale_buf_def)
    with that show ?thesis by (simp add: brd_rd_answers)
  qed
  show "hd (fst (fst (brd_rd chip_device 1 w))) AND 1 = 0"
    if "brd_log w = es @ [CS, Xfer 0x0A a, Xfer d b]" and "bsel (chip_run es) = 3" for w es a d b
  proof (rule hd1)
    note c = chip_device_cmd [of "0x0A" es a]
    have s: "chip_run (brd_log w) = chip_event (Xfer d b) (chip_run (es @ [CS, Xfer 0x0A a]))"
      using chip_run_append [of "es @ [CS, Xfer 0x0A a]" "[Xfer d b]"] that(1) by simp
    have "ccmd (chip_run (brd_log w)) = Some 0x0A" "bsel (chip_run (brd_log w)) = 3"
      using c that(2) by (simp_all add: s chip_byte_reading bsel_def chip_event.simps)
    then show "chip_device (brd_log w) d' AND 1 = 0" for d'
      by (simp add: chip_device_def reg_key_def)
  qed
  show "hd (fst (fst (brd_rd chip_device 1 w))) AND 1 \<noteq> 0" if "brd_log w = es @ [CS, Xfer 0x1D a]" for w es a
  proof -
    note c = chip_device_cmd [of "0x1D" es a]
    have "chip_device (brd_log w) d' AND 1 = 1" for d'
      using c by (simp add: chip_device_def that reg_key_def bit.conj_disj_distrib2)
    from hd1 [OF this] show ?thesis by simp
  qed
qed

section \<open>Properties of the SPI layer\<close>

text \<open>
  C18: for every peripheral, a blocking HAL transfer that returns from a ready and unlocked
  handle, whether it succeeded, failed or timed out, leaves the handle ready and unlocked with its
  configuration unchanged, so that the next call of the driver is not refused with \<open>HAL_BUSY\<close>.
\<close>

theorem hal_stays_ready:
  assumes "hal_idle s"
    and "HAL_SPI_Transmit e p n T s = Some (r, s') \<or> HAL_SPI_Receive e p n T s = Some (r, s')"
  shows "hal_idle s' \<and> Init (hspi s') = Init (hspi s)"
  using assms(2) HAL_SPI_Transmit_post [OF assms(1), of e p n T] HAL_SPI_Receive_post [OF assms(1), of e p n T]
  by (auto simp: post_def idle_as_def)

theorem hal_stays_ready_witness:
  "\<exists>r s'. HAL_SPI_Receive (board_env chip_device) (Some 0) 1 MAX_TIME_OUT (board_init\<lparr>mem := [0]\<rparr>) = Some (r, s') \<and>
     hal_idle s'"
proof -
  let ?s = "board_init\<lparr>mem := [0]\<rparr>"
  have ok: "board_ok ?s" using board_ok_init by (simp add: board_ok_def hal_idle_def)
  then obtain s' where r: "HAL_SPI_Receive (board_env chip_device) (Some 0) 1 MAX_TIME_OUT ?s = Some (HAL_OK, s')"
    using HAL_SPI_Receive_board [OF ok, of 1 chip_device] by (auto simp: board_init_def)
  have "hal_idle ?s" using ok by (simp add: board_ok_def)
  from hal_stays_ready [OF this disjI2 [OF r]] r show ?thesis by blast
qed

text \<open>
  C17: \<open>spi1Read\<close> on the board reports success and stores the device's answers in the
  buffer; the bytes it clocks out are the old contents of the buffer, since the HAL passes the receive
  buffer as transmit buffer, too.
\<close>

theorem spi1_read_wire:
  assumes "board_ok s" and "length buf = unat n" and "n \<noteq> 0"
  shows "\<exists>s'. spi1Read (board_env dv) buf n s = Some ((answers dv (bus (per s)) buf, 1), s') \<and>
    board_ok s' \<and> bus (per s') = bus (per s) @ map2 Xfer buf (answers dv (bus (per s)) buf)"
proof -
  have "board_ok (s\<lparr>mem := buf\<rparr>)" using assms(1) by (simp add: board_ok_def hal_idle_def)
  from HAL_SPI_Receive_board [OF this, of n dv] assms(2,3) show ?thesis
    by (auto simp: spi1Read_def)
qed

theorem spi1_read_wire_witness:
  "\<exists>s'. spi1Read (board_env (\<lambda>_ d. d + 1)) [7, 9] 2 board_init = Some (([8, 10], 1), s') \<and>
     bus (per s') = [Xfer 7 8, Xfer 9 10]"
  using spi1_read_wire [OF board_ok_init, of "[7, 9]" 2 "\<lambda>_ d. d + 1"] by (auto simp: board_init_def)

text \<open>
  C16: \<open>spi1Write\<close> on the board puts exactly its bytes on the wire, in order, for every
  length a \<open>uint16_t\<close> holds, and leaves no received byte behind for the next read.
\<close>

theorem spi1_write_wire:
  assumes "board_ok s" and "length bs < 2 ^ 16"
  shows "\<exists>s'. spi1Write (board_env dv) bs (of_nat (length bs)) s = Some s' \<and> board_ok s' \<and>
    rxd (per s') = None \<and> bus (per s') = bus (per s) @ map2 Xfer bs (answers dv (bus (per s)) bs)"
  using spi1Write_board [OF assms(1), of dv bs] assms(2) by (auto simp: board_ok_def)

theorem spi1_write_wire_witness:
  "\<exists>s'. spi1Write (board_env (\<lambda>_ d. d + 1)) [7, 9] 2 board_init = Some s' \<and>
     bus (per s') = [Xfer 7 8, Xfer 9 10]"
  using spi1_write_wire [OF board_ok_init, of "[7, 9]" "\<lambda>_ d. d + 1"] by (auto simp: board_init_def)

text \<open>
  \<open>MX_SPI1_Init\<close> never reaches \<open>Error_Handler\<close>; on the board it programs SPI1 as
  8-bit master in mode 0 with software slave select and a quarter of the bus clock (CR1 = 0x30C,
  CR2 = 0) and leaves the handle ready with that configuration.
\<close>

theorem spi1_configured:
  "\<exists>s'. MX_SPI1_Init (board_env dv) id s = Some s' \<and> cr1 (per s') = 0x30C \<and> cr2 (per s') = 0 \<and>
    State (hspi s') = HAL_SPI_STATE_READY \<and> Init (hspi s') = spi1_Init \<and> bus (per s') = bus (per s)"
  by (simp add: MX_SPI1_Init_def HAL_SPI_Init_def Let_def board_env_def set_State_def set_ErrorCode_def
      HAL_SPI_DISABLE_def CR1_clear_def) (simp add: spi1_Init_def spi_consts)

end
