(* ===== verification/Enc_Spec.thy ===== *)
theory Enc_Spec
  imports Spi_Board
begin

text \<open>
  What the driver promises its callers, stated over any bus that satisfies \<open>spi_bus\<close> and, for
  the witnesses, evaluated on the board of \<open>Spi_Board\<close> with the register file as device.  The
  driver's entry points are collected in a step relation \<open>drv_step\<close>, whose reachable states keep
  the invariant and whose register file is the one a driver writer has in mind.
\<close>

section \<open>The entry points as a step relation\<close>

text \<open>
  \<open>drv_step s s'\<close>: one call of an entry point of the driver takes \<open>s\<close> to \<open>s'\<close>.  A register
  access may name any register but ECON1, whose bank bits belong to the driver.
\<close>

inductive drv_step :: "'w sys \<Rightarrow> 'w sys \<Rightarrow> bool" where
  step_strtDr: "enc28j60_strtDr s = Some s' \<Longrightarrow> drv_step s s'"
| step_transmit: "enc28j60_etherTransmit bs len s = Some (b, s') \<Longrightarrow> length bs < 2 ^ 16 \<Longrightarrow> drv_step s s'"
| step_receive: "enc28j60_etherReceive s = Some (b, s') \<Longrightarrow> drv_step s s'"
| step_writeReg: "enc28j60_writeReg r v s = Some s' \<Longrightarrow> r AND 0x1F \<noteq> 0x1F \<Longrightarrow> drv_step s s'"
| step_readEtherReg: "enc28j60_readEtherReg r s = Some (v, s') \<Longrightarrow> drv_step s s'"
| step_readMacMIIReg: "enc28j60_readMacMIIReg r s = Some (v, s') \<Longrightarrow> drv_step s s'"
| step_readPhyReg: "enc28j60_readPhyReg a s = Some (w, s') \<Longrightarrow> drv_step s s'"
| step_writePhyReg: "enc28j60_writePhyReg a w s = Some s' \<Longrightarrow> drv_step s s'"
| step_getEtherInterrupt: "enc28j60_getEtherInterrupt s = Some (v, s') \<Longrightarrow> drv_step s s'"
| step_clear_interrupt: "enc28j60_clear_interrupt fl s = Some s' \<Longrightarrow> drv_step s s'"
| step_global_Int_Set: "enc28j60_global_Int_Set s = Some s' \<Longrightarrow> drv_step s s'"
| step_global_int_Clear: "enc28j60_global_int_Clear s = Some s' \<Longrightarrow> drv_step s s'"
| step_link_change: "enc28j60_link_change_int_clear s = Some s' \<Longrightarrow> drv_step s s'"

inductive_cases drv_stepE: "drv_step s s'"

inductive drv_reach :: "'w sys \<Rightarrow> 'w sys \<Rightarrow> bool" for s0 where
  reach_init: "drv_reach s0 s0"
| reach_step: "drv_reach s0 s \<Longrightarrow> drv_step s s' \<Longrightarrow> drv_reach s0 s'"

text \<open>The state \<open>main\<close> leaves after \<open>enc28j60_initDr\<close>, on the board with device \<open>dv\<close>.\<close>

definition brd_sys :: "device \<Rightarrow> wboard sys" where
  "brd_sys dv = enc28j60_initDr (Some (brd_cs dv)) (Some (brd_ds dv)) (Some (brd_rd dv)) (Some (brd_wr dv))
     None (Some (brd_dly dv)) \<lparr>dev = dev_init, hw = Abs_board board_init, uart = []\<rparr>"

lemma brd_log_init: "brd_log (Abs_board board_init) = []"
  by (simp add: brd_log.rep_eq Abs_board_inverse) (simp add: board_init_def)

lemma brd_sys_inv: "drv_inv (brd_cs dv) (brd_ds dv) (brd_rd dv) (brd_wr dv) (brd_dly dv) brd_log (brd_sys dv)"
  by (simp add: drv_inv_def brd_sys_def enc28j60_initDr_def wired_def prog_chip_def brd_log_init bank_inv_def)
    (simp add: dev_init_def bsel_def chip_run_def chip_power_on_def reset_reg_def)

lemma brd_bus: "spi_bus (brd_cs dv) (brd_ds dv) (brd_rd dv) (brd_wr dv) (brd_dly dv) brd_log"
  by (rule brd.spi_bus_axioms)

lemma dev_bus: "ready_bus (brd_cs chip_device) (brd_ds chip_device) (brd_rd chip_device) (brd_wr chip_device)
    (brd_dly chip_device) brd_log"
  by (rule dev.ready_bus_axioms)

lemma brd_sys_simps:
  "prog_chip brd_log (brd_sys dv) = chip_power_on" "bnBank (dev (brd_sys dv)) = bank_0"
  "rxPkt (dev (brd_sys dv)) = rxPkt_init"
  by (simp_all add: brd_sys_def prog_chip_def enc28j60_initDr_def brd_log_init chip_run_def dev_init_def)

section \<open>The promises, for every bus\<close>

context spi_bus
begin

text \<open>Every entry point keeps the invariant.\<close>

lemma inv_clear: "inv s \<Longrightarrow> r AND 0x1F = 0x1F \<longrightarrow> v AND 3 = 0 \<Longrightarrow> enc28j60_BitFieldClear r v s = Some s' \<Longrightarrow> inv s'"
  by (simp add: clr_st_eqs(1)) (metis inv_clr_st)

lemma inv_set: "inv s \<Longrightarrow> r AND 0x1F = 0x1F \<longrightarrow> v AND 3 = 0 \<Longrightarrow> enc28j60_BitFieldSet r v s = Some s' \<Longrightarrow> inv s'"
  by (simp add: set_st_eqs(1)) (metis inv_set_st)

lemma inv_common:
  assumes "inv s"
  shows "EIE (commonRegs_b0 (bank0 (dev s))) = 0x1B" "EIR (commonRegs_b0 (bank0 (dev s))) = 0x1C"
    "ECON2 (commonRegs_b0 (bank0 (dev s))) = 0x1E"
  using invD(2) [OF assms] by (simp_all add: reg_addrs)

lemma clear_interrupt_eq:
  assumes i: "inv s"
  shows "enc28j60_clear_interrupt fl s =
    (if fl = PKTIF then enc28j60_BitFieldSet 0x1E 0x40 s
     else enc28j60_BitFieldClear 0x1C (eth_int_flag_val fl) s)"
  by (cases fl) (simp_all add: enc28j60_clear_interrupt_def Let_def inv_common [OF i])

lemma getEtherInterrupt_inv:
  assumes i: "inv s" and r: "enc28j60_getEtherInterrupt s = Some (v, s')"
  shows "inv s'"
proof (cases "bnBank (dev s)")
  case undefBank
  with r i show ?thesis by (auto simp: enc28j60_getEtherInterrupt_def)
qed (use r inv_rde_st [OF i] rde_st_eqs(1) [OF i] in \<open>auto simp: enc28j60_getEtherInterrupt_def\<close>)

lemma drv_step_inv: "drv_step s s' \<Longrightarrow> inv s \<Longrightarrow> inv s'"
proof (induction rule: drv_step.induct)
  case (step_strtDr s s')
  then show ?case by (metis strtDr_inv)
next
  case (step_transmit bs len s b s')
  then show ?case using tx_end_frame(1) [of s bs len] by (auto simp: etherTransmit_eq)
next
  case (step_receive s b s')
  obtain u u' where "enc28j60_etherReceive s = Some (rx_ok s, (rx_end s u)\<lparr>uart := u'\<rparr>)"
    using step_receive(2) by (rule etherReceive_eq)
  with step_receive show ?case using rx_end(1) [of s u] by auto
next
  case (step_writeReg r v s s')
  then show ?case by (simp add: wr_st_eqs(1)) (metis inv_wr_st)
next
  case (step_readEtherReg r s v s')
  then show ?case by (simp add: rde_st_eqs(1)) (metis inv_rde_st)
next
  case (step_readMacMIIReg r s v s')
  then show ?case by (simp add: rdm_st_eqs(1)) (metis inv_rdm_st)
next
  case (step_readPhyReg a s w s')
  then show ?case by (metis readPhyReg_state(1))
next
  case (step_writePhyReg a w s s')
  then show ?case by (metis writePhyReg_state(1))
next
  case (step_getEtherInterrupt s v s')
  then show ?case by (metis getEtherInterrupt_inv)
next
  case (step_clear_interrupt fl s s')
  then show ?case
    using inv_set [of s "0x1E" "0x40" s'] inv_clear [of s "0x1C" "eth_int_flag_val fl" s']
    by (simp add: clear_interrupt_eq split: if_splits)
next
  case (step_global_Int_Set s s')
  then show ?case using inv_set [of s "0x1B" "0x80" s'] by (simp add: enc28j60_global_Int_Set_def inv_common)
next
  case (step_global_int_Clear s s')
  then show ?case using inv_clear [of s "0x1B" "0x80" s'] by (simp add: enc28j60_global_int_Clear_def inv_common)
next
  case (step_link_change s s')
  then show ?case using inv_clear [of s "0x1B" "0x10" s'] by (simp add: enc28j60_link_change_int_clear_def inv_common)
qed

text \<open>Transmission: where the transmit engine finds the frame.\<close>

lemma transmit_promise:
  assumes i: "inv s" and ai: "autoinc (chips s)" and len: "length bs = unat len" "unat len \<le> 2047"
  shows "\<exists>s'. enc28j60_etherTransmit bs len s = Some (True, s') \<and> inv s' \<and>
    (\<forall>a. cmem (chips s') a = (if 0x1800 \<le> unat a \<and> unat a \<le> 0x1800 + unat len
       then (0x00 # bs) ! (unat a - 0x1800) else cmem (chips s) a)) \<and>
    u16_of (creg (chips s') 0x04) (creg (chips s') 0x05) = 0x1800 \<and>
    u16_of (creg (chips s') 0x06) (creg (chips s') 0x07) = 0x1800 + len \<and>
    bit (creg (chips s') 0x1F) 3 \<and> \<not> bit (creg (chips s') 0x1C) 3 \<and>
    bit (creg (chips s') 0x1B) 3 \<and> bit (creg (chips s') 0x1B) 7 \<and>
    (\<forall>k. k \<notin> {0x02, 0x03, 0x04, 0x05, 0x06, 0x07, 0x1B, 0x1C, 0x1F} \<longrightarrow> creg (chips s') k = creg (chips s) k)"
proof -
  have l: "length bs < 2 ^ 16" "length bs \<le> 2047" using len by simp_all
  let ?s = "tx_end_st bs len s"
  note e = tx_end_st [OF i ai l(2), where len = len] and m = tx_mem_st(1) [OF i ai l(2), where len = len]
  have "\<forall>a. cmem (chips ?s) a = (if 0x1800 \<le> unat a \<and> unat a \<le> 0x1800 + unat len
       then (0x00 # bs) ! (unat a - 0x1800) else cmem (chips s) a)"
    using m by (simp add: e(1) len(1))
  moreover have "u16_of (creg (chips ?s) 0x04) (creg (chips ?s) 0x05) = 0x1800"
    by (simp add: e(2) u16_of_def)
  moreover have "u16_of (creg (chips ?s) 0x06) (creg (chips ?s) 0x07) = 0x1800 + len"
    by (simp add: e(2))
  moreover have "bit (creg (chips ?s) 0x1F) 3" "\<not> bit (creg (chips ?s) 0x1C) 3"
    "bit (creg (chips ?s) 0x1B) 3" "bit (creg (chips ?s) 0x1B) 7"
    by (simp_all add: e(2)) (simp_all add: bit_simps)
  moreover have "\<forall>k. k \<notin> {0x02, 0x03, 0x04, 0x05, 0x06, 0x07, 0x1B, 0x1C, 0x1F} \<longrightarrow> creg (chips ?s) k = creg (chips s) k"
    by (simp add: e(2))
  ultimately show ?thesis
    using etherTransmit_eq [OF i l(1)] tx_end_frame(1) [OF i l(1)] by (intro exI [of _ ?s]) simp
qed

text \<open>Reception: what is read from the device and where it goes.\<close>

lemma receive_promise:
  assumes i: "inv s"
  shows "\<exists>ok s' nxt sv dat. enc28j60_etherReceive s = Some (ok, s') \<and> inv s' \<and>
    cread (chips s') = cread (chips s) @ nxt @ sv @ dat \<and> length nxt = 2 \<and> length sv = 4 \<and>
    (ok \<longleftrightarrow> u16_of (sv ! 0) (sv ! 1) < 1518) \<and>
    length dat = (if ok then unat (u16_of (sv ! 0) (sv ! 1)) else 0) \<and>
    rxPktLen (rxPkt (dev s')) = of_nat (length dat) \<and>
    u16_of (creg (chips s') 0x00) (creg (chips s') 0x01) = ptrAddr (rxPkt (dev s)) \<and>
    u16_of (creg (chips s') 0x0C) (creg (chips s') 0x0D) = erxrdpt_for (ptrAddr (rxPkt (dev s'))) \<and>
    (length (rx_data (rxPkt (dev s))) = 1500 \<longrightarrow> length dat \<le> 1500 \<longrightarrow>
      ptrAddr (rxPkt (dev s')) = u16_of (nxt ! 0) (nxt ! 1) \<and>
      rx_data (rxPkt (dev s')) = dat @ drop (length dat) (rx_data (rxPkt (dev s))) \<and>
      txPkt (dev s') = txPkt (dev s)) \<and>
    (1502 \<le> length dat \<longrightarrow> ptrAddr (rxPkt (dev s')) = u16_of (dat ! 1500) (dat ! 1501))"
proof -
  obtain u u' where r: "enc28j60_etherReceive s = Some (rx_ok s, (rx_end s u)\<lparr>uart := u'\<rparr>)"
    using i by (rule etherReceive_eq)
  let ?s = "(rx_end s u)\<lparr>uart := u'\<rparr>"
  note e = rx_end [OF i, of u] and l = rx_lengths [of s]
  have d: "dev ?s = rx_dev s" by (simp add: e)
  have c: "cread (chips ?s) = cread (chips s) @ rx_nxt s @ rx_sv s @ rx_dat s"
    using e(6) by (simp add: chip_logs_def)
  have n: "rxPktLen (rxPkt (dev ?s)) = of_nat (length (rx_dat s))"
    using l(3) by (simp add: e(2)) (simp add: rx_dev_def)
  have len: "length (rx_dat s) = (if rx_ok s then unat (u16_of (rx_sv s ! 0) (rx_sv s ! 1)) else 0)"
    using l(3) by (simp add: rx_n_def rx_len_def)
  have fits: "ptrAddr (rxPkt (dev ?s)) = u16_of (rx_nxt s ! 0) (rx_nxt s ! 1) \<and>
      rx_data (rxPkt (dev ?s)) = rx_dat s @ drop (length (rx_dat s)) (rx_data (rxPkt (dev s))) \<and>
      txPkt (dev ?s) = txPkt (dev s)"
    if "length (rx_data (rxPkt (dev s))) = 1500" "length (rx_dat s) \<le> 1500"
    unfolding d rx_dev_def using that by (simp add: store_rx_data_fits)
  have over: "ptrAddr (rxPkt (dev ?s)) = u16_of (rx_dat s ! 1500) (rx_dat s ! 1501)"
    if "1502 \<le> length (rx_dat s)"
    unfolding d rx_dev_def by (rule store_rx_data_overrun(1) [OF that])
  have "u16_of (creg (chips ?s) 0x00) (creg (chips ?s) 0x01) = ptrAddr (rxPkt (dev s))"
    "u16_of (creg (chips ?s) 0x0C) (creg (chips ?s) 0x0D) = erxrdpt_for (ptrAddr (rxPkt (dev ?s)))"
    by (simp_all add: e(4) d)
  with r c n len l fits over e(1) show ?thesis
    by (intro exI [of _ "rx_ok s"] exI [of _ ?s] exI [of _ "rx_nxt s"] exI [of _ "rx_sv s"] exI [of _ "rx_dat s"])
      (simp add: rx_ok_def rx_len_def)
qed

text \<open>Register accesses act on the register file when they are routed, and in bank 0 when not.\<close>

lemma write_promise:
  assumes i: "inv s" and e: "r AND 0x1F \<noteq> 0x1F"
  shows "\<exists>s'. enc28j60_writeReg r v s = Some s' \<and> inv s' \<and>
    cfg_of (chips s') = (if routed log r s then reg_write (rkey r) v (cfg_of (chips s))
      else reg_write (reg_key 0 (r AND 0x1F)) v (cfg_of (chips s)))"
proof (cases "routed log r s")
  case True
  from write_step [OF i True e] show ?thesis using True by metis
next
  case False
  note m = acc_misrouted [OF i False]
  have k: "reg_key 0 (r AND 0x1F) \<noteq> 0x1F" using e by (simp add: reg_key_ECON1)
  have "cfg_of (chips (wr_st r v s)) = reg_write (reg_key 0 (r AND 0x1F)) v (cfg_of (chips s))"
    unfolding wr_st_eqs(4) [OF i] m(1,2) by (rule cfg_of_write [OF k])
  with False show ?thesis using wr_st_eqs(1) [OF i, of r v] inv_wr_st [OF i e] by auto
qed

text \<open>
  An access to bank 0 while the cache holds another bank leaves the two apart, and the next
  access to the cached bank lands in bank 0.
\<close>

lemma misroute_promise:
  assumes i: "inv s" and b0: "rbits r0 = 0" "r0 AND 0x1F \<noteq> 0x1F"
    and r: "convertRegValToBank r = bnBank (dev s)" "rbits r \<noteq> 0" "r AND 0x1F < 0x1B"
  shows "\<exists>s1 s2. enc28j60_writeReg r0 v0 s = Some s1 \<and> enc28j60_writeReg r v s1 = Some s2 \<and>
    cfg_of (chips s2) = reg_write (r AND 0x1F) v (reg_write (rkey r0) v0 (cfg_of (chips s)))"
proof -
  have e: "r AND 0x1F \<noteq> 0x1F" using r(3) by auto
  obtain s1 where s1: "enc28j60_writeReg r0 v0 s = Some s1" "inv s1"
    "cfg_of (chips s1) = reg_write (rkey r0) v0 (cfg_of (chips s))"
    "dev s1 = (dev s)\<lparr>bnBank := next_bank r0 (bnBank (dev s))\<rparr>" "bsel (chips s1) = rbits r0"
    using write_step [OF i bank0_routed [OF i b0(1)] b0(2)] by metis
  have nr: "\<not> routed log r s1"
    using s1(4,5) r(1,2) b0(1) by (simp add: routed_def next_bank_bank0)
  have k: "reg_key 0 (r AND 0x1F) = r AND 0x1F" by (simp add: reg_key_def)
  from write_promise [OF s1(2) e, of v] nr s1(1,3) k show ?thesis by auto
qed

lemma clear_interrupt_promise:
  assumes i: "inv s"
  shows "\<exists>s'. enc28j60_clear_interrupt fl s = Some s' \<and> inv s' \<and>
    cfg_of (chips s') = (if fl = PKTIF then reg_set 0x1E 0x40 (cfg_of (chips s))
      else reg_clear 0x1C (eth_int_flag_val fl) (cfg_of (chips s)))"
proof -
  have b: "rbits 0x1E = 0" "rbits 0x1C = 0" by (simp_all add: rbits_def)
  note x = bank0_set [OF i b(1), of "0x40"] and y = bank0_clear [OF i b(2), of "eth_int_flag_val fl"]
  show ?thesis
    unfolding clear_interrupt_eq [OF i]
    by (cases "fl = PKTIF")
      (simp_all add: x y cfg_of_set cfg_of_clear cfg_of_c_sel rkey_def reg_key_def rbits_def)
qed

lemma start_promise:
  assumes i: "inv s" and b: "bnBank (dev s) \<noteq> bank_2" and e: "enc28j60_strtDr s = Some s'"
  shows "\<exists>v w. inv s' \<and> autoinc (chips s') \<and>
    (\<forall>(k, x) \<in> set [(0x04, 0x00), (0x05, 0x18), (0x06, 0xFF), (0x07, 0x1F), (0x08, 0x00), (0x09, 0x00),
        (0x0A, 0xFF), (0x0B, 0x17), (0x0C, 0xFF), (0x0D, 0x17), (0x1B, 0xFF), (0x58, 0xA1),
        (0x8A, 0xDC), (0x8B, 0x05)]. creg (chips s') k = x) \<and>
    u16_of (creg (chips s') 0x00) (creg (chips s') 0x01) = ptrAddr (rxPkt (dev s)) \<and>
    creg (chips s') 0x1F = 0x04 \<and>
    map (creg (chips s')) [0xC1, 0xC0, 0xC3, 0xC2, 0xC5, 0xC4] = mac \<and>
    phyr (chips s') = phyr (chips s) @ [3, 3, 2, 3, 0x12] \<and>
    phyw (chips s') = phyw (chips s) @ [(0x00, v OR 0x100), (0x12, w OR 0x12)] \<and>
    dev s' = (dev s)\<lparr>bnBank := bank_1\<rparr> \<and> uart s' = uart s"
proof -
  obtain xs where l: "4 \<le> length (micmd xs)" and
    h: "here0 (start_cfg xs (ptrAddr (rxPkt (dev s))) (cfg_of (chips s))) ((dev s)\<lparr>bnBank := bank_1\<rparr>) (uart s) s'"
    using strtDr_state [OF i b e] by blast
  let ?c = "start_cfg xs (ptrAddr (rxPkt (dev s))) (cfg_of (chips s))"
  have c: "cfg_of (chips s') = ?c" and b0: "bsel (chips s') = 0" and r: "inv s'"
    "dev s' = (dev s)\<lparr>bnBank := bank_1\<rparr>" "uart s' = uart s"
    using h by (simp_all add: here0_def)
  have k: "creg (chips s') k = creg ?c k" if "k \<noteq> 0x1F" for k
    using that arg_cong [OF c, of "\<lambda>c. creg c k"] by (simp add: cfg_of_def)
  have "creg (chips s') 0x1F AND NOT 3 = 0x04"
    using arg_cong [OF c, of "\<lambda>c. creg c 0x1F"] creg_start(15) [of xs "ptrAddr (rxPkt (dev s))" "cfg_of (chips s)"]
    by (simp add: cfg_of_def)
  with b0 and_not_or_and [of "creg (chips s') 0x1F" 3] have e1: "creg (chips s') 0x1F = 0x04"
    by (simp add: bsel_def)
  have p: "phyr (chips s') = phyr ?c" "phyw (chips s') = phyw ?c" "phyr (cfg_of (chips s)) = phyr (chips s)"
    "phyw (cfg_of (chips s)) = phyw (chips s)"
    using arg_cong [OF c, of phyr] arg_cong [OF c, of phyw] by (simp_all add: cfg_of_def)
  have m: "map (creg (chips s')) [0xC1, 0xC0, 0xC3, 0xC2, 0xC5, 0xC4] = mac"
    using creg_start(19) [of xs "ptrAddr (rxPkt (dev s))" "cfg_of (chips s)"] by (simp add: k)
  show ?thesis
    apply (rule exI [of _ "phcon1 xs"], rule exI [of _ "phie xs"])
    using r e1 m by (simp add: k creg_start autoinc_def p phy_start [OF l])
qed

end

section \<open>Properties of the driver\<close>

text \<open>
  C9: on every SPI bus, whatever sequence of entry points the application calls, the
  driver stays wired to its bus with its register tables intact, the chip is left deselected
  between two calls, and the chip is in the cached bank or in bank 0.
\<close>

theorem reach_inv:
  assumes "spi_bus cs ds rd wr dly log" and "drv_reach s0 s" and "drv_inv cs ds rd wr dly log s0"
  shows "drv_inv cs ds rd wr dly log s"
  using assms(2,3)
proof (induction rule: drv_reach.induct)
  case (reach_step s s')
  then show ?case using spi_bus.drv_step_inv [OF assms(1)] by blast
qed simp

theorem reach_inv_witness:
  "\<exists>s. drv_step (brd_sys chip_device) s \<and>
     drv_inv (brd_cs chip_device) (brd_ds chip_device) (brd_rd chip_device) (brd_wr chip_device)
       (brd_dly chip_device) brd_log s"
proof -
  obtain s where "enc28j60_strtDr (brd_sys chip_device) = Some s"
    using ready_bus.ok_strtDr [OF dev_bus brd_sys_inv] by (auto simp: spi_bus.tot_def [OF brd_bus])
  then have st: "drv_step (brd_sys chip_device) s" by (rule step_strtDr)
  with reach_init [of "brd_sys chip_device"] have "drv_reach (brd_sys chip_device) s" by (rule reach_step)
  from st reach_inv [OF brd_bus this brd_sys_inv] show ?thesis by blast
qed

text \<open>
  C5: on every SPI bus, with AUTOINC set, \<open>enc28j60_etherTransmit\<close> of at most 2047 bytes
  returns true and leaves the per-packet control byte 0 at 0x1800 and the frame right behind it,
  the rest of the buffer memory untouched, ETXST and ETXND around them, TXIF cleared, its interrupt
  enabled and TXRTS set; no other register changes.
\<close>

theorem transmit_frame:
  assumes "spi_bus cs ds rd wr dly log" and "drv_inv cs ds rd wr dly log s"
    and "autoinc (prog_chip log s)" and "length bs = unat len" and "unat len \<le> 2047"
  shows "\<exists>s'. enc28j60_etherTransmit bs len s = Some (True, s') \<and> drv_inv cs ds rd wr dly log s' \<and>
    (\<forall>a. cmem (prog_chip log s') a = (if 0x1800 \<le> unat a \<and> unat a \<le> 0x1800 + unat len
       then (0x00 # bs) ! (unat a - 0x1800) else cmem (prog_chip log s) a)) \<and>
    u16_of (creg (prog_chip log s') 0x04) (creg (prog_chip log s') 0x05) = 0x1800 \<and>
    u16_of (creg (prog_chip log s') 0x06) (creg (prog_chip log s') 0x07) = 0x1800 + len \<and>
    bit (creg (prog_chip log s') 0x1F) 3 \<and> \<not> bit (creg (prog_chip log s') 0x1C) 3 \<and>
    bit (creg (prog_chip log s') 0x1B) 3 \<and> bit (creg (prog_chip log s') 0x1B) 7 \<and>
    (\<forall>k. k \<notin> {0x02, 0x03, 0x04, 0x05, 0x06, 0x07, 0x1B, 0x1C, 0x1F} \<longrightarrow>
       creg (prog_chip log s') k = creg (prog_chip log s) k)"
  by (rule spi_bus.transmit_promise [OF assms])

lemma autoinc_power_on: "autoinc (prog_chip brd_log (brd_sys dv))"
  by (simp add: brd_sys_simps autoinc_def chip_power_on_def reset_reg_def)

theorem transmit_frame_witness:
  "\<exists>s'. enc28j60_etherTransmit [0xAA, 0xBB] 2 (brd_sys chip_device) = Some (True, s') \<and>
     cmem (prog_chip brd_log s') 0x1802 = 0xBB"
proof -
  obtain s' where "enc28j60_etherTransmit [0xAA, 0xBB] 2 (brd_sys chip_device) = Some (True, s')"
    and "\<forall>a. cmem (prog_chip brd_log s') a = (if 0x1800 \<le> unat a \<and> unat a \<le> 0x1800 + unat (2 :: u16)
       then [0x00, 0xAA, 0xBB] ! (unat a - 0x1800) else cmem (prog_chip brd_log (brd_sys chip_device)) a)"
    using transmit_frame [OF brd_bus brd_sys_inv autoinc_power_on, of "[0xAA, 0xBB]" 2 chip_device] by auto
  then show ?thesis by (intro exI [of _ s']) simp
qed

text \<open>
  C6: \<open>enc28j60_etherReceive\<close> always returns.  It reads from ERDPT, set to the saved
  pointer, the two-byte next-packet pointer, the four-byte status vector and, when the length in it
  is below 1518, that many bytes (none otherwise, and it returns false).  A packet of at most 1500
  bytes is stored in \<open>rxPkt.data\<close>, the saved pointer becomes the next-packet pointer, and ERXRDPT
  is set one below it, wrapping to the end of the receive buffer.
\<close>

theorem receive_frame:
  assumes "spi_bus cs ds rd wr dly log" and "drv_inv cs ds rd wr dly log s"
    and "length (rx_data (rxPkt (dev s))) = 1500"
  shows "\<exists>ok s' nxt sv dat. enc28j60_etherReceive s = Some (ok, s') \<and> drv_inv cs ds rd wr dly log s' \<and>
    cread (prog_chip log s') = cread (prog_chip log s) @ nxt @ sv @ dat \<and> length nxt = 2 \<and> length sv = 4 \<and>
    (ok \<longleftrightarrow> u16_of (sv ! 0) (sv ! 1) < 1518) \<and>
    length dat = (if ok then unat (u16_of (sv ! 0) (sv ! 1)) else 0) \<and>
    rxPktLen (rxPkt (dev s')) = of_nat (length dat) \<and>
    u16_of (creg (prog_chip log s') 0x00) (creg (prog_chip log s') 0x01) = ptrAddr (rxPkt (dev s)) \<and>
    u16_of (creg (prog_chip log s') 0x0C) (creg (prog_chip log s') 0x0D) = erxrdpt_for (ptrAddr (rxPkt (dev s'))) \<and>
    (length dat \<le> 1500 \<longrightarrow>
      ptrAddr (rxPkt (dev s')) = u16_of (nxt ! 0) (nxt ! 1) \<and>
      rx_data (rxPkt (dev s')) = dat @ drop (length dat) (rx_data (rxPkt (dev s))) \<and>
      txPkt (dev s') = txPkt (dev s))"
  using spi_bus.receive_promise [OF assms(1,2)] assms(3) by (elim exE) (intro exI, fast)

theorem receive_frame_witness:
  "\<exists>ok s'. enc28j60_etherReceive (brd_sys chip_device) = Some (ok, s') \<and>
     drv_inv (brd_cs chip_device) (brd_ds chip_device) (brd_rd chip_device) (brd_wr chip_device)
       (brd_dly chip_device) brd_log s'"
proof -
  have "length (rx_data (rxPkt (dev (brd_sys chip_device)))) = 1500"
    by (simp add: brd_sys_simps rxPkt_init_def)
  from receive_frame [OF brd_bus brd_sys_inv this] show ?thesis by blast
qed

text \<open>
  C38: a frame of 1502 to 1517 bytes passes the length check and overruns
  \<open>rxPkt.data\<close>: the saved next-packet pointer is afterwards taken from bytes 1500 and 1501 of the
  frame, that is, from the sender.
\<close>

theorem receive_overrun:
  assumes "spi_bus cs ds rd wr dly log" and "drv_inv cs ds rd wr dly log s"
    and "enc28j60_etherReceive s = Some (ok, s')" and "1502 \<le> unat (rxPktLen (rxPkt (dev s')))"
  shows "\<exists>pre dat. cread (prog_chip log s') = pre @ dat \<and> length dat = unat (rxPktLen (rxPkt (dev s'))) \<and>
    ok \<and> length dat \<le> 1517 \<and> ptrAddr (rxPkt (dev s')) = u16_of (dat ! 1500) (dat ! 1501)"
proof -
  obtain nxt sv dat where p: "cread (prog_chip log s') = cread (prog_chip log s) @ nxt @ sv @ dat"
      "ok \<longleftrightarrow> u16_of (sv ! 0) (sv ! 1) < 1518"
      "length dat = (if ok then unat (u16_of (sv ! 0) (sv ! 1)) else 0)"
      "rxPktLen (rxPkt (dev s')) = of_nat (length dat)"
      "1502 \<le> length dat \<longrightarrow> ptrAddr (rxPkt (dev s')) = u16_of (dat ! 1500) (dat ! 1501)"
    using spi_bus.receive_promise [OF assms(1,2)] assms(3) by auto
  have l: "length dat \<le> 1517"
    using p(2,3) by (auto simp: word_less_nat_alt split: if_splits)
  then have "unat (rxPktLen (rxPkt (dev s'))) = length dat"
    by (simp add: p(4) unat_of_nat_u16)
  with p l assms(4) show ?thesis
    by (intro exI [of _ "cread (prog_chip log s) @ nxt @ sv"] exI [of _ dat]) (auto split: if_splits)
qed

text \<open>A device that announces 1512 bytes and fills the frame with 0x77, by the length of the bus log.\<close>

definition long_device :: device where
  "long_device log d =
     (if length log > 16 then 0x77 else if even (length log) then 0xE8 else 0x05)"

lemma nth_answers:
  assumes "\<And>log d. dv log d = f (length log)" and "i < length ds"
  shows "answers dv log ds ! i = f (length log + i)"
  using assms(2)
proof (induction ds arbitrary: log i)
  case (Cons d ds)
  then show ?case by (cases i) (simp_all add: assms(1))
qed simp

lemma long_nth: "i < length ds \<Longrightarrow> answers long_device log ds ! i =
    (if length log + i > 16 then 0x77 else if even (length log + i) then 0xE8 else 0x05)"
  by (rule nth_answers) (simp_all add: long_device_def)

lemma brd_log_lengths:
  "length (brd_log (brd_cs dv w)) = Suc (length (brd_log w))"
  "length (brd_log (brd_ds dv w)) = Suc (length (brd_log w))"
  "length bs < 2 ^ 16 \<Longrightarrow> length (brd_log (brd_wr dv bs w)) = length (brd_log w) + length bs"
  "length (brd_log (snd (brd_rd dv k w))) = length (brd_log w) + unat k"
  using brd.log_cs [of dv w] brd.log_ds [of dv w] brd.log_wr [of bs dv w] brd.log_rd [of k dv w] brd.len_rd [of dv k w]
  by auto

lemma brd_write_log:
  assumes "drv_inv (brd_cs dv) (brd_ds dv) (brd_rd dv) (brd_wr dv) (brd_dly dv) brd_log s"
    and "convertRegValToBank r = bnBank (dev s)"
  shows "length (brd_log (hw (brd.wr_st r v s))) = length (brd_log (hw s)) + 4"
  using assms brd.invD(1) [OF assms(1)]
  by (simp add: brd.wr_st_def enc28j60_writeReg_def select_bank_def brd.calls Let_def brd_log_lengths)

lemma brd_rx_w0_log:
  "length (brd_log (brd.rx_w0 dv (brd_sys dv))) = 10"
proof -
  have b: "convertRegValToBank 0 = bank_0" "convertRegValToBank 1 = bank_0"
    by (simp_all add: convertRegValToBank_cases rbits_def)
  let ?s1 = "\<lambda>v. brd.wr_st 0 v (brd_sys dv)"
  have i1: "drv_inv (brd_cs dv) (brd_ds dv) (brd_rd dv) (brd_wr dv) (brd_dly dv) brd_log (?s1 v)" for v
    by (rule brd.inv_wr_st [OF brd_sys_inv]) simp
  have d: "dev (?s1 v) = dev (brd_sys dv)" for v
    using brd.bank0(2) [OF brd_sys_inv, of 0 v] by (simp add: rbits_def)
  have "length (brd_log (hw (brd.wr_st 1 w (?s1 v)))) = 8" for v w
    using brd_write_log [OF i1, of 1 v w] brd_write_log [OF brd_sys_inv, of 0 dv v]
    by (simp add: b d brd_sys_simps) (simp add: brd_sys_def enc28j60_initDr_def brd_log_init)
  then show ?thesis
    by (simp add: brd.rx_w0_def brd.rx_ptr_st_def brd_log_lengths)
qed

lemma two_list: "length xs = 2 \<Longrightarrow> xs = [xs ! 0, xs ! 1]"
  by (cases xs; cases "tl xs") auto

lemma long_header:
  "brd.rx_nxt long_device (brd_sys long_device) = [0xE8, 0x05]"
  "brd.rx_sv long_device (brd_sys long_device) ! 0 = 0xE8"
  "brd.rx_sv long_device (brd_sys long_device) ! 1 = 0x05"
  "length (brd_log (brd.rx_w2 long_device (brd_sys long_device))) = 16"
proof -
  let ?s = "brd_sys long_device" and ?L = "\<lambda>w. length (brd_log w)"
  note w0 = brd_rx_w0_log [of long_device]
  have w1: "?L (brd.rx_w1 long_device ?s) = 12"
    using w0 by (simp add: brd.rx_w1_def brd_log_lengths)
  show "?L (brd.rx_w2 long_device ?s) = 16"
    using w1 by (simp add: brd.rx_w2_def brd_log_lengths)
  have "brd.rx_nxt long_device ?s ! 0 = 0xE8" "brd.rx_nxt long_device ?s ! 1 = 0x05"
    using w0 by (simp_all add: brd.rx_nxt_def brd_rd_answers long_nth stale_buf_def)
  with two_list [OF brd.rx_lengths(1), of long_device ?s] show "brd.rx_nxt long_device ?s = [0xE8, 0x05]"
    by simp
  show "brd.rx_sv long_device ?s ! 0 = 0xE8" "brd.rx_sv long_device ?s ! 1 = 0x05"
    using w1 by (simp_all add: brd.rx_sv_def brd_rd_answers long_nth stale_buf_def)
qed

lemma long_data:
  shows "brd.rx_ok long_device (brd_sys long_device)" "brd.rx_n long_device (brd_sys long_device) = 1512"
    "brd.rx_dat long_device (brd_sys long_device) ! 1500 = 0x77"
    "brd.rx_dat long_device (brd_sys long_device) ! 1501 = 0x77"
proof -
  let ?s = "brd_sys long_device"
  have l: "brd.rx_len long_device ?s = 1512"
    unfolding brd.rx_len_def long_header by (simp add: u16_of_def)
  then show ok: "brd.rx_ok long_device ?s" and n: "brd.rx_n long_device ?s = 1512"
    by (simp_all add: brd.rx_n_def brd.rx_ok_def)
  show "brd.rx_dat long_device ?s ! 1500 = 0x77" "brd.rx_dat long_device ?s ! 1501 = 0x77"
    by (simp_all add: brd.rx_dat_def n brd_rd_answers long_nth stale_buf_def long_header)
qed

theorem receive_overrun_witness:
  "\<exists>s'. enc28j60_etherReceive (brd_sys long_device) = Some (True, s') \<and>
     nxtPktAddr (rxPkt (dev s')) = [0xE8, 0x05] \<and> ptrAddr (rxPkt (dev s')) = 0x7777"
proof -
  let ?s = "brd_sys long_device"
  obtain u u' where r: "enc28j60_etherReceive ?s = Some (brd.rx_ok long_device ?s, (brd.rx_end long_device ?s u)\<lparr>uart := u'\<rparr>)"
    using brd.etherReceive_eq [OF brd_sys_inv] .
  let ?t = "(brd.rx_end long_device ?s u)\<lparr>uart := u'\<rparr>"
  have d: "dev ?t = brd.rx_dev long_device ?s" using brd.rx_end(2) [OF brd_sys_inv] by simp
  have n: "nxtPktAddr (rxPkt (dev ?t)) = [0xE8, 0x05]" "unat (rxPktLen (rxPkt (dev ?t))) = 1512"
    unfolding d brd.rx_dev_def long_header(1) long_data(2) by (simp_all add: store_rx_data_def Let_def)
  have c: "cread (prog_chip brd_log ?t) = cread chip_power_on @ brd.rx_nxt long_device ?s @
      brd.rx_sv long_device ?s @ brd.rx_dat long_device ?s"
    using brd.rx_end(6) [OF brd_sys_inv, of long_device u] by (simp add: chip_logs_def brd_sys_simps)
  obtain pre dat where p: "cread (prog_chip brd_log ?t) = pre @ dat" "length dat = 1512"
      "ptrAddr (rxPkt (dev ?t)) = u16_of (dat ! 1500) (dat ! 1501)"
    using receive_overrun [OF brd_bus brd_sys_inv r] n(2) by auto
  have "length (brd.rx_dat long_device ?s) = 1512"
    using brd.rx_lengths(3) [of long_device ?s] by (simp add: long_data)
  with p(1,2) c have "drop (length pre) (pre @ dat) = brd.rx_dat long_device ?s"
    by (metis (no_types) append.assoc append_eq_append_conv append_eq_conv_conj)
  then have "dat ! 1500 = 0x77" "dat ! 1501 = 0x77" by (simp_all add: long_data)
  with p(3) have "ptrAddr (rxPkt (dev ?t)) = 0x7777" by (simp add: u16_of_def)
  with n(1) r long_data(1) show ?thesis by (intro exI [of _ ?t]) (simp only: simp_thms)
qed

text \<open>
  C7: when \<open>enc28j60_strtDr\<close> returns, the receive and transmit buffers, the receive
  filters, the interrupt enables, MAMXFL and the MAC address are programmed as the driver's constants
  say, AUTOINC is set, reception is enabled with bank 0 selected, and the device structure is unchanged
  but for the cached bank.
\<close>

theorem start_registers:
  assumes "spi_bus cs ds rd wr dly log" and "drv_inv cs ds rd wr dly log s"
    and "bnBank (dev s) \<noteq> bank_2" and "enc28j60_strtDr s = Some s'"
  shows "drv_inv cs ds rd wr dly log s' \<and> autoinc (prog_chip log s') \<and>
    map (creg (prog_chip log s')) [0x04, 0x05, 0x06, 0x07] = [0x00, 0x18, 0xFF, 0x1F] \<and>
    map (creg (prog_chip log s')) [0x08, 0x09, 0x0A, 0x0B, 0x0C, 0x0D] = [0x00, 0x00, 0xFF, 0x17, 0xFF, 0x17] \<and>
    creg (prog_chip log s') 0x1B = 0xFF \<and> creg (prog_chip log s') 0x58 = 0xA1 \<and>
    map (creg (prog_chip log s')) [0x8A, 0x8B] = [0xDC, 0x05] \<and>
    u16_of (creg (prog_chip log s') 0x00) (creg (prog_chip log s') 0x01) = ptrAddr (rxPkt (dev s)) \<and>
    creg (prog_chip log s') 0x1F = 0x04 \<and>
    map (creg (prog_chip log s')) [0xC1, 0xC0, 0xC3, 0xC2, 0xC5, 0xC4] = mac \<and>
    dev s' = (dev s)\<lparr>bnBank := bank_1\<rparr>"
  using spi_bus.start_promise [OF assms] by auto

lemma brd_start:
  obtains s' where "enc28j60_strtDr (brd_sys chip_device) = Some s'"
  using ready_bus.ok_strtDr [OF dev_bus brd_sys_inv] by (auto simp: spi_bus.tot_def [OF brd_bus])

theorem start_registers_witness:
  "\<exists>s'. enc28j60_strtDr (brd_sys chip_device) = Some s' \<and> creg (prog_chip brd_log s') 0x1F = 0x04 \<and>
     map (creg (prog_chip brd_log s')) [0xC1, 0xC0, 0xC3, 0xC2, 0xC5, 0xC4] = mac"
proof -
  obtain s' where "enc28j60_strtDr (brd_sys chip_device) = Some s'" by (rule brd_start)
  with start_registers [OF brd_bus brd_sys_inv _ this] show ?thesis by (auto simp: brd_sys_simps)
qed

text \<open>
  C8: on a bus whose device answers MISTAT with BUSY clear and ESTAT with CLKRDY set,
  \<open>enc28j60_strtDr\<close> comes back from all of its polling loops.
\<close>

theorem start_returns:
  assumes "ready_bus cs ds rd wr dly log" and "drv_inv cs ds rd wr dly log s"
  shows "\<exists>s'. enc28j60_strtDr s = Some s' \<and> drv_inv cs ds rd wr dly log s'"
  using ready_bus.ok_strtDr [OF assms] by (simp add: spi_bus.tot_def [OF ready_bus.axioms(1) [OF assms(1)]])

theorem start_returns_witness: "\<exists>s'. enc28j60_strtDr (brd_sys chip_device) = Some s'"
  using start_returns [OF dev_bus brd_sys_inv] by blast

text \<open>
  Of the PHY accesses of \<open>enc28j60_strtDr\<close> the five reads commanded are those of
  PHID2 (3), PHID2, PHID1 (2), PHID2 and PHIE (0x12); the read of PHCON1 in \<open>enc2860_phyInit\<close> never
  reaches the MII registers, so that PHCON1 (0) is written with an unrelated value and PDPXMD (0x100).
\<close>

theorem start_phy:
  assumes "spi_bus cs ds rd wr dly log" and "drv_inv cs ds rd wr dly log s"
    and "bnBank (dev s) \<noteq> bank_2" and "enc28j60_strtDr s = Some s'"
  shows "phyr (prog_chip log s') = phyr (prog_chip log s) @ [3, 3, 2, 3, 0x12] \<and>
    (\<exists>v w. phyw (prog_chip log s') = phyw (prog_chip log s) @ [(0x00, v OR 0x100), (0x12, w OR 0x12)])"
  using spi_bus.start_promise [OF assms] by auto

theorem start_phy_witness:
  "\<exists>s'. enc28j60_strtDr (brd_sys chip_device) = Some s' \<and> phyr (prog_chip brd_log s') = [3, 3, 2, 3, 0x12]"
proof -
  obtain s' where s': "enc28j60_strtDr (brd_sys chip_device) = Some s'" by (rule brd_start)
  with start_phy [OF brd_bus brd_sys_inv _ this] show ?thesis
    by (auto simp: brd_sys_simps chip_power_on_def)
qed

text \<open>
  C10: \<open>enc28j60_writeReg\<close> always returns and changes, besides the bank bits, the one
  register it names, if the access is routed there, and otherwise the register of bank 0 with the same
  address.
\<close>

theorem write_reaches:
  assumes "spi_bus cs ds rd wr dly log" and "drv_inv cs ds rd wr dly log s" and "r AND 0x1F \<noteq> 0x1F"
  shows "\<exists>s'. enc28j60_writeReg r v s = Some s' \<and> drv_inv cs ds rd wr dly log s' \<and>
    cfg_of (prog_chip log s') = (if routed log r s then reg_write (rkey r) v (cfg_of (prog_chip log s))
      else reg_write (reg_key 0 (r AND 0x1F)) v (cfg_of (prog_chip log s)))"
  by (rule spi_bus.write_promise [OF assms])

theorem write_reaches_witness:
  "\<exists>s'. enc28j60_writeReg 0x54 7 (brd_sys chip_device) = Some s' \<and>
     cfg_of (prog_chip brd_log s') = reg_write 0x54 7 (cfg_of chip_power_on)"
proof -
  have "routed brd_log 0x54 (brd_sys chip_device)"
    by (simp add: routed_def brd_sys_simps convertRegValToBank_cases rbits_def)
  with write_reaches [OF brd_bus brd_sys_inv, of "0x54" 7 chip_device] show ?thesis
    by (auto simp: brd_sys_simps rkey_def reg_key_def rbits_def)
qed

text \<open>
  \<open>enc28j60_bankChange\<close> to bank 0 leaves \<open>bnBank\<close> at the bank before.  After a write
  in bank 0, a write to a register of the cached bank changes the register of bank 0 with the same
  address instead.
\<close>

theorem bank0_misroutes:
  assumes "spi_bus cs ds rd wr dly log" and "drv_inv cs ds rd wr dly log s"
    and "rbits r0 = 0" and "r0 AND 0x1F \<noteq> 0x1F"
    and "convertRegValToBank r = bnBank (dev s)" and "rbits r \<noteq> 0" and "r AND 0x1F < 0x1B"
  shows "\<exists>s1 s2. enc28j60_writeReg r0 v0 s = Some s1 \<and> enc28j60_writeReg r v s1 = Some s2 \<and>
    cfg_of (prog_chip log s2) = reg_write (r AND 0x1F) v (reg_write (rkey r0) v0 (cfg_of (prog_chip log s)))"
  by (rule spi_bus.misroute_promise [OF assms])

theorem bank0_misroutes_witness:
  "\<exists>s s1 s2. enc28j60_strtDr (brd_sys chip_device) = Some s \<and> enc28j60_writeReg 0x00 0 s = Some s1 \<and>
     enc28j60_writeReg 0x54 7 s1 = Some s2 \<and>
     cfg_of (prog_chip brd_log s2) = reg_write 0x14 7 (reg_write 0x00 0 (cfg_of (prog_chip brd_log s)))"
proof -
  obtain s where s: "enc28j60_strtDr (brd_sys chip_device) = Some s" by (rule brd_start)
  have "bnBank (dev s) = bank_1 \<and> drv_inv (brd_cs chip_device) (brd_ds chip_device) (brd_rd chip_device)
      (brd_wr chip_device) (brd_dly chip_device) brd_log s"
    using brd.start_promise [OF brd_sys_inv _ s] by (auto simp: brd_sys_simps)
  then have b: "bnBank (dev s) = bank_1" and i: "drv_inv (brd_cs chip_device) (brd_ds chip_device)
      (brd_rd chip_device) (brd_wr chip_device) (brd_dly chip_device) brd_log s" by simp_all
  from bank0_misroutes [OF brd_bus i, of 0 "0x54" 0 7] s b show ?thesis
    by (auto simp: convertRegValToBank_cases rbits_def rkey_def reg_key_def)
qed

text \<open>
  \<open>enc28j60_clear_interrupt\<close> acknowledges a received packet by setting PKTDEC
  (bit 6 of ECON2) and every other interrupt by clearing its bit in EIR, and changes nothing else.
\<close>

theorem clear_interrupt_reaches:
  assumes "spi_bus cs ds rd wr dly log" and "drv_inv cs ds rd wr dly log s"
  shows "\<exists>s'. enc28j60_clear_interrupt fl s = Some s' \<and> drv_inv cs ds rd wr dly log s' \<and>
    cfg_of (prog_chip log s') = (if fl = PKTIF then reg_set 0x1E 0x40 (cfg_of (prog_chip log s))
      else reg_clear 0x1C (eth_int_flag_val fl) (cfg_of (prog_chip log s)))"
  by (rule spi_bus.clear_interrupt_promise [OF assms])

theorem clear_interrupt_reaches_witness:
  "\<exists>s'. enc28j60_clear_interrupt PKTIF (brd_sys chip_device) = Some s' \<and>
     cfg_of (prog_chip brd_log s') = reg_set 0x1E 0x40 (cfg_of chip_power_on)"
  using clear_interrupt_reaches [OF brd_bus brd_sys_inv, of PKTIF chip_device] by (auto simp: brd_sys_simps)

text \<open>
  The busy-wait on MISTAT comes back exactly when one of its reads has BUSY clear, and its
  result is the state after such a read.
\<close>

theorem poll_ends:
  "(\<exists>s'. wait_MISTAT s = Some s') \<longleftrightarrow> (\<exists>n v s'. poll_MISTAT n s = Some (v, s') \<and> v AND 1 = 0)"
  using wait_MISTAT_returns [of _ s] wait_MISTAT_polls [of s] by fast

lemma unat_ucast_u16_u32: "unat (ucast (w :: u16) :: u32) = unat w"
  using unat_u16_less [of w] by (simp add: unsigned_ucast_eq take_bit_nat_eq_self)

text \<open>
  The identifier \<open>enc28j60_getPhyIdentifier\<close> returns never has a bit above 15, since
  its accumulator is a \<open>uint16_t\<close>: the seven low bits of PHID2 that survive the shift by 9 are all that
  is kept of that register.
\<close>

theorem phy_ident_bits:
  assumes "enc28j60_getPhyIdentifier s = Some (v, s')"
  shows "\<exists>id1 s1 id2. enc28j60_readPhyReg (PHID1 (phyReg (dev s))) s = Some (id1, s1) \<and>
    enc28j60_readPhyReg (PHID2 (phyReg (dev s1))) s1 = Some (id2, s') \<and> v < 2 ^ 16 \<and>
    v = ucast (drop_bit 3 id1) OR push_bit 9 (ucast (id2 AND 0x7F))"
proof -
  obtain id1 s1 id2 where r: "enc28j60_readPhyReg (PHID1 (phyReg (dev s))) s = Some (id1, s1)"
      "enc28j60_readPhyReg (PHID2 (phyReg (dev s1))) s1 = Some (id2, s')"
    and v: "v = ucast ((drop_bit 3 id1 OR ucast (push_bit 9 (ucast id2 :: u32))) :: u16)"
    using assms by (auto simp: enc28j60_getPhyIdentifier_def Let_def bind_eq_Some_conv)
  have m: "(0x7F :: u16) = mask 7" by (simp add: mask_eq_exp_minus_1)
  have e: "v = ucast (drop_bit 3 id1) OR push_bit 9 (ucast (id2 AND 0x7F))"
    unfolding v m by (rule bit_word_eqI) (auto simp: bit_simps)
  have "unat v = unat (drop_bit 3 id1 OR ucast (push_bit 9 (ucast id2 :: u32)) :: u16)"
    unfolding v by (rule unat_ucast_u16_u32)
  then have "v < 2 ^ 16" using unat_u16_less by (simp add: word_less_nat_alt)
  with r e show ?thesis by blast
qed

theorem phy_ident_bits_witness:
  "\<exists>v s'. enc28j60_getPhyIdentifier (brd_sys chip_device) = Some (v, s') \<and> v < 2 ^ 16"
proof -
  obtain v s' where "enc28j60_getPhyIdentifier (brd_sys chip_device) = Some (v, s')"
  proof -
    let ?s = "brd_sys chip_device"
    obtain id1 s1 where r1: "enc28j60_readPhyReg (PHID1 (phyReg (dev ?s))) ?s = Some (id1, s1)"
      using dev.readPhyReg_ready [OF brd_sys_inv] by blast
    have i1: "drv_inv (brd_cs chip_device) (brd_ds chip_device) (brd_rd chip_device) (brd_wr chip_device)
        (brd_dly chip_device) brd_log s1"
      by (rule brd.readPhyReg_state(1) [OF brd_sys_inv r1])
    obtain id2 s2 where "enc28j60_readPhyReg (PHID2 (phyReg (dev s1))) s1 = Some (id2, s2)"
      using dev.readPhyReg_ready [OF i1] by blast
    with r1 that show thesis by (simp add: enc28j60_getPhyIdentifier_def Let_def)
  qed
  with phy_ident_bits [OF this] show ?thesis by blast
qed

end
