(* ===== verification/Lwip_Base.thy ===== *)
theory Lwip_Base
  imports Enc_Prelude
begin

text \<open>
  What the modelled parts of lwIP share: error codes, assertions, the flat memory their pointers
  point into and the pool allocator \<open>memp.c\<close>.  An address is a natural number, 0 is NULL.  The configuration is that of
  \<open>Core/Inc/lwipopts.h\<close> over \<open>lwip/opt.h\<close>: no operating system, no statistics, no pool overflow
  checks, alignment 4, IPv4 only.
\<close>

section \<open>Error codes\<close>

datatype err_enum_t = ERR_OK | ERR_MEM | ERR_BUF | ERR_TIMEOUT | ERR_RTE | ERR_INPROGRESS | ERR_VAL
  | ERR_WOULDBLOCK | ERR_USE | ERR_ALREADY | ERR_ISCONN | ERR_CONN | ERR_IF | ERR_ABRT | ERR_RST
  | ERR_CLSD | ERR_ARG

text \<open>
  \<open>arch/cc.h\<close> defines \<open>LWIP_PLATFORM_ASSERT\<close> as nothing, so a violated assertion has no effect and the
  code runs on.
\<close>

definition LWIP_ASSERT :: "bool \<Rightarrow> 's \<Rightarrow> 's option" where
  "LWIP_ASSERT b s = Some s"

lemma LWIP_ASSERT_simps [simp]: "LWIP_ASSERT b s = Some s"
  by (simp add: LWIP_ASSERT_def)

definition MEM_ALIGNMENT :: nat where "MEM_ALIGNMENT = 4"

definition LWIP_MEM_ALIGN_SIZE :: "nat \<Rightarrow> nat" where
  "LWIP_MEM_ALIGN_SIZE n = (n + MEM_ALIGNMENT - 1) div MEM_ALIGNMENT * MEM_ALIGNMENT"

lemma align_size_bounds: "n \<le> LWIP_MEM_ALIGN_SIZE n" "LWIP_MEM_ALIGN_SIZE n < n + 4" "LWIP_MEM_ALIGN_SIZE n mod 4 = 0"
proof -
  have a: "LWIP_MEM_ALIGN_SIZE n = (n + 3) div 4 * 4" by (simp add: LWIP_MEM_ALIGN_SIZE_def MEM_ALIGNMENT_def)
  show "n \<le> LWIP_MEM_ALIGN_SIZE n" "LWIP_MEM_ALIGN_SIZE n < n + 4" "LWIP_MEM_ALIGN_SIZE n mod 4 = 0"
    unfolding a by presburger+
qed

lemma align_size_id [simp]: "n mod 4 = 0 \<Longrightarrow> LWIP_MEM_ALIGN_SIZE n = n"
  using align_size_bounds [of n] by presburger

section \<open>Memory\<close>

text \<open>\<open>MEMCPY(dst, src, n)\<close> writes the \<open>n\<close> bytes found at the source.\<close>

definition put_bytes :: "nat \<Rightarrow> u8 list \<Rightarrow> (nat \<Rightarrow> u8) \<Rightarrow> nat \<Rightarrow> u8" where
  "put_bytes dst bs m = (\<lambda>a. if dst \<le> a \<and> a < dst + length bs then bs ! (a - dst) else m a)"

definition get_bytes :: "nat \<Rightarrow> nat \<Rightarrow> (nat \<Rightarrow> u8) \<Rightarrow> u8 list" where
  "get_bytes a n m = map m [a ..< a + n]"

lemma length_get_bytes [simp]: "length (get_bytes a n m) = n"
  by (simp add: get_bytes_def)

lemma nth_get_bytes [simp]: "i < n \<Longrightarrow> get_bytes a n m ! i = m (a + i)"
  by (simp add: get_bytes_def)

lemma get_bytes_0 [simp]: "get_bytes a 0 m = []"
  by (simp add: get_bytes_def)

lemma get_put_same [simp]: "get_bytes a (length bs) (put_bytes a bs m) = bs"
  by (rule nth_equalityI) (simp_all add: put_bytes_def)

lemma get_bytes_append: "get_bytes a (n + k) m = get_bytes a n m @ get_bytes (a + n) k m"
  by (rule nth_equalityI) (auto simp: nth_append)

lemma get_put_other:
  "a + n \<le> dst \<or> dst + length bs \<le> a \<Longrightarrow> get_bytes a n (put_bytes dst bs m) = get_bytes a n m"
  by (rule nth_equalityI) (auto simp: put_bytes_def)

lemma put_bytes_Nil [simp]: "put_bytes a [] m = m"
  by (rule ext) (auto simp: put_bytes_def)

lemma get_put_prefix:
  assumes "length bs \<le> n"
  shows "get_bytes a n (put_bytes a bs m) = bs @ drop (length bs) (get_bytes a n m)"
  using assms by (intro nth_equalityI) (auto simp: put_bytes_def nth_append)

section \<open>Fixed-size pools (\<open>memp.c\<close>)\<close>

text \<open>
  The free list of a pool is the list of its free elements, as \<open>*desc->tab\<close> links them.  An element
  starts at its link field, which the user of the element overwrites (\<open>MEMP_SIZE\<close> is 0).
\<close>

record memp_desc =
  desc_num :: nat
  desc_size :: nat
  desc_base :: nat

fun memp_init_loop :: "nat \<Rightarrow> nat \<Rightarrow> nat \<Rightarrow> nat list \<Rightarrow> nat list" where
  "memp_init_loop sz 0 memp tab = tab"
| "memp_init_loop sz (Suc n) memp tab = memp_init_loop sz n (memp + sz) (memp # tab)"

definition memp_init_pool :: "memp_desc \<Rightarrow> nat list" where
  "memp_init_pool d = memp_init_loop (desc_size d) (desc_num d) (LWIP_MEM_ALIGN_SIZE (desc_base d)) []"

definition do_memp_malloc_pool :: "nat list \<Rightarrow> (nat option \<times> nat list) option" where
  "do_memp_malloc_pool tab = (case tab of [] \<Rightarrow> Some (None, [])
     | m # tab' \<Rightarrow> LWIP_ASSERT (m mod MEM_ALIGNMENT = 0) (Some m, tab'))"

definition do_memp_free_pool :: "nat \<Rightarrow> nat list \<Rightarrow> nat list option" where
  "do_memp_free_pool m tab = LWIP_ASSERT (m mod MEM_ALIGNMENT = 0) (m # tab)"

text \<open>Every element of the pool is handed out once, aligned and disjoint from the others.\<close>

lemma memp_init_loop_set:
  "set (memp_init_loop sz n m tab) = (\<lambda>i. m + i * sz) ` {..< n} \<union> set tab"
proof (induction n arbitrary: m tab)
  case (Suc n)
  have "(\<lambda>i. m + i * sz) ` {..< Suc n} = insert m ((\<lambda>i. m + sz + i * sz) ` {..< n})"
    by (auto simp: image_iff lessThan_Suc_eq_insert_0 algebra_simps)
  with Suc show ?case by auto
qed simp

lemma memp_init_loop_length: "length (memp_init_loop sz n m tab) = n + length tab"
  by (induction n arbitrary: m tab) simp_all

lemma memp_init_loop_distinct:
  assumes "0 < sz" and "distinct tab" and "\<forall>x \<in> set tab. x < m"
  shows "distinct (memp_init_loop sz n m tab)"
  using assms(2,3)
proof (induction n arbitrary: m tab)
  case (Suc n)
  have "\<forall>x \<in> set (m # tab). x < m + sz" using Suc.prems assms(1) by auto
  moreover have "distinct (m # tab)" using Suc.prems by auto
  ultimately show ?case using Suc.IH [of "m # tab" "m + sz"] by simp
qed simp

end
