(* ===== verification/Lwip_Pbuf.thy ===== *)
theory Lwip_Pbuf
  imports Lwip_Base
begin

text \<open>
  The packet buffers of lwIP (\<open>lwip-2.2.1/src/core/pbuf.c\<close>) with all operations of the file but
  the 64k split and the checksum-on-copy variant, which the configuration leaves out.  A pbuf is a
  record in a store indexed by its address; its payload lives in a flat byte memory, so that header
  adjustment is address arithmetic and shared payloads are shared.  Following a pointer that is not
  in the store (NULL, or freed) is \<open>None\<close>, so an operation proved to return is memory safe.  Assertions are
  kept as calls of \<open>LWIP_ASSERT\<close>, which does nothing in this configuration.

  The heap functions and the function that frees a custom pbuf are arguments,
  collected in \<open>pbuf_env\<close>, so that the laws hold whatever the heap does; \<open>Lwip_Ram\<close> puts the heap of
  \<open>mem.c\<close> in their place.  The two pools are those of \<open>memp.c\<close>.
\<close>

section \<open>Types\<close>

record pbuf =
  nxt :: "nat option"
  payload :: nat
  tot_len :: u16
  len :: u16
  type_internal :: u8
  flags :: u8
  ref :: u8
  if_idx :: u8

record 'm pst =
  pbufs :: "nat \<Rightarrow> pbuf option"
  bytes :: "nat \<Rightarrow> u8"
  tab_POOL :: "nat list"
  tab_PBUF :: "nat list"
  pbuf_free_ooseq_pending :: u8
  heapm :: 'm

record 'm pbuf_env =
  malloc_fn :: "u16 \<Rightarrow> 'm pst \<Rightarrow> (nat option \<times> 'm pst) option"
  free_fn :: "nat \<Rightarrow> 'm pst \<Rightarrow> 'm pst option"
  trim_fn :: "nat \<Rightarrow> u16 \<Rightarrow> 'm pst \<Rightarrow> (nat option \<times> 'm pst) option"
  custom_free_function :: "nat \<Rightarrow> 'm pst \<Rightarrow> 'm pst option"

datatype pbuf_layer = PBUF_TRANSPORT | PBUF_IP | PBUF_LINK | PBUF_RAW_TX | PBUF_RAW

fun layer_val :: "pbuf_layer \<Rightarrow> nat" where
  "layer_val PBUF_TRANSPORT = 54"
| "layer_val PBUF_IP = 34"
| "layer_val PBUF_LINK = 14"
| "layer_val PBUF_RAW_TX = 0"
| "layer_val PBUF_RAW = 0"

datatype pbuf_type = PBUF_RAM | PBUF_ROM | PBUF_REF | PBUF_POOL

text \<open>The low byte of the type, which \<open>type_internal\<close> keeps.\<close>

fun type_val :: "pbuf_type \<Rightarrow> u8" where
  "type_val PBUF_RAM = 0x80"
| "type_val PBUF_ROM = 0x01"
| "type_val PBUF_REF = 0x41"
| "type_val PBUF_POOL = 0x82"

definition SIZEOF_STRUCT_PBUF :: nat where "SIZEOF_STRUCT_PBUF = 16"
definition PBUF_POOL_BUFSIZE_ALIGNED :: nat where "PBUF_POOL_BUFSIZE_ALIGNED = 592"

definition pbuf_get_allocsrc :: "pbuf \<Rightarrow> u8" where
  "pbuf_get_allocsrc b = type_internal b AND 0x0F"

section \<open>Access\<close>

definition upd :: "nat \<Rightarrow> (pbuf \<Rightarrow> pbuf) \<Rightarrow> 'm pst \<Rightarrow> 'm pst option" where
  "upd p f s = do { b \<leftarrow> pbufs s p; Some (s\<lparr>pbufs := (pbufs s)(p \<mapsto> f b)\<rparr>) }"

definition follow :: "nat option \<Rightarrow> 'm pst \<Rightarrow> (nat \<times> pbuf) option" where
  "follow q s = do { p \<leftarrow> q; b \<leftarrow> pbufs s p; Some (p, b) }"

definition memcpy :: "nat \<Rightarrow> u8 list \<Rightarrow> 'm pst \<Rightarrow> 'm pst" where
  "memcpy dst bs s = s\<lparr>bytes := put_bytes dst bs (bytes s)\<rparr>"

definition pbuf_pool_is_empty :: "'m pst \<Rightarrow> 'm pst" where
  "pbuf_pool_is_empty s = s\<lparr>pbuf_free_ooseq_pending := 1\<rparr>"

section \<open>Freeing and counting references\<close>

definition pbuf_dealloc :: "'m pbuf_env \<Rightarrow> nat \<Rightarrow> pbuf \<Rightarrow> 'm pst \<Rightarrow> 'm pst option" where
  "pbuf_dealloc e p b s =
     (let s' = s\<lparr>pbufs := (pbufs s)(p := None)\<rparr>; alloc_src = pbuf_get_allocsrc b in
      if flags b AND 0x02 \<noteq> 0 then custom_free_function e p s
      else if alloc_src = 0x02 then do { t \<leftarrow> do_memp_free_pool p (tab_POOL s); Some (s'\<lparr>tab_POOL := t\<rparr>) }
      else if alloc_src = 0x01 then do { t \<leftarrow> do_memp_free_pool p (tab_PBUF s); Some (s'\<lparr>tab_PBUF := t\<rparr>) }
      else if alloc_src = 0x00 then free_fn e p s'
      else None)"

partial_function (option) pbuf_free_loop ::
  "'m pbuf_env \<Rightarrow> nat option \<Rightarrow> u8 \<Rightarrow> 'm pst \<Rightarrow> (u8 \<times> 'm pst) option" where
  "pbuf_free_loop e p count s = (case p of None \<Rightarrow> Some (count, s)
     | Some a \<Rightarrow> do {
         b \<leftarrow> pbufs s a;
         s \<leftarrow> LWIP_ASSERT (ref b > 0) s;
         let r = ref b - 1;
         s \<leftarrow> upd a (\<lambda>b. b\<lparr>ref := r\<rparr>) s;
         if r = 0
         then do { s \<leftarrow> pbuf_dealloc e a b s; pbuf_free_loop e (nxt b) (count + 1) s }
         else Some (count, s)
       })"

definition pbuf_free :: "'m pbuf_env \<Rightarrow> nat option \<Rightarrow> 'm pst \<Rightarrow> (u8 \<times> 'm pst) option" where
  "pbuf_free e p s = (case p of None \<Rightarrow> do { s \<leftarrow> LWIP_ASSERT False s; Some (0, s) } | Some _ \<Rightarrow> pbuf_free_loop e p 0 s)"

definition pbuf_ref :: "nat option \<Rightarrow> 'm pst \<Rightarrow> 'm pst option" where
  "pbuf_ref p s = (case p of None \<Rightarrow> Some s
     | Some a \<Rightarrow> do {
         b \<leftarrow> pbufs s a;
         s \<leftarrow> upd a (\<lambda>b. b\<lparr>ref := ref b + 1\<rparr>) s;
         LWIP_ASSERT (ref b + 1 > 0) s
       })"

section \<open>Allocation\<close>

definition pbuf_init_alloced_pbuf :: "nat \<Rightarrow> nat \<Rightarrow> u16 \<Rightarrow> u16 \<Rightarrow> pbuf_type \<Rightarrow> u8 \<Rightarrow> 'm pst \<Rightarrow> 'm pst" where
  "pbuf_init_alloced_pbuf p pl tlen l type fl s =
     s\<lparr>pbufs := (pbufs s)(p \<mapsto> \<lparr>nxt = None, payload = pl, tot_len = tlen, len = l,
        type_internal = type_val type, flags = fl, ref = 1, if_idx = 0\<rparr>)\<rparr>"

definition pbuf_alloc_reference :: "nat \<Rightarrow> u16 \<Rightarrow> pbuf_type \<Rightarrow> 'm pst \<Rightarrow> (nat option \<times> 'm pst) option" where
  "pbuf_alloc_reference pl alen type s = do {
     s \<leftarrow> LWIP_ASSERT (type = PBUF_REF \<or> type = PBUF_ROM) s;
     (m, t) \<leftarrow> do_memp_malloc_pool (tab_PBUF s);
     let s = s\<lparr>tab_PBUF := t\<rparr>;
     Some (case m of None \<Rightarrow> (None, s)
       | Some p \<Rightarrow> (Some p, pbuf_init_alloced_pbuf p pl alen alen type 0 s))
   }"

text \<open>The \<open>do\<close>-loop over the pool: \<open>p\<close> is the head of the chain so far, \<open>lst\<close> its end (\<open>last\<close>).\<close>

partial_function (option) pool_loop ::
  "'m pbuf_env \<Rightarrow> nat \<Rightarrow> u16 \<Rightarrow> nat option \<Rightarrow> nat option \<Rightarrow> 'm pst \<Rightarrow> (nat option \<times> 'm pst) option" where
  "pool_loop e offset rem_len p lst s = do {
     (m, t) \<leftarrow> do_memp_malloc_pool (tab_POOL s);
     let s = s\<lparr>tab_POOL := t\<rparr>;
     case m of
       None \<Rightarrow> do {
         let s = pbuf_pool_is_empty s;
         s \<leftarrow> (case p of None \<Rightarrow> Some s | Some _ \<Rightarrow> do { (_, s) \<leftarrow> pbuf_free e p s; Some s });
         Some (None, s)
       }
     | Some q \<Rightarrow> do {
         let qlen = min rem_len (of_nat (PBUF_POOL_BUFSIZE_ALIGNED - LWIP_MEM_ALIGN_SIZE offset));
         let pl = LWIP_MEM_ALIGN_SIZE (q + SIZEOF_STRUCT_PBUF + offset);
         let s = pbuf_init_alloced_pbuf q pl rem_len qlen PBUF_POOL 0 s;
         s \<leftarrow> LWIP_ASSERT (pl mod MEM_ALIGNMENT = 0) s;
         s \<leftarrow> LWIP_ASSERT (PBUF_POOL_BUFSIZE_ALIGNED - LWIP_MEM_ALIGN_SIZE offset > 0) s;
         s \<leftarrow> (case lst of None \<Rightarrow> Some s | Some l \<Rightarrow> upd l (\<lambda>b. b\<lparr>nxt := Some q\<rparr>) s);
         let p' = (case p of None \<Rightarrow> Some q | Some _ \<Rightarrow> p);
         let rem' = rem_len - qlen;
         if rem' > 0 then pool_loop e 0 rem' p' (Some q) s else Some (p', s)
       }
   }"

definition pbuf_alloc :: "'m pbuf_env \<Rightarrow> pbuf_layer \<Rightarrow> u16 \<Rightarrow> pbuf_type \<Rightarrow> 'm pst \<Rightarrow> (nat option \<times> 'm pst) option" where
  "pbuf_alloc e layer alen type s =
     (let offset = layer_val layer in
      case type of
        PBUF_REF \<Rightarrow> pbuf_alloc_reference 0 alen type s
      | PBUF_ROM \<Rightarrow> pbuf_alloc_reference 0 alen type s
      | PBUF_POOL \<Rightarrow> pool_loop e offset alen None None s
      | PBUF_RAM \<Rightarrow> do {
          let payload_len = (LWIP_MEM_ALIGN_SIZE offset + LWIP_MEM_ALIGN_SIZE (unat alen)) mod 2 ^ 16;
          let alloc_len = (LWIP_MEM_ALIGN_SIZE SIZEOF_STRUCT_PBUF + payload_len) mod 2 ^ 16;
          if payload_len < LWIP_MEM_ALIGN_SIZE (unat alen) \<or> alloc_len < LWIP_MEM_ALIGN_SIZE (unat alen)
          then Some (None, s)
          else do {
            (r, s) \<leftarrow> malloc_fn e (of_nat alloc_len) s;
            case r of None \<Rightarrow> Some (None, s)
            | Some p \<Rightarrow> do {
                let pl = LWIP_MEM_ALIGN_SIZE (p + SIZEOF_STRUCT_PBUF + offset);
                let s = pbuf_init_alloced_pbuf p pl alen alen type 0 s;
                s \<leftarrow> LWIP_ASSERT (pl mod MEM_ALIGNMENT = 0) s;
                Some (Some p, s)
              }
          }
        })"

text \<open>\<open>p\<close> is the \<open>struct pbuf\<close> inside the caller's \<open>struct pbuf_custom\<close>.\<close>

definition pbuf_alloced_custom ::
  "pbuf_layer \<Rightarrow> u16 \<Rightarrow> pbuf_type \<Rightarrow> nat \<Rightarrow> nat \<Rightarrow> u16 \<Rightarrow> 'm pst \<Rightarrow> nat option \<times> 'm pst" where
  "pbuf_alloced_custom l alen type p payload_mem payload_mem_len s =
     (let offset = layer_val l in
      if LWIP_MEM_ALIGN_SIZE offset + unat alen > unat payload_mem_len then (None, s)
      else (let pl = (if payload_mem \<noteq> 0 then payload_mem + LWIP_MEM_ALIGN_SIZE offset else 0) in
            (Some p, pbuf_init_alloced_pbuf p pl alen alen type 0x02 s)))"

section \<open>Headers\<close>

definition pbuf_add_header_impl :: "nat option \<Rightarrow> nat \<Rightarrow> bool \<Rightarrow> 'm pst \<Rightarrow> (u8 \<times> 'm pst) option" where
  "pbuf_add_header_impl q inc force s = (if q = None then Some (1, s) else do {
     (p, b) \<leftarrow> follow q s;
     if inc > 0xFFFF then Some (1, s)
     else if inc = 0 then Some (0, s)
     else do {
       let increment_magnitude = of_nat inc;
       if increment_magnitude + tot_len b < increment_magnitude then Some (1, s)
       else do {
         let contiguous = (type_internal b AND 0x80 \<noteq> 0);
         if contiguous \<and> int (payload b) - int inc < int (p + SIZEOF_STRUCT_PBUF) then Some (1, s)
         else if \<not> contiguous \<and> \<not> force then Some (1, s)
         else do {
           s \<leftarrow> upd p (\<lambda>b. b\<lparr>payload := payload b - inc, len := len b + increment_magnitude,
                       tot_len := tot_len b + increment_magnitude\<rparr>) s;
           Some (0, s)
         }
       }
     }
   })"

definition pbuf_add_header :: "nat option \<Rightarrow> nat \<Rightarrow> 'm pst \<Rightarrow> (u8 \<times> 'm pst) option" where
  "pbuf_add_header p inc s = pbuf_add_header_impl p inc False s"

definition pbuf_add_header_force :: "nat option \<Rightarrow> nat \<Rightarrow> 'm pst \<Rightarrow> (u8 \<times> 'm pst) option" where
  "pbuf_add_header_force p inc s = pbuf_add_header_impl p inc True s"

definition pbuf_remove_header :: "nat option \<Rightarrow> nat \<Rightarrow> 'm pst \<Rightarrow> (u8 \<times> 'm pst) option" where
  "pbuf_remove_header q dec s = (if q = None then Some (1, s) else do {
     (p, b) \<leftarrow> follow q s;
     if dec > 0xFFFF then Some (1, s)
     else if dec = 0 then Some (0, s)
     else do {
       let increment_magnitude = of_nat dec;
       if \<not> increment_magnitude \<le> len b then Some (1, s)
       else do {
         s \<leftarrow> upd p (\<lambda>b. b\<lparr>payload := payload b + dec, len := len b - increment_magnitude,
                     tot_len := tot_len b - increment_magnitude\<rparr>) s;
         Some (0, s)
       }
     }
   })"

definition pbuf_header_impl :: "nat option \<Rightarrow> int \<Rightarrow> bool \<Rightarrow> 'm pst \<Rightarrow> (u8 \<times> 'm pst) option" where
  "pbuf_header_impl p inc force s =
     (if inc < 0 then pbuf_remove_header p (nat (- inc)) s
      else pbuf_add_header_impl p (nat inc) force s)"

definition pbuf_header :: "nat option \<Rightarrow> int \<Rightarrow> 'm pst \<Rightarrow> (u8 \<times> 'm pst) option" where
  "pbuf_header p inc s = pbuf_header_impl p inc False s"

definition pbuf_header_force :: "nat option \<Rightarrow> int \<Rightarrow> 'm pst \<Rightarrow> (u8 \<times> 'm pst) option" where
  "pbuf_header_force p inc s = pbuf_header_impl p inc True s"

partial_function (option) free_header_loop ::
  "'m pbuf_env \<Rightarrow> nat option \<Rightarrow> u16 \<Rightarrow> 'm pst \<Rightarrow> (nat option \<times> 'm pst) option" where
  "free_header_loop e p free_left s =
     (if free_left \<noteq> 0 \<and> p \<noteq> None then do {
        (f, b) \<leftarrow> follow p s;
        if free_left \<ge> len b then do {
          s \<leftarrow> upd f (\<lambda>b. b\<lparr>nxt := None\<rparr>) s;
          (_, s) \<leftarrow> pbuf_free e (Some f) s;
          free_header_loop e (nxt b) (free_left - len b) s
        }
        else do {
          (_, s) \<leftarrow> pbuf_remove_header p (unat free_left) s;
          Some (p, s)
        }
      }
      else Some (p, s))"

definition pbuf_free_header :: "'m pbuf_env \<Rightarrow> nat option \<Rightarrow> u16 \<Rightarrow> 'm pst \<Rightarrow> (nat option \<times> 'm pst) option" where
  "pbuf_free_header e q sz s = free_header_loop e q sz s"

section \<open>Chains\<close>

partial_function (option) clen_loop :: "nat option \<Rightarrow> u16 \<Rightarrow> 'm pst \<Rightarrow> u16 option" where
  "clen_loop p l s = (case p of None \<Rightarrow> Some l
     | Some _ \<Rightarrow> do { (_, b) \<leftarrow> follow p s; clen_loop (nxt b) (l + 1) s })"

definition pbuf_clen :: "nat option \<Rightarrow> 'm pst \<Rightarrow> u16 option" where
  "pbuf_clen p s = clen_loop p 0 s"

partial_function (option) cat_loop :: "nat option \<Rightarrow> nat \<Rightarrow> 'm pst \<Rightarrow> 'm pst option" where
  "cat_loop p t s = do {
     (a, b) \<leftarrow> follow p s;
     tb \<leftarrow> pbufs s t;
     case nxt b of
       Some q \<Rightarrow> do {
         s \<leftarrow> upd a (\<lambda>b. b\<lparr>tot_len := tot_len b + tot_len tb\<rparr>) s;
         cat_loop (Some q) t s
       }
     | None \<Rightarrow> do {
         s \<leftarrow> LWIP_ASSERT (tot_len b = len b) s;
         upd a (\<lambda>b. b\<lparr>tot_len := tot_len b + tot_len tb, nxt := Some t\<rparr>) s
       }
   }"

definition pbuf_cat :: "nat option \<Rightarrow> nat option \<Rightarrow> 'm pst \<Rightarrow> 'm pst option" where
  "pbuf_cat h t s = (case (h, t) of
       (Some _, Some t') \<Rightarrow> do { s \<leftarrow> LWIP_ASSERT (h \<noteq> t) s; cat_loop h t' s }
     | _ \<Rightarrow> Some s)"

definition pbuf_chain :: "nat option \<Rightarrow> nat option \<Rightarrow> 'm pst \<Rightarrow> 'm pst option" where
  "pbuf_chain h t s = do { s \<leftarrow> pbuf_cat h t s; pbuf_ref t s }"

definition pbuf_dechain :: "'m pbuf_env \<Rightarrow> nat option \<Rightarrow> 'm pst \<Rightarrow> (nat option \<times> 'm pst) option" where
  "pbuf_dechain e q s = do {
     (p, b) \<leftarrow> follow q s;
     (tail_gone, s) \<leftarrow> (case nxt b of
         None \<Rightarrow> Some (1, s)
       | Some r \<Rightarrow> do {
           rb \<leftarrow> pbufs s r;
           s \<leftarrow> LWIP_ASSERT (int (unat (tot_len rb)) = int (unat (tot_len b)) - int (unat (len b))) s;
           s \<leftarrow> upd r (\<lambda>c. c\<lparr>tot_len := tot_len b - len b\<rparr>) s;
           s \<leftarrow> upd p (\<lambda>c. c\<lparr>nxt := None, tot_len := len c\<rparr>) s;
           pbuf_free e (Some r) s
         });
     b' \<leftarrow> pbufs s p;
     s \<leftarrow> LWIP_ASSERT (tot_len b' = len b') s;
     Some (if tail_gone > 0 then None else nxt b, s)
   }"

text \<open>Shortening: walk to the pbuf that keeps the last bytes, cut there, free the rest.\<close>

partial_function (option) realloc_loop ::
  "nat option \<Rightarrow> u16 \<Rightarrow> u16 \<Rightarrow> 'm pst \<Rightarrow> (nat \<times> u16 \<times> 'm pst) option" where
  "realloc_loop q shrink rem_len s = do {
     (a, b) \<leftarrow> follow q s;
     if rem_len > len b then do {
       s \<leftarrow> upd a (\<lambda>b. b\<lparr>tot_len := tot_len b - shrink\<rparr>) s;
       s \<leftarrow> LWIP_ASSERT (nxt b \<noteq> None) s;
       realloc_loop (nxt b) shrink (rem_len - len b) s
     }
     else Some (a, rem_len, s)
   }"

definition pbuf_realloc :: "'m pbuf_env \<Rightarrow> nat option \<Rightarrow> u16 \<Rightarrow> 'm pst \<Rightarrow> 'm pst option" where
  "pbuf_realloc e p new_len s = do {
     (_, b) \<leftarrow> follow p s;
     if new_len \<ge> tot_len b then Some s
     else do {
       (q, rem_len, s) \<leftarrow> realloc_loop p (tot_len b - new_len) new_len s;
       qb \<leftarrow> pbufs s q;
       s \<leftarrow> (if pbuf_get_allocsrc qb = 0x00 \<and> rem_len \<noteq> len qb \<and> flags qb AND 0x02 = 0
             then do {
                 (r, s) \<leftarrow> trim_fn e q (of_nat (payload qb - q + unat rem_len)) s;
                 s \<leftarrow> LWIP_ASSERT (r \<noteq> None) s;
                 LWIP_ASSERT (r = Some q) s
               }
             else Some s);
       s \<leftarrow> upd q (\<lambda>b. b\<lparr>len := rem_len, tot_len := rem_len\<rparr>) s;
       s \<leftarrow> (case nxt qb of None \<Rightarrow> Some s | Some r \<Rightarrow> do { (_, s) \<leftarrow> pbuf_free e (Some r) s; Some s });
       upd q (\<lambda>b. b\<lparr>nxt := None\<rparr>) s
     }
   }"

section \<open>Copying\<close>

text \<open>\<open>size_t\<close> has 32 bits, so the differences of the offsets wrap around.\<close>

definition no_queue :: "nat option \<Rightarrow> 'm pst \<Rightarrow> bool option" where
  "no_queue q s = (case q of None \<Rightarrow> Some True
     | Some _ \<Rightarrow> do { (_, b) \<leftarrow> follow q s; Some (len b = tot_len b \<longrightarrow> nxt b = None) })"

partial_function (option) copy_loop ::
  "nat option \<Rightarrow> nat option \<Rightarrow> u16 \<Rightarrow> u32 \<Rightarrow> u32 \<Rightarrow> 'm pst \<Rightarrow> (err_enum_t \<times> 'm pst) option" where
  "copy_loop p_to p_from copy_len offset_to offset_from s = do {
     (_, tb) \<leftarrow> follow p_to s;
     (_, fb) \<leftarrow> follow p_from s;
     let n = (if ucast (len tb) - offset_to \<ge> ucast (len fb) - offset_from
              then ucast (len fb) - offset_from else ucast (len tb) - offset_to);
     let n = min (ucast copy_len) n;
     let s = memcpy (payload tb + unat offset_to) (get_bytes (payload fb + unat offset_from) (unat n) (bytes s)) s;
     let offset_to = offset_to + n;
     let offset_from = offset_from + n;
     let copy_len = copy_len - ucast n;
     s \<leftarrow> LWIP_ASSERT (offset_to \<le> ucast (len tb)) s;
     s \<leftarrow> LWIP_ASSERT (offset_from \<le> ucast (len fb)) s;
     let from_done = (offset_from \<ge> ucast (len fb));
     let p_from = (if from_done then nxt fb else p_from);
     let offset_from = (if from_done then 0 else offset_from);
     if from_done \<and> \<not> (p_from \<noteq> None \<or> copy_len = 0) then Some (ERR_ARG, s)
     else do {
       let to_done = (offset_to = ucast (len tb));
       let p_to = (if to_done then nxt tb else p_to);
       let offset_to = (if to_done then 0 else offset_to);
       if to_done \<and> \<not> (p_to \<noteq> None \<or> copy_len = 0) then Some (ERR_ARG, s)
       else do {
         f_ok \<leftarrow> no_queue p_from s;
         if \<not> f_ok then Some (ERR_VAL, s)
         else do {
           t_ok \<leftarrow> no_queue p_to s;
           if \<not> t_ok then Some (ERR_VAL, s)
           else if copy_len \<noteq> 0 then copy_loop p_to p_from copy_len offset_to offset_from s
           else Some (ERR_OK, s)
         }
       }
     }
   }"

definition pbuf_copy_partial_pbuf ::
  "nat option \<Rightarrow> nat option \<Rightarrow> u16 \<Rightarrow> u16 \<Rightarrow> 'm pst \<Rightarrow> (err_enum_t \<times> 'm pst) option" where
  "pbuf_copy_partial_pbuf p_to p_from copy_len offset s =
     (if p_from = None then Some (ERR_ARG, s)
      else do {
        (_, fb) \<leftarrow> follow p_from s;
        if \<not> tot_len fb \<ge> copy_len then Some (ERR_ARG, s)
        else if p_to = None then Some (ERR_ARG, s)
        else do {
          (_, tb) \<leftarrow> follow p_to s;
          if \<not> unat (tot_len tb) \<ge> unat offset + unat copy_len then Some (ERR_ARG, s)
          else copy_loop p_to p_from copy_len (ucast offset) 0 s
        }
      })"

definition pbuf_copy :: "nat option \<Rightarrow> nat option \<Rightarrow> 'm pst \<Rightarrow> (err_enum_t \<times> 'm pst) option" where
  "pbuf_copy p_to p_from s =
     (if p_from = None then Some (ERR_ARG, s)
      else do { (_, fb) \<leftarrow> follow p_from s; pbuf_copy_partial_pbuf p_to p_from (tot_len fb) 0 s })"

text \<open>The bytes \<open>pbuf_copy_partial\<close> writes to its destination, in order, with their count.\<close>

partial_function (option) copy_partial_loop ::
  "nat option \<Rightarrow> u16 \<Rightarrow> u16 \<Rightarrow> u8 list \<Rightarrow> u16 \<Rightarrow> 'm pst \<Rightarrow> (u16 \<times> u8 list) option" where
  "copy_partial_loop p l offset out copied_total s =
     (if l \<noteq> 0 \<and> p \<noteq> None then do {
        (_, b) \<leftarrow> follow p s;
        if offset \<noteq> 0 \<and> offset \<ge> len b
        then copy_partial_loop (nxt b) l (offset - len b) out copied_total s
        else do {
          let buf_copy_len = min (len b - offset) l;
          copy_partial_loop (nxt b) (l - buf_copy_len) 0
            (out @ get_bytes (payload b + unat offset) (unat buf_copy_len) (bytes s))
            (copied_total + buf_copy_len) s
        }
      }
      else Some (copied_total, out))"

definition pbuf_copy_partial :: "nat option \<Rightarrow> u16 \<Rightarrow> u16 \<Rightarrow> 'm pst \<Rightarrow> (u16 \<times> u8 list) option" where
  "pbuf_copy_partial buf l offset s =
     (if buf = None then Some (0, []) else copy_partial_loop buf l offset [] 0 s)"

partial_function (option) skip_loop :: "nat option \<Rightarrow> u16 \<Rightarrow> 'm pst \<Rightarrow> (nat option \<times> u16) option" where
  "skip_loop q offset_left s = (case q of None \<Rightarrow> Some (None, offset_left)
     | Some _ \<Rightarrow> do {
         (_, b) \<leftarrow> follow q s;
         if len b \<le> offset_left then skip_loop (nxt b) (offset_left - len b) s
         else Some (q, offset_left)
       })"

definition pbuf_skip_const :: "nat option \<Rightarrow> u16 \<Rightarrow> 'm pst \<Rightarrow> (nat option \<times> u16) option" where
  "pbuf_skip_const p in_offset s = skip_loop p in_offset s"

definition pbuf_skip :: "nat option \<Rightarrow> u16 \<Rightarrow> 'm pst \<Rightarrow> (nat option \<times> u16) option" where
  "pbuf_skip p in_offset s = pbuf_skip_const p in_offset s"

text \<open>Where the contiguous bytes are: in the chain, or copied to the buffer given.\<close>

datatype contiguous = In_chain nat | In_buffer "u8 list" | Not_contiguous

definition pbuf_get_contiguous :: "nat option \<Rightarrow> nat option \<Rightarrow> u16 \<Rightarrow> u16 \<Rightarrow> 'm pst \<Rightarrow> contiguous option" where
  "pbuf_get_contiguous p bufsize l offset s =
     (if p = None then Some Not_contiguous
      else if \<not> (bufsize = None \<or> the bufsize \<ge> unat l) then Some Not_contiguous
      else do {
        (q, out_offset) \<leftarrow> pbuf_skip_const p offset s;
        if q = None then Some Not_contiguous
        else do {
          (_, b) \<leftarrow> follow q s;
          if unat (len b) \<ge> unat out_offset + unat l then Some (In_chain (payload b + unat out_offset))
          else if bufsize = None then Some Not_contiguous
          else do {
            (n, out) \<leftarrow> pbuf_copy_partial q l out_offset s;
            Some (if n \<noteq> l then Not_contiguous else In_buffer out)
          }
        }
      })"

partial_function (option) take_loop :: "nat option \<Rightarrow> u8 list \<Rightarrow> 'm pst \<Rightarrow> 'm pst option" where
  "take_loop p data s =
     (if data \<noteq> [] then do {
        (_, b) \<leftarrow> follow p s;
        let buf_copy_len = min (length data) (unat (len b));
        take_loop (nxt b) (drop buf_copy_len data) (memcpy (payload b) (take buf_copy_len data) s)
      }
      else Some s)"

text \<open>The bytes at \<open>dataptr\<close> are given as a list of \<open>len\<close> bytes.\<close>

definition pbuf_take :: "nat option \<Rightarrow> u8 list \<Rightarrow> 'm pst \<Rightarrow> (err_enum_t \<times> 'm pst) option" where
  "pbuf_take buf data s =
     (if buf = None then Some (ERR_ARG, s)
      else do {
        (_, b) \<leftarrow> follow buf s;
        if \<not> unat (tot_len b) \<ge> length data then Some (ERR_MEM, s)
        else do { s \<leftarrow> take_loop buf data s; Some (ERR_OK, s) }
      })"

definition pbuf_take_at :: "nat option \<Rightarrow> u8 list \<Rightarrow> u16 \<Rightarrow> 'm pst \<Rightarrow> (err_enum_t \<times> 'm pst) option" where
  "pbuf_take_at buf data offset s = do {
     (q, target_offset) \<leftarrow> pbuf_skip buf offset s;
     if q = None then Some (ERR_MEM, s)
     else do {
       (_, b) \<leftarrow> follow q s;
       if unat (tot_len b) \<ge> unat target_offset + length data then do {
         s \<leftarrow> LWIP_ASSERT (target_offset < len b) s;
         let first_copy_len = min (unat (len b) - unat target_offset) (length data);
         let s = memcpy (payload b + unat target_offset) (take first_copy_len data) s;
         if drop first_copy_len data \<noteq> [] then pbuf_take (nxt b) (drop first_copy_len data) s
         else Some (ERR_OK, s)
       }
       else Some (ERR_MEM, s)
     }
   }"

definition pbuf_clone :: "'m pbuf_env \<Rightarrow> pbuf_layer \<Rightarrow> pbuf_type \<Rightarrow> nat option \<Rightarrow> 'm pst \<Rightarrow> (nat option \<times> 'm pst) option" where
  "pbuf_clone e layer type p s = do {
     (_, b) \<leftarrow> follow p s;
     (q, s) \<leftarrow> pbuf_alloc e layer (tot_len b) type s;
     if q = None then Some (None, s)
     else do {
       (err, s) \<leftarrow> pbuf_copy q p s;
       s \<leftarrow> LWIP_ASSERT (err = ERR_OK) s;
       Some (q, s)
     }
   }"

definition pbuf_coalesce :: "'m pbuf_env \<Rightarrow> nat option \<Rightarrow> pbuf_layer \<Rightarrow> 'm pst \<Rightarrow> (nat option \<times> 'm pst) option" where
  "pbuf_coalesce e p layer s = do {
     (_, b) \<leftarrow> follow p s;
     if nxt b = None then Some (p, s)
     else do {
       (q, s) \<leftarrow> pbuf_clone e layer PBUF_RAM p s;
       if q = None then Some (p, s)
       else do { (_, s) \<leftarrow> pbuf_free e p s; Some (q, s) }
     }
   }"

section \<open>Single bytes and searching\<close>

definition pbuf_try_get_at :: "nat option \<Rightarrow> u16 \<Rightarrow> 'm pst \<Rightarrow> int option" where
  "pbuf_try_get_at p offset s = do {
     (q, q_idx) \<leftarrow> pbuf_skip_const p offset s;
     if q = None then Some (- 1)
     else do {
       (_, b) \<leftarrow> follow q s;
       Some (if len b > q_idx then uint (bytes s (payload b + unat q_idx)) else - 1)
     }
   }"

definition pbuf_get_at :: "nat option \<Rightarrow> u16 \<Rightarrow> 'm pst \<Rightarrow> u8 option" where
  "pbuf_get_at p offset s = do {
     ret \<leftarrow> pbuf_try_get_at p offset s;
     Some (if ret \<ge> 0 then word_of_int ret else 0)
   }"

definition pbuf_put_at :: "nat option \<Rightarrow> u16 \<Rightarrow> u8 \<Rightarrow> 'm pst \<Rightarrow> 'm pst option" where
  "pbuf_put_at p offset d s = do {
     (q, q_idx) \<leftarrow> pbuf_skip p offset s;
     if q = None then Some s
     else do {
       (_, b) \<leftarrow> follow q s;
       Some (if len b > q_idx then memcpy (payload b + unat q_idx) [d] s else s)
     }
   }"

fun memcmp_loop :: "nat option \<Rightarrow> u16 \<Rightarrow> nat \<Rightarrow> u8 list \<Rightarrow> 'm pst \<Rightarrow> u16 option" where
  "memcmp_loop q start i [] s = Some 0"
| "memcmp_loop q start i (y # ys) s = do {
     a \<leftarrow> pbuf_get_at q (start + of_nat i) s;
     if a \<noteq> y then Some (of_nat (min (i + 1) 0xFFFF)) else memcmp_loop q start (Suc i) ys s
   }"

definition pbuf_memcmp :: "nat option \<Rightarrow> u16 \<Rightarrow> u8 list \<Rightarrow> 'm pst \<Rightarrow> u16 option" where
  "pbuf_memcmp p offset s2 s = do {
     (_, b) \<leftarrow> follow p s;
     if unat (tot_len b) < unat offset + length s2 then Some 0xFFFF
     else do {
       (q, start) \<leftarrow> skip_loop p offset s;
       memcmp_loop q start 0 s2 s
     }
   }"

text \<open>\<open>i\<close> is a \<open>u16_t\<close>: were \<open>max_cmp_start\<close> 0xFFFF, the loop would not end.\<close>

partial_function (option) memfind_loop :: "nat option \<Rightarrow> u8 list \<Rightarrow> u16 \<Rightarrow> u16 \<Rightarrow> 'm pst \<Rightarrow> u16 option" where
  "memfind_loop p mem i max_cmp_start s =
     (if i \<le> max_cmp_start then do {
        plus \<leftarrow> pbuf_memcmp p i mem s;
        if plus = 0 then Some i else memfind_loop p mem (i + 1) max_cmp_start s
      }
      else Some 0xFFFF)"

definition pbuf_memfind :: "nat option \<Rightarrow> u8 list \<Rightarrow> u16 \<Rightarrow> 'm pst \<Rightarrow> u16 option" where
  "pbuf_memfind p mem start_offset s = do {
     (_, b) \<leftarrow> follow p s;
     let max_cmp_start = tot_len b - of_nat (length mem);
     if unat (tot_len b) \<ge> length mem + unat start_offset
     then memfind_loop p mem start_offset max_cmp_start s
     else Some 0xFFFF
   }"

text \<open>\<open>substr\<close> without its terminating zero.\<close>

definition pbuf_strstr :: "nat option \<Rightarrow> u8 list \<Rightarrow> 'm pst \<Rightarrow> u16 option" where
  "pbuf_strstr p substr s =
     (if substr = [] then Some 0xFFFF
      else do {
        (_, b) \<leftarrow> follow p s;
        if tot_len b = 0xFFFF \<or> length substr \<ge> 0xFFFF then Some 0xFFFF
        else pbuf_memfind p substr 0 s
      })"

end
