(* ===== verification/Lwip_Chain.thy ===== *)
theory Lwip_Chain
  imports Lwip_Pbuf
begin

text \<open>
  Chains of pbufs as lists: \<open>chain s p as\<close> says that following \<open>nxt\<close> from \<open>p\<close> visits exactly the
  addresses \<open>as\<close>, \<open>content s as\<close> is the packet stored in them.  The operations of \<open>Lwip_Pbuf\<close> are
  shown to be list operations on the content: \<open>pbuf_take\<close> overwrites a prefix, \<open>pbuf_copy_partial\<close>
  reads a slice, \<open>pbuf_cat\<close> appends, allocation and freeing move elements between chain and pool.
\<close>

section \<open>Chains\<close>

fun chain :: "'m pst \<Rightarrow> nat option \<Rightarrow> nat list \<Rightarrow> bool" where
  "chain s p [] \<longleftrightarrow> p = None"
| "chain s p (a # as) \<longleftrightarrow> p = Some a \<and> (case pbufs s a of None \<Rightarrow> False | Some b \<Rightarrow> chain s (nxt b) as)"

definition seg :: "'m pst \<Rightarrow> nat \<Rightarrow> u8 list" where
  "seg s a = (case pbufs s a of None \<Rightarrow> [] | Some b \<Rightarrow> get_bytes (payload b) (unat (len b)) (bytes s))"

definition content :: "'m pst \<Rightarrow> nat list \<Rightarrow> u8 list" where
  "content s as = concat (map (seg s) as)"

text \<open>The invariant of the header file: \<open>tot_len\<close> is the length of the rest of the packet.\<close>

fun tot_ok :: "'m pst \<Rightarrow> nat list \<Rightarrow> bool" where
  "tot_ok s [] \<longleftrightarrow> True"
| "tot_ok s (a # as) \<longleftrightarrow>
     (case pbufs s a of None \<Rightarrow> False | Some b \<Rightarrow> unat (tot_len b) = length (content s (a # as))) \<and> tot_ok s as"

definition apart :: "'m pst \<Rightarrow> nat \<Rightarrow> nat \<Rightarrow> bool" where
  "apart s a c \<longleftrightarrow> (case (pbufs s a, pbufs s c) of (Some b, Some d) \<Rightarrow>
     payload b + unat (len b) \<le> payload d \<or> payload d + unat (len d) \<le> payload b | _ \<Rightarrow> False)"

definition separate :: "'m pst \<Rightarrow> nat list \<Rightarrow> bool" where
  "separate s as \<longleftrightarrow> sorted_wrt (apart s) as"

lemma content_simps [simp]: "content s [] = []" "content s (a # as) = seg s a @ content s as"
  "content s (as @ bs) = content s as @ content s bs"
  by (simp_all add: content_def)

lemma chain_cong: "(\<And>a. a \<in> set as \<Longrightarrow> pbufs s' a = pbufs s a) \<Longrightarrow> chain s' p as = chain s p as"
  by (induction as arbitrary: p) (auto split: option.splits)

lemma seg_cong: "pbufs s' a = pbufs s a \<Longrightarrow> bytes s' = bytes s \<Longrightarrow> seg s' a = seg s a"
  by (simp add: seg_def split: option.split)

lemma content_cong:
  "(\<And>a. a \<in> set as \<Longrightarrow> pbufs s' a = pbufs s a) \<Longrightarrow> bytes s' = bytes s \<Longrightarrow> content s' as = content s as"
  by (simp add: content_def seg_cong [of s'] cong: map_cong)

lemma tot_ok_cong:
  "(\<And>a. a \<in> set as \<Longrightarrow> pbufs s' a = pbufs s a) \<Longrightarrow> bytes s' = bytes s \<Longrightarrow> tot_ok s' as = tot_ok s as"
proof (induction as)
  case (Cons a as)
  then have "content s' (a # as) = content s (a # as)" by (intro content_cong) auto
  with Cons show ?case by (auto split: option.splits)
qed simp



lemma follow_Some [simp]: "pbufs s a = Some b \<Longrightarrow> follow (Some a) s = Some (a, b)"
  by (simp add: follow_def)

lemma chain_ConsE:
  assumes "chain s p (a # as)"
  obtains b where "p = Some a" "pbufs s a = Some b" "chain s (nxt b) as" "follow p s = Some (a, b)"
  using assms by (auto split: option.splits)

lemma unat_u16_plus: "unat a + unat b < 65536 \<Longrightarrow> unat (a + b :: u16) = unat a + unat b"
  by (simp add: unat_word_ariths)

lemma unat_u16_sub: "b \<le> a \<Longrightarrow> unat (a - b :: u16) = unat a - unat b"
  by (rule unat_sub)

lemma length_seg: "pbufs s a = Some b \<Longrightarrow> length (seg s a) = unat (len b)"
  by (simp add: seg_def)

section \<open>Filling\<close>

lemma seg_memcpy_other:
  assumes "apart s a c" and "pbufs s a = Some b" and "length bs \<le> unat (len b)"
  shows "seg (memcpy (payload b) bs s) c = seg s c"
  using assms
  by (auto simp: seg_def memcpy_def apart_def split: option.splits intro!: get_put_other)

lemma take_loop_spec:
  assumes "chain s p as" and "separate s as" and "length data \<le> length (content s as)"
  shows "\<exists>m. take_loop p data s = Some (s\<lparr>bytes := m\<rparr>) \<and>
    content (s\<lparr>bytes := m\<rparr>) as = data @ drop (length data) (content s as) \<and>
    (\<forall>x. (\<forall>a \<in> set as. \<forall>b. pbufs s a = Some b \<longrightarrow> x \<notin> {payload b ..< payload b + unat (len b)}) \<longrightarrow> m x = bytes s x)"
  using assms
proof (induction as arbitrary: p data s)
  case Nil
  then show ?case by (simp add: take_loop.simps) (rule exI [of _ "bytes s"], simp)
next
  case (Cons a as)
  obtain b where b: "p = Some a" "pbufs s a = Some b" "chain s (nxt b) as" "follow p s = Some (a, b)"
    using Cons.prems(1) by (rule chain_ConsE)
  show ?case
  proof (cases "data = []")
    case True
    then show ?thesis by (intro exI [of _ "bytes s"]) (simp add: take_loop.simps)
  next
    case False
    define k where "k = min (length data) (unat (len b))"
    define s1 where "s1 = memcpy (payload b) (take k data) s"
    have p1: "pbufs s1 = pbufs s" by (simp add: s1_def memcpy_def)
    have ap: "apart s a c" if "c \<in> set as" for c using Cons.prems(2) that by (simp add: separate_def)
    have lk: "length (take k data) = k" "k \<le> unat (len b)" by (simp_all add: k_def)
    have sg: "seg s1 c = seg s c" if "c \<in> set as" for c
      unfolding s1_def by (rule seg_memcpy_other [OF ap [OF that] b(2)]) (simp only: lk)
    have c1: "content s1 as = content s as" using sg by (simp add: content_def cong: map_cong)
    have "apart s1 = apart s" by (intro ext) (simp add: apart_def p1)
    then have sep1: "separate s1 as" using Cons.prems(2) by (simp add: separate_def)
    have ch1: "chain s1 (nxt b) as" using b(3) by (simp add: chain_cong [of as s1 s] p1)
    have la: "length (seg s a) = unat (len b)" by (rule length_seg [OF b(2)])
    have "length (drop k data) \<le> length (content s1 as)"
      using Cons.prems(3) la by (simp add: c1 k_def)
    from Cons.IH [OF ch1 sep1 this] obtain m where m: "take_loop (nxt b) (drop k data) s1 = Some (s1\<lparr>bytes := m\<rparr>)"
      "content (s1\<lparr>bytes := m\<rparr>) as = drop k data @ drop (length (drop k data)) (content s1 as)"
      "\<And>x. (\<forall>a \<in> set as. \<forall>b. pbufs s1 a = Some b \<longrightarrow> x \<notin> {payload b ..< payload b + unat (len b)}) \<Longrightarrow> m x = bytes s1 x"
      by blast
    have e: "s1\<lparr>bytes := m\<rparr> = s\<lparr>bytes := m\<rparr>" by (simp add: s1_def memcpy_def)
    have step: "take_loop p data s = Some (s\<lparr>bytes := m\<rparr>)"
      using False m(1) by (simp add: take_loop.simps [of p data s] b(4) Let_def flip: k_def s1_def e)
    have inb: "m x = bytes s1 x" if "x \<in> {payload b ..< payload b + unat (len b)}" for x
    proof (rule m(3), intro ballI allI impI)
      fix c d assume "c \<in> set as" "pbufs s1 c = Some d"
      with ap [of c] b(2) that show "x \<notin> {payload d ..< payload d + unat (len d)}"
        by (auto simp: apart_def p1)
    qed
    have "seg (s\<lparr>bytes := m\<rparr>) a = get_bytes (payload b) (unat (len b)) (bytes s1)"
      using inb by (simp add: seg_def b(2) get_bytes_def)
    also have "\<dots> = take k data @ drop k (seg s a)"
      using get_put_prefix [of "take k data" "unat (len b)" "payload b" "bytes s"] lk
      by (simp add: s1_def memcpy_def seg_def b(2))
    finally have sa: "seg (s\<lparr>bytes := m\<rparr>) a = take k data @ drop k (seg s a)" .
    have "content (s\<lparr>bytes := m\<rparr>) (a # as) = data @ drop (length data) (content s (a # as))"
    proof (cases "length data \<le> unat (len b)")
      case True
      then have "k = length data" by (simp add: k_def)
      then show ?thesis using sa m(2) True la by (simp add: e c1)
    next
      case False
      then have "k = unat (len b)" by (simp add: k_def)
      then show ?thesis using sa m(2) False la by (simp add: e c1)
    qed
    moreover have "m x = bytes s x" if "\<forall>c \<in> set (a # as). \<forall>d. pbufs s c = Some d \<longrightarrow> x \<notin> {payload d ..< payload d + unat (len d)}" for x
    proof -
      have "m x = bytes s1 x" using that by (intro m(3)) (simp add: p1)
      also have "\<dots> = bytes s x" using that b(2) lk by (auto simp: s1_def memcpy_def put_bytes_def)
      finally show ?thesis .
    qed
    ultimately show ?thesis using step by blast
  qed
qed

section \<open>Reading\<close>

lemma copy_partial_loop_spec:
  assumes "chain s p as" and "unat c + unat l < 65536"
  shows "copy_partial_loop p l offset out c s =
    Some (c + of_nat (length (take (unat l) (drop (unat offset) (content s as)))),
          out @ take (unat l) (drop (unat offset) (content s as)))"
  using assms
proof (induction as arbitrary: p l offset out c)
  case Nil
  then show ?case by (simp add: copy_partial_loop.simps)
next
  case (Cons a as)
  obtain b where b: "p = Some a" "pbufs s a = Some b" "chain s (nxt b) as" "follow p s = Some (a, b)"
    using Cons.prems(1) by (rule chain_ConsE)
  note la = length_seg [OF b(2)]
  show ?case
  proof (cases "l = 0")
    case True
    then show ?thesis by (simp add: copy_partial_loop.simps)
  next
    case l: False
    show ?thesis
    proof (cases "offset \<noteq> 0 \<and> offset \<ge> len b")
      case True
      then have u: "unat (offset - len b) = unat offset - unat (len b)" by (intro unat_u16_sub) simp
      have "unat (len b) \<le> unat offset" using True by (simp add: word_le_nat_alt)
      then show ?thesis
        using Cons.IH [OF b(3) Cons.prems(2), of "offset - len b" out] True l b(1,2)
        by (simp add: copy_partial_loop.simps [of "Some a"] la u)
    next
      case False
      define k where "k = min (len b - offset) l"
      have o: "offset \<le> len b" using False by (cases "offset = 0") auto
      then have uo: "unat offset \<le> unat (len b)" by (simp add: word_le_nat_alt)
      have uk: "unat k = min (unat (len b) - unat offset) (unat l)"
        using unat_u16_sub [OF o] by (simp add: k_def min_def word_le_nat_alt)
      have kl: "unat (l - k) = unat l - unat k" by (rule unat_u16_sub) (simp add: k_def)
      have ck: "unat (c + k) = unat c + unat k" using Cons.prems(2) uk by (intro unat_u16_plus) simp
      have g: "get_bytes (payload b + unat offset) (unat k) (bytes s) = take (unat l) (drop (unat offset) (seg s a))"
        by (rule nth_equalityI) (auto simp: seg_def b(2) uk add.assoc)
      have "length (take (unat l) (drop (unat offset) (seg s a))) = unat k"
        using la uo by (simp add: uk)
      then have ks: "min (length (seg s a) - unat offset) (unat l) = unat k" by simp
      have pre: "unat (c + k) + unat (l - k) < 65536" using Cons.prems(2) uk by (simp add: ck kl)
      have rec: "copy_partial_loop p l offset out c s =
          copy_partial_loop (nxt b) (l - k) 0 (out @ get_bytes (payload b + unat offset) (unat k) (bytes s)) (c + k) s"
        using False l b(1,2) by (auto simp: copy_partial_loop.simps [of "Some a"] Let_def simp flip: k_def)
      have tk: "take (unat l) (drop (unat offset) (content s (a # as))) =
          take (unat l) (drop (unat offset) (seg s a)) @ take (unat l - unat k) (content s as)"
        using uo la uk by (simp add: min_def)
      show ?thesis
        unfolding rec Cons.IH [OF b(3) pre] tk g by (simp add: ks kl)
    qed
  qed
qed

section \<open>Freeing\<close>

text \<open>A pbuf of the pool that nobody else refers to, as the driver's receive path allocates them.\<close>

definition pool_pbuf :: "'m pst \<Rightarrow> nat \<Rightarrow> bool" where
  "pool_pbuf s a \<longleftrightarrow> a mod 4 = 0 \<and> (case pbufs s a of None \<Rightarrow> False
     | Some b \<Rightarrow> type_internal b = type_val PBUF_POOL \<and> flags b AND 0x02 = 0 \<and> ref b = 1)"

definition drop_pbufs :: "nat list \<Rightarrow> 'm pst \<Rightarrow> 'm pst" where
  "drop_pbufs as s = s\<lparr>pbufs := (\<lambda>a. if a \<in> set as then None else pbufs s a), tab_POOL := rev as @ tab_POOL s\<rparr>"

lemma pool_dealloc:
  assumes "pool_pbuf s a" and "pbufs s a = Some b"
  shows "pbuf_dealloc e a b (s\<lparr>pbufs := (pbufs s)(a \<mapsto> b')\<rparr>) = Some (drop_pbufs [a] s)"
  using assms
  by (simp add: pbuf_dealloc_def pool_pbuf_def pbuf_get_allocsrc_def do_memp_free_pool_def
      MEM_ALIGNMENT_def drop_pbufs_def Let_def fun_upd_def cong: if_cong) 

lemma drop_pbufs_Cons: "drop_pbufs as (drop_pbufs [a] s) = drop_pbufs (a # as) s"
  unfolding drop_pbufs_def by (rule pst.equality) auto

lemma free_loop_pool:
  assumes "chain s p as" and "distinct as" and "\<forall>a \<in> set as. pool_pbuf s a"
  shows "pbuf_free_loop e p c s = Some (c + of_nat (length as), drop_pbufs as s)"
  using assms
proof (induction as arbitrary: p c s)
  case Nil
  then show ?case by (simp add: pbuf_free_loop.simps drop_pbufs_def)
next
  case (Cons a as)
  obtain b where b: "p = Some a" "pbufs s a = Some b" "chain s (nxt b) as"
    using Cons.prems(1) by (rule chain_ConsE)
  have pp: "pool_pbuf s a" using Cons.prems(3) by simp
  then have r: "ref b = 1" by (simp add: pool_pbuf_def b(2))
  let ?s = "drop_pbufs [a] s"
  have eq: "pbufs ?s x = pbufs s x" if "x \<in> set as" for x
    using Cons.prems(2) that by (auto simp: drop_pbufs_def)
  have ch: "chain ?s (nxt b) as" using b(3) chain_cong [of as ?s s] eq by blast
  have "\<forall>x \<in> set as. pool_pbuf ?s x" using Cons.prems(3) eq by (simp add: pool_pbuf_def)
  from Cons.IH [OF ch _ this, of "c + 1"] Cons.prems(2)
  have "pbuf_free_loop e (nxt b) (c + 1) ?s = Some (c + 1 + of_nat (length as), drop_pbufs (a # as) s)"
    by (simp add: drop_pbufs_Cons)
  then show ?case
    by (simp add: pbuf_free_loop.simps [of e "Some a"] b(1,2) r upd_def pool_dealloc [OF pp b(2)])
qed

section \<open>Allocation from the pool\<close>

text \<open>The free elements of the pool: aligned and a full element apart from each other.\<close>

definition pool_ok :: "nat list \<Rightarrow> bool" where
  "pool_ok tab \<longleftrightarrow> (\<forall>a \<in> set tab. a mod 4 = 0) \<and> sorted_wrt (\<lambda>a c. a + 608 \<le> c \<or> c + 608 \<le> a) tab"

lemma pool_ok_Cons: "pool_ok (q # tab) \<Longrightarrow> pool_ok tab \<and> q mod 4 = 0 \<and> q \<notin> set tab"
  by (auto simp: pool_ok_def)

lemma pool_ok_distinct: "pool_ok tab \<Longrightarrow> distinct tab"
  by (induction tab) (auto simp: pool_ok_def)

text \<open>Appending one pbuf to the chain being built.\<close>

definition new_pbuf :: "nat \<Rightarrow> u16 \<Rightarrow> u16 \<Rightarrow> pbuf" where
  "new_pbuf pl tlen l = \<lparr>nxt = None, payload = pl, tot_len = tlen, len = l, type_internal = type_val PBUF_POOL,
     flags = 0, ref = 1, if_idx = 0\<rparr>"

text \<open>
  The chain while it is being built, when \<open>r\<close> bytes are still to be allocated: each \<open>tot_len\<close>
  already counts them, and every payload lies inside its pool element.
\<close>

fun tot_more :: "'m pst \<Rightarrow> nat \<Rightarrow> nat list \<Rightarrow> bool" where
  "tot_more s r [] \<longleftrightarrow> True"
| "tot_more s r (a # as) \<longleftrightarrow>
     (case pbufs s a of None \<Rightarrow> False | Some b \<Rightarrow> unat (tot_len b) = length (content s (a # as)) + r) \<and> tot_more s r as"

definition in_elem :: "'m pst \<Rightarrow> nat \<Rightarrow> bool" where
  "in_elem s a \<longleftrightarrow> (case pbufs s a of None \<Rightarrow> False
     | Some b \<Rightarrow> a + 16 \<le> payload b \<and> payload b + unat (len b) \<le> a + 608)"

definition built :: "'m pst \<Rightarrow> nat option \<Rightarrow> nat list \<Rightarrow> nat \<Rightarrow> bool" where
  "built s p as r \<longleftrightarrow> chain s p as \<and> (\<forall>a \<in> set as. pool_pbuf s a \<and> in_elem s a) \<and> tot_more s r as"

lemma tot_more_0: "tot_more s 0 as = tot_ok s as"
  by (induction as) (auto split: option.splits)

text \<open>The state after one more element \<open>q\<close> has been linked behind the chain \<open>as\<close>.\<close>

definition link :: "nat list \<Rightarrow> nat \<Rightarrow> pbuf \<Rightarrow> 'm pst \<Rightarrow> 'm pst" where
  "link as q nb s = s\<lparr>pbufs := (\<lambda>a. if a = q then Some nb
     else if as \<noteq> [] \<and> a = last as then map_option (\<lambda>b. b\<lparr>nxt := Some q\<rparr>) (pbufs s a) else pbufs s a)\<rparr>"

lemma link_pbufs:
  "pbufs (link as q nb s) q = Some nb" "bytes (link as q nb s) = bytes s"
  "a \<noteq> q \<Longrightarrow> as = [] \<or> a \<noteq> last as \<Longrightarrow> pbufs (link as q nb s) a = pbufs s a"
  "as \<noteq> [] \<Longrightarrow> last as \<noteq> q \<Longrightarrow> pbufs (link as q nb s) (last as) = map_option (\<lambda>b. b\<lparr>nxt := Some q\<rparr>) (pbufs s (last as))"
  by (auto simp: link_def)

lemma link_Cons: "as \<noteq> [] \<Longrightarrow> link (a # as) q nb s = link as q nb s"
  by (simp add: link_def cong: if_cong)

lemma link_fields:
  assumes "a \<noteq> q"
  shows "seg (link as q nb s) a = seg s a" "pool_pbuf (link as q nb s) a = pool_pbuf s a"
    "in_elem (link as q nb s) a = in_elem s a"
  using assms by (auto simp: seg_def pool_pbuf_def in_elem_def link_def split: option.splits)

lemma link_content: "q \<notin> set as \<Longrightarrow> content (link bs q nb s) as = content s as"
proof (induction as)
  case (Cons a as)
  then show ?case using link_fields(1) [of a q bs nb s] by auto
qed simp

lemma chain_link:
  assumes "chain s p as" and "q \<notin> set as" and "distinct as" and "nxt nb = None"
  shows "chain (link as q nb s) (case p of None \<Rightarrow> Some q | Some _ \<Rightarrow> p) (as @ [q])"
  using assms
proof (induction as arbitrary: p)
  case Nil
  then show ?case by (simp add: link_pbufs)
next
  case (Cons a as)
  obtain b where b: "p = Some a" "pbufs s a = Some b" "chain s (nxt b) as"
    using Cons.prems(1) by (rule chain_ConsE)
  show ?case
  proof (cases "as = []")
    case True
    then show ?thesis using b Cons.prems by (simp add: link_def)
  next
    case False
    then have n: "nxt b \<noteq> None" using b(3) by (cases as) auto
    have "a \<noteq> last as" using False Cons.prems(3) by auto
    then have a: "pbufs (link (a # as) q nb s) a = Some b"
      using False b(2) Cons.prems(2) by (simp add: link_def)
    have "chain (link as q nb s) (case nxt b of None \<Rightarrow> Some q | Some _ \<Rightarrow> nxt b) (as @ [q])"
      using Cons.prems b(3) by (intro Cons.IH) auto
    then show ?thesis using n b(1) a by (auto simp: link_Cons [OF False] split: option.splits)
  qed
qed

lemma tot_more_link:
  assumes "tot_more s r as" and "q \<notin> set as" and "unat (len nb) \<le> r" and "unat (tot_len nb) = r"
  shows "tot_more (link bs q nb s) (r - unat (len nb)) (as @ [q])"
  using assms
proof (induction as)
  case Nil
  then show ?case by (simp add: link_pbufs seg_def)
next
  case (Cons a as)
  obtain b where b: "pbufs s a = Some b" "unat (tot_len b) = length (content s (a # as)) + r"
    using Cons.prems(1) by (auto split: option.splits)
  have a: "a \<noteq> q" "q \<notin> set as" using Cons.prems(2) by auto
  obtain b' where b': "pbufs (link bs q nb s) a = Some b'" "tot_len b' = tot_len b"
    using a(1) b(1) by (cases "bs \<noteq> [] \<and> a = last bs") (auto simp: link_def)
  have "length (seg (link bs q nb s) q) = unat (len nb)" by (simp add: seg_def link_pbufs)
  with Cons b b' a show ?case
    by (auto simp: link_content link_fields(1))
qed

lemma built_link:
  assumes "built s p as r" and "pool_ok (as @ q # tab)" and "nb = new_pbuf pl tlen l"
    and "unat tlen = r" and "unat l \<le> r" and "q + 16 \<le> pl" and "pl + unat l \<le> q + 608"
  shows "built (link as q nb s) (case p of None \<Rightarrow> Some q | Some _ \<Rightarrow> p) (as @ [q]) (r - unat l)"
proof -
  have d: "q \<notin> set as" "distinct as" "q mod 4 = 0"
    using pool_ok_distinct [OF assms(2)] assms(2) by (auto simp: pool_ok_def)
  have f: "a \<noteq> q" if "a \<in> set as" for a using d(1) that by auto
  show ?thesis
    using assms(1) chain_link [of s p as q nb] tot_more_link [of s r as q nb as] d assms(3-)
    by (auto simp: built_def new_pbuf_def link_fields [OF f]) (auto simp: pool_pbuf_def in_elem_def link_pbufs)
qed

lemma align_shift: "q mod 4 = 0 \<Longrightarrow> LWIP_MEM_ALIGN_SIZE (q + 16 + n) = q + 16 + LWIP_MEM_ALIGN_SIZE n"
  by (simp add: LWIP_MEM_ALIGN_SIZE_def MEM_ALIGNMENT_def) presburger

lemma pool_qlen:
  fixes rem :: u16
  assumes "a \<le> 56"
  shows "unat (min rem (of_nat (592 - a))) = min (unat rem) (592 - a)"
proof -
  have "unat (of_nat (592 - a) :: u16) = 592 - a" by (rule unat_of_nat_u16) simp
  then show ?thesis by (simp add: min_def word_le_nat_alt)
qed

lemma pool_loop_step:
  fixes rem :: u16
  assumes tab: "tab_POOL s = q # tab" and ok: "pool_ok (as @ q # tab)" and b: "built s p as r"
    and lst: "lst = (if as = [] then None else Some (last as))"
    and off: "LWIP_MEM_ALIGN_SIZE offset \<le> 56"
    and ql: "ql = min rem (of_nat (592 - LWIP_MEM_ALIGN_SIZE offset))"
    and s1: "s1 = link as q (new_pbuf (q + 16 + LWIP_MEM_ALIGN_SIZE offset) rem ql) (s\<lparr>tab_POOL := tab\<rparr>)"
    and p1: "p1 = (case p of None \<Rightarrow> Some q | Some _ \<Rightarrow> p)"
  shows "pool_loop e offset rem p lst s = (if rem - ql > 0 then pool_loop e 0 (rem - ql) p1 (Some q) s1 else Some (p1, s1))"
proof -
  have q4: "q mod 4 = 0" "q \<notin> set as" "distinct as"
    using pool_ok_distinct [OF ok] ok by (auto simp: pool_ok_def)
  let ?i = "pbuf_init_alloced_pbuf q (q + 16 + LWIP_MEM_ALIGN_SIZE offset) rem ql PBUF_POOL 0 (s\<lparr>tab_POOL := tab\<rparr>)"
  have lnk: "(case lst of None \<Rightarrow> Some ?i | Some l \<Rightarrow> upd l (\<lambda>b. b\<lparr>nxt := Some q\<rparr>) ?i) = Some s1"
  proof (cases "as = []")
    case True
    then show ?thesis
      by (simp add: lst s1 link_def new_pbuf_def pbuf_init_alloced_pbuf_def fun_upd_def cong: if_cong)
  next
    case False
    then have l: "last as \<in> set as" by simp
    with b obtain lb where lb: "pbufs s (last as) = Some lb"
      by (auto simp: built_def pool_pbuf_def split: option.splits)
    have "last as \<noteq> q" using l q4(2) by auto
    with False lb show ?thesis
      by (auto simp: lst s1 link_def new_pbuf_def pbuf_init_alloced_pbuf_def upd_def intro!: pst.equality)
  qed
  have al: "LWIP_MEM_ALIGN_SIZE (q + SIZEOF_STRUCT_PBUF + offset) = q + 16 + LWIP_MEM_ALIGN_SIZE offset"
    using align_shift [OF q4(1)] by (simp add: SIZEOF_STRUCT_PBUF_def)
  have m: "(q + 16 + LWIP_MEM_ALIGN_SIZE offset) mod 4 = 0"
    using q4(1) align_size_bounds(3) [of offset] by presburger
  have ql': "min rem (of_nat (PBUF_POOL_BUFSIZE_ALIGNED - LWIP_MEM_ALIGN_SIZE offset)) = ql"
    "LWIP_MEM_ALIGN_SIZE offset < PBUF_POOL_BUFSIZE_ALIGNED"
    using off by (simp_all only: ql PBUF_POOL_BUFSIZE_ALIGNED_def)
  show ?thesis
    by (subst pool_loop.simps)
      (use q4(1) m ql'(2) in \<open>simp add: tab do_memp_malloc_pool_def MEM_ALIGNMENT_def al ql'(1)
        Let_def lnk del: of_nat_diff flip: p1\<close>)
qed

definition alloc_ok :: "'m pst \<Rightarrow> nat list \<Rightarrow> nat \<Rightarrow> nat \<Rightarrow> nat option \<Rightarrow> 'm pst \<Rightarrow> bool" where
  "alloc_ok s as r k p s' \<longleftrightarrow> length (content s' (as @ take k (tab_POOL s))) = length (content s as) + r \<and> 0 < k \<and> k \<le> length (tab_POOL s) \<and> p \<noteq> None \<and> built s' p (as @ take k (tab_POOL s)) 0 \<and>
     tab_POOL s' = drop k (tab_POOL s) \<and> bytes s' = bytes s \<and>
     (\<forall>a. a \<notin> set (as @ take k (tab_POOL s)) \<longrightarrow> pbufs s' a = pbufs s a)"

definition alloc_fail :: "'m pst \<Rightarrow> nat list \<Rightarrow> 'm pst \<Rightarrow> bool" where
  "alloc_fail s as s' \<longleftrightarrow> tab_POOL s' = rev (as @ tab_POOL s) \<and> bytes s' = bytes s \<and>
     (\<forall>a. a \<notin> set (as @ tab_POOL s) \<longrightarrow> pbufs s' a = pbufs s a)"

lemma chain_None: "chain s p as \<Longrightarrow> p = None \<longleftrightarrow> as = []"
  by (cases as) auto

lemma pool_loop_empty:
  assumes "tab_POOL s = []" and "built s p as r" and "distinct as"
  shows "\<exists>s'. pool_loop e offset rem p lst s = Some (None, s') \<and> alloc_fail s as s'"
proof -
  let ?s = "pbuf_pool_is_empty (s\<lparr>tab_POOL := []\<rparr>)"
  have c: "chain ?s p as" and q: "\<forall>a \<in> set as. pool_pbuf ?s a"
    using assms(2) chain_cong [of as ?s s p] by (simp_all add: built_def pool_pbuf_def pbuf_pool_is_empty_def)
  note f = free_loop_pool [OF c assms(3) q, of e 0] and n = chain_None [OF c]
  show ?thesis
  proof (cases p)
    case None
    with n assms(1) show ?thesis
      by (subst pool_loop.simps) (simp add: do_memp_malloc_pool_def alloc_fail_def pbuf_pool_is_empty_def)
  next
    case (Some a)
    with f assms(1) show ?thesis
      by (subst pool_loop.simps)
        (auto simp: do_memp_malloc_pool_def alloc_fail_def pbuf_free_def drop_pbufs_def pbuf_pool_is_empty_def)
  qed
qed

lemma alloc_ok_step:
  assumes "tab_POOL s = q # tab" and "alloc_ok s1 (as @ [q]) r' k p s'" and "tab_POOL s1 = tab"
    and "bytes s1 = bytes s" and "length (content s1 (as @ [q])) + r' = length (content s as) + r" and "\<And>a. a \<notin> set (as @ [q]) \<Longrightarrow> pbufs s1 a = pbufs s a"
  shows "alloc_ok s as r (Suc k) p s'"
  using assms by (auto simp: alloc_ok_def)

lemma alloc_fail_step:
  assumes "tab_POOL s = q # tab" and "alloc_fail s1 (as @ [q]) s'" and "tab_POOL s1 = tab"
    and "bytes s1 = bytes s" and "\<And>a. a \<notin> set (as @ [q]) \<Longrightarrow> pbufs s1 a = pbufs s a"
  shows "alloc_fail s as s'"
  using assms by (auto simp: alloc_fail_def)

lemma pool_loop_spec:
  fixes rem :: u16
  assumes "built s p as (unat rem)" and "pool_ok (as @ tab_POOL s)"
    and "lst = (if as = [] then None else Some (last as))" and "LWIP_MEM_ALIGN_SIZE offset \<le> 56"
  shows "if tab_POOL s \<noteq> [] \<and> unat rem + LWIP_MEM_ALIGN_SIZE offset \<le> 592 * length (tab_POOL s)
    then \<exists>k p' s'. pool_loop e offset rem p lst s = Some (p', s') \<and> alloc_ok s as (unat rem) k p' s'
    else \<exists>s'. pool_loop e offset rem p lst s = Some (None, s') \<and> alloc_fail s as s'"
  using assms
proof (induction "tab_POOL s" arbitrary: s p as lst rem offset)
  case Nil
  then show ?case using pool_loop_empty [of s p as "unat rem" e offset rem lst] pool_ok_distinct by auto
next
  case (Cons q tab)
  note tab = Cons.hyps(2) [symmetric]
  let ?al = "LWIP_MEM_ALIGN_SIZE offset"
  define ql where "ql = min rem (of_nat (592 - ?al))"
  define s1 where "s1 = link as q (new_pbuf (q + 16 + ?al) rem ql) (s\<lparr>tab_POOL := tab\<rparr>)"
  define p1 where "p1 = (case p of None \<Rightarrow> Some q | Some _ \<Rightarrow> p)"
  have ok: "pool_ok (as @ q # tab)" using Cons.prems(2) by (simp add: tab)
  have uq: "unat ql = min (unat rem) (592 - ?al)" unfolding ql_def by (rule pool_qlen [OF Cons.prems(4)])
  have b0: "built (s\<lparr>tab_POOL := tab\<rparr>) p as (unat rem)"
  proof -
    have c: "content (s\<lparr>tab_POOL := tab\<rparr>) xs = content s xs" for xs by (rule content_cong) simp_all
    have t: "tot_more (s\<lparr>tab_POOL := tab\<rparr>) r xs = tot_more s r xs" for r xs
      by (induction xs) (simp_all add: c seg_def split: option.splits)
    show ?thesis using Cons.prems(1) chain_cong [of as "s\<lparr>tab_POOL := tab\<rparr>" s p]
      by (simp add: built_def pool_pbuf_def in_elem_def t)
  qed
  have sub: "unat (rem - ql) = unat rem - unat ql" by (rule unat_u16_sub) (simp add: ql_def)
  have b1: "built s1 p1 (as @ [q]) (unat (rem - ql))"
    unfolding s1_def p1_def sub using uq Cons.prems(4)
    by (intro built_link [OF b0 ok refl]) auto
  have t1: "tab_POOL s1 = tab" "bytes s1 = bytes s" "\<And>a. a \<notin> set (as @ [q]) \<Longrightarrow> pbufs s1 a = pbufs s a"
    by (auto simp: s1_def link_def)
  have nq: "q \<notin> set as" using pool_ok_distinct [OF ok] by auto
  have "length (seg s1 q) = unat ql" by (simp add: s1_def seg_def link_pbufs new_pbuf_def)
  moreover have "content s1 as = content s as"
    unfolding s1_def link_content [OF nq] by (rule content_cong) simp_all
  ultimately have cl: "length (content s1 (as @ [q])) + unat (rem - ql) = length (content s as) + unat rem"
    using sub uq by simp
  note step = pool_loop_step [OF tab ok Cons.prems(1,3,4) ql_def s1_def p1_def, of e]
  have p1: "p1 \<noteq> None" by (simp add: p1_def split: option.splits)
  show ?case
  proof (cases "rem - ql > 0")
    case False
    then have z: "unat (rem - ql) = 0" by (simp add: word_gt_0)
    then have "alloc_ok s as (unat rem) 1 p1 s1" using b1 t1 p1 cl by (simp add: alloc_ok_def tab)
    moreover have "unat rem + ?al \<le> 592 * length (tab_POOL s)" using z sub uq Cons.prems(4) by (simp add: tab)
    ultimately show ?thesis using step False by (auto simp: tab)
  next
    case True
    then have "unat (rem - ql) > 0" by (simp add: word_less_nat_alt)
    then have big: "unat (rem - ql) = unat rem + ?al - 592" "592 < unat rem + ?al" using sub uq Cons.prems(4) by auto
    have a0: "LWIP_MEM_ALIGN_SIZE 0 = 0" by simp
    have ih: "if tab_POOL s1 \<noteq> [] \<and> unat (rem - ql) + LWIP_MEM_ALIGN_SIZE 0 \<le> 592 * length (tab_POOL s1)
      then \<exists>k p' s'. pool_loop e 0 (rem - ql) p1 (Some q) s1 = Some (p', s') \<and> alloc_ok s1 (as @ [q]) (unat (rem - ql)) k p' s'
      else \<exists>s'. pool_loop e 0 (rem - ql) p1 (Some q) s1 = Some (None, s') \<and> alloc_fail s1 (as @ [q]) s'"
      by (rule Cons.hyps(1)) (use t1 b1 ok in \<open>simp_all\<close>)
    have cond: "(tab_POOL s1 \<noteq> [] \<and> unat (rem - ql) + LWIP_MEM_ALIGN_SIZE 0 \<le> 592 * length (tab_POOL s1))
       \<longleftrightarrow> (tab_POOL s \<noteq> [] \<and> unat rem + ?al \<le> 592 * length (tab_POOL s))"
      using big by (cases tab) (auto simp: t1(1) tab)
    show ?thesis
      using ih alloc_ok_step [OF tab _ t1(1,2) cl t1(3)] alloc_fail_step [OF tab _ t1] step True unfolding cond
      by (simp split: if_splits) blast+
  qed
qed

lemma built_separate:
  assumes "built s p as r" and "pool_ok as"
  shows "separate s as"
proof -
  have ap: "apart s a c" if "a \<in> set as" "c \<in> set as" "a + 608 \<le> c \<or> c + 608 \<le> a" for a c
  proof -
    note t = that
    obtain b d where "pbufs s a = Some b" "pbufs s c = Some d"
      "a + 16 \<le> payload b" "payload b + unat (len b) \<le> a + 608"
      "c + 16 \<le> payload d" "payload d + unat (len d) \<le> c + 608"
      using assms(1) t(1,2) by (fastforce simp: built_def in_elem_def split: option.splits)
    with t(3) show ?thesis by (auto simp: apart_def)
  qed
  have "sorted_wrt (\<lambda>a c. a + 608 \<le> c \<or> c + 608 \<le> a) as" using assms(2) by (simp add: pool_ok_def)
  then show ?thesis unfolding separate_def by (rule sorted_wrt_mono_rel [rotated]) (rule ap)
qed

section \<open>Slices and single bytes\<close>

text \<open>\<open>skip_at s as off q k cs\<close>: byte \<open>off\<close> of the chain \<open>as\<close> is byte \<open>k\<close> of its tail \<open>cs\<close> that starts at \<open>q\<close>.\<close>

definition skip_at :: "'m pst \<Rightarrow> nat list \<Rightarrow> u16 \<Rightarrow> nat option \<Rightarrow> u16 \<Rightarrow> nat list \<Rightarrow> bool" where
  "skip_at s as off q k cs \<longleftrightarrow> chain s q cs \<and> drop (unat k) (content s cs) = drop (unat off) (content s as) \<and>
    (cs = [] \<longrightarrow> length (content s as) \<le> unat off) \<and>
    (\<forall>c ds. cs = c # ds \<longrightarrow> unat k < length (seg s c) \<and> unat k \<le> unat off \<and> unat k + length (content s as) = unat off + length (content s cs))"

lemma skip_loop_spec:
  assumes "chain s p as"
  shows "\<exists>q k cs. skip_loop p off s = Some (q, k) \<and> skip_at s as off q k cs"
  using assms
proof (induction as arbitrary: p off)
  case Nil
  then show ?case by (intro exI [of _ None] exI [of _ off] exI [of _ "[]"]) (simp add: skip_loop.simps skip_at_def)
next
  case (Cons a as)
  obtain b where b: "p = Some a" "pbufs s a = Some b" "chain s (nxt b) as"
    using Cons.prems(1) by (rule chain_ConsE)
  note la = length_seg [OF b(2)]
  show ?case
  proof (cases "len b \<le> off")
    case True
    then have u: "unat (off - len b) = unat off - unat (len b)" "unat (len b) \<le> unat off"
      by (simp_all add: unat_u16_sub word_le_nat_alt)
    obtain q k cs where ih: "skip_loop (nxt b) (off - len b) s = Some (q, k)" "skip_at s as (off - len b) q k cs"
      using Cons.IH [OF b(3), of "off - len b"] by blast
    have "skip_loop p off s = Some (q, k)"
      using True ih(1) by (simp add: skip_loop.simps [of "Some a"] b(1,2))
    moreover have "skip_at s (a # as) off q k cs"
      using ih(2) u la by (auto simp: skip_at_def)
    ultimately show ?thesis by blast
  next
    case False
    then have "skip_loop p off s = Some (p, off)" by (simp add: skip_loop.simps [of "Some a"] b(1,2))
    moreover have "skip_at s (a # as) off p off (a # as)"
      using Cons.prems False la by (simp add: skip_at_def word_le_nat_alt del: chain.simps)
    ultimately show ?thesis by blast
  qed
qed

lemma try_get_at_spec:
  assumes "chain s p as"
  shows "pbuf_try_get_at p off s = Some (if unat off < length (content s as) then uint (content s as ! unat off) else - 1)"
proof -
  obtain q k cs where h: "skip_loop p off s = Some (q, k)" "skip_at s as off q k cs"
    using skip_loop_spec [OF assms] by blast
  show ?thesis
  proof (cases cs)
    case Nil
    with h show ?thesis by (simp add: pbuf_try_get_at_def pbuf_skip_const_def skip_at_def)
  next
    case (Cons c ds)
    with h(2) obtain b where b: "q = Some c" "pbufs s c = Some b" and k: "unat k < unat (len b)"
      and e: "unat k + length (content s as) = unat off + length (content s cs)"
      and d: "drop (unat k) (content s cs) = drop (unat off) (content s as)"
      by (auto simp: skip_at_def length_seg split: option.splits)
    have l: "unat k < length (content s cs)" using k by (simp add: Cons length_seg [OF b(2)])
    then have o: "unat off < length (content s as)" using e by simp
    have "content s as ! unat off = drop (unat off) (content s as) ! 0" using o by simp
    also have "\<dots> = content s cs ! unat k" using l by (simp flip: d)
    also have "\<dots> = bytes s (payload b + unat k)"
      using k by (simp add: Cons nth_append length_seg [OF b(2)]) (simp add: seg_def b(2))
    finally show ?thesis using h(1) b o k by (simp add: pbuf_try_get_at_def pbuf_skip_const_def word_less_nat_alt)
  qed
qed

lemma get_at_spec:
  assumes "chain s p as"
  shows "pbuf_get_at p off s = Some (if unat off < length (content s as) then content s as ! unat off else 0)"
  by (simp add: pbuf_get_at_def try_get_at_spec [OF assms])

text \<open>Comparison of a slice with a string, as a function of lists: the position of the first difference.\<close>

fun first_diff :: "nat \<Rightarrow> u8 list \<Rightarrow> u8 list \<Rightarrow> nat" where
  "first_diff i xs [] = 0"
| "first_diff i [] (y # ys) = i + 1"
| "first_diff i (x # xs) (y # ys) = (if x \<noteq> y then i + 1 else first_diff (Suc i) xs ys)"

lemma first_diff_0: "length ys \<le> length xs \<Longrightarrow> first_diff i xs ys = 0 \<longleftrightarrow> take (length ys) xs = ys"
  by (induction i xs ys rule: first_diff.induct) auto

lemma memcmp_loop_spec:
  assumes "chain s q cs" and "unat st + i + length ys \<le> length (content s cs)"
    and "unat st + i + length ys < 65536"
  shows "memcmp_loop q st i ys s = Some (of_nat (min (first_diff i (drop (unat st + i) (content s cs)) ys) 0xFFFF))"
  using assms(2,3)
proof (induction ys arbitrary: i)
  case (Cons y ys)
  have "unat (st + of_nat i) = unat st + i"
    using Cons.prems by (subst unat_u16_plus) (simp_all add: unat_of_nat_u16)
  then have g: "pbuf_get_at q (st + of_nat i) s = Some (content s cs ! (unat st + i))"
    using Cons.prems by (simp add: get_at_spec [OF assms(1)])
  have d: "drop (unat st + i) (content s cs) = content s cs ! (unat st + i) # drop (unat st + Suc i) (content s cs)"
    using Cons.prems by (simp add: Cons_nth_drop_Suc)
  show ?case using Cons.IH [of "Suc i"] Cons.prems by (simp add: g d)
qed simp

lemma memcmp_spec:
  assumes "chain s (Some a) (a # as)" and "tot_ok s (a # as)"
  shows "pbuf_memcmp (Some a) off ys s =
    (if length (content s (a # as)) < unat off + length ys then Some 0xFFFF
     else Some (of_nat (min (first_diff 0 (drop (unat off) (content s (a # as))) ys) 0xFFFF)))"
proof -
  let ?C = "content s (a # as)"
  obtain b where b: "pbufs s a = Some b" "unat (tot_len b) = length ?C"
    using assms(2) by (auto split: option.splits)
  have lt: "length ?C < 65536" using unat_u16_less [of "tot_len b"] b(2) by simp
  obtain q k cs where h: "skip_loop (Some a) off s = Some (q, k)" "skip_at s (a # as) off q k cs"
    using skip_loop_spec [OF assms(1)] by blast
  show ?thesis
  proof (cases "length ?C < unat off + length ys")
    case True
    then show ?thesis using b by (simp add: pbuf_memcmp_def del: content_simps)
  next
    case False
    have "memcmp_loop q k 0 ys s = Some (of_nat (min (first_diff 0 (drop (unat off) ?C) ys) 0xFFFF))"
    proof (cases cs)
      case Nil
      with False h(2) have "length ?C \<le> unat off" by (simp add: skip_at_def del: content_simps)
      with False have "length ys = 0" by linarith
      then show ?thesis by simp
    next
      case (Cons c ds)
      with h(2) have e: "chain s q cs" "unat k + length ?C = unat off + length (content s cs)"
          "drop (unat k) (content s cs) = drop (unat off) ?C" "unat k \<le> unat off"
        by (auto simp: skip_at_def simp del: content_simps(2))
      show ?thesis
        using memcmp_loop_spec [OF e(1), of k 0 ys] e False lt by (simp del: content_simps)
    qed
    with False b h(1) show ?thesis by (simp add: pbuf_memcmp_def del: content_simps)
  qed
qed

section \<open>Headers\<close>

lemma add_header_spec:
  assumes "pbufs s a = Some b" and "type_internal b AND 0x80 \<noteq> 0" and "0 < n" and "n \<le> 0xFFFF"
    and "unat (tot_len b) + n < 65536" and "a + 16 + n \<le> payload b"
  shows "pbuf_add_header (Some a) n s = Some (0, s\<lparr>pbufs := (pbufs s)(a \<mapsto>
    b\<lparr>payload := payload b - n, len := len b + of_nat n, tot_len := tot_len b + of_nat n\<rparr>)\<rparr>)"
proof -
  have u: "unat (of_nat n :: u16) = n" using assms(4) by (simp add: unat_of_nat_u16)
  have "unat (of_nat n + tot_len b) = n + unat (tot_len b)" using assms(5) u by (subst unat_u16_plus) simp_all
  then have "\<not> of_nat n + tot_len b < of_nat n" by (simp add: word_less_nat_alt u)
  with assms show ?thesis
    by (simp add: pbuf_add_header_def pbuf_add_header_impl_def SIZEOF_STRUCT_PBUF_def upd_def Let_def)
qed

lemma remove_header_spec:
  assumes "pbufs s a = Some b" and "0 < n" and "n \<le> unat (len b)"
  shows "pbuf_remove_header (Some a) n s = Some (0, s\<lparr>pbufs := (pbufs s)(a \<mapsto>
    b\<lparr>payload := payload b + n, len := len b - of_nat n, tot_len := tot_len b - of_nat n\<rparr>)\<rparr>)"
proof -
  have n: "n \<le> 0xFFFF" using assms(3) unat_u16_less [of "len b"] by simp
  then have "of_nat n \<le> len b" using assms(3) by (simp add: word_le_nat_alt unat_of_nat_u16)
  with assms n show ?thesis by (simp add: pbuf_remove_header_def upd_def Let_def)
qed

section \<open>Concatenation\<close>

lemma cat_loop_spec:
  assumes "chain s p as" and "as \<noteq> []" and "chain s (Some t) ts" and "distinct (as @ ts)"
    and "tot_ok s as" and "tot_ok s ts" and "length (content s as) + length (content s ts) < 65536"
  shows "\<exists>m. cat_loop p t s = Some (s\<lparr>pbufs := m\<rparr>) \<and> chain (s\<lparr>pbufs := m\<rparr>) p (as @ ts) \<and>
    tot_ok (s\<lparr>pbufs := m\<rparr>) (as @ ts) \<and> content (s\<lparr>pbufs := m\<rparr>) (as @ ts) = content s as @ content s ts \<and>
    (\<forall>a. a \<notin> set as \<longrightarrow> m a = pbufs s a)"
  using assms
proof (induction as arbitrary: p s)
  case (Cons a as)
  obtain b where b: "p = Some a" "pbufs s a = Some b" "chain s (nxt b) as"
    using Cons.prems(1) by (rule chain_ConsE)
  obtain t' where ts: "ts = t # t'" using Cons.prems(3) by (cases ts) auto
  obtain tb where tb: "pbufs s t = Some tb" "unat (tot_len tb) = length (content s ts)"
    using Cons.prems(6) by (auto simp: ts split: option.splits)
  have tl: "unat (tot_len b) = length (content s (a # as))" using Cons.prems(5) b(2) by auto
  have ut: "unat (tot_len b + tot_len tb) = length (content s (a # as)) + length (content s ts)"
    using Cons.prems(7) tl tb(2) by (subst unat_u16_plus) simp_all
  show ?case
  proof (cases "nxt b")
    case None
    then have as: "as = []" using b(3) by (cases as) auto
    have eq: "tot_len b = len b" using tl length_seg [OF b(2)] by (simp add: as word_unat_eq_iff)
    let ?m = "(pbufs s)(a \<mapsto> b\<lparr>tot_len := tot_len b + tot_len tb, nxt := Some t\<rparr>)"
    have fr: "\<And>x. x \<in> set ts \<Longrightarrow> pbufs (s\<lparr>pbufs := ?m\<rparr>) x = pbufs s x" using Cons.prems(4) by auto
    have c: "chain (s\<lparr>pbufs := ?m\<rparr>) (Some t) ts" "tot_ok (s\<lparr>pbufs := ?m\<rparr>) ts" "content (s\<lparr>pbufs := ?m\<rparr>) ts = content s ts"
      using chain_cong [of ts "s\<lparr>pbufs := ?m\<rparr>" s "Some t"] tot_ok_cong [of ts "s\<lparr>pbufs := ?m\<rparr>" s]
        content_cong [of ts "s\<lparr>pbufs := ?m\<rparr>" s] fr Cons.prems(3,6) by simp_all
    have sg: "seg (s\<lparr>pbufs := ?m\<rparr>) a = seg s a" by (simp add: seg_def b(2))
    have "cat_loop p t s = Some (s\<lparr>pbufs := ?m\<rparr>)"
      by (subst cat_loop.simps) (simp add: b(1,2) tb(1) None eq upd_def)
    moreover have ct: "content (s\<lparr>pbufs := ?m\<rparr>) ((a # as) @ ts) = content s (a # as) @ content s ts"
      unfolding as append.simps content_simps c(3) sg by simp
    moreover have "chain (s\<lparr>pbufs := ?m\<rparr>) p ((a # as) @ ts)" using c(1) by (simp add: as b(1))
    moreover have "tot_ok (s\<lparr>pbufs := ?m\<rparr>) ((a # as) @ ts)"
      using ct c(2) ut by (simp add: as del: fun_upd_apply) simp
    moreover have "\<forall>x. x \<notin> set (a # as) \<longrightarrow> ?m x = pbufs s x" by simp
    ultimately show ?thesis by blast
  next
    case (Some q)
    then have ne: "as \<noteq> []" using b(3) by (cases as) auto
    let ?b = "b\<lparr>tot_len := tot_len b + tot_len tb\<rparr>"
    let ?s = "s\<lparr>pbufs := (pbufs s)(a \<mapsto> ?b)\<rparr>"
    have fr: "\<And>x. x \<in> set (as @ ts) \<Longrightarrow> pbufs ?s x = pbufs s x" using Cons.prems(4) by auto
    have c: "content ?s as = content s as" "content ?s ts = content s ts" using fr by (auto intro!: content_cong)
    have pre: "chain ?s (nxt b) as" "chain ?s (Some t) ts" "tot_ok ?s as" "tot_ok ?s ts"
      using chain_cong [of as ?s s "nxt b"] chain_cong [of ts ?s s "Some t"] tot_ok_cong [of as ?s s]
        tot_ok_cong [of ts ?s s] fr b(3) Cons.prems(3,5,6) by simp_all
    obtain m where m: "cat_loop (nxt b) t ?s = Some (?s\<lparr>pbufs := m\<rparr>)" "chain (?s\<lparr>pbufs := m\<rparr>) (nxt b) (as @ ts)"
      "tot_ok (?s\<lparr>pbufs := m\<rparr>) (as @ ts)" "content (?s\<lparr>pbufs := m\<rparr>) (as @ ts) = content ?s as @ content ?s ts"
      "\<forall>x. x \<notin> set as \<longrightarrow> m x = pbufs ?s x"
      using Cons.IH [OF pre(1) ne pre(2) _ pre(3,4)] Cons.prems(4,7) c by auto
    have ma: "m a = Some ?b" using m(5) Cons.prems(4) by auto
    have st: "cat_loop p t s = Some (s\<lparr>pbufs := m\<rparr>)"
      using m(1) by (subst cat_loop.simps) (simp add: b(1,2) tb(1) Some upd_def)
    have sg: "seg (s\<lparr>pbufs := m\<rparr>) a = seg s a" by (simp add: seg_def b(2) ma)
    have ct: "content (s\<lparr>pbufs := m\<rparr>) ((a # as) @ ts) = content s (a # as) @ content s ts"
      using m(4) c sg by simp
    have "chain (s\<lparr>pbufs := m\<rparr>) p ((a # as) @ ts)" "tot_ok (s\<lparr>pbufs := m\<rparr>) ((a # as) @ ts)"
      using m(2,3) ma b(1) ct ut by simp_all
    then show ?thesis using st ct m(5) by (intro exI [of _ m]) auto
  qed
qed simp

section \<open>Searching\<close>

definition slice_is :: "u8 list \<Rightarrow> u8 list \<Rightarrow> nat \<Rightarrow> bool" where
  "slice_is xs ys i \<longleftrightarrow> take (length ys) (drop i xs) = ys"

lemma memcmp_zero:
  assumes "chain s (Some a) (a # as)" and "tot_ok s (a # as)"
    and "unat off + length ys \<le> length (content s (a # as))"
  shows "\<exists>v. pbuf_memcmp (Some a) off ys s = Some v \<and> (v = 0 \<longleftrightarrow> slice_is (content s (a # as)) ys (unat off))"
proof -
  let ?d = "first_diff 0 (drop (unat off) (content s (a # as))) ys"
  have v: "pbuf_memcmp (Some a) off ys s = Some (of_nat (min ?d 0xFFFF))"
    using assms(3) memcmp_spec [OF assms(1,2), of off ys] by simp
  have "unat (of_nat (min ?d 0xFFFF) :: u16) = min ?d 0xFFFF" by (rule unat_of_nat_u16) simp
  then have "(of_nat (min ?d 0xFFFF) :: u16) = 0 \<longleftrightarrow> min ?d 0xFFFF = 0" by (metis unat_eq_0 unsigned_0)
  also have "\<dots> \<longleftrightarrow> ?d = 0" by (simp add: min_def)
  also have "\<dots> \<longleftrightarrow> slice_is (content s (a # as)) ys (unat off)"
    unfolding slice_is_def using assms(3) by (intro first_diff_0) simp
  finally show ?thesis using v by blast
qed

lemma memfind_loop_spec:
  assumes "chain s (Some a) (a # as)" and "tot_ok s (a # as)" and "length ys \<le> length (content s (a # as))"
    and "unat mx = length (content s (a # as)) - length ys" and "unat mx < 0xFFFF" and "unat i \<le> unat mx + 1"
  shows "memfind_loop (Some a) ys i mx s =
    Some (case find (slice_is (content s (a # as)) ys) [unat i ..< Suc (unat mx)] of None \<Rightarrow> 0xFFFF | Some j \<Rightarrow> of_nat j)"
  using assms(6)
proof (induction "Suc (unat mx) - unat i" arbitrary: i)
  case 0
  then have "\<not> i \<le> mx" by (simp add: word_le_nat_alt)
  with 0 show ?case by (simp add: memfind_loop.simps)
next
  case (Suc n)
  then have le: "unat i \<le> unat mx" by simp
  then have lew: "i \<le> mx" by (simp add: word_le_nat_alt)
  have u1: "unat (i + 1) = Suc (unat i)" using le assms(5) by (subst unat_u16_plus) simp_all
  have pre: "unat i + length ys \<le> length (content s (a # as))" using le assms(3,4) by linarith
  obtain v where v: "pbuf_memcmp (Some a) i ys s = Some v" "v = 0 \<longleftrightarrow> slice_is (content s (a # as)) ys (unat i)"
    using memcmp_zero [OF assms(1,2) pre] by blast
  have up: "[unat i ..< Suc (unat mx)] = unat i # [Suc (unat i) ..< Suc (unat mx)]"
    using le by (simp add: upt_conv_Cons)
  have ih: "memfind_loop (Some a) ys (i + 1) mx s =
      Some (case find (slice_is (content s (a # as)) ys) [unat (i + 1) ..< Suc (unat mx)] of None \<Rightarrow> 0xFFFF | Some j \<Rightarrow> of_nat j)"
    by (rule Suc.hyps(1)) (use Suc.hyps(2) u1 le in simp_all)
  show ?case
    using lew v ih by (subst memfind_loop.simps) (simp add: up u1 del: upt_Suc)
qed

lemma alloc_pool_spec:
  assumes "pool_ok (tab_POOL s)"
  shows "if tab_POOL s \<noteq> [] \<and> unat n + LWIP_MEM_ALIGN_SIZE (layer_val layer) \<le> 592 * length (tab_POOL s)
    then \<exists>k a as s'. pbuf_alloc e layer n PBUF_POOL s = Some (Some a, s') \<and> a # as = take k (tab_POOL s) \<and>
      tab_POOL s' = drop k (tab_POOL s) \<and> chain s' (Some a) (a # as) \<and> tot_ok s' (a # as) \<and>
      length (content s' (a # as)) = unat n \<and> separate s' (a # as) \<and> bytes s' = bytes s
    else \<exists>s'. pbuf_alloc e layer n PBUF_POOL s = Some (None, s') \<and> tab_POOL s' = rev (tab_POOL s)"
proof -
  have b: "built s None [] (unat n)" by (simp add: built_def)
  have al: "LWIP_MEM_ALIGN_SIZE (layer_val layer) \<le> 56"
    using align_size_bounds(2,3) [of "layer_val layer"] by (cases layer) (simp_all, presburger+)
  have pa: "pbuf_alloc e layer n PBUF_POOL s = pool_loop e (layer_val layer) n None None s"
    by (simp add: pbuf_alloc_def Let_def)
  note sp = pool_loop_spec [OF b, of None "layer_val layer" e, folded pa]
  show ?thesis
  proof (cases "tab_POOL s \<noteq> [] \<and> unat n + LWIP_MEM_ALIGN_SIZE (layer_val layer) \<le> 592 * length (tab_POOL s)")
    case True
    then obtain k p' s' where r: "pbuf_alloc e layer n PBUF_POOL s = Some (p', s')" and ok: "alloc_ok s [] (unat n) k p' s'"
      using sp assms al by auto
    then obtain a as where aas: "a # as = take k (tab_POOL s)" by (cases "take k (tab_POOL s)") (auto simp: alloc_ok_def)
    have bt: "built s' p' (a # as) 0" using ok by (simp add: alloc_ok_def aas)
    have po: "pool_ok (a # as)" using assms unfolding aas pool_ok_def by (auto dest: in_set_takeD sorted_wrt_take)
    have "p' = Some a" using bt by (simp add: built_def)
    with r have r': "pbuf_alloc e layer n PBUF_POOL s = Some (Some a, s')" by simp
    have "chain s' (Some a) (a # as)" "tot_ok s' (a # as)"
      using bt \<open>p' = Some a\<close> unfolding built_def tot_more_0 by blast+
    moreover have "tab_POOL s' = drop k (tab_POOL s)" "bytes s' = bytes s" "length (content s' (a # as)) = unat n"
      using ok unfolding alloc_ok_def append_Nil aas [symmetric] by simp_all
    ultimately show ?thesis using r' built_separate [OF bt po] aas unfolding if_P [OF True] by blast
  next
    case False
    then show ?thesis using sp assms al by (auto simp: alloc_fail_def)
  qed
qed

section \<open>Properties of the packet buffers\<close>

text \<open>A pool of three elements and an environment without heap, for the witnesses.\<close>

definition no_heap :: "unit pbuf_env" where
  "no_heap = \<lparr>malloc_fn = (\<lambda>_ s. Some (None, s)), free_fn = (\<lambda>_ s. Some s), trim_fn = (\<lambda>_ _ s. Some (None, s)),
     custom_free_function = (\<lambda>_ s. Some s)\<rparr>"

definition pool3 :: "unit pst" where
  "pool3 = \<lparr>pbufs = (\<lambda>_. None), bytes = (\<lambda>_. 0),
     tab_POOL = memp_init_pool \<lparr>desc_num = 3, desc_size = 608, desc_base = 4096\<rparr>, tab_PBUF = [],
     pbuf_free_ooseq_pending = 0, heapm = ()\<rparr>"

lemma pool3_simps: "tab_POOL pool3 = [5312, 4704, 4096]" "pool_ok (tab_POOL pool3)"
  by (simp_all add: pool3_def memp_init_pool_def numeral_3_eq_3 pool_ok_def)

text \<open>
  C24: \<open>pbuf_alloc\<close> from the pool takes the first elements of the free list and links
  them to a chain whose payloads are disjoint, whose length is the one asked for and whose \<open>tot_len\<close>
  fields are right, exactly when the pool holds enough of them; otherwise it returns NULL and every
  element it had taken is back in the pool.
\<close>

theorem pbuf_alloc_pool:
  assumes "pool_ok (tab_POOL s)"
  shows "if tab_POOL s \<noteq> [] \<and> unat n + LWIP_MEM_ALIGN_SIZE (layer_val layer) \<le> 592 * length (tab_POOL s)
    then \<exists>k a as s'. pbuf_alloc e layer n PBUF_POOL s = Some (Some a, s') \<and> a # as = take k (tab_POOL s) \<and>
      tab_POOL s' = drop k (tab_POOL s) \<and> chain s' (Some a) (a # as) \<and> tot_ok s' (a # as) \<and>
      length (content s' (a # as)) = unat n \<and> separate s' (a # as) \<and> bytes s' = bytes s
    else \<exists>s'. pbuf_alloc e layer n PBUF_POOL s = Some (None, s') \<and> tab_POOL s' = rev (tab_POOL s)"
  by (rule alloc_pool_spec [OF assms])

theorem pbuf_alloc_pool_witness:
  "\<exists>a as s'. pbuf_alloc no_heap PBUF_RAW 1514 PBUF_POOL pool3 = Some (Some a, s') \<and>
     length (content s' (a # as)) = 1514"
  using pbuf_alloc_pool [OF pool3_simps(2), of 1514 PBUF_RAW no_heap] by (auto simp: pool3_simps simp del: content_simps)

text \<open>
  C25: on a chain with disjoint payloads and right \<open>tot_len\<close> fields, \<open>pbuf_take\<close> of no more
  bytes than the chain holds succeeds, puts them in front of the packet and changes neither the pbufs nor
  any byte outside of the payloads, and \<open>pbuf_copy_partial\<close> reads every slice of them back.
\<close>

theorem pbuf_take_copy:
  assumes "chain s (Some a) (a # as)" and "tot_ok s (a # as)" and "separate s (a # as)"
    and "length data \<le> length (content s (a # as))"
  shows "\<exists>s'. pbuf_take (Some a) data s = Some (ERR_OK, s') \<and> pbufs s' = pbufs s \<and> tab_POOL s' = tab_POOL s \<and>
    content s' (a # as) = data @ drop (length data) (content s (a # as)) \<and>
    (\<forall>l off. unat off + unat l \<le> length data \<longrightarrow>
       pbuf_copy_partial (Some a) l off s' = Some (l, take (unat l) (drop (unat off) data)))"
proof -
  obtain b where b: "pbufs s a = Some b" "unat (tot_len b) = length (content s (a # as))"
    using assms(2) by (auto split: option.splits)
  obtain m where m: "take_loop (Some a) data s = Some (s\<lparr>bytes := m\<rparr>)"
    "content (s\<lparr>bytes := m\<rparr>) (a # as) = data @ drop (length data) (content s (a # as))"
    using take_loop_spec [OF assms(1,3,4)] by blast
  let ?s = "s\<lparr>bytes := m\<rparr>"
  have t: "pbuf_take (Some a) data s = Some (ERR_OK, ?s)"
    using assms(4) b m(1) by (simp add: pbuf_take_def del: content_simps(2))
  have c: "chain ?s (Some a) (a # as)" using assms(1) chain_cong [of "a # as" ?s s "Some a"] by (simp del: chain.simps)
  have r: "pbuf_copy_partial (Some a) l off ?s = Some (l, take (unat l) (drop (unat off) data))"
    if "unat off + unat l \<le> length data" for l off
    using copy_partial_loop_spec [OF c, of 0 l off "[]"] that unat_u16_less [of l]
    unfolding m(2) by (simp add: pbuf_copy_partial_def)
  from t m(2) r show ?thesis by (intro exI [of _ ?s]) (simp del: content_simps(2))
qed

theorem pbuf_take_copy_witness:
  "\<exists>a s s'. pbuf_alloc no_heap PBUF_RAW 3 PBUF_POOL pool3 = Some (Some a, s) \<and>
     pbuf_take (Some a) [7, 8, 9] s = Some (ERR_OK, s') \<and> pbuf_copy_partial (Some a) 2 1 s' = Some (2, [8, 9])"
proof -
  obtain k a as s where al: "pbuf_alloc no_heap PBUF_RAW 3 PBUF_POOL pool3 = Some (Some a, s)"
    and c: "chain s (Some a) (a # as)" "tot_ok s (a # as)" "separate s (a # as)" "length (content s (a # as)) = 3"
    using alloc_pool_spec [OF pool3_simps(2), of 3 PBUF_RAW no_heap]
    by (auto simp: pool3_simps simp del: chain.simps tot_ok.simps content_simps)
  from c(4) have "length [7, 8, 9 :: u8] \<le> length (content s (a # as))" by simp
  from pbuf_take_copy [OF c(1-3) this] obtain s' where "pbuf_take (Some a) [7, 8, 9] s = Some (ERR_OK, s')"
    "\<forall>l off. unat off + unat l \<le> length [7, 8, 9 :: u8] \<longrightarrow>
       pbuf_copy_partial (Some a) l off s' = Some (l, take (unat l) (drop (unat off) [7, 8, 9]))" by blast
  then show ?thesis using al by (intro exI [of _ a] exI [of _ s] exI [of _ s']) (auto dest!: spec [of _ 2] spec [of _ 1])
qed

text \<open>
  C26: \<open>pbuf_free\<close> of a chain of pool pbufs that are referenced once frees every pbuf of the
  chain, returns their number and puts the elements back into the pool; nothing else changes.
\<close>

theorem pbuf_free_pool:
  assumes "chain s (Some a) (a # as)" and "distinct (a # as)" and "\<forall>x \<in> set (a # as). pool_pbuf s x"
  shows "pbuf_free e (Some a) s = Some (of_nat (length (a # as)),
    s\<lparr>pbufs := (\<lambda>x. if x \<in> set (a # as) then None else pbufs s x), tab_POOL := rev (a # as) @ tab_POOL s\<rparr>)"
  using free_loop_pool [OF assms, of e 0] by (simp add: pbuf_free_def drop_pbufs_def)

definition one_pbuf :: "unit pst" where
  "one_pbuf = pool3\<lparr>pbufs := [8192 \<mapsto> new_pbuf 8222 40 40]\<rparr>"

theorem pbuf_free_pool_witness:
  "\<exists>s'. pbuf_free no_heap (Some 8192) one_pbuf = Some (1, s') \<and> tab_POOL s' = [8192, 5312, 4704, 4096]"
  using pbuf_free_pool [of one_pbuf 8192 "[]" no_heap]
  by (auto simp: one_pbuf_def new_pbuf_def pool_pbuf_def pool3_simps)

text \<open>
  On a pbuf with its payload behind the structure, \<open>pbuf_add_header\<close> succeeds
  when there is room in front of the payload and the total length stays a \<open>u16_t\<close>, and
  \<open>pbuf_remove_header\<close> of the same size restores the pbuf.
\<close>

theorem pbuf_header_roundtrip:
  assumes "pbufs s a = Some b" and "type_internal b AND 0x80 \<noteq> 0" and "0 < n"
    and "unat (tot_len b) + n < 65536" and "len b \<le> tot_len b" and "a + 16 + n \<le> payload b"
  shows "\<exists>s' b'. pbuf_add_header (Some a) n s = Some (0, s') \<and> pbufs s' a = Some b' \<and>
    payload b' + n = payload b \<and> unat (len b') = unat (len b) + n \<and> unat (tot_len b') = unat (tot_len b) + n \<and>
    pbuf_remove_header (Some a) n s' = Some (0, s)"
proof -
  let ?b = "b\<lparr>payload := payload b - n, len := len b + of_nat n, tot_len := tot_len b + of_nat n\<rparr>"
  let ?s = "s\<lparr>pbufs := (pbufs s)(a \<mapsto> ?b)\<rparr>"
  have le: "unat (len b) \<le> unat (tot_len b)" using assms(5) by (simp add: word_le_nat_alt)
  have n: "unat (of_nat n :: u16) = n" using assms(4) by (simp add: unat_of_nat_u16)
  have u: "unat (len b + of_nat n) = unat (len b) + n" "unat (tot_len b + of_nat n) = unat (tot_len b) + n"
    using assms(4) le n by (simp_all add: unat_u16_plus)
  have ad: "pbuf_add_header (Some a) n s = Some (0, ?s)"
    using assms by (intro add_header_spec) simp_all
  have "pbuf_remove_header (Some a) n ?s = Some (0, ?s\<lparr>pbufs := (pbufs ?s)(a \<mapsto>
      ?b\<lparr>payload := payload ?b + n, len := len ?b - of_nat n, tot_len := tot_len ?b - of_nat n\<rparr>)\<rparr>)"
    using u assms(3) by (intro remove_header_spec) simp_all
  also have "\<dots> = Some (0, s)" using assms(1,6) by (simp add: fun_upd_idem)
  finally show ?thesis using ad u assms(6) by (intro exI [of _ ?s] exI [of _ ?b]) simp
qed

theorem pbuf_header_roundtrip_witness:
  "\<exists>s'. pbuf_add_header (Some 8192) 14 one_pbuf = Some (0, s') \<and> pbuf_remove_header (Some 8192) 14 s' = Some (0, one_pbuf)"
proof -
  have "pbufs one_pbuf 8192 = Some (new_pbuf 8222 40 40)" by (simp add: one_pbuf_def)
  from pbuf_header_roundtrip [OF this, of 14] show ?thesis by (auto simp: new_pbuf_def)
qed

text \<open>
  \<open>pbuf_cat\<close> links two disjoint chains whose lengths add up to a \<open>u16_t\<close> to one chain
  that holds the two packets one after the other and keeps the \<open>tot_len\<close> invariant.
\<close>

theorem pbuf_cat_appends:
  assumes "chain s (Some h) hs" and "chain s (Some t) ts" and "distinct (hs @ ts)"
    and "tot_ok s hs" and "tot_ok s ts" and "length (content s hs) + length (content s ts) < 65536"
  shows "\<exists>s'. pbuf_cat (Some h) (Some t) s = Some s' \<and> chain s' (Some h) (hs @ ts) \<and> tot_ok s' (hs @ ts) \<and>
    content s' (hs @ ts) = content s hs @ content s ts"
proof -
  have ne: "hs \<noteq> []" using assms(1) by auto
  have "h \<noteq> t" using assms(1-3) by (cases hs; cases ts) auto
  with cat_loop_spec [OF assms(1) ne assms(2-6)] show ?thesis by (auto simp: pbuf_cat_def simp del: content_simps(3))
qed

definition two_pbufs :: "unit pst" where
  "two_pbufs = pool3\<lparr>pbufs := [8192 \<mapsto> new_pbuf 8222 40 40, 12288 \<mapsto> new_pbuf 12304 2 2]\<rparr>"

theorem pbuf_cat_appends_witness:
  "\<exists>s'. pbuf_cat (Some 8192) (Some 12288) two_pbufs = Some s' \<and> chain s' (Some 8192) [8192, 12288] \<and>
     length (content s' [8192, 12288]) = 42"
proof -
  have c: "length (content two_pbufs [8192]) = 40" "length (content two_pbufs [12288]) = 2"
    "chain two_pbufs (Some 8192) [8192]" "chain two_pbufs (Some 12288) [12288]"
    by (simp_all add: two_pbufs_def new_pbuf_def seg_def)
  have t: "tot_ok two_pbufs [8192]" "tot_ok two_pbufs [12288]"
    by (simp_all add: two_pbufs_def new_pbuf_def seg_def)
  from pbuf_cat_appends [OF c(3,4) _ t] c(1,2) show ?thesis
    by (auto simp del: chain.simps content_simps(2))
qed

text \<open>
  \<open>pbuf_memfind\<close> returns the least offset, not below the start offset, at which the
  packet contains the bytes searched for, and 0xFFFF when there is none.
\<close>

theorem pbuf_memfind_first:
  assumes "chain s (Some a) (a # as)" and "tot_ok s (a # as)"
    and "unat st + length ys \<le> length (content s (a # as))" and "length (content s (a # as)) - length ys < 0xFFFF"
  shows "pbuf_memfind (Some a) ys st s =
    Some (case find (\<lambda>i. take (length ys) (drop i (content s (a # as))) = ys)
        [unat st ..< Suc (length (content s (a # as)) - length ys)] of None \<Rightarrow> 0xFFFF | Some i \<Rightarrow> of_nat i)"
proof -
  let ?C = "content s (a # as)"
  obtain b where b: "pbufs s a = Some b" "unat (tot_len b) = length ?C"
    using assms(2) by (auto split: option.splits)
  have ly: "length ys < 65536" using assms(3) b(2) unat_u16_less [of "tot_len b"] by linarith
  have "of_nat (length ys) \<le> tot_len b" using ly assms(3) b(2) by (simp add: word_le_nat_alt unat_of_nat_u16 del: content_simps)
  then have mx: "unat (tot_len b - of_nat (length ys)) = length ?C - length ys"
    using ly b(2) by (simp add: unat_u16_sub unat_of_nat_u16 del: content_simps)
  have ge: "length ys + unat st \<le> unat (tot_len b)" using assms(3) b(2) by linarith
  have "memfind_loop (Some a) ys st (tot_len b - of_nat (length ys)) s =
      Some (case find (slice_is ?C ys) [unat st ..< Suc (length ?C - length ys)] of None \<Rightarrow> 0xFFFF | Some i \<Rightarrow> of_nat i)"
    using memfind_loop_spec [OF assms(1,2) _ mx, of st] assms(3,4) unfolding mx by (simp del: content_simps upt_Suc)
  then show ?thesis using ge b(1) by (simp add: pbuf_memfind_def slice_is_def [abs_def] Let_def del: content_simps upt_Suc)
qed

theorem pbuf_memfind_first_witness: "pbuf_memfind (Some 8192) [0, 0] 3 one_pbuf = Some 3"
proof -
  have c: "content one_pbuf [8192] = replicate 40 0"
    by (rule nth_equalityI) (simp_all add: one_pbuf_def new_pbuf_def seg_def pool3_def)
  have p: "chain one_pbuf (Some 8192) [8192]" "tot_ok one_pbuf [8192]"
    by (simp_all add: one_pbuf_def new_pbuf_def seg_def)
  have "[3 ..< 39] = 3 # [4 ..< 39 :: nat]" by (simp add: upt_conv_Cons)
  with pbuf_memfind_first [OF p, of 3 "[0, 0]"] show ?thesis unfolding c by (simp del: upt_Suc)
qed

end
