(* ===== verification/Lwip_Timeouts.thy ===== *)
theory Lwip_Timeouts
  imports Lwip_Base "HOL-Library.Multiset"
begin

text \<open>
  The timer wheel of lwIP (\<open>lwip-2.2.1/src/core/timeouts.c\<close>) over the port's \<open>sys_arch.c\<close>.  The linked
  list \<open>next_timeout\<close> is a list of its elements, the pool \<open>MEMP_SYS_TIMEOUT\<close> the number of its free
  elements.  What the timer handlers do is a parameter: \<open>call_tmr\<close> for the stack's own timers,
  \<open>call_user\<close> for handlers given to \<open>sys_timeout\<close>; a handler gets the whole state, since it may set
  timeouts itself.  \<open>check_free_ooseq\<close> is \<open>PBUF_CHECK_FREE_OOSEQ\<close>, which frees queued TCP segments.  Times are 32-bit and wrap around: the order of two times is that of their distances
  from any earlier moment, as long as these stay below half the range.
\<close>

section \<open>State\<close>

datatype cyclic_handler = tcp_tmr | ip_reass_tmr | etharp_tmr | dhcp_coarse_tmr | dhcp_fine_tmr | dns_tmr

record lwip_cyclic_timer =
  interval_ms :: u32
  handler :: cyclic_handler

definition lwip_cyclic_timers :: "lwip_cyclic_timer list" where
  "lwip_cyclic_timers = [
     \<lparr>interval_ms = 250, handler = tcp_tmr\<rparr>,
     \<lparr>interval_ms = 1000, handler = ip_reass_tmr\<rparr>,
     \<lparr>interval_ms = 1000, handler = etharp_tmr\<rparr>,
     \<lparr>interval_ms = 60000, handler = dhcp_coarse_tmr\<rparr>,
     \<lparr>interval_ms = 500, handler = dhcp_fine_tmr\<rparr>,
     \<lparr>interval_ms = 1000, handler = dns_tmr\<rparr>]"

datatype 'h sys_timeout_handler = Cyclic_timer | Tcp_timer | User 'h

record 'h sys_timeo =
  time :: u32
  h :: "'h sys_timeout_handler option"
  arg :: nat

record ('h, 'u) tmo =
  next_timeout :: "'h sys_timeo list"
  current_timeout_due_time :: u32
  tcpip_tcp_timer_active :: bool
  memp_avail :: nat
  millisec :: u32
  stack :: 'u

record ('h, 'u) tmr_env =
  call_tmr :: "cyclic_handler \<Rightarrow> ('h, 'u) tmo \<Rightarrow> ('h, 'u) tmo option"
  call_user :: "'h \<Rightarrow> nat \<Rightarrow> ('h, 'u) tmo \<Rightarrow> ('h, 'u) tmo option"
  tcp_pcbs :: "'u \<Rightarrow> bool"
  check_free_ooseq :: "'u \<Rightarrow> 'u"

definition MEMP_NUM_SYS_TIMEOUT :: nat where "MEMP_NUM_SYS_TIMEOUT = 6"

section \<open>The clock of the port\<close>

definition sys_now :: "('h, 'u) tmo \<Rightarrow> u32" where
  "sys_now s = millisec s"

definition sys_now_increment :: "('h, 'u) tmo \<Rightarrow> ('h, 'u) tmo" where
  "sys_now_increment s = s\<lparr>millisec := millisec s + 500\<rparr>"

section \<open>Timeouts\<close>

definition LWIP_MAX_TIMEOUT :: u32 where "LWIP_MAX_TIMEOUT = 0x7FFFFFFF"

definition TIME_LESS_THAN :: "u32 \<Rightarrow> u32 \<Rightarrow> bool" where
  "TIME_LESS_THAN t compare_to \<longleftrightarrow> t - compare_to > LWIP_MAX_TIMEOUT"

text \<open>The walk behind the first element: insert before the first later one, or at the end.\<close>

fun insert_after :: "'h sys_timeo \<Rightarrow> 'h sys_timeo list \<Rightarrow> 'h sys_timeo list" where
  "insert_after timeout [] = [timeout]"
| "insert_after timeout (t # ts) =
     (if TIME_LESS_THAN (time timeout) (time t) then timeout # t # ts else t # insert_after timeout ts)"

definition sys_timeout_abs ::
  "u32 \<Rightarrow> 'h sys_timeout_handler option \<Rightarrow> nat \<Rightarrow> ('h, 'u) tmo \<Rightarrow> ('h, 'u) tmo option" where
  "sys_timeout_abs abs_time hf a s =
     (if memp_avail s = 0 then LWIP_ASSERT False s
      else (let s = s\<lparr>memp_avail := memp_avail s - 1\<rparr>;
                timeout = \<lparr>time = abs_time, h = hf, arg = a\<rparr> in
        Some (s\<lparr>next_timeout := (case next_timeout s of
            [] \<Rightarrow> [timeout]
          | t # ts \<Rightarrow> (if TIME_LESS_THAN (time timeout) (time t) then timeout # t # ts
                       else t # insert_after timeout ts))\<rparr>)))"

definition sys_timeout ::
  "u32 \<Rightarrow> 'h sys_timeout_handler option \<Rightarrow> nat \<Rightarrow> ('h, 'u) tmo \<Rightarrow> ('h, 'u) tmo option" where
  "sys_timeout msecs hf a s = do {
     s \<leftarrow> LWIP_ASSERT (msecs \<le> 0x3FFFFFFF) s;
     sys_timeout_abs (sys_now s + msecs) hf a s
   }"

definition tcpip_tcp_timer :: "('h, 'u) tmr_env \<Rightarrow> ('h, 'u) tmo \<Rightarrow> ('h, 'u) tmo option" where
  "tcpip_tcp_timer e s = do {
     s \<leftarrow> call_tmr e tcp_tmr s;
     if tcp_pcbs e (stack s) then sys_timeout 250 (Some Tcp_timer) 0 s
     else Some (s\<lparr>tcpip_tcp_timer_active := False\<rparr>)
   }"

definition tcp_timer_needed :: "('h, 'u) tmr_env \<Rightarrow> ('h, 'u) tmo \<Rightarrow> ('h, 'u) tmo option" where
  "tcp_timer_needed e s =
     (if \<not> tcpip_tcp_timer_active s \<and> tcp_pcbs e (stack s)
      then sys_timeout 250 (Some Tcp_timer) 0 (s\<lparr>tcpip_tcp_timer_active := True\<rparr>)
      else Some s)"

text \<open>\<open>arg\<close> is the index of the cyclic timer in the table.\<close>

definition lwip_cyclic_timer_fn :: "('h, 'u) tmr_env \<Rightarrow> nat \<Rightarrow> ('h, 'u) tmo \<Rightarrow> ('h, 'u) tmo option" where
  "lwip_cyclic_timer_fn e a s = do {
     let cyclic = lwip_cyclic_timers ! a;
     s \<leftarrow> call_tmr e (handler cyclic) s;
     let now = sys_now s;
     let next_timeout_time = current_timeout_due_time s + interval_ms cyclic;
     if TIME_LESS_THAN next_timeout_time now
     then sys_timeout_abs (now + interval_ms cyclic) (Some Cyclic_timer) a s
     else sys_timeout_abs next_timeout_time (Some Cyclic_timer) a s
   }"

fun timeouts_init_loop :: "nat list \<Rightarrow> ('h, 'u) tmo \<Rightarrow> ('h, 'u) tmo option" where
  "timeouts_init_loop [] s = Some s"
| "timeouts_init_loop (i # is) s = do {
     s \<leftarrow> sys_timeout (interval_ms (lwip_cyclic_timers ! i)) (Some Cyclic_timer) i s;
     timeouts_init_loop is s
   }"

definition sys_timeouts_init :: "('h, 'u) tmo \<Rightarrow> ('h, 'u) tmo option" where
  "sys_timeouts_init s = timeouts_init_loop [1 ..< length lwip_cyclic_timers] s"

fun untimeout_loop :: "'h sys_timeout_handler option \<Rightarrow> nat \<Rightarrow> 'h sys_timeo list \<Rightarrow> 'h sys_timeo list option" where
  "untimeout_loop hf a [] = None"
| "untimeout_loop hf a (t # ts) =
     (if h t = hf \<and> arg t = a then Some ts else map_option (Cons t) (untimeout_loop hf a ts))"

definition sys_untimeout :: "'h sys_timeout_handler option \<Rightarrow> nat \<Rightarrow> ('h, 'u) tmo \<Rightarrow> ('h, 'u) tmo" where
  "sys_untimeout hf a s = (case untimeout_loop hf a (next_timeout s) of
       None \<Rightarrow> s
     | Some ts \<Rightarrow> s\<lparr>next_timeout := ts, memp_avail := memp_avail s + 1\<rparr>)"

definition call_handler ::
  "('h, 'u) tmr_env \<Rightarrow> 'h sys_timeout_handler option \<Rightarrow> nat \<Rightarrow> ('h, 'u) tmo \<Rightarrow> ('h, 'u) tmo option" where
  "call_handler e hf a s = (case hf of
       None \<Rightarrow> Some s
     | Some Cyclic_timer \<Rightarrow> lwip_cyclic_timer_fn e a s
     | Some Tcp_timer \<Rightarrow> tcpip_tcp_timer e s
     | Some (User u) \<Rightarrow> call_user e u a s)"

partial_function (option) check_timeouts_loop ::
  "('h, 'u) tmr_env \<Rightarrow> u32 \<Rightarrow> ('h, 'u) tmo \<Rightarrow> ('h, 'u) tmo option" where
  "check_timeouts_loop e now s = (let s = s\<lparr>stack := check_free_ooseq e (stack s)\<rparr> in
     case next_timeout s of
       [] \<Rightarrow> Some s
     | t # ts \<Rightarrow>
         (if TIME_LESS_THAN now (time t) then Some s
          else do {
            let s = s\<lparr>next_timeout := ts, current_timeout_due_time := time t, memp_avail := memp_avail s + 1\<rparr>;
            s \<leftarrow> call_handler e (h t) (arg t) s;
            check_timeouts_loop e now s
          }))"

definition sys_check_timeouts :: "('h, 'u) tmr_env \<Rightarrow> ('h, 'u) tmo \<Rightarrow> ('h, 'u) tmo option" where
  "sys_check_timeouts e s = check_timeouts_loop e (sys_now s) s"

definition sys_restart_timeouts :: "('h, 'u) tmo \<Rightarrow> ('h, 'u) tmo" where
  "sys_restart_timeouts s = (case next_timeout s of
       [] \<Rightarrow> s
     | t0 # _ \<Rightarrow> s\<lparr>next_timeout := map (\<lambda>t. t\<lparr>time := time t - time t0 + sys_now s\<rparr>) (next_timeout s)\<rparr>)"

definition sys_timeouts_sleeptime :: "('h, 'u) tmo \<Rightarrow> u32 option" where
  "sys_timeouts_sleeptime s = (case next_timeout s of
       [] \<Rightarrow> Some 0xFFFFFFFF
     | t # _ \<Rightarrow> (let now = sys_now s in
         if TIME_LESS_THAN (time t) now then Some 0
         else LWIP_ASSERT (time t - now \<le> LWIP_MAX_TIMEOUT) (time t - now)))"

section \<open>Order of times\<close>

text \<open>Distances from \<open>base\<close>; within half the range they decide the order.\<close>

definition dist :: "u32 \<Rightarrow> 'h sys_timeo \<Rightarrow> nat" where
  "dist base t = unat (time t - base)"

lemma unat_u32_minus: "unat (a - b :: u32) = (if unat b \<le> unat a then unat a - unat b else unat a + 2 ^ 32 - unat b)"
  using unat_u32_less [of a] unat_u32_less [of b]
  by (auto simp: unat_sub_if_size word_size)

lemma TIME_LESS_THAN_dist:
  assumes "unat (a - base) < 2 ^ 31" and "unat (b - base) < 2 ^ 31"
  shows "TIME_LESS_THAN a b \<longleftrightarrow> unat (a - base) < unat (b - base)"
proof -
  have e: "a - b = (a - base) - (b - base)" by simp
  show ?thesis
    unfolding TIME_LESS_THAN_def e word_less_nat_alt unat_u32_minus [of "a - base" "b - base"] LWIP_MAX_TIMEOUT_def
    using assms by auto
qed

definition timely :: "u32 \<Rightarrow> 'h sys_timeo list \<Rightarrow> bool" where
  "timely base ts \<longleftrightarrow> sorted (map (dist base) ts) \<and> (\<forall>t \<in> set ts. dist base t < 2 ^ 31)"

lemma dist_mk [simp]: "dist base \<lparr>time = x, h = y, arg = a\<rparr> = unat (x - base)"
  by (simp add: dist_def)

lemma timely_simps [simp]:
  "timely base []"
  "timely base (t # ts) \<longleftrightarrow> (\<forall>x \<in> set ts. dist base t \<le> dist base x) \<and> dist base t < 2 ^ 31 \<and> timely base ts"
  by (auto simp: timely_def)

text \<open>What the insertion means: behind every timeout due no later, before every later one.\<close>

definition insert_due :: "u32 \<Rightarrow> 'h sys_timeo \<Rightarrow> 'h sys_timeo list \<Rightarrow> 'h sys_timeo list" where
  "insert_due base t ts =
     takeWhile (\<lambda>x. dist base x \<le> dist base t) ts @ t # dropWhile (\<lambda>x. dist base x \<le> dist base t) ts"

lemma less_than_dist:
  assumes "dist base t < 2 ^ 31" and "dist base x < 2 ^ 31"
  shows "TIME_LESS_THAN (time t) (time x) \<longleftrightarrow> dist base t < dist base x"
  using TIME_LESS_THAN_dist [of "time t" base "time x"] assms by (simp add: dist_def)

lemma insert_after_due:
  assumes "timely base ts" and "dist base t < 2 ^ 31"
  shows "insert_after t ts = insert_due base t ts"
  using assms(1)
proof (induction ts)
  case (Cons x ts)
  then show ?case using less_than_dist [OF assms(2), of x] by (auto simp: insert_due_def)
qed (simp add: insert_due_def)

lemma insert_due_mset [simp]: "mset (insert_due base t ts) = add_mset t (mset ts)"
  by (induction ts) (auto simp: insert_due_def)

lemma insert_due_set [simp]: "set (insert_due base t ts) = insert t (set ts)"
  by (induction ts) (auto simp: insert_due_def)

lemma insert_due_timely:
  assumes "timely base ts" and "dist base t < 2 ^ 31"
  shows "timely base (insert_due base t ts)"
  using assms(1)
proof (induction ts)
  case (Cons x ts)
  have "timely base (insert_due base t ts)" using Cons by simp
  then show ?case using Cons.prems assms(2)
    by (cases "dist base x \<le> dist base t") (auto simp: insert_due_def dest!: set_takeWhileD set_dropWhileD)
qed (use assms(2) in \<open>simp add: insert_due_def\<close>)

lemma insert_after_cases:
  "(case ts of [] \<Rightarrow> [t]
    | x # xs \<Rightarrow> (if TIME_LESS_THAN (time t) (time x) then t # x # xs else x # insert_after t xs)) = insert_after t ts"
  by (cases ts) simp_all

lemma sys_timeout_abs_insert:
  assumes "timely base (next_timeout s)" and "unat (at - base) < 2 ^ 31" and "0 < memp_avail s"
  shows "sys_timeout_abs at hf a s = Some (s\<lparr>memp_avail := memp_avail s - 1,
           next_timeout := insert_due base \<lparr>time = at, h = hf, arg = a\<rparr> (next_timeout s)\<rparr>)"
proof -
  define t where "t = \<lparr>time = at, h = hf, arg = a\<rparr>"
  have "insert_after t (next_timeout s) = insert_due base t (next_timeout s)"
    using insert_after_due [OF assms(1), of t] assms(2) by (simp add: t_def)
  then show ?thesis
    using assms(3) by (simp add: sys_timeout_abs_def Let_def t_def [symmetric] insert_after_cases)
qed

section \<open>The stack's own timers\<close>

text \<open>
  The list after \<open>sys_timeouts_init\<close> and between two calls of \<open>sys_check_timeouts\<close>: the cyclic timers
  1 to 5 of the table, at most one interval ahead of \<open>n\<close>, the distance of the present from \<open>base\<close>.
\<close>

definition cyclic :: "'h sys_timeo \<Rightarrow> bool" where
  "cyclic t \<longleftrightarrow> h t = Some Cyclic_timer \<and> 1 \<le> arg t \<and> arg t < length lwip_cyclic_timers"

definition cyclic_list :: "u32 \<Rightarrow> nat \<Rightarrow> 'h sys_timeo list \<Rightarrow> bool" where
  "cyclic_list base n ts \<longleftrightarrow> timely base ts \<and> (\<forall>t \<in> set ts. cyclic t \<and> dist base t \<le> n + 60000)"

definition quiet :: "('h, 'u) tmr_env \<Rightarrow> bool" where
  "quiet e \<longleftrightarrow> (\<forall>hf s. \<exists>u. call_tmr e hf s = Some (s\<lparr>stack := u\<rparr>))"

lemma cyclic_interval:
  assumes "cyclic t"
  shows "0 < unat (interval_ms (lwip_cyclic_timers ! arg t))" "unat (interval_ms (lwip_cyclic_timers ! arg t)) \<le> 60000"
proof -
  have "arg t \<in> {1, 2, 3, 4, 5}" using assms by (auto simp: cyclic_def lwip_cyclic_timers_def)
  then show "0 < unat (interval_ms (lwip_cyclic_timers ! arg t))"
    "unat (interval_ms (lwip_cyclic_timers ! arg t)) \<le> 60000"
    by (auto simp: lwip_cyclic_timers_def)
qed

lemma unat_add_dist:
  assumes "unat (a - base) + unat i < 2 ^ 32"
  shows "unat (a + i - base :: u32) = unat (a - base) + unat i"
proof -
  have e: "a + i - base = (a - base) + i" by simp
  show ?thesis unfolding e unat_word_ariths(1) using assms by simp
qed

text \<open>The next due time of a cyclic timer that was due at distance \<open>d\<close>, fired at distance \<open>n\<close>.\<close>

definition next_due :: "nat \<Rightarrow> nat \<Rightarrow> nat \<Rightarrow> nat" where
  "next_due n d i = (if d + i < n then n + i else d + i)"

lemma cyclic_timer_step:
  assumes q: "quiet e" and l: "cyclic_list base n (t # ts)" and s: "next_timeout s = ts" "memp_avail s = k"
    and d: "current_timeout_due_time s = time t" and n: "unat (sys_now s - base) = n" "n < 2 ^ 30"
    and due: "dist base t \<le> n"
  obtains s' t' where "call_handler e (h t) (arg t) (s\<lparr>memp_avail := Suc k\<rparr>) = Some s'"
    "next_timeout s' = insert_due base t' ts" "memp_avail s' = k" "sys_now s' = sys_now s"
    "h t' = Some Cyclic_timer" "arg t' = arg t"
    "dist base t' = next_due n (dist base t) (unat (interval_ms (lwip_cyclic_timers ! arg t)))"
    "tcpip_tcp_timer_active s' = tcpip_tcp_timer_active s"
proof -
  define i where "i = interval_ms (lwip_cyclic_timers ! arg t)"
  have c: "cyclic t" using l by (simp add: cyclic_list_def)
  have i: "0 < unat i" "unat i \<le> 60000" using cyclic_interval [OF c] by (simp_all add: i_def)
  obtain u where u: "call_tmr e (handler (lwip_cyclic_timers ! arg t)) (s\<lparr>memp_avail := Suc k\<rparr>) =
      Some (s\<lparr>memp_avail := Suc k, stack := u\<rparr>)"
    using q unfolding quiet_def by fastforce
  define at where "at = (if TIME_LESS_THAN (time t + i) (sys_now s) then sys_now s + i else time t + i)"
  have dt: "unat (time t + i - base) = dist base t + unat i"
    using due n i by (simp add: dist_def unat_add_dist)
  have dn: "unat (sys_now s + i - base) = n + unat i"
    using n i by (simp add: unat_add_dist)
  have lt: "TIME_LESS_THAN (time t + i) (sys_now s) \<longleftrightarrow> dist base t + unat i < n"
    using TIME_LESS_THAN_dist [of "time t + i" base "sys_now s"] dt n due i by simp
  have da: "unat (at - base) = next_due n (dist base t) (unat i)"
    by (simp add: at_def next_due_def lt dt dn)
  have small: "unat (at - base) < 2 ^ 31"
    using i n due by (simp add: da next_due_def)
  have tim: "timely base (next_timeout (s\<lparr>memp_avail := Suc k, stack := u\<rparr>))"
    using l s by (simp add: cyclic_list_def)
  have "call_handler e (h t) (arg t) (s\<lparr>memp_avail := Suc k\<rparr>) =
      sys_timeout_abs at (Some Cyclic_timer) (arg t) (s\<lparr>memp_avail := Suc k, stack := u\<rparr>)"
    using c d by (simp add: cyclic_def call_handler_def lwip_cyclic_timer_fn_def u Let_def i_def [symmetric] at_def sys_now_def)
  also have "\<dots> = Some (s\<lparr>memp_avail := k, stack := u,
      next_timeout := insert_due base \<lparr>time = at, h = Some Cyclic_timer, arg = arg t\<rparr> ts\<rparr>)"
    using sys_timeout_abs_insert [OF tim small] s by simp
  finally show thesis
    using that [of _ "\<lparr>time = at, h = Some Cyclic_timer, arg = arg t\<rparr>"] s da
    by (simp add: sys_now_def i_def)
qed

definition ahead :: "u32 \<Rightarrow> nat \<Rightarrow> 'h sys_timeo list \<Rightarrow> nat" where
  "ahead base n ts = sum_mset (image_mset (\<lambda>t. n + 60000 - dist base t) (mset ts))"

lemma ahead_insert [simp]: "ahead base n (insert_due base t ts) = n + 60000 - dist base t + ahead base n ts"
  by (simp add: ahead_def)

lemma ahead_Cons [simp]: "ahead base n (t # ts) = n + 60000 - dist base t + ahead base n ts"
  by (simp add: ahead_def)

lemma check_timeouts_stop:
  assumes "cyclic_list base n (next_timeout s)" and "unat (now - base) = n" and "n < 2 ^ 30"
    and "case next_timeout s of [] \<Rightarrow> True | t # ts \<Rightarrow> n < dist base t"
  shows "check_timeouts_loop e now s = Some (s\<lparr>stack := check_free_ooseq e (stack s)\<rparr>)"
proof (cases "next_timeout s")
  case (Cons t ts)
  then have "TIME_LESS_THAN now (time t)"
    using assms TIME_LESS_THAN_dist [of now base "time t"] by (simp add: cyclic_list_def dist_def)
  then show ?thesis using Cons by (simp add: check_timeouts_loop.simps Let_def)
qed (simp add: check_timeouts_loop.simps Let_def)

lemma next_due_bounds:
  assumes "0 < i" and "i \<le> 60000" and "d \<le> n"
  shows "d < next_due n d i" "next_due n d i \<le> n + 60000"
  using assms by (simp_all add: next_due_def)

lemma check_timeouts_cyclic:
  assumes "quiet e" and "cyclic_list base n (next_timeout s)" and "unat (sys_now s - base) = n" and n: "n < 2 ^ 30"
  shows "\<exists>s'. check_timeouts_loop e (sys_now s) s = Some s' \<and> memp_avail s' = memp_avail s \<and>
    sys_now s' = sys_now s \<and> cyclic_list base n (next_timeout s') \<and>
    mset (map arg (next_timeout s')) = mset (map arg (next_timeout s)) \<and>
    (\<forall>t \<in> set (next_timeout s'). n < dist base t)"
  using assms(2,3)
proof (induction "ahead base n (next_timeout s)" arbitrary: s rule: less_induct)
  case less
  show ?case
  proof (cases "case next_timeout s of [] \<Rightarrow> True | t # ts \<Rightarrow> n < dist base t")
    case True
    have "\<forall>t \<in> set (next_timeout s). n < dist base t"
      using True less.prems(1) by (fastforce simp: cyclic_list_def split: list.splits)
    then show ?thesis
      using check_timeouts_stop [OF less.prems n True, of e] less.prems(1) by (simp add: sys_now_def)
  next
    case False
    then obtain t ts where ts: "next_timeout s = t # ts" and due: "dist base t \<le> n"
      by (auto split: list.splits)
    define i where "i = unat (interval_ms (lwip_cyclic_timers ! arg t))"
    let ?s = "s\<lparr>stack := check_free_ooseq e (stack s), next_timeout := ts, current_timeout_due_time := time t\<rparr>"
    have cl: "cyclic_list base n (t # ts)" using less.prems(1) ts by simp
    have i: "0 < i" "i \<le> 60000" using cyclic_interval [of t] cl by (simp_all add: i_def cyclic_list_def)
    obtain s1 t' where s1: "call_handler e (h t) (arg t) (?s\<lparr>memp_avail := Suc (memp_avail s)\<rparr>) = Some s1"
      "next_timeout s1 = insert_due base t' ts" "memp_avail s1 = memp_avail s" "sys_now s1 = sys_now s"
      and t': "h t' = Some Cyclic_timer" "arg t' = arg t" "dist base t' = next_due n (dist base t) i"
      using cyclic_timer_step [OF assms(1) cl, of ?s "memp_avail s" thesis] due n less.prems(2)
      unfolding i_def by (simp add: sys_now_def)
    have b: "dist base t < dist base t'" "dist base t' \<le> n + 60000"
      using next_due_bounds [OF i due] t'(3) by simp_all
    have cl1: "cyclic_list base n (next_timeout s1)"
      using cl b n insert_due_timely [of base ts t'] t' s1(2) by (auto simp: cyclic_list_def cyclic_def)
    have "ahead base n (next_timeout s1) < ahead base n (next_timeout s)"
      using b due by (simp add: s1(2) ts)
    from less.hyps [OF this cl1] obtain s' where
      s': "check_timeouts_loop e (sys_now s) s1 = Some s'" "memp_avail s' = memp_avail s"
      "sys_now s' = sys_now s" "cyclic_list base n (next_timeout s')"
      "mset (map arg (next_timeout s')) = mset (map arg (next_timeout s1))"
      "\<forall>t \<in> set (next_timeout s'). n < dist base t"
      using s1(3,4) less.prems(2) by auto
    have lt: "\<not> TIME_LESS_THAN (sys_now s) (time t)"
      using TIME_LESS_THAN_dist [of "sys_now s" base "time t"] less.prems(2) n cl due
      by (simp add: cyclic_list_def dist_def)
    have "check_timeouts_loop e (sys_now s) s = check_timeouts_loop e (sys_now s) s1"
      using ts lt s1(1) by (subst check_timeouts_loop.simps) (simp add: Let_def)
    moreover have "mset (map arg (next_timeout s1)) = mset (map arg (next_timeout s))"
      using t'(2) by (simp add: s1(2) ts)
    ultimately show ?thesis using s' by auto
  qed
qed

section \<open>Initialisation, pool and removal\<close>

definition cyclic_at :: "u32 \<Rightarrow> nat \<Rightarrow> 'h sys_timeo" where
  "cyclic_at at i = \<lparr>time = at, h = Some Cyclic_timer, arg = i\<rparr>"

lemma timeouts_init_result:
  assumes "next_timeout s = []" and "memp_avail s = MEMP_NUM_SYS_TIMEOUT"
  shows "sys_timeouts_init s = Some (s\<lparr>memp_avail := 1,
    next_timeout := [cyclic_at (sys_now s + 500) 4, cyclic_at (sys_now s + 1000) 1, cyclic_at (sys_now s + 1000) 2,
      cyclic_at (sys_now s + 1000) 5, cyclic_at (sys_now s + 60000) 3]\<rparr>)"
proof -
  have r: "[1 ..< length lwip_cyclic_timers] = [1, 2, 3, 4, 5]" by (simp add: lwip_cyclic_timers_def upt_rec)
  show ?thesis
    using assms unfolding sys_timeouts_init_def r
    by (simp add: sys_timeout_def sys_timeout_abs_def Let_def sys_now_def lwip_cyclic_timers_def
        TIME_LESS_THAN_def LWIP_MAX_TIMEOUT_def MEMP_NUM_SYS_TIMEOUT_def cyclic_at_def)
qed

lemma tcp_timer_last:
  assumes "memp_avail s = 1" and "\<not> tcpip_tcp_timer_active s" and "tcp_pcbs e (stack s)"
  shows "\<exists>s'. tcp_timer_needed e s = Some s' \<and> memp_avail s' = 0 \<and> tcpip_tcp_timer_active s' \<and>
    length (next_timeout s') = Suc (length (next_timeout s))"
proof -
  have l: "length (insert_after t ts) = Suc (length ts)" for t and ts :: "'a sys_timeo list"
    by (induction ts) simp_all
  show ?thesis
    using assms by (simp add: tcp_timer_needed_def sys_timeout_def sys_timeout_abs_def Let_def insert_after_cases l)
qed

lemma untimeout_insert:
  assumes "\<forall>x \<in> set ts. \<not> (h x = h t \<and> arg x = arg t)"
  shows "untimeout_loop (h t) (arg t) (insert_after t ts) = Some ts"
  using assms by (induction ts) auto

section \<open>Properties\<close>

text \<open>
  C36: as long as all due times, the new one included, lie within half the 32-bit range
  from some moment \<open>base\<close>, \<open>sys_timeout\<close> inserts the timeout behind all that are due no later and before
  all that are due later, whatever the wrap-around of the clock, and keeps the list in order of due times.
\<close>

theorem sys_timeout_ordered:
  assumes "timely base (next_timeout s)" and "unat (sys_now s - base) + unat msecs < 2 ^ 31"
    and "0 < memp_avail s"
  shows "\<exists>s'. sys_timeout msecs hf a s = Some s' \<and>
    next_timeout s' = insert_due base \<lparr>time = sys_now s + msecs, h = hf, arg = a\<rparr> (next_timeout s) \<and>
    timely base (next_timeout s') \<and> memp_avail s' = memp_avail s - 1 \<and> sys_now s' = sys_now s"
proof -
  have d: "unat (sys_now s + msecs - base) < 2 ^ 31"
    using assms(2) by (simp add: unat_add_dist)
  show ?thesis
    using sys_timeout_abs_insert [OF assms(1) d assms(3)] insert_due_timely [OF assms(1)] d
    by (simp add: sys_timeout_def sys_now_def)
qed

definition wrapping :: "(nat, unit) tmo" where
  "wrapping = \<lparr>next_timeout = [cyclic_at 0xFFFFFFF0 4, cyclic_at 0x100 1], current_timeout_due_time = 0,
     tcpip_tcp_timer_active = False, memp_avail = 2, millisec = 0xFFFFFF00, stack = ()\<rparr>"

theorem sys_timeout_ordered_witness:
  "\<exists>s'. sys_timeout 250 (Some (User 7)) 0 wrapping = Some s' \<and>
    next_timeout s' = [cyclic_at 0xFFFFFFF0 4, \<lparr>time = 0xFFFFFFFA, h = Some (User 7), arg = 0\<rparr>, cyclic_at 0x100 1]"
  using sys_timeout_ordered [of "0xFFFFFF00" wrapping 250 "Some (User 7)" 0]
  by (auto simp: wrapping_def sys_now_def cyclic_at_def insert_due_def)

text \<open>
  C37: when the stack's handlers return and leave the timers alone, one call of
  \<open>sys_check_timeouts\<close> on a list of the cyclic timers returns, however late it comes (up to 2^30 ms):
  every timer still has its entry, the list is in order, all due times lie in the future by at most the
  longest interval, and the pool is as full as before.
\<close>

theorem sys_check_timeouts_cyclic:
  assumes "quiet e" and "cyclic_list base n (next_timeout s)" and "unat (sys_now s - base) = n" and "n < 2 ^ 30"
  shows "\<exists>s'. sys_check_timeouts e s = Some s' \<and> memp_avail s' = memp_avail s \<and>
    cyclic_list base n (next_timeout s') \<and>
    mset (map arg (next_timeout s')) = mset (map arg (next_timeout s)) \<and>
    (\<forall>t \<in> set (next_timeout s'). n < dist base t)"
  using check_timeouts_cyclic [OF assms] unfolding sys_check_timeouts_def by blast

definition idle_env :: "(nat, unit) tmr_env" where
  "idle_env = \<lparr>call_tmr = (\<lambda>_. Some), call_user = (\<lambda>_ _. Some), tcp_pcbs = (\<lambda>_. False), check_free_ooseq = id\<rparr>"

theorem sys_check_timeouts_cyclic_witness:
  "\<exists>s'. sys_check_timeouts idle_env (wrapping\<lparr>millisec := 0x1000\<rparr>) = Some s' \<and> memp_avail s' = 2 \<and>
    mset (map arg (next_timeout s')) = {#1, 4#} \<and> (\<forall>t \<in> set (next_timeout s'). 0x1100 < dist 0xFFFFFF00 t)"
proof -
  have q: "quiet idle_env"
    unfolding quiet_def by (rule allI, rule allI, rule exI [of _ "()"]) (simp add: idle_env_def)
  show ?thesis
    using sys_check_timeouts_cyclic [OF q, where base = "0xFFFFFF00" and n = "0x1100" and s = "wrapping\<lparr>millisec := 0x1000\<rparr>"]
    by (auto simp: wrapping_def sys_now_def cyclic_at_def cyclic_list_def cyclic_def lwip_cyclic_timers_def add_mset_commute)
qed

text \<open>
  The pool of timeouts has one element for each timer of the stack.  After
  \<open>sys_timeouts_init\<close> and the start of the TCP timer it is empty, and any further \<open>sys_timeout\<close> (the
  MQTT client's cyclic timer among them) leaves the state as it is: the timeout is silently lost.
\<close>

theorem timer_pool_exhausted:
  assumes "next_timeout s = []" and "memp_avail s = MEMP_NUM_SYS_TIMEOUT"
    and "\<not> tcpip_tcp_timer_active s" and "tcp_pcbs e (stack s)"
  shows "\<exists>s1 s2. sys_timeouts_init s = Some s1 \<and> tcp_timer_needed e s1 = Some s2 \<and>
    length (next_timeout s2) = MEMP_NUM_SYS_TIMEOUT \<and> (\<forall>msecs hf a. sys_timeout msecs hf a s2 = Some s2)"
proof -
  obtain s1 where s1: "sys_timeouts_init s = Some s1" "memp_avail s1 = 1" "length (next_timeout s1) = 5"
    "\<not> tcpip_tcp_timer_active s1" "tcp_pcbs e (stack s1)"
    using timeouts_init_result [OF assms(1,2)] assms(3,4) by simp
  obtain s2 where s2: "tcp_timer_needed e s1 = Some s2" "memp_avail s2 = 0" "length (next_timeout s2) = 6"
    using tcp_timer_last [OF s1(2,4,5)] s1(3) by auto
  have "sys_timeout msecs hf a s2 = Some s2" for msecs hf a
    using s2(2) by (simp add: sys_timeout_def sys_timeout_abs_def)
  then show ?thesis using s1(1) s2 by (auto simp: MEMP_NUM_SYS_TIMEOUT_def)
qed

definition booted :: "(nat, unit) tmo" where
  "booted = \<lparr>next_timeout = [], current_timeout_due_time = 0, tcpip_tcp_timer_active = False,
     memp_avail = MEMP_NUM_SYS_TIMEOUT, millisec = 0, stack = ()\<rparr>"

theorem timer_pool_exhausted_witness:
  "\<exists>s1 s2. sys_timeouts_init booted = Some s1 \<and> tcp_timer_needed (idle_env\<lparr>tcp_pcbs := \<lambda>_. True\<rparr>) s1 = Some s2 \<and>
    sys_timeout 5000 (Some (User 1)) 0 s2 = Some s2"
  using timer_pool_exhausted [of booted "idle_env\<lparr>tcp_pcbs := \<lambda>_. True\<rparr>"] by (auto simp: booted_def)

text \<open>
  Removing a timeout just set, when no other has the same handler and argument,
  gives back the state before it was set, list and pool.
\<close>

theorem sys_untimeout_roundtrip:
  assumes "0 < memp_avail s" and "\<forall>x \<in> set (next_timeout s). \<not> (h x = hf \<and> arg x = a)"
  shows "\<exists>s'. sys_timeout msecs hf a s = Some s' \<and> s' \<noteq> s \<and> sys_untimeout hf a s' = s"
proof -
  define t where "t = \<lparr>time = sys_now s + msecs, h = hf, arg = a\<rparr>"
  define s' where "s' = s\<lparr>memp_avail := memp_avail s - 1, next_timeout := insert_after t (next_timeout s)\<rparr>"
  have "sys_timeout msecs hf a s = Some s'"
    using assms(1) by (simp add: sys_timeout_def sys_timeout_abs_def Let_def insert_after_cases s'_def t_def)
  moreover have "sys_untimeout hf a s' = s"
    using assms(1) untimeout_insert [of "next_timeout s" t] assms(2) by (simp add: sys_untimeout_def s'_def t_def)
  moreover have "s' \<noteq> s"
    using assms(1) by (metis s'_def diff_less less_irrefl tmo.select_convs(4) tmo.update_convs(1,4) tmo.surjective zero_less_one)
  ultimately show ?thesis by blast
qed

theorem sys_untimeout_roundtrip_witness:
  "\<exists>s'. sys_timeout 5000 (Some (User 1)) 3 wrapping = Some s' \<and> sys_untimeout (Some (User 1)) 3 s' = wrapping"
  using sys_untimeout_roundtrip [of wrapping "Some (User 1)" 3 5000] by (auto simp: wrapping_def cyclic_at_def)

end
