(* ===== verification/Hal_Regs.thy ===== *)
theory Hal_Regs
  imports Hal_Spi
begin

text \<open>
  The registers the start-up of the board programs, and the way the vendor library reaches them.  A
  register is named by a constructor of \<open>mreg\<close>, after the structure of the device header that holds
  it and its member.  The hardware is a parameter (\<open>hal_env\<close>): what a read finds, what a write does,
  and the tick counter, whose reading is where time passes.  The static variables of the library that
  the clock code keeps stand beside it in \<open>hal_state\<close>.

  \<open>plain\<close> is the interface the configuration code relies on: registers that behave as storage.
\<close>

section \<open>Registers\<close>

datatype gpio_port = GPIOA | GPIOB | GPIOC | GPIOD | GPIOE | GPIOH

datatype tim_instance = TIM1 | TIM2 | TIM3 | TIM4 | TIM5 | TIM9 | TIM10 | TIM11

datatype mreg =
    MODER gpio_port | OTYPER gpio_port | OSPEEDR gpio_port | PUPDR gpio_port
  | BSRR gpio_port | ODR gpio_port | AFR gpio_port nat
  | RCC_CR | RCC_PLLCFGR | RCC_CFGR | RCC_CIR | RCC_AHB1ENR | RCC_APB1ENR | RCC_APB2ENR | RCC_BDCR | RCC_CSR
  | PWR_CR | FLASH_ACR
  | SYSCFG_EXTICR nat
  | EXTI_IMR | EXTI_EMR | EXTI_RTSR | EXTI_FTSR | EXTI_PR
  | TIM_CR1 tim_instance | TIM_CR2 tim_instance | TIM_SMCR tim_instance | TIM_DIER tim_instance
  | TIM_SR tim_instance | TIM_EGR tim_instance | TIM_CCMR1 tim_instance | TIM_CCMR2 tim_instance
  | TIM_PSC tim_instance | TIM_ARR tim_instance | TIM_RCR tim_instance
  | SysTick_CTRL | SysTick_LOAD | SysTick_VAL
  | NVIC_ISER nat | NVIC_IP nat | SCB_AIRCR | SCB_SHP nat

record 'h hal_env =
  rd_reg :: "mreg \<Rightarrow> 'h \<Rightarrow> u32"
  wr_reg :: "mreg \<Rightarrow> u32 \<Rightarrow> 'h \<Rightarrow> 'h"
  rd_tick :: "'h \<Rightarrow> u32 \<times> 'h"

record 'h hal_state =
  periph :: 'h
  SystemCoreClock :: u32
  uwTickPrio :: u32

section \<open>Access macros\<close>

definition READ_REG :: "'h hal_env \<Rightarrow> mreg \<Rightarrow> 'h hal_state \<Rightarrow> u32" where
  "READ_REG e r s = rd_reg e r (periph s)"

definition WRITE_REG :: "'h hal_env \<Rightarrow> mreg \<Rightarrow> u32 \<Rightarrow> 'h hal_state \<Rightarrow> 'h hal_state" where
  "WRITE_REG e r v s = s\<lparr>periph := wr_reg e r v (periph s)\<rparr>"

definition MODIFY_REG :: "'h hal_env \<Rightarrow> mreg \<Rightarrow> u32 \<Rightarrow> u32 \<Rightarrow> 'h hal_state \<Rightarrow> 'h hal_state" where
  "MODIFY_REG e r clearmask setmask s = WRITE_REG e r ((READ_REG e r s AND NOT clearmask) OR setmask) s"

definition SET_BIT :: "'h hal_env \<Rightarrow> mreg \<Rightarrow> u32 \<Rightarrow> 'h hal_state \<Rightarrow> 'h hal_state" where
  "SET_BIT e r b s = WRITE_REG e r (READ_REG e r s OR b) s"

definition CLEAR_BIT :: "'h hal_env \<Rightarrow> mreg \<Rightarrow> u32 \<Rightarrow> 'h hal_state \<Rightarrow> 'h hal_state" where
  "CLEAR_BIT e r b s = WRITE_REG e r (READ_REG e r s AND NOT b) s"

definition GetTick :: "'h hal_env \<Rightarrow> 'h hal_state \<Rightarrow> u32 \<times> 'h hal_state" where
  "GetTick e s = (let (t, h) = rd_tick e (periph s) in (t, s\<lparr>periph := h\<rparr>))"

lemmas access_defs = READ_REG_def WRITE_REG_def MODIFY_REG_def SET_BIT_def CLEAR_BIT_def

section \<open>Early returns and polling loops\<close>

text \<open>
  A piece of a function that may return early yields \<open>Some status\<close> as its first result when it did;
  \<open>unless_returned f g\<close> is \<open>f; g\<close>.  A polling loop
  \<^verbatim>\<open>while (cond) { if ((HAL_GetTick() - tickstart) > timeout) return HAL_TIMEOUT; }\<close> is \<open>poll\<close>.
\<close>

type_synonym 'h outcome = "(HAL_StatusTypeDef option \<times> 'h hal_state) option"

definition unless_returned ::
  "('h hal_state \<Rightarrow> 'h outcome) \<Rightarrow> ('h hal_state \<Rightarrow> 'h outcome) \<Rightarrow> 'h hal_state \<Rightarrow> 'h outcome" where
  "unless_returned f g s = do { (r, s) \<leftarrow> f s; if r = None then g s else Some (r, s) }"

partial_function (option) poll ::
  "'h hal_env \<Rightarrow> ('h hal_state \<Rightarrow> bool) \<Rightarrow> u32 \<Rightarrow> u32 \<Rightarrow> 'h hal_state \<Rightarrow> 'h outcome" where
  "poll e cond tickstart timeout s =
     (if cond s
      then (let (t, s) = GetTick e s
            in if t - tickstart > timeout then Some (Some HAL_TIMEOUT, s)
               else poll e cond tickstart timeout s)
      else Some (None, s))"

text \<open>\<open>tickstart = HAL_GetTick();\<close> followed by the loop.\<close>

definition wait_while :: "'h hal_env \<Rightarrow> ('h hal_state \<Rightarrow> bool) \<Rightarrow> u32 \<Rightarrow> 'h hal_state \<Rightarrow> 'h outcome" where
  "wait_while e cond timeout s = (let (tickstart, s) = GetTick e s in poll e cond tickstart timeout s)"

lemma unless_returned_simps [simp]:
  "f s = None \<Longrightarrow> unless_returned f g s = None"
  "f s = Some (None, t) \<Longrightarrow> unless_returned f g s = g t"
  "f s = Some (Some st, t) \<Longrightarrow> unless_returned f g s = Some (Some st, t)"
  by (simp_all add: unless_returned_def)

section \<open>Bit fields\<close>

text \<open>The field of \<open>w\<close> bits with number \<open>i\<close> of a register that is an array of such fields.\<close>

definition fld :: "nat \<Rightarrow> nat \<Rightarrow> u32 \<Rightarrow> u32" where
  "fld w i v = drop_bit (w * i) v AND mask w"

lemma bit_fld [bitmask_simps]: "bit (fld w i v) k \<longleftrightarrow> k < w \<and> bit v (w * i + k)"
  by (auto simp: fld_def bit_simps dest: bit_imp_le_length)

text \<open>\<open>(v AND NOT (mask << w * i)) OR (x << w * i)\<close> replaces one field and no other.\<close>

lemma fld_replace:
  assumes "x AND mask w = x" "w * j + w \<le> 32"
  shows "fld w j ((v AND NOT (push_bit (w * i) (mask w))) OR push_bit (w * i) x) =
    (if j = i then x else fld w j v)"
proof -
  have xw: "k < w" if "bit x k" for k
    using arg_cong [OF assms(1), of "\<lambda>y. bit y k"] that by (auto simp: bit_simps)
  have apart: "w * j + k < w * i \<or> w * i + w \<le> w * j + k" if "j \<noteq> i" "k < w" for k
  proof (cases "j < i")
    case True
    then have "w * Suc j \<le> w * i" by (intro mult_le_mono2) simp
    with that show ?thesis by simp
  next
    case False
    then have "w * Suc i \<le> w * j" using that by (intro mult_le_mono2) simp
    then show ?thesis by simp
  qed
  show ?thesis
  proof (cases "j = i")
    case True
    then show ?thesis
      using assms(2) xw by (intro bit_eqI) (force simp: bit_simps bitmask_simps not_less dest: xw)
  next
    case False
    have "bit (fld w j ((v AND NOT (push_bit (w * i) (mask w))) OR push_bit (w * i) x)) k = bit (fld w j v) k"
      for k
    proof (cases "k < w")
      case True
      then show ?thesis
        using apart [OF False True] xw [of "w * j + k - w * i"] assms(2)
        by (auto simp: bit_simps bitmask_simps)
    qed (simp add: bitmask_simps)
    then have "fld w j ((v AND NOT (push_bit (w * i) (mask w))) OR push_bit (w * i) x) = fld w j v"
      by (intro bit_eqI) simp
    with False show ?thesis by simp
  qed
qed

section \<open>Registers that are storage\<close>

locale plain =
  fixes e :: "'h hal_env" and P :: "mreg \<Rightarrow> bool"
  assumes rd_same: "P r \<Longrightarrow> rd_reg e r (wr_reg e r v h) = v"
    and rd_other: "P r \<Longrightarrow> r' \<noteq> r \<Longrightarrow> rd_reg e r' (wr_reg e r v h) = rd_reg e r' h"
begin

lemma READ_WRITE: "P r \<Longrightarrow> READ_REG e r' (WRITE_REG e r v s) = (if r' = r then v else READ_REG e r' s)"
  by (simp add: READ_REG_def WRITE_REG_def rd_same rd_other)

lemma READ_MODIFY:
  "P r \<Longrightarrow> READ_REG e r' (MODIFY_REG e r c v s) =
     (if r' = r then (READ_REG e r s AND NOT c) OR v else READ_REG e r' s)"
  by (simp add: MODIFY_REG_def READ_WRITE)

lemma READ_SET:
  "P r \<Longrightarrow> READ_REG e r' (SET_BIT e r b s) = (if r' = r then READ_REG e r s OR b else READ_REG e r' s)"
  by (simp add: SET_BIT_def READ_WRITE)

lemmas READ_plain = READ_WRITE READ_MODIFY READ_SET

end

end
