(* ===== verification/App_Main.thy ===== *)
theory App_Main
  imports Enc_Spec Lwip_Chain Lwip_Timeouts Hal_Regs
begin

text \<open>
  The application, \<open>Core/Src/main.c\<close>: the glue between the driver and lwIP, the interrupt callbacks and
  the main loop with its connection state machine.  The state \<open>app\<close> holds the static variables of the
  file, the driver's state (\<open>Enc_Driver\<close>) and the state of lwIP: its timers and clock (\<open>Lwip_Timeouts\<close>),
  its packet buffers (\<open>Lwip_Pbuf\<close>) and a rest of arbitrary type.  The protocols of lwIP are a parameter:
  a call of one of its functions is a tree of the callbacks into this file it makes before it returns,
  each with the state of lwIP at that moment and what lwIP does with the answer.  \<open>None\<close> is an execution
  that does not come back.
\<close>

section \<open>State\<close>

datatype Connection_State = START_UP | DHCP_IP_RECEIVED | DNS_IP_OBTAINED | MQTT_CONNECTING
  | MQTT_CONNECTED | MQTT_DISCONNECTED

datatype mqtt_connection_status_t = MQTT_CONNECT_ACCEPTED | MQTT_CONNECT_REFUSED_PROTOCOL_VERSION
  | MQTT_CONNECT_REFUSED_IDENTIFIER | MQTT_CONNECT_REFUSED_SERVER | MQTT_CONNECT_REFUSED_USERNAME_PASS
  | MQTT_CONNECT_REFUSED_NOT_AUTHORIZED | MQTT_CONNECT_DISCONNECTED | MQTT_CONNECT_TIMEOUT

datatype netif_output = etharp_output
datatype netif_linkoutput = linkoutput_translate

record netif =
  netif_name :: string
  netif_flags :: u8
  netif_mtu :: u16
  netif_output :: "netif_output option"
  netif_linkoutput :: "netif_linkoutput option"
  netif_hwaddr_len :: u8
  netif_hwaddr :: "u8 list"
  netif_hostname :: string

record mqttBrokerDetails =
  broker_name :: string
  broker_ip :: u32
  broker_user :: string
  broker_password :: string

record mqtt_connect_client_info_t =
  client_id :: string
  client_user :: "string option"
  client_pass :: "string option"
  keep_alive :: u16
  will_topic :: "string option"
  will_msg :: string
  will_msg_len :: u8
  will_qos :: u8
  will_retain :: u8

type_synonym ('h, 'm, 'n) lwst = "('h, 'm pst \<times> 'n) tmo"

text \<open>\<open>behind_dev\<close> is the memory after \<open>dev.txPkt.data\<close>, the last field of \<open>dev\<close>.\<close>

record ('w, 'h, 'm, 'n) app =
  drv :: "'w sys"
  behind_dev :: "nat \<Rightarrow> u8"
  lw :: "('h, 'm, 'n) lwst"
  mqttBroker :: mqttBrokerDetails
  enc28j60intCounter :: u32
  u32FinerTimer :: u32
  u32CoarseTimer :: u32
  timeForDns :: u8
  timerForEtharp :: u8
  u32MqttCounter :: u32
  my_netif :: netif
  myConn :: Connection_State
  myMqtt :: "nat option"
  bSubscribed :: bool
  rx_bytes :: u32
  lastReconnectAttempt :: u32
  bTxBusy :: bool
  enableDns :: bool
  u32PacketCounter :: u32
  GreenLED1 :: bool

section \<open>Calls into lwIP\<close>

datatype ('s, 'r) call =
    Return 's 'r
  | Netif_init 's "err_enum_t \<Rightarrow> ('s, 'r) call"
  | Linkoutput 's nat "err_enum_t \<Rightarrow> ('s, 'r) call"
  | Dns_found 's string "u32 option" "('s, 'r) call"
  | Mqtt_connection 's "nat option" mqtt_connection_status_t "('s, 'r) call"
  | Mqtt_incoming_publish 's string u32 "('s, 'r) call"
  | Mqtt_incoming_data 's "u8 list" u8 "('s, 'r) call"

record ('h, 'm, 'n) lwip =
  pbuf_fns :: "'m pbuf_env"
  lwip_init :: "('h, 'm, 'n) lwst \<Rightarrow> (('h, 'm, 'n) lwst, unit) call"
  netif_add_noaddr :: "('h, 'm, 'n) lwst \<Rightarrow> (('h, 'm, 'n) lwst, unit) call"
  netif_set_addr :: "u32 \<Rightarrow> u32 \<Rightarrow> u32 \<Rightarrow> ('h, 'm, 'n) lwst \<Rightarrow> (('h, 'm, 'n) lwst, unit) call"
  netif_set_default :: "('h, 'm, 'n) lwst \<Rightarrow> (('h, 'm, 'n) lwst, unit) call"
  netif_set_up :: "('h, 'm, 'n) lwst \<Rightarrow> (('h, 'm, 'n) lwst, unit) call"
  dhcp_set_struct :: "('h, 'm, 'n) lwst \<Rightarrow> (('h, 'm, 'n) lwst, unit) call"
  dhcp_start :: "('h, 'm, 'n) lwst \<Rightarrow> (('h, 'm, 'n) lwst, err_enum_t) call"
  mqtt_client_new :: "('h, 'm, 'n) lwst \<Rightarrow> (('h, 'm, 'n) lwst, nat option) call"
  run_tmr :: "cyclic_handler \<Rightarrow> ('h, 'm, 'n) lwst \<Rightarrow> (('h, 'm, 'n) lwst, unit) call"
  run_timeouts :: "('h, 'm, 'n) lwst \<Rightarrow> (('h, 'm, 'n) lwst, unit) call"
  dhcp_supplied_address :: "('h, 'm, 'n) lwst \<Rightarrow> bool"
  dns_init :: "('h, 'm, 'n) lwst \<Rightarrow> (('h, 'm, 'n) lwst, unit) call"
  dns_setserver :: "u8 \<Rightarrow> u32 \<Rightarrow> ('h, 'm, 'n) lwst \<Rightarrow> (('h, 'm, 'n) lwst, unit) call"
  dns_gethostbyname :: "string \<Rightarrow> ('h, 'm, 'n) lwst \<Rightarrow> (('h, 'm, 'n) lwst, err_enum_t) call"
  mqtt_client_connect :: "nat option \<Rightarrow> u32 \<Rightarrow> u16 \<Rightarrow> mqtt_connect_client_info_t \<Rightarrow> ('h, 'm, 'n) lwst \<Rightarrow>
    (('h, 'm, 'n) lwst, err_enum_t) call"
  mqtt_client_is_connected :: "nat option \<Rightarrow> ('h, 'm, 'n) lwst \<Rightarrow> u8"
  mqtt_publish :: "nat option \<Rightarrow> string \<Rightarrow> string \<Rightarrow> u8 \<Rightarrow> u8 \<Rightarrow> ('h, 'm, 'n) lwst \<Rightarrow>
    (('h, 'm, 'n) lwst, err_enum_t) call"
  mqtt_set_inpub_callback :: "nat option \<Rightarrow> ('h, 'm, 'n) lwst \<Rightarrow> (('h, 'm, 'n) lwst, unit) call"
  mqtt_subscribe :: "nat option \<Rightarrow> string \<Rightarrow> u8 \<Rightarrow> ('h, 'm, 'n) lwst \<Rightarrow> (('h, 'm, 'n) lwst, err_enum_t) call"
  netif_input :: "nat \<Rightarrow> ('h, 'm, 'n) lwst \<Rightarrow> (('h, 'm, 'n) lwst, err_enum_t) call"

section \<open>Access\<close>

definition pst_of :: "('w, 'h, 'm, 'n) app \<Rightarrow> 'm pst" where
  "pst_of s = fst (stack (lw s))"

definition set_pst :: "'m pst \<Rightarrow> ('w, 'h, 'm, 'n) app \<Rightarrow> ('w, 'h, 'm, 'n) app" where
  "set_pst p s = s\<lparr>lw := (lw s)\<lparr>stack := (p, snd (stack (lw s)))\<rparr>\<rparr>"

definition print_app :: "nat \<Rightarrow> string \<Rightarrow> int list \<Rightarrow> ('w, 'h, 'm, 'n) app \<Rightarrow> ('w, 'h, 'm, 'n) app" where
  "print_app level fmt args s = s\<lparr>drv := dMesgPrint level fmt args (drv s)\<rparr>"

definition on_drv :: "('w sys \<Rightarrow> 'w sys option) \<Rightarrow> ('w, 'h, 'm, 'n) app \<Rightarrow> ('w, 'h, 'm, 'n) app option" where
  "on_drv f s = do { d \<leftarrow> f (drv s); Some (s\<lparr>drv := d\<rparr>) }"

section \<open>Interrupt callbacks\<close>

definition GPIO_PIN_7 :: u16 where "GPIO_PIN_7 = 0x0080"

definition HAL_GPIO_EXTI_Callback :: "u16 \<Rightarrow> ('w, 'h, 'm, 'n) app \<Rightarrow> ('w, 'h, 'm, 'n) app" where
  "HAL_GPIO_EXTI_Callback GPIO_Pin s =
     (if GPIO_Pin = GPIO_PIN_7 then s\<lparr>enc28j60intCounter := enc28j60intCounter s + 1\<rparr> else s)"

definition HAL_TIM_PeriodElapsedCallback :: "tim_instance \<Rightarrow> ('w, 'h, 'm, 'n) app \<Rightarrow> ('w, 'h, 'm, 'n) app" where
  "HAL_TIM_PeriodElapsedCallback htim s =
     (if htim = TIM1 then s
      else if htim = TIM2
      then s\<lparr>u32FinerTimer := u32FinerTimer s + 1, u32CoarseTimer := u32CoarseTimer s + 1,
             timeForDns := timeForDns s + 1, u32MqttCounter := u32MqttCounter s + 1,
             timerForEtharp := timerForEtharp s + 1, lw := sys_now_increment (lw s)\<rparr>
      else s)"

section \<open>The network interface\<close>

definition ethernet_init :: "('w, 'h, 'm, 'n) app \<Rightarrow> err_enum_t \<times> ('w, 'h, 'm, 'n) app" where
  "ethernet_init s =
     (let n = my_netif s;
          n = n\<lparr>netif_name := ''en'', netif_flags := netif_flags n OR (0x02 OR 0x08 OR 0x20 OR 0x04),
            netif_mtu := 1500, netif_output := Some etharp_output, netif_linkoutput := Some linkoutput_translate,
            netif_hwaddr_len := 6, netif_hostname := ''enc28j60_feytech'',
            netif_hwaddr := map (\<lambda>i. macSrcAddr (dev (drv s)) ! (5 - i)) [0 ..< 6]\<rparr>
      in (ERR_OK, s\<lparr>my_netif := n\<rparr>))"

text \<open>
  \<^verbatim>\<open>memcpy(&dev.txPkt.data[offset], ...)\<close> is not bounded: bytes beyond the 1500 of the array go to the
  memory behind \<open>dev\<close>.  \<open>tx_window n\<close> is the \<open>n\<close> bytes from the start of the array.
\<close>

definition tx_store :: "nat \<Rightarrow> u8 list \<Rightarrow> ('w, 'h, 'm, 'n) app \<Rightarrow> ('w, 'h, 'm, 'n) app" where
  "tx_store off bs s =
     (let d = dev (drv s);
          put = (\<lambda>i old. if off \<le> i \<and> i < off + length bs then bs ! (i - off) else old)
      in s\<lparr>drv := (drv s)\<lparr>dev := d\<lparr>txPkt := (txPkt d)\<lparr>tx_data :=
             map (\<lambda>i. put i (tx_data (txPkt d) ! i)) [0 ..< 1500]\<rparr>\<rparr>\<rparr>,
           behind_dev := (\<lambda>i. put (i + 1500) (behind_dev s i))\<rparr>)"

definition tx_window :: "nat \<Rightarrow> ('w, 'h, 'm, 'n) app \<Rightarrow> u8 list" where
  "tx_window n s = map (\<lambda>i. if i < 1500 then tx_data (txPkt (dev (drv s))) ! i else behind_dev s (i - 1500)) [0 ..< n]"

partial_function (option) tx_copy_loop ::
  "nat option \<Rightarrow> u16 \<Rightarrow> ('w, 'h, 'm, 'n) app \<Rightarrow> (u16 \<times> ('w, 'h, 'm, 'n) app) option" where
  "tx_copy_loop q offset s = (case q of None \<Rightarrow> Some (offset, s)
     | Some a \<Rightarrow> do {
         b \<leftarrow> pbufs (pst_of s) a;
         let s = tx_store (unat offset) (get_bytes (payload b) (unat (len b)) (bytes (pst_of s))) s;
         tx_copy_loop (nxt b) (offset + len b) s
       })"

definition enc28j60_translate ::
  "nat \<Rightarrow> ('w, 'h, 'm, 'n) app \<Rightarrow> (err_enum_t \<times> ('w, 'h, 'm, 'n) app) option" where
  "enc28j60_translate p s =
     (if bTxBusy s \<noteq> True
      then do {
        let s = print_app DEBUG_INFO ''TX started!'' [] s;
        b \<leftarrow> pbufs (pst_of s) p;
        let total_len = tot_len b;
        (offset, s) \<leftarrow> tx_copy_loop (Some p) 0 s;
        if offset \<noteq> total_len then Some (ERR_BUF, s)
        else do {
          (_, d) \<leftarrow> enc28j60_etherTransmit (tx_window (unat total_len) s) total_len (drv s);
          Some (ERR_OK, s\<lparr>drv := d, bTxBusy := True\<rparr>)
        }
      }
      else Some (ERR_INPROGRESS, print_app DEBUG_ERROR ''TX busy!'' [] s))"

text \<open>\<open>pbuf_take\<close> reads the \<open>len\<close> bytes from the start of \<open>rxPkt.data\<close>; behind it lies \<open>rx_tail\<close>.\<close>

definition ethernet_do_translation_to_pbub ::
  "nat \<Rightarrow> ('w, 'h, 'm, 'n) app \<Rightarrow> ('w, 'h, 'm, 'n) app option" where
  "ethernet_do_translation_to_pbub p s = do {
     let n = rxPktLen (rxPkt (dev (drv s)));
     b \<leftarrow> pbufs (pst_of s) p;
     let n = (if n > tot_len b then tot_len b else n);
     let d = dev (drv s);
     (_, m) \<leftarrow> pbuf_take (Some p) (take (unat n) (rx_data (rxPkt d) @ rx_tail d)) (pst_of s);
     Some (set_pst m s)
   }"

section \<open>Callbacks from lwIP\<close>

text \<open>\<open>*ipaddr\<close> with \<open>ipaddr\<close> NULL does not return.\<close>

definition ipObtained ::
  "string \<Rightarrow> u32 option \<Rightarrow> ('w, 'h, 'm, 'n) app \<Rightarrow> ('w, 'h, 'm, 'n) app option" where
  "ipObtained name ipaddr s =
     (if broker_name (mqttBroker s) = name
      then do {
        ip \<leftarrow> ipaddr;
        Some (s\<lparr>mqttBroker := (mqttBroker s)\<lparr>broker_ip := ip\<rparr>, myConn := DNS_IP_OBTAINED\<rparr>)
      }
      else Some s)"

text \<open>\<open>arg\<close> is always \<open>&myConn\<close>, as given to \<open>mqtt_client_connect\<close>; the default case is \<open>while(1)\<close>.\<close>

definition myMqttClientCallBack ::
  "nat option \<Rightarrow> mqtt_connection_status_t \<Rightarrow> ('w, 'h, 'm, 'n) app \<Rightarrow> ('w, 'h, 'm, 'n) app option" where
  "myMqttClientCallBack client status s =
     (if client = myMqtt s
      then (case status of
          MQTT_CONNECT_ACCEPTED \<Rightarrow> Some (s\<lparr>myConn := MQTT_CONNECTED\<rparr>)
        | MQTT_CONNECT_DISCONNECTED \<Rightarrow> Some (s\<lparr>myConn := MQTT_DISCONNECTED\<rparr>)
        | _ \<Rightarrow> None)
      else Some s)"

definition mqtt_data_cb :: "u8 list \<Rightarrow> u8 \<Rightarrow> ('w, 'h, 'm, 'n) app \<Rightarrow> ('w, 'h, 'm, 'n) app" where
  "mqtt_data_cb data fl s =
     (let s = s\<lparr>rx_bytes := rx_bytes s + ucast (of_nat (length data) :: u16)\<rparr> in
      if fl AND 1 \<noteq> 0
      then (print_app DEBUG_INFO ''MQTT message complete: %lu bytes'' [uint (rx_bytes s)] s)\<lparr>rx_bytes := 0\<rparr>
      else s)"

text \<open>The string argument of the message is put in its place in the format.\<close>

definition publishIncoming :: "string \<Rightarrow> u32 \<Rightarrow> ('w, 'h, 'm, 'n) app \<Rightarrow> ('w, 'h, 'm, 'n) app" where
  "publishIncoming topic tlen s = print_app DEBUG_INFO (''Data arrived on '' @ topic) [] s"

text \<open>Running a call: the callbacks change the application, lwIP goes on with their answers.\<close>

primrec run_call ::
  "(('h, 'm, 'n) lwst, 'r) call \<Rightarrow> ('w, 'h, 'm, 'n) app \<Rightarrow> ('r \<times> ('w, 'h, 'm, 'n) app) option" where
  "run_call (Return l r) s = Some (r, s\<lparr>lw := l\<rparr>)"
| "run_call (Netif_init l k) s = (case ethernet_init (s\<lparr>lw := l\<rparr>) of (e, s) \<Rightarrow> run_call (k e) s)"
| "run_call (Linkoutput l p k) s =
     (case enc28j60_translate p (s\<lparr>lw := l\<rparr>) of None \<Rightarrow> None | Some (e, s) \<Rightarrow> run_call (k e) s)"
| "run_call (Dns_found l nm ip k) s =
     (case ipObtained nm ip (s\<lparr>lw := l\<rparr>) of None \<Rightarrow> None | Some s \<Rightarrow> run_call k s)"
| "run_call (Mqtt_connection l c st k) s =
     (case myMqttClientCallBack c st (s\<lparr>lw := l\<rparr>) of None \<Rightarrow> None | Some s \<Rightarrow> run_call k s)"
| "run_call (Mqtt_incoming_publish l topic tlen k) s = run_call k (publishIncoming topic tlen (s\<lparr>lw := l\<rparr>))"
| "run_call (Mqtt_incoming_data l data fl k) s = run_call k (mqtt_data_cb data fl (s\<lparr>lw := l\<rparr>))"

definition call_lwip ::
  "(('h, 'm, 'n) lwst \<Rightarrow> (('h, 'm, 'n) lwst, 'r) call) \<Rightarrow> ('w, 'h, 'm, 'n) app \<Rightarrow> ('r \<times> ('w, 'h, 'm, 'n) app) option" where
  "call_lwip f s = run_call (f (lw s)) s"

section \<open>The main loop\<close>

definition run_tmr_app ::
  "('h, 'm, 'n) lwip \<Rightarrow> cyclic_handler \<Rightarrow> ('w, 'h, 'm, 'n) app \<Rightarrow> ('w, 'h, 'm, 'n) app option" where
  "run_tmr_app e t s = do { (_, s) \<leftarrow> call_lwip (run_tmr e t) s; Some s }"

definition loop_timers :: "('h, 'm, 'n) lwip \<Rightarrow> ('w, 'h, 'm, 'n) app \<Rightarrow> ('w, 'h, 'm, 'n) app option" where
  "loop_timers e s = do {
     s \<leftarrow> (if u32FinerTimer s \<ge> 1
           then do {
             s \<leftarrow> run_tmr_app e dhcp_fine_tmr (s\<lparr>u32FinerTimer := 0\<rparr>);
             Some (s\<lparr>GreenLED1 := \<not> GreenLED1 s\<rparr>)
           }
           else Some s);
     s \<leftarrow> (if u32CoarseTimer s \<ge> 120 then run_tmr_app e dhcp_coarse_tmr (s\<lparr>u32CoarseTimer := 0\<rparr>) else Some s);
     s \<leftarrow> (if timeForDns s \<ge> 2 \<and> enableDns s then run_tmr_app e dns_tmr (s\<lparr>timeForDns := 0\<rparr>) else Some s);
     (if timerForEtharp s \<ge> 2 then run_tmr_app e etharp_tmr (s\<lparr>timerForEtharp := 0\<rparr>) else Some s)
   }"

definition loop_timeouts :: "('h, 'm, 'n) lwip \<Rightarrow> ('w, 'h, 'm, 'n) app \<Rightarrow> ('w, 'h, 'm, 'n) app option" where
  "loop_timeouts e s = do { (_, s) \<leftarrow> call_lwip (run_timeouts e) s; Some s }"

definition myInfo :: mqtt_connect_client_info_t where
  "myInfo = \<lparr>client_id = ''mqtt-nestor-kalambay'', client_user = None, client_pass = None, keep_alive = 60,
     will_topic = None, will_msg = ''offline'', will_msg_len = 7, will_qos = 0, will_retain = 0\<rparr>"

text \<open>\<open>IP4_ADDR\<close> of 8.8.8.8 in network order.\<close>

definition dnsServer :: u32 where "dnsServer = 0x08080808"

text \<open>The case \<open>MQTT_CONNECTED\<close> of the switch.\<close>

definition conn_connected :: "('h, 'm, 'n) lwip \<Rightarrow> ('w, 'h, 'm, 'n) app \<Rightarrow> ('w, 'h, 'm, 'n) app option" where
  "conn_connected e s = do {
     s \<leftarrow> (if u32MqttCounter s \<ge> 10
           then do {
             (_, s) \<leftarrow> call_lwip (mqtt_publish e (myMqtt s) ''franzkafka''
                ''This message is coming from an alien who just landed in south Africa'' 0 0)
                (s\<lparr>u32MqttCounter := 0\<rparr>);
             Some s
           }
           else Some s);
     (if bSubscribed s = False
      then do {
        (_, s) \<leftarrow> call_lwip (mqtt_set_inpub_callback e (myMqtt s)) (s\<lparr>bSubscribed := True\<rparr>);
        (_, s) \<leftarrow> call_lwip (mqtt_subscribe e (myMqtt s) ''franzkafka'' 0) s;
        Some s
      }
      else Some s)
   }"

definition loop_conn :: "('h, 'm, 'n) lwip \<Rightarrow> ('w, 'h, 'm, 'n) app \<Rightarrow> ('w, 'h, 'm, 'n) app option" where
  "loop_conn e s = (case myConn s of
       START_UP \<Rightarrow>
         (if dhcp_supplied_address e (lw s)
          then do {
            (_, s) \<leftarrow> call_lwip (dns_init e) s;
            (_, s) \<leftarrow> call_lwip (dns_setserver e 0 dnsServer) s;
            (_, s) \<leftarrow> call_lwip (dns_gethostbyname e (broker_name (mqttBroker s))) s;
            Some (s\<lparr>enableDns := True, myConn := DHCP_IP_RECEIVED\<rparr>)
          }
          else Some s)
     | DHCP_IP_RECEIVED \<Rightarrow> Some s
     | MQTT_CONNECTING \<Rightarrow> (if mqtt_client_is_connected e (myMqtt s) (lw s) = 1 then Some s else Some s)
     | MQTT_CONNECTED \<Rightarrow> conn_connected e s
     | _ \<Rightarrow>
         (if sys_now (lw s) - lastReconnectAttempt s > 3000
          then do {
            let s = s\<lparr>lastReconnectAttempt := sys_now (lw s)\<rparr>;
            (r, s) \<leftarrow> call_lwip (mqtt_client_connect e (myMqtt s) (broker_ip (mqttBroker s)) 1883 myInfo) s;
            if ERR_OK = r then Some (s\<lparr>myConn := MQTT_CONNECTING, bSubscribed := False\<rparr>) else Some s
          }
          else Some s))"

definition rx_to_pbuf ::
  "('h, 'm, 'n) lwip \<Rightarrow> ('w, 'h, 'm, 'n) app \<Rightarrow> (nat option \<times> ('w, 'h, 'm, 'n) app) option" where
  "rx_to_pbuf e s = do {
     (ethBuffer, m) \<leftarrow> pbuf_alloc (pbuf_fns e) PBUF_RAW (rxPktLen (rxPkt (dev (drv s)))) PBUF_POOL (pst_of s);
     let s = set_pst m s;
     case ethBuffer of None \<Rightarrow> Some (None, s)
     | Some p \<Rightarrow> do { s \<leftarrow> ethernet_do_translation_to_pbub p s; Some (Some p, s) }
   }"

definition on_packet :: "('h, 'm, 'n) lwip \<Rightarrow> ('w, 'h, 'm, 'n) app \<Rightarrow> ('w, 'h, 'm, 'n) app option" where
  "on_packet e s = do {
     (err, d) \<leftarrow> enc28j60_etherReceive (drv s);
     d \<leftarrow> enc28j60_clear_interrupt PKTIF d;
     let s = s\<lparr>drv := d\<rparr>;
     if err = True
     then do {
       let s = print_app DEBUG_INFO ''PKT number %d'' [uint (u32PacketCounter s)] s;
       let s = s\<lparr>u32PacketCounter := u32PacketCounter s + 1\<rparr>;
       let s = print_app DEBUG_INFO ''PKT length %d'' [uint (rxPktLen (rxPkt (dev (drv s))))] s;
       (ethBuffer, s) \<leftarrow> rx_to_pbuf e s;
       case ethBuffer of None \<Rightarrow> Some s
       | Some p \<Rightarrow> do {
           (r, s) \<leftarrow> call_lwip (netif_input e p) s;
           if r \<noteq> ERR_OK
           then do { (_, m) \<leftarrow> pbuf_free (pbuf_fns e) (Some p) (pst_of s); Some (set_pst m s) }
           else Some s
         }
     }
     else Some s
   }"

definition on_flag :: "('h, 'm, 'n) lwip \<Rightarrow> nat \<Rightarrow> ('w, 'h, 'm, 'n) app \<Rightarrow> ('w, 'h, 'm, 'n) app option" where
  "on_flag e cnt s =
     (if cnt = 0 then on_drv (enc28j60_clear_interrupt RXERIF)
        (print_app DEBUG_ERROR ''1) Receive Error Interrupt Flag bit'' [] s)
      else if cnt = 1 then on_drv (enc28j60_clear_interrupt TXERIF)
        (print_app DEBUG_ERROR ''2) Transmit Error Interrupt Flag bit'' [] s)
      else if cnt = 2 then Some (print_app DEBUG_INFO ''3) WOL Interrupt Flag bit'' [] s)
      else if cnt = 3 then do {
        s \<leftarrow> on_drv (enc28j60_clear_interrupt TXIF) (print_app DEBUG_INFO ''4) Transmit Interrupt Flag bit'' [] s);
        Some (s\<lparr>bTxBusy := False\<rparr>)
      }
      else if cnt = 4 then do {
        let s = print_app DEBUG_INFO ''5) Link Change Interrupt Flag bit'' [] s;
        s \<leftarrow> on_drv (\<lambda>d. do { (_, d) \<leftarrow> enc28j60_readPhyReg (PHIR (phyReg (dev d))) d; Some d }) s;
        on_drv enc28j60_link_change_int_clear s
      }
      else if cnt = 5 then on_drv (enc28j60_clear_interrupt DMAIF)
        (print_app DEBUG_INFO ''5) DMA Interrupt Flag bit'' [] s)
      else if cnt = 6 then on_packet e (print_app DEBUG_INFO ''6) Receive Packet Pending Interrupt Flag bit'' [] s)
      else Some s)"

fun eir_loop :: "('h, 'm, 'n) lwip \<Rightarrow> nat list \<Rightarrow> u8 \<Rightarrow> ('w, 'h, 'm, 'n) app \<Rightarrow> ('w, 'h, 'm, 'n) app option" where
  "eir_loop e [] u8Value s = Some s"
| "eir_loop e (cnt # cnts) u8Value s = do {
     s \<leftarrow> (if u8Value AND push_bit cnt 1 \<noteq> 0
           then do {
             s \<leftarrow> on_drv enc28j60_global_int_Clear s;
             s \<leftarrow> on_flag e cnt s;
             on_drv enc28j60_global_Int_Set s
           }
           else Some s);
     eir_loop e cnts u8Value s
   }"

definition loop_enc :: "('h, 'm, 'n) lwip \<Rightarrow> ('w, 'h, 'm, 'n) app \<Rightarrow> ('w, 'h, 'm, 'n) app option" where
  "loop_enc e s =
     (if enc28j60intCounter s > 0
      then do {
        let s = s\<lparr>enc28j60intCounter := enc28j60intCounter s - 1\<rparr>;
        (u8Value, d) \<leftarrow> enc28j60_readEtherReg (EIR (commonRegs_b0 (bank0 (dev (drv s))))) (drv s);
        let s = print_app DEBUG_INFO ''EIR REG --> %u'' [uint u8Value] (s\<lparr>drv := d\<rparr>);
        eir_loop e [0 ..< 8] u8Value s
      }
      else Some s)"

definition main_loop_body :: "('h, 'm, 'n) lwip \<Rightarrow> ('w, 'h, 'm, 'n) app \<Rightarrow> ('w, 'h, 'm, 'n) app option" where
  "main_loop_body e s = do {
     s \<leftarrow> loop_timers e s;
     s \<leftarrow> loop_timeouts e s;
     s \<leftarrow> loop_conn e s;
     loop_enc e s
   }"

section \<open>Start-up\<close>

text \<open>From \<open>enc28j60_initDr\<close> to the loop; the functions on the SPI bus are arguments.\<close>

definition main_init ::
  "('h, 'm, 'n) lwip \<Rightarrow> 'w spiChipSel \<Rightarrow> 'w spiChipDSl \<Rightarrow> 'w slaveRead \<Rightarrow> 'w slaveWrite \<Rightarrow> 'w delayMs \<Rightarrow>
   ('w, 'h, 'm, 'n) app \<Rightarrow> ('w, 'h, 'm, 'n) app option" where
  "main_init e cs ds rd wr dly s = do {
     let s = s\<lparr>drv := enc28j60_initDr cs ds rd wr None dly (drv s)\<rparr>;
     s \<leftarrow> on_drv enc28j60_strtDr s;
     (_, s) \<leftarrow> call_lwip (lwip_init e) s;
     (_, s) \<leftarrow> call_lwip (netif_add_noaddr e) s;
     (_, s) \<leftarrow> call_lwip (netif_set_addr e 0 0 0) s;
     (_, s) \<leftarrow> call_lwip (netif_set_default e) s;
     (_, s) \<leftarrow> call_lwip (netif_set_up e) s;
     let s = s\<lparr>u32PacketCounter := 0\<rparr>;
     (_, s) \<leftarrow> call_lwip (dhcp_set_struct e) s;
     (_, s) \<leftarrow> call_lwip (dhcp_start e) s;
     let s = s\<lparr>enableDns := False\<rparr>;
     (c, s) \<leftarrow> call_lwip (mqtt_client_new e) s;
     let s = s\<lparr>myMqtt := c\<rparr>;
     if c = None then None else Some s
   }"

end
