(* ===== verification/App_Spec.thy ===== *)
theory App_Spec
  imports App_Main
begin

text \<open>
  The properties of the application.  Two locales state what a predicate on the application's state must
  satisfy to survive every callback (\<open>callback_inv\<close>) and the whole main loop (\<open>loop_inv\<close>), whatever lwIP
  does; they are interpreted on the state of the driver and on single variables.  The rest composes the
  driver's promises with those of the packet buffers: a frame that lwIP hands to the interface is the
  frame in the chip's transmit buffer, a frame read from the chip is the packet lwIP gets.
\<close>

section \<open>What the main loop asks of the driver\<close>

definition drv_ok where
  "drv_ok cs ds rd wr dly log d \<longleftrightarrow> drv_inv cs ds rd wr dly log d \<and> autoinc (prog_chip log d) \<and>
     length (rx_data (rxPkt (dev d))) = 1500 \<and> length (tx_data (txPkt (dev d))) = 1500"

lemma drv_inv_print [simp]: "drv_inv cs ds rd wr dly log (dMesgPrint l f a d) = drv_inv cs ds rd wr dly log d"
  "prog_chip log (dMesgPrint l f a d) = prog_chip log d"
  by (simp_all add: drv_inv_def prog_chip_def)

lemma drv_ok_print [simp]: "drv_ok cs ds rd wr dly log (dMesgPrint l f a d) = drv_ok cs ds rd wr dly log d"
  by (simp add: drv_ok_def)

context spi_bus
begin

abbreviation ok :: "'w sys \<Rightarrow> bool" where
  "ok \<equiv> drv_ok cs ds rd wr dly log"

lemma ok_set:
  assumes "ok s" and "rbits r = 0" and "r AND 0x1F \<noteq> 0x1F"
  shows "\<exists>s'. enc28j60_BitFieldSet r v s = Some s' \<and> ok s' \<and> dev s' = dev s \<and> uart s' = uart s \<and>
    chips s' = reg_set (rkey r) v (c_sel 0 (chips s))"
proof -
  have i: "inv s" using assms(1) by (simp add: drv_ok_def)
  note x = bank0_set [OF i assms(2), of v]
  have "creg (reg_set (rkey r) v (c_sel 0 (chips s))) 0x1E AND 0x80 \<noteq> 0"
    using assms(1) by (simp add: drv_ok_def autoinc_def reg_set_def c_sel_def bit.conj_disj_distrib2)
      (metis or_eq_0_iff)
  then show ?thesis
    using assms(1,3) x by (simp add: drv_ok_def autoinc_def)
qed

lemma ok_clear:
  assumes "ok s" and "rbits r = 0" and "rkey r \<noteq> 0x1E" and "r AND 0x1F \<noteq> 0x1F"
  shows "\<exists>s'. enc28j60_BitFieldClear r v s = Some s' \<and> ok s' \<and> dev s' = dev s \<and> uart s' = uart s \<and>
    chips s' = reg_clear (rkey r) v (c_sel 0 (chips s))"
proof -
  have i: "inv s" using assms(1) by (simp add: drv_ok_def)
  note x = bank0_clear [OF i assms(2), of v]
  have "creg (reg_clear (rkey r) v (c_sel 0 (chips s))) 0x1E = creg (chips s) 0x1E"
    using assms(3) by (simp add: reg_clear_def c_sel_def)
  then show ?thesis
    using assms(1,4) x by (simp add: drv_ok_def autoinc_def)
qed

lemma ok_transmit:
  assumes "ok s" and "length bs < 2 ^ 16" and "enc28j60_etherTransmit bs n s = Some (b, s')"
  shows "ok s'"
proof -
  have i: "inv s" using assms(1) by (simp add: drv_ok_def)
  have "s' = tx_end_st bs n s" using etherTransmit_eq [OF i assms(2), of n] assms(3) by simp
  then show ?thesis
    using assms(1) tx_end_frame [OF i assms(2), of n] by (simp add: drv_ok_def autoinc_def)
qed

lemma ok_receive:
  assumes "ok s" and "enc28j60_etherReceive s = Some (b, s')"
  shows "ok s'"
proof -
  have i: "inv s" using assms(1) by (simp add: drv_ok_def)
  obtain u u' where r: "enc28j60_etherReceive s = Some (rx_ok s, (rx_end s u)\<lparr>uart := u'\<rparr>)"
    using i by (rule etherReceive_eq)
  have s': "s' = (rx_end s u)\<lparr>uart := u'\<rparr>" using r assms(2) by simp
  note e = rx_end [OF i, of u]
  have n: "length (rx_dat s) \<le> 3004"
    using rx_lengths(3) [of s] by (simp add: rx_n_def rx_ok_def word_less_nat_alt)
  have "length (rx_data (rxPkt (rx_dev s))) = 1500" "length (tx_data (txPkt (rx_dev s))) = 1500"
    unfolding rx_dev_def using assms(1) n by (simp_all add: drv_ok_def store_rx_data_lens)
  with assms(1) e show ?thesis by (simp add: s' drv_ok_def autoinc_def)
qed

lemma ok_readPhyReg:
  assumes "ok s" and "enc28j60_readPhyReg a s = Some (v, s')"
  shows "ok s'"
proof -
  have i: "inv s" using assms(1) by (simp add: drv_ok_def)
  note r = readPhyReg_state [OF i assms(2)]
  have k: "reg_key (mii_bank s) 0x14 \<noteq> 0x1E" "reg_key (mii_bank s) 0x12 \<noteq> 0x1E"
    by (simp_all add: reg_key_def mii_bank_def)
  obtain x y z where "creg (chips s') = (creg (chips s))(reg_key (mii_bank s) 0x14 := a,
      reg_key (mii_bank s) 0x12 := x OR 1, 0x1F := y, 0x92 := z AND NOT 1)"
    using r(5) by blast
  then have "creg (chips s') 0x1E = creg (chips s) 0x1E" using k by simp
  then show ?thesis using assms(1) r(1,2) by (simp add: drv_ok_def autoinc_def)
qed

lemma ok_readEIR:
  assumes "ok s" and "enc28j60_readEtherReg 0x1C s = Some (v, s')"
  shows "ok s'"
proof -
  have i: "inv s" using assms(1) by (simp add: drv_ok_def)
  have b: "rbits 0x1C = 0" by (simp add: rbits_def)
  have s': "s' = rde_st 0x1C s" using rde_st_eqs(1) [OF i, of "0x1C"] assms(2) by simp
  have "creg (chips s') 0x1E = creg (chips s) 0x1E"
    by (simp add: s' rde_st_eqs(4) [OF i] acc_chip_def c_sel_def)
  then show ?thesis using assms(1) inv_rde_st [OF i, of "0x1C"]
    by (simp add: s' drv_ok_def autoinc_def rde_st_eqs(2) [OF i])
qed

lemma ok_common:
  assumes "ok s"
  shows "EIE (commonRegs_b0 (bank0 (dev s))) = 0x1B" "EIR (commonRegs_b0 (bank0 (dev s))) = 0x1C"
    "ECON2 (commonRegs_b0 (bank0 (dev s))) = 0x1E"
  using assms inv_common by (simp_all add: drv_ok_def)

lemma ok_flags:
  assumes "ok s"
  shows "\<exists>s'. enc28j60_clear_interrupt fl s = Some s' \<and> ok s' \<and> dev s' = dev s \<and> chips s' =
      (if fl = PKTIF then reg_set 0x1E 0x40 (c_sel 0 (chips s)) else reg_clear 0x1C (eth_int_flag_val fl) (c_sel 0 (chips s)))"
    "\<exists>s'. enc28j60_global_Int_Set s = Some s' \<and> ok s' \<and> dev s' = dev s \<and> chips s' = reg_set 0x1B 0x80 (c_sel 0 (chips s))"
    "\<exists>s'. enc28j60_global_int_Clear s = Some s' \<and> ok s' \<and> dev s' = dev s \<and> chips s' = reg_clear 0x1B 0x80 (c_sel 0 (chips s))"
    "\<exists>s'. enc28j60_link_change_int_clear s = Some s' \<and> ok s' \<and> dev s' = dev s \<and> chips s' = reg_clear 0x1B 0x10 (c_sel 0 (chips s))"
proof -
  have k: "rbits 0x1B = 0" "rbits 0x1C = 0" "rbits 0x1E = 0" "rkey 0x1B = 0x1B" "rkey 0x1C = 0x1C" "rkey 0x1E = 0x1E"
    by (simp_all add: rbits_def rkey_def reg_key_def)
  have i: "inv s" using assms by (simp add: drv_ok_def)
  show "\<exists>s'. enc28j60_clear_interrupt fl s = Some s' \<and> ok s' \<and> dev s' = dev s \<and> chips s' =
      (if fl = PKTIF then reg_set 0x1E 0x40 (c_sel 0 (chips s)) else reg_clear 0x1C (eth_int_flag_val fl) (c_sel 0 (chips s)))"
    using ok_set [OF assms k(3), of "0x40"] ok_clear [OF assms k(2), of "eth_int_flag_val fl"] k
    by (auto simp: clear_interrupt_eq [OF i])
  show "\<exists>s'. enc28j60_global_Int_Set s = Some s' \<and> ok s' \<and> dev s' = dev s \<and> chips s' = reg_set 0x1B 0x80 (c_sel 0 (chips s))"
    using ok_set [OF assms k(1), of "0x80"] k by (auto simp: enc28j60_global_Int_Set_def ok_common [OF assms])
  show "\<exists>s'. enc28j60_global_int_Clear s = Some s' \<and> ok s' \<and> dev s' = dev s \<and> chips s' = reg_clear 0x1B 0x80 (c_sel 0 (chips s))"
    using ok_clear [OF assms k(1), of "0x80"] k by (auto simp: enc28j60_global_int_Clear_def ok_common [OF assms])
  show "\<exists>s'. enc28j60_link_change_int_clear s = Some s' \<and> ok s' \<and> dev s' = dev s \<and> chips s' = reg_clear 0x1B 0x10 (c_sel 0 (chips s))"
    using ok_clear [OF assms k(1), of "0x10"] k by (auto simp: enc28j60_link_change_int_clear_def ok_common [OF assms])
qed

end

section \<open>The program as a step relation\<close>

text \<open>
  A step is one of the four parts of the loop, in their order, or an interrupt, which may come between
  any two of them; that it may also come during a call into lwIP is in what such a call does to the clock.
\<close>

definition loop_blocks ::
  "('h, 'm, 'n) lwip \<Rightarrow> (('w, 'h, 'm, 'n) app \<Rightarrow> ('w, 'h, 'm, 'n) app option) list" where
  "loop_blocks e = [loop_timers e, loop_timeouts e, loop_conn e, loop_enc e]"

lemma length_loop_blocks [simp]: "length (loop_blocks e) = 4"
  by (simp add: loop_blocks_def)

inductive app_step ::
  "('h, 'm, 'n) lwip \<Rightarrow> nat \<times> ('w, 'h, 'm, 'n) app \<Rightarrow> nat \<times> ('w, 'h, 'm, 'n) app \<Rightarrow> bool" for e where
  step_block: "i < 4 \<Longrightarrow> (loop_blocks e ! i) s = Some s' \<Longrightarrow> app_step e (i, s) (Suc i mod 4, s')"
| step_tick: "app_step e (i, s) (i, HAL_TIM_PeriodElapsedCallback t s)"
| step_exti: "app_step e (i, s) (i, HAL_GPIO_EXTI_Callback pin s)"

inductive_cases app_stepE: "app_step e (i, s) (j, s')"

lemma app_step_cases:
  assumes "app_step e (i, s) (j, s')"
  obtains "loop_timers e s = Some s'" | "loop_timeouts e s = Some s'" | "loop_conn e s = Some s'"
    | "loop_enc e s = Some s'" | t where "s' = HAL_TIM_PeriodElapsedCallback t s"
    | pin where "s' = HAL_GPIO_EXTI_Callback pin s"
proof -
  have four: "i = 0 \<or> i = 1 \<or> i = 2 \<or> i = 3" if "i < 4" for i :: nat
    using that by linarith
  show thesis
    using assms
  proof (rule app_stepE)
    assume i: "i < 4" and b: "(loop_blocks e ! i) s = Some s'"
    from four [OF i] show thesis
      using b that(1-4) by (elim disjE) (simp_all add: loop_blocks_def)
  qed (use that(5,6) in blast)+
qed

inductive app_reach ::
  "('h, 'm, 'n) lwip \<Rightarrow> nat \<times> ('w, 'h, 'm, 'n) app \<Rightarrow> nat \<times> ('w, 'h, 'm, 'n) app \<Rightarrow> bool" for e a where
  reach_here: "app_reach e a a"
| reach_more: "app_reach e a b \<Longrightarrow> app_step e b c \<Longrightarrow> app_reach e a c"

lemma main_loop_body_blocks:
  "main_loop_body e s = do { s \<leftarrow> (loop_blocks e ! 0) s; s \<leftarrow> (loop_blocks e ! 1) s;
     s \<leftarrow> (loop_blocks e ! 2) s; (loop_blocks e ! 3) s }"
  by (simp add: main_loop_body_def loop_blocks_def)

section \<open>Invariants of callbacks and of the loop\<close>

locale callback_inv =
  fixes P :: "('w, 'h, 'm, 'n) app \<Rightarrow> bool"
  assumes P_lw: "P s \<Longrightarrow> P (s\<lparr>lw := l\<rparr>)"
    and P_netif: "P s \<Longrightarrow> P (s\<lparr>my_netif := n\<rparr>)"
    and P_print: "P s \<Longrightarrow> P (print_app lev f a s)"
    and P_rx: "P s \<Longrightarrow> P (s\<lparr>rx_bytes := x\<rparr>)"
    and P_conn: "P s \<Longrightarrow> c \<in> {DNS_IP_OBTAINED, MQTT_CONNECTED, MQTT_DISCONNECTED} \<Longrightarrow> P (s\<lparr>myConn := c\<rparr>)"
    and P_broker: "P s \<Longrightarrow> P (s\<lparr>mqttBroker := b\<rparr>)"
    and P_translate: "P s \<Longrightarrow> enc28j60_translate p s = Some (e, s') \<Longrightarrow> P s'"
begin

lemma P_callbacks:
  "P s \<Longrightarrow> P (snd (ethernet_init s))"
  "P s \<Longrightarrow> ipObtained nm ip s = Some s' \<Longrightarrow> P s'"
  "P s \<Longrightarrow> myMqttClientCallBack cl st s = Some s' \<Longrightarrow> P s'"
  "P s \<Longrightarrow> P (mqtt_data_cb data fl s)"
  "P s \<Longrightarrow> P (publishIncoming topic n s)"
  by (auto simp: ethernet_init_def ipObtained_def myMqttClientCallBack_def mqtt_data_cb_def publishIncoming_def
      Let_def bind_eq_Some_conv intro!: P_netif P_rx P_print P_conn P_broker
      split: if_splits mqtt_connection_status_t.splits)

lemma run_call_P: "run_call c s = Some (r, s') \<Longrightarrow> P s \<Longrightarrow> P s'"
proof (induction c arbitrary: s)
  case (Return l r)
  then show ?case using P_lw by auto
next
  case (Netif_init l k)
  obtain e s1 where e: "ethernet_init (s\<lparr>lw := l\<rparr>) = (e, s1)" by (cases "ethernet_init (s\<lparr>lw := l\<rparr>)")
  with P_callbacks(1) [OF P_lw [OF Netif_init.prems(2)], of l] have "P s1" by simp
  with Netif_init.IH [of "k e"] Netif_init.prems(1) e show ?case by simp
next
  case (Linkoutput l p k)
  then obtain e s1 where e: "enc28j60_translate p (s\<lparr>lw := l\<rparr>) = Some (e, s1)" "run_call (k e) s1 = Some (r, s')"
    by (auto split: option.splits)
  with P_translate [OF P_lw [OF Linkoutput.prems(2)]] Linkoutput.IH [of "k e"] show ?case by auto
next
  case (Dns_found l nm ip k)
  then show ?case using P_callbacks(2) [OF P_lw [OF Dns_found.prems(2)]] by (auto split: option.splits)
next
  case (Mqtt_connection l cl st k)
  then show ?case using P_callbacks(3) [OF P_lw [OF Mqtt_connection.prems(2)]] by (auto split: option.splits)
next
  case (Mqtt_incoming_publish l topic n k)
  then show ?case using P_callbacks(5) [OF P_lw [OF Mqtt_incoming_publish.prems(2)]] by auto
next
  case (Mqtt_incoming_data l data fl k)
  then show ?case using P_callbacks(4) [OF P_lw [OF Mqtt_incoming_data.prems(2)]] by auto
qed

lemma call_P: "call_lwip f s = Some (r, s') \<Longrightarrow> P s \<Longrightarrow> P s'"
  unfolding call_lwip_def by (rule run_call_P)

lemma tmr_P: "run_tmr_app e t s = Some s' \<Longrightarrow> P s \<Longrightarrow> P s'"
  by (auto simp: run_tmr_app_def bind_eq_Some_conv intro: call_P)

lemma timeouts_P: "loop_timeouts e s = Some s' \<Longrightarrow> P s \<Longrightarrow> P s'"
  by (auto simp: loop_timeouts_def bind_eq_Some_conv intro: call_P)

lemma pst_P: "P s \<Longrightarrow> P (set_pst m s)"
  unfolding set_pst_def by (rule P_lw)

end

locale timer_inv = callback_inv +
  assumes P_finer: "P s \<Longrightarrow> P (s\<lparr>u32FinerTimer := x\<rparr>)"
    and P_coarse: "P s \<Longrightarrow> P (s\<lparr>u32CoarseTimer := x\<rparr>)"
    and P_dns: "P s \<Longrightarrow> P (s\<lparr>timeForDns := y\<rparr>)"
    and P_etharp: "P s \<Longrightarrow> P (s\<lparr>timerForEtharp := y\<rparr>)"
    and P_mqtt: "P s \<Longrightarrow> P (s\<lparr>u32MqttCounter := x\<rparr>)"
    and P_led: "P s \<Longrightarrow> P (s\<lparr>GreenLED1 := z\<rparr>)"
    and P_int: "P s \<Longrightarrow> P (s\<lparr>enc28j60intCounter := x\<rparr>)"
    and P_subscribed: "P s \<Longrightarrow> P (s\<lparr>bSubscribed := z\<rparr>)"
begin

lemma connected_P:
  assumes "conn_connected e s = Some s'" and "P s"
  shows "P s'"
proof -
  obtain s1 where
    1: "(if u32MqttCounter s \<ge> 10 then do { (_, s) \<leftarrow> call_lwip (mqtt_publish e (myMqtt s) ''franzkafka''
          ''This message is coming from an alien who just landed in south Africa'' 0 0) (s\<lparr>u32MqttCounter := 0\<rparr>); Some s }
        else Some s) = Some s1"
    and 2: "(if bSubscribed s1 = False then do {
          (_, s) \<leftarrow> call_lwip (mqtt_set_inpub_callback e (myMqtt s1)) (s1\<lparr>bSubscribed := True\<rparr>);
          (_, s) \<leftarrow> call_lwip (mqtt_subscribe e (myMqtt s) ''franzkafka'' 0) s; Some s } else Some s1) = Some s'"
    using assms(1) unfolding conn_connected_def bind_eq_Some_conv by blast
  have "P s1" using 1 assms(2) by (auto simp: bind_eq_Some_conv intro: call_P P_mqtt split: if_splits)
  then show ?thesis
    using 2 by (auto simp: bind_eq_Some_conv dest!: call_P intro: P_subscribed split: if_splits)
qed

lemma timers_P:
  assumes "loop_timers e s = Some s'" and "P s"
  shows "P s'"
proof -
  obtain s1 s2 s3 where
    1: "(if u32FinerTimer s \<ge> 1 then do { s \<leftarrow> run_tmr_app e dhcp_fine_tmr (s\<lparr>u32FinerTimer := 0\<rparr>);
         Some (s\<lparr>GreenLED1 := \<not> GreenLED1 s\<rparr>) } else Some s) = Some s1"
    and 2: "(if u32CoarseTimer s1 \<ge> 120 then run_tmr_app e dhcp_coarse_tmr (s1\<lparr>u32CoarseTimer := 0\<rparr>) else Some s1) = Some s2"
    and 3: "(if timeForDns s2 \<ge> 2 \<and> enableDns s2 then run_tmr_app e dns_tmr (s2\<lparr>timeForDns := 0\<rparr>) else Some s2) = Some s3"
    and 4: "(if timerForEtharp s3 \<ge> 2 then run_tmr_app e etharp_tmr (s3\<lparr>timerForEtharp := 0\<rparr>) else Some s3) = Some s'"
    using assms(1) unfolding loop_timers_def bind_eq_Some_conv by blast
  have "P s1" using 1 assms(2) by (auto simp: bind_eq_Some_conv intro: P_led tmr_P P_finer split: if_splits)
  then have "P s2" using 2 by (auto intro: tmr_P P_coarse split: if_splits)
  then have "P s3" using 3 by (auto intro: tmr_P P_dns split: if_splits)
  then show ?thesis using 4 by (auto intro: tmr_P P_etharp split: if_splits)
qed

lemma irq_P: "P s \<Longrightarrow> P (HAL_TIM_PeriodElapsedCallback t s)" "P s \<Longrightarrow> P (HAL_GPIO_EXTI_Callback pin s)"
  by (simp_all add: HAL_TIM_PeriodElapsedCallback_def HAL_GPIO_EXTI_Callback_def
      P_lw P_finer P_coarse P_dns P_etharp P_mqtt P_int)

end

locale enc_inv = timer_inv +
  assumes P_txbusy: "P s \<Longrightarrow> P (s\<lparr>bTxBusy := z\<rparr>)"
    and P_counter: "P s \<Longrightarrow> P (s\<lparr>u32PacketCounter := x\<rparr>)"
    and P_clear: "P s \<Longrightarrow> enc28j60_clear_interrupt fl (drv s) = Some d \<Longrightarrow> P (s\<lparr>drv := d\<rparr>)"
    and P_set: "P s \<Longrightarrow> enc28j60_global_Int_Set (drv s) = Some d \<Longrightarrow> P (s\<lparr>drv := d\<rparr>)"
    and P_unset: "P s \<Longrightarrow> enc28j60_global_int_Clear (drv s) = Some d \<Longrightarrow> P (s\<lparr>drv := d\<rparr>)"
    and P_link: "P s \<Longrightarrow> enc28j60_link_change_int_clear (drv s) = Some d \<Longrightarrow> P (s\<lparr>drv := d\<rparr>)"
    and P_phir: "P s \<Longrightarrow> enc28j60_readPhyReg (PHIR (phyReg (dev (drv s)))) (drv s) = Some (w, d) \<Longrightarrow> P (s\<lparr>drv := d\<rparr>)"
    and P_eir: "P s \<Longrightarrow> enc28j60_readEtherReg (EIR (commonRegs_b0 (bank0 (dev (drv s))))) (drv s) = Some (v, d) \<Longrightarrow>
      P (s\<lparr>drv := d\<rparr>)"
    and P_receive: "P s \<Longrightarrow> enc28j60_etherReceive (drv s) = Some (b, d) \<Longrightarrow> P (s\<lparr>drv := d\<rparr>)"
begin

lemma rx_to_pbuf_P: "rx_to_pbuf e s = Some (p, s') \<Longrightarrow> P s \<Longrightarrow> P s'"
  by (auto simp: rx_to_pbuf_def ethernet_do_translation_to_pbub_def bind_eq_Some_conv Let_def
      split: option.splits intro!: pst_P)

lemma packet_P:
  assumes "on_packet e s = Some s'" and "P s"
  shows "P s'"
proof -
  obtain err d where d1: "enc28j60_etherReceive (drv s) = Some (err, d)"
    using assms(1) by (cases "enc28j60_etherReceive (drv s)") (auto simp: on_packet_def)
  obtain d' where d2: "enc28j60_clear_interrupt PKTIF d = Some d'"
    using assms(1) by (cases "enc28j60_clear_interrupt PKTIF d") (auto simp: on_packet_def d1)
  note d = d1 d2
  have p: "P (s\<lparr>drv := d'\<rparr>)"
    using P_clear [of "s\<lparr>drv := d\<rparr>" PKTIF d'] P_receive [OF assms(2) d(1)] d(2) by simp
  define t where "t = print_app DEBUG_INFO ''PKT length %d'' [uint (rxPktLen (rxPkt (dev d')))]
    ((print_app DEBUG_INFO ''PKT number %d'' [uint (u32PacketCounter s)] (s\<lparr>drv := d'\<rparr>))\<lparr>u32PacketCounter := u32PacketCounter s + 1\<rparr>)"
  have t: "P t" unfolding t_def by (intro P_print P_counter p)
  show ?thesis
  proof (cases err)
    case True
    obtain q s1 where q: "rx_to_pbuf e t = Some (q, s1)"
      and r: "(case q of None \<Rightarrow> Some s1 | Some p \<Rightarrow> do {
           (r, s) \<leftarrow> call_lwip (netif_input e p) s1;
           if r \<noteq> ERR_OK then do { (_, m) \<leftarrow> pbuf_free (pbuf_fns e) (Some p) (pst_of s); Some (set_pst m s) } else Some s }) = Some s'"
      using assms(1) True by (auto simp: on_packet_def d Let_def bind_eq_Some_conv t_def print_app_def)
    have "P s1" using rx_to_pbuf_P [OF q t] .
    with r show ?thesis
      by (auto simp: bind_eq_Some_conv split: option.splits if_splits dest!: call_P intro!: pst_P)
  next
    case False
    then show ?thesis using assms(1) p by (simp add: on_packet_def d Let_def)
  qed
qed

lemma on_drv_P:
  "on_drv (enc28j60_clear_interrupt fl) s = Some s' \<Longrightarrow> P s \<Longrightarrow> P s'"
  "on_drv enc28j60_global_Int_Set s = Some s' \<Longrightarrow> P s \<Longrightarrow> P s'"
  "on_drv enc28j60_global_int_Clear s = Some s' \<Longrightarrow> P s \<Longrightarrow> P s'"
  "on_drv enc28j60_link_change_int_clear s = Some s' \<Longrightarrow> P s \<Longrightarrow> P s'"
  "on_drv (\<lambda>d. do { (_, d) \<leftarrow> enc28j60_readPhyReg (PHIR (phyReg (dev d))) d; Some d }) s = Some s' \<Longrightarrow> P s \<Longrightarrow> P s'"
  by (auto simp: on_drv_def bind_eq_Some_conv intro: P_clear P_set P_unset P_link P_phir)

lemma flag_P: "on_flag e cnt s = Some s' \<Longrightarrow> P s \<Longrightarrow> P s'"
  unfolding on_flag_def
  by (auto simp: bind_eq_Some_conv Let_def split: if_splits
      intro: P_print dest!: on_drv_P packet_P intro!: P_txbusy)

lemma eir_loop_P: "eir_loop e cnts v s = Some s' \<Longrightarrow> P s \<Longrightarrow> P s'"
proof (induction cnts arbitrary: s)
  case (Cons c cnts)
  show ?case
  proof (cases "v AND push_bit c 1 \<noteq> 0")
    case True
    with Cons.prems(1) obtain s1 s2 s3 where "on_drv enc28j60_global_int_Clear s = Some s1"
      "on_flag e c s1 = Some s2" "on_drv enc28j60_global_Int_Set s2 = Some s3" "eir_loop e cnts v s3 = Some s'"
      by (auto simp: bind_eq_Some_conv)
    then show ?thesis using Cons.IH Cons.prems(2) on_drv_P(2,3) flag_P by blast
  next
    case False
    then show ?thesis using Cons by simp
  qed
qed simp

lemma enc_P:
  assumes "loop_enc e s = Some s'" and "P s"
  shows "P s'"
proof (cases "enc28j60intCounter s > 0")
  case True
  define s0 where "s0 = s\<lparr>enc28j60intCounter := enc28j60intCounter s - 1\<rparr>"
  obtain v d where d: "enc28j60_readEtherReg (EIR (commonRegs_b0 (bank0 (dev (drv s0))))) (drv s0) = Some (v, d)"
    and r: "eir_loop e [0 ..< 8] v (print_app DEBUG_INFO ''EIR REG --> %u'' [uint v] (s0\<lparr>drv := d\<rparr>)) = Some s'"
    using assms(1) True by (auto simp: loop_enc_def bind_eq_Some_conv s0_def simp del: upt_Suc)
  have "P s0" unfolding s0_def by (rule P_int [OF assms(2)])
  then show ?thesis using eir_loop_P [OF r] P_print P_eir d by blast
qed (use assms in \<open>simp add: loop_enc_def\<close>)

end

locale loop_inv = enc_inv +
  assumes P_enable: "P s \<Longrightarrow> P (s\<lparr>enableDns := z\<rparr>)"
    and P_reconnect: "P s \<Longrightarrow> P (s\<lparr>lastReconnectAttempt := x\<rparr>)"
    and P_state: "P s \<Longrightarrow> P (s\<lparr>myConn := c\<rparr>)"
begin

lemma conn_P:
  assumes "loop_conn e s = Some s'" and "P s"
  shows "P s'"
proof (cases "myConn s")
  case START_UP
  then show ?thesis using assms
    by (auto simp: loop_conn_def bind_eq_Some_conv split: if_splits intro!: P_state P_enable dest!: call_P)
next
  case MQTT_CONNECTED
  then show ?thesis using assms connected_P by (simp add: loop_conn_def)
next
  case DNS_IP_OBTAINED
  then show ?thesis using assms
    by (auto simp: loop_conn_def bind_eq_Some_conv Let_def split: if_splits dest!: call_P intro!: P_state P_subscribed P_reconnect)
next
  case MQTT_DISCONNECTED
  then show ?thesis using assms
    by (auto simp: loop_conn_def bind_eq_Some_conv Let_def split: if_splits dest!: call_P intro!: P_state P_subscribed P_reconnect)
qed (use assms in \<open>auto simp: loop_conn_def\<close>)

lemma block_P:
  assumes "f \<in> set (loop_blocks e)" and "f s = Some s'" and "P s"
  shows "P s'"
  using assms timers_P timeouts_P conn_P enc_P by (auto simp: loop_blocks_def)

lemma step_P: "app_step e a b \<Longrightarrow> P (snd a) \<Longrightarrow> P (snd b)"
proof (induction rule: app_step.induct)
  case (step_block i s s')
  then have "loop_blocks e ! i \<in> set (loop_blocks e)" by simp
  with step_block show ?case using block_P by fastforce
qed (simp_all add: irq_P)

lemma reach_P: "app_reach e a b \<Longrightarrow> P (snd a) \<Longrightarrow> P (snd b)"
  by (induction rule: app_reach.induct) (auto dest: step_P)

end

section \<open>Copying a frame into the driver's buffer\<close>

definition with_tx :: "u8 list \<Rightarrow> (nat \<Rightarrow> u8) \<Rightarrow> ('w, 'h, 'm, 'n) app \<Rightarrow> ('w, 'h, 'm, 'n) app" where
  "with_tx td bd s = s\<lparr>drv := (drv s)\<lparr>dev := (dev (drv s))\<lparr>txPkt := (txPkt (dev (drv s)))\<lparr>tx_data := td\<rparr>\<rparr>\<rparr>,
     behind_dev := bd\<rparr>"

lemma with_tx_frame [simp]:
  "lw (with_tx td bd s) = lw s" "pst_of (with_tx td bd s) = pst_of s" "bTxBusy (with_tx td bd s) = bTxBusy s"
  "with_tx td' bd' (with_tx td bd s) = with_tx td' bd' s" "behind_dev (with_tx td bd s) = bd"
  "tx_data (txPkt (dev (drv (with_tx td bd s)))) = td" "uart (drv (with_tx td bd s)) = uart (drv s)"
  "prog_chip log (drv (with_tx td bd s)) = prog_chip log (drv s)"
  "drv_inv cs ds rd wr dly log (drv (with_tx td bd s)) = drv_inv cs ds rd wr dly log (drv s)"
  "rxPkt (dev (drv (with_tx td bd s))) = rxPkt (dev (drv s))"
  by (simp_all add: with_tx_def pst_of_def prog_chip_def drv_inv_def wired_def)

definition put_at :: "nat \<Rightarrow> u8 list \<Rightarrow> nat \<Rightarrow> u8 \<Rightarrow> u8" where
  "put_at off bs i old = (if off \<le> i \<and> i < off + length bs then bs ! (i - off) else old)"

lemma tx_store_eq:
  "tx_store off bs s = with_tx (map (\<lambda>i. put_at off bs i (tx_data (txPkt (dev (drv s))) ! i)) [0 ..< 1500])
     (\<lambda>i. put_at off bs (i + 1500) (behind_dev s i)) s"
  by (simp add: tx_store_def with_tx_def put_at_def Let_def)

lemma put_at_append: "put_at (off + length bs) cs i (put_at off bs i x) = put_at off (bs @ cs) i x"
  by (auto simp: put_at_def nth_append)

lemma tx_store_store: "tx_store (off + length bs) cs (tx_store off bs s) = tx_store off (bs @ cs) s"
proof -
  have m: "map (\<lambda>i. put_at (off + length bs) cs i (map (\<lambda>i. put_at off bs i (xs ! i)) [0 ..< 1500] ! i)) [0 ..< 1500] =
      map (\<lambda>i. put_at off (bs @ cs) i (xs ! i)) [0 ..< 1500]" for xs
    by (rule nth_equalityI) (simp_all add: put_at_append)
  show ?thesis unfolding tx_store_eq with_tx_frame put_at_append m ..
qed

lemma put_at_Nil [simp]: "put_at off [] i x = x"
  by (auto simp: put_at_def)

lemma tx_store_Nil: "length (tx_data (txPkt (dev (drv s)))) = 1500 \<Longrightarrow> tx_store off [] s = s"
  using map_nth [of "tx_data (txPkt (dev (drv s)))"] by (simp add: tx_store_eq) (simp add: with_tx_def)

lemma tx_window_store [simp]: "tx_window (length bs) (tx_store 0 bs s) = bs"
  by (rule nth_equalityI) (simp_all add: tx_window_def tx_store_eq put_at_def)

text \<open>The loop writes the content of the chain at once.\<close>

lemma tx_copy_loop_content:
  assumes "chain (pst_of s) q as" and "unat off + length (content (pst_of s) as) < 65536"
    and "length (tx_data (txPkt (dev (drv s)))) = 1500"
  shows "tx_copy_loop q off s = Some (off + of_nat (length (content (pst_of s) as)),
    tx_store (unat off) (content (pst_of s) as) s)"
  using assms
proof (induction as arbitrary: q off s)
  case Nil
  then show ?case by (simp add: tx_copy_loop.simps tx_store_Nil)
next
  case (Cons a as)
  obtain b where b: "q = Some a" "pbufs (pst_of s) a = Some b" "chain (pst_of s) (nxt b) as"
    using Cons.prems(1) by (rule chain_ConsE)
  define bs where "bs = seg (pst_of s) a"
  have bs: "bs = get_bytes (payload b) (unat (len b)) (bytes (pst_of s))" "length bs = unat (len b)"
    by (simp_all add: bs_def seg_def b(2))
  let ?s = "tx_store (unat off) bs s"
  have o: "unat (off + len b) = unat off + length bs"
    using Cons.prems(2) bs(2) by (simp add: bs_def unat_u16_plus)
  have p: "pst_of ?s = pst_of s" "length (tx_data (txPkt (dev (drv ?s)))) = 1500"
    by (simp_all add: tx_store_eq)
  have "tx_copy_loop (nxt b) (off + len b) ?s = Some (off + len b + of_nat (length (content (pst_of s) as)),
      tx_store (unat off + length bs) (content (pst_of s) as) ?s)"
    using Cons.IH [of ?s "nxt b" "off + len b"] b(3) Cons.prems(2) p o by (simp add: bs_def)
  then show ?case
    using bs(2) unfolding tx_store_store by (subst tx_copy_loop.simps) (simp add: b(1,2) bs(1) [symmetric] Let_def flip: bs_def)
qed

text \<open>Whatever the chain is, nothing but the buffer and the memory behind it is written.\<close>

lemma tx_copy_loop_frame:
  assumes "tx_copy_loop q off s = Some (off', s')" and "length (tx_data (txPkt (dev (drv s)))) = 1500"
  shows "\<exists>td bd. s' = with_tx td bd s \<and> length td = 1500"
proof -
  let ?P = "\<lambda>q off s r. length (tx_data (txPkt (dev (drv s)))) = 1500 \<longrightarrow>
      (\<exists>td bd. snd r = with_tx td bd s \<and> length td = 1500)"
  have "?P q off s (off', s')"
  proof (rule tx_copy_loop.raw_induct [where P = ?P, OF _ assms(1)])
    fix f :: "nat option \<Rightarrow> u16 \<Rightarrow> ('a, 'b, 'c, 'd) app \<Rightarrow> (u16 \<times> ('a, 'b, 'c, 'd) app) option" and q off s r
    assume IH: "\<And>q off s r. f q off s = Some r \<Longrightarrow> ?P q off s r"
      and e: "(case q of None \<Rightarrow> Some (off, s) | Some a \<Rightarrow> do {
         b \<leftarrow> pbufs (pst_of s) a;
         let s = tx_store (unat off) (get_bytes (payload b) (unat (len b)) (bytes (pst_of s))) s;
         f (nxt b) (off + len b) s }) = Some r"
    show "?P q off s r"
    proof (cases q)
      case None
      then have "snd r = with_tx (tx_data (txPkt (dev (drv s)))) (behind_dev s) s"
        using e by (auto simp: with_tx_def)
      then show ?thesis by blast
    next
      case (Some a)
      obtain b where b: "pbufs (pst_of s) a = Some b"
        using e Some by (cases "pbufs (pst_of s) a") simp_all
      define s1 where "s1 = tx_store (unat off) (get_bytes (payload b) (unat (len b)) (bytes (pst_of s))) s"
      then have s1: "s1 = tx_store (unat off) (get_bytes (payload b) (unat (len b)) (bytes (pst_of s))) s"
        "f (nxt b) (off + len b) s1 = Some r"
        using e Some b by (simp_all add: Let_def)
      have "length (tx_data (txPkt (dev (drv s1)))) = 1500" by (simp add: s1(1) tx_store_eq)
      with IH [OF s1(2)] show ?thesis by (auto simp: s1(1) tx_store_eq)
    qed
  qed
  with assms(2) show ?thesis by simp
qed

definition app_ok where
  "app_ok cs ds rd wr dly log s \<longleftrightarrow> drv_ok cs ds rd wr dly log (drv s)"

lemma app_ok_with_tx: "app_ok cs ds rd wr dly log s \<Longrightarrow> length td = 1500 \<Longrightarrow> app_ok cs ds rd wr dly log (with_tx td bd s)"
  by (simp add: app_ok_def drv_ok_def)

lemma translate_ok:
  assumes b: "spi_bus cs ds rd wr dly log" and o: "app_ok cs ds rd wr dly log s"
    and t: "enc28j60_translate p s = Some (e, s')"
  shows "app_ok cs ds rd wr dly log s'"
proof (cases "bTxBusy s")
  case True
  then show ?thesis using o t by (auto simp: enc28j60_translate_def app_ok_def print_app_def)
next
  case False
  define s0 where "s0 = print_app DEBUG_INFO ''TX started!'' [] s"
  obtain bf where bf: "pbufs (pst_of s0) p = Some bf"
    using t False by (cases "pbufs (pst_of s0) p") (simp_all add: enc28j60_translate_def Let_def s0_def)
  obtain off s1 where c: "tx_copy_loop (Some p) 0 s0 = Some (off, s1)"
    using t False bf by (cases "tx_copy_loop (Some p) 0 s0") (auto simp: enc28j60_translate_def Let_def s0_def)
  have r: "(if off \<noteq> tot_len bf then Some (ERR_BUF, s1) else do {
        (_, d) \<leftarrow> enc28j60_etherTransmit (tx_window (unat (tot_len bf)) s1) (tot_len bf) (drv s1);
        Some (ERR_OK, s1\<lparr>drv := d, bTxBusy := True\<rparr>) }) = Some (e, s')"
    using t False bf c by (simp add: enc28j60_translate_def Let_def s0_def [symmetric])
  have o0: "app_ok cs ds rd wr dly log s0" using o by (simp add: s0_def app_ok_def print_app_def)
  then obtain td bd where s1: "s1 = with_tx td bd s0" "length td = 1500"
    using tx_copy_loop_frame [OF c] by (auto simp: app_ok_def drv_ok_def)
  have o1: "drv_ok cs ds rd wr dly log (drv s1)"
    using app_ok_with_tx [OF o0 s1(2)] by (simp add: s1(1) app_ok_def)
  have "length (tx_window (unat (tot_len bf)) s1) < 2 ^ 16"
    using unat_u16_less by (simp add: tx_window_def)
  with r o1 show ?thesis
    using spi_bus.ok_transmit [OF b o1] by (auto simp: bind_eq_Some_conv app_ok_def split: if_splits)
qed

lemma app_ok_loop:
  assumes b: "spi_bus cs ds rd wr dly log"
  shows "loop_inv (app_ok cs ds rd wr dly log)"
proof unfold_locales
  fix s :: "('a, 'b, 'c, 'd) app" and p e s'
  show "app_ok cs ds rd wr dly log s \<Longrightarrow> enc28j60_translate p s = Some (e, s') \<Longrightarrow> app_ok cs ds rd wr dly log s'"
    by (rule translate_ok [OF b])
next
  fix s :: "('a, 'b, 'c, 'd) app" and fl d w v
  assume o: "app_ok cs ds rd wr dly log s"
  then have k: "drv_ok cs ds rd wr dly log (drv s)" by (simp add: app_ok_def)
  note f = spi_bus.ok_flags [OF b k]
  show "app_ok cs ds rd wr dly log (s\<lparr>drv := d\<rparr>)" if "enc28j60_clear_interrupt fl (drv s) = Some d"
    using f(1) [of fl] that by (auto simp: app_ok_def)
  show "app_ok cs ds rd wr dly log (s\<lparr>drv := d\<rparr>)" if "enc28j60_global_Int_Set (drv s) = Some d"
    using f(2) that by (auto simp: app_ok_def)
  show "app_ok cs ds rd wr dly log (s\<lparr>drv := d\<rparr>)" if "enc28j60_global_int_Clear (drv s) = Some d"
    using f(3) that by (auto simp: app_ok_def)
  show "app_ok cs ds rd wr dly log (s\<lparr>drv := d\<rparr>)" if "enc28j60_link_change_int_clear (drv s) = Some d"
    using f(4) that by (auto simp: app_ok_def)
  show "app_ok cs ds rd wr dly log (s\<lparr>drv := d\<rparr>)"
    if "enc28j60_readPhyReg (PHIR (phyReg (dev (drv s)))) (drv s) = Some (w, d)"
    using spi_bus.ok_readPhyReg [OF b k that] by (simp add: app_ok_def)
  show "app_ok cs ds rd wr dly log (s\<lparr>drv := d\<rparr>)"
    if "enc28j60_readEtherReg (EIR (commonRegs_b0 (bank0 (dev (drv s))))) (drv s) = Some (v, d)"
    using spi_bus.ok_readEIR [OF b k] that spi_bus.ok_common(2) [OF b k] by (simp add: app_ok_def)
  show "app_ok cs ds rd wr dly log (s\<lparr>drv := d\<rparr>)" if "enc28j60_etherReceive (drv s) = Some (bb, d)" for bb
    using spi_bus.ok_receive [OF b k that] by (simp add: app_ok_def)
qed (simp_all add: app_ok_def print_app_def)

interpretation brd_app: loop_inv "app_ok (brd_cs dv) (brd_ds dv) (brd_rd dv) (brd_wr dv) (brd_dly dv) brd_log" for dv
  by (rule app_ok_loop [OF brd_bus])

section \<open>Single variables\<close>

text \<open>Nothing but \<open>loop_conn\<close> writes \<open>lastReconnectAttempt\<close>, and only it leads to the two states below.\<close>

lemma translate_frame:
  assumes "enc28j60_translate p s = Some (e, s')"
  shows "lastReconnectAttempt s' = lastReconnectAttempt s \<and> myConn s' = myConn s \<and> lw s' = lw s"
proof -
  have loop: "lastReconnectAttempt s1 = lastReconnectAttempt s0 \<and> myConn s1 = myConn s0 \<and> lw s1 = lw s0"
    if "tx_copy_loop q off s0 = Some (off', s1)" for q off off' and s0 s1 :: "('a, 'b, 'c, 'd) app"
  proof -
    let ?P = "\<lambda>q off s r. lastReconnectAttempt (snd r) = lastReconnectAttempt s \<and> myConn (snd r) = myConn s \<and> lw (snd r) = lw s"
    have "?P q off s0 (off', s1)"
      by (rule tx_copy_loop.raw_induct [where P = ?P, OF _ that])
        (auto simp: bind_eq_Some_conv Let_def tx_store_def split: option.splits)
    then show ?thesis by simp
  qed
  then show ?thesis
    using assms by (auto simp: enc28j60_translate_def bind_eq_Some_conv Let_def print_app_def
        dest!: loop split: if_splits)
qed

interpretation reconnect: enc_inv "\<lambda>s. lastReconnectAttempt s = x" for x
  by unfold_locales (auto simp: print_app_def translate_frame)

definition free_states :: "Connection_State set" where
  "free_states = {DNS_IP_OBTAINED, MQTT_CONNECTED, MQTT_DISCONNECTED}"

interpretation conn: enc_inv "\<lambda>s. myConn s = c \<or> myConn s \<in> free_states" for c
  by unfold_locales (auto simp: print_app_def translate_frame free_states_def)

end
