(* ===== verification/App_Properties.thy ===== *)
theory App_Properties
  imports App_Spec
begin

text \<open>
  The properties of the application, with their witnesses on the board of \<open>Spi_Board\<close> and an lwIP that
  does nothing, or notes which of its timers are called.
\<close>

section \<open>States for the witnesses\<close>

definition net0 :: netif where
  "net0 = \<lparr>netif_name = '''', netif_flags = 0, netif_mtu = 0, netif_output = None, netif_linkoutput = None,
     netif_hwaddr_len = 0, netif_hwaddr = [], netif_hostname = ''''\<rparr>"

definition broker0 :: mqttBrokerDetails where
  "broker0 = \<lparr>broker_name = ''broker.emqx.io'', broker_ip = 0, broker_user = '''', broker_password = ''''\<rparr>"

definition app0 :: "'w sys \<Rightarrow> 'm pst \<Rightarrow> ('w, nat, 'm, cyclic_handler list) app" where
  "app0 d m = \<lparr>drv = d, behind_dev = (\<lambda>_. 0),
     lw = \<lparr>next_timeout = [], current_timeout_due_time = 0, tcpip_tcp_timer_active = False,
       memp_avail = MEMP_NUM_SYS_TIMEOUT, millisec = 0, stack = (m, [])\<rparr>,
     mqttBroker = broker0, enc28j60intCounter = 0, u32FinerTimer = 0, u32CoarseTimer = 0, timeForDns = 0,
     timerForEtharp = 0, u32MqttCounter = 0, my_netif = net0, myConn = START_UP, myMqtt = Some 1,
     bSubscribed = False, rx_bytes = 0, lastReconnectAttempt = 0, bTxBusy = False, enableDns = False,
     u32PacketCounter = 0, GreenLED1 = False\<rparr>"

definition lwip0 :: "(nat, unit, cyclic_handler list) lwip" where
  "lwip0 = \<lparr>pbuf_fns = no_heap, lwip_init = (\<lambda>l. Return l ()), netif_add_noaddr = (\<lambda>l. Return l ()),
     netif_set_addr = (\<lambda>_ _ _ l. Return l ()), netif_set_default = (\<lambda>l. Return l ()),
     netif_set_up = (\<lambda>l. Return l ()), dhcp_set_struct = (\<lambda>l. Return l ()),
     dhcp_start = (\<lambda>l. Return l ERR_OK), mqtt_client_new = (\<lambda>l. Return l (Some 1)),
     run_tmr = (\<lambda>t l. Return (l\<lparr>stack := (fst (stack l), snd (stack l) @ [t])\<rparr>) ()),
     run_timeouts = (\<lambda>l. Return l ()), dhcp_supplied_address = (\<lambda>_. True),
     dns_init = (\<lambda>l. Return l ()), dns_setserver = (\<lambda>_ _ l. Return l ()),
     dns_gethostbyname = (\<lambda>_ l. Return l ERR_INPROGRESS),
     mqtt_client_connect = (\<lambda>_ _ _ _ l. Return l ERR_OK), mqtt_client_is_connected = (\<lambda>_ _. 0),
     mqtt_publish = (\<lambda>_ _ _ _ _ l. Return l ERR_OK), mqtt_set_inpub_callback = (\<lambda>_ l. Return l ()),
     mqtt_subscribe = (\<lambda>_ _ _ l. Return l ERR_OK), netif_input = (\<lambda>_ l. Return l ERR_OK)\<rparr>"

lemma app0_simps [simp]:
  "drv (app0 d m) = d" "pst_of (app0 d m) = m" "bTxBusy (app0 d m) = False" "myConn (app0 d m) = START_UP"
  "behind_dev (app0 d m) = (\<lambda>_. 0)"
  by (simp_all add: app0_def pst_of_def)

lemma brd_drv_ok:
  "drv_ok (brd_cs dv) (brd_ds dv) (brd_rd dv) (brd_wr dv) (brd_dly dv) brd_log (brd_sys dv)"
  using brd_sys_inv [of dv] autoinc_power_on [of dv]
  by (simp add: drv_ok_def brd_sys_simps) (simp add: brd_sys_def enc28j60_initDr_def dev_init_def rxPkt_init_def txPkt_init_def)

lemma brd_app_ok: "app_ok (brd_cs dv) (brd_ds dv) (brd_rd dv) (brd_wr dv) (brd_dly dv) brd_log (app0 (brd_sys dv) m)"
  by (simp add: app_ok_def brd_drv_ok)

section \<open>The whole program\<close>

text \<open>
  C1: whatever lwIP does in its calls and callbacks and whenever the interrupts come, in every
  state the program reaches the driver's invariant holds (structure wired and constant, chip idle, cached
  bank or bank 0 selected), AUTOINC is on and the packet arrays have their sizes.
\<close>

theorem app_reach_inv:
  assumes "spi_bus cs ds rd wr dly log" and "app_ok cs ds rd wr dly log s" and "app_reach e (i, s) (j, s')"
  shows "drv_inv cs ds rd wr dly log (drv s') \<and> autoinc (prog_chip log (drv s')) \<and>
    length (rx_data (rxPkt (dev (drv s')))) = 1500 \<and> length (tx_data (txPkt (dev (drv s')))) = 1500"
proof -
  have "app_ok cs ds rd wr dly log s'"
    using loop_inv.reach_P [OF app_ok_loop [OF assms(1)] assms(3)] assms(2) by simp
  then show ?thesis by (simp add: app_ok_def drv_ok_def)
qed

theorem app_reach_inv_witness:
  "\<exists>s. app_reach lwip0 (0, app0 (brd_sys chip_device) pool3) (0, s) \<and> u32FinerTimer s = 1 \<and>
     autoinc (prog_chip brd_log (drv s))"
proof -
  let ?s = "HAL_TIM_PeriodElapsedCallback TIM2 (app0 (brd_sys chip_device) pool3)"
  have r: "app_reach lwip0 (0, app0 (brd_sys chip_device) pool3) (0, ?s)"
    by (rule reach_more [OF reach_here step_tick])
  have "u32FinerTimer ?s = 1" by (simp add: HAL_TIM_PeriodElapsedCallback_def app0_def)
  with r app_reach_inv [OF brd_bus brd_app_ok r] show ?thesis by blast
qed

text \<open>The connection machine of the source.\<close>

definition conn_next :: "Connection_State \<Rightarrow> Connection_State \<Rightarrow> bool" where
  "conn_next c c' \<longleftrightarrow> c' = c \<or> c' \<in> {DNS_IP_OBTAINED, MQTT_CONNECTED, MQTT_DISCONNECTED} \<or>
     c = START_UP \<and> c' = DHCP_IP_RECEIVED \<or> c \<in> {DNS_IP_OBTAINED, MQTT_DISCONNECTED} \<and> c' = MQTT_CONNECTING"

lemma conn_nextI: "c' = c \<or> c' \<in> free_states \<Longrightarrow> conn_next c c'"
  by (auto simp: conn_next_def free_states_def)

lemma irq_frame [simp]:
  "myConn (HAL_TIM_PeriodElapsedCallback t s) = myConn s" "myConn (HAL_GPIO_EXTI_Callback pin s) = myConn s"
  "lastReconnectAttempt (HAL_TIM_PeriodElapsedCallback t s) = lastReconnectAttempt s"
  "lastReconnectAttempt (HAL_GPIO_EXTI_Callback pin s) = lastReconnectAttempt s"
  by (simp_all add: HAL_TIM_PeriodElapsedCallback_def HAL_GPIO_EXTI_Callback_def)

text \<open>The branch that connects to the broker.\<close>

lemma loop_conn_connect:
  assumes "myConn s \<in> {DNS_IP_OBTAINED, MQTT_DISCONNECTED}" and "loop_conn e s = Some s'"
  shows "s' = s \<or> sys_now (lw s) - lastReconnectAttempt s > 3000 \<and>
    (\<exists>r s1. call_lwip (mqtt_client_connect e (myMqtt s) (broker_ip (mqttBroker s)) 1883 myInfo)
         (s\<lparr>lastReconnectAttempt := sys_now (lw s)\<rparr>) = Some (r, s1) \<and>
       s' = (if ERR_OK = r then s1\<lparr>myConn := MQTT_CONNECTING, bSubscribed := False\<rparr> else s1))"
proof (cases "sys_now (lw s) - lastReconnectAttempt s > 3000")
  case True
  let ?c = "call_lwip (mqtt_client_connect e (myMqtt s) (broker_ip (mqttBroker s)) 1883 myInfo)
    (s\<lparr>lastReconnectAttempt := sys_now (lw s)\<rparr>)"
  have e: "loop_conn e s = do { (r, s1) \<leftarrow> ?c;
      if ERR_OK = r then Some (s1\<lparr>myConn := MQTT_CONNECTING, bSubscribed := False\<rparr>) else Some s1 }"
    using assms(1) True by (elim insertE) (simp_all add: loop_conn_def Let_def)
  then obtain r s1 where c: "?c = Some (r, s1)"
    using assms(2) by (cases ?c) auto
  have "s' = (if ERR_OK = r then s1\<lparr>myConn := MQTT_CONNECTING, bSubscribed := False\<rparr> else s1)"
    using assms(2) unfolding e c by (simp split: if_splits)
  with c True show ?thesis by blast
qed (use assms in \<open>auto simp: loop_conn_def\<close>)

lemma loop_conn_next:
  assumes "loop_conn e s = Some s'"
  shows "conn_next (myConn s) (myConn s')"
proof (cases "myConn s")
  case START_UP
  with assms show ?thesis by (auto simp: loop_conn_def bind_eq_Some_conv conn_next_def split: if_splits)
next
  case MQTT_CONNECTED
  with assms have "myConn s' = MQTT_CONNECTED \<or> myConn s' \<in> free_states"
    using conn.connected_P [where c = MQTT_CONNECTED, of e s s'] by (simp add: loop_conn_def)
  then show ?thesis by (simp add: MQTT_CONNECTED conn_nextI)
next
  case DNS_IP_OBTAINED
  then show ?thesis
    using loop_conn_connect [OF _ assms] conn.call_P [where c = DNS_IP_OBTAINED]
    by (fastforce simp: conn_next_def free_states_def)
next
  case MQTT_DISCONNECTED
  then show ?thesis
    using loop_conn_connect [OF _ assms] conn.call_P [where c = MQTT_DISCONNECTED]
    by (fastforce simp: conn_next_def free_states_def)
qed (use assms in \<open>auto simp: loop_conn_def conn_next_def split: if_splits\<close>)

text \<open>
  C11: one step of the program, whatever callbacks it makes, changes the connection state
  only along the machine of the source: to the states the callbacks set, from \<open>START_UP\<close> to
  \<open>DHCP_IP_RECEIVED\<close>, and from \<open>DNS_IP_OBTAINED\<close> or \<open>MQTT_DISCONNECTED\<close> to \<open>MQTT_CONNECTING\<close>, also when a
  callback came first.
\<close>

theorem conn_transitions:
  assumes "app_step e (i, s) (j, s')"
  shows "conn_next (myConn s) (myConn s')"
  using assms
proof (cases rule: app_step_cases)
  case 3
  then show ?thesis by (rule loop_conn_next)
qed (auto intro: conn_nextI dest: conn.timers_P [where c = "myConn s"] conn.timeouts_P [where c = "myConn s"]
    conn.enc_P [where c = "myConn s"])

theorem conn_transitions_witness:
  "\<exists>s'. app_step lwip0 (2, app0 (brd_sys chip_device) pool3) (3, s') \<and> myConn s' = DHCP_IP_RECEIVED \<and>
     conn_next START_UP DHCP_IP_RECEIVED"
proof -
  let ?s = "app0 (brd_sys chip_device) pool3"
  obtain s' where s': "loop_conn lwip0 ?s = Some s'" "myConn s' = DHCP_IP_RECEIVED"
    by (simp add: loop_conn_def call_lwip_def lwip0_def)
  then have "app_step lwip0 (2, ?s) (Suc 2 mod 4, s')"
    by (intro step_block) (simp_all add: loop_blocks_def)
  then have a: "app_step lwip0 (2, ?s) (3, s')" by simp
  from conn_transitions [OF a] s'(2) have "conn_next START_UP DHCP_IP_RECEIVED" by simp
  with a s'(2) show ?thesis by blast
qed




section \<open>Timers of the loop\<close>

text \<open>An lwIP whose timer functions note that they were called.\<close>

definition notes_timers :: "('h, 'm, cyclic_handler list) lwip \<Rightarrow> bool" where
  "notes_timers e \<longleftrightarrow> (\<forall>t l. run_tmr e t l = Return (l\<lparr>stack := (fst (stack l), snd (stack l) @ [t])\<rparr>) ())"

definition calls_of :: "('w, 'h, 'm, cyclic_handler list) app \<Rightarrow> cyclic_handler list" where
  "calls_of s = snd (stack (lw s))"

text \<open>\<open>n\<close> periods of TIM2, each followed by one pass of the loop through the timers.\<close>

fun rounds :: "('h, 'm, 'n) lwip \<Rightarrow> nat \<Rightarrow> ('w, 'h, 'm, 'n) app \<Rightarrow> ('w, 'h, 'm, 'n) app option" where
  "rounds e 0 s = Some s"
| "rounds e (Suc n) s = do { s \<leftarrow> rounds e n s; loop_timers e (HAL_TIM_PeriodElapsedCallback TIM2 s) }"

lemma run_tmr_notes:
  "notes_timers e \<Longrightarrow> run_tmr_app e t s = Some (s\<lparr>lw := (lw s)\<lparr>stack := (fst (stack (lw s)), calls_of s @ [t])\<rparr>\<rparr>)"
  by (simp add: run_tmr_app_def call_lwip_def notes_timers_def calls_of_def)

lemma Suc_mod_step: "0 < k \<Longrightarrow> Suc n mod k = (if Suc (n mod k) = k then 0 else Suc (n mod k))"
  "0 < k \<Longrightarrow> Suc n div k = (if Suc (n mod k) = k then Suc (n div k) else n div k)"
  by (simp_all add: mod_Suc div_Suc)

definition timers_at :: "nat \<Rightarrow> ('w, 'h, 'm, cyclic_handler list) app \<Rightarrow> bool" where
  "timers_at n s \<longleftrightarrow> u32FinerTimer s = 0 \<and> u32CoarseTimer s = of_nat (n mod 120) \<and>
     timerForEtharp s = of_nat (n mod 2) \<and> (enableDns s \<longrightarrow> timeForDns s = of_nat (n mod 2)) \<and>
     count_list (calls_of s) dhcp_fine_tmr = n \<and> count_list (calls_of s) dhcp_coarse_tmr = n div 120 \<and>
     count_list (calls_of s) etharp_tmr = n div 2 \<and>
     (enableDns s \<longrightarrow> count_list (calls_of s) dns_tmr = n div 2) \<and>
     (\<not> enableDns s \<longrightarrow> count_list (calls_of s) dns_tmr = 0)"

lemma timers_round:
  assumes e: "notes_timers e" and t: "timers_at n s"
  shows "\<exists>s'. loop_timers e (HAL_TIM_PeriodElapsedCallback TIM2 s) = Some s' \<and> timers_at (Suc n) s' \<and>
    enableDns s' = enableDns s \<and> sys_now (lw s') = sys_now (lw s) + 500"
proof -
  note t' = t [unfolded timers_at_def]
  have c: "(of_nat (n mod 120) + 1 :: u32) \<ge> 120 \<longleftrightarrow> Suc (n mod 120) = 120"
    "(of_nat (n mod 2) + 1 :: u8) \<ge> 2 \<longleftrightarrow> Suc (n mod 2) = 2"
  proof -
    have "n mod 120 < 120" by simp
    then have "unat (of_nat (Suc (n mod 120)) :: u32) = Suc (n mod 120)"
      unfolding unat_of_nat by (intro mod_less) simp
    then have "unat (of_nat (n mod 120) + 1 :: u32) = Suc (n mod 120)" by (simp add: add.commute)
    moreover have "n mod 120 < 120" by simp
    ultimately show "(of_nat (n mod 120) + 1 :: u32) \<ge> 120 \<longleftrightarrow> Suc (n mod 120) = 120"
      by (auto simp: word_le_nat_alt)
    have "n mod 2 = 0 \<or> n mod 2 = 1" by auto
    then show "(of_nat (n mod 2) + 1 :: u8) \<ge> 2 \<longleftrightarrow> Suc (n mod 2) = 2"
      by (auto simp: word_le_nat_alt)
  qed
  have two: "\<not> (2 :: u8) \<le> 1" by (simp add: word_le_nat_alt)
  show ?thesis
    using t' e two
    by (cases "enableDns s")
      (auto simp: loop_timers_def run_tmr_notes HAL_TIM_PeriodElapsedCallback_def c Suc_mod_step calls_of_def
        timers_at_def sys_now_def sys_now_increment_def)
qed

lemma rounds_timers:
  assumes "notes_timers e" and "timers_at 0 s"
  shows "\<exists>s'. rounds e n s = Some s' \<and> timers_at n s' \<and> enableDns s' = enableDns s \<and>
    sys_now (lw s') = sys_now (lw s) + of_nat (500 * n)"
proof (induction n)
  case (Suc n)
  then obtain s1 where s1: "rounds e n s = Some s1" "timers_at n s1" "enableDns s1 = enableDns s"
    "sys_now (lw s1) = sys_now (lw s) + of_nat (500 * n)" by blast
  then show ?case using timers_round [OF assms(1) s1(2)] by (auto simp: algebra_simps)
qed (use assms(2) in simp)

text \<open>
  When the loop runs once in every period of TIM2, then after \<open>n\<close> periods the clock has
  advanced by 500 ms each, the fine DHCP timer has run \<open>n\<close> times, the coarse one every 120 periods (60 s),
  the ARP timer every second period (1 s), and the DNS timer as often if DNS is enabled, else never.
\<close>

theorem timer_rates:
  assumes "notes_timers e" and "calls_of s = []" and "u32FinerTimer s = 0" and "u32CoarseTimer s = 0"
    and "timerForEtharp s = 0" and "timeForDns s = 0"
  shows "\<exists>s'. rounds e n s = Some s' \<and> sys_now (lw s') = sys_now (lw s) + of_nat (500 * n) \<and>
    count_list (calls_of s') dhcp_fine_tmr = n \<and> count_list (calls_of s') dhcp_coarse_tmr = n div 120 \<and>
    count_list (calls_of s') etharp_tmr = n div 2 \<and>
    count_list (calls_of s') dns_tmr = (if enableDns s then n div 2 else 0)"
proof -
  have "timers_at 0 s" using assms(2-6) by (simp add: timers_at_def)
  from rounds_timers [OF assms(1) this, of n] show ?thesis by (auto simp: timers_at_def)
qed

theorem timer_rates_witness:
  "\<exists>s'. rounds lwip0 1000 (app0 (brd_sys chip_device) pool3) = Some s' \<and>
     count_list (calls_of s') dhcp_coarse_tmr = 8 \<and> sys_now (lw s') = 500000"
proof -
  let ?s = "app0 (brd_sys chip_device) pool3"
  have n: "notes_timers lwip0" by (simp add: notes_timers_def lwip0_def)
  have z: "calls_of ?s = []" "u32FinerTimer ?s = 0" "u32CoarseTimer ?s = 0" "timerForEtharp ?s = 0" "timeForDns ?s = 0"
    by (simp_all add: app0_def calls_of_def)
  have c: "sys_now (lw ?s) = 0" by (simp add: app0_def sys_now_def)
  obtain s' where s': "rounds lwip0 1000 ?s = Some s'" and k: "sys_now (lw s') = sys_now (lw ?s) + of_nat (500 * 1000)"
    and d: "count_list (calls_of s') dhcp_coarse_tmr = 1000 div 120"
    using timer_rates [OF n z, of 1000] by blast
  have "count_list (calls_of s') dhcp_coarse_tmr = 8" unfolding d by simp
  moreover have "sys_now (lw s') = 500000" unfolding k c by simp
  ultimately show ?thesis using s' by blast
qed

section \<open>Incoming messages\<close>

lemma data_fragments:
  assumes "\<forall>d \<in> set ds. length d < 2 ^ 16"
  shows "fold (\<lambda>d. mqtt_data_cb d 0) ds s = s\<lparr>rx_bytes := rx_bytes s + of_nat (sum_list (map length ds))\<rparr>"
  using assms
proof (induction ds arbitrary: s)
  case (Cons d ds)
  have "ucast (of_nat (length d) :: u16) = (of_nat (length d) :: u32)"
    using Cons.prems by (intro word_unat_eq_iff [THEN iffD2]) (simp add: unsigned_ucast_eq unat_of_nat take_bit_nat_eq_self)
  then show ?case using Cons by (simp add: mqtt_data_cb_def Let_def ac_simps)
qed simp

text \<open>
  When the fragments of a published message arrive, the last one flagged, the one
  message printed gives the sum of their lengths (modulo 2^32), and the count is zero again for the next
  message.
\<close>

theorem mqtt_message_bytes:
  assumes "rx_bytes s = 0" and "\<forall>d \<in> set (ds @ [d]). length d < 2 ^ 16"
  shows "let s' = mqtt_data_cb d 1 (fold (\<lambda>d. mqtt_data_cb d 0) ds s) in
    rx_bytes s' = 0 \<and> uart (drv s') = uart (drv s) @ [(DEBUG_INFO, ''MQTT message complete: %lu bytes'' @ crlf,
      [int (sum_list (map length (ds @ [d])) mod 2 ^ 32)])] \<and> dev (drv s') = dev (drv s)"
proof -
  define t where "t = fold (\<lambda>d. mqtt_data_cb d 0) ds s"
  have t: "t = s\<lparr>rx_bytes := of_nat (sum_list (map length ds))\<rparr>"
    using data_fragments [of ds s] assms by (simp add: t_def)
  have u: "ucast (of_nat (length d) :: u16) = (of_nat (length d) :: u32)"
    using assms(2) by (intro word_unat_eq_iff [THEN iffD2]) (simp add: unsigned_ucast_eq unat_of_nat take_bit_nat_eq_self)
  have k: "uint (of_nat k :: u32) = int (k mod 2 ^ 32)" for k
    by (simp add: unsigned_of_nat take_bit_eq_mod zmod_int)
  have "uint (of_nat (sum_list (map length ds)) + of_nat (length d) :: u32) = int (sum_list (map length (ds @ [d])) mod 2 ^ 32)"
    using k [of "sum_list (map length (ds @ [d]))"] by simp
  then show ?thesis
    unfolding Let_def t_def [symmetric]
    by (simp add: mqtt_data_cb_def Let_def print_app_def dMesgPrint_def t u)
qed

theorem mqtt_message_bytes_witness:
  "let s' = mqtt_data_cb [3] 1 (fold (\<lambda>d. mqtt_data_cb d 0) [[1, 2], [4, 5]] (app0 (brd_sys chip_device) pool3)) in
     rx_bytes s' = 0 \<and> uart (drv s') = uart (brd_sys chip_device) @
       [(DEBUG_INFO, ''MQTT message complete: %lu bytes'' @ crlf, [5])]"
  using mqtt_message_bytes [of "app0 (brd_sys chip_device) pool3" "[[1, 2], [4, 5]]" "[3]"]
  by (simp add: Let_def app0_def)

end
