(* ===== verification/App_Frames.thy ===== *)
theory App_Frames
  imports App_Properties
begin

text \<open>
  Frames through the application: what \<open>enc28j60_translate\<close> puts into the chip, what reaches \<open>netif_input\<close>
  when a packet is pending, how the interrupt flags are served and which address the interface gets.
\<close>

section \<open>Sending\<close>

lemma translate_steps:
  assumes b: "spi_bus cs ds rd wr dly log" and o: "app_ok cs ds rd wr dly log s" and n: "\<not> bTxBusy s"
    and c: "chain (pst_of s) (Some p) (p # as)" "tot_ok (pst_of s) (p # as)" and l: "length (content (pst_of s) (p # as)) \<le> 2047"
  obtains s1 d where "s1 = tx_store 0 (content (pst_of s) (p # as)) (print_app DEBUG_INFO ''TX started!'' [] s)"
    and "enc28j60_etherTransmit (content (pst_of s) (p # as)) (of_nat (length (content (pst_of s) (p # as)))) (drv s1) = Some (True, d)"
    and "enc28j60_translate p s = Some (ERR_OK, s1\<lparr>drv := d, bTxBusy := True\<rparr>)"
    and "app_ok cs ds rd wr dly log s1"
proof -
  let ?bs = "content (pst_of s) (p # as)" and ?s0 = "print_app DEBUG_INFO ''TX started!'' [] s"
  define s1 where "s1 = tx_store 0 ?bs ?s0"
  have p0: "pst_of ?s0 = pst_of s" "app_ok cs ds rd wr dly log ?s0"
    using o by (simp_all add: print_app_def pst_of_def app_ok_def)
  then have len: "length (tx_data (txPkt (dev (drv ?s0)))) = 1500" by (simp add: app_ok_def drv_ok_def)
  obtain bf where bf: "pbufs (pst_of s) p = Some bf" "unat (tot_len bf) = length ?bs"
    using c(2) by (auto split: option.splits)
  have t: "tot_len bf = of_nat (length ?bs)" by (simp flip: bf(2) del: content_simps)
  have loop: "tx_copy_loop (Some p) 0 ?s0 = Some (of_nat (length ?bs), s1)"
    using tx_copy_loop_content [of ?s0 "Some p" "p # as" 0] c(1) l len unfolding p0(1) s1_def
    by (simp del: content_simps chain.simps)
  have o1: "app_ok cs ds rd wr dly log s1"
    unfolding s1_def tx_store_eq by (rule app_ok_with_tx [OF p0(2)]) simp
  have u: "unat (of_nat (length ?bs) :: u16) = length ?bs"
    using l by (simp add: unat_of_nat take_bit_nat_eq_self del: content_simps)
  have w: "tx_window (unat (of_nat (length ?bs) :: u16)) s1 = ?bs" unfolding u by (simp add: s1_def del: content_simps)
  obtain d where d: "enc28j60_etherTransmit ?bs (of_nat (length ?bs)) (drv s1) = Some (True, d)"
    using spi_bus.transmit_promise [OF b, of "drv s1" ?bs "of_nat (length ?bs)"] o1 l
    unfolding u by (auto simp: app_ok_def drv_ok_def)
  have "enc28j60_translate p s = Some (ERR_OK, s1\<lparr>drv := d, bTxBusy := True\<rparr>)"
    using n d by (simp add: enc28j60_translate_def Let_def p0(1) bf(1) loop t w del: content_simps)
  with d o1 that [OF s1_def] show thesis by blast
qed

text \<open>
  C2: when no transmission is under way, \<open>enc28j60_translate\<close> of a chain with the right
  \<open>tot_len\<close> that holds at most 2047 bytes returns \<open>ERR_OK\<close>; the content of the chain is in the chip's
  memory behind the control byte at 0x1800, ETXND at its end and the transmission requested, the busy flag
  is set, and lwIP's state is untouched.  Up to 1500 bytes nothing behind the driver's structure is written.
\<close>

theorem translate_sends:
  assumes "spi_bus cs ds rd wr dly log" and "app_ok cs ds rd wr dly log s" and "\<not> bTxBusy s"
    and "chain (pst_of s) (Some p) (p # as)" and "tot_ok (pst_of s) (p # as)"
    and "length (content (pst_of s) (p # as)) \<le> 2047"
  shows "\<exists>s'. enc28j60_translate p s = Some (ERR_OK, s') \<and> app_ok cs ds rd wr dly log s' \<and> bTxBusy s' \<and> lw s' = lw s \<and>
    cmem (prog_chip log (drv s')) 0x1800 = 0 \<and>
    (\<forall>i < length (content (pst_of s) (p # as)).
       cmem (prog_chip log (drv s')) (0x1801 + of_nat i) = content (pst_of s) (p # as) ! i) \<and>
    u16_of (creg (prog_chip log (drv s')) 0x06) (creg (prog_chip log (drv s')) 0x07) =
      0x1800 + of_nat (length (content (pst_of s) (p # as))) \<and>
    bit (creg (prog_chip log (drv s')) 0x1F) 3 \<and>
    (length (content (pst_of s) (p # as)) \<le> 1500 \<longrightarrow> behind_dev s' = behind_dev s)"
proof -
  let ?bs = "content (pst_of s) (p # as)"
  obtain s1 d where s1: "s1 = tx_store 0 ?bs (print_app DEBUG_INFO ''TX started!'' [] s)"
    and d: "enc28j60_etherTransmit ?bs (of_nat (length ?bs)) (drv s1) = Some (True, d)"
    and e: "enc28j60_translate p s = Some (ERR_OK, s1\<lparr>drv := d, bTxBusy := True\<rparr>)"
    and o1: "app_ok cs ds rd wr dly log s1"
    by (rule translate_steps [OF assms])
  define bs where "bs = ?bs"
  let ?s = "s1\<lparr>drv := d, bTxBusy := True\<rparr>"
  have u: "unat (of_nat (length bs) :: u16) = length bs"
    using assms(6) by (simp add: bs_def unat_of_nat take_bit_nat_eq_self del: content_simps)
  obtain d' where d': "enc28j60_etherTransmit bs (of_nat (length bs)) (drv s1) = Some (True, d')"
    and m: "\<And>a. cmem (prog_chip log d') a = (if 0x1800 \<le> unat a \<and> unat a \<le> 0x1800 + length bs
       then (0x00 # bs) ! (unat a - 0x1800) else cmem (prog_chip log (drv s1)) a)"
    and r: "u16_of (creg (prog_chip log d') 0x06) (creg (prog_chip log d') 0x07) = 0x1800 + of_nat (length bs)"
      "bit (creg (prog_chip log d') 0x1F) 3"
    using spi_bus.transmit_promise [OF assms(1), of "drv s1" bs "of_nat (length bs)"] o1 assms(6)
    unfolding u by (auto simp: app_ok_def drv_ok_def bs_def)
  have dd: "d' = d" using d d' by (simp add: bs_def)
  have mem: "cmem (prog_chip log d) (0x1801 + of_nat i) = bs ! i" if i: "i < length bs" for i
  proof -
    have "unat (0x1801 + of_nat i :: u16) = 0x1801 + i"
      using i assms(6) unat_u16_plus [of "0x1801" "of_nat i"]
      by (simp add: bs_def unat_of_nat take_bit_nat_eq_self del: content_simps)
    then show ?thesis using i m [of "0x1801 + of_nat i"] by (simp add: dd)
  qed
  have "app_ok cs ds rd wr dly log ?s"
    using translate_ok [OF assms(1,2) e] .
  moreover have "lw ?s = lw s" by (simp add: s1 tx_store_eq print_app_def)
  moreover have "cmem (prog_chip log d) 0x1800 = 0" using m [of "0x1800"] by (simp add: dd)
  moreover have "length bs \<le> 1500 \<longrightarrow> behind_dev ?s = behind_dev s"
    by (auto simp: s1 tx_store_eq put_at_def print_app_def bs_def fun_eq_iff)
  ultimately show ?thesis
    using e mem r unfolding dd bs_def [symmetric] by (intro exI [of _ ?s]) simp
qed

lemma one_pbuf_chain: "chain one_pbuf (Some 8192) [8192]" "tot_ok one_pbuf [8192]" "length (content one_pbuf [8192]) = 40"
  by (simp_all add: one_pbuf_def new_pbuf_def seg_def)

theorem translate_sends_witness:
  "\<exists>s'. enc28j60_translate 8192 (app0 (brd_sys chip_device) one_pbuf) = Some (ERR_OK, s') \<and> bTxBusy s' \<and>
     bit (creg (prog_chip brd_log (drv s')) 0x1F) 3"
  using translate_sends [OF brd_bus brd_app_ok, of chip_device one_pbuf 8192 "[]"] one_pbuf_chain
  by (auto simp del: content_simps chain.simps tot_ok.simps)

text \<open>
  C39: a frame of more than 1500 bytes, which the interface's MTU of 1500 and the 14 bytes
  of the Ethernet header allow, is sent, but its copy runs over the end of \<open>dev.txPkt.data\<close>, the last field
  of \<open>dev\<close>: the memory behind the structure holds the rest of the frame.
\<close>

theorem translate_overrun:
  assumes "spi_bus cs ds rd wr dly log" and "app_ok cs ds rd wr dly log s" and "\<not> bTxBusy s"
    and "chain (pst_of s) (Some p) (p # as)" and "tot_ok (pst_of s) (p # as)"
    and "length (content (pst_of s) (p # as)) \<le> 2047"
  shows "\<exists>s'. enc28j60_translate p s = Some (ERR_OK, s') \<and>
    (\<forall>j. 1500 + j < length (content (pst_of s) (p # as)) \<longrightarrow> behind_dev s' j = content (pst_of s) (p # as) ! (1500 + j))"
proof -
  let ?bs = "content (pst_of s) (p # as)"
  obtain s1 d where "s1 = tx_store 0 ?bs (print_app DEBUG_INFO ''TX started!'' [] s)"
    and "enc28j60_translate p s = Some (ERR_OK, s1\<lparr>drv := d, bTxBusy := True\<rparr>)"
    by (rule translate_steps [OF assms])
  then show ?thesis by (simp add: tx_store_eq put_at_def add.commute del: content_simps)
qed

definition long_pbuf :: "unit pst" where
  "long_pbuf = pool3\<lparr>pbufs := [8192 \<mapsto> new_pbuf 8222 1514 1514], bytes := (\<lambda>a. if a = 8222 + 1505 then 7 else 0)\<rparr>"

theorem translate_overrun_witness:
  "\<exists>s'. enc28j60_translate 8192 (app0 (brd_sys chip_device) long_pbuf) = Some (ERR_OK, s') \<and> behind_dev s' 5 = 7"
proof -
  have c: "chain long_pbuf (Some 8192) [8192]" by (simp add: long_pbuf_def new_pbuf_def)
  have k: "content long_pbuf [8192] = get_bytes 8222 1514 (bytes long_pbuf)"
    by (simp add: long_pbuf_def new_pbuf_def seg_def)
  have t: "tot_ok long_pbuf [8192]" using k by (simp add: long_pbuf_def new_pbuf_def seg_def)
  obtain s' where s': "enc28j60_translate 8192 (app0 (brd_sys chip_device) long_pbuf) = Some (ERR_OK, s')"
    "\<And>j. 1500 + j < 1514 \<Longrightarrow> behind_dev s' j = get_bytes 8222 1514 (bytes long_pbuf) ! (1500 + j)"
    using translate_overrun [OF brd_bus brd_app_ok, of chip_device long_pbuf 8192 "[]"] c t
    by (auto simp: k simp del: content_simps chain.simps tot_ok.simps)
  from s'(2) [of 5] have "behind_dev s' 5 = 7" by (simp add: long_pbuf_def)
  with s'(1) show ?thesis by blast
qed

section \<open>Receiving\<close>

text \<open>The pbuf chain the received bytes go to.\<close>

lemma tot_ok_bytes: "tot_ok (m\<lparr>bytes := x\<rparr>) as = tot_ok m as"
proof (induction as)
  case (Cons a as)
  have "length (seg (m\<lparr>bytes := x\<rparr>) a) = length (seg m a)" for a by (simp add: seg_def split: option.split)
  then have "length (content (m\<lparr>bytes := x\<rparr>) as) = length (content m as)" for as by (induction as) simp_all
  with Cons show ?case by (simp split: option.split del: content_simps)
qed simp

lemma rx_to_pbuf_content:
  assumes n: "n = rxPktLen (rxPkt (dev (drv s)))" "unat n \<le> 1500" and l: "length (rx_data (rxPkt (dev (drv s)))) = 1500"
    and p: "pool_ok (tab_POOL (pst_of s))" "tab_POOL (pst_of s) \<noteq> []" "unat n \<le> 592 * length (tab_POOL (pst_of s))"
  shows "\<exists>q as s'. rx_to_pbuf e s = Some (Some q, s') \<and> chain (pst_of s') (Some q) (q # as) \<and> tot_ok (pst_of s') (q # as) \<and>
    content (pst_of s') (q # as) = take (unat n) (rx_data (rxPkt (dev (drv s)))) \<and> drv s' = drv s \<and>
    bTxBusy s' = bTxBusy s"
proof -
  obtain q as m where a: "pbuf_alloc (pbuf_fns e) PBUF_RAW n PBUF_POOL (pst_of s) = Some (Some q, m)"
    and c: "chain m (Some q) (q # as)" "tot_ok m (q # as)" "length (content m (q # as)) = unat n" "separate m (q # as)"
    using alloc_pool_spec [OF p(1), of n PBUF_RAW "pbuf_fns e"] p(2,3)
    by (auto simp del: chain.simps tot_ok.simps content_simps)
  let ?data = "take (unat n) (rx_data (rxPkt (dev (drv s))))"
  have ld: "length ?data = unat n" using n(2) l by simp
  obtain b where b: "pbufs m q = Some b" "unat (tot_len b) = unat n"
    using c(2,3) by (auto split: option.splits simp del: content_simps)
  then have tb: "tot_len b = n" by (metis word_unat_eq_iff)
  obtain mm where mm: "take_loop (Some q) ?data m = Some (m\<lparr>bytes := mm\<rparr>)"
    "content (m\<lparr>bytes := mm\<rparr>) (q # as) = ?data"
    using take_loop_spec [OF c(1,4), of ?data] ld c(3) by (auto simp del: content_simps)
  have tk: "pbuf_take (Some q) ?data m = Some (ERR_OK, m\<lparr>bytes := mm\<rparr>)"
    using mm(1) ld b by (simp add: pbuf_take_def del: content_simps)
  let ?s = "set_pst (m\<lparr>bytes := mm\<rparr>) s"
  have "ethernet_do_translation_to_pbub q (set_pst m s) = Some ?s"
    using b(1) tb n l tk by (simp add: ethernet_do_translation_to_pbub_def set_pst_def pst_of_def Let_def)
  then have r: "rx_to_pbuf e s = Some (Some q, ?s)"
    using a n(1) by (simp add: rx_to_pbuf_def Let_def)
  have t: "tot_ok (m\<lparr>bytes := mm\<rparr>) (q # as)"
    using c(2) by (simp only: tot_ok_bytes)
  have ch: "chain (m\<lparr>bytes := mm\<rparr>) (Some q) (q # as)"
    using c(1) chain_cong [of "q # as" "m\<lparr>bytes := mm\<rparr>" m "Some q"] by (simp del: chain.simps)
  show ?thesis
    by (intro exI [of _ q] exI [of _ as] exI [of _ ?s] conjI)
      (simp_all only: r, use ch t mm(2) in \<open>simp_all add: set_pst_def pst_of_def del: content_simps chain.simps tot_ok.simps\<close>)
qed

lemma received_bytes:
  assumes "spi_bus cs ds rd wr dly log" and "drv_inv cs ds rd wr dly log s" and "length (rx_data (rxPkt (dev s))) = 1500"
    and "enc28j60_etherReceive s = Some (True, d)" and "unat (rxPktLen (rxPkt (dev d))) \<le> 1500"
  shows "\<exists>pre dat. cread (prog_chip log d) = pre @ dat \<and> length dat = unat (rxPktLen (rxPkt (dev d))) \<and>
    rx_data (rxPkt (dev d)) = dat @ drop (length dat) (rx_data (rxPkt (dev s)))"
proof -
  obtain ok d1 nxt sv dat where r: "enc28j60_etherReceive s = Some (ok, d1)"
      "cread (prog_chip log d1) = cread (prog_chip log s) @ nxt @ sv @ dat"
      "length dat = (if ok then unat (u16_of (sv ! 0) (sv ! 1)) else 0)"
      "rxPktLen (rxPkt (dev d1)) = of_nat (length dat)"
    and f: "length (rx_data (rxPkt (dev s))) = 1500 \<longrightarrow> length dat \<le> 1500 \<longrightarrow>
      rx_data (rxPkt (dev d1)) = dat @ drop (length dat) (rx_data (rxPkt (dev s)))"
    using spi_bus.receive_promise [OF assms(1,2)] by blast
  have d: "d1 = d" "ok" using r(1) assms(4) by simp_all
  have n: "length dat = unat (rxPktLen (rxPkt (dev d)))"
  proof -
    have "rxPktLen (rxPkt (dev d)) = u16_of (sv ! 0) (sv ! 1)" using r(3,4) d by simp
    then show ?thesis using r(3) d(2) by simp
  qed
  then show ?thesis using r(2) f assms(3,5) d by (intro exI [of _ "cread (prog_chip log s) @ nxt @ sv"] exI [of _ dat]) simp
qed

text \<open>
  C3: when the driver has received a frame of at most 1500 bytes and the pool of pbufs has
  room for it, handling the packet interrupt acknowledges it (PKTDEC) and hands \<open>netif_input\<close> a chain with
  right lengths whose content is what has just been read from the chip; lwIP's refusal frees the chain.
\<close>

theorem packet_to_lwip:
  assumes "spi_bus cs ds rd wr dly log" and "app_ok cs ds rd wr dly log s"
    and "enc28j60_etherReceive (drv s) = Some (True, d)" and "unat (rxPktLen (rxPkt (dev d))) \<le> 1500"
    and "pool_ok (tab_POOL (pst_of s))" and "tab_POOL (pst_of s) \<noteq> []"
    and "unat (rxPktLen (rxPkt (dev d))) \<le> 592 * length (tab_POOL (pst_of s))"
  shows "\<exists>q as s1 pre. chain (pst_of s1) (Some q) (q # as) \<and> tot_ok (pst_of s1) (q # as) \<and>
    length (content (pst_of s1) (q # as)) = unat (rxPktLen (rxPkt (dev d))) \<and>
    cread (prog_chip log d) = pre @ content (pst_of s1) (q # as) \<and>
    cfg_of (prog_chip log (drv s1)) = reg_set 0x1E 0x40 (cfg_of (prog_chip log d)) \<and>
    on_packet e s = do {
      (r, s2) \<leftarrow> call_lwip (netif_input e q) s1;
      if r \<noteq> ERR_OK then do { (_, m) \<leftarrow> pbuf_free (pbuf_fns e) (Some q) (pst_of s2); Some (set_pst m s2) } else Some s2 }"
proof -
  have o: "drv_ok cs ds rd wr dly log (drv s)" using assms(2) by (simp add: app_ok_def)
  then have i: "drv_inv cs ds rd wr dly log (drv s)" and l0: "length (rx_data (rxPkt (dev (drv s)))) = 1500"
    by (simp_all add: drv_ok_def)
  have od: "drv_ok cs ds rd wr dly log d" by (rule spi_bus.ok_receive [OF assms(1) o assms(3)])
  then have id: "drv_inv cs ds rd wr dly log d" by (simp add: drv_ok_def)
  obtain d' where d': "enc28j60_clear_interrupt PKTIF d = Some d'" "dev d' = dev d"
    using spi_bus.ok_flags(1) [OF assms(1) od, of PKTIF] by auto
  have cf: "cfg_of (prog_chip log d') = reg_set 0x1E 0x40 (cfg_of (prog_chip log d))"
    using spi_bus.clear_interrupt_promise [OF assms(1) id, of PKTIF] d'(1) by auto
  obtain dat pre where dat: "cread (prog_chip log d) = pre @ dat" "length dat = unat (rxPktLen (rxPkt (dev d)))"
    "rx_data (rxPkt (dev d)) = dat @ drop (length dat) (rx_data (rxPkt (dev (drv s))))"
    using received_bytes [OF assms(1) i l0 assms(3,4)] by blast
  define t where "t = print_app DEBUG_INFO ''PKT length %d'' [uint (rxPktLen (rxPkt (dev d)))]
    ((print_app DEBUG_INFO ''PKT number %d'' [uint (u32PacketCounter s)] (s\<lparr>drv := d'\<rparr>))\<lparr>u32PacketCounter := u32PacketCounter s + 1\<rparr>)"
  have t: "dev (drv t) = dev d" "pst_of t = pst_of s" "prog_chip log (drv t) = prog_chip log d'"
    by (simp_all add: t_def print_app_def pst_of_def d'(2) prog_chip_def)
  have lt: "length (rx_data (rxPkt (dev (drv t)))) = 1500" using od by (simp add: t drv_ok_def)
  obtain q as s1 where q: "rx_to_pbuf e t = Some (Some q, s1)" "chain (pst_of s1) (Some q) (q # as)"
    "tot_ok (pst_of s1) (q # as)" "drv s1 = drv t"
    and c: "content (pst_of s1) (q # as) = take (unat (rxPktLen (rxPkt (dev d)))) (rx_data (rxPkt (dev d)))"
    using rx_to_pbuf_content [of "rxPktLen (rxPkt (dev d))" t e] lt assms(4-7) unfolding t by auto
  have cd: "content (pst_of s1) (q # as) = dat" unfolding c using dat(2,3) by (metis append_eq_conv_conj)
  have "on_packet e s = do { (ethBuffer, s) \<leftarrow> rx_to_pbuf e t; case ethBuffer of None \<Rightarrow> Some s | Some p \<Rightarrow> do {
      (r, s) \<leftarrow> call_lwip (netif_input e p) s;
      if r \<noteq> ERR_OK then do { (_, m) \<leftarrow> pbuf_free (pbuf_fns e) (Some p) (pst_of s); Some (set_pst m s) } else Some s } }"
    by (simp add: on_packet_def assms(3) d'(1) Let_def t_def print_app_def d'(2))
  then have op: "on_packet e s = do { (r, s2) \<leftarrow> call_lwip (netif_input e q) s1;
      if r \<noteq> ERR_OK then do { (_, m) \<leftarrow> pbuf_free (pbuf_fns e) (Some q) (pst_of s2); Some (set_pst m s2) } else Some s2 }"
    by (simp add: q(1))
  show ?thesis
    by (intro exI [of _ q] exI [of _ as] exI [of _ s1] exI [of _ pre] conjI)
      (use q op cd dat cf t in \<open>simp_all del: content_simps chain.simps tot_ok.simps\<close>)
qed

text \<open>A device that answers 1 to everything announces a frame of 257 bytes.\<close>

definition ones_device :: device where
  "ones_device log d = 1"

lemma ones_nth: "i < length ds \<Longrightarrow> answers ones_device log ds ! i = 1"
  using nth_answers [of ones_device "\<lambda>_. 1"] by (simp add: ones_device_def)

lemma ones_receive:
  obtains d where "enc28j60_etherReceive (brd_sys ones_device) = Some (True, d)" and "rxPktLen (rxPkt (dev d)) = 257"
proof -
  let ?s = "brd_sys ones_device"
  have "brd.rx_sv ones_device ?s ! 0 = 1" "brd.rx_sv ones_device ?s ! 1 = 1"
    by (simp_all add: brd.rx_sv_def brd_rd_answers ones_nth stale_buf_def)
  then have l: "brd.rx_len ones_device ?s = 257"
    unfolding brd.rx_len_def by (simp add: u16_of_def)
  then have ok: "brd.rx_ok ones_device ?s" and n: "brd.rx_n ones_device ?s = 257"
    by (simp_all add: brd.rx_n_def brd.rx_ok_def)
  obtain u u' where r: "enc28j60_etherReceive ?s = Some (brd.rx_ok ones_device ?s, (brd.rx_end ones_device ?s u)\<lparr>uart := u'\<rparr>)"
    using brd.etherReceive_eq [OF brd_sys_inv] .
  have "rxPktLen (rxPkt (dev (brd.rx_end ones_device ?s u))) = 257"
    unfolding brd.rx_end(2) [OF brd_sys_inv] brd.rx_dev_def n by simp
  with r ok that show thesis by simp
qed

theorem packet_to_lwip_witness:
  "\<exists>q as s1 s2. length (content (pst_of s1) (q # as)) = 257 \<and> call_lwip (netif_input lwip0 q) s1 = Some (ERR_OK, s2) \<and>
     on_packet lwip0 (app0 (brd_sys ones_device) pool3) = Some s2"
proof -
  obtain d where d: "enc28j60_etherReceive (brd_sys ones_device) = Some (True, d)" "rxPktLen (rxPkt (dev d)) = 257"
    by (rule ones_receive)
  obtain q as and s1 :: "(wboard, nat, unit, cyclic_handler list) app" where
    c: "length (content (pst_of s1) (q # as)) = 257"
    and o: "on_packet lwip0 (app0 (brd_sys ones_device) pool3) = do {
      (r, s2) \<leftarrow> call_lwip (netif_input lwip0 q) s1;
      if r \<noteq> ERR_OK then do { (_, m) \<leftarrow> pbuf_free (pbuf_fns lwip0) (Some q) (pst_of s2); Some (set_pst m s2) } else Some s2 }"
    using packet_to_lwip [OF brd_bus brd_app_ok, of ones_device pool3 d lwip0] d pool3_simps
    by (auto simp del: content_simps chain.simps tot_ok.simps)
  have "call_lwip (netif_input lwip0 q) s1 = Some (ERR_OK, s1)"
    by (simp add: call_lwip_def lwip0_def)
  moreover from this o have "on_packet lwip0 (app0 (brd_sys ones_device) pool3) = Some s1" by simp
  ultimately show ?thesis using c by blast
qed

section \<open>Interrupt service\<close>

text \<open>The flags the loop acknowledges by their number: receive and transmit error, transmit, DMA.\<close>

definition acked :: u8 where "acked = 0x2B"

definition ack_cfg :: "u8 \<Rightarrow> nat \<Rightarrow> chip \<Rightarrow> chip" where
  "ack_cfg v cnt c = (if v AND push_bit cnt 1 = 0 then c
     else reg_set 0x1B 0x80 (reg_clear 0x1C (push_bit cnt 1 AND acked) (reg_clear 0x1B 0x80 c)))"

lemma flag_cfg:
  assumes "spi_bus cs ds rd wr dly log" and o: "drv_ok cs ds rd wr dly log (drv s)"
    and "cnt < 8" and "cnt \<noteq> 4" and "cnt \<noteq> 6"
  shows "\<exists>s'. on_flag e cnt s = Some s' \<and> drv_ok cs ds rd wr dly log (drv s') \<and>
    cfg_of (prog_chip log (drv s')) = reg_clear 0x1C (push_bit cnt 1 AND acked) (cfg_of (prog_chip log (drv s))) \<and>
    bTxBusy s' = (bTxBusy s \<and> cnt \<noteq> 3) \<and> lw s' = lw s"
proof -
  have cl: "\<exists>s'. on_drv (enc28j60_clear_interrupt fl) (print_app l f a s) = Some s' \<and> drv_ok cs ds rd wr dly log (drv s') \<and>
      cfg_of (prog_chip log (drv s')) = reg_clear 0x1C (eth_int_flag_val fl) (cfg_of (prog_chip log (drv s))) \<and>
      bTxBusy s' = bTxBusy s \<and> lw s' = lw s"
    if ne: "fl \<noteq> PKTIF" for fl l f a
  proof -
    obtain d where "enc28j60_clear_interrupt fl (dMesgPrint l f a (drv s)) = Some d" "drv_ok cs ds rd wr dly log d"
      "cfg_of (prog_chip log d) = reg_clear 0x1C (eth_int_flag_val fl) (cfg_of (prog_chip log (drv s)))"
      using spi_bus.ok_flags(1) [OF assms(1), of "dMesgPrint l f a (drv s)" fl] o ne
      by (auto simp: cfg_of_clear cfg_of_c_sel)
    then show ?thesis by (simp add: on_drv_def print_app_def)
  qed
  have z: "reg_clear 0x1C 0 c = c" for c by (simp add: reg_clear_def)
  have "cnt = 0 \<or> cnt = 1 \<or> cnt = 2 \<or> cnt = 3 \<or> cnt = 5 \<or> cnt = 7" using assms(3-5) by linarith
  then show ?thesis
  proof (elim disjE)
    assume "cnt = 0"
    then show ?thesis using cl [of RXERIF] by (simp add: on_flag_def acked_def)
  next
    assume "cnt = 1"
    then show ?thesis using cl [of TXERIF] by (simp add: on_flag_def acked_def)
  next
    assume "cnt = 2"
    then show ?thesis using o by (simp add: on_flag_def acked_def z print_app_def)
  next
    assume c: "cnt = 3"
    obtain s' where "on_drv (enc28j60_clear_interrupt TXIF) (print_app DEBUG_INFO ''4) Transmit Interrupt Flag bit'' [] s) = Some s'"
      "drv_ok cs ds rd wr dly log (drv s')" "lw s' = lw s"
      "cfg_of (prog_chip log (drv s')) = reg_clear 0x1C (eth_int_flag_val TXIF) (cfg_of (prog_chip log (drv s)))"
      using cl [of TXIF] by blast
    then show ?thesis using c by (simp add: on_flag_def acked_def)
  next
    assume "cnt = 5"
    then show ?thesis using cl [of DMAIF] by (simp add: on_flag_def acked_def)
  next
    assume "cnt = 7"
    then show ?thesis using o by (simp add: on_flag_def acked_def z)
  qed
qed

lemma eir_step:
  assumes b: "spi_bus cs ds rd wr dly log" and o: "drv_ok cs ds rd wr dly log (drv s)"
    and "cnt < 8" and c: "v AND push_bit cnt 1 \<noteq> 0 \<longrightarrow> cnt \<noteq> 4 \<and> cnt \<noteq> 6"
  shows "\<exists>s'. (if v AND push_bit cnt 1 \<noteq> 0 then do {
        s \<leftarrow> on_drv enc28j60_global_int_Clear s; s \<leftarrow> on_flag e cnt s; on_drv enc28j60_global_Int_Set s } else Some s) = Some s' \<and>
    drv_ok cs ds rd wr dly log (drv s') \<and>
    cfg_of (prog_chip log (drv s')) = ack_cfg v cnt (cfg_of (prog_chip log (drv s))) \<and>
    bTxBusy s' = (bTxBusy s \<and> \<not> (cnt = 3 \<and> v AND push_bit cnt 1 \<noteq> 0)) \<and> lw s' = lw s"
proof (cases "v AND push_bit cnt 1 = 0")
  case True
  then show ?thesis using o by (simp add: ack_cfg_def)
next
  case False
  obtain d1 where d1: "enc28j60_global_int_Clear (drv s) = Some d1" "drv_ok cs ds rd wr dly log d1"
    "prog_chip log d1 = reg_clear 0x1B 0x80 (c_sel 0 (prog_chip log (drv s)))"
    using spi_bus.ok_flags(3) [OF b o] by blast
  obtain s2 where s2: "on_flag e cnt (s\<lparr>drv := d1\<rparr>) = Some s2" "drv_ok cs ds rd wr dly log (drv s2)"
    "cfg_of (prog_chip log (drv s2)) = reg_clear 0x1C (push_bit cnt 1 AND acked) (cfg_of (prog_chip log d1))"
    "bTxBusy s2 = (bTxBusy s \<and> cnt \<noteq> 3)" "lw s2 = lw s"
    using flag_cfg [OF b, of "s\<lparr>drv := d1\<rparr>" cnt e] d1(2) assms(3) c False by auto
  obtain d3 where d3: "enc28j60_global_Int_Set (drv s2) = Some d3" "drv_ok cs ds rd wr dly log d3"
    "prog_chip log d3 = reg_set 0x1B 0x80 (c_sel 0 (prog_chip log (drv s2)))"
    using spi_bus.ok_flags(2) [OF b s2(2)] by blast
  have "cfg_of (prog_chip log d3) = ack_cfg v cnt (cfg_of (prog_chip log (drv s)))"
    using False by (simp add: d3(3) cfg_of_set cfg_of_c_sel s2(3) d1(3) cfg_of_clear ack_cfg_def)
  then show ?thesis
    using False d1(1) s2 d3(1,2) by (simp add: on_drv_def)
qed

lemma eir_loop_cfg:
  assumes b: "spi_bus cs ds rd wr dly log" and "drv_ok cs ds rd wr dly log (drv s)"
    and "\<forall>c \<in> set cnts. c < 8 \<and> (v AND push_bit c 1 \<noteq> 0 \<longrightarrow> c \<noteq> 4 \<and> c \<noteq> 6)"
  shows "\<exists>s'. eir_loop e cnts v s = Some s' \<and> drv_ok cs ds rd wr dly log (drv s') \<and>
    cfg_of (prog_chip log (drv s')) = fold (ack_cfg v) cnts (cfg_of (prog_chip log (drv s))) \<and>
    bTxBusy s' = (bTxBusy s \<and> \<not> (3 \<in> set cnts \<and> v AND push_bit 3 1 \<noteq> 0)) \<and> lw s' = lw s"
  using assms(2,3)
proof (induction cnts arbitrary: s)
  case (Cons c cnts)
  have c: "c < 8" "v AND push_bit c 1 \<noteq> 0 \<longrightarrow> c \<noteq> 4 \<and> c \<noteq> 6" using Cons.prems(2) by auto
  obtain s1 where s1: "(if v AND push_bit c 1 \<noteq> 0 then do {
        s \<leftarrow> on_drv enc28j60_global_int_Clear s; s \<leftarrow> on_flag e c s; on_drv enc28j60_global_Int_Set s } else Some s) = Some s1"
    "drv_ok cs ds rd wr dly log (drv s1)"
    "cfg_of (prog_chip log (drv s1)) = ack_cfg v c (cfg_of (prog_chip log (drv s)))"
    "bTxBusy s1 = (bTxBusy s \<and> \<not> (c = 3 \<and> v AND push_bit c 1 \<noteq> 0))" "lw s1 = lw s"
    using eir_step [OF b Cons.prems(1) c, of e] by blast
  have "eir_loop e (c # cnts) v s = eir_loop e cnts v s1" using s1(1) by simp
  then show ?case using Cons.IH [OF s1(2)] Cons.prems(2) s1(3-5) by auto
qed simp


lemma and_push_bit_iff: "v AND push_bit c 1 \<noteq> 0 \<longleftrightarrow> bit v c" for v :: u8
  by (simp add: bit_iff_and_push_bit_not_eq_0)

lemma ack_cfg_regs:
  "k \<noteq> 0x1B \<Longrightarrow> k \<noteq> 0x1C \<Longrightarrow> creg (ack_cfg v cnt c) k = creg c k"
  "creg (ack_cfg v cnt c) 0x1C = creg c 0x1C AND NOT (v AND push_bit cnt 1 AND acked)"
  "creg (ack_cfg v cnt c) 0x1B = (if bit v cnt then creg c 0x1B OR 0x80 else creg c 0x1B)"
proof -
  show "k \<noteq> 0x1B \<Longrightarrow> k \<noteq> 0x1C \<Longrightarrow> creg (ack_cfg v cnt c) k = creg c k"
    by (simp add: ack_cfg_def reg_set_def reg_clear_def)
  have "v AND push_bit cnt 1 = (if bit v cnt then push_bit cnt 1 else 0)"
    by (rule bit_word_eqI) (auto simp: bit_simps)
  then show "creg (ack_cfg v cnt c) 0x1C = creg c 0x1C AND NOT (v AND push_bit cnt 1 AND acked)"
    by (auto simp: ack_cfg_def reg_set_def reg_clear_def mac_mii_key_def and.assoc [symmetric])
  have "(x AND NOT 0x80) OR 0x80 = x OR (0x80 :: u8)" for x
    by (rule bit_word_eqI) (auto simp: bit_simps)
  then show "creg (ack_cfg v cnt c) 0x1B = (if bit v cnt then creg c 0x1B OR 0x80 else creg c 0x1B)"
    using and_push_bit_iff [of v cnt] by (auto simp: ack_cfg_def reg_set_def reg_clear_def mac_mii_key_def)
qed

lemma ack_fold_regs:
  "k \<noteq> 0x1B \<Longrightarrow> k \<noteq> 0x1C \<Longrightarrow> creg (fold (ack_cfg v) cnts c) k = creg c k"
  "bit (creg (fold (ack_cfg v) cnts c) 0x1C) n \<longleftrightarrow> bit (creg c 0x1C) n \<and> \<not> (n \<in> set cnts \<and> bit v n \<and> bit acked n)"
  "creg (fold (ack_cfg v) cnts c) 0x1B = (if \<exists>n \<in> set cnts. bit v n then creg c 0x1B OR 0x80 else creg c 0x1B)"
proof (induction cnts arbitrary: c)
  case (Cons a cnts)
  {
    case 1
    with Cons show ?case by (simp add: ack_cfg_regs)
  next
    case 2
    have "bit (v AND push_bit a 1 AND acked) n \<longleftrightarrow> n = a \<and> bit v n \<and> bit acked n"
      using bit_imp_le_length [of v n] by (auto simp: bit_simps)
    then show ?case using bit_imp_le_length [of "creg c 0x1C" n] by (auto simp: Cons ack_cfg_regs bit_simps)
  next
    case 3
    then show ?case by (simp add: Cons ack_cfg_regs or.assoc)
  }
qed simp_all

text \<open>
  C4: after the EIR value \<open>v\<close> with neither a link change nor a packet in it, the service loop
  has cleared in EIR exactly the flags of \<open>v\<close> it acknowledges (receive and transmit error, transmit done,
  DMA), left the global interrupt enable set if there was any flag, changed no other register, and
  released the transmitter when, and only when, TXIF was among them.
\<close>

theorem service_acks:
  assumes "spi_bus cs ds rd wr dly log" and "app_ok cs ds rd wr dly log s" and "\<not> bit v 4" and "\<not> bit v 6"
  shows "\<exists>s'. eir_loop e [0 ..< 8] v s = Some s' \<and> app_ok cs ds rd wr dly log s' \<and>
    creg (prog_chip log (drv s')) 0x1C = creg (prog_chip log (drv s)) 0x1C AND NOT (v AND 0x2B) \<and>
    creg (prog_chip log (drv s')) 0x1B =
      (if v = 0 then creg (prog_chip log (drv s)) 0x1B else creg (prog_chip log (drv s)) 0x1B OR 0x80) \<and>
    (\<forall>k. k \<notin> {0x1B, 0x1C, 0x1F} \<longrightarrow> creg (prog_chip log (drv s')) k = creg (prog_chip log (drv s)) k) \<and>
    bTxBusy s' = (bTxBusy s \<and> \<not> bit v 3) \<and> lw s' = lw s"
proof -
  have o: "drv_ok cs ds rd wr dly log (drv s)" using assms(2) by (simp add: app_ok_def)
  have h: "\<forall>c \<in> set [0 ..< 8]. c < 8 \<and> (v AND push_bit c 1 \<noteq> 0 \<longrightarrow> c \<noteq> 4 \<and> c \<noteq> 6)"
    using assms(3,4) unfolding and_push_bit_iff by auto
  obtain s' where s': "eir_loop e [0 ..< 8] v s = Some s'" "drv_ok cs ds rd wr dly log (drv s')"
    "cfg_of (prog_chip log (drv s')) = fold (ack_cfg v) [0 ..< 8] (cfg_of (prog_chip log (drv s)))"
    "bTxBusy s' = (bTxBusy s \<and> \<not> (3 \<in> set [0 ..< 8] \<and> v AND push_bit 3 1 \<noteq> 0))" "lw s' = lw s"
    using eir_loop_cfg [OF assms(1) o h, of e] by blast
  let ?c = "prog_chip log (drv s)" and ?c' = "prog_chip log (drv s')"
  have cr: "creg ?c' k = creg (fold (ack_cfg v) [0 ..< 8] (cfg_of ?c)) k" "creg (cfg_of ?c) k = creg ?c k" if "k \<noteq> 0x1F" for k
    using that arg_cong [OF s'(3), of "\<lambda>c. creg c k"] by (simp_all add: cfg_of_def del: fold.simps)
  have small: "n < 8" if "bit v n" for n using bit_imp_le_length [OF that] by simp
  have "creg ?c' 0x1C = creg ?c 0x1C AND NOT (v AND 0x2B)"
  proof (rule bit_word_eqI)
    fix n assume "n < LENGTH(8)"
    then show "bit (creg ?c' 0x1C) n = bit (creg ?c 0x1C AND NOT (v AND 0x2B)) n"
      by (auto simp: cr ack_fold_regs bit_simps acked_def simp del: fold.simps)
  qed
  moreover have "(\<exists>n \<in> set [0 ..< 8]. bit v n) \<longleftrightarrow> v \<noteq> 0"
    using small by (auto simp: bit_eq_iff [of v 0])
  moreover have "creg ?c' 0x1B = (if \<exists>n \<in> set [0 ..< 8]. bit v n then creg ?c 0x1B OR 0x80 else creg ?c 0x1B)"
    by (simp add: cr ack_fold_regs(3) del: fold.simps set_upt)
  moreover have "\<forall>k. k \<notin> {0x1B, 0x1C, 0x1F} \<longrightarrow> creg ?c' k = creg ?c k"
    by (simp add: cr ack_fold_regs del: fold.simps)
  moreover have "bTxBusy s' = (bTxBusy s \<and> \<not> bit v 3)"
    using s'(4) unfolding and_push_bit_iff by simp
  moreover have "app_ok cs ds rd wr dly log s'" using s'(2) by (simp add: app_ok_def)
  ultimately show ?thesis using s'(1,5) by (intro exI [of _ s']) auto
qed

theorem service_acks_witness:
  "\<exists>s'. eir_loop lwip0 [0 ..< 8] 0x0A (app0 (brd_sys chip_device) pool3) = Some s' \<and> \<not> bTxBusy s' \<and>
     creg (prog_chip brd_log (drv s')) 0x1B = creg chip_power_on 0x1B OR 0x80"
  using service_acks [OF brd_bus brd_app_ok, of "0x0A" lwip0 chip_device pool3]
  by (auto simp: brd_sys_simps bit_simps simp del: eir_loop.simps)

section \<open>The interface\<close>

text \<open>
  The hardware address \<open>ethernet_init\<close> gives the interface of lwIP is the one the driver has
  programmed into the chip's address filter, MAADR1 to MAADR6 in the order of the wire.
\<close>

theorem mac_agrees:
  assumes "spi_bus cs ds rd wr dly log" and "drv_inv cs ds rd wr dly log d0" and "bnBank (dev d0) \<noteq> bank_2"
    and "enc28j60_strtDr d0 = Some d" and "drv s = d"
  shows "netif_hwaddr (my_netif (snd (ethernet_init s))) = map (creg (prog_chip log d)) [0xC4, 0xC5, 0xC2, 0xC3, 0xC0, 0xC1]"
proof -
  have r: "map (creg (prog_chip log d)) [0xC1, 0xC0, 0xC3, 0xC2, 0xC5, 0xC4] = mac" and c: "drv_inv cs ds rd wr dly log d"
    using spi_bus.start_promise [OF assms(1-4)] by auto
  from c have m: "macSrcAddr (dev d) = mac" by (simp add: drv_inv_def const_devD(12))
  have "[0 ..< 6] = [0, 1, 2, 3, 4, 5 :: nat]" by (simp add: upt_rec)
  then have "netif_hwaddr (my_netif (snd (ethernet_init s))) = rev mac"
    using assms(5) m by (simp add: ethernet_init_def Let_def mac_def)
  also have "rev mac = map (creg (prog_chip log d)) [0xC4, 0xC5, 0xC2, 0xC3, 0xC0, 0xC1]"
    unfolding r [symmetric] by simp
  finally show ?thesis .
qed

theorem mac_agrees_witness:
  "\<exists>d. enc28j60_strtDr (brd_sys chip_device) = Some d \<and>
     netif_hwaddr (my_netif (snd (ethernet_init (app0 d pool3)))) = map (creg (prog_chip brd_log d)) [0xC4, 0xC5, 0xC2, 0xC3, 0xC0, 0xC1]"
proof -
  obtain d where d: "enc28j60_strtDr (brd_sys chip_device) = Some d" by (rule brd_start)
  with mac_agrees [OF brd_bus brd_sys_inv _ d, of "app0 d pool3"] show ?thesis by (auto simp: brd_sys_simps)
qed

end
