(* ===== verification/Lwip_Mem.thy ===== *)
theory Lwip_Mem
  imports Lwip_Base
begin

text \<open>
  The heap of lwIP (\<open>lwip-2.2.1/src/core/mem.c\<close>) in the configuration of the program: no pools
  behind \<open>mem_malloc\<close>, no overflow or sanity checks, no statistics, no protection (\<open>NO_SYS\<close>), the block
  array in the flat memory.  A \<open>struct mem\<close> is the six bytes at its address, \<open>next\<close> and \<open>prev\<close>
  little-endian and \<open>used\<close> behind them, padded to \<open>SIZEOF_STRUCT_MEM\<close>.  Pointers are addresses,
  \<open>mem_size_t\<close> is 16 bits wide; a loop over a damaged heap may not end, so the loops are partial.
\<close>

section \<open>Layout\<close>

record mem_heap =
  ram :: nat
  ram_end :: nat
  lfree :: nat
  memory :: "nat \<Rightarrow> u8"

definition MEM_SIZE :: nat where "MEM_SIZE = 1600"
definition MIN_SIZE_ALIGNED :: nat where "MIN_SIZE_ALIGNED = LWIP_MEM_ALIGN_SIZE 12"
definition SIZEOF_STRUCT_MEM :: nat where "SIZEOF_STRUCT_MEM = LWIP_MEM_ALIGN_SIZE 6"
definition MEM_SIZE_ALIGNED :: nat where "MEM_SIZE_ALIGNED = LWIP_MEM_ALIGN_SIZE MEM_SIZE"

definition mem_next :: "nat \<Rightarrow> mem_heap \<Rightarrow> u16" where
  "mem_next a h = u16_of (memory h a) (memory h (a + 1))"

definition mem_prev :: "nat \<Rightarrow> mem_heap \<Rightarrow> u16" where
  "mem_prev a h = u16_of (memory h (a + 2)) (memory h (a + 3))"

definition mem_used :: "nat \<Rightarrow> mem_heap \<Rightarrow> u8" where
  "mem_used a h = memory h (a + 4)"

definition set_next :: "nat \<Rightarrow> u16 \<Rightarrow> mem_heap \<Rightarrow> mem_heap" where
  "set_next a v h = h\<lparr>memory := put_bytes a [lo8 v, hi8 v] (memory h)\<rparr>"

definition set_prev :: "nat \<Rightarrow> u16 \<Rightarrow> mem_heap \<Rightarrow> mem_heap" where
  "set_prev a v h = h\<lparr>memory := put_bytes (a + 2) [lo8 v, hi8 v] (memory h)\<rparr>"

definition set_used :: "nat \<Rightarrow> u8 \<Rightarrow> mem_heap \<Rightarrow> mem_heap" where
  "set_used a v h = h\<lparr>memory := put_bytes (a + 4) [v] (memory h)\<rparr>"

definition ptr_to_mem :: "u16 \<Rightarrow> mem_heap \<Rightarrow> nat" where
  "ptr_to_mem p h = ram h + unat p"

definition mem_to_ptr :: "nat \<Rightarrow> mem_heap \<Rightarrow> u16" where
  "mem_to_ptr a h = word_of_int (int a - int (ram h))"

text \<open>The size of the block a request gets: aligned, not below the minimum, cut to 16 bits.\<close>

definition block_size :: "u16 \<Rightarrow> u16" where
  "block_size n =
     (let sz = of_nat (LWIP_MEM_ALIGN_SIZE (unat n)) :: u16
      in if sz < of_nat MIN_SIZE_ALIGNED then of_nat MIN_SIZE_ALIGNED else sz)"

section \<open>Initialisation\<close>

text \<open>\<open>ram_heap\<close> is the address of the array of that name.\<close>

definition mem_init :: "nat \<Rightarrow> mem_heap \<Rightarrow> mem_heap option" where
  "mem_init ram_heap h = do {
     h \<leftarrow> LWIP_ASSERT (SIZEOF_STRUCT_MEM mod MEM_ALIGNMENT = 0) h;
     let h = h\<lparr>ram := LWIP_MEM_ALIGN_SIZE ram_heap\<rparr>;
     let mem = ram h;
     let h = set_used mem 0 (set_prev mem 0 (set_next mem (of_nat MEM_SIZE_ALIGNED) h));
     let h = h\<lparr>ram_end := ptr_to_mem (of_nat MEM_SIZE_ALIGNED) h\<rparr>;
     let h = set_prev (ram_end h) (of_nat MEM_SIZE_ALIGNED)
       (set_next (ram_end h) (of_nat MEM_SIZE_ALIGNED) (set_used (ram_end h) 1 h));
     Some (h\<lparr>lfree := ram h\<rparr>)
   }"

section \<open>Freeing\<close>

definition plug_forward :: "nat \<Rightarrow> mem_heap \<Rightarrow> mem_heap" where
  "plug_forward mem h =
     (let nmem = ptr_to_mem (mem_next mem h) h in
      if mem \<noteq> nmem \<and> mem_used nmem h = 0 \<and> nmem \<noteq> ram_end h
      then (let h = (if lfree h = nmem then h\<lparr>lfree := mem\<rparr> else h);
                h = set_next mem (mem_next nmem h) h
            in if unat (mem_next nmem h) \<noteq> MEM_SIZE_ALIGNED
               then set_prev (ptr_to_mem (mem_next nmem h) h) (mem_to_ptr mem h) h else h)
      else h)"

definition plug_backward :: "nat \<Rightarrow> mem_heap \<Rightarrow> mem_heap" where
  "plug_backward mem h =
     (let pmem = ptr_to_mem (mem_prev mem h) h in
      if pmem \<noteq> mem \<and> mem_used pmem h = 0
      then (let h = (if lfree h = mem then h\<lparr>lfree := pmem\<rparr> else h);
                h = set_next pmem (mem_next mem h) h
            in if unat (mem_next mem h) \<noteq> MEM_SIZE_ALIGNED
               then set_prev (ptr_to_mem (mem_next mem h) h) (mem_to_ptr pmem h) h else h)
      else h)"

definition plug_holes :: "nat \<Rightarrow> mem_heap \<Rightarrow> mem_heap option" where
  "plug_holes mem h = do {
     h \<leftarrow> LWIP_ASSERT (mem \<ge> ram h) h;
     h \<leftarrow> LWIP_ASSERT (mem < ram_end h) h;
     h \<leftarrow> LWIP_ASSERT (mem_used mem h = 0) h;
     h \<leftarrow> LWIP_ASSERT (unat (mem_next mem h) \<le> MEM_SIZE_ALIGNED) h;
     Some (plug_backward mem (plug_forward mem h))
   }"

definition mem_link_valid :: "nat \<Rightarrow> mem_heap \<Rightarrow> bool" where
  "mem_link_valid mem h =
     (let rmem_idx = mem_to_ptr mem h;
          nmem = ptr_to_mem (mem_next mem h) h;
          pmem = ptr_to_mem (mem_prev mem h) h
      in \<not> (unat (mem_next mem h) > MEM_SIZE_ALIGNED \<or> unat (mem_prev mem h) > MEM_SIZE_ALIGNED \<or>
            mem_prev mem h \<noteq> rmem_idx \<and> mem_next pmem h \<noteq> rmem_idx \<or>
            nmem \<noteq> ram_end h \<and> mem_prev nmem h \<noteq> rmem_idx))"

text \<open>The header in front of a block: pointer arithmetic wraps at 32 bits.\<close>

definition mem_of :: "nat \<Rightarrow> nat" where
  "mem_of rmem = (rmem + 2 ^ 32 - SIZEOF_STRUCT_MEM) mod 2 ^ 32"

definition mem_free :: "nat option \<Rightarrow> mem_heap \<Rightarrow> mem_heap option" where
  "mem_free rmem h = (case rmem of None \<Rightarrow> Some h
     | Some rmem \<Rightarrow>
         if rmem mod MEM_ALIGNMENT \<noteq> 0 then LWIP_ASSERT False h
         else (let mem = mem_of rmem in
           if mem < ram h \<or> rmem + MIN_SIZE_ALIGNED > ram_end h then LWIP_ASSERT False h
           else if mem_used mem h = 0 then LWIP_ASSERT False h
           else if \<not> mem_link_valid mem h then LWIP_ASSERT False h
           else (let h = set_used mem 0 h;
                     h = (if mem < lfree h then h\<lparr>lfree := mem\<rparr> else h)
                 in plug_holes mem h)))"

section \<open>Trimming\<close>

text \<open>The free block behind \<open>mem\<close> moves down to \<open>ptr2\<close>.\<close>

definition trim_move :: "nat \<Rightarrow> u16 \<Rightarrow> u16 \<Rightarrow> nat \<Rightarrow> mem_heap \<Rightarrow> mem_heap option" where
  "trim_move mem ptr newsize mem2 h = do {
     h \<leftarrow> LWIP_ASSERT (unat (mem_next mem h) \<noteq> MEM_SIZE_ALIGNED) h;
     let next' = mem_next mem2 h;
     let ptr2 = ptr + of_nat SIZEOF_STRUCT_MEM + newsize;
     let h = (if lfree h = mem2 then h\<lparr>lfree := ptr_to_mem ptr2 h\<rparr> else h);
     let mem2 = ptr_to_mem ptr2 h;
     let h = set_next mem ptr2 (set_prev mem2 ptr (set_next mem2 next' (set_used mem2 0 h)));
     Some (if unat (mem_next mem2 h) \<noteq> MEM_SIZE_ALIGNED
       then set_prev (ptr_to_mem (mem_next mem2 h) h) ptr2 h else h)
   }"

text \<open>The rest of the block becomes a free block of its own.\<close>

definition trim_split :: "nat \<Rightarrow> u16 \<Rightarrow> u16 \<Rightarrow> mem_heap \<Rightarrow> mem_heap option" where
  "trim_split mem ptr newsize h = do {
     let ptr2 = ptr + of_nat SIZEOF_STRUCT_MEM + newsize;
     h \<leftarrow> LWIP_ASSERT (unat (mem_next mem h) \<noteq> MEM_SIZE_ALIGNED) h;
     let mem2 = ptr_to_mem ptr2 h;
     let h = (if mem2 < lfree h then h\<lparr>lfree := mem2\<rparr> else h);
     let h = set_used mem2 0 h;
     let h = set_next mem2 (mem_next mem h) h;
     let h = set_next mem ptr2 (set_prev mem2 ptr h);
     Some (if unat (mem_next mem2 h) \<noteq> MEM_SIZE_ALIGNED
       then set_prev (ptr_to_mem (mem_next mem2 h) h) ptr2 h else h)
   }"

definition mem_trim :: "nat option \<Rightarrow> u16 \<Rightarrow> mem_heap \<Rightarrow> (nat option \<times> mem_heap) option" where
  "mem_trim rmem new_size h =
     (let newsize = block_size new_size; r = (case rmem of None \<Rightarrow> 0 | Some r \<Rightarrow> r) in
      if unat newsize > MEM_SIZE_ALIGNED \<or> newsize < new_size then Some (None, h)
      else do {
        h \<leftarrow> LWIP_ASSERT (r \<ge> ram h \<and> r < ram_end h) h;
        if r < ram h \<or> r \<ge> ram_end h then Some (rmem, h)
        else do {
          let mem = mem_of r;
          let ptr = mem_to_ptr mem h;
          let sz = mem_next mem h - ptr - of_nat SIZEOF_STRUCT_MEM;
          h \<leftarrow> LWIP_ASSERT (newsize \<le> sz) h;
          if newsize > sz then Some (None, h)
          else if newsize = sz then Some (rmem, h)
          else do {
            let mem2 = ptr_to_mem (mem_next mem h) h;
            h \<leftarrow> (if mem_used mem2 h = 0 then trim_move mem ptr newsize mem2 h
                  else if unat newsize + SIZEOF_STRUCT_MEM + MIN_SIZE_ALIGNED \<le> unat sz
                  then trim_split mem ptr newsize h
                  else Some h);
            Some (rmem, h)
          }
        }
      })"

section \<open>Allocation\<close>

text \<open>The data bytes of the block at \<open>ptr\<close>, in the unsigned arithmetic of the source.\<close>

definition user_size :: "u16 \<Rightarrow> mem_heap \<Rightarrow> u32" where
  "user_size ptr h = ucast (mem_next (ptr_to_mem ptr h) h) - (ucast ptr + of_nat SIZEOF_STRUCT_MEM)"

definition split_block :: "u16 \<Rightarrow> u16 \<Rightarrow> mem_heap \<Rightarrow> mem_heap option" where
  "split_block ptr sz h = do {
     let mem = ptr_to_mem ptr h;
     let ptr2 = ptr + of_nat SIZEOF_STRUCT_MEM + sz;
     h \<leftarrow> LWIP_ASSERT (unat ptr2 \<noteq> MEM_SIZE_ALIGNED) h;
     let mem2 = ptr_to_mem ptr2 h;
     let h = set_used mem2 0 h;
     let h = set_next mem2 (mem_next mem h) h;
     let h = set_prev mem2 ptr h;
     let h = set_used mem 1 (set_next mem ptr2 h);
     Some (if unat (mem_next mem2 h) \<noteq> MEM_SIZE_ALIGNED
       then set_prev (ptr_to_mem (mem_next mem2 h) h) ptr2 h else h)
   }"

partial_function (option) lfree_loop :: "nat \<Rightarrow> mem_heap \<Rightarrow> nat option" where
  "lfree_loop cur h =
     (if mem_used cur h \<noteq> 0 \<and> cur \<noteq> ram_end h
      then lfree_loop (ptr_to_mem (mem_next cur h) h) h else Some cur)"

text \<open>What the loop does with the block it has found.\<close>

definition take_block :: "u16 \<Rightarrow> u16 \<Rightarrow> mem_heap \<Rightarrow> (nat option \<times> mem_heap) option" where
  "take_block ptr sz h = do {
     let mem = ptr_to_mem ptr h;
     h \<leftarrow> (if user_size ptr h \<ge> ucast sz + of_nat SIZEOF_STRUCT_MEM + of_nat MIN_SIZE_ALIGNED
           then split_block ptr sz h else Some (set_used mem 1 h));
     h \<leftarrow> (if mem = lfree h
           then do {
             cur \<leftarrow> lfree_loop (lfree h) h;
             let h = h\<lparr>lfree := cur\<rparr>;
             LWIP_ASSERT (lfree h = ram_end h \<or> mem_used (lfree h) h = 0) h
           }
           else Some h);
     h \<leftarrow> LWIP_ASSERT (mem + SIZEOF_STRUCT_MEM + unat sz \<le> ram_end h) h;
     h \<leftarrow> LWIP_ASSERT ((mem + SIZEOF_STRUCT_MEM) mod MEM_ALIGNMENT = 0) h;
     h \<leftarrow> LWIP_ASSERT (mem mod MEM_ALIGNMENT = 0) h;
     Some (Some (mem + SIZEOF_STRUCT_MEM), h)
   }"

partial_function (option) malloc_loop :: "u16 \<Rightarrow> u16 \<Rightarrow> mem_heap \<Rightarrow> (nat option \<times> mem_heap) option" where
  "malloc_loop sz ptr h =
     (if unat ptr < MEM_SIZE_ALIGNED - unat sz
      then (if mem_used (ptr_to_mem ptr h) h = 0 \<and> user_size ptr h \<ge> ucast sz
            then take_block ptr sz h
            else malloc_loop sz (mem_next (ptr_to_mem ptr h) h) h)
      else Some (None, h))"

definition mem_malloc :: "u16 \<Rightarrow> mem_heap \<Rightarrow> (nat option \<times> mem_heap) option" where
  "mem_malloc sz_in h =
     (if sz_in = 0 then Some (None, h)
      else (let sz = block_size sz_in in
        if unat sz > MEM_SIZE_ALIGNED \<or> sz < sz_in then Some (None, h)
        else malloc_loop sz (mem_to_ptr (lfree h) h) h))"

definition mem_calloc :: "u16 \<Rightarrow> u16 \<Rightarrow> mem_heap \<Rightarrow> (nat option \<times> mem_heap) option" where
  "mem_calloc count sz h =
     (let alloc_size = ucast count * ucast sz :: u32 in
      if ucast (ucast alloc_size :: u16) \<noteq> alloc_size then Some (None, h)
      else do {
        (p, h) \<leftarrow> mem_malloc (ucast alloc_size) h;
        case p of None \<Rightarrow> Some (None, h)
        | Some a \<Rightarrow> Some (Some a, h\<lparr>memory := put_bytes a (replicate (unat alloc_size) 0) (memory h)\<rparr>)
      })"

end
