(* ===== verification/Lwip_Heap.thy ===== *)
theory Lwip_Heap
  imports Lwip_Mem
begin

text \<open>
  The heap of \<open>mem.c\<close> as a row of cells.  A cell is the size of the data of a block and whether it is
  used; the headers in the memory represent a row when they chain its blocks in both directions.  The
  operations are shown to refine first-fit allocation, release with joining of neighbours and
  trimming of cells, for every heap in which no two free cells touch and \<open>lfree\<close> is the lowest
  free block.
\<close>

section \<open>Headers\<close>

lemma heap_sizes [simp]: "MIN_SIZE_ALIGNED = 12" "SIZEOF_STRUCT_MEM = 8" "MEM_SIZE_ALIGNED = 1600" "MEM_ALIGNMENT = 4"
  by (simp_all add: MIN_SIZE_ALIGNED_def SIZEOF_STRUCT_MEM_def MEM_SIZE_ALIGNED_def MEM_SIZE_def LWIP_MEM_ALIGN_SIZE_def MEM_ALIGNMENT_def)

type_synonym cell = "nat \<times> bool"

definition hdr :: "mem_heap \<Rightarrow> nat \<Rightarrow> nat \<times> nat \<times> u8" where
  "hdr h x = (unat (mem_next (ram h + x) h), unat (mem_prev (ram h + x) h), mem_used (ram h + x) h)"

lemma mem_fields:
  "unat (mem_next (ram h + x) h) = fst (hdr h x)" "unat (mem_prev (ram h + x) h) = fst (snd (hdr h x))"
  "mem_used (ram h + x) h = snd (snd (hdr h x))"
  by (simp_all add: hdr_def)

lemma set_regs [simp]:
  "ram (set_next a v h) = ram h" "ram (set_prev a v h) = ram h" "ram (set_used a w h) = ram h"
  "ram_end (set_next a v h) = ram_end h" "ram_end (set_prev a v h) = ram_end h" "ram_end (set_used a w h) = ram_end h"
  "lfree (set_next a v h) = lfree h" "lfree (set_prev a v h) = lfree h" "lfree (set_used a w h) = lfree h"
  by (simp_all add: set_next_def set_prev_def set_used_def)

lemma hdr_lfree [simp]: "hdr (h\<lparr>lfree := l\<rparr>) x = hdr h x"
  by (simp add: hdr_def mem_next_def mem_prev_def mem_used_def)

definition apart :: "nat \<Rightarrow> nat \<Rightarrow> bool" where
  "apart x a \<longleftrightarrow> x = a \<or> x + 8 \<le> a \<or> a + 8 \<le> x"

lemma hdr_set_next:
  assumes "apart x a" shows "hdr (set_next (ram h + a) v h) x = (if x = a then (unat v, snd (hdr h a)) else hdr h x)"
  using assms by (auto simp: hdr_def mem_next_def mem_prev_def mem_used_def set_next_def put_bytes_def apart_def)

lemma hdr_set_prev:
  assumes "apart x a"
  shows "hdr (set_prev (ram h + a) v h) x = (if x = a then (fst (hdr h a), unat v, snd (snd (hdr h a))) else hdr h x)"
  using assms by (auto simp: hdr_def mem_next_def mem_prev_def mem_used_def set_prev_def put_bytes_def apart_def)

lemma hdr_set_used:
  assumes "apart x a"
  shows "hdr (set_used (ram h + a) v h) x = (if x = a then (fst (hdr h a), fst (snd (hdr h a)), v) else hdr h x)"
  using assms by (auto simp: hdr_def mem_next_def mem_prev_def mem_used_def set_used_def put_bytes_def apart_def)

lemmas hdr_set = hdr_set_next hdr_set_prev hdr_set_used

section \<open>Rows of cells\<close>

definition width :: "cell list \<Rightarrow> nat" where
  "width cs = sum_list (map (\<lambda>c. fst c + 8) cs)"

lemma width_simps [simp]:
  "width [] = 0" "width (c # cs) = fst c + 8 + width cs" "width (xs @ ys) = width xs + width ys"
  by (simp_all add: width_def)

primrec seg :: "mem_heap \<Rightarrow> nat \<Rightarrow> nat \<Rightarrow> cell list \<Rightarrow> nat \<Rightarrow> nat \<Rightarrow> bool" where
  "seg h p pv [] q qv \<longleftrightarrow> p = q \<and> pv = qv"
| "seg h p pv (c # cs) q qv \<longleftrightarrow> hdr h p = (p + 8 + fst c, pv, of_bool (snd c)) \<and> 12 \<le> fst c \<and> fst c mod 4 = 0 \<and>
     seg h (p + 8 + fst c) p cs q qv"

lemma seg_append: "seg h p pv (xs @ ys) q qv \<longleftrightarrow> (\<exists>mv. seg h p pv xs (p + width xs) mv \<and> seg h (p + width xs) mv ys q qv)"
  by (induction xs arbitrary: p pv) (auto simp: ac_simps)

lemma seg_width: "seg h p pv cs q qv \<Longrightarrow> q = p + width cs"
  by (induction cs arbitrary: p pv) fastforce+

lemma seg_last: "seg h p pv cs q qv \<Longrightarrow> qv = (if cs = [] then pv else p + width (butlast cs))"
proof (induction cs arbitrary: p pv)
  case (Cons c cs)
  then have "qv = (if cs = [] then p else (p + 8 + fst c) + width (butlast cs))" by auto
  then show ?case by simp
qed simp

lemma seg_mod4: "seg h p pv cs q qv \<Longrightarrow> width cs mod 4 = 0"
proof (induction cs arbitrary: p pv)
  case (Cons c cs)
  then have "width cs mod 4 = 0" "fst c mod 4 = 0" by auto
  then show ?case by (simp add: mod_add_eq) presburger
qed simp

lemma seg_frame:
  "seg h p pv cs q qv \<Longrightarrow> (\<And>x. p \<le> x \<Longrightarrow> x + 20 \<le> q \<Longrightarrow> hdr h' x = hdr h x) \<Longrightarrow> seg h' p pv cs q qv"
proof (induction cs arbitrary: p pv)
  case (Cons c cs)
  have q: "q = p + width (c # cs)" using Cons.prems(1) by (rule seg_width)
  have "seg h' (p + 8 + fst c) p cs q qv"
    by (rule Cons.IH) (use Cons.prems in auto)
  moreover have "hdr h' p = hdr h p" using Cons.prems q by auto
  ultimately show ?case using Cons.prems(1) by auto
qed simp

text \<open>The predecessor of a row is kept in its first header only.\<close>

lemma seg_prev:
  assumes "seg h q pv ys 1600 qv" and "q \<le> 1600"
    and "\<And>x. q + 8 \<le> x \<Longrightarrow> x + 20 \<le> 1600 \<Longrightarrow> hdr h' x = hdr h x"
    and "q \<noteq> 1600 \<Longrightarrow> hdr h' q = (fst (hdr h q), pv', snd (snd (hdr h q)))"
  shows "\<exists>qv'. seg h' q pv' ys 1600 qv'"
proof (cases ys)
  case (Cons c cs)
  have "1600 = q + width ys" using assms(1) by (rule seg_width)
  then have "q \<noteq> 1600" using Cons by auto
  with assms(1,4) Cons have h: "hdr h' q = (q + 8 + fst c, pv', of_bool (snd c))" by auto
  have "seg h' (q + 8 + fst c) q cs 1600 qv"
    by (rule seg_frame [of h _ _ cs]) (use assms(1,3) Cons in auto)
  then have "seg h' q pv' ys 1600 qv" using h assms(1) Cons by simp
  then show ?thesis ..
next
  case Nil
  then show ?thesis using assms(1) by simp
qed

text \<open>All operations replace some neighbouring cells by others.\<close>

lemma splice:
  assumes "seg h 0 0 (xs @ mid @ ys) 1600 qv"
    and "\<And>x. x + 20 \<le> width xs \<or> width (xs @ mid) + 8 \<le> x \<Longrightarrow> x \<le> 1600 \<Longrightarrow> x = 1600 \<or> x + 20 \<le> 1600 \<Longrightarrow> hdr h' x = hdr h x"
    and "width (xs @ mid) \<noteq> 1600 \<Longrightarrow> hdr h' (width (xs @ mid)) =
      (fst (hdr h (width (xs @ mid))), pv', snd (snd (hdr h (width (xs @ mid)))))"
    and "\<And>pv. seg h 0 0 xs (width xs) pv \<Longrightarrow> seg h' (width xs) pv mid' (width (xs @ mid)) pv'"
  shows "\<exists>qv'. seg h' 0 0 (xs @ mid' @ ys) 1600 qv'"
proof -
  obtain pv mv where s: "seg h 0 0 xs (width xs) pv" "seg h (width xs) pv mid (width xs + width mid) mv"
    "seg h (width xs + width mid) mv ys 1600 qv"
    using assms(1) by (auto simp: seg_append)
  have w: "1600 = width xs + width mid + width ys" using seg_width [OF s(3)] .
  have 1: "seg h' 0 0 xs (width xs) pv"
    by (rule seg_frame [OF s(1)]) (use w in \<open>auto intro!: assms(2)\<close>)
  have 2: "seg h' (width xs) pv mid' (width xs + width mid) pv'" using assms(4) [OF s(1)] by simp
  have "\<exists>qv'. seg h' (width xs + width mid) pv' ys 1600 qv'"
    by (rule seg_prev [OF s(3)]) (use w assms(3) in \<open>auto intro!: assms(2)\<close>)
  moreover have "width xs + width mid = width xs + width mid'" using seg_width [OF 2] by simp
  ultimately show ?thesis using 1 2 by (auto simp: seg_append)
qed

section \<open>Heaps and their rows\<close>

definition heap_seg :: "mem_heap \<Rightarrow> cell list \<Rightarrow> bool" where
  "heap_seg h cs \<longleftrightarrow> ram h mod 4 = 0 \<and> ram h \<noteq> 0 \<and> ram h + 1608 \<le> 2 ^ 32 \<and> ram_end h = ram h + 1600 \<and>
     (\<exists>qv. seg h 0 0 cs 1600 qv) \<and> hdr h 1600 = (1600, 1600, 1)"

primrec lowest :: "cell list \<Rightarrow> nat" where
  "lowest [] = 0"
| "lowest (c # cs) = (if snd c then 8 + fst c + lowest cs else 0)"

definition no_adj :: "cell list \<Rightarrow> bool" where
  "no_adj cs \<longleftrightarrow> successively (\<lambda>a b. snd a \<or> snd b) cs"

definition heap_ok :: "mem_heap \<Rightarrow> cell list \<Rightarrow> bool" where
  "heap_ok h cs \<longleftrightarrow> heap_seg h cs \<and> no_adj cs \<and> lfree h = ram h + lowest cs"

text \<open>The start of the block in front.\<close>

definition before :: "cell list \<Rightarrow> nat" where
  "before xs = (if xs = [] then 0 else width (butlast xs))"

lemma before_snoc [simp]: "before [] = 0" "before (xs @ [c]) = width xs"
  by (simp_all add: before_def)

lemma seg_before: "seg h 0 0 xs p pv \<Longrightarrow> pv = before xs"
  using seg_last by (fastforce simp: before_def)

lemma heap_at:
  assumes "heap_seg h (xs @ c # ys)"
  shows "hdr h (width xs) = (width xs + 8 + fst c, before xs, of_bool (snd c))"
    and "12 \<le> fst c" and "fst c mod 4 = 0" and "width xs + 8 + fst c + width ys = 1600" and "width xs mod 4 = 0"
proof -
  obtain qv mv where s: "seg h 0 0 xs (width xs) mv" "seg h (width xs) mv (c # ys) 1600 qv"
    using assms by (auto simp: heap_seg_def seg_append)
  show "width xs + 8 + fst c + width ys = 1600" using seg_width [OF s(2)] by simp
  show "width xs mod 4 = 0" by (rule seg_mod4 [OF s(1)])
  show "hdr h (width xs) = (width xs + 8 + fst c, before xs, of_bool (snd c))" "12 \<le> fst c" "fst c mod 4 = 0"
    using s(2) seg_before [OF s(1)] by auto
qed

lemma heap_regs: "heap_seg h cs \<Longrightarrow> ram_end h = ram h + 1600 \<and> ram h mod 4 = 0 \<and> 0 < ram h \<and> ram h + 1608 \<le> 2 ^ 32"
  by (auto simp: heap_seg_def)

lemma heap_end: "heap_seg h cs \<Longrightarrow> hdr h 1600 = (1600, 1600, 1)"
  by (simp add: heap_seg_def)

text \<open>The header after a row: that of the next block, or the end of the heap.\<close>

lemma heap_after:
  assumes "heap_seg h (xs @ ys)"
  shows "snd (snd (hdr h (width xs))) = (case ys of [] \<Rightarrow> 1 | c # _ \<Rightarrow> of_bool (snd c))"
proof (cases ys)
  case Nil
  then have "width xs = 1600" using assms by (auto simp: heap_seg_def dest: seg_width [of _ 0 0])
  then show ?thesis using heap_end [OF assms] Nil by simp
next
  case (Cons c cs)
  then show ?thesis using heap_at(1) [of h xs c cs] assms by simp
qed

section \<open>Changed bytes\<close>

definition only_hdrs :: "nat set \<Rightarrow> mem_heap \<Rightarrow> mem_heap \<Rightarrow> bool" where
  "only_hdrs A h h' \<longleftrightarrow> ram h' = ram h \<and> ram_end h' = ram_end h \<and>
     (\<forall>y. (\<forall>x \<in> A. \<not> (ram h + x \<le> y \<and> y < ram h + x + 8)) \<longrightarrow> memory h' y = memory h y)"

lemma only_hdrs_refl [simp]: "only_hdrs A h h" "only_hdrs A h (h\<lparr>lfree := l\<rparr>)"
  by (simp_all add: only_hdrs_def)

lemma only_hdrs_trans: "only_hdrs A h h1 \<Longrightarrow> only_hdrs B h1 h2 \<Longrightarrow> A \<union> B \<subseteq> C \<Longrightarrow> only_hdrs C h h2"
  unfolding only_hdrs_def by (metis UnCI subsetD)

lemma only_hdrs_mono: "only_hdrs A h h1 \<Longrightarrow> A \<subseteq> C \<Longrightarrow> only_hdrs C h h1"
  unfolding only_hdrs_def by blast

lemma only_hdrs_set [intro]:
  "only_hdrs A h h1 \<Longrightarrow> a \<in> A \<Longrightarrow> ram h1 = r \<Longrightarrow> only_hdrs A h (set_next (r + a) v h1)"
  "only_hdrs A h h1 \<Longrightarrow> a \<in> A \<Longrightarrow> ram h1 = r \<Longrightarrow> only_hdrs A h (set_prev (r + a) v h1)"
  "only_hdrs A h h1 \<Longrightarrow> a \<in> A \<Longrightarrow> ram h1 = r \<Longrightarrow> only_hdrs A h (set_used (r + a) w h1)"
  "only_hdrs A h h1 \<Longrightarrow> only_hdrs A h (h1\<lparr>lfree := l\<rparr>)"
  by (fastforce simp: only_hdrs_def set_next_def set_prev_def set_used_def put_bytes_def)+

primrec starts :: "nat \<Rightarrow> cell list \<Rightarrow> nat set" where
  "starts p [] = {}"
| "starts p (c # cs) = insert p (starts (p + 8 + fst c) cs)"

primrec in_data :: "nat \<Rightarrow> cell list \<Rightarrow> nat \<Rightarrow> bool" where
  "in_data p [] y \<longleftrightarrow> False"
| "in_data p (c # cs) y \<longleftrightarrow> snd c \<and> p + 8 \<le> y \<and> y < p + 8 + fst c \<or> in_data (p + 8 + fst c) cs y"

lemma starts_append: "starts p (xs @ ys) = starts p xs \<union> starts (p + width xs) ys"
  by (induction xs arbitrary: p) (auto simp: ac_simps)

lemma in_data_append: "in_data p (xs @ ys) y \<longleftrightarrow> in_data p xs y \<or> in_data (p + width xs) ys y"
  by (induction xs arbitrary: p) (auto simp: ac_simps)

lemma starts_ge: "x \<in> starts p cs \<Longrightarrow> p \<le> x \<and> x + 8 \<le> p + width cs"
  by (induction cs arbitrary: p) fastforce+

lemma in_data_ge: "in_data p cs y \<Longrightarrow> p + 8 \<le> y \<and> y < p + width cs"
  by (induction cs arbitrary: p) fastforce+

lemma starts_no_data: "x \<in> starts p cs \<Longrightarrow> in_data p cs y \<Longrightarrow> \<not> (x \<le> y \<and> y < x + 8)"
  by (induction cs arbitrary: p) (use starts_ge in_data_ge in \<open>fastforce+\<close>)

text \<open>Bytes that are user data before and after are unchanged, as is all memory outside of the heap.\<close>

definition data_kept :: "mem_heap \<Rightarrow> cell list \<Rightarrow> mem_heap \<Rightarrow> cell list \<Rightarrow> bool" where
  "data_kept h cs h' cs' \<longleftrightarrow> ram h' = ram h \<and>
     (\<forall>y. in_data 0 cs y \<and> in_data 0 cs' y \<longrightarrow> memory h' (ram h + y) = memory h (ram h + y)) \<and>
     (\<forall>a. a < ram h \<or> ram h + 1608 \<le> a \<longrightarrow> memory h' a = memory h a)"

lemma only_hdrs_data:
  assumes "only_hdrs (starts 0 cs \<union> starts 0 cs') h h'" and "width cs = 1600" and "width cs' = 1600"
  shows "data_kept h cs h' cs'"
  unfolding data_kept_def
proof (intro conjI allI impI)
  show "ram h' = ram h" using assms(1) by (simp add: only_hdrs_def)
next
  fix y assume "in_data 0 cs y \<and> in_data 0 cs' y"
  then show "memory h' (ram h + y) = memory h (ram h + y)"
    using assms(1) starts_no_data [of _ 0] unfolding only_hdrs_def by (metis UnE add_le_cancel_left add.assoc nat_add_left_cancel_less)
next
  fix a assume a: "a < ram h \<or> ram h + 1608 \<le> a"
  have "x + 8 \<le> 1600" if "x \<in> starts 0 cs \<union> starts 0 cs'" for x
    using that starts_ge [of x 0 cs] starts_ge [of x 0 cs'] assms(2,3) by auto
  then have "\<forall>x \<in> starts 0 cs \<union> starts 0 cs'. \<not> (ram h + x \<le> a \<and> a < ram h + x + 8)"
    using a by fastforce
  then show "memory h' a = memory h a" using assms(1) unfolding only_hdrs_def by blast
qed

section \<open>The operations on headers\<close>

lemma heap_splice:
  assumes "heap_seg h (xs @ mid @ ys)" and "only_hdrs A h h'" and e: "e = width xs + width mid"
    and "\<And>x. x + 20 \<le> width xs \<or> e + 8 \<le> x \<Longrightarrow> x \<le> 1580 \<or> x = 1600 \<Longrightarrow> hdr h' x = hdr h x"
    and "e = 1600 \<Longrightarrow> hdr h' 1600 = hdr h 1600"
    and "e \<noteq> 1600 \<Longrightarrow> hdr h' e = (fst (hdr h e), pv', snd (snd (hdr h e)))"
    and "seg h' (width xs) (before xs) mid' e pv'"
  shows "heap_seg h' (xs @ mid' @ ys)"
proof -
  obtain qv where s: "seg h 0 0 (xs @ mid @ ys) 1600 qv" using assms(1) by (auto simp: heap_seg_def)
  have w: "e + width ys = 1600" using seg_width [OF s] e by simp
  have "\<exists>qv'. seg h' 0 0 (xs @ mid' @ ys) 1600 qv'"
  proof (rule splice [OF s, where pv' = pv'])
    show "seg h' (width xs) pv mid' (width (xs @ mid)) pv'" if "seg h 0 0 xs (width xs) pv" for pv
      using assms(7) seg_before [OF that] e by simp
    show "hdr h' x = hdr h x" if "x + 20 \<le> width xs \<or> width (xs @ mid) + 8 \<le> x" "x = 1600 \<or> x + 20 \<le> 1600" for x
      using that e by (intro assms(4)) auto
    show "hdr h' (width (xs @ mid)) =
        (fst (hdr h (width (xs @ mid))), pv', snd (snd (hdr h (width (xs @ mid)))))" if "width (xs @ mid) \<noteq> 1600"
      using assms(6) that unfolding e by simp
  qed
  moreover have "hdr h' 1600 = (1600, 1600, 1)"
    using assms(4) [of 1600] assms(5) heap_end [OF assms(1)] w by (cases ys) auto
  ultimately show ?thesis using assms(1,2) by (auto simp: heap_seg_def only_hdrs_def)
qed

lemma heap_next:
  assumes "heap_seg h (xs @ c # ys)" and e: "e = width xs + 8 + fst c"
  shows "e = 1600 \<longleftrightarrow> ys = []" "e \<noteq> 1600 \<Longrightarrow> fst (snd (hdr h e)) = width xs" "e \<noteq> 1600 \<Longrightarrow> e + 20 \<le> 1600" "e \<le> 1600"
proof -
  note a = heap_at [OF assms(1)]
  have d: "12 \<le> fst d" if "ys = d # zs" for d zs
    using heap_at(2) [of h "xs @ [c]" d zs] assms(1) that by simp
  show "e = 1600 \<longleftrightarrow> ys = []" "e \<le> 1600" using a(4) e by (cases ys; simp)+
  show "e \<noteq> 1600 \<Longrightarrow> e + 20 \<le> 1600" using a(4) e d by (cases ys) fastforce+
  show "fst (snd (hdr h e)) = width xs" if "e \<noteq> 1600"
  proof (cases ys)
    case (Cons d zs)
    have "width (xs @ [c]) = e" using e by simp
    then show ?thesis using heap_at(1) [of h "xs @ [c]" d zs] assms(1) Cons by simp
  qed (use a(4) e that in simp)
qed

definition link_back :: "nat \<Rightarrow> u16 \<Rightarrow> mem_heap \<Rightarrow> mem_heap" where
  "link_back a v h = (if unat (mem_next a h) \<noteq> MEM_SIZE_ALIGNED then set_prev (ptr_to_mem (mem_next a h) h) v h else h)"

lemma link_back_fold:
  "(if unat (mem_next a h) \<noteq> MEM_SIZE_ALIGNED then set_prev (ptr_to_mem (mem_next a h) h) v h else h) = link_back a v h"
  by (simp add: link_back_def)

lemma hdr_link_back:
  assumes "fst (hdr h p) = e" and "apart x e"
  shows "hdr (link_back (ram h + p) v h) x =
    (if x = e \<and> e \<noteq> 1600 then (fst (hdr h e), unat v, snd (snd (hdr h e))) else hdr h x)"
proof -
  have "unat (mem_next (ram h + p) h) = e" using assms(1) by (simp add: hdr_def)
  then have "link_back (ram h + p) v h = (if e \<noteq> 1600 then set_prev (ram h + e) v h else h)"
    by (simp add: link_back_def ptr_to_mem_def)
  then show ?thesis using hdr_set_prev [OF assms(2), of h v] by (cases "e = 1600") auto
qed

lemma link_back_regs [simp]:
  "ram (link_back a v h) = ram h" "ram_end (link_back a v h) = ram_end h" "lfree (link_back a v h) = lfree h"
  by (simp_all add: link_back_def)

lemma only_hdrs_link [intro]:
  assumes "only_hdrs A h h1" and "ram h1 = r" and "fst (hdr h1 p) \<noteq> 1600 \<Longrightarrow> fst (hdr h1 p) \<in> A"
  shows "only_hdrs A h (link_back (r + p) v h1)"
proof -
  have "unat (mem_next (r + p) h1) = fst (hdr h1 p)" using assms(2) by (simp add: hdr_def)
  then show ?thesis using assms by (auto simp: link_back_def ptr_to_mem_def intro!: only_hdrs_set)
qed

lemma next_at:
  assumes "hdr h p = (n, pv, u)" and "n < 2 ^ 16"
  shows "mem_next (ram h + p) h = of_nat n"
proof -
  have "unat (mem_next (ram h + p) h) = n" using assms(1) by (simp add: mem_fields)
  then show ?thesis using assms(2) by (simp add: word_unat_eq_iff unat_of_nat take_bit_nat_eq_self)
qed

lemma ptr_next: "ptr_to_mem (mem_next (ram h + p) h) h = ram h + fst (hdr h p)"
  "ptr_to_mem (mem_prev (ram h + p) h) h = ram h + fst (snd (hdr h p))"
  by (simp_all add: ptr_to_mem_def mem_fields)

lemma mem_to_ptr_at [simp]: "mem_to_ptr (ram h + p) h = of_nat p" "ram h' = ram h \<Longrightarrow> mem_to_ptr (ram h + p) h' = of_nat p"
  by (simp_all add: mem_to_ptr_def)

lemma unat_small [simp]: "n \<le> 1600 \<Longrightarrow> unat (of_nat n :: u16) = n"
  by (simp add: unat_of_nat take_bit_nat_eq_self)

lemma set_used_seg:
  assumes "heap_seg h (xs @ (n, b) # ys)"
  shows "heap_seg (set_used (ram h + width xs) (of_bool u) h) (xs @ (n, u) # ys)"
proof -
  define e where "e = width xs + 8 + n"
  define p where "p = width xs"
  have a: "hdr h p = (e, before xs, of_bool b)" "12 \<le> n" "n mod 4 = 0" "e = p + 8 + n"
    using heap_at [OF assms] by (simp_all add: p_def e_def)
  have x: "e = 1600 \<or> e + 20 \<le> 1600 \<and> fst (snd (hdr h e)) = p"
    using heap_next [OF assms, of e] by (auto simp: p_def e_def)
  let ?h = "set_used (ram h + p) (of_bool u) h"
  have "heap_seg ?h (xs @ [(n, u)] @ ys)"
  proof (rule heap_splice [where mid = "[(n, b)]" and pv' = p and e = e])
    show "heap_seg h (xs @ [(n, b)] @ ys)" using assms by simp
    show "only_hdrs {p} h ?h" by auto
    show "e = width xs + width [(n, b)]" by (simp add: e_def)
    show "hdr ?h y = hdr h y" if "y + 20 \<le> width xs \<or> e + 8 \<le> y" for y
      using that a(2,4) by (auto simp: hdr_set_used apart_def p_def [symmetric])
    show "hdr ?h 1600 = hdr h 1600" if "e = 1600" using that a(2,4) by (simp add: hdr_set_used apart_def)
    show "hdr ?h e = (fst (hdr h e), p, snd (snd (hdr h e)))" if "e \<noteq> 1600"
      using that a(2,4) x by (auto simp: hdr_set_used apart_def prod_eq_iff)
    show "seg ?h (width xs) (before xs) [(n, u)] e p"
      using a by (simp add: hdr_set_used apart_def p_def [symmetric])
  qed
  then show ?thesis by (simp add: p_def)
qed

lemma hdr_at:
  "ram h = r \<Longrightarrow> apart x a \<Longrightarrow> hdr (set_next (r + a) v h) x = (if x = a then (unat v, snd (hdr h a)) else hdr h x)"
  "ram h = r \<Longrightarrow> apart x a \<Longrightarrow> hdr (set_prev (r + a) v h) x = (if x = a then (fst (hdr h a), unat v, snd (snd (hdr h a))) else hdr h x)"
  "ram h = r \<Longrightarrow> apart x a \<Longrightarrow> hdr (set_used (r + a) w h) x = (if x = a then (fst (hdr h a), fst (snd (hdr h a)), w) else hdr h x)"
  "ram h = r \<Longrightarrow> mem_next (r + a) h = of_nat (fst (hdr h a))"
  "ram h = r \<Longrightarrow> mem_prev (r + a) h = of_nat (fst (snd (hdr h a)))"
  "ram h = r \<Longrightarrow> mem_used (r + a) h = snd (snd (hdr h a))"
  by (auto simp: hdr_set) (simp_all add: hdr_def)

text \<open>Joining a block with the one behind it, as both halves of \<open>plug_holes\<close> do.\<close>

definition merge :: "nat \<Rightarrow> nat \<Rightarrow> mem_heap \<Rightarrow> mem_heap" where
  "merge p q h = link_back q (mem_to_ptr p h) (set_next p (mem_next q h) h)"

lemma merge_seg:
  assumes "heap_seg h (xs @ (n, u) # (m, v) # ys)"
  defines "p \<equiv> width xs" and "q \<equiv> width xs + 8 + n"
  shows "heap_seg (merge (ram h + p) (ram h + q) h) (xs @ (n + 8 + m, u) # ys)"
    and "only_hdrs (starts 0 (xs @ (n, u) # (m, v) # ys)) h (merge (ram h + p) (ram h + q) h)"
proof -
  define e where "e = q + 8 + m"
  have wq: "width (xs @ [(n, u)]) = q" by (simp add: q_def)
  have s2: "heap_seg h ((xs @ [(n, u)]) @ (m, v) # ys)" using assms(1) by simp
  have a: "hdr h p = (q, before xs, of_bool u)" "12 \<le> n" "n mod 4 = 0" "q = p + 8 + n"
    using heap_at [OF assms(1)] by (simp_all add: p_def q_def)
  have b: "hdr h q = (e, p, of_bool v)" "12 \<le> m" "m mod 4 = 0"
    using heap_at [OF s2] unfolding wq by (simp_all add: p_def e_def)
  have x: "e = 1600 \<or> e + 20 \<le> 1600" "e \<le> 1600" "e = 1600 \<longleftrightarrow> ys = []"
    using heap_next [OF s2, of e] by (auto simp: q_def e_def)
  let ?h = "merge (ram h + p) (ram h + q) h"
  have nx: "set_next (ram h + p) (mem_next (ram h + q) h) h = set_next (ram h + p) (of_nat e) h"
    using b(1) by (simp add: hdr_at)
  have h: "hdr ?h y = (if y = p then (e, snd (hdr h p)) else if y = e \<and> e \<noteq> 1600 then (fst (hdr h e), p, snd (snd (hdr h e))) else hdr h y)"
    if "apart y p" "apart y e" for y
  proof -
    let ?g = "set_next (ram h + p) (of_nat e) h"
    have f: "fst (hdr ?g q) = e" using a b(1) by (simp add: hdr_at apart_def)
    have "hdr ?h y = (if y = e \<and> e \<noteq> 1600 then (fst (hdr ?g e), p, snd (snd (hdr ?g e))) else hdr ?g y)"
      using hdr_link_back [OF f that(2), of "of_nat p"] a(4) x(2) e_def unfolding merge_def nx by simp
    moreover have "apart e p" "e \<noteq> p" using a(4) e_def by (auto simp: apart_def)
    ultimately show ?thesis using that(1) x(2) by (auto simp: hdr_at)
  qed
  have st: "p \<in> starts 0 (xs @ (n, u) # (m, v) # ys)" "e \<noteq> 1600 \<Longrightarrow> e \<in> starts 0 (xs @ (n, u) # (m, v) # ys)"
    using x(3) by (auto simp: starts_append p_def e_def q_def neq_Nil_conv)
  show o: "only_hdrs (starts 0 (xs @ (n, u) # (m, v) # ys)) h ?h"
    unfolding merge_def nx using st a b(1) by (intro only_hdrs_link only_hdrs_set) (auto simp: hdr_at apart_def)
  have "heap_seg ?h (xs @ [(n + 8 + m, u)] @ ys)"
  proof (rule heap_splice [where mid = "[(n, u), (m, v)]" and pv' = p and e = e])
    show "heap_seg h (xs @ [(n, u), (m, v)] @ ys)" using assms(1) by simp
    show "only_hdrs (starts 0 (xs @ (n, u) # (m, v) # ys)) h ?h" by (rule o)
    show "e = width xs + width [(n, u), (m, v)]" by (simp add: e_def q_def)
    show "hdr ?h y = hdr h y" if "y + 20 \<le> width xs \<or> e + 8 \<le> y" for y
      using that a(4) e_def by (subst h) (auto simp: apart_def p_def [symmetric])
    show "hdr ?h 1600 = hdr h 1600" if "e = 1600"
      using that a(4) e_def by (subst h) (auto simp: apart_def)
    show "hdr ?h e = (fst (hdr h e), p, snd (snd (hdr h e)))" if "e \<noteq> 1600"
      using that a(4) e_def by (subst h) (auto simp: apart_def)
    show "seg ?h (width xs) (before xs) [(n + 8 + m, u)] e p"
      using a b x(2) e_def h [of p] by (auto simp: apart_def p_def [symmetric])
  qed
  then show "heap_seg ?h (xs @ (n + 8 + m, u) # ys)" by simp
qed

text \<open>Dividing the room of some cells into a used cell and a free one behind it.\<close>

lemma carve_seg:
  assumes "heap_seg h (xs @ mid @ ys)" and "mid \<noteq> []" and "width mid = s + 8 + r + 8"
    and "12 \<le> s" "s mod 4 = 0" "12 \<le> r" "r mod 4 = 0"
    and "only_hdrs A h h'"
    and p: "p = width xs" and e: "e = p + width mid"
    and h: "\<And>y. apart y p \<Longrightarrow> apart y (p + 8 + s) \<Longrightarrow> apart y e \<Longrightarrow> hdr h' y =
      (if y = p then (p + 8 + s, before xs, 1) else if y = p + 8 + s then (e, p, 0)
       else if y = e \<and> e \<noteq> 1600 then (fst (hdr h e), p + 8 + s, snd (snd (hdr h e))) else hdr h y)"
  shows "heap_seg h' (xs @ (s, True) # (r, False) # ys)"
proof -
  have "heap_seg h' (xs @ [(s, True), (r, False)] @ ys)"
  proof (rule heap_splice [OF assms(1,8), where pv' = "p + 8 + s" and e = e])
    show "e = width xs + width mid" by (simp add: e p)
    have ee: "e = p + 8 + s + 8 + r" using assms(3) e by simp
    show "hdr h' y = hdr h y" if "y + 20 \<le> width xs \<or> e + 8 \<le> y" for y
      using that ee assms(4,6) by (subst h) (auto simp: apart_def p [symmetric])
    show "hdr h' 1600 = hdr h 1600" if "e = 1600"
      using that ee assms(4,6) by (subst h) (auto simp: apart_def)
    show "hdr h' e = (fst (hdr h e), p + 8 + s, snd (snd (hdr h e)))" if "e \<noteq> 1600"
      using that ee assms(4,6) by (subst h) (auto simp: apart_def)
    show "seg h' (width xs) (before xs) [(s, True), (r, False)] e (p + 8 + s)"
      using ee assms(4-7) h [of p] h [of "p + 8 + s"] by (auto simp: apart_def p [symmetric])
  qed
  then show ?thesis by simp
qed

lemma carve_link:
  assumes "heap_seg h (xs @ mid @ ys)" and "mid \<noteq> []" and w: "width mid = s + 8 + r + 8"
    and "12 \<le> s" "s mod 4 = 0" "12 \<le> r" "r mod 4 = 0"
    and p: "p = width xs" and q: "q = p + 8 + s" and e: "e = p + width mid"
    and o: "only_hdrs (insert q (starts 0 (xs @ mid @ ys))) h g"
    and g: "\<And>y. apart y p \<Longrightarrow> apart y q \<Longrightarrow>
      hdr g y = (if y = p then (q, before xs, 1) else if y = q then (e, p, 0) else hdr h y)"
  shows "heap_seg (link_back (ram h + q) (of_nat q) g) (xs @ (s, True) # (r, False) # ys)"
    and "only_hdrs (insert q (starts 0 (xs @ mid @ ys))) h (link_back (ram h + q) (of_nat q) g)"
proof -
  obtain qv where "seg h 0 0 (xs @ mid @ ys) 1600 qv" using assms(1) by (auto simp: heap_seg_def)
  from seg_width [OF this] have t: "e + width ys = 1600" using p e by simp
  have rg: "ram g = ram h" using o by (simp add: only_hdrs_def)
  have qp: "apart q p" "apart p q" "q \<noteq> p" using q assms(4) by (auto simp: apart_def)
  have fq: "fst (hdr g q) = e" using g [OF qp(1)] qp by (simp add: apart_def)
  have em: "e \<in> starts 0 (xs @ mid @ ys)" if "e \<noteq> 1600"
    using that t by (cases ys) (auto simp: starts_append p e)
  have sm: "unat (of_nat q :: u16) = q" using q e w t by (intro unat_small) simp
  show ol: "only_hdrs (insert q (starts 0 (xs @ mid @ ys))) h (link_back (ram h + q) (of_nat q) g)"
    using o rg fq em by (intro only_hdrs_link) auto
  show "heap_seg (link_back (ram h + q) (of_nat q) g) (xs @ (s, True) # (r, False) # ys)"
  proof (rule carve_seg [OF assms(1-7) ol p e])
    fix y assume y: "apart y p" "apart y (p + 8 + s)" "apart y e"
    have ep: "apart e p" "apart e q" "e \<noteq> p" "e \<noteq> q" using q e w assms(4,6) by (auto simp: apart_def)
    have "hdr (link_back (ram g + q) (of_nat q) g) y =
        (if y = e \<and> e \<noteq> 1600 then (fst (hdr g e), unat (of_nat q :: u16), snd (snd (hdr g e))) else hdr g y)"
      by (rule hdr_link_back [OF fq y(3)])
    then show "hdr (link_back (ram h + q) (of_nat q) g) y =
      (if y = p then (p + 8 + s, before xs, 1) else if y = p + 8 + s then (e, p, 0)
       else if y = e \<and> e \<noteq> 1600 then (fst (hdr h e), p + 8 + s, snd (snd (hdr h e))) else hdr h y)"
      using g [OF y(1)] g [of e] y ep sm rg by (auto simp: q [symmetric])
  qed
qed

lemma split_block_seg:
  assumes "heap_seg h (xs @ (n, False) # ys)" and "s + 20 \<le> n" and "12 \<le> s" and "s mod 4 = 0"
    and p: "p = width xs"
  shows "\<exists>h'. split_block (of_nat p) (of_nat s) h = Some h' \<and> heap_seg h' (xs @ (s, True) # (n - s - 8, False) # ys) \<and>
    only_hdrs (insert (p + 8 + s) (starts 0 (xs @ (n, False) # ys))) h h' \<and> lfree h' = lfree h"
proof -
  define e where "e = p + 8 + n"
  define q where "q = p + 8 + s"
  have a: "hdr h p = (e, before xs, 0)" "n mod 4 = 0" "e \<le> 1600"
    using heap_at [OF assms(1)] heap_next [OF assms(1), of e] by (simp_all add: p e_def)
  have p2: "(of_nat p + 8 + of_nat s :: u16) = of_nat q" by (simp add: q_def)
  let ?r = "ram h"
  let ?g = "set_used (?r + p) 1 (set_next (?r + p) (of_nat q)
    (set_prev (?r + q) (of_nat p) (set_next (?r + q) (of_nat e) (set_used (?r + q) 0 h))))"
  let ?h = "link_back (?r + q) (of_nat q) ?g"
  have ap: "apart p q" "apart q p" "p \<noteq> q"
    using q_def by (auto simp: apart_def)
  have sm: "p \<le> 1600" "q \<le> 1600" using assms(2) a(3) e_def q_def by auto
  have g: "hdr ?g y = (if y = p then (q, before xs, 1) else if y = q then (e, p, 0) else hdr h y)"
    if "apart y p" "apart y q" for y
    using that ap sm a by (auto simp: hdr_at)
  have o: "split_block (of_nat p) (of_nat s) h = Some ?h"
    unfolding split_block_def Let_def link_back_fold
    using sm a ap by (simp add: ptr_to_mem_def p2 hdr_at)
  have m: "starts 0 (xs @ [(n, False)] @ ys) = starts 0 (xs @ (n, False) # ys)" by simp
  have pm: "p \<in> starts 0 (xs @ (n, False) # ys)" by (simp add: starts_append p)
  have og: "only_hdrs (insert q (starts 0 (xs @ [(n, False)] @ ys))) h ?g"
    using pm by (intro only_hdrs_set) auto
  have hm: "heap_seg h (xs @ [(n, False)] @ ys)" using assms(1) by simp
  have wm: "width [(n, False)] = s + 8 + (n - s - 8) + 8" "e = p + width [(n, False)]" using assms(2) by (simp_all add: e_def)
  have rm: "12 \<le> n - s - 8" "(n - s - 8) mod 4 = 0" using assms(2,4) a(2) by presburger+
  note c = carve_link [OF hm _ wm(1) assms(3,4) rm p q_def wm(2) og g]
  show ?thesis using o c by (simp add: q_def)
qed

lemma trim_split_seg:
  assumes "heap_seg h (xs @ (n, True) # ys)" and "s + 20 \<le> n" and "12 \<le> s" and "s mod 4 = 0"
    and p: "p = width xs"
  shows "\<exists>h'. trim_split (ram h + p) (of_nat p) (of_nat s) h = Some h' \<and>
    heap_seg h' (xs @ (s, True) # (n - s - 8, False) # ys) \<and>
    only_hdrs (insert (p + 8 + s) (starts 0 (xs @ (n, True) # ys))) h h' \<and> lfree h' = min (ram h + p + 8 + s) (lfree h)"
proof -
  define e where "e = p + 8 + n"
  define q where "q = p + 8 + s"
  have a: "hdr h p = (e, before xs, 1)" "n mod 4 = 0" "e \<le> 1600"
    using heap_at [OF assms(1)] heap_next [OF assms(1), of e] by (simp_all add: p e_def)
  have p2: "(of_nat p + 8 + of_nat s :: u16) = of_nat q" by (simp add: q_def)
  let ?r = "ram h"
  let ?k = "if ?r + q < lfree h then h\<lparr>lfree := ?r + q\<rparr> else h"
  let ?g = "set_next (?r + p) (of_nat q)
    (set_prev (?r + q) (of_nat p) (set_next (?r + q) (of_nat e) (set_used (?r + q) 0 ?k)))"
  let ?h = "link_back (?r + q) (of_nat q) ?g"
  have ap: "apart p q" "apart q p" "p \<noteq> q" using q_def by (auto simp: apart_def)
  have sm: "p \<le> 1600" "q \<le> 1600" using assms(2) a(3) e_def q_def by auto
  have g: "hdr ?g y = (if y = p then (q, before xs, 1) else if y = q then (e, p, 0) else hdr h y)"
    if "apart y p" "apart y q" for y
    using that ap sm a by (auto simp: hdr_at)
  have o: "trim_split (ram h + p) (of_nat p) (of_nat s) h = Some ?h"
    unfolding trim_split_def Let_def link_back_fold
    using sm a ap by (simp add: ptr_to_mem_def p2 hdr_at)
  have pm: "p \<in> starts 0 (xs @ (n, True) # ys)" by (simp add: starts_append p)
  have og: "only_hdrs (insert q (starts 0 (xs @ [(n, True)] @ ys))) h ?g"
    using pm by (intro only_hdrs_set) auto
  have hm: "heap_seg h (xs @ [(n, True)] @ ys)" using assms(1) by simp
  have wm: "width [(n, True)] = s + 8 + (n - s - 8) + 8" "e = p + width [(n, True)]" using assms(2) by (simp_all add: e_def)
  have rm: "12 \<le> n - s - 8" "(n - s - 8) mod 4 = 0" using assms(2,4) a(2) by presburger+
  note c = carve_link [OF hm _ wm(1) assms(3,4) rm p q_def wm(2) og g]
  show ?thesis using o c by (simp add: q_def min_def)
qed

lemma trim_move_seg:
  assumes "heap_seg h (xs @ (n, True) # (m, False) # ys)" and "s < n" and "12 \<le> s" and "s mod 4 = 0"
    and p: "p = width xs" and q': "q' = p + 8 + n"
  shows "\<exists>h'. trim_move (ram h + p) (of_nat p) (of_nat s) (ram h + q') h = Some h' \<and>
    heap_seg h' (xs @ (s, True) # (n + m - s, False) # ys) \<and>
    only_hdrs (insert (p + 8 + s) (starts 0 (xs @ (n, True) # (m, False) # ys))) h h' \<and>
    lfree h' = (if lfree h = ram h + q' then ram h + p + 8 + s else lfree h)"
proof -
  define e where "e = q' + 8 + m"
  define q where "q = p + 8 + s"
  have hq: "heap_seg h ((xs @ [(n, True)]) @ (m, False) # ys)" "width (xs @ [(n, True)]) = q'"
    using assms(1) by (simp_all add: q' p)
  have a: "hdr h p = (q', before xs, 1)" "n mod 4 = 0"
    using heap_at [OF assms(1)] by (simp_all add: p q')
  have b: "hdr h q' = (e, p, 0)" "12 \<le> m" "m mod 4 = 0" "e \<le> 1600"
    using heap_at [OF hq(1)] heap_next [OF hq(1), of e] unfolding hq(2) by (simp_all add: p e_def)
  have p2: "(of_nat p + 8 + of_nat s :: u16) = of_nat q" by (simp add: q_def)
  let ?r = "ram h"
  let ?k = "if lfree h = ?r + q' then h\<lparr>lfree := ?r + q\<rparr> else h"
  let ?g = "set_next (?r + p) (of_nat q)
    (set_prev (?r + q) (of_nat p) (set_next (?r + q) (of_nat e) (set_used (?r + q) 0 ?k)))"
  let ?h = "link_back (?r + q) (of_nat q) ?g"
  have ap: "apart p q" "apart q p" "p \<noteq> q" using q_def by (auto simp: apart_def)
  have sm: "p \<le> 1600" "q \<le> 1600" using assms(2) b(4) e_def q_def q' by auto
  have g: "hdr ?g y = (if y = p then (q, before xs, 1) else if y = q then (e, p, 0) else hdr h y)"
    if "apart y p" "apart y q" for y
    using that ap sm a b by (auto simp: hdr_at)
  have o: "trim_move (ram h + p) (of_nat p) (of_nat s) (ram h + q') h = Some ?h"
    unfolding trim_move_def Let_def link_back_fold
    using sm a b ap by (simp add: ptr_to_mem_def p2 hdr_at)
  have pm: "p \<in> starts 0 (xs @ (n, True) # (m, False) # ys)" by (simp add: starts_append p)
  have og: "only_hdrs (insert q (starts 0 (xs @ [(n, True), (m, False)] @ ys))) h ?g"
    using pm by (intro only_hdrs_set) auto
  have hm: "heap_seg h (xs @ [(n, True), (m, False)] @ ys)" using assms(1) by simp
  have wm: "width [(n, True), (m, False)] = s + 8 + (n + m - s) + 8" "e = p + width [(n, True), (m, False)]"
    using assms(2) by (simp_all add: e_def q')
  have rm: "12 \<le> n + m - s" "(n + m - s) mod 4 = 0" using assms(2,4) a(2) b(2,3) by presburger+
  note c = carve_link [OF hm _ wm(1) assms(3,4) rm p q_def wm(2) og g]
  show ?thesis using o c by (simp add: q_def)
qed

end
