(* ===== verification/Lwip_Malloc.thy ===== *)
theory Lwip_Malloc
  imports Lwip_Heap
begin

text \<open>
  The operations of the heap refine operations on rows of cells: allocation is first fit, freeing
  marks a cell and joins free neighbours, trimming cuts a cell.  From this follow the invariant of
  all reachable heaps and the laws its users rely on.
\<close>

section \<open>Allocation\<close>

definition cut :: "nat \<Rightarrow> nat \<Rightarrow> cell list" where
  "cut s n = (if s + 20 \<le> n then [(s, True), (n - s - 8, False)] else [(n, True)])"

fun alloc_cells :: "nat \<Rightarrow> cell list \<Rightarrow> (nat \<times> cell list) option" where
  "alloc_cells s [] = None"
| "alloc_cells s (c # cs) =
     (if \<not> snd c \<and> s \<le> fst c then Some (0, cut s (fst c) @ cs)
      else map_option (\<lambda>(i, ds). (8 + fst c + i, c # ds)) (alloc_cells s cs))"

lemma alloc_cells_None: "alloc_cells s cs = None \<longleftrightarrow> (\<forall>c \<in> set cs. snd c \<or> fst c < s)"
  by (induction cs) (auto simp: not_le)

lemma alloc_cells_Some:
  "alloc_cells s cs = Some (i, ds) \<Longrightarrow>
     \<exists>xs n ys. cs = xs @ (n, False) # ys \<and> s \<le> n \<and> i = width xs \<and> ds = xs @ cut s n @ ys \<and>
       (\<forall>c \<in> set xs. snd c \<or> fst c < s)"
proof (induction s cs arbitrary: i ds rule: alloc_cells.induct)
  case (2 s c cs)
  show ?case
  proof (cases "\<not> snd c \<and> s \<le> fst c")
    case True
    then have "c # cs = [] @ (fst c, False) # cs \<and> s \<le> fst c \<and> i = width [] \<and> ds = [] @ cut s (fst c) @ cs"
      using 2(2) by (cases c) auto
    then show ?thesis by fastforce
  next
    case False
    then obtain j es where j: "alloc_cells s cs = Some (j, es)" "i = 8 + fst c + j" "ds = c # es"
      using 2(2) by auto
    obtain xs n ys where k: "cs = xs @ (n, False) # ys" "s \<le> n" "j = width xs" "es = xs @ cut s n @ ys"
      "\<forall>c \<in> set xs. snd c \<or> fst c < s"
      using 2(1) [OF False j(1)] by blast
    have "c # cs = (c # xs) @ (n, False) # ys \<and> s \<le> n \<and> i = width (c # xs) \<and> ds = (c # xs) @ cut s n @ ys \<and>
        (\<forall>d \<in> set (c # xs). snd d \<or> fst d < s)"
      using False j k by auto
    then show ?thesis by blast
  qed
qed simp

lemma ucast_small: "n \<le> 1600 \<Longrightarrow> (ucast (of_nat n :: u16) :: u32) = of_nat n"
  by (simp add: word_unat_eq_iff unsigned_ucast_eq unat_of_nat take_bit_nat_eq_self)

lemma unat32_small: "n < 2 ^ 32 \<Longrightarrow> unat (of_nat n :: u32) = n"
  by (simp add: unat_of_nat take_bit_nat_eq_self)

lemma user_size_at:
  assumes "heap_seg h (xs @ (n, b) # ys)"
  shows "user_size (of_nat (width xs)) h = of_nat n" "n \<le> 1600"
proof -
  have a: "hdr h (width xs) = (width xs + 8 + n, before xs, of_bool b)" "width xs + 8 + n \<le> 1600"
    using heap_at [OF assms] by simp_all
  then have "ptr_to_mem (of_nat (width xs)) h = ram h + width xs" by (simp add: ptr_to_mem_def)
  then show "user_size (of_nat (width xs)) h = of_nat n"
    using a by (simp add: user_size_def hdr_at ucast_small del: of_nat_add) (simp add: ucast_small [of "width xs"])
  show "n \<le> 1600" using a by simp
qed

lemma lowest_append:
  "\<forall>c \<in> set xs. snd c \<Longrightarrow> lowest (xs @ ys) = width xs + lowest ys"
  "\<not> (\<forall>c \<in> set xs. snd c) \<Longrightarrow> lowest (xs @ ys) = lowest xs"
  by (induction xs) auto

lemma lowest_less: "\<not> (\<forall>c \<in> set xs. snd c) \<Longrightarrow> lowest xs < width xs"
  by (induction xs) auto

lemma seg_lfree [simp]: "seg (h\<lparr>lfree := l\<rparr>) p pv cs q qv = seg h p pv cs q qv"
  by (induction cs arbitrary: p pv) simp_all

lemma heap_seg_lfree [simp]: "heap_seg (h\<lparr>lfree := l\<rparr>) cs = heap_seg h cs"
  by (simp add: heap_seg_def)

lemma lfree_self: "lfree h = l \<Longrightarrow> h\<lparr>lfree := l\<rparr> = h"
  by (cases h) simp

lemma lfree_loop_at:
  "heap_seg h (xs @ ys) \<Longrightarrow> lfree_loop (ram h + width xs) h = Some (ram h + width xs + lowest ys)"
proof (induction ys arbitrary: xs)
  case Nil
  then have "width xs = 1600" by (auto simp: heap_seg_def dest: seg_width [of _ 0 0])
  with Nil show ?case by (subst lfree_loop.simps) (simp add: heap_seg_def)
next
  case (Cons c cs)
  note a = heap_at [OF Cons.prems]
  have r: "ram_end h = ram h + 1600" using Cons.prems by (simp add: heap_seg_def)
  show ?case
  proof (cases "snd c")
    case True
    have "heap_seg h ((xs @ [c]) @ cs)" using Cons.prems by simp
    from Cons.IH [OF this] have "lfree_loop (ram h + (width xs + 8 + fst c)) h = Some (ram h + width xs + lowest (c # cs))"
      using True by (simp add: ac_simps)
    moreover have "ptr_to_mem (mem_next (ram h + width xs) h) h = ram h + (width xs + 8 + fst c)"
      using a by (simp add: ptr_next)
    moreover have "mem_used (ram h + width xs) h \<noteq> 0" "ram h + width xs \<noteq> ram_end h"
      using True a r by (simp_all add: hdr_at)
    ultimately show ?thesis by (subst lfree_loop.simps) simp
  next
    case False
    then show ?thesis using a by (subst lfree_loop.simps) (simp add: hdr_at)
  qed
qed

lemma no_adj_cut:
  assumes "no_adj (xs @ (n, False) # ys)" shows "no_adj (xs @ cut s n @ ys)"
  using assms by (auto simp: no_adj_def cut_def successively_append_iff successively_Cons)

text \<open>What the loop does with a block that is big enough.\<close>

lemma cut_seg:
  assumes "heap_seg h (xs @ (n, False) # ys)" and "12 \<le> s" and "s mod 4 = 0" and "s \<le> n"
  defines "p \<equiv> width xs"
  shows "\<exists>h'. (if user_size (of_nat p) h \<ge> ucast (of_nat s :: u16) + of_nat SIZEOF_STRUCT_MEM + of_nat MIN_SIZE_ALIGNED
      then split_block (of_nat p) (of_nat s) h else Some (set_used (ram h + p) 1 h)) = Some h' \<and>
    heap_seg h' (xs @ cut s n @ ys) \<and>
    only_hdrs (starts 0 (xs @ (n, False) # ys) \<union> starts 0 (xs @ cut s n @ ys)) h h' \<and> lfree h' = lfree h"
proof -
  have n: "n \<le> 1600" "user_size (of_nat p) h = of_nat n" using user_size_at [OF assms(1)] by (simp_all add: p_def)
  have "(ucast (of_nat s :: u16) :: u32) + of_nat SIZEOF_STRUCT_MEM + of_nat MIN_SIZE_ALIGNED = of_nat (s + 20)"
    using assms(4) n by (simp add: ucast_small)
  then have c: "(user_size (of_nat p) h \<ge> ucast (of_nat s :: u16) + of_nat SIZEOF_STRUCT_MEM + of_nat MIN_SIZE_ALIGNED) = (s + 20 \<le> n)"
    using n assms(4) by (simp only: word_le_nat_alt unat32_small) (simp add: unat32_small del: of_nat_add)
  show ?thesis
  proof (cases "s + 20 \<le> n")
    case True
    obtain h' where "split_block (of_nat p) (of_nat s) h = Some h'"
      "heap_seg h' (xs @ (s, True) # (n - s - 8, False) # ys)"
      "only_hdrs (insert (p + 8 + s) (starts 0 (xs @ (n, False) # ys))) h h'" "lfree h' = lfree h"
      using split_block_seg [OF assms(1) True assms(2,3), of p] by (auto simp: p_def)
    then show ?thesis unfolding c using True
      by (auto simp: cut_def starts_append p_def elim!: only_hdrs_mono)
  next
    case False
    then show ?thesis unfolding c using set_used_seg [OF assms(1), of True]
      by (auto simp: cut_def starts_append p_def intro!: only_hdrs_set)
  qed
qed

lemma take_block_ok:
  assumes "heap_ok h (xs @ (n, False) # ys)" and "12 \<le> s" and "s mod 4 = 0" and "s \<le> n"
  shows "\<exists>h'. take_block (of_nat (width xs)) (of_nat s) h = Some (Some (ram h + width xs + 8), h') \<and>
    heap_ok h' (xs @ cut s n @ ys) \<and> only_hdrs (starts 0 (xs @ (n, False) # ys) \<union> starts 0 (xs @ cut s n @ ys)) h h'"
proof -
  have sg: "heap_seg h (xs @ (n, False) # ys)" and na: "no_adj (xs @ (n, False) # ys)"
    and lf: "lfree h = ram h + lowest (xs @ (n, False) # ys)"
    using assms(1) by (simp_all add: heap_ok_def)
  let ?p = "width xs"
  have p: "?p \<le> 1600" using heap_at(4) [OF sg] by simp
  then have pm: "ptr_to_mem (of_nat ?p) h = ram h + ?p" by (simp add: ptr_to_mem_def)
  obtain h1 where h1: "(if user_size (of_nat ?p) h \<ge> ucast (of_nat s :: u16) + of_nat SIZEOF_STRUCT_MEM + of_nat MIN_SIZE_ALIGNED
      then split_block (of_nat ?p) (of_nat s) h else Some (set_used (ram h + ?p) 1 h)) = Some h1"
    "heap_seg h1 (xs @ cut s n @ ys)"
    "only_hdrs (starts 0 (xs @ (n, False) # ys) \<union> starts 0 (xs @ cut s n @ ys)) h h1" "lfree h1 = lfree h"
    using cut_seg [OF sg assms(2-4)] by blast
  have r: "ram h1 = ram h" using h1(3) by (simp add: only_hdrs_def)
  let ?l = "ram h + lowest (xs @ cut s n @ ys)"
  have "(if ram h + ?p = lfree h1 then do {
           cur \<leftarrow> lfree_loop (lfree h1) h1;
           let h = h1\<lparr>lfree := cur\<rparr>;
           LWIP_ASSERT (lfree h = ram_end h \<or> mem_used (lfree h) h = 0) h
         } else Some h1) = Some (h1\<lparr>lfree := ?l\<rparr>)"
  proof (cases "\<forall>c \<in> set xs. snd c")
    case True
    then have "lfree h1 = ram h + ?p" using lf h1(4) by (simp add: lowest_append(1))
    then show ?thesis using lfree_loop_at [OF h1(2)] r True by (simp add: lowest_append(1) ac_simps)
  next
    case False
    then have "lfree h1 = ?l" "lfree h1 \<noteq> ram h + ?p" using lf h1(4) lowest_less [OF False] by (simp_all add: lowest_append(2))
    then show ?thesis by (simp add: lfree_self)
  qed
  then have "take_block (of_nat ?p) (of_nat s) h = Some (Some (ram h + ?p + 8), h1\<lparr>lfree := ?l\<rparr>)"
    unfolding take_block_def Let_def pm using h1(1) by (simp only: Option.bind.simps LWIP_ASSERT_simps heap_sizes)
  moreover have "heap_ok (h1\<lparr>lfree := ?l\<rparr>) (xs @ cut s n @ ys)"
    using h1(2) r no_adj_cut [OF na] by (simp add: heap_ok_def)
  ultimately show ?thesis using h1(3) by (auto intro: only_hdrs_set)
qed

text \<open>The search: the loop starts at the lowest free block, in front of which all blocks are used.\<close>

lemma malloc_loop_fit:
  assumes "heap_ok h (xs @ ys)" and "12 \<le> s" and "s mod 4 = 0" and "s \<le> 1600"
  shows "malloc_loop (of_nat s) (of_nat (width xs)) h = (case alloc_cells s ys of None \<Rightarrow> Some (None, h)
    | Some (i, _) \<Rightarrow> take_block (of_nat (width xs + i)) (of_nat s) h)"
  using assms(1)
proof (induction ys arbitrary: xs)
  case Nil
  then have "width xs = 1600" by (auto simp: heap_ok_def heap_seg_def dest: seg_width [of _ 0 0])
  then have "\<not> unat (of_nat (width xs) :: u16) < MEM_SIZE_ALIGNED - unat (of_nat s :: u16)" by simp
  then show ?case by (subst malloc_loop.simps) simp
next
  case (Cons c cs)
  have sg: "heap_seg h (xs @ (fst c, snd c) # cs)" using Cons.prems by (simp add: heap_ok_def)
  note a = heap_at [OF sg] and u = user_size_at [OF sg]
  have p: "width xs \<le> 1600" using a(4) by simp
  show ?case
  proof (cases "width xs < 1600 - s")
    case False
    have "alloc_cells s (c # cs) = None"
    proof -
      have "fst d < s" if d: "d \<in> set (c # cs)" for d
      proof -
        obtain us vs where "c # cs = us @ d # vs" using split_list [OF d] by blast
        from arg_cong [OF this, of width] show ?thesis using a(4) False assms(4) by simp
      qed
      then show ?thesis unfolding alloc_cells_None by blast
    qed
    then show ?thesis using False p assms(4) by (subst malloc_loop.simps) simp
  next
    case True
    have f: "(user_size (of_nat (width xs)) h \<ge> ucast (of_nat s :: u16)) = (s \<le> fst c)"
      using u assms(4) by (simp only: word_le_nat_alt ucast_small unat32_small) (simp add: unat32_small)
    have m: "mem_used (ptr_to_mem (of_nat (width xs)) h) h = of_bool (snd c)"
      using a(1) p by (simp add: ptr_to_mem_def hdr_at)
    have nx: "mem_next (ptr_to_mem (of_nat (width xs)) h) h = of_nat (width (xs @ [c]))"
      using a(1) p by (simp add: ptr_to_mem_def hdr_at)
    have "heap_ok h ((xs @ [c]) @ cs)" using Cons.prems by simp
    note ih = Cons.IH [OF this]
    show ?thesis
    proof (cases "\<not> snd c \<and> s \<le> fst c")
      case True
      then show ?thesis using \<open>width xs < 1600 - s\<close> f m p assms(4) by (subst malloc_loop.simps) simp
    next
      case False
      then have "malloc_loop (of_nat s) (of_nat (width xs)) h = malloc_loop (of_nat s) (of_nat (width (xs @ [c]))) h"
        using \<open>width xs < 1600 - s\<close> f m p assms(4) unfolding nx [symmetric]
        by (subst malloc_loop.simps) auto
      then show ?thesis using ih False by (auto simp: ac_simps split: option.splits)
    qed
  qed
qed

lemma block_size_at:
  assumes "unat n \<le> 1600"
  shows "block_size n = of_nat (max 12 (LWIP_MEM_ALIGN_SIZE (unat n)))"
proof -
  have b: "LWIP_MEM_ALIGN_SIZE (unat n) \<le> 1600" using align_size_bounds [of "unat n"] assms by presburger
  then have "((of_nat (LWIP_MEM_ALIGN_SIZE (unat n)) :: u16) < of_nat MIN_SIZE_ALIGNED) = (LWIP_MEM_ALIGN_SIZE (unat n) < 12)"
    by (simp add: word_less_nat_alt)
  then show ?thesis by (simp add: block_size_def Let_def max_def)
qed

definition need :: "u16 \<Rightarrow> nat" where
  "need n = max 12 (LWIP_MEM_ALIGN_SIZE (unat n))"

lemma need_props: "12 \<le> need n" "need n mod 4 = 0" "unat n \<le> need n" "unat n \<le> 1600 \<Longrightarrow> need n \<le> 1600"
proof -
  note b = align_size_bounds [of "unat n"]
  show "12 \<le> need n" "unat n \<le> need n" "need n mod 4 = 0" using b by (auto simp: need_def max_def)
  show "need n \<le> 1600" if "unat n \<le> 1600" using b that unfolding need_def max_def by presburger
qed

lemma too_big:
  assumes "unat n > 1600" shows "unat (block_size n) > 1600 \<or> block_size n < n"
proof (cases "LWIP_MEM_ALIGN_SIZE (unat n) < 2 ^ 16")
  case True
  then have "unat (of_nat (LWIP_MEM_ALIGN_SIZE (unat n)) :: u16) = LWIP_MEM_ALIGN_SIZE (unat n)"
    by (simp add: unat_of_nat take_bit_nat_eq_self)
  then have "unat (block_size n) \<ge> LWIP_MEM_ALIGN_SIZE (unat n)"
    using align_size_bounds(1) [of "unat n"] assms by (simp add: block_size_def Let_def word_less_nat_alt)
  then show ?thesis using align_size_bounds(1) [of "unat n"] assms by linarith
next
  case False
  then have "LWIP_MEM_ALIGN_SIZE (unat n) = 2 ^ 16"
    using align_size_bounds [of "unat n"] unat_u16_less [of n] by (simp add: not_less) presburger
  then have "block_size n = 12" by (simp add: block_size_def Let_def)
  then show ?thesis using assms by (simp add: word_less_nat_alt)
qed

text \<open>What \<open>mem_malloc\<close> does, for every request.\<close>

lemma malloc_refines:
  assumes "heap_ok h cs"
  shows "case (if n = 0 \<or> 1600 < unat n then None else alloc_cells (need n) cs) of
      None \<Rightarrow> mem_malloc n h = Some (None, h)
    | Some (i, cs') \<Rightarrow> \<exists>h'. mem_malloc n h = Some (Some (ram h + i + 8), h') \<and> heap_ok h' cs' \<and>
        only_hdrs (starts 0 cs \<union> starts 0 cs') h h'"
proof (cases "n = 0 \<or> 1600 < unat n")
  case True
  then show ?thesis using too_big [of n] by (auto simp: mem_malloc_def Let_def)
next
  case False
  define xs where "xs = takeWhile snd cs"
  define ys where "ys = dropWhile snd cs"
  have c: "cs = xs @ ys" "\<forall>c \<in> set xs. snd c" by (auto simp: xs_def ys_def dest: set_takeWhileD)
  have l: "lowest cs = width xs"
  proof (cases ys)
    case (Cons d ds)
    then have "\<not> snd d" using ys_def by (metis hd_dropWhile list.distinct(1) list.sel(1))
    then show ?thesis using c Cons by (simp add: lowest_append(1))
  next
    case Nil
    then show ?thesis using c lowest_append(1) [of xs "[]"] by simp
  qed
  have w: "width xs \<le> 1600"
    using assms c(1) by (auto simp: heap_ok_def heap_seg_def dest: seg_width)
  have n: "block_size n = of_nat (need n)" using block_size_at [of n] False by (simp add: need_def)
  have s: "need n \<le> 1600" using False need_props(4) [of n] by simp
  then have g: "\<not> (unat (block_size n) > MEM_SIZE_ALIGNED \<or> block_size n < n)"
    using need_props(3) [of n] by (simp add: n word_less_nat_alt)
  have "mem_malloc n h = malloc_loop (of_nat (need n)) (of_nat (width xs)) h"
    using g False assms n l by (simp add: mem_malloc_def Let_def heap_ok_def)
  also have "\<dots> = (case alloc_cells (need n) ys of None \<Rightarrow> Some (None, h)
      | Some (i, _) \<Rightarrow> take_block (of_nat (width xs + i)) (of_nat (need n)) h)"
    using malloc_loop_fit [of h xs ys "need n"] assms c(1) need_props s by simp
  finally have m: "mem_malloc n h = \<dots>" .
  have ac: "alloc_cells k (xs @ ys) = map_option (\<lambda>(i, ds). (width xs + i, xs @ ds)) (alloc_cells k ys)" for k
    using c(2) by (induction xs) (auto simp: option.map_comp comp_def split_def ac_simps option.map_ident)
  show ?thesis
  proof (cases "alloc_cells (need n) ys")
    case None
    then show ?thesis using m False by (simp add: ac c(1))
  next
    case (Some r)
    obtain i ds where r: "r = (i, ds)" by fastforce
    obtain as k bs where f: "ys = as @ (k, False) # bs" "need n \<le> k" "i = width as" "ds = as @ cut (need n) k @ bs"
      using alloc_cells_Some Some r by blast
    have "heap_ok h ((xs @ as) @ (k, False) # bs)" using assms c(1) f(1) by simp
    from take_block_ok [OF this need_props(1,2) f(2)] obtain h' where
      "take_block (of_nat (width xs + i)) (of_nat (need n)) h = Some (Some (ram h + (width xs + i) + 8), h')"
      "heap_ok h' (xs @ ds)" "only_hdrs (starts 0 cs \<union> starts 0 (xs @ ds)) h h'"
      using f c(1) by (auto simp del: of_nat_add)
    then show ?thesis using m Some r False by (simp add: ac c(1))
  qed
qed

section \<open>Freeing\<close>

fun join :: "cell list \<Rightarrow> cell list" where
  "join (c # d # cs) =
     (if \<not> snd c \<and> \<not> snd d then join ((fst c + 8 + fst d, False) # cs) else c # join (d # cs))"
| "join [c] = [c]"
| "join [] = []"

lemma join_no_adj: "no_adj cs \<Longrightarrow> join cs = cs"
  by (induction cs rule: join.induct) (auto simp: no_adj_def successively_Cons)

lemma join_used: "join (xs @ (k, True) # zs) = join xs @ (k, True) # join zs"
proof (induction xs rule: join.induct)
  case 3
  then show ?case by (cases zs) auto
qed (auto simp: neq_Nil_conv; cases zs; auto)+

lemma no_adj_parts:
  assumes "no_adj (xs @ (n, True) # ys)"
  shows "no_adj xs" "no_adj ys"
  using assms by (auto simp: no_adj_def successively_append_iff successively_Cons)

text \<open>The two cells that may join the freed one.\<close>

definition tail_join :: "nat \<Rightarrow> cell list \<Rightarrow> cell list" where
  "tail_join n ys = (case ys of (m, False) # zs \<Rightarrow> (n + 8 + m, False) # zs | _ \<Rightarrow> (n, False) # ys)"

lemma join_tail:
  assumes "no_adj ys" shows "join ((n, False) # ys) = tail_join n ys"
proof (cases ys)
  case (Cons d zs)
  obtain m b where d: "d = (m, b)" by fastforce
  show ?thesis
  proof (cases b)
    case True
    then show ?thesis using assms Cons d join_no_adj [OF assms] by (simp add: tail_join_def)
  next
    case False
    then have "no_adj ((n + 8 + m, False) # zs)"
      using assms Cons d by (cases zs) (auto simp: no_adj_def successively_Cons)
    then show ?thesis using Cons d False join_no_adj by (simp add: tail_join_def)
  qed
qed (simp add: tail_join_def)

lemma join_freed:
  assumes "no_adj (xs @ (n, True) # ys)"
  shows "join (xs @ (n, False) # ys) = (if xs \<noteq> [] \<and> \<not> snd (last xs)
    then butlast xs @ tail_join (fst (last xs) + 8 + n) ys else xs @ tail_join n ys)"
proof (cases xs rule: rev_cases)
  case Nil
  then show ?thesis using join_tail [OF no_adj_parts(2) [OF assms]] by simp
next
  case (snoc ws c)
  obtain m b where c: "c = (m, b)" by fastforce
  have ny: "no_adj ys" "no_adj xs" using no_adj_parts [OF assms] by simp_all
  show ?thesis
  proof (cases b)
    case True
    have "join ws = ws" using ny(2) snoc by (intro join_no_adj) (simp add: no_adj_def successively_append_iff)
    then show ?thesis using snoc c True join_used [of ws m "(n, False) # ys"] join_tail [OF ny(1)] by simp
  next
    case False
    have j: "join ((m, False) # (n, False) # ys) = tail_join (m + 8 + n) ys"
      using join_tail [OF ny(1)] by simp
    show ?thesis
    proof (cases ws rule: rev_cases)
      case Nil
      then show ?thesis using snoc c False j by simp
    next
      case (snoc vs d)
      then have d: "snd d" using ny(2) \<open>xs = ws @ [c]\<close> c False
        by (auto simp: no_adj_def successively_append_iff)
      have "join vs = vs" using ny(2) \<open>xs = ws @ [c]\<close> snoc
        by (intro join_no_adj) (simp add: no_adj_def successively_append_iff)
      then show ?thesis
        using \<open>xs = ws @ [c]\<close> snoc c d False j join_used [of vs "fst d" "(m, False) # (n, False) # ys"]
        by (cases d) (simp add: butlast_append)
    qed
  qed
qed

lemma link_valid_at:
  assumes "heap_seg h (xs @ c # ys)"
  shows "mem_link_valid (ram h + width xs) h"
proof -
  define e where "e = width xs + 8 + fst c"
  note a = heap_at [OF assms, folded e_def] and x = heap_next [OF assms e_def]
  have r: "ram_end h = ram h + 1600" using heap_regs [OF assms] by simp
  have b: "before xs \<le> 1600" using a(4) e_def by (cases xs rule: rev_cases) auto
  have nx: "unat (mem_next (ram h + width xs) h) = e" "unat (mem_prev (ram h + width xs) h) = before xs"
    "ptr_to_mem (mem_next (ram h + width xs) h) h = ram h + e"
    "ptr_to_mem (mem_prev (ram h + width xs) h) h = ram h + before xs"
    using a(1) by (simp_all add: mem_fields ptr_next)
  have p: "mem_prev (ram h + width xs) h = of_nat (width xs) \<or> mem_next (ram h + before xs) h = of_nat (width xs)"
  proof (cases xs rule: rev_cases)
    case Nil
    then show ?thesis using a(1) hdr_at(5) [of h "ram h" 0] by simp
  next
    case (snoc ws d)
    have "heap_seg h (ws @ d # c # ys)" using assms snoc by simp
    moreover have "width xs = width ws + 8 + fst d" using snoc by simp
    ultimately have "mem_next (ram h + width ws) h = of_nat (width xs)"
      using heap_at(1) [of h ws d] by (simp add: hdr_at del: of_nat_add)
    then show ?thesis using snoc by simp
  qed
  have q: "e = 1600 \<or> mem_prev (ram h + e) h = of_nat (width xs)"
    using x(2) by (cases "e = 1600") (simp_all add: hdr_at)
  show ?thesis
    unfolding mem_link_valid_def Let_def mem_to_ptr_at nx r heap_sizes using p q b x(4) by auto
qed

text \<open>The freed block stays marked as unused in the memory when it is joined.\<close>

lemma merge_used:
  assumes "heap_seg h (xs @ (n, u) # (m, v) # ys)" and "y = width xs \<or> y = width xs + 8 + n"
  shows "mem_used (ram h + y) (merge (ram h + width xs) (ram h + (width xs + 8 + n)) h) = mem_used (ram h + y) h"
proof -
  define p where "p = width xs"
  define q where "q = p + 8 + n"
  define e where "e = q + 8 + m"
  have s2: "heap_seg h ((xs @ [(n, u)]) @ (m, v) # ys)" "width (xs @ [(n, u)]) = q"
    using assms(1) by (simp_all add: q_def p_def)
  have b: "hdr h q = (e, p, of_bool v)" "e \<le> 1600"
    using heap_at [OF s2(1)] heap_next(4) [OF s2(1), of e] unfolding s2(2) by (simp_all add: p_def e_def)
  let ?g = "set_next (ram h + p) (of_nat e) h"
  have nx: "set_next (ram h + p) (mem_next (ram h + q) h) h = ?g" using b(1) by (simp add: hdr_at)
  have ap: "apart y p" "apart y e" "apart q p" "q \<noteq> p" "y \<noteq> e"
    using assms(2) by (auto simp: apart_def p_def q_def e_def)
  have f: "fst (hdr ?g q) = e" using ap b(1) by (simp add: hdr_at)
  have h: "hdr (merge (ram h + p) (ram h + q) h) y = hdr ?g y"
    using hdr_link_back [OF f ap(2), of "mem_to_ptr (ram h + p) h"] ap(5) unfolding merge_def nx by simp
  have r: "ram (merge (ram h + p) (ram h + q) h) = ram h" by (simp add: merge_def)
  have "mem_used (ram h + y) (merge (ram h + p) (ram h + q) h) = snd (snd (hdr ?g y))"
    using hdr_at(6) [OF r, of y] h by simp
  also have "\<dots> = mem_used (ram h + y) h" using ap(1) by (simp add: hdr_at)
  finally show ?thesis by (simp only: p_def q_def)
qed

lemma plug_forward_seg:
  assumes "heap_seg h (xs @ (n, False) # ys)" and "lfree h \<le> ram h + width xs"
  defines "h' \<equiv> plug_forward (ram h + width xs) h"
  shows "heap_seg h' (xs @ tail_join n ys)" "only_hdrs (starts 0 (xs @ (n, False) # ys)) h h'" "lfree h' = lfree h"
    "mem_used (ram h + width xs) h' = mem_used (ram h + width xs) h"
proof -
  define p where "p = width xs"
  define q where "q = p + 8 + n"
  have a: "hdr h p = (q, before xs, 0)" "12 \<le> n" using heap_at [OF assms(1)] by (simp_all add: p_def q_def)
  have nm: "ptr_to_mem (mem_next (ram h + p) h) h = ram h + q" using a(1) by (simp add: ptr_next)
  have u: "mem_used (ram h + q) h = (case ys of [] \<Rightarrow> 1 | c # _ \<Rightarrow> of_bool (snd c))"
  proof -
    have "width (xs @ [(n, False)]) = q" by (simp add: q_def p_def)
    then show ?thesis using heap_after [of h "xs @ [(n, False)]" ys] assms(1) by (simp add: hdr_at)
  qed
  have r: "ram_end h = ram h + 1600" using heap_regs [OF assms(1)] by simp
  have e: "q = 1600 \<longleftrightarrow> ys = []" using heap_next(1) [OF assms(1), of q] by (simp add: q_def p_def)
  consider (j) m zs where "ys = (m, False) # zs" | (n) "tail_join n ys = (n, False) # ys" "h' = h"
  proof (cases "\<exists>m zs. ys = (m, False) # zs")
    case True
    then show thesis using j by blast
  next
    case False
    then have "mem_used (ram h + q) h \<noteq> 0" using u by (cases ys) auto
    then have "h' = h" by (simp add: h'_def plug_forward_def Let_def p_def [symmetric] nm)
    moreover have "tail_join n ys = (n, False) # ys" using False by (auto simp: tail_join_def split: list.splits prod.splits bool.splits)
    ultimately show thesis using n by blast
  qed
  then have "heap_seg h' (xs @ tail_join n ys) \<and> only_hdrs (starts 0 (xs @ (n, False) # ys)) h h' \<and> lfree h' = lfree h \<and>
    mem_used (ram h + width xs) h' = mem_used (ram h + width xs) h"
  proof cases
    case j
    have "q \<noteq> 1600" "mem_used (ram h + q) h = 0" "lfree h \<noteq> ram h + q" "p \<noteq> q"
      using j e u assms(2) by (auto simp: p_def q_def)
    then have "h' = merge (ram h + p) (ram h + q) h"
      using r by (simp add: h'_def plug_forward_def p_def [symmetric] nm Let_def link_back_fold [symmetric] merge_def
          mem_to_ptr_def link_back_def)
    then show ?thesis
      using merge_seg [of h xs n False m False zs] merge_used [of h xs n False m False zs "width xs"] assms(1) j
      by (auto simp: tail_join_def p_def q_def merge_def)
  next
    case n
    then show ?thesis using assms(1) by simp
  qed
  then show "heap_seg h' (xs @ tail_join n ys)" "only_hdrs (starts 0 (xs @ (n, False) # ys)) h h'" "lfree h' = lfree h"
    "mem_used (ram h + width xs) h' = mem_used (ram h + width xs) h"
    by blast+
qed

definition head_join :: "cell list \<Rightarrow> nat \<Rightarrow> cell list \<Rightarrow> cell list" where
  "head_join xs k zs = (if xs \<noteq> [] \<and> \<not> snd (last xs)
     then butlast xs @ (fst (last xs) + 8 + k, False) # zs else xs @ (k, False) # zs)"

lemma plug_backward_seg:
  assumes "heap_seg h (xs @ (k, False) # zs)" and "lfree h \<le> ram h + width xs"
    and "xs \<noteq> [] \<and> \<not> snd (last xs) \<Longrightarrow> lfree h < ram h + width xs"
  defines "h' \<equiv> plug_backward (ram h + width xs) h"
  shows "heap_seg h' (head_join xs k zs)" "only_hdrs (starts 0 (xs @ (k, False) # zs)) h h'" "lfree h' = lfree h"
    "mem_used (ram h + width xs) h' = mem_used (ram h + width xs) h"
proof -
  define q where "q = width xs"
  have a: "hdr h q = (q + 8 + k, before xs, 0)" using heap_at [OF assms(1)] by (simp add: q_def)
  have pm: "ptr_to_mem (mem_prev (ram h + q) h) h = ram h + before xs" using a by (simp add: ptr_next)
  have "heap_seg h' (head_join xs k zs) \<and> only_hdrs (starts 0 (xs @ (k, False) # zs)) h h' \<and> lfree h' = lfree h \<and>
    mem_used (ram h + width xs) h' = mem_used (ram h + width xs) h"
  proof (cases xs rule: rev_cases)
    case Nil
    then have "h' = h" using pm by (simp add: h'_def plug_backward_def Let_def q_def)
    then show ?thesis using assms(1) Nil by (simp add: head_join_def)
  next
    case (snoc ws d)
    have s: "heap_seg h (ws @ d # (k, False) # zs)" using assms(1) snoc by simp
    have u: "mem_used (ram h + width ws) h = of_bool (snd d)" using heap_at(1) [OF s] by (simp add: hdr_at)
    have b: "before xs = width ws" "width ws \<noteq> q" using snoc by (simp_all add: q_def)
    show ?thesis
    proof (cases "snd d")
      case True
      then have "h' = h" using pm u b by (simp add: h'_def plug_backward_def Let_def q_def [symmetric])
      then show ?thesis using assms(1) snoc True by (simp add: head_join_def)
    next
      case False
      then have "lfree h \<noteq> ram h + q" using assms(3) snoc by (auto simp: q_def)
      then have "h' = merge (ram h + width ws) (ram h + q) h"
        using False u b pm by (simp add: h'_def plug_backward_def q_def [symmetric] Let_def merge_def mem_to_ptr_def link_back_def)
      moreover have "q = width ws + 8 + fst d" using snoc by (simp add: q_def)
      moreover have "lfree (merge p r h) = lfree h" for p r by (simp add: merge_def)
      ultimately show ?thesis
        using merge_seg [of h ws "fst d" False k False zs] merge_used [of h ws "fst d" False k False zs q] s False snoc
        unfolding q_def [symmetric] by (cases d) (simp add: head_join_def)
    qed
  qed
  then show "heap_seg h' (head_join xs k zs)" "only_hdrs (starts 0 (xs @ (k, False) # zs)) h h'" "lfree h' = lfree h"
    "mem_used (ram h + width xs) h' = mem_used (ram h + width xs) h"
    by blast+
qed

lemma tail_join_split: "\<exists>k zs. tail_join n ys = (k, False) # zs"
  by (auto simp: tail_join_def split: list.splits prod.splits bool.splits)

lemma tail_join_head:
  assumes "tail_join n ys = (k, False) # zs"
  shows "head_join xs k zs = (if xs \<noteq> [] \<and> \<not> snd (last xs)
    then butlast xs @ tail_join (fst (last xs) + 8 + n) ys else xs @ tail_join n ys)"
  using assms by (auto simp: head_join_def tail_join_def ac_simps split: list.splits prod.splits bool.splits)

lemma join_hd: "cs \<noteq> [] \<Longrightarrow> join cs \<noteq> [] \<and> (snd (hd cs) \<longrightarrow> snd (hd (join cs)))"
  by (induction cs rule: join.induct) auto

lemma no_adj_join: "no_adj (join cs)"
proof (induction cs rule: join.induct)
  case (1 c d cs)
  show ?case
  proof (cases "\<not> snd c \<and> \<not> snd d")
    case False
    then show ?thesis using 1 join_hd [of "d # cs"] by (auto simp: no_adj_def successively_Cons)
  qed (use 1 in simp)
qed (simp_all add: no_adj_def)

lemma lowest_freed:
  "lowest (xs @ (n, False) # ys) = min (width xs) (lowest (xs @ (n, True) # ys))"
proof (cases "\<forall>c \<in> set xs. snd c")
  case False
  then show ?thesis using lowest_less [of xs] by (simp add: lowest_append(2))
qed (simp add: lowest_append(1))

lemma lowest_join: "lowest (join cs) = lowest cs"
  by (induction cs rule: join.induct) auto

lemma mem_of_at: "0 < r \<Longrightarrow> r + p < 2 ^ 32 \<Longrightarrow> mem_of (r + p + 8) = r + p"
  by (simp add: mem_of_def)

text \<open>\<open>mem_free\<close> of a block handed out releases its cell and joins it with its free neighbours.\<close>

lemma free_refines:
  assumes "heap_ok h (xs @ (n, True) # ys)"
  shows "\<exists>h'. mem_free (Some (ram h + width xs + 8)) h = Some h' \<and> heap_ok h' (join (xs @ (n, False) # ys)) \<and>
    only_hdrs (starts 0 (xs @ (n, True) # ys)) h h' \<and> mem_free (Some (ram h + width xs + 8)) h' = Some h'"
proof -
  define p where "p = width xs"
  let ?a = "ram h + p"
  have sg: "heap_seg h (xs @ (n, True) # ys)" and na: "no_adj (xs @ (n, True) # ys)"
    and lf: "lfree h = ram h + lowest (xs @ (n, True) # ys)"
    using assms by (simp_all add: heap_ok_def)
  note at = heap_at [OF sg, folded p_def] and r = heap_regs [OF sg]
  have mo: "mem_of (?a + 8) = ?a" using at(4) r by (intro mem_of_at) auto
  define h1 where "h1 = set_used ?a 0 h"
  define h2 where "h2 = (if ?a < lfree h1 then h1\<lparr>lfree := ?a\<rparr> else h1)"
  have s2: "heap_seg h2 (xs @ (n, False) # ys)" "ram h2 = ram h"
    using set_used_seg [OF sg, of False] by (simp_all add: h2_def h1_def p_def)
  have l2: "lfree h2 = ram h + lowest (xs @ (n, False) # ys)"
    unfolding lowest_freed p_def [symmetric] using lf by (auto simp: h2_def h1_def min_def)
  have o2: "only_hdrs (starts 0 (xs @ (n, True) # ys)) h h2"
    by (auto simp: h2_def h1_def starts_append p_def intro!: only_hdrs_set)
  define h3 where "h3 = plug_forward (ram h2 + width xs) h2"
  have le: "lfree h2 \<le> ram h2 + width xs" unfolding l2 lowest_freed s2(2) by simp
  note f = plug_forward_seg [OF s2(1) le, folded h3_def]
  obtain k zs where k: "tail_join n ys = (k, False) # zs" using tail_join_split by blast
  have r3: "ram h3 = ram h" using f(2) s2(2) by (simp add: only_hdrs_def)
  define h4 where "h4 = plug_backward (ram h3 + width xs) h3"
  have le3: "lfree h3 \<le> ram h3 + width xs" using f(3) le r3 s2(2) by simp
  have lt3: "lfree h3 < ram h3 + width xs" if "xs \<noteq> [] \<and> \<not> snd (last xs)"
  proof -
    have "\<not> (\<forall>c \<in> set xs. snd c)" using that by auto
    from lowest_append(2) [OF this] lowest_less [OF this] show ?thesis using l2 f(3) r3 by simp
  qed
  note b = plug_backward_seg [OF f(1) [unfolded k] le3 lt3, folded h4_def]
  have j: "head_join xs k zs = join (xs @ (n, False) # ys)" using tail_join_head [OF k] join_freed [OF na] by simp
  have st: "starts 0 (xs @ (k, False) # zs) \<subseteq> starts 0 (xs @ (n, True) # ys)"
    using k by (auto simp: tail_join_def starts_append ac_simps split: list.splits prod.splits bool.splits)
  have st2: "starts 0 (xs @ (n, False) # ys) = starts 0 (xs @ (n, True) # ys)" by (simp add: starts_append)
  have o4: "only_hdrs (starts 0 (xs @ (n, True) # ys)) h h4"
    by (rule only_hdrs_trans [OF o2 only_hdrs_trans [OF f(2) b(2) order_refl]]) (use st st2 in auto)
  have ok: "heap_ok h4 (join (xs @ (n, False) # ys))"
    using b(1,3) f(3) l2 o4 no_adj_join by (simp add: heap_ok_def j lowest_join only_hdrs_def)
  have "(?a + 8) mod 4 = 0" using r at(5) by presburger
  then have "mem_free (Some (?a + 8)) h = plug_holes ?a h2"
    using mo r at link_valid_at [OF sg] by (simp add: mem_free_def Let_def hdr_at h2_def h1_def p_def)
  also have "\<dots> = Some h4" using s2(2) r3 by (simp add: plug_holes_def h4_def h3_def p_def)
  finally have fr: "mem_free (Some (?a + 8)) h = Some h4" .
  have "mem_used ?a h4 = 0"
    using b(4) f(4) heap_at(1) [OF s2(1)] s2(2) r3 by (simp add: p_def hdr_at)
  moreover have "ram h4 = ram h" "ram_end h4 = ram_end h" using o4 by (simp_all add: only_hdrs_def)
  ultimately have "mem_free (Some (?a + 8)) h4 = Some h4" using mo by (simp add: mem_free_def Let_def)
  with fr show ?thesis using ok o4 by (simp add: p_def)
qed

section \<open>Trimming\<close>

definition trim_cells :: "nat \<Rightarrow> nat \<Rightarrow> cell list \<Rightarrow> cell list" where
  "trim_cells s n ys = (if n \<le> s then (n, True) # ys else case ys of
     (m, False) # zs \<Rightarrow> (s, True) # (n + m - s, False) # zs
   | _ \<Rightarrow> if s + 20 \<le> n then (s, True) # (n - s - 8, False) # ys else (n, True) # ys)"

lemma trim_ok:
  assumes "heap_ok h (xs @ (n, True) # ys)" and "12 \<le> s" and "s mod 4 = 0" and "s < n"
  defines "p \<equiv> width xs" and "q \<equiv> width xs + 8 + n"
  shows "\<exists>h'. (if mem_used (ram h + q) h = 0 then trim_move (ram h + p) (of_nat p) (of_nat s) (ram h + q) h
      else if s + SIZEOF_STRUCT_MEM + MIN_SIZE_ALIGNED \<le> n then trim_split (ram h + p) (of_nat p) (of_nat s) h
      else Some h) = Some h' \<and> heap_ok h' (xs @ trim_cells s n ys) \<and>
    only_hdrs (starts 0 (xs @ (n, True) # ys) \<union> starts 0 (xs @ trim_cells s n ys)) h h'"
proof -
  have sg: "heap_seg h (xs @ (n, True) # ys)" and na: "no_adj (xs @ (n, True) # ys)"
    and lf: "lfree h = ram h + lowest (xs @ (n, True) # ys)"
    using assms(1) by (simp_all add: heap_ok_def)
  have u: "mem_used (ram h + q) h = (case ys of [] \<Rightarrow> 1 | c # _ \<Rightarrow> of_bool (snd c))"
  proof -
    have "width (xs @ [(n, True)]) = q" by (simp add: q_def)
    then show ?thesis using heap_after [of h "xs @ [(n, True)]" ys] sg by (simp add: hdr_at)
  qed
  consider (move) m zs where "ys = (m, False) # zs" | (used) "mem_used (ram h + q) h \<noteq> 0"
    "trim_cells s n ys = (if s + 20 \<le> n then (s, True) # (n - s - 8, False) # ys else (n, True) # ys)"
  proof (cases ys)
    case Nil
    then show thesis using used u assms(4) by (simp add: trim_cells_def)
  next
    case (Cons c zs)
    obtain m b where c: "c = (m, b)" by fastforce
    show thesis
      by (cases b) (use move used u assms(4) Cons c in \<open>simp_all add: trim_cells_def\<close>)
  qed
  then show ?thesis
  proof cases
    case move
    have l: "lowest (xs @ (s, True) # (n + m - s, False) # zs) =
        (if lowest (xs @ (n, True) # ys) = q then p + 8 + s else lowest (xs @ (n, True) # ys))"
    proof (cases "\<forall>c \<in> set xs. snd c")
      case True
      then show ?thesis using move by (simp add: lowest_append(1) p_def q_def)
    next
      case False
      then show ?thesis using lowest_less [OF False] by (simp add: lowest_append(2) q_def)
    qed
    have n: "no_adj (xs @ (s, True) # (n + m - s, False) # zs)"
      using na move by (auto simp: no_adj_def successively_append_iff successively_Cons)
    show ?thesis
      using trim_move_seg [of h xs n m zs s p q] sg assms(2-4) move u lf n l
      by (auto simp: heap_ok_def trim_cells_def p_def q_def starts_append only_hdrs_def ac_simps)
  next
    case used
    show ?thesis
    proof (cases "s + 20 \<le> n")
      case True
      have l: "lowest (xs @ (s, True) # (n - s - 8, False) # ys) = min (p + 8 + s) (lowest (xs @ (n, True) # ys))"
      proof (cases "\<forall>c \<in> set xs. snd c")
        case True
        then show ?thesis using \<open>s + 20 \<le> n\<close> by (simp add: lowest_append(1) p_def)
      next
        case False
        then show ?thesis using lowest_less [OF False] by (simp add: lowest_append(2) p_def)
      qed
      have "ys = [] \<or> snd (hd ys)" using used(1) u by (cases ys) auto
      then have n: "no_adj (xs @ (s, True) # (n - s - 8, False) # ys)"
        using na by (cases ys) (auto simp: no_adj_def successively_append_iff successively_Cons)
      show ?thesis
        using trim_split_seg [of h xs n ys s p] sg assms(2,3) True used lf n l
        by (auto simp: heap_ok_def p_def starts_append only_hdrs_def ac_simps)
    next
      case False
      then show ?thesis using used assms(1) by simp
    qed
  qed
qed

lemma trim_refines:
  assumes "heap_ok h (xs @ (k, True) # ys)"
  defines "r \<equiv> ram h + width xs + 8"
  shows "if 1600 < unat n \<or> k < need n then mem_trim (Some r) n h = Some (None, h)
    else \<exists>h'. mem_trim (Some r) n h = Some (Some r, h') \<and> heap_ok h' (xs @ trim_cells (need n) k ys) \<and>
      only_hdrs (starts 0 (xs @ (k, True) # ys) \<union> starts 0 (xs @ trim_cells (need n) k ys)) h h'"
proof (cases "1600 < unat n")
  case True
  then show ?thesis using too_big [of n] by (simp add: mem_trim_def Let_def)
next
  case False
  define p where "p = width xs"
  have sg: "heap_seg h (xs @ (k, True) # ys)" using assms(1) by (simp add: heap_ok_def)
  note at = heap_at [OF sg, folded p_def] and rg = heap_regs [OF sg]
  have n: "block_size n = of_nat (need n)" using block_size_at [of n] False by (simp add: need_def)
  have s: "need n \<le> 1600" using False need_props(4) [of n] by simp
  then have g: "\<not> (unat (block_size n) > MEM_SIZE_ALIGNED \<or> block_size n < n)"
    using need_props(3) [of n] by (simp add: n word_less_nat_alt)
  have r: "r = ram h + p + 8" "\<not> (r < ram h \<or> ram_end h \<le> r)" using at(2,4) rg by (auto simp: r_def p_def)
  have mo: "mem_of r = ram h + p" unfolding r(1) using at(4) rg by (intro mem_of_at) auto
  have nx: "mem_next (ram h + p) h = of_nat (p + 8 + k)" using at(1) by (simp add: hdr_at)
  have sz: "mem_next (ram h + p) h - of_nat p - of_nat SIZEOF_STRUCT_MEM = of_nat k" by (simp add: nx)
  have k: "k \<le> 1600" using at(4) by simp
  have pn: "ptr_to_mem (mem_next (ram h + p) h) h = ram h + (p + 8 + k)" using at(1) by (simp add: ptr_next)
  have cmp: "(of_nat (need n) > (of_nat k :: u16)) = (k < need n)" "(of_nat (need n) = (of_nat k :: u16)) = (need n = k)"
    using s k by (simp_all add: word_less_nat_alt word_unat_eq_iff)
  have "mem_trim (Some r) n h = (if k < need n then Some (None, h) else if need n = k then Some (Some r, h)
      else do {
        h \<leftarrow> (if mem_used (ram h + (p + 8 + k)) h = 0 then trim_move (ram h + p) (of_nat p) (of_nat (need n)) (ram h + (p + 8 + k)) h
             else if need n + SIZEOF_STRUCT_MEM + MIN_SIZE_ALIGNED \<le> k
             then trim_split (ram h + p) (of_nat p) (of_nat (need n)) h
             else Some h);
        Some (Some r, h) })"
    unfolding mem_trim_def Let_def option.case LWIP_ASSERT_simps Option.bind.simps mo mem_to_ptr_at sz pn
    using g r(2) s k by (simp only: if_False n cmp unat_small)
  moreover have "trim_cells (need n) k ys = (k, True) # ys" if "need n = k" using that by (simp add: trim_cells_def)
  ultimately show ?thesis
    using trim_ok [OF assms(1) need_props(1,2), of n] assms(1) False
    by (auto simp: p_def not_less elim: le_neq_implies_less)
qed

end
