(* ===== verification/Lwip_Client.thy ===== *)
theory Lwip_Client
  imports Lwip_Malloc
begin

text \<open>
  The heap as its clients see it: a step relation in which blocks are allocated, trimmed, freed and
  written by whoever holds them, the invariant of all heaps so reached, and the properties of the
  heap.
\<close>

section \<open>Blocks handed out\<close>

primrec blk :: "nat \<Rightarrow> cell list \<Rightarrow> nat \<rightharpoonup> nat" where
  "blk a [] = Map.empty"
| "blk a (c # cs) = (if snd c then (blk (a + 8 + fst c) cs)(a + 8 \<mapsto> fst c) else blk (a + 8 + fst c) cs)"

lemma blk_Some: "blk a cs r = Some n \<Longrightarrow> \<exists>xs ys. cs = xs @ (n, True) # ys \<and> r = a + width xs + 8"
proof (induction cs arbitrary: a)
  case (Cons c cs)
  show ?case
  proof (cases "snd c \<and> r = a + 8")
    case True
    then have "c # cs = [] @ (n, True) # cs" using Cons.prems by (cases c) auto
    then show ?thesis using True by fastforce
  next
    case False
    then have "blk (a + 8 + fst c) cs r = Some n" using Cons.prems by (auto split: if_splits)
    then obtain xs ys where "cs = xs @ (n, True) # ys" "r = a + 8 + fst c + width xs + 8" using Cons.IH by blast
    then have "c # cs = (c # xs) @ (n, True) # ys \<and> r = a + width (c # xs) + 8" by simp
    then show ?thesis by blast
  qed
qed simp

lemma blk_ge: "blk a cs r = Some n \<Longrightarrow> a + 8 \<le> r \<and> r + n \<le> a + width cs"
  using blk_Some by fastforce

lemma blk_None [simp]: "r < a + 8 \<Longrightarrow> blk a cs r = None" "a + width cs < r \<Longrightarrow> blk a cs r = None"
  by (cases "blk a cs r"; use blk_ge [of a cs r] in force)+

lemma blk_append: "blk a (xs @ ys) r = (if r < a + width xs + 8 then blk a xs r else blk (a + width xs) ys r)"
proof (induction xs arbitrary: a)
  case (Cons c xs)
  have e: "a + 8 + fst c + width xs = a + width (c # xs)" by simp
  show ?case using Cons.IH [of "a + 8 + fst c", unfolded e] by (auto simp: fun_upd_def)
qed simp

lemma blk_at: "blk a (xs @ (n, True) # ys) (a + width xs + 8) = Some n"
  by (simp add: blk_append)

lemma blk_replace:
  assumes "width mid = width mid'" and "\<And>r. blk (a + width xs) mid' r = (blk (a + width xs) mid) r"
  shows "blk a (xs @ mid' @ ys) = blk a (xs @ mid @ ys)"
  using assms by (auto simp: blk_append fun_eq_iff)

lemma blk_mid:
  assumes "width mid = width mid'" and "\<And>r. blk (a + width xs) mid' r = (if r = a + width xs + 8 then v else blk (a + width xs) mid r)"
    and "mid \<noteq> []"
  shows "blk a (xs @ mid' @ ys) = (\<lambda>r. if r = a + width xs + 8 then v else blk a (xs @ mid @ ys) r)"
  using assms by (auto simp: blk_append fun_eq_iff neq_Nil_conv)

lemma width_cut: "s \<le> n \<Longrightarrow> width (cut s n) = n + 8"
  by (auto simp: cut_def)

lemma blk_cut:
  assumes "s \<le> n"
  shows "\<exists>k \<ge> s. blk a (xs @ cut s n @ ys) = (blk a (xs @ (n, False) # ys))(a + width xs + 8 \<mapsto> k)"
proof -
  have "blk a (xs @ cut s n @ ys) = (\<lambda>r. if r = a + width xs + 8 then Some (fst (hd (cut s n))) else blk a (xs @ [(n, False)] @ ys) r)"
    by (rule blk_mid) (use assms in \<open>auto simp: cut_def\<close>)
  moreover have "s \<le> fst (hd (cut s n))" using assms by (simp add: cut_def)
  ultimately show ?thesis by (intro exI [of _ "fst (hd (cut s n))"]) (auto simp: fun_upd_def)
qed

lemma blk_join: "blk a (join cs) = blk a cs"
proof (induction cs arbitrary: a rule: join.induct)
  case (1 c d cs)
  show ?case
  proof (cases "\<not> snd c \<and> \<not> snd d")
    case True
    then show ?thesis using 1(1) by (simp add: ac_simps)
  qed (use 1(2) in auto)
qed simp_all

lemma blk_freed: "blk a (xs @ (n, False) # ys) = (blk a (xs @ (n, True) # ys))(a + width xs + 8 := None)"
  using blk_mid [of "[(n, True)]" "[(n, False)]" a xs None ys] by (auto simp: fun_upd_def)

lemma blk_trim:
  assumes "s \<le> n"
  shows "\<exists>k \<ge> s. blk a (xs @ trim_cells s n ys) = (blk a (xs @ (n, True) # ys))(a + width xs + 8 \<mapsto> k)"
proof -
  have same: "blk a (xs @ (n, True) # ys) = (blk a (xs @ (n, True) # ys))(a + width xs + 8 \<mapsto> n)"
    using blk_at [of a xs n ys] by (simp only: fun_upd_idem)
  have split: "blk a (xs @ (s, True) # (n - s - 8, False) # ys) = (blk a (xs @ (n, True) # ys))(a + width xs + 8 \<mapsto> s)"
    if "s + 20 \<le> n"
    using blk_mid [of "[(n, True)]" "[(s, True), (n - s - 8, False)]" a xs "Some s" ys] that by (auto simp: fun_upd_def)
  have move: "blk a (xs @ (s, True) # (n + m - s, False) # zs) = (blk a (xs @ (n, True) # (m, False) # zs))(a + width xs + 8 \<mapsto> s)"
    for m zs
    using blk_mid [of "[(n, True), (m, False)]" "[(s, True), (n + m - s, False)]" a xs "Some s" zs] assms
    by (auto simp: fun_upd_def)
  consider "trim_cells s n ys = (n, True) # ys" | "s + 20 \<le> n" "trim_cells s n ys = (s, True) # (n - s - 8, False) # ys"
    | m zs where "ys = (m, False) # zs" "trim_cells s n ys = (s, True) # (n + m - s, False) # zs"
  proof (cases "n \<le> s")
    case True
    then show thesis using that(1) by (simp add: trim_cells_def)
  next
    case ns: False
    show thesis
    proof (cases "\<exists>m zs. ys = (m, False) # zs")
      case True
      then show thesis using that(3) ns by (auto simp: trim_cells_def)
    next
      case False
      then have "trim_cells s n ys = (if s + 20 \<le> n then (s, True) # (n - s - 8, False) # ys else (n, True) # ys)"
        using ns by (auto simp: trim_cells_def split: list.split prod.split bool.split)
      then show thesis using that(1,2) by (auto split: if_splits)
    qed
  qed
  then show ?thesis
  proof cases
    case 1
    then show ?thesis using same assms by auto
  next
    case 2
    then show ?thesis using split by auto
  next
    case 3
    then show ?thesis using move by auto
  qed
qed

section \<open>Clients\<close>

text \<open>
  What clients may do: initialise once, allocate, free and trim what they hold, and write to it.
  \<open>live\<close> maps each address they hold to the size they asked for.
\<close>

inductive heap_reach :: "mem_heap \<Rightarrow> (nat \<rightharpoonup> nat) \<Rightarrow> bool" where
  reach_init: "0 < ram_heap \<Longrightarrow> ram_heap + 1612 \<le> 2 ^ 32 \<Longrightarrow> mem_init ram_heap h0 = Some h \<Longrightarrow> heap_reach h Map.empty"
| reach_malloc: "heap_reach h live \<Longrightarrow> mem_malloc n h = Some (r, h') \<Longrightarrow>
    heap_reach h' (case r of None \<Rightarrow> live | Some a \<Rightarrow> live(a \<mapsto> unat n))"
| reach_calloc: "heap_reach h live \<Longrightarrow> mem_calloc count n h = Some (r, h') \<Longrightarrow>
    heap_reach h' (case r of None \<Rightarrow> live | Some a \<Rightarrow> live(a \<mapsto> unat count * unat n))"
| reach_free: "heap_reach h live \<Longrightarrow> live r \<noteq> None \<Longrightarrow> mem_free (Some r) h = Some h' \<Longrightarrow> heap_reach h' (live(r := None))"
| reach_free_null: "heap_reach h live \<Longrightarrow> mem_free None h = Some h' \<Longrightarrow> heap_reach h' live"
| reach_trim: "heap_reach h live \<Longrightarrow> live r \<noteq> None \<Longrightarrow> mem_trim (Some r) n h = Some (q, h') \<Longrightarrow>
    heap_reach h' (case q of None \<Rightarrow> live | Some _ \<Rightarrow> live(r \<mapsto> unat n))"
| reach_write: "heap_reach h live \<Longrightarrow> live r = Some n \<Longrightarrow> i + length bs \<le> n \<Longrightarrow>
    heap_reach (h\<lparr>memory := put_bytes (r + i) bs (memory h)\<rparr>) live"

definition heap_inv :: "mem_heap \<Rightarrow> (nat \<rightharpoonup> nat) \<Rightarrow> cell list \<Rightarrow> bool" where
  "heap_inv h live cs \<longleftrightarrow> heap_ok h cs \<and> (\<forall>r. rel_option (\<le>) (live r) (blk (ram h) cs r))"

lemma heap_invI: "heap_ok h cs \<Longrightarrow> \<forall>r. rel_option (\<le>) (live r) (blk (ram h) cs r) \<Longrightarrow> \<exists>cs. heap_inv h live cs"
  by (auto simp: heap_inv_def)

lemma rel_upd:
  assumes "\<forall>r. rel_option (\<le>) (f r) (g r)" and "rel_option (\<le>) v w"
  shows "\<forall>r. rel_option (\<le>) ((f(a := v)) r) ((g(a := w)) r)"
  using assms by simp

lemma init_ok:
  assumes "mem_init ram_heap h0 = Some h" and "0 < ram_heap" and "ram_heap + 1612 \<le> 2 ^ 32"
  shows "heap_ok h [(1592, False)]"
proof -
  define r where "r = LWIP_MEM_ALIGN_SIZE ram_heap"
  have b: "r mod 4 = 0" "0 < r" "r + 1608 \<le> 2 ^ 32" using align_size_bounds [of ram_heap] assms(2,3) unfolding r_def by auto
  define h1 where "h1 = set_used r 0 (set_prev r 0 (set_next r 1600 (h0\<lparr>ram := r\<rparr>)))"
  define h2 where "h2 = h1\<lparr>ram_end := r + 1600\<rparr>"
  define h3 where "h3 = set_prev (r + 1600) 1600 (set_next (r + 1600) 1600 (set_used (r + 1600) 1 h2))"
  have r1: "ram h1 = r" "ram h2 = r" "ram h3 = r" by (simp_all add: h1_def h2_def h3_def)
  have e: "h = h3\<lparr>lfree := r\<rparr>"
    using assms(1) r1 by (simp add: mem_init_def Let_def r_def [symmetric] h1_def [symmetric] h2_def [symmetric]
        h3_def [symmetric] ptr_to_mem_def)
  have h1: "hdr h1 0 = (1600, 0, 0)"
    using hdr_at(1) [of "h0\<lparr>ram := r\<rparr>" r 0 0 1600]
      hdr_at(2) [of "set_next r 1600 (h0\<lparr>ram := r\<rparr>)" r 0 0 0]
      hdr_at(3) [of "set_prev r 0 (set_next r 1600 (h0\<lparr>ram := r\<rparr>))" r 0 0 0]
    by (simp add: h1_def apart_def)
  have h2: "hdr h2 x = hdr h1 x" for x by (simp add: h2_def hdr_def mem_next_def mem_prev_def mem_used_def)
  have h3: "hdr h3 0 = (1600, 0, 0)" "hdr h3 1600 = (1600, 1600, 1)"
    using r1 h1 h2 by (simp_all add: h3_def hdr_at apart_def)
  have re: "ram_end h3 = r + 1600" by (simp add: h3_def h2_def)
  show ?thesis using h3 r1 re b by (simp add: e heap_ok_def heap_seg_def no_adj_def)
qed

text \<open>Writing to a block changes no header.\<close>

lemma seg_starts: "(\<And>x. x \<in> starts p cs \<Longrightarrow> hdr h' x = hdr h x) \<Longrightarrow> seg h p pv cs q qv \<Longrightarrow> seg h' p pv cs q qv"
  by (induction cs arbitrary: p pv) auto

lemma width_ok: "heap_ok h cs \<Longrightarrow> width cs = 1600"
  by (auto simp: heap_ok_def heap_seg_def dest: seg_width)

lemma write_ok:
  assumes "heap_ok h cs" and "blk (ram h) cs r = Some k" and "i + length bs \<le> k"
  defines "h' \<equiv> h\<lparr>memory := put_bytes (r + i) bs (memory h)\<rparr>"
  shows "heap_ok h' cs"
proof -
  obtain xs ys where c: "cs = xs @ (k, True) # ys" "r = ram h + width xs + 8" using blk_Some [OF assms(2)] by blast
  have d: "in_data 0 cs y" if "ram h + y \<ge> r" "ram h + y < r + k" for y
    using that c by (auto simp: in_data_append)
  have w: "width cs = 1600" using width_ok [OF assms(1)] .
  have m: "memory h' (ram h + y) = memory h (ram h + y)" if "\<not> in_data 0 cs y" for y
    using d [of y] that assms(3) by (auto simp: h'_def put_bytes_def)
  have hd: "hdr h' x = hdr h x" if "\<And>y. x \<le> y \<Longrightarrow> y < x + 8 \<Longrightarrow> \<not> in_data 0 cs y" for x
    using m [of x] m [of "x + 1"] m [of "x + 2"] m [of "x + 3"] m [of "x + 4"] that
    by (simp add: hdr_def mem_next_def mem_prev_def mem_used_def h'_def add.assoc)
  have s: "hdr h' x = hdr h x" if "x \<in> starts 0 cs" for x
    using starts_no_data [OF that] by (intro hd) blast
  have e: "hdr h' 1600 = hdr h 1600"
    using in_data_ge [of 0 cs] w by (intro hd) fastforce
  obtain qv where "seg h 0 0 cs 1600 qv" using assms(1) by (auto simp: heap_ok_def heap_seg_def)
  then have "seg h' 0 0 cs 1600 qv" using seg_starts [of 0 cs h' h] s by blast
  then show ?thesis using assms(1) e by (auto simp: heap_ok_def heap_seg_def h'_def)
qed

lemma hdrs_ram: "only_hdrs A h h' \<Longrightarrow> ram h' = ram h"
  by (simp add: only_hdrs_def)

lemma kept_by_hdrs:
  assumes "heap_ok h cs" and "heap_ok h' cs'" and "only_hdrs (starts 0 cs \<union> starts 0 cs') h h'"
  shows "data_kept h cs h' cs'"
  using only_hdrs_data [OF assms(3)] width_ok [OF assms(1)] width_ok [OF assms(2)] .

lemma malloc_inv:
  assumes "heap_inv h live cs" and "mem_malloc n h = Some (r, h')"
  shows "case r of None \<Rightarrow> h' = h
    | Some a \<Rightarrow> live a = None \<and> (\<exists>cs' k. heap_inv h' (live(a \<mapsto> unat n)) cs' \<and>
        data_kept h cs h' cs' \<and> blk (ram h') cs' a = Some k \<and> unat n \<le> k)"
proof -
  have ok: "heap_ok h cs" and l: "\<forall>r. rel_option (\<le>) (live r) (blk (ram h) cs r)" using assms(1) by (simp_all add: heap_inv_def)
  note m = malloc_refines [OF ok, of n]
  show ?thesis
  proof (cases "if n = 0 \<or> 1600 < unat n then None else alloc_cells (need n) cs")
    case None
    then show ?thesis using m assms(2) by simp
  next
    case (Some z)
    obtain i cs' where z: "z = (i, cs')" by fastforce
    have h: "r = Some (ram h + i + 8)" "heap_ok h' cs'" "ram h' = ram h" "data_kept h cs h' cs'"
      using m assms(2) Some z kept_by_hdrs [OF ok] by (auto dest: hdrs_ram)
    obtain xs k ys where c: "cs = xs @ (k, False) # ys" "need n \<le> k" "i = width xs" "cs' = xs @ cut (need n) k @ ys"
      using Some z alloc_cells_Some [of "need n" cs i cs'] by (auto split: if_splits)
    obtain j where j: "need n \<le> j" "blk (ram h) cs' = (blk (ram h) cs)(ram h + i + 8 \<mapsto> j)"
      using blk_cut [OF c(2), of "ram h" xs ys] c by auto
    have f: "blk (ram h) cs (ram h + i + 8) = None" using c by (simp add: blk_append)
    have n: "unat n \<le> j" using need_props(3) [of n] j(1) by linarith
    have "\<forall>r. rel_option (\<le>) ((live(ram h + i + 8 \<mapsto> unat n)) r) (blk (ram h) cs' r)"
      unfolding j(2) using l n by (intro rel_upd) simp_all
    moreover have "live (ram h + i + 8) = None" using l f by (metis option.rel_sel)
    ultimately show ?thesis using h j n l by (auto simp: heap_inv_def intro!: exI [of _ cs'])
  qed
qed

lemma live_block:
  assumes "heap_inv h live cs" and "live r = Some n"
  obtains k xs ys where "cs = xs @ (k, True) # ys" "r = ram h + width xs + 8" "n \<le> k" "blk (ram h) cs r = Some k"
proof -
  have "rel_option (\<le>) (Some n) (blk (ram h) cs r)" using assms by (metis heap_inv_def)
  then obtain k where k: "blk (ram h) cs r = Some k" "n \<le> k" by (auto simp: option_rel_Some1)
  from blk_Some [OF k(1)] k that show thesis by blast
qed

lemma free_inv:
  assumes "heap_inv h live cs" and "live r = Some n"
  shows "\<exists>h' cs'. mem_free (Some r) h = Some h' \<and> heap_inv h' (live(r := None)) cs' \<and> data_kept h cs h' cs'"
proof -
  from assms(1) have ok: "heap_ok h cs" and l: "\<forall>r. rel_option (\<le>) (live r) (blk (ram h) cs r)" by (simp_all add: heap_inv_def)
  obtain k xs ys where c: "cs = xs @ (k, True) # ys" "r = ram h + width xs + 8" using live_block [OF assms] .
  obtain h' where h: "mem_free (Some r) h = Some h'" "heap_ok h' (join (xs @ (k, False) # ys))" "only_hdrs (starts 0 cs) h h'"
    using free_refines [of h xs k ys] ok c by auto
  have "\<forall>q. rel_option (\<le>) ((live(r := None)) q) (blk (ram h) (join (xs @ (k, False) # ys)) q)"
    unfolding blk_join blk_freed c(2) using l c(1) by (intro rel_upd) simp_all
  then have "heap_inv h' (live(r := None)) (join (xs @ (k, False) # ys))"
    using h(2) hdrs_ram [OF h(3)] by (simp add: heap_inv_def)
  moreover have "only_hdrs (starts 0 cs \<union> starts 0 (join (xs @ (k, False) # ys))) h h'"
    using h(3) by (rule only_hdrs_mono) simp
  ultimately show ?thesis using h(1) kept_by_hdrs [OF ok h(2)] by blast
qed

lemma trim_inv:
  assumes "heap_inv h live cs" and "live r = Some m"
  shows "mem_trim (Some r) n h = Some (None, h) \<or> (\<exists>h' cs'. mem_trim (Some r) n h = Some (Some r, h') \<and>
    heap_inv h' (live(r \<mapsto> unat n)) cs' \<and> data_kept h cs h' cs')"
proof -
  from assms(1) have ok: "heap_ok h cs" and l: "\<forall>r. rel_option (\<le>) (live r) (blk (ram h) cs r)" by (simp_all add: heap_inv_def)
  obtain k xs ys where c: "cs = xs @ (k, True) # ys" "r = ram h + width xs + 8" using live_block [OF assms] .
  show ?thesis
  proof (cases "1600 < unat n \<or> k < need n")
    case True
    then show ?thesis using trim_refines [of h xs k ys n] ok c by auto
  next
    case False
    let ?cs = "xs @ trim_cells (need n) k ys"
    obtain h' where h: "mem_trim (Some r) n h = Some (Some r, h')" "heap_ok h' ?cs" "only_hdrs (starts 0 cs \<union> starts 0 ?cs) h h'"
      using trim_refines [of h xs k ys n] ok c False by auto
    obtain j where j: "need n \<le> j" "blk (ram h) ?cs = (blk (ram h) cs)(r \<mapsto> j)"
      using blk_trim [of "need n" k "ram h" xs ys] False c by auto
    have "\<forall>a. rel_option (\<le>) ((live(r \<mapsto> unat n)) a) (blk (ram h) ?cs a)"
      unfolding j(2) using l j(1) need_props(3) [of n] by (intro rel_upd) simp_all
    then have "heap_inv h' (live(r \<mapsto> unat n)) ?cs" using h(2) hdrs_ram [OF h(3)] by (simp add: heap_inv_def)
    then show ?thesis using h(1) kept_by_hdrs [OF ok h(2,3)] by blast
  qed
qed

text \<open>Blocks held are aligned, inside the heap and apart from each other.\<close>

lemma block_facts:
  assumes "heap_inv h live cs" and "live r = Some n"
  shows "r mod 4 = 0 \<and> ram h + 8 \<le> r \<and> r + n \<le> ram_end h \<and>
    (\<forall>r' n'. live r' = Some n' \<and> r' \<noteq> r \<longrightarrow> r + n + 8 \<le> r' \<or> r' + n' + 8 \<le> r)"
proof -
  have ok: "heap_ok h cs" and l: "\<And>r. rel_option (\<le>) (live r) (blk (ram h) cs r)" using assms(1) by (auto simp: heap_inv_def)
  have sg: "heap_seg h cs" using ok by (simp add: heap_ok_def)
  have b: "\<exists>k. blk (ram h) cs q = Some k \<and> m \<le> k" if "live q = Some m" for q m
    using l [of q] that by (simp add: option_rel_Some1)
  from b [OF assms(2)] obtain k where k: "blk (ram h) cs r = Some k" "n \<le> k" by blast
  then obtain xs ys where c: "cs = xs @ (k, True) # ys" "r = ram h + width xs + 8" using blk_Some by blast
  note at = heap_at [of h xs "(k, True)" ys, folded c(1), OF sg] and rg = heap_regs [OF sg]
  have al: "r mod 4 = 0" using at(5) rg unfolding c(2) by presburger
  have "r + n + 8 \<le> r' \<or> r' + n' + 8 \<le> r" if r': "live r' = Some n'" "r' \<noteq> r" for r' n'
  proof -
    from b [OF r'(1)] obtain k' where k': "blk (ram h) cs r' = Some k'" "n' \<le> k'" by blast
    show ?thesis
    proof (cases "r' < ram h + width xs + 8")
      case True
      then have "blk (ram h) xs r' = Some k'" using k'(1) by (simp add: c(1) blk_append)
      then show ?thesis using blk_ge [of "ram h" xs r' k'] k'(2) c(2) by simp
    next
      case False
      then have "blk (ram h + width xs + 8 + k) ys r' = Some k'"
        using k'(1) r'(2) by (simp add: c blk_append ac_simps)
      then show ?thesis using blk_ge k(2) c(2) by fastforce
    qed
  qed
  then show ?thesis using al at(4) k(2) c(2) rg by auto
qed

lemma reach_heap_inv: "heap_reach h live \<Longrightarrow> \<exists>cs. heap_inv h live cs"
proof (induction rule: heap_reach.induct)
  case (reach_init ram_heap h0 h)
  then have "heap_inv h Map.empty [(1592, False)]" using init_ok by (simp add: heap_inv_def)
  then show ?case ..
next
  case (reach_malloc h live n r h')
  then obtain cs where "heap_inv h live cs" by blast
  from malloc_inv [OF this reach_malloc(2)] this show ?case by (auto split: option.splits)
next
  case (reach_calloc h live count n r h')
  then obtain cs where i: "heap_inv h live cs" by blast
  let ?s = "ucast count * ucast n :: u32"
  have uc: "unat (ucast c :: u32) = unat c" for c :: u16
    using unat_u16_less [of c] by (simp add: unsigned_ucast_eq take_bit_nat_eq_self)
  have p: "unat ?s = unat count * unat n"
  proof -
    have "unat count * unat n < 2 ^ 16 * 2 ^ 16"
      using unat_u16_less [of count] unat_u16_less [of n] by (intro mult_strict_mono) auto
    then show ?thesis by (simp add: unat_word_ariths uc)
  qed
  show ?case
  proof (cases "ucast (ucast ?s :: u16) = ?s")
    case False
    then show ?thesis using reach_calloc(2) i by (auto simp: mem_calloc_def Let_def)
  next
    case True
    then have u: "unat (ucast ?s :: u16) = unat count * unat n" using uc [of "ucast ?s"] p by simp
    obtain r1 h1 where m: "mem_malloc (ucast ?s) h = Some (r1, h1)"
      "Some (r, h') = (case r1 of None \<Rightarrow> Some (None, h1)
        | Some a \<Rightarrow> Some (Some a, h1\<lparr>memory := put_bytes a (replicate (unat ?s) 0) (memory h1)\<rparr>))"
      using reach_calloc(2) True by (auto simp: mem_calloc_def Let_def bind_eq_Some_conv)
    show ?thesis
    proof (cases r1)
      case None
      then show ?thesis using m malloc_inv [OF i m(1)] i by auto
    next
      case (Some a)
      then obtain cs' k where c: "heap_inv h1 (live(a \<mapsto> unat count * unat n)) cs'" "blk (ram h1) cs' a = Some k" "unat count * unat n \<le> k"
        using malloc_inv [OF i m(1)] u by auto
      then have "heap_ok (h1\<lparr>memory := put_bytes (a + 0) (replicate (unat ?s) 0) (memory h1)\<rparr>) cs'"
        by (intro write_ok) (auto simp: heap_inv_def p)
      then have "heap_inv h' (live(a \<mapsto> unat count * unat n)) cs'" "r = Some a"
        using c m(2) Some by (simp_all add: heap_inv_def)
      then show ?thesis by (simp only: option.case) blast
    qed
  qed
next
  case (reach_free h live r h')
  then obtain cs n where "heap_inv h live cs" "live r = Some n" by blast
  from free_inv [OF this] show ?case using reach_free(3) by (metis option.inject)
next
  case (reach_free_null h live h')
  then show ?case by (simp add: mem_free_def)
next
  case (reach_trim h live r n q h')
  then obtain cs m where i: "heap_inv h live cs" "live r = Some m" by blast
  from trim_inv [OF this, of n] show ?case
  proof (elim disjE exE conjE)
    assume "mem_trim (Some r) n h = Some (None, h)"
    then show ?case using reach_trim(3) i(1) by auto
  next
    fix h1 cs' assume "mem_trim (Some r) n h = Some (Some r, h1)" "heap_inv h1 (live(r \<mapsto> unat n)) cs'"
    moreover from this(1) reach_trim(3) have "h1 = h'" "q = Some r" by simp_all
    ultimately show ?case by (simp only: option.case) blast
  qed
next
  case (reach_write h live r n i bs)
  then obtain cs where c: "heap_ok h cs" "\<forall>r. rel_option (\<le>) (live r) (blk (ram h) cs r)" by (auto simp: heap_inv_def)
  from reach_write(2) c(2) obtain k where k: "blk (ram h) cs r = Some k" "n \<le> k"
    by (metis option_rel_Some1)
  have "heap_ok (h\<lparr>memory := put_bytes (r + i) bs (memory h)\<rparr>) cs"
    by (rule write_ok [OF c(1) k(1)]) (use reach_write(3) k(2) in simp)
  then show ?case using c(2) by (auto simp: heap_inv_def)
qed

section \<open>Properties of the heap\<close>

text \<open>A heap at address 0x20000000, as initialised.\<close>

definition heap0 :: mem_heap where
  "heap0 = the (mem_init 0x20000000 \<lparr>ram = 0, ram_end = 0, lfree = 0, memory = (\<lambda>_. 0)\<rparr>)"

lemma heap0_init: "mem_init 0x20000000 \<lparr>ram = 0, ram_end = 0, lfree = 0, memory = (\<lambda>_. 0)\<rparr> = Some heap0"
  by (simp add: heap0_def mem_init_def Let_def)

lemma heap0_ok: "heap_ok heap0 [(1592, False)]" "ram heap0 = 0x20000000"
  using init_ok [OF heap0_init] by simp (simp add: heap0_def mem_init_def Let_def)

text \<open>
  C22: on a well-formed heap \<open>mem_malloc\<close> always returns.  It fails, changing nothing, exactly if the
  request is 0, above the size of the heap, or no free cell is large enough; otherwise it returns the
  data of the first free cell that is, cut to the size needed if a further cell fits behind it.  The
  heap stays well-formed and no byte of a block in use, nor any outside of the heap, changes.
\<close>

theorem malloc_first_fit:
  assumes "heap_ok h cs"
  shows "case (if n = 0 \<or> 1600 < unat n then None else alloc_cells (need n) cs) of
      None \<Rightarrow> mem_malloc n h = Some (None, h)
    | Some (i, cs') \<Rightarrow> \<exists>h'. mem_malloc n h = Some (Some (ram h + i + 8), h') \<and> heap_ok h' cs' \<and> data_kept h cs h' cs'"
proof (cases "if n = 0 \<or> 1600 < unat n then None else alloc_cells (need n) cs")
  case None
  then show ?thesis using malloc_refines [OF assms, of n] by simp
next
  case (Some z)
  then show ?thesis using malloc_refines [OF assms, of n] kept_by_hdrs [OF assms] by (cases z) auto
qed

theorem malloc_first_fit_witness:
  "\<exists>h'. mem_malloc 100 heap0 = Some (Some 0x20000008, h') \<and> heap_ok h' [(100, True), (1484, False)]"
  using malloc_first_fit [OF heap0_ok(1), of 100]
  by (auto simp: need_def cut_def LWIP_MEM_ALIGN_SIZE_def heap0_ok(2))

text \<open>
  C23: \<open>mem_free\<close> of a block in use returns, marks its cell free and joins it with free
  neighbours, so that the heap is well-formed again; all other blocks keep their bytes.  A second
  \<open>mem_free\<close> of the same block finds it unused and changes nothing.
\<close>

theorem free_joins:
  assumes "heap_ok h (xs @ (n, True) # ys)"
  shows "\<exists>h'. mem_free (Some (ram h + width xs + 8)) h = Some h' \<and> heap_ok h' (join (xs @ (n, False) # ys)) \<and>
    data_kept h (xs @ (n, True) # ys) h' (join (xs @ (n, False) # ys)) \<and>
    mem_free (Some (ram h + width xs + 8)) h' = Some h'"
proof -
  obtain h' where h: "mem_free (Some (ram h + width xs + 8)) h = Some h'" "heap_ok h' (join (xs @ (n, False) # ys))"
    "only_hdrs (starts 0 (xs @ (n, True) # ys)) h h'" "mem_free (Some (ram h + width xs + 8)) h' = Some h'"
    using free_refines [OF assms] by blast
  have "only_hdrs (starts 0 (xs @ (n, True) # ys) \<union> starts 0 (join (xs @ (n, False) # ys))) h h'"
    using h(3) by (rule only_hdrs_mono) simp
  from kept_by_hdrs [OF assms h(2) this] h show ?thesis by blast
qed

theorem free_joins_witness:
  "\<exists>h h'. mem_malloc 100 heap0 = Some (Some 0x20000008, h) \<and> mem_free (Some 0x20000008) h = Some h' \<and>
     heap_ok h' [(1592, False)]"
proof -
  obtain h where h: "mem_malloc 100 heap0 = Some (Some 0x20000008, h)" "heap_ok h ([] @ (100, True) # [(1484, False)])"
    and r: "ram h = 0x20000000"
    using malloc_refines [OF heap0_ok(1), of 100] by (auto simp: need_def cut_def LWIP_MEM_ALIGN_SIZE_def heap0_ok(2) dest: hdrs_ram)
  show ?thesis using free_joins [OF h(2)] h(1) r by auto
qed

text \<open>
  C21: whatever the clients of the heap allocate, trim, free and write to their blocks,
  each block they hold is aligned, lies inside the heap, has the room asked for, and is separated from
  every other block by at least a header.
\<close>

theorem heap_client_safe:
  assumes "heap_reach h live" and "live r = Some n"
  shows "r mod 4 = 0 \<and> ram h + 8 \<le> r \<and> r + n \<le> ram_end h \<and>
    (\<forall>r' n'. live r' = Some n' \<and> r' \<noteq> r \<longrightarrow> r + n + 8 \<le> r' \<or> r' + n' + 8 \<le> r)"
proof -
  obtain cs where "heap_inv h live cs" using reach_heap_inv [OF assms(1)] by blast
  from block_facts [OF this assms(2)] show ?thesis .
qed

theorem heap_client_safe_witness:
  "\<exists>h h' r. mem_malloc 100 heap0 = Some (Some 0x20000008, h) \<and> mem_malloc 50 h = Some (Some r, h') \<and>
     heap_reach h' [0x20000008 \<mapsto> 100, r \<mapsto> 50] \<and> 0x20000008 + 100 + 8 \<le> r"
proof -
  have z: "heap_reach heap0 Map.empty" using reach_init [OF _ _ heap0_init] by simp
  obtain h where h: "mem_malloc 100 heap0 = Some (Some 0x20000008, h)" "heap_ok h [(100, True), (1484, False)]"
    and rm: "ram h = 0x20000000"
    using malloc_refines [OF heap0_ok(1), of 100] by (auto simp: need_def cut_def LWIP_MEM_ALIGN_SIZE_def heap0_ok(2) dest: hdrs_ram)
  have r1: "heap_reach h [0x20000008 \<mapsto> 100]" using reach_malloc [OF z h(1)] by simp
  obtain h' where "mem_malloc 50 h = Some (Some (ram h + 108 + 8), h')"
    using malloc_refines [OF h(2), of 50] by (auto simp: need_def cut_def LWIP_MEM_ALIGN_SIZE_def)
  then have h': "mem_malloc 50 h = Some (Some (ram h + 116), h')" by (simp add: add.assoc)
  have r2: "heap_reach h' [0x20000008 \<mapsto> 100, ram h + 116 \<mapsto> 50]" using reach_malloc [OF r1 h'] by simp
  have "0x20000008 + 100 + 8 \<le> ram h + 116"
    using heap_client_safe [OF r2, where r = "0x20000008" and n = 100] rm by simp
  then show ?thesis using h(1) h' r2 by auto
qed

text \<open>
  C30: when the clients have given everything back the heap is one free cell again, whatever
  happened before: a request of up to 1592 bytes is served, from the start of the heap.
\<close>

theorem heap_no_leak:
  assumes "heap_reach h Map.empty" and "0 < unat n" and "unat n \<le> 1592"
  shows "heap_ok h [(1592, False)] \<and> (\<exists>h'. mem_malloc n h = Some (Some (ram h + 8), h'))"
proof -
  obtain cs where i: "heap_ok h cs" "\<And>r. rel_option (\<le>) None (blk (ram h) cs r)"
    using reach_heap_inv [OF assms(1)] by (auto simp: heap_inv_def)
  have free: "\<not> snd c" if c: "c \<in> set cs" for c
  proof
    assume "snd c"
    obtain xs ys where s: "cs = xs @ c # ys" using split_list [OF c] by blast
    then have "blk (ram h) cs (ram h + width xs + 8) = Some (fst c)" using \<open>snd c\<close> blk_at [of "ram h" xs "fst c" ys] by (cases c) simp
    with i(2) [of "ram h + width xs + 8"] show False by simp
  qed
  have w: "width cs = 1600" using width_ok [OF i(1)] .
  have "cs = [(1592, False)]"
  proof (cases cs)
    case (Cons c ds)
    have "ds = []"
    proof (cases ds)
      case (Cons d es)
      then have "snd c \<or> snd d" using i(1) \<open>cs = c # ds\<close> by (simp add: heap_ok_def no_adj_def)
      then show ?thesis using free [of c] free [of d] Cons \<open>cs = c # ds\<close> by simp
    qed simp
    then show ?thesis using Cons w free [of c] by (cases c) simp
  qed (use w in simp)
  then have ok: "heap_ok h [(1592, False)]" using i(1) by simp
  have "need n \<le> 1592" using need_props(2) [of n] align_size_bounds [of "unat n"] assms(3) unfolding need_def max_def by presburger
  moreover have "n \<noteq> 0" using assms(2) by auto
  ultimately show ?thesis using malloc_refines [OF ok, of n] ok assms(3) by auto
qed

theorem heap_no_leak_witness:
  "\<exists>h h' h''. mem_malloc 100 heap0 = Some (Some 0x20000008, h) \<and> mem_free (Some 0x20000008) h = Some h' \<and>
     mem_malloc 1592 h' = Some (Some 0x20000008, h'')"
proof -
  have z: "heap_reach heap0 Map.empty" using reach_init [OF _ _ heap0_init] by simp
  obtain h where h: "mem_malloc 100 heap0 = Some (Some 0x20000008, h)" "heap_ok h ([] @ (100, True) # [(1484, False)])"
    and rm: "ram h = 0x20000000"
    using malloc_refines [OF heap0_ok(1), of 100] by (auto simp: need_def cut_def LWIP_MEM_ALIGN_SIZE_def heap0_ok(2) dest: hdrs_ram)
  have r1: "heap_reach h [0x20000008 \<mapsto> 100]" using reach_malloc [OF z h(1)] by simp
  obtain h' where h': "mem_free (Some 0x20000008) h = Some h'" "ram h' = ram h"
    using free_refines [OF h(2)] rm by (auto dest: hdrs_ram)
  have "heap_reach h' ([0x20000008 \<mapsto> 100](0x20000008 := None))" by (rule reach_free [OF r1 _ h'(1)]) simp
  then have "heap_reach h' Map.empty" by simp
  from heap_no_leak [OF this, of 1592] obtain h'' where "mem_malloc 1592 h' = Some (Some (ram h' + 8), h'')" by auto
  then show ?thesis using h(1) h' rm by auto
qed

end
