(* ===== verification/Lwip_Ram.thy ===== *)
theory Lwip_Ram
  imports Lwip_Chain Lwip_Client
begin

text \<open>
  Packet buffers in the heap.  The locale \<open>pbuf_heap\<close> is what \<open>pbuf.c\<close> relies on: blocks handed out
  are aligned and do not overlap, keep their bytes while others come and go, and may be written.  Its
  lemmas follow a \<open>PBUF_RAM\<close> buffer from \<open>pbuf_alloc\<close> to \<open>pbuf_free\<close>.  It is interpreted on the heap of
  \<open>mem.c\<close>, whose block headers lie in the same memory as the payloads.
\<close>

section \<open>The interface\<close>

definition same_pbufs :: "'m pst \<Rightarrow> 'm pst \<Rightarrow> bool" where
  "same_pbufs s s' \<longleftrightarrow> pbufs s' = pbufs s \<and> tab_POOL s' = tab_POOL s \<and> tab_PBUF s' = tab_PBUF s \<and>
     pbuf_free_ooseq_pending s' = pbuf_free_ooseq_pending s"

definition live_kept :: "(nat \<rightharpoonup> nat) \<Rightarrow> 'm pst \<Rightarrow> 'm pst \<Rightarrow> bool" where
  "live_kept live s s' \<longleftrightarrow> (\<forall>a k. live a = Some k \<longrightarrow> get_bytes a k (bytes s') = get_bytes a k (bytes s))"

definition ram_size :: "pbuf_layer \<Rightarrow> u16 \<Rightarrow> nat" where
  "ram_size layer n = 16 + LWIP_MEM_ALIGN_SIZE (layer_val layer) + LWIP_MEM_ALIGN_SIZE (unat n)"

definition ram_pbuf :: "nat \<Rightarrow> pbuf_layer \<Rightarrow> u16 \<Rightarrow> pbuf" where
  "ram_pbuf p layer n = \<lparr>nxt = None, payload = p + 16 + LWIP_MEM_ALIGN_SIZE (layer_val layer), tot_len = n, len = n,
     type_internal = 0x80, flags = 0, ref = 1, if_idx = 0\<rparr>"

lemma layer_aligned: "LWIP_MEM_ALIGN_SIZE (layer_val layer) \<le> 56"
  using align_size_bounds(2,3) [of "layer_val layer"] by (cases layer) (auto simp: LWIP_MEM_ALIGN_SIZE_def MEM_ALIGNMENT_def)

text \<open>The overflow check of \<open>pbuf_alloc\<close> lets exactly the sizes through that fit into 16 bits.\<close>

lemma ram_size_check:
  defines "pl \<equiv> \<lambda>layer n. (LWIP_MEM_ALIGN_SIZE (layer_val layer) + LWIP_MEM_ALIGN_SIZE (unat n)) mod 2 ^ 16"
  defines "al \<equiv> \<lambda>layer n. (LWIP_MEM_ALIGN_SIZE SIZEOF_STRUCT_PBUF + pl layer n) mod 2 ^ 16"
  shows "(pl layer n < LWIP_MEM_ALIGN_SIZE (unat n) \<or> al layer n < LWIP_MEM_ALIGN_SIZE (unat n)) = (2 ^ 16 \<le> ram_size layer n)"
    and "ram_size layer n < 2 ^ 16 \<Longrightarrow> al layer n = ram_size layer n"
proof -
  define x where "x = LWIP_MEM_ALIGN_SIZE (layer_val layer)"
  define y where "y = LWIP_MEM_ALIGN_SIZE (unat n)"
  have b: "x \<le> 56" "y \<le> 65536"
  proof -
    show "x \<le> 56" unfolding x_def by (rule layer_aligned)
    have "y < 65540" "y mod 4 = 0"
      using align_size_bounds(2,3) [of "unat n"] unat_u16_less [of n] by (simp_all add: y_def)
    then show "y \<le> 65536" by presburger
  qed
  have z: "LWIP_MEM_ALIGN_SIZE SIZEOF_STRUCT_PBUF = 16" by (simp add: SIZEOF_STRUCT_PBUF_def)
  have mm: "v mod 2 ^ 16 = (if v < 65536 then v else v - 65536)" if "v < 131072" for v :: nat
    using that by (cases "v < 65536") (simp_all add: le_mod_geq)
  have p: "pl layer n = (if x + y < 65536 then x + y else x + y - 65536)"
    unfolding pl_def x_def [symmetric] y_def [symmetric] by (rule mm) (use b in simp)
  show "ram_size layer n < 2 ^ 16 \<Longrightarrow> al layer n = ram_size layer n"
    by (simp add: al_def p z ram_size_def x_def [symmetric] y_def [symmetric])
  have a: "al layer n = (if 16 + pl layer n < 65536 then 16 + pl layer n else 16 + pl layer n - 65536)"
    unfolding al_def z by (rule mm) (use p b in auto)
  show "(pl layer n < LWIP_MEM_ALIGN_SIZE (unat n) \<or> al layer n < LWIP_MEM_ALIGN_SIZE (unat n)) = (2 ^ 16 \<le> ram_size layer n)"
    unfolding a p ram_size_def x_def [symmetric] y_def [symmetric] using b by auto
qed

locale pbuf_heap =
  fixes e :: "'m pbuf_env" and owns :: "'m pst \<Rightarrow> (nat \<rightharpoonup> nat) \<Rightarrow> bool"
  assumes malloc_law: "owns s live \<Longrightarrow> \<exists>r s'. malloc_fn e n s = Some (r, s') \<and> (case r of None \<Rightarrow> s' = s
      | Some a \<Rightarrow> live a = None \<and> owns s' (live(a \<mapsto> unat n)) \<and> same_pbufs s s' \<and> live_kept live s s')"
    and free_law: "owns s live \<Longrightarrow> live a = Some k \<Longrightarrow> \<exists>s'. free_fn e a s = Some s' \<and> owns s' (live(a := None)) \<and>
      same_pbufs s s' \<and> live_kept (live(a := None)) s s'"
    and block_aligned: "owns s live \<Longrightarrow> live a = Some k \<Longrightarrow> a mod 4 = 0"
    and blocks_apart: "owns s live \<Longrightarrow> live a = Some k \<Longrightarrow> live b = Some l \<Longrightarrow> a \<noteq> b \<Longrightarrow> a + k \<le> b \<or> b + l \<le> a"
    and owns_pbufs: "owns s live \<Longrightarrow> owns (s\<lparr>pbufs := f\<rparr>) live"
    and owns_memcpy: "owns s live \<Longrightarrow> live a = Some k \<Longrightarrow> i + length bs \<le> k \<Longrightarrow> owns (memcpy (a + i) bs s) live"
begin

lemma alloc_ram:
  assumes "owns s live"
  shows "\<exists>r s'. pbuf_alloc e layer n PBUF_RAM s = Some (r, s') \<and> (case r of None \<Rightarrow> s' = s
    | Some p \<Rightarrow> live p = None \<and> p mod 4 = 0 \<and> owns s' (live(p \<mapsto> ram_size layer n)) \<and> live_kept live s s' \<and>
        pbufs s' = (pbufs s)(p \<mapsto> ram_pbuf p layer n) \<and> tab_POOL s' = tab_POOL s)"
proof (cases "2 ^ 16 \<le> ram_size layer n")
  case True
  then show ?thesis using ram_size_check(1) [of layer n] by (auto simp: pbuf_alloc_def Let_def)
next
  case False
  note c = ram_size_check(1) [of layer n] ram_size_check(2) [of layer n]
  have u: "unat (of_nat (ram_size layer n) :: u16) = ram_size layer n" using False by (simp add: unat_of_nat take_bit_nat_eq_self)
  obtain r s1 where m: "malloc_fn e (of_nat (ram_size layer n)) s = Some (r, s1)" and l: "case r of None \<Rightarrow> s1 = s
      | Some a \<Rightarrow> live a = None \<and> owns s1 (live(a \<mapsto> ram_size layer n)) \<and> same_pbufs s s1 \<and> live_kept live s s1"
    using malloc_law [OF assms, of "of_nat (ram_size layer n)"] unfolding u by blast
  have a: "pbuf_alloc e layer n PBUF_RAM s = do {
      (r, s) \<leftarrow> malloc_fn e (of_nat (ram_size layer n)) s;
      case r of None \<Rightarrow> Some (None, s)
      | Some p \<Rightarrow> Some (Some p, pbuf_init_alloced_pbuf p (LWIP_MEM_ALIGN_SIZE (p + SIZEOF_STRUCT_PBUF + layer_val layer)) n n PBUF_RAM 0 s) }"
    using c False by (simp add: pbuf_alloc_def Let_def cong: option.case_cong)
  show ?thesis
  proof (cases r)
    case None
    then show ?thesis using a m l by simp
  next
    case (Some p)
    then have o: "live p = None" "owns s1 (live(p \<mapsto> ram_size layer n))" "same_pbufs s s1" "live_kept live s s1" using l by simp_all
    have al: "p mod 4 = 0" using block_aligned [OF o(2), of p] by simp
    have pl: "LWIP_MEM_ALIGN_SIZE (p + SIZEOF_STRUCT_PBUF + layer_val layer) = p + 16 + LWIP_MEM_ALIGN_SIZE (layer_val layer)"
      using al unfolding LWIP_MEM_ALIGN_SIZE_def MEM_ALIGNMENT_def SIZEOF_STRUCT_PBUF_def by presburger
    let ?s = "s1\<lparr>pbufs := (pbufs s1)(p \<mapsto> ram_pbuf p layer n)\<rparr>"
    have "pbuf_alloc e layer n PBUF_RAM s = Some (Some p, ?s)"
      using a m Some pl by (simp add: pbuf_init_alloced_pbuf_def ram_pbuf_def)
    then show ?thesis using o al owns_pbufs [OF o(2)] by (auto simp: same_pbufs_def live_kept_def)
  qed
qed

lemma free_ram:
  assumes "owns s live" and "live p = Some k" and "pbufs s p = Some b"
    and "ref b = 1" and "nxt b = None" and "pbuf_get_allocsrc b = 0" and "flags b AND 0x02 = 0"
  shows "\<exists>s'. pbuf_free e (Some p) s = Some (1, s') \<and> owns s' (live(p := None)) \<and> pbufs s' = (pbufs s)(p := None) \<and>
    tab_POOL s' = tab_POOL s \<and> live_kept (live(p := None)) s s'"
proof -
  let ?s = "s\<lparr>pbufs := (pbufs s)(p := None)\<rparr>"
  have "owns ?s live" by (rule owns_pbufs [OF assms(1)])
  from free_law [OF this assms(2)] obtain s' where s': "free_fn e p ?s = Some s'" "owns s' (live(p := None))"
    "same_pbufs ?s s'" "live_kept (live(p := None)) ?s s'" by blast
  have "pbuf_dealloc e p b (s\<lparr>pbufs := (pbufs s)(p \<mapsto> b\<lparr>ref := 0\<rparr>)\<rparr>) = Some s'"
    using s'(1) assms(6,7) by (simp add: pbuf_dealloc_def Let_def)
  then have "pbuf_free_loop e (Some p) 0 s = Some (1, s')"
    using assms(3-5) by (subst pbuf_free_loop.simps) (simp add: upd_def pbuf_free_loop.simps)
  then show ?thesis using s' by (auto simp: pbuf_free_def same_pbufs_def live_kept_def)
qed

lemma take_ram:
  assumes "pbufs s p = Some (ram_pbuf p layer n)" and "length data \<le> unat n"
  shows "pbuf_take (Some p) data s = Some (ERR_OK, memcpy (p + (16 + LWIP_MEM_ALIGN_SIZE (layer_val layer))) data s)"
proof -
  have m: "memcpy a [] s = s" for a by (simp add: memcpy_def)
  have "take_loop (Some p) data s = Some (memcpy (p + (16 + LWIP_MEM_ALIGN_SIZE (layer_val layer))) data s)"
    using assms by (subst take_loop.simps) (simp add: follow_def ram_pbuf_def take_loop.simps m add.assoc)
  then show ?thesis using assms by (simp add: pbuf_take_def follow_def ram_pbuf_def)
qed

lemma lifecycle:
  assumes "owns s live"
  shows "\<exists>r s1. pbuf_alloc e layer n PBUF_RAM s = Some (r, s1) \<and> (case r of None \<Rightarrow> s1 = s
    | Some p \<Rightarrow> live p = None \<and> p mod 4 = 0 \<and> owns s1 (live(p \<mapsto> ram_size layer n)) \<and> pbufs s1 p = Some (ram_pbuf p layer n) \<and>
        (\<forall>data. length data \<le> unat n \<longrightarrow> (\<exists>s2 s3. pbuf_take (Some p) data s1 = Some (ERR_OK, s2) \<and> live_kept live s s2 \<and>
           get_bytes (payload (ram_pbuf p layer n)) (length data) (bytes s2) = data \<and>
           pbuf_free e (Some p) s2 = Some (1, s3) \<and> owns s3 live \<and> pbufs s3 = (pbufs s)(p := None) \<and> live_kept live s s3)))"
proof -
  obtain r s1 where a: "pbuf_alloc e layer n PBUF_RAM s = Some (r, s1)" and c: "case r of None \<Rightarrow> s1 = s
    | Some p \<Rightarrow> live p = None \<and> p mod 4 = 0 \<and> owns s1 (live(p \<mapsto> ram_size layer n)) \<and> live_kept live s s1 \<and>
        pbufs s1 = (pbufs s)(p \<mapsto> ram_pbuf p layer n) \<and> tab_POOL s1 = tab_POOL s"
    using alloc_ram [OF assms] by blast
  show ?thesis
  proof (cases r)
    case None
    then show ?thesis using a c by simp
  next
    case (Some p)
    then have o: "live p = None" "p mod 4 = 0" "owns s1 (live(p \<mapsto> ram_size layer n))" "live_kept live s s1"
      and b: "pbufs s1 = (pbufs s)(p \<mapsto> ram_pbuf p layer n)" using c by simp_all
    have "\<exists>s2 s3. pbuf_take (Some p) data s1 = Some (ERR_OK, s2) \<and> live_kept live s s2 \<and>
        get_bytes (payload (ram_pbuf p layer n)) (length data) (bytes s2) = data \<and>
        pbuf_free e (Some p) s2 = Some (1, s3) \<and> owns s3 live \<and> pbufs s3 = (pbufs s)(p := None) \<and> live_kept live s s3"
      if d: "length data \<le> unat n" for data
    proof -
      let ?i = "16 + LWIP_MEM_ALIGN_SIZE (layer_val layer)"
      let ?s2 = "memcpy (p + ?i) data s1"
      have sz: "?i + length data \<le> ram_size layer n"
        using d align_size_bounds(1) [of "unat n"] by (simp add: ram_size_def)
      have t: "pbuf_take (Some p) data s1 = Some (ERR_OK, ?s2)" using b d by (intro take_ram) simp_all
      have o2: "owns ?s2 (live(p \<mapsto> ram_size layer n))" by (rule owns_memcpy [OF o(3)]) (use sz in simp_all)
      have k2: "live_kept live s ?s2"
        unfolding live_kept_def
      proof (intro allI impI)
        fix q k assume q: "live q = Some k"
        then have "q \<noteq> p" using o(1) by auto
        then have "q + k \<le> p \<or> p + ram_size layer n \<le> q"
          using blocks_apart [OF o(3), of q k p "ram_size layer n"] q by simp
        then have "get_bytes q k (bytes ?s2) = get_bytes q k (bytes s1)"
          using sz by (auto simp: memcpy_def intro!: get_put_other)
        then show "get_bytes q k (bytes ?s2) = get_bytes q k (bytes s)" using o(4) q by (simp add: live_kept_def)
      qed
      have g: "get_bytes (payload (ram_pbuf p layer n)) (length data) (bytes ?s2) = data"
        by (simp add: ram_pbuf_def memcpy_def add.assoc)
      have p2: "pbufs ?s2 p = Some (ram_pbuf p layer n)" using b by (simp add: memcpy_def)
      have lp: "(live(p \<mapsto> ram_size layer n)) p = Some (ram_size layer n)" by simp
      have f: "ref (ram_pbuf p layer n) = 1" "nxt (ram_pbuf p layer n) = None"
        "pbuf_get_allocsrc (ram_pbuf p layer n) = 0" "flags (ram_pbuf p layer n) AND 0x02 = 0"
        by (simp_all add: ram_pbuf_def pbuf_get_allocsrc_def)
      obtain s3 where s3: "pbuf_free e (Some p) ?s2 = Some (1, s3)"
        "owns s3 ((live(p \<mapsto> ram_size layer n))(p := None))" "pbufs s3 = (pbufs ?s2)(p := None)"
        "live_kept ((live(p \<mapsto> ram_size layer n))(p := None)) ?s2 s3"
        using free_ram [OF o2 lp p2 f] by blast
      have l: "(live(p \<mapsto> ram_size layer n))(p := None) = live" using o(1) by auto
      have "live_kept live s s3" using k2 s3(4) unfolding l live_kept_def by simp
      moreover have "pbufs s3 = (pbufs s)(p := None)" using s3(3) b by (simp add: memcpy_def)
      ultimately show ?thesis using t k2 g s3 l by auto
    qed
    then show ?thesis using a Some o b by auto
  qed
qed

end

section \<open>The heap of \<open>mem.c\<close>\<close>

text \<open>The registers of the heap are kept beside the packet buffers, its bytes are the memory of both.\<close>

record heap_regs =
  ram_reg :: nat
  ram_end_reg :: nat
  lfree_reg :: nat

definition heap_of :: "heap_regs pst \<Rightarrow> mem_heap" where
  "heap_of s = \<lparr>ram = ram_reg (heapm s), ram_end = ram_end_reg (heapm s), lfree = lfree_reg (heapm s), memory = bytes s\<rparr>"

definition put_heap :: "mem_heap \<Rightarrow> heap_regs pst \<Rightarrow> heap_regs pst" where
  "put_heap h s = s\<lparr>bytes := memory h, heapm := \<lparr>ram_reg = ram h, ram_end_reg = ram_end h, lfree_reg = lfree h\<rparr>\<rparr>"

definition ram_env :: "(nat \<Rightarrow> heap_regs pst \<Rightarrow> heap_regs pst option) \<Rightarrow> heap_regs pbuf_env" where
  "ram_env cf = \<lparr>malloc_fn = (\<lambda>n s. do { (r, h) \<leftarrow> mem_malloc n (heap_of s); Some (r, put_heap h s) }),
     free_fn = (\<lambda>p s. do { h \<leftarrow> mem_free (Some p) (heap_of s); Some (put_heap h s) }),
     trim_fn = (\<lambda>p n s. do { (r, h) \<leftarrow> mem_trim (Some p) n (heap_of s); Some (r, put_heap h s) }),
     custom_free_function = cf\<rparr>"

definition ram_owns :: "heap_regs pst \<Rightarrow> (nat \<rightharpoonup> nat) \<Rightarrow> bool" where
  "ram_owns s live \<longleftrightarrow> (\<exists>cs. heap_inv (heap_of s) live cs)"

lemma heap_of_simps [simp]:
  "heap_of (put_heap h s) = h" "memory (heap_of s) = bytes s" "heap_of (s\<lparr>pbufs := f\<rparr>) = heap_of s"
  "bytes (put_heap h s) = memory h" "put_heap (heap_of s) s = s"
  by (simp_all add: heap_of_def put_heap_def)

lemma heap_of_memcpy: "heap_of (memcpy a bs s) = (heap_of s)\<lparr>memory := put_bytes a bs (memory (heap_of s))\<rparr>"
  by (simp add: heap_of_def memcpy_def)

lemma put_heap_same: "same_pbufs s (put_heap h s)"
  by (simp add: same_pbufs_def put_heap_def)

lemma in_data_block:
  assumes "heap_inv h live cs" and "live a = Some k" and "a \<le> y" and "y < a + k"
  shows "in_data 0 cs (y - ram h)"
proof -
  obtain m xs ys where c: "cs = xs @ (m, True) # ys" "a = ram h + width xs + 8" "k \<le> m" using live_block [OF assms(1,2)] .
  then show ?thesis using assms(3,4) by (auto simp: in_data_append)
qed

lemma kept_live:
  assumes "heap_inv h live cs" and "heap_inv h' live' cs'" and "data_kept h cs h' cs'" and "ram h' = ram h"
    and "live a = Some k" and "live' a = Some k"
  shows "get_bytes a k (memory h') = get_bytes a k (memory h)"
proof (rule nth_equalityI)
  fix i assume i: "i < length (get_bytes a k (memory h'))"
  obtain m xs ys where "cs = xs @ (m, True) # ys" "a = ram h + width xs + 8" using live_block [OF assms(1,5)] .
  then have r: "ram h \<le> a + i" by simp
  have "in_data 0 cs (a + i - ram h)" "in_data 0 cs' (a + i - ram h)"
    using in_data_block [OF assms(1,5), of "a + i"] in_data_block [OF assms(2,6), of "a + i"] assms(4) i by simp_all
  then have "memory h' (ram h + (a + i - ram h)) = memory h (ram h + (a + i - ram h))" using assms(3) unfolding data_kept_def by blast
  then show "get_bytes a k (memory h') ! i = get_bytes a k (memory h) ! i" using i r by simp
qed simp

lemma inv_ram: "heap_inv h live cs \<Longrightarrow> heap_ok h cs"
  by (simp add: heap_inv_def)

interpretation ram: pbuf_heap "ram_env cf" ram_owns for cf
proof
  fix s live n
  assume "ram_owns s live"
  then obtain cs where i: "heap_inv (heap_of s) live cs" by (auto simp: ram_owns_def)
  obtain r h' where m: "mem_malloc n (heap_of s) = Some (r, h')" "ram h' = ram (heap_of s)"
    using malloc_refines [OF inv_ram [OF i], of n] by (auto dest: hdrs_ram split: option.splits if_splits)
  have e: "malloc_fn (ram_env cf) n s = Some (r, put_heap h' s)" using m by (simp add: ram_env_def)
  show "\<exists>r s'. malloc_fn (ram_env cf) n s = Some (r, s') \<and> (case r of None \<Rightarrow> s' = s
      | Some a \<Rightarrow> live a = None \<and> ram_owns s' (live(a \<mapsto> unat n)) \<and> same_pbufs s s' \<and> live_kept live s s')"
  proof (cases r)
    case None
    then have "h' = heap_of s" using malloc_inv [OF i m(1)] by simp
    then show ?thesis using e None by simp
  next
    case (Some a)
    then obtain cs' where c: "live a = None" "heap_inv h' (live(a \<mapsto> unat n)) cs'" "data_kept (heap_of s) cs h' cs'"
      using malloc_inv [OF i m(1)] by auto
    have "live_kept live s (put_heap h' s)"
      unfolding live_kept_def
    proof (intro allI impI)
      fix b k assume b: "live b = Some k"
      then have "(live(a \<mapsto> unat n)) b = Some k" using c(1) by auto
      from kept_live [OF i c(2,3) m(2) b this] show "get_bytes b k (bytes (put_heap h' s)) = get_bytes b k (bytes s)" by simp
    qed
    then show ?thesis using e Some c put_heap_same by (auto simp: ram_owns_def)
  qed
next
  fix s live a k
  assume "ram_owns s live" and a: "live a = Some k"
  then obtain cs where i: "heap_inv (heap_of s) live cs" by (auto simp: ram_owns_def)
  obtain h' cs' where h: "mem_free (Some a) (heap_of s) = Some h'" "heap_inv h' (live(a := None)) cs'" "data_kept (heap_of s) cs h' cs'"
    using free_inv [OF i a] by blast
  then have e: "free_fn (ram_env cf) a s = Some (put_heap h' s)" by (simp add: ram_env_def)
  show "\<exists>s'. free_fn (ram_env cf) a s = Some s' \<and> ram_owns s' (live(a := None)) \<and>
      same_pbufs s s' \<and> live_kept (live(a := None)) s s'"
  proof -
    have r: "ram h' = ram (heap_of s)" using h(3) by (simp add: data_kept_def)
    have "live_kept (live(a := None)) s (put_heap h' s)"
      unfolding live_kept_def
    proof (intro allI impI)
      fix b m assume b: "(live(a := None)) b = Some m"
      then have "live b = Some m" by (auto split: if_splits)
      from kept_live [OF i h(2,3) r this b] show "get_bytes b m (bytes (put_heap h' s)) = get_bytes b m (bytes s)" by simp
    qed
    then show ?thesis using e h(2) put_heap_same by (auto simp: ram_owns_def)
  qed
next
  fix s live a k
  assume "ram_owns s live" and a: "live a = Some k"
  then obtain cs where i: "heap_inv (heap_of s) live cs" by (auto simp: ram_owns_def)
  from block_facts [OF i a] show "a mod 4 = 0" by blast
next
  fix s live a k b l
  assume "ram_owns s live" and a: "live a = Some k" "live b = Some l" "a \<noteq> b"
  then obtain cs where i: "heap_inv (heap_of s) live cs" by (auto simp: ram_owns_def)
  from block_facts [OF i a(1)] a(2,3) show "a + k \<le> b \<or> b + l \<le> a" by fastforce
next
  fix s live f
  assume "ram_owns s live"
  then show "ram_owns (s\<lparr>pbufs := f\<rparr>) live" by (simp add: ram_owns_def)
next
  fix s live a k i and bs :: "u8 list"
  assume "ram_owns s live" and a: "live a = Some k" "i + length bs \<le> k"
  then obtain cs where v: "heap_inv (heap_of s) live cs" by (auto simp: ram_owns_def)
  obtain m where m: "blk (ram (heap_of s)) cs a = Some m" "k \<le> m" using live_block [OF v a(1)] by metis
  have "heap_ok ((heap_of s)\<lparr>memory := put_bytes (a + i) bs (memory (heap_of s))\<rparr>) cs"
    by (rule write_ok [OF inv_ram [OF v] m(1)]) (use a(2) m(2) in simp)
  then show "ram_owns (memcpy (a + i) bs s) live"
    using v unfolding ram_owns_def heap_of_memcpy heap_inv_def by auto
qed

section \<open>Packet buffers in RAM\<close>

text \<open>An empty heap under the packet buffers.\<close>

definition ram0 :: "heap_regs pst" where
  "ram0 = put_heap heap0 \<lparr>pbufs = (\<lambda>_. None), bytes = (\<lambda>_. 0), tab_POOL = [], tab_PBUF = [],
     pbuf_free_ooseq_pending = 0, heapm = \<lparr>ram_reg = 0, ram_end_reg = 0, lfree_reg = 0\<rparr>\<rparr>"

lemma ram0_owns: "ram_owns ram0 Map.empty"
proof -
  have "heap_inv heap0 Map.empty [(1592, False)]" using heap0_ok(1) by (simp add: heap_inv_def)
  then show ?thesis by (auto simp: ram_owns_def ram0_def)
qed

text \<open>
  C31: \<open>pbuf_alloc\<close> of a \<open>PBUF_RAM\<close> over the heap returns NULL and changes nothing, or a
  packet buffer with its payload in a fresh block of the heap.  Whatever \<open>pbuf_take\<close> then writes into it is
  found in its payload and touches no block in use, neither headers nor data, and \<open>pbuf_free\<close> gives the
  block back and leaves all others as they were.
\<close>

theorem pbuf_ram_lifecycle:
  assumes "ram_owns s live"
  shows "\<exists>r s1. pbuf_alloc (ram_env cf) layer n PBUF_RAM s = Some (r, s1) \<and> (case r of None \<Rightarrow> s1 = s
    | Some p \<Rightarrow> live p = None \<and> p mod 4 = 0 \<and> ram_owns s1 (live(p \<mapsto> ram_size layer n)) \<and> pbufs s1 p = Some (ram_pbuf p layer n) \<and>
        (\<forall>data. length data \<le> unat n \<longrightarrow> (\<exists>s2 s3. pbuf_take (Some p) data s1 = Some (ERR_OK, s2) \<and> live_kept live s s2 \<and>
           get_bytes (payload (ram_pbuf p layer n)) (length data) (bytes s2) = data \<and>
           pbuf_free (ram_env cf) (Some p) s2 = Some (1, s3) \<and> ram_owns s3 live \<and> pbufs s3 = (pbufs s)(p := None) \<and>
           live_kept live s s3)))"
  by (rule ram.lifecycle [OF assms])

theorem pbuf_ram_lifecycle_witness:
  "\<exists>s1 s2 s3. pbuf_alloc (ram_env (\<lambda>_. Some)) PBUF_TRANSPORT 3 PBUF_RAM ram0 = Some (Some 0x20000008, s1) \<and>
     pbuf_take (Some 0x20000008) [1, 2, 3] s1 = Some (ERR_OK, s2) \<and> get_bytes 0x20000050 3 (bytes s2) = [1, 2, 3] \<and>
     pbuf_free (ram_env (\<lambda>_. Some)) (Some 0x20000008) s2 = Some (1, s3) \<and> ram_owns s3 Map.empty"
proof -
  have h: "heap_of ram0 = heap0" by (simp add: ram0_def)
  obtain h1 where "mem_malloc 76 heap0 = Some (Some 0x20000008, h1)"
    using malloc_refines [OF heap0_ok(1), of 76] by (auto simp: need_def cut_def LWIP_MEM_ALIGN_SIZE_def MEM_ALIGNMENT_def heap0_ok(2))
  then have a: "\<exists>s1. pbuf_alloc (ram_env (\<lambda>_. Some)) PBUF_TRANSPORT 3 PBUF_RAM ram0 = Some (Some 0x20000008, s1)"
    by (simp add: pbuf_alloc_def Let_def ram_env_def h LWIP_MEM_ALIGN_SIZE_def MEM_ALIGNMENT_def SIZEOF_STRUCT_PBUF_def)
  have p: "payload (ram_pbuf 0x20000008 PBUF_TRANSPORT 3) = 0x20000050"
    by (simp add: ram_pbuf_def LWIP_MEM_ALIGN_SIZE_def MEM_ALIGNMENT_def)
  obtain s1 where s1: "pbuf_alloc (ram_env (\<lambda>_. Some)) PBUF_TRANSPORT 3 PBUF_RAM ram0 = Some (Some 0x20000008, s1)"
    using a by blast
  have l: "length [1, 2, 3 :: u8] \<le> unat (3 :: u16)" by simp
  have "\<exists>s2 s3. pbuf_take (Some 0x20000008) [1, 2, 3] s1 = Some (ERR_OK, s2) \<and>
      get_bytes 0x20000050 (length [1, 2, 3 :: u8]) (bytes s2) = [1, 2, 3] \<and>
      pbuf_free (ram_env (\<lambda>_. Some)) (Some 0x20000008) s2 = Some (1, s3) \<and> ram_owns s3 Map.empty"
    using pbuf_ram_lifecycle [OF ram0_owns, of "\<lambda>_. Some" PBUF_TRANSPORT 3] s1 l p by (auto simp del: list.size)
  then show ?thesis using s1 by (auto simp: numeral_3_eq_3)
qed

end
