(* ===== verification/Lwip_Chksum.thy ===== *)
theory Lwip_Chksum
  imports Lwip_Chain
begin

text \<open>
  The Internet checksum: the byte order functions of \<open>def.c\<close>, the three summing algorithms of
  \<open>inet_chksum.c\<close>, of which \<open>LWIP_CHKSUM_ALGORITHM\<close> selects the second, and the sums over memory, over
  pbuf chains and with the IPv4 pseudo header.  The processor is little-endian.  Pointers and lengths
  are those of the C code: a pointer is an address in the flat memory, \<open>len\<close> an \<open>int\<close>.

  The specification is the text of RFC 1071: the one's complement sum of the 16-bit big-endian words,
  an odd last byte padded with zero.  The interface locale \<open>checksum\<close> says what a port's own
  \<open>LWIP_CHKSUM\<close> has to return; the sums over chains are proved against it.
\<close>

unbundle bit_operations_syntax

section \<open>Byte order\<close>

definition lwip_htons :: "u16 \<Rightarrow> u16" where
  "lwip_htons n = (push_bit 8 (n AND 0x00FF) OR drop_bit 8 (n AND 0xFF00))"

definition lwip_htonl :: "u32 \<Rightarrow> u32" where
  "lwip_htonl x = (push_bit 24 (x AND 0x000000FF) OR push_bit 8 (x AND 0x0000FF00) OR
     drop_bit 8 (x AND 0x00FF0000) OR drop_bit 24 (x AND 0xFF000000))"

definition FOLD_U32T :: "u32 \<Rightarrow> u32" where
  "FOLD_U32T u = drop_bit 16 u + (u AND 0x0000FFFF)"

definition SWAP_BYTES_IN_WORD :: "u32 \<Rightarrow> u32" where
  "SWAP_BYTES_IN_WORD w = (push_bit 8 (w AND 0xFF) OR drop_bit 8 (w AND 0xFF00))"

definition load16 :: "(nat \<Rightarrow> u8) \<Rightarrow> nat \<Rightarrow> u16" where
  "load16 m a = u16_of (m a) (m (a + 1))"

definition load32 :: "(nat \<Rightarrow> u8) \<Rightarrow> nat \<Rightarrow> u32" where
  "load32 m a = ucast (load16 m a) OR push_bit 16 (ucast (load16 m (a + 2)))"

section \<open>Summing memory\<close>

function octets1 :: "nat \<Rightarrow> int \<Rightarrow> u32 \<Rightarrow> (nat \<Rightarrow> u8) \<Rightarrow> nat \<times> int \<times> u32" where
  "octets1 p n acc m = (if 1 < n
     then let src = push_bit 8 (ucast (m p)) OR ucast (m (p + 1)) :: u16
          in octets1 (p + 2) (n - 2) (acc + ucast src) m
     else (p, n, acc))"
  by pat_completeness auto
termination by (relation "measure (\<lambda>(p, n, acc, m). nat n)") auto

definition lwip_standard_chksum_1 :: "nat \<Rightarrow> int \<Rightarrow> (nat \<Rightarrow> u8) \<Rightarrow> u16" where
  "lwip_standard_chksum_1 dataptr n m = (
     let (p, n, acc) = octets1 dataptr n 0 m;
         acc = (if 0 < n then let src = push_bit 8 (ucast (m p)) :: u16 in acc + ucast src else acc);
         acc = drop_bit 16 acc + (acc AND 0x0000FFFF);
         acc = (if acc AND 0xFFFF0000 \<noteq> 0 then drop_bit 16 acc + (acc AND 0x0000FFFF) else acc)
     in lwip_htons (ucast acc))"

function words16 :: "nat \<Rightarrow> int \<Rightarrow> u32 \<Rightarrow> (nat \<Rightarrow> u8) \<Rightarrow> nat \<times> int \<times> u32" where
  "words16 ps n sm m = (if 1 < n then words16 (ps + 2) (n - 2) (sm + ucast (load16 m ps)) m else (ps, n, sm))"
  by pat_completeness auto
termination by (relation "measure (\<lambda>(ps, n, sm, m). nat n)") auto

text \<open>The byte in front of the first aligned word goes into the high half of \<open>t\<close>, the last one into the low half.\<close>

definition lwip_standard_chksum :: "nat \<Rightarrow> int \<Rightarrow> (nat \<Rightarrow> u8) \<Rightarrow> u16" where
  "lwip_standard_chksum pb n m = (
     let unaligned = (pb mod 2 = 1);
         t = 0 :: u16;
         (t, pb, n) = (if unaligned \<and> 0 < n then (u16_of (lo8 t) (m pb), pb + 1, n - 1) else (t, pb, n));
         (ps, n, sm) = words16 pb n 0 m;
         t = (if 0 < n then u16_of (m ps) (hi8 t) else t);
         sm = sm + ucast t;
         sm = FOLD_U32T sm;
         sm = FOLD_U32T sm;
         sm = (if unaligned then SWAP_BYTES_IN_WORD sm else sm)
     in ucast sm)"

function words32 :: "nat \<Rightarrow> int \<Rightarrow> u32 \<Rightarrow> (nat \<Rightarrow> u8) \<Rightarrow> nat \<times> int \<times> u32" where
  "words32 pl n sm m = (if 7 < n
     then let tmp = sm + load32 m pl;
              tmp = (if tmp < sm then tmp + 1 else tmp);
              sm = tmp + load32 m (pl + 4);
              sm = (if sm < tmp then sm + 1 else sm)
          in words32 (pl + 8) (n - 8) sm m
     else (pl, n, sm))"
  by pat_completeness auto
termination by (relation "measure (\<lambda>(pl, n, sm, m). nat n)") auto

definition lwip_standard_chksum_3 :: "nat \<Rightarrow> int \<Rightarrow> (nat \<Rightarrow> u8) \<Rightarrow> u16" where
  "lwip_standard_chksum_3 pb n m = (
     let unaligned = (pb mod 2 = 1);
         t = 0 :: u16;
         sm = 0 :: u32;
         (t, pb, n) = (if unaligned \<and> 0 < n then (u16_of (lo8 t) (m pb), pb + 1, n - 1) else (t, pb, n));
         (sm, ps, n) = (if pb mod 4 \<noteq> 0 \<and> 1 < n then (sm + ucast (load16 m pb), pb + 2, n - 2) else (sm, pb, n));
         (pl, n, sm) = words32 ps n sm m;
         sm = FOLD_U32T sm;
         (ps, n, sm) = words16 pl n sm m;
         t = (if 0 < n then u16_of (m ps) (hi8 t) else t);
         sm = sm + ucast t;
         sm = FOLD_U32T sm;
         sm = FOLD_U32T sm;
         sm = (if unaligned then SWAP_BYTES_IN_WORD sm else sm)
     in ucast sm)"

declare octets1.simps [simp del] words16.simps [simp del] words32.simps [simp del]

type_synonym chksum_fn = "nat \<Rightarrow> int \<Rightarrow> (nat \<Rightarrow> u8) \<Rightarrow> u16"

definition inet_chksum :: "chksum_fn \<Rightarrow> nat \<Rightarrow> u16 \<Rightarrow> (nat \<Rightarrow> u8) \<Rightarrow> u16" where
  "inet_chksum LWIP_CHKSUM dataptr n m = NOT (LWIP_CHKSUM dataptr (uint n) m)"

definition lwip_chksum_copy :: "chksum_fn \<Rightarrow> nat \<Rightarrow> nat \<Rightarrow> u16 \<Rightarrow> (nat \<Rightarrow> u8) \<Rightarrow> u16 \<times> (nat \<Rightarrow> u8)" where
  "lwip_chksum_copy LWIP_CHKSUM dst src n m =
     (let m' = put_bytes dst (get_bytes src (unat n) m) m in (LWIP_CHKSUM dst (uint n) m', m'))"

section \<open>Summing pbuf chains\<close>

text \<open>The loop is the same in \<open>inet_chksum_pbuf\<close> and in \<open>inet_cksum_pseudo_base\<close>.\<close>

definition add_pbuf :: "chksum_fn \<Rightarrow> pbuf \<Rightarrow> u16 \<Rightarrow> 'm pst \<Rightarrow> u32 \<times> bool \<Rightarrow> u32 \<times> bool" where
  "add_pbuf LWIP_CHKSUM q chklen s = (\<lambda>(acc, swapped).
     let acc = acc + ucast (LWIP_CHKSUM (payload q) (uint chklen) (bytes s));
         acc = FOLD_U32T acc
     in if unat (len q) mod 2 \<noteq> 0 then (SWAP_BYTES_IN_WORD acc, \<not> swapped) else (acc, swapped))"

partial_function (option) chksum_loop ::
    "chksum_fn \<Rightarrow> nat option \<Rightarrow> u32 \<times> bool \<Rightarrow> 'm pst \<Rightarrow> (u32 \<times> bool) option" where
  "chksum_loop LWIP_CHKSUM q st s = (case q of None \<Rightarrow> Some st
     | Some _ \<Rightarrow> do {
         (_, b) \<leftarrow> follow q s;
         chksum_loop LWIP_CHKSUM (nxt b) (add_pbuf LWIP_CHKSUM b (len b) s st) s
       })"

definition unswap :: "u32 \<times> bool \<Rightarrow> u32" where
  "unswap = (\<lambda>(acc, swapped). if swapped then SWAP_BYTES_IN_WORD acc else acc)"

definition inet_chksum_pbuf :: "chksum_fn \<Rightarrow> nat option \<Rightarrow> 'm pst \<Rightarrow> u16 option" where
  "inet_chksum_pbuf LWIP_CHKSUM p s = do {
     st \<leftarrow> chksum_loop LWIP_CHKSUM p (0, False) s;
     Some (ucast (NOT (unswap st AND 0xFFFF)))
   }"

definition pseudo_end :: "u8 \<Rightarrow> u16 \<Rightarrow> u32 \<times> bool \<Rightarrow> u16" where
  "pseudo_end proto proto_len st = (
     let acc = unswap st;
         acc = acc + ucast (lwip_htons (ucast proto));
         acc = acc + ucast (lwip_htons proto_len);
         acc = FOLD_U32T acc;
         acc = FOLD_U32T acc
     in ucast (NOT (acc AND 0xFFFF)))"

definition inet_cksum_pseudo_base :: "chksum_fn \<Rightarrow> nat option \<Rightarrow> u8 \<Rightarrow> u16 \<Rightarrow> u32 \<Rightarrow> 'm pst \<Rightarrow> u16 option" where
  "inet_cksum_pseudo_base LWIP_CHKSUM p proto proto_len acc s = do {
     st \<leftarrow> chksum_loop LWIP_CHKSUM p (acc, False) s;
     Some (pseudo_end proto proto_len st)
   }"

text \<open>Addresses are in network order: the first byte of the address is the low byte of the word.\<close>

definition add_addrs :: "u32 \<Rightarrow> u32 \<Rightarrow> u32" where
  "add_addrs src dest = (
     let addr = src;
         acc = addr AND 0xFFFF;
         acc = acc + (drop_bit 16 addr AND 0xFFFF);
         addr = dest;
         acc = acc + (addr AND 0xFFFF);
         acc = acc + (drop_bit 16 addr AND 0xFFFF);
         acc = FOLD_U32T acc
     in FOLD_U32T acc)"

definition inet_chksum_pseudo :: "chksum_fn \<Rightarrow> nat option \<Rightarrow> u8 \<Rightarrow> u16 \<Rightarrow> u32 \<Rightarrow> u32 \<Rightarrow> 'm pst \<Rightarrow> u16 option" where
  "inet_chksum_pseudo LWIP_CHKSUM p proto proto_len src dest s =
     inet_cksum_pseudo_base LWIP_CHKSUM p proto proto_len (add_addrs src dest) s"

partial_function (option) chksum_partial_loop ::
    "chksum_fn \<Rightarrow> nat option \<Rightarrow> u16 \<Rightarrow> u32 \<times> bool \<Rightarrow> 'm pst \<Rightarrow> (u32 \<times> bool) option" where
  "chksum_partial_loop LWIP_CHKSUM q chksum_len st s = (if q = None \<or> chksum_len = 0 then Some st else do {
     (_, b) \<leftarrow> follow q s;
     let chklen = (if chksum_len < len b then chksum_len else len b);
     let st = add_pbuf LWIP_CHKSUM b chklen s st;
     st \<leftarrow> LWIP_ASSERT (chksum_len - chklen < 0x7FFF) st;
     chksum_partial_loop LWIP_CHKSUM (nxt b) (chksum_len - chklen) st s
   })"

definition inet_cksum_pseudo_partial_base ::
    "chksum_fn \<Rightarrow> nat option \<Rightarrow> u8 \<Rightarrow> u16 \<Rightarrow> u16 \<Rightarrow> u32 \<Rightarrow> 'm pst \<Rightarrow> u16 option" where
  "inet_cksum_pseudo_partial_base LWIP_CHKSUM p proto proto_len chksum_len acc s = do {
     st \<leftarrow> chksum_partial_loop LWIP_CHKSUM p chksum_len (acc, False) s;
     Some (pseudo_end proto proto_len st)
   }"

definition inet_chksum_pseudo_partial ::
    "chksum_fn \<Rightarrow> nat option \<Rightarrow> u8 \<Rightarrow> u16 \<Rightarrow> u16 \<Rightarrow> u32 \<Rightarrow> u32 \<Rightarrow> 'm pst \<Rightarrow> u16 option" where
  "inet_chksum_pseudo_partial LWIP_CHKSUM p proto proto_len chksum_len src dest s =
     inet_cksum_pseudo_partial_base LWIP_CHKSUM p proto proto_len chksum_len (add_addrs src dest) s"

section \<open>The specification\<close>

text \<open>One's complement addition puts the carry back in at the low end.\<close>

definition ones_add :: "u16 \<Rightarrow> u16 \<Rightarrow> u16" where
  "ones_add a b = (let c = unat a + unat b in of_nat (c mod 65536 + c div 65536))"

fun rfc1071 :: "u8 list \<Rightarrow> u16" where
  "rfc1071 [] = 0"
| "rfc1071 [b] = u16_of 0 b"
| "rfc1071 (b # c # bs) = ones_add (u16_of c b) (rfc1071 bs)"

definition addr_bytes :: "u32 \<Rightarrow> u8 list" where
  "addr_bytes w = [ucast w, ucast (drop_bit 8 w), ucast (drop_bit 16 w), ucast (drop_bit 24 w)]"

definition pseudo_header :: "u32 \<Rightarrow> u32 \<Rightarrow> u8 \<Rightarrow> u16 \<Rightarrow> u8 list" where
  "pseudo_header src dest proto proto_len = addr_bytes src @ addr_bytes dest @ [0, proto, hi8 proto_len, lo8 proto_len]"

section \<open>Sums modulo 65535\<close>

text \<open>
  \<open>wt\<close> reads the bytes as one little-endian number.  A number \<open>sums\<close> the bytes when it is that
  number modulo 65535 and is zero only with it; below 65536 there is exactly one such number.
\<close>

primrec wt :: "u8 list \<Rightarrow> nat" where
  "wt [] = 0"
| "wt (b # bs) = unat b + 256 * wt bs"

definition sums :: "u8 list \<Rightarrow> nat \<Rightarrow> bool" where
  "sums bs s \<longleftrightarrow> s mod 65535 = wt bs mod 65535 \<and> (s = 0 \<longleftrightarrow> wt bs = 0)"

lemma wt_append: "wt (xs @ ys) = wt xs + 256 ^ length xs * wt ys"
  by (induction xs) (simp_all add: algebra_simps)

lemma pow256_mod: "(256 ^ n :: nat) mod 65535 = (if even n then 1 else 256)"
proof (induction n)
  case (Suc n)
  have "(256 ^ Suc n :: nat) mod 65535 = (256 * (256 ^ n mod 65535)) mod 65535" by (simp add: mod_mult_right_eq)
  with Suc show ?case by simp
qed simp

lemma sums_self: "sums bs (wt bs)"
  by (simp add: sums_def)

lemma mod_step: "(a + 65535 * k) mod 65535 = (a :: nat) mod 65535"
  by (rule mod_mult_self2)

lemma sums_append:
  assumes "sums xs s" and "sums ys t" and "even (length xs)"
  shows "sums (xs @ ys) (s + t)"
proof -
  have p: "256 ^ length xs mod 65535 = (1 :: nat)" using pow256_mod [of "length xs"] assms(3) by simp
  have "(256 ^ length xs * wt ys) mod 65535 = wt ys mod 65535"
    using p mod_mult_left_eq [of "256 ^ length xs" 65535 "wt ys"] by simp
  then have "(wt xs + 256 ^ length xs * wt ys) mod 65535 = (s + t) mod 65535"
    using assms(1,2) by (intro mod_add_cong) (simp_all add: sums_def)
  then show ?thesis using assms(1,2) by (auto simp: sums_def wt_append)
qed

lemma sums_cong: "sums xs s \<Longrightarrow> sums xs t \<Longrightarrow> sums ys s = sums ys t"
  by (auto simp: sums_def)

lemma sums_insert:
  assumes "sums (xs @ zs) s" and "sums ys t" and "even (length xs)" and "even (length ys)"
  shows "sums (xs @ ys @ zs) (s + t)"
proof -
  have xz: "sums (xs @ zs) (wt xs + wt zs)" by (intro sums_append sums_self assms)
  have "sums (xs @ ys @ zs) (wt xs + (t + wt zs))" by (intro sums_append sums_self assms)
  moreover have "(s + t) mod 65535 = (wt xs + (t + wt zs)) mod 65535"
    using mod_add_cong [of s 65535 "wt xs + wt zs" t t] assms(1) xz by (simp add: sums_def ac_simps)
  moreover have "s + t = 0 \<longleftrightarrow> wt xs + (t + wt zs) = 0" using assms(1) xz by (auto simp: sums_def)
  ultimately show ?thesis unfolding sums_def by simp
qed

lemma sums_fold:
  assumes "sums bs s"
  shows "sums bs (s div 65536 + s mod 65536)"
proof -
  let ?q = "s div 65536" and ?r = "s mod 65536"
  have e: "s = (?q + ?r) + 65535 * ?q" using div_mult_mod_eq [of s 65536] by linarith
  have "(?q + ?r) mod 65535 = s mod 65535" by (subst (3) e) (simp only: mod_step)
  moreover have "?q + ?r = 0 \<longleftrightarrow> s = 0" using e by linarith
  ultimately show ?thesis using assms by (simp add: sums_def)
qed

definition swap :: "nat \<Rightarrow> nat" where
  "swap s = 256 * (s mod 256) + s div 256"

lemma swap_less: "s < 65536 \<Longrightarrow> swap s < 65536"
proof -
  assume "s < 65536"
  then have "s div 256 < 256" by (simp add: div_less_iff_less_mult)
  moreover have "s mod 256 < 256" by simp
  ultimately show ?thesis unfolding swap_def by linarith
qed

lemma swap_mod: "swap s mod 65535 = (256 * s) mod 65535" "swap s = 0 \<longleftrightarrow> s = 0"
proof -
  let ?q = "s div 256" and ?r = "s mod 256"
  have e: "256 * s = swap s + 65535 * ?q" unfolding swap_def using div_mult_mod_eq [of s 256] by linarith
  show "swap s mod 65535 = (256 * s) mod 65535" unfolding e by (simp only: mod_step)
  show "swap s = 0 \<longleftrightarrow> s = 0" unfolding swap_def using div_mult_mod_eq [of s 256] by linarith
qed

lemma sums_swap: "sums bs s \<Longrightarrow> sums (0 # bs) (swap s)"
proof -
  assume s: "sums bs s"
  then have "(256 * s) mod 65535 = (256 * wt bs) mod 65535" by (intro mod_mult_cong) (simp_all add: sums_def)
  with s show ?thesis by (simp add: sums_def swap_mod)
qed

lemma sums_unswap: "sums (0 # bs) s \<Longrightarrow> sums bs (swap s)"
proof -
  assume s: "sums (0 # bs) s"
  then have "(256 * s) mod 65535 = (256 * (256 * wt bs)) mod 65535" by (intro mod_mult_cong) (simp_all add: sums_def)
  also have "256 * (256 * wt bs) = wt bs + 65535 * wt bs" by simp
  also have "\<dots> mod 65535 = wt bs mod 65535" by (rule mod_step)
  finally show ?thesis using s by (simp add: sums_def swap_mod)
qed

lemma sums_unique:
  assumes "sums bs s" and "sums bs t" and "s < 65536" and "t < 65536"
  shows "s = t"
proof -
  have u: "x mod 65535 = (if x = 65535 then 0 else x)" if "x < 65536" for x :: nat
    using that by simp
  have "s mod 65535 = t mod 65535" "s = 0 \<longleftrightarrow> t = 0" using assms(1,2) by (auto simp: sums_def)
  then show ?thesis unfolding u [OF assms(3)] u [OF assms(4)] by (simp split: if_splits)
qed

section \<open>Word operations\<close>

lemma unat_fold: "unat (FOLD_U32T u) = unat u div 65536 + unat u mod 65536"
proof -
  have m: "unat (u AND 0xFFFF) = unat u mod 65536"
  proof -
    have "u AND 0xFFFF = take_bit 16 u" by (simp add: take_bit_eq_mask mask_eq_exp_minus_1)
    then show ?thesis by (simp only: unsigned_take_bit_eq) (simp add: take_bit_eq_mod)
  qed
  have d: "unat (drop_bit 16 u) = unat u div 65536" by (simp only: unat_drop_bit_eq) (simp add: drop_bit_eq_div)
  have "unat u div 65536 < 65536" using unat_u32_less [of u] by (simp add: div_less_iff_less_mult)
  moreover have "unat u mod 65536 < 65536" by simp
  ultimately show ?thesis unfolding FOLD_U32T_def by (simp add: unat_word_ariths m d)
qed

lemma fold_bound: "s < 4294967296 \<Longrightarrow> s div 65536 + s mod 65536 \<le> (131070 :: nat)"
  "s \<le> 131070 \<Longrightarrow> s div 65536 + s mod 65536 < (65536 :: nat)"
proof -
  show "s div 65536 + s mod 65536 \<le> 131070" if "s < 4294967296"
  proof -
    have "s div 65536 < 65536" using that by (simp add: div_less_iff_less_mult)
    moreover have "s mod 65536 < 65536" by simp
    ultimately show ?thesis by linarith
  qed
  show "s div 65536 + s mod 65536 < 65536" if "s \<le> 131070"
  proof (cases "s < 65536")
    case False
    then have "s div 65536 = 1" "s mod 65536 = s - 65536" using that by (simp_all add: div_if mod_if)
    with that show ?thesis by simp
  qed simp
qed

lemma fold_sums: "sums bs (unat u) \<Longrightarrow> sums bs (unat (FOLD_U32T u))"
  unfolding unat_fold by (rule sums_fold)

lemma fold_once: "unat u \<le> 131070 \<Longrightarrow> unat (FOLD_U32T u) < 65536"
  unfolding unat_fold by (rule fold_bound)

lemma fold_twice: "unat (FOLD_U32T (FOLD_U32T u)) < 65536"
  by (rule fold_once) (simp add: unat_fold fold_bound unat_u32_less)

lemma swap_parts: "l < 256 \<Longrightarrow> h < 256 \<Longrightarrow> swap (l + 256 * h) = h + 256 * l"
  by (simp add: swap_def)

lemma byte_masks:
  "(0xFF :: 'a :: len word) = mask 8" "(0xFF00 :: 'a word) = push_bit 8 (mask 8)"
  by (simp_all add: mask_eq_exp_minus_1 push_bit_eq_mult)

lemma unat_htons: "unat (lwip_htons n) = swap (unat n)"
proof -
  have "lwip_htons n = u16_of (hi8 n) (lo8 n)"
    unfolding lwip_htons_def byte_masks by (rule bit_word_eqI) (auto simp: bitmask_simps bit_simps bit_mask_iff add.commute)
  moreover have "unat n = unat (lo8 n) + 256 * unat (hi8 n)"
    using unat_u16_of [of "lo8 n" "hi8 n"] by simp
  ultimately show ?thesis by (simp add: unat_u16_of swap_parts unat_u8_less)
qed

lemma unat_swap:
  assumes "unat w < 65536"
  shows "unat (SWAP_BYTES_IN_WORD w) = swap (unat w)"
proof -
  define v :: u16 where "v = ucast w"
  have u: "unat w = unat v" using assms by (simp add: v_def unsigned_ucast_eq take_bit_nat_eq_self)
  then have w: "w = ucast v" by (simp add: word_unat_eq_iff unsigned_ucast_eq take_bit_nat_eq_self unat_u16_less less_trans [OF unat_u16_less])
  have "SWAP_BYTES_IN_WORD w = ucast (lwip_htons v)"
    unfolding w SWAP_BYTES_IN_WORD_def lwip_htons_def byte_masks
    by (rule bit_word_eqI) (auto simp: bit_simps bit_mask_iff)
  then show ?thesis by (simp add: u unat_htons [symmetric] unsigned_ucast_eq take_bit_nat_eq_self less_trans [OF unat_u16_less])
qed

lemma unat_ucast_32: "unat (ucast (v :: u16) :: u32) = unat v"
  by (simp add: unsigned_ucast_eq take_bit_nat_eq_self less_trans [OF unat_u16_less])

lemma unat_ucast_16: "unat (w :: u32) < 65536 \<Longrightarrow> unat (ucast w :: u16) = unat w"
  by (simp add: unsigned_ucast_eq take_bit_nat_eq_self)

lemma unat_u32_plus: "unat a + unat b < 4294967296 \<Longrightarrow> unat (a + b :: u32) = unat a + unat b"
  by (simp add: unat_word_ariths)

lemma get_bytes_2: "get_bytes a 2 m = [m a, m (a + 1)]"
  by (simp add: get_bytes_def upt_rec numeral_2_eq_2)

lemma unat_load16: "unat (load16 m a) = wt (get_bytes a 2 m)"
  by (simp add: load16_def unat_u16_of get_bytes_2)

lemma sums_load16: "sums (get_bytes a 2 m) (unat (load16 m a))"
  unfolding unat_load16 by (rule sums_self)

lemma unat_load32: "unat (load32 m a) = wt (get_bytes a 4 m)"
proof -
  have "load32 m a = ucast (load16 m a) + push_bit 16 (ucast (load16 m (a + 2)))"
    unfolding load32_def
    by (rule disjunctive_add [symmetric]) (auto simp: bit_simps dest: bit_imp_le_length)
  moreover have p: "unat (push_bit 16 (ucast (load16 m (a + 2)) :: u32)) = 65536 * unat (load16 m (a + 2))"
    using unat_u16_less [of "load16 m (a + 2)"]
    by (simp add: push_bit_eq_mult unat_word_ariths unat_ucast_32)
  moreover have "get_bytes a 4 m = get_bytes a 2 m @ get_bytes (a + 2) 2 m"
    using get_bytes_append [of a 2 2 m] by simp
  ultimately show ?thesis using unat_u16_less [of "load16 m (a + 2)"] unat_u16_less [of "load16 m a"]
    by (simp add: unat_u32_plus unat_ucast_32 wt_append unat_load16)
qed

section \<open>The algorithms\<close>

lemma sums_shift: "sums (0 # bs) s = sums bs (256 * s)"
proof -
  have a: "256 * (256 * x) = x + 65535 * x" for x :: nat by simp
  have "s mod 65535 = (256 * wt bs) mod 65535 \<longleftrightarrow> (256 * s) mod 65535 = wt bs mod 65535"
    using mod_mult_cong [of 256 65535 256 s "256 * wt bs"] mod_mult_cong [of 256 65535 256 "256 * s" "wt bs"]
    unfolding a mod_step by auto
  then show ?thesis by (simp add: sums_def)
qed

lemma sums_pad: "sums (0 # 0 # bs) s = sums bs s" "sums (bs @ [0]) s = sums bs s"
proof -
  have "wt (0 # 0 # bs) = wt bs + 65535 * wt bs" by simp
  then show "sums (0 # 0 # bs) s = sums bs s" unfolding sums_def by (simp only: mod_step) simp
qed (simp add: sums_def wt_append)

lemma sums_ends:
  assumes "sums bs s" and "even (length bs)"
  shows "sums (0 # h # bs @ [l]) (s + unat (u16_of l h))"
proof -
  have "sums ([0, h] @ bs @ [l]) (256 * unat h + (s + unat l))"
    by (intro sums_append assms) (simp_all add: sums_def)
  then show ?thesis by (simp add: unat_u16_of ac_simps)
qed

lemma get_bytes_snoc: "get_bytes p (Suc n) m = get_bytes p n m @ [m (p + n)]"
  by (simp add: get_bytes_def)

lemma get_bytes_Cons: "get_bytes p (Suc n) m = m p # get_bytes (p + 1) n m"
  using get_bytes_append [of p 1 n m] by (simp add: get_bytes_def)

lemma words16_spec:
  assumes "unat sm + 65535 * k < 4294967296" and "r < 2"
  shows "\<exists>sm' t. words16 ps (2 * int k + int r) sm m = (ps + 2 * k, int r, sm') \<and> unat sm' = unat sm + t \<and>
    t \<le> 65535 * k \<and> sums (get_bytes ps (2 * k) m) t"
  using assms(1)
proof (induction k arbitrary: ps sm)
  case 0
  with assms(2) show ?case by (subst words16.simps) (simp add: sums_def)
next
  case (Suc k)
  let ?w = "load16 m ps"
  have w: "unat ?w < 65536" by (rule unat_u16_less)
  have u: "unat (sm + ucast ?w) = unat sm + unat ?w"
    using Suc.prems w by (simp add: unat_u32_plus unat_ucast_32)
  then have "unat (sm + ucast ?w) + 65535 * k < 4294967296" using Suc.prems w by simp
  from Suc.IH [OF this, of "ps + 2"] obtain sm' t where
    i: "words16 (ps + 2) (2 * int k + int r) (sm + ucast ?w) m = (ps + 2 + 2 * k, int r, sm')"
    "unat sm' = unat sm + unat ?w + t" "t \<le> 65535 * k" "sums (get_bytes (ps + 2) (2 * k) m) t"
    by (auto simp: u)
  have "get_bytes ps (2 * Suc k) m = get_bytes ps 2 m @ get_bytes (ps + 2) (2 * k) m"
    using get_bytes_append [of ps 2 "2 * k" m] by simp
  then have "sums (get_bytes ps (2 * Suc k) m) (unat ?w + t)"
    using sums_append [OF sums_load16 i(4)] by simp
  with i(1-3) w show ?case by (subst words16.simps) (auto simp: add.assoc intro!: exI [of _ "unat ?w + t"])
qed

lemma octets1_spec:
  assumes "unat acc + 65535 * k < 4294967296" and "r < 2"
  shows "\<exists>acc' t. octets1 p (2 * int k + int r) acc m = (p + 2 * k, int r, acc') \<and> unat acc' = unat acc + t \<and>
    t \<le> 65535 * k \<and> sums (0 # get_bytes p (2 * k) m) t"
  using assms(1)
proof (induction k arbitrary: p acc)
  case 0
  with assms(2) show ?case by (subst octets1.simps) (simp add: sums_def)
next
  case (Suc k)
  define w where "w = u16_of (m (p + 1)) (m p)"
  have e: "(push_bit 8 (ucast (m p)) OR ucast (m (p + 1)) :: u16) = w" by (simp add: w_def u16_of_def or.commute)
  have ub: "unat w < 65536" by (rule unat_u16_less)
  have u: "unat (acc + ucast w) = unat acc + unat w"
    using Suc.prems ub by (simp add: unat_u32_plus unat_ucast_32)
  then have "unat (acc + ucast w) + 65535 * k < 4294967296" using Suc.prems ub by simp
  from Suc.IH [OF this, of "p + 2"] obtain acc' t where
    i: "octets1 (p + 2) (2 * int k + int r) (acc + ucast w) m = (p + 2 + 2 * k, int r, acc')"
    "unat acc' = unat acc + unat w + t" "t \<le> 65535 * k" "sums (0 # get_bytes (p + 2) (2 * k) m) t"
    by (auto simp: u)
  have g: "get_bytes p (2 * Suc k) m = get_bytes p 2 m @ get_bytes (p + 2) (2 * k) m"
    using get_bytes_append [of p 2 "2 * k" m] by simp
  have "256 * unat w = wt (get_bytes p 2 m) + 65535 * unat (m p)" by (simp add: w_def unat_u16_of get_bytes_2)
  then have "sums (get_bytes p 2 m) (256 * unat w)"
    unfolding sums_def by (simp only: mod_step) (simp add: get_bytes_2)
  from sums_append [OF this i(4) [unfolded sums_shift]] have "sums (0 # get_bytes p (2 * Suc k) m) (unat w + t)"
    unfolding g sums_shift by (simp add: algebra_simps)
  with i(1-3) ub show ?case
    by (subst octets1.simps) (auto simp: Let_def e [simplified] add.assoc intro!: exI [of _ "unat w + t"])
qed

lemma carry_sums:
  fixes sm w :: u32
  assumes "sums xs (unat sm)" and "sums ys (unat w)" and "even (length xs)"
  shows "sums (xs @ ys) (unat (if sm + w < sm then sm + w + 1 else sm + w))"
proof -
  have s: "sums (xs @ ys) (unat sm + unat w)" by (intro sums_append assms)
  show ?thesis
  proof (cases "sm + w < sm")
    case True
    note b = unat_u32_less [of sm] unat_u32_less [of w]
    have "\<not> unat sm + unat w < 4294967296" using True by (auto simp: word_less_nat_alt unat_u32_plus)
    moreover from this b have c: "unat (sm + w) = unat sm + unat w - 4294967296"
      by (simp add: unat_word_ariths mod_if)
    moreover have "unat (sm + w + 1) = unat (sm + w) + 1"
      using b c by (subst unat_u32_plus) auto
    ultimately have e: "unat sm + unat w = unat (sm + w + 1) + 65535 * 65537" "unat (sm + w + 1) \<noteq> 0" by simp_all
    from s have "sums (xs @ ys) (unat (sm + w + 1))"
      using e(2) mod_step [of "unat (sm + w + 1)" 65537] unfolding sums_def e(1) by auto
    with True show ?thesis by simp
  next
    case False
    note b = unat_u32_less [of sm] unat_u32_less [of w]
    have "unat sm + unat w < 4294967296"
    proof (rule ccontr)
      assume n: "\<not> unat sm + unat w < 4294967296"
      with b have "unat (sm + w) = unat sm + unat w - 4294967296" by (simp add: unat_word_ariths mod_if)
      moreover have "unat sm \<le> unat (sm + w)" using False by (simp only: word_less_nat_alt not_less)
      ultimately show False using b n by linarith
    qed
    with s False show ?thesis by (simp add: unat_u32_plus)
  qed
qed

lemma words32_spec:
  assumes "sums xs (unat sm)" and "even (length xs)" and "r < 8"
  shows "\<exists>sm'. words32 pl (8 * int k + int r) sm m = (pl + 8 * k, int r, sm') \<and>
    sums (xs @ get_bytes pl (8 * k) m) (unat sm')"
  using assms(1,2)
proof (induction k arbitrary: pl sm xs)
  case 0
  with assms(3) show ?case by (subst words32.simps) simp
next
  case (Suc k)
  define tmp where "tmp = (if sm + load32 m pl < sm then sm + load32 m pl + 1 else sm + load32 m pl)"
  define sm2 where "sm2 = (if tmp + load32 m (pl + 4) < tmp then tmp + load32 m (pl + 4) + 1 else tmp + load32 m (pl + 4))"
  have l: "sums (get_bytes a 4 m) (unat (load32 m a))" for a unfolding unat_load32 by (rule sums_self)
  have "sums (xs @ get_bytes pl 4 m) (unat tmp)"
    unfolding tmp_def by (intro carry_sums l Suc.prems)
  then have s: "sums ((xs @ get_bytes pl 4 m) @ get_bytes (pl + 4) 4 m) (unat sm2)"
    unfolding sm2_def by (intro carry_sums l) (use Suc.prems in simp_all)
  obtain sm' where i: "words32 (pl + 8) (8 * int k + int r) sm2 m = (pl + 8 + 8 * k, int r, sm')"
    "sums (((xs @ get_bytes pl 4 m) @ get_bytes (pl + 4) 4 m) @ get_bytes (pl + 8) (8 * k) m) (unat sm')"
    using Suc.IH [OF s, of "pl + 8"] Suc.prems by auto
  have "get_bytes pl (8 * Suc k) m = get_bytes pl 4 m @ get_bytes (pl + 4) 4 m @ get_bytes (pl + 8) (8 * k) m"
    using get_bytes_append [of pl 4 "4 + 8 * k" m] get_bytes_append [of "pl + 4" 4 "8 * k" m]
    by (simp add: add.commute [of 8])
  moreover have "words32 pl (8 * int (Suc k) + int r) sm m = words32 (pl + 8) (8 * int k + int r) sm2 m"
    by (subst words32.simps) (simp add: Let_def tmp_def sm2_def)
  ultimately show ?case using i by (simp add: add.assoc)
qed

text \<open>What comes out of the three algorithms, for every address and length in their ranges.\<close>

definition tail_byte :: "nat \<Rightarrow> nat \<Rightarrow> (nat \<Rightarrow> u8) \<Rightarrow> u8" where
  "tail_byte ps r m = (if r = 0 then 0 else m ps)"

lemma sums_tail: "r < 2 \<Longrightarrow> sums (xs @ get_bytes p (k + r) m) s = sums (xs @ get_bytes p k m @ [tail_byte (p + k) r m]) s"
  using sums_pad(2) [of "xs @ get_bytes p k m" s]
  by (cases "r = 0") (auto simp: tail_byte_def get_bytes_snoc less_2_cases_iff)

lemma halves_0: "lo8 0 = 0" "hi8 0 = 0" "u16_of 0 0 = 0"
  by (simp_all add: lo8_def hi8_def u16_of_def)

lemma halve: "\<exists>k r. n = 2 * k + r \<and> r < (2 :: nat)"
  by (intro exI [of _ "n div 2"] exI [of _ "n mod 2"]) simp

lemma finish_sums:
  assumes "sums xs (unat sm)" and "unat sm + 65535 < 4294967296" and "even (length xs)"
    and "sm' = FOLD_U32T (FOLD_U32T (sm + ucast (u16_of l h)))"
  shows "sums (0 # h # xs @ [l]) (unat sm')" and "unat sm' < 65536"
proof -
  have "unat (sm + ucast (u16_of l h)) = unat sm + unat (u16_of l h)"
    using assms(2) unat_u16_less [of "u16_of l h"] by (simp add: unat_u32_plus unat_ucast_32)
  then show "sums (0 # h # xs @ [l]) (unat sm')" "unat sm' < 65536"
    unfolding assms(4) using sums_ends [OF assms(1,3), of h l] by (simp_all add: fold_sums fold_twice)
qed

lemma odd_result:
  assumes "sums (0 # h # xs) (unat sm)" and "unat sm < 65536"
  shows "sums (h # xs) (unat (ucast (SWAP_BYTES_IN_WORD sm) :: u16))"
  using sums_unswap [OF assms(1)] assms(2) swap_less [OF assms(2)] by (simp add: unat_swap unat_ucast_16)

lemma chksum2_sums:
  assumes "n \<le> 0x20000"
  shows "sums (get_bytes p n m) (unat (lwip_standard_chksum p (int n) m))"
proof (cases "p mod 2 = 1 \<and> 0 < n")
  case True
  then obtain n' where n': "n = Suc n'" by (cases n) auto
  obtain k r where k: "n' = 2 * k + r" "r < 2" using halve by blast
  have "65535 * k + 65535 < 4294967296" using assms n' k by simp
  then obtain sm where sm: "words16 (p + 1) (2 * int k + int r) 0 m = (p + 1 + 2 * k, int r, sm)"
    "unat sm + 65535 < 4294967296" "sums (get_bytes (p + 1) (2 * k) m) (unat sm)"
    using words16_spec [of 0 k r "p + 1" m] k(2) by auto
  define sm' where "sm' = FOLD_U32T (FOLD_U32T (sm + ucast (u16_of (tail_byte (p + 1 + 2 * k) r m) (m p))))"
  have f: "sums (0 # m p # get_bytes (p + 1) (2 * k) m @ [tail_byte (p + 1 + 2 * k) r m]) (unat sm')" "unat sm' < 65536"
    using finish_sums [OF sm(3,2) _ sm'_def] by simp_all
  have "lwip_standard_chksum p (int n) m = ucast (SWAP_BYTES_IN_WORD sm')"
    using True sm(1) by (auto simp: lwip_standard_chksum_def n' k(1) sm'_def tail_byte_def halves_0 Let_def)
  moreover have "get_bytes p n m = m p # get_bytes (p + 1) (2 * k + r) m" by (simp add: n' k(1) get_bytes_Cons)
  ultimately show ?thesis using odd_result [OF f] sums_tail [OF k(2), of "[m p]" "p + 1" "2 * k" m] by simp
next
  case False
  obtain k r where k: "n = 2 * k + r" "r < 2" using halve by blast
  have "65535 * k + 65535 < 4294967296" using assms k by simp
  then obtain sm where sm: "words16 p (2 * int k + int r) 0 m = (p + 2 * k, int r, sm)"
    "unat sm + 65535 < 4294967296" "sums (get_bytes p (2 * k) m) (unat sm)"
    using words16_spec [of 0 k r p m] k(2) by auto
  define sm' where "sm' = FOLD_U32T (FOLD_U32T (sm + ucast (u16_of (tail_byte (p + 2 * k) r m) 0)))"
  have f: "sums (0 # 0 # get_bytes p (2 * k) m @ [tail_byte (p + 2 * k) r m]) (unat sm')" "unat sm' < 65536"
    using finish_sums [OF sm(3,2) _ sm'_def] by simp_all
  have "lwip_standard_chksum p (int n) m =
      ucast (if p mod 2 = 1 then SWAP_BYTES_IN_WORD sm' else sm')"
    using False sm(1) by (auto simp: lwip_standard_chksum_def k(1) sm'_def tail_byte_def halves_0 Let_def)
  moreover have "sm' = 0" if "p mod 2 = 1"
  proof -
    have "n = 0" using that False by simp
    with f(1) have "unat sm' = 0" using k by (simp add: tail_byte_def sums_def)
    then show ?thesis by (simp add: unat_eq_0)
  qed
  ultimately have "lwip_standard_chksum p (int n) m = ucast sm'"
    by (auto simp: SWAP_BYTES_IN_WORD_def)
  then show ?thesis
    using f sums_tail [OF k(2), of "[]" p "2 * k" m] by (simp add: k(1) sums_pad unat_ucast_16)
qed

text \<open>The third algorithm adds carries back as they occur, so it has no limit on the length.\<close>

lemma octave: "\<exists>k r. n = 8 * k + r \<and> r < (8 :: nat)"
  by (intro exI [of _ "n div 8"] exI [of _ "n mod 8"]) simp

lemma chksum3_tail:
  assumes "sums xs (unat sm)" and "even (length xs)"
  shows "\<exists>k k' r sm1 sm2. n = 8 * k + 2 * k' + r \<and> r < 2 \<and> words32 p (int n) sm m = (p + 8 * k, 2 * int k' + int r, sm1) \<and>
    words16 (p + 8 * k) (2 * int k' + int r) (FOLD_U32T sm1) m = (p + 8 * k + 2 * k', int r, sm2) \<and>
    sums (xs @ get_bytes p (8 * k + 2 * k') m) (unat sm2) \<and> unat sm2 + 65535 < 4294967296"
proof -
  obtain k q where k: "n = 8 * k + q" "q < 8" using octave by blast
  obtain k' r where k': "q = 2 * k' + r" "r < 2" using halve by blast
  have i: "int n = 8 * int k + int q" "int q = 2 * int k' + int r" using k k' by simp_all
  obtain sm1 where sm1: "words32 p (int n) sm m = (p + 8 * k, int q, sm1)" "sums (xs @ get_bytes p (8 * k) m) (unat sm1)"
    using words32_spec [OF assms k(2), of p k m] unfolding i(1) by blast
  have fb: "unat (FOLD_U32T sm1) \<le> 131070" unfolding unat_fold by (intro fold_bound unat_u32_less)
  then have "unat (FOLD_U32T sm1) + 65535 * k' < 4294967296" using k(2) k' by simp
  then obtain sm2 t where sm2: "words16 (p + 8 * k) (2 * int k' + int r) (FOLD_U32T sm1) m = (p + 8 * k + 2 * k', int r, sm2)"
    "unat sm2 = unat (FOLD_U32T sm1) + t" "t \<le> 65535 * k'" "sums (get_bytes (p + 8 * k) (2 * k') m) t"
    using words16_spec [OF _ k'(2), of "FOLD_U32T sm1" k' "p + 8 * k" m] by blast
  have "sums ((xs @ get_bytes p (8 * k) m) @ get_bytes (p + 8 * k) (2 * k') m) (unat (FOLD_U32T sm1) + t)"
    using assms(2) by (intro sums_append fold_sums sm1 sm2) simp
  then have "sums (xs @ get_bytes p (8 * k + 2 * k') m) (unat sm2)" by (simp add: get_bytes_append sm2(2))
  moreover have "unat sm2 + 65535 < 4294967296" using fb sm2(2,3) k(2) k' by simp
  ultimately show ?thesis using k k' sm1(1) sm2(1) unfolding i(2)
    by (intro exI [of _ k] exI [of _ k'] exI [of _ r] exI [of _ sm1] exI [of _ sm2]) simp
qed

definition rest3 :: "u16 \<Rightarrow> nat \<Rightarrow> int \<Rightarrow> u32 \<Rightarrow> (nat \<Rightarrow> u8) \<Rightarrow> u32" where
  "rest3 t ps n sm m = (
     let (pl, n, sm) = words32 ps n sm m;
         (ps, n, sm) = words16 pl n (FOLD_U32T sm) m;
         t = (if 0 < n then u16_of (m ps) (hi8 t) else t)
     in FOLD_U32T (FOLD_U32T (sm + ucast t)))"

lemma rest3_sums:
  assumes "sums xs (unat sm)" and "even (length xs)"
  shows "sums (0 # h # xs @ get_bytes p n m) (unat (rest3 (u16_of 0 h) p (int n) sm m))"
    and "unat (rest3 (u16_of 0 h) p (int n) sm m) < 65536"
proof -
  obtain k k' r sm1 sm2 where s: "n = 8 * k + 2 * k' + r" "r < 2"
    "words32 p (int n) sm m = (p + 8 * k, 2 * int k' + int r, sm1)"
    "words16 (p + 8 * k) (2 * int k' + int r) (FOLD_U32T sm1) m = (p + 8 * k + 2 * k', int r, sm2)"
    "sums (xs @ get_bytes p (8 * k + 2 * k') m) (unat sm2)" "unat sm2 + 65535 < 4294967296"
    using chksum3_tail [OF assms, of n p m] by blast
  let ?l = "tail_byte (p + (8 * k + 2 * k')) r m"
  have e: "rest3 (u16_of 0 h) p (int n) sm m = FOLD_U32T (FOLD_U32T (sm2 + ucast (u16_of ?l h)))"
    using s(2) by (simp add: rest3_def s(3,4) tail_byte_def less_2_cases_iff add.assoc)
  have "even (length (xs @ get_bytes p (8 * k + 2 * k') m))" using assms(2) by simp
  note f = finish_sums [OF s(5,6) this e]
  show "unat (rest3 (u16_of 0 h) p (int n) sm m) < 65536" by (rule f(2))
  show "sums (0 # h # xs @ get_bytes p n m) (unat (rest3 (u16_of 0 h) p (int n) sm m))"
    using f(1) sums_tail [OF s(2), of "0 # h # xs" p "8 * k + 2 * k'" m] unfolding s(1) by simp
qed

lemma align3:
  "\<exists>sm ps n' xs. (if pb mod 4 \<noteq> 0 \<and> 1 < int n then (0 + ucast (load16 m pb) :: u32, pb + 2, int n - 2) else (0, pb, int n)) =
     (sm, ps, int n') \<and> sums xs (unat sm) \<and> even (length xs) \<and> get_bytes pb n m = xs @ get_bytes ps n' m"
proof (cases "pb mod 4 \<noteq> 0 \<and> 1 < n")
  case True
  then have e: "2 + (n - 2) = n" by linarith
  have "get_bytes pb n m = get_bytes pb 2 m @ get_bytes (pb + 2) (n - 2) m"
    using get_bytes_append [of pb 2 "n - 2" m] unfolding e .
  with True show ?thesis
    by (intro exI [of _ "0 + ucast (load16 m pb)"] exI [of _ "pb + 2"] exI [of _ "n - 2"] exI [of _ "get_bytes pb 2 m"])
      (auto simp: sums_load16 unat_ucast_32 of_nat_diff)
next
  case False
  then show ?thesis
    by (intro exI [of _ 0] exI [of _ pb] exI [of _ n] exI [of _ "[]"]) (auto simp: sums_def)
qed

lemma chksum3_sums: "sums (get_bytes p n m) (unat (lwip_standard_chksum_3 p (int n) m))"
proof (cases "p mod 2 = 1 \<and> 0 < n")
  case True
  then obtain n0 where n0: "n = Suc n0" by (cases n) auto
  obtain sm ps n' xs where a: "(if (p + 1) mod 4 \<noteq> 0 \<and> 1 < int n0 then (0 + ucast (load16 m (p + 1)) :: u32, p + 1 + 2, int n0 - 2)
      else (0, p + 1, int n0)) = (sm, ps, int n')" "sums xs (unat sm)" "even (length xs)" "get_bytes (p + 1) n0 m = xs @ get_bytes ps n' m"
    using align3 [of "p + 1" n0 m] by blast
  note f = rest3_sums [OF a(2,3), of "m p" ps n' m]
  have u: "(p mod 2 = 1 \<and> 0 < int n) = True" "int n - 1 = int n0" using True n0 by simp_all
  have "lwip_standard_chksum_3 p (int n) m = ucast (SWAP_BYTES_IN_WORD (rest3 (u16_of 0 (m p)) ps (int n') sm m))"
    unfolding lwip_standard_chksum_3_def Let_def u if_True prod.case a(1) rest3_def halves_0 hi8_u16_of
    using True by (simp split: prod.splits)
  then show ?thesis using odd_result [OF f] by (simp add: n0 get_bytes_Cons a(4) [simplified])
next
  case False
  obtain sm ps n' xs where a: "(if p mod 4 \<noteq> 0 \<and> 1 < int n then (0 + ucast (load16 m p) :: u32, p + 2, int n - 2)
      else (0, p, int n)) = (sm, ps, int n')" "sums xs (unat sm)" "even (length xs)" "get_bytes p n m = xs @ get_bytes ps n' m"
    using align3 [of p n m] by blast
  define sm' where "sm' = rest3 (u16_of 0 0) ps (int n') sm m"
  have f: "sums (get_bytes p n m) (unat sm')" "unat sm' < 65536"
    using rest3_sums [OF a(2,3), of 0 ps n' m] by (simp_all add: sums_pad a(4) sm'_def)
  have u: "(p mod 2 = 1 \<and> 0 < int n) = False" using False by auto
  have "lwip_standard_chksum_3 p (int n) m = ucast (if p mod 2 = 1 then SWAP_BYTES_IN_WORD sm' else sm')"
    unfolding lwip_standard_chksum_3_def Let_def u if_False prod.case a(1) sm'_def rest3_def halves_0
    by (simp split: prod.splits)
  moreover have "sm' = 0" if "p mod 2 = 1"
    using f(1) that False by (simp add: sums_def unat_eq_0)
  ultimately have "lwip_standard_chksum_3 p (int n) m = ucast sm'" by (auto simp: SWAP_BYTES_IN_WORD_def)
  then show ?thesis using f by (simp add: unat_ucast_16)
qed

lemma high_half_clear: "w AND 0xFFFF0000 = 0 \<Longrightarrow> unat (w :: u32) < 65536"
proof -
  assume w: "w AND 0xFFFF0000 = 0"
  have m: "(0xFFFF0000 :: u32) = push_bit 16 (mask 16)" by (simp add: mask_eq_exp_minus_1 push_bit_eq_mult)
  have "take_bit 16 w = w"
  proof (rule bit_word_eqI)
    fix i assume i: "i < LENGTH(32)"
    have "\<not> bit w i" if "16 \<le> i"
      using arg_cong [OF w, of "\<lambda>v. bit v i"] i that unfolding m by (auto simp: bit_simps bit_mask_iff)
    then show "bit (take_bit 16 w) i = bit w i" by (cases "i < 16") (simp_all add: bit_simps)
  qed
  then have "unat w = take_bit 16 (unat w)" using unsigned_take_bit_eq [of 16 w] by simp
  also have "\<dots> < 2 ^ 16" by (rule take_bit_nat_less_exp)
  finally show ?thesis by simp
qed

lemma chksum1_sums:
  assumes "n \<le> 0x20000"
  shows "sums (get_bytes p n m) (unat (lwip_standard_chksum_1 p (int n) m))"
proof -
  obtain k r where k: "n = 2 * k + r" "r < 2" using halve by blast
  obtain acc where a: "octets1 p (2 * int k + int r) 0 m = (p + 2 * k, int r, acc)" "unat acc + 65535 < 4294967296"
    "sums (0 # get_bytes p (2 * k) m) (unat acc)"
    using octets1_spec [of 0 k r p m] assms k by auto
  define b where "b = tail_byte (p + 2 * k) r m"
  define sm where "sm = acc + ucast (u16_of 0 b)"
  define f where "f = FOLD_U32T sm"
  define g where "g = (if f AND 0xFFFF0000 \<noteq> 0 then FOLD_U32T f else f)"
  have "unat sm = unat acc + unat (u16_of 0 b)"
    using a(2) unat_u16_less [of "u16_of 0 b"] by (simp add: sm_def unat_u32_plus unat_ucast_32)
  moreover have "sums [b] (256 * (256 * unat b))"
  proof -
    have "256 * (256 * unat b) = wt [b] + 65535 * unat b" by simp
    then show ?thesis unfolding sums_def by (simp only: mod_step) simp
  qed
  ultimately have "sums (get_bytes p (2 * k) m @ [b]) (256 * unat acc + 256 * (256 * unat b))"
    "256 * unat sm = 256 * unat acc + 256 * (256 * unat b)"
    using sums_append [OF a(3) [unfolded sums_shift], of "[b]"] by (simp_all add: unat_u16_of)
  then have "sums (0 # get_bytes p (2 * k) m @ [b]) (unat sm)" by (simp only: sums_shift)
  then have s: "sums (0 # get_bytes p (2 * k) m @ [b]) (unat g)" by (simp add: g_def f_def fold_sums)
  have l: "unat g < 65536" by (simp add: g_def f_def fold_twice high_half_clear)
  have "lwip_standard_chksum_1 p (int n) m = lwip_htons (ucast g)"
    using a(1) k(2) by (auto simp: lwip_standard_chksum_1_def k(1) g_def f_def sm_def b_def tail_byte_def
      FOLD_U32T_def u16_of_def less_2_cases_iff Let_def)
  then show ?thesis
    using sums_unswap [OF s] sums_tail [OF k(2), of "[]" p "2 * k" m] l
    by (simp add: unat_htons unat_ucast_16 k(1) b_def)
qed

end
