(* ===== verification/Lwip_Sums.thy ===== *)
theory Lwip_Sums
  imports Lwip_Chksum
begin

text \<open>
  What the checksum functions compute.  The locale \<open>checksum\<close> is the contract of \<open>LWIP_CHKSUM\<close>, which
  a port may replace: the sums over chains of pbufs are proved from it, and each of the three
  algorithms of \<open>inet_chksum.c\<close> is shown to keep it.
\<close>

unbundle bit_operations_syntax

section \<open>The specification as a sum\<close>

lemma swap_swap: "s < 65536 \<Longrightarrow> swap (swap s) = s"
proof -
  assume s: "s < 65536"
  then have "s div 256 < 256" by (simp add: div_less_iff_less_mult)
  moreover have "s mod 256 < 256" by simp
  ultimately show ?thesis using div_mult_mod_eq [of s 256] by (simp add: swap_def)
qed

lemma htons_htons [simp]: "lwip_htons (lwip_htons v) = v"
  by (simp add: word_unat_eq_iff unat_htons swap_swap unat_u16_less)

lemma sums_word: "sums [b, c] (256 * unat (u16_of c b))"
proof -
  have "256 * unat (u16_of c b) = wt [b, c] + 65535 * unat b" by (simp add: unat_u16_of)
  then show ?thesis unfolding sums_def by (simp only: mod_step) simp
qed

lemma unat_ones_add: "unat (ones_add a b) = (unat a + unat b) div 65536 + (unat a + unat b) mod 65536"
proof -
  have "unat a + unat b \<le> 131070" using unat_u16_less [of a] unat_u16_less [of b] by linarith
  from fold_bound(2) [OF this] show ?thesis
    unfolding ones_add_def Let_def by (subst unat_of_nat_u16) (simp_all add: add.commute)
qed

lemma rfc_sums0: "sums (0 # bs) (unat (rfc1071 bs))"
proof (induction bs rule: rfc1071.induct)
  case (3 b c bs)
  have "sums ([b, c] @ bs) (256 * unat (u16_of c b) + 256 * unat (rfc1071 bs))"
    using 3 by (intro sums_append sums_word) (simp_all add: sums_shift)
  then have "sums (0 # b # c # bs) (unat (u16_of c b) + unat (rfc1071 bs))"
    by (simp add: sums_shift distrib_left)
  from sums_fold [OF this] show ?case by (simp add: unat_ones_add)
qed (simp_all add: sums_def unat_u16_of)

lemma rfc_sums: "sums bs (unat (lwip_htons (rfc1071 bs)))"
  unfolding unat_htons by (rule sums_unswap [OF rfc_sums0])

lemma sums_rfc: "sums bs (unat v) \<Longrightarrow> v = lwip_htons (rfc1071 bs)"
  using sums_unique [OF _ rfc_sums] by (simp add: word_unat_eq_iff unat_u16_less)

section \<open>The contract of a summing function\<close>

definition pad :: "bool \<Rightarrow> u8 list \<Rightarrow> u8 list" where
  "pad sw xs = (if sw then 0 # xs else xs)"

text \<open>
  After an odd number of bytes the accumulator is byte-swapped: it sums the bytes behind a zero, so that
  the next segment starts at an even offset again.
\<close>

definition acc_ok :: "u8 list \<Rightarrow> u32 \<times> bool \<Rightarrow> bool" where
  "acc_ok xs st \<longleftrightarrow> sums (pad (snd st) xs) (unat (fst st)) \<and> unat (fst st) < 65536 \<and> snd st = odd (length xs)"

lemma pad_append: "pad sw (xs @ ys) = pad sw xs @ ys"
  by (simp add: pad_def)

lemma even_pad: "sw = odd (length xs) \<Longrightarrow> even (length (pad sw xs))"
  by (simp add: pad_def)

lemma swap_pad: "sums (pad sw xs) s \<Longrightarrow> sums (pad (\<not> sw) xs) (swap s)"
  by (auto simp: pad_def intro: sums_swap sums_unswap)

lemma unswap_ok: "acc_ok xs st \<Longrightarrow> sums xs (unat (unswap st)) \<and> unat (unswap st) < 65536"
  by (cases st) (auto simp: acc_ok_def unswap_def pad_def unat_swap swap_less intro: sums_unswap)

lemma swap_word_swap: "unat w < 65536 \<Longrightarrow> SWAP_BYTES_IN_WORD (SWAP_BYTES_IN_WORD w) = w"
  by (simp add: word_unat_eq_iff unat_swap swap_less swap_swap)

lemma low_not: "unat acc < 65536 \<Longrightarrow> ucast (NOT (acc AND 0xFFFF) :: u32) = (NOT (ucast acc) :: u16)"
proof -
  have m: "(0xFFFF :: u32) = mask 16" by (simp add: mask_eq_exp_minus_1)
  show ?thesis unfolding m by (rule bit_word_eqI) (auto simp: bit_simps bit_mask_iff)
qed

lemmas low_not_simps = low_not [simplified]

locale checksum =
  fixes chk :: chksum_fn
  assumes chk_sums: "n < 65536 \<Longrightarrow> sums (get_bytes p n m) (unat (chk p (int n) m))"
begin

lemma chk_u16:
  fixes n :: u16
  shows "sums (get_bytes p (unat n) m) (unat (chk p (uint n) m))"
  using chk_sums [of "unat n" p m] unat_u16_less [of n] by simp

lemma fold_segment:
  fixes n :: u16 and p :: nat and m :: "nat \<Rightarrow> u8"
  assumes "acc_ok xs (acc, sw)"
  defines "acc' \<equiv> FOLD_U32T (acc + ucast (chk p (uint n) m))"
  shows "sums (pad sw (xs @ get_bytes p (unat n) m)) (unat acc') \<and> unat acc' < 65536"
proof -
  have a: "sums (pad sw xs) (unat acc)" "unat acc < 65536" "sw = odd (length xs)"
    using assms(1) unfolding acc_ok_def by auto
  have u: "unat (acc + ucast (chk p (uint n) m)) = unat acc + unat (chk p (uint n) m)"
    using a(2) unat_u16_less [of "chk p (uint n) m"] by (simp add: unat_u32_plus unat_ucast_32)
  then have "unat (acc + ucast (chk p (uint n) m)) \<le> 131070"
    using a(2) unat_u16_less [of "chk p (uint n) m"] by simp
  moreover have "sums (pad sw xs @ get_bytes p (unat n) m) (unat (acc + ucast (chk p (uint n) m)))"
    unfolding u by (intro sums_append a(1) chk_u16 even_pad a(3))
  ultimately show ?thesis unfolding acc'_def pad_append by (simp add: fold_sums fold_once)
qed

lemma add_pbuf_ok:
  assumes "acc_ok xs st"
  shows "acc_ok (xs @ get_bytes (payload q) (unat (len q)) (bytes s)) (add_pbuf chk q (len q) s st)"
proof -
  obtain acc sw where st: "st = (acc, sw)" by (cases st)
  note f = fold_segment [OF assms [unfolded st], of "payload q" "len q" "bytes s"]
  have sw: "sw = odd (length xs)" using assms by (simp add: st acc_ok_def)
  show ?thesis
  proof (cases "even (unat (len q))")
    case True
    with f sw show ?thesis by (simp add: st acc_ok_def add_pbuf_def Let_def)
  next
    case False
    then have "unat (len q) mod 2 \<noteq> 0" by presburger
    with False f sw swap_pad [OF conjunct1 [OF f]] show ?thesis
      by (simp add: st acc_ok_def add_pbuf_def Let_def unat_swap swap_less del: not_mod_2_eq_0_eq_1)
  qed
qed

text \<open>The swap that follows the last segment is undone, whatever part of that segment was summed.\<close>

lemma add_last_ok:
  fixes n :: u16 and q :: pbuf and s :: "'m pst"
  assumes "acc_ok xs st"
  defines "v \<equiv> unswap (add_pbuf chk q n s st)"
  shows "sums (xs @ get_bytes (payload q) (unat n) (bytes s)) (unat v) \<and> unat v < 65536"
proof -
  obtain acc sw where st: "st = (acc, sw)" by (cases st)
  define w where "w = FOLD_U32T (acc + ucast (chk (payload q) (uint n) (bytes s)))"
  note f = fold_segment [OF assms(1) [unfolded st], of "payload q" n "bytes s", folded w_def]
  have "v = unswap (w, sw)"
    using f by (auto simp: v_def st add_pbuf_def w_def [symmetric] unswap_def Let_def swap_word_swap)
  with f swap_pad [OF conjunct1 [OF f]] show ?thesis
    by (auto simp: unswap_def pad_def unat_swap swap_less)
qed

lemma chksum_loop_ok:
  "chain s p as \<Longrightarrow> acc_ok xs st \<Longrightarrow> \<exists>st'. chksum_loop chk p st s = Some st' \<and> acc_ok (xs @ content s as) st'"
proof (induction as arbitrary: p xs st)
  case Nil
  then show ?case by (subst chksum_loop.simps) simp
next
  case (Cons a as)
  from Cons.prems(1) obtain b where b: "p = Some a" "pbufs s a = Some b" "chain s (nxt b) as" by (rule chain_ConsE)
  from Cons.IH [OF b(3) add_pbuf_ok [OF Cons.prems(2)], of b s] b show ?case
    by (subst chksum_loop.simps) (simp add: seg_def)
qed

lemma partial_loop_ok:
  "chain s p as \<Longrightarrow> acc_ok xs st \<Longrightarrow> \<exists>st'. chksum_partial_loop chk p n st s = Some st' \<and>
     sums (xs @ take (unat n) (content s as)) (unat (unswap st')) \<and> unat (unswap st') < 65536"
proof (induction as arbitrary: p xs st n)
  case Nil
  then show ?case by (subst chksum_partial_loop.simps) (simp add: unswap_ok)
next
  case (Cons a as)
  from Cons.prems(1) obtain b where b: "p = Some a" "pbufs s a = Some b" "chain s (nxt b) as" by (rule chain_ConsE)
  have l: "length (seg s a) = unat (len b)" using b(2) by (rule length_seg)
  show ?case
  proof (cases "n = 0")
    case True
    with Cons.prems(2) show ?thesis by (subst chksum_partial_loop.simps) (simp add: unswap_ok)
  next
    case n: False
    show ?thesis
    proof (cases "n < len b")
      case True
      have "get_bytes (payload b) (unat n) (bytes s) = take (unat n) (content s (a # as))"
        using True l get_bytes_append [of "payload b" "unat n" "unat (len b) - unat n" "bytes s"] b(2)
        by (simp add: word_less_nat_alt seg_def)
      with add_last_ok [OF Cons.prems(2), of b n s] n b True show ?thesis
        by (subst chksum_partial_loop.simps, subst chksum_partial_loop.simps) (simp del: content_simps)
    next
      case False
      then have "unat (n - len b) = unat n - unat (len b)" by (intro unat_u16_sub) (simp add: word_less_nat_alt not_less word_le_nat_alt)
      moreover have "take (unat n) (content s (a # as)) = seg s a @ take (unat n - unat (len b)) (content s as)"
        using False l by (simp add: word_less_nat_alt)
      ultimately show ?thesis
        using Cons.IH [OF b(3) add_pbuf_ok [OF Cons.prems(2)], of "n - len b" b s] b n False
        by (subst chksum_partial_loop.simps) (simp add: seg_def Let_def del: content_simps)
    qed
  qed
qed

lemma chksum_pbuf:
  "chain s p as \<Longrightarrow> inet_chksum_pbuf chk p s = Some (NOT (lwip_htons (rfc1071 (content s as))))"
proof -
  assume "chain s p as"
  moreover have "acc_ok [] (0, False)" by (simp add: acc_ok_def sums_def pad_def)
  ultimately obtain st where st: "chksum_loop chk p (0, False) s = Some st" "acc_ok ([] @ content s as) st"
    using chksum_loop_ok by blast
  with unswap_ok [OF st(2)] sums_rfc [of "content s as" "ucast (unswap st)"] show ?thesis
    by (simp add: inet_chksum_pbuf_def low_not_simps unat_ucast_16)
qed

end

section \<open>The pseudo header\<close>

lemma unat_and_low: "unat (w AND 0xFFFF :: u32) = wt (take 2 (addr_bytes w))"
proof -
  have m: "(0xFFFF :: u32) = mask 16" by (simp add: mask_eq_exp_minus_1)
  have "w AND 0xFFFF = ucast (u16_of (ucast w) (ucast (drop_bit 8 w)))"
    unfolding m by (rule bit_word_eqI) (auto simp: bit_simps bitmask_simps bit_mask_iff)
  then show ?thesis by (simp add: addr_bytes_def unat_ucast_32 unat_u16_of)
qed

lemma sums_addr: "sums (addr_bytes w) (unat (w AND 0xFFFF) + unat (drop_bit 16 w AND 0xFFFF))"
proof -
  have "sums (take 2 (addr_bytes w) @ take 2 (addr_bytes (drop_bit 16 w))) (unat (w AND 0xFFFF) + unat (drop_bit 16 w AND 0xFFFF))"
    unfolding unat_and_low by (intro sums_append sums_self) (simp add: addr_bytes_def)
  then show ?thesis by (simp add: addr_bytes_def)
qed

lemma low_bound: "unat (w AND 0xFFFF :: u32) < 65536"
proof -
  have "w AND 0xFFFF = take_bit 16 w" by (simp add: take_bit_eq_mask mask_eq_exp_minus_1)
  then have "unat (w AND 0xFFFF) = take_bit 16 (unat w)" by (simp only: unsigned_take_bit_eq)
  also have "\<dots> < 2 ^ 16" by (rule take_bit_nat_less_exp)
  finally show ?thesis by simp
qed

lemma add_addrs_ok: "acc_ok (addr_bytes src @ addr_bytes dest) (add_addrs src dest, False)"
proof -
  note b = low_bound [of src] low_bound [of "drop_bit 16 src"] low_bound [of dest] low_bound [of "drop_bit 16 dest"]
  have "unat ((src AND 0xFFFF) + (drop_bit 16 src AND 0xFFFF) + (dest AND 0xFFFF) + (drop_bit 16 dest AND 0xFFFF)) =
      unat (src AND 0xFFFF) + unat (drop_bit 16 src AND 0xFFFF) + (unat (dest AND 0xFFFF) + unat (drop_bit 16 dest AND 0xFFFF))"
    using b by (simp add: unat_u32_plus)
  moreover have "sums (addr_bytes src @ addr_bytes dest)
      (unat (src AND 0xFFFF) + unat (drop_bit 16 src AND 0xFFFF) + (unat (dest AND 0xFFFF) + unat (drop_bit 16 dest AND 0xFFFF)))"
    by (intro sums_append sums_addr) (simp add: addr_bytes_def)
  ultimately show ?thesis
    by (simp add: acc_ok_def add_addrs_def Let_def pad_def fold_sums fold_twice addr_bytes_def)
qed

lemma pseudo_end_ok:
  assumes "sums (addr_bytes src @ addr_bytes dest @ xs) (unat (unswap st))" and "unat (unswap st) < 65536"
  shows "pseudo_end proto plen st = NOT (lwip_htons (rfc1071 (pseudo_header src dest proto plen @ xs)))"
proof -
  define w where "w = unswap st + ucast (lwip_htons (ucast proto)) + ucast (lwip_htons plen)"
  have p: "unat (lwip_htons (ucast proto)) = wt [0, proto]"
    using swap_parts [of "unat proto" 0] unat_u8_less [of proto]
    by (simp add: unat_htons unsigned_ucast_eq take_bit_nat_eq_self)
  have "unat plen = unat (lo8 plen) + 256 * unat (hi8 plen)" using unat_u16_of [of "lo8 plen" "hi8 plen"] by simp
  then have l: "unat (lwip_htons plen) = wt [hi8 plen, lo8 plen]" by (simp add: unat_htons swap_parts unat_u8_less)
  have u: "unat w = unat (unswap st) + (wt [0, proto] + wt [hi8 plen, lo8 plen])"
    using assms(2) unat_u16_less [of "lwip_htons plen"] unat_u16_less [of "lwip_htons (ucast proto)"]
    by (simp only: w_def p [symmetric] l [symmetric]) (simp add: unat_u32_plus unat_ucast_32)
  have "sums ([0, proto] @ [hi8 plen, lo8 plen]) (wt [0, proto] + wt [hi8 plen, lo8 plen])"
    by (intro sums_append sums_self) simp
  from sums_insert [OF _ this, of "addr_bytes src @ addr_bytes dest" xs "unat (unswap st)"]
  have "sums (pseudo_header src dest proto plen @ xs) (unat w)"
    using assms(1) unfolding u by (simp add: pseudo_header_def addr_bytes_def)
  then have "sums (pseudo_header src dest proto plen @ xs) (unat (ucast (FOLD_U32T (FOLD_U32T w)) :: u16))"
    by (simp add: unat_ucast_16 fold_twice fold_sums)
  from sums_rfc [OF this] show ?thesis
    by (simp add: pseudo_end_def Let_def w_def [symmetric] low_not_simps fold_twice)
qed

context checksum begin

lemma chksum_pseudo:
  assumes "chain s p as"
  shows "inet_chksum_pseudo chk p proto plen src dest s =
     Some (NOT (lwip_htons (rfc1071 (pseudo_header src dest proto plen @ content s as))))"
proof -
  obtain st where st: "chksum_loop chk p (add_addrs src dest, False) s = Some st"
    "acc_ok ((addr_bytes src @ addr_bytes dest) @ content s as) st"
    using chksum_loop_ok [OF assms add_addrs_ok] by blast
  from pseudo_end_ok [of src dest "content s as" st] unswap_ok [OF st(2)] st(1) show ?thesis
    by (simp add: inet_chksum_pseudo_def inet_cksum_pseudo_base_def)
qed

lemma chksum_pseudo_partial:
  assumes "chain s p as"
  shows "inet_chksum_pseudo_partial chk p proto plen n src dest s =
     Some (NOT (lwip_htons (rfc1071 (pseudo_header src dest proto plen @ take (unat n) (content s as)))))"
proof -
  obtain st where st: "chksum_partial_loop chk p n (add_addrs src dest, False) s = Some st"
    "sums ((addr_bytes src @ addr_bytes dest) @ take (unat n) (content s as)) (unat (unswap st))" "unat (unswap st) < 65536"
    using partial_loop_ok [OF assms add_addrs_ok] by blast
  from pseudo_end_ok [of src dest "take (unat n) (content s as)" st] st show ?thesis
    by (simp add: inet_chksum_pseudo_partial_def inet_cksum_pseudo_partial_base_def)
qed

end

interpretation std1: checksum lwip_standard_chksum_1
  by unfold_locales (simp add: chksum1_sums)

interpretation std2: checksum lwip_standard_chksum
  by unfold_locales (simp add: chksum2_sums)

interpretation std3: checksum lwip_standard_chksum_3
  by unfold_locales (simp add: chksum3_sums)

section \<open>Properties\<close>

text \<open>
  C28: for every address, aligned or not, and every length up to the documented 0x20000 the
  selected summing routine returns, in network order, the one's complement sum that RFC 1071 defines, and
  so do the two alternative algorithms of the file; the third one for lengths without bound.
\<close>

theorem chksum_rfc1071:
  assumes "n \<le> 0x20000"
  shows "lwip_standard_chksum p (int n) m = lwip_htons (rfc1071 (get_bytes p n m)) \<and>
    lwip_standard_chksum_1 p (int n) m = lwip_standard_chksum p (int n) m \<and>
    lwip_standard_chksum_3 p (int n) m = lwip_standard_chksum p (int n) m \<and>
    lwip_standard_chksum_3 p (int k) m = lwip_htons (rfc1071 (get_bytes p k m))"
  using sums_rfc [OF chksum1_sums [OF assms, of p m]] sums_rfc [OF chksum2_sums [OF assms, of p m]]
    sums_rfc [OF chksum3_sums [of p _ m]] by auto

theorem chksum_rfc1071_witness:
  "lwip_standard_chksum 1 3 (\<lambda>a. of_nat (100 * a)) = 0xC890 \<and>
   rfc1071 [100, 200, 44] = 0x90C8"
proof -
  have g: "get_bytes 1 3 (\<lambda>a. of_nat (100 * a) :: u8) = [100, 200, 44]" by (simp add: get_bytes_def upt_rec)
  have r: "rfc1071 [100, 200, 44] = 0x90C8"
    by (simp add: ones_add_def u16_of_def push_bit_eq_mult Let_def)
  have "lwip_htons 0x90C8 = 0xC890" by (simp add: lwip_htons_def push_bit_eq_mult drop_bit_eq_div)
  with chksum_rfc1071 [of 3 1 "\<lambda>a. of_nat (100 * a)"] show ?thesis unfolding g r by (simp add: r)
qed

text \<open>
  C27: the checksum of a chain of pbufs, of the chain behind the IPv4 pseudo header and of
  the first \<open>n\<close> bytes of the chain behind the pseudo header is the complement of the RFC 1071 sum of
  those bytes; how the packet is split into pbufs, at which addresses and with which odd lengths, does not
  matter.
\<close>

theorem chksum_chains:
  assumes "chain s p as"
  shows "inet_chksum_pbuf lwip_standard_chksum p s = Some (NOT (lwip_htons (rfc1071 (content s as)))) \<and>
    inet_chksum_pseudo lwip_standard_chksum p proto plen src dest s =
      Some (NOT (lwip_htons (rfc1071 (pseudo_header src dest proto plen @ content s as)))) \<and>
    inet_chksum_pseudo_partial lwip_standard_chksum p proto plen n src dest s =
      Some (NOT (lwip_htons (rfc1071 (pseudo_header src dest proto plen @ take (unat n) (content s as)))))"
  by (intro conjI std2.chksum_pbuf std2.chksum_pseudo std2.chksum_pseudo_partial assms)

definition odd_chain :: "unit pst" where
  "odd_chain = pool3\<lparr>pbufs := (\<lambda>a. if a = 8 then Some (new_pbuf 101 5 3\<lparr>nxt := Some 40\<rparr>)
     else if a = 40 then Some (new_pbuf 202 2 2) else None), bytes := (\<lambda>a. of_nat a)\<rparr>"

theorem chksum_chains_witness:
  "inet_chksum_pbuf lwip_standard_chksum (Some 8) odd_chain = Some (NOT (lwip_htons (rfc1071 [101, 102, 103, 202, 203])))"
proof -
  have "chain odd_chain (Some 8) [8, 40]" by (simp add: odd_chain_def new_pbuf_def)
  moreover have "content odd_chain [8, 40] = [101, 102, 103, 202, 203]"
    by (simp add: odd_chain_def new_pbuf_def seg_def get_bytes_def upt_rec)
  ultimately show ?thesis using conjunct1 [OF chksum_chains] by metis
qed

text \<open>Two packets of the same length that differ in one byte have different sums.\<close>

lemma mod_cancel_left: "(a + b) mod k = (a + c) mod k \<Longrightarrow> b mod k = (c mod k :: nat)"
  unfolding nat_mod_eq_iff by (auto simp: add.assoc)

lemma pow_cancel:
  assumes "(256 ^ i * b) mod 65535 = (256 ^ i * c) mod (65535 :: nat)"
  shows "b mod 65535 = c mod 65535"
proof -
  have p: "(256 ^ i * (256 ^ i * x)) mod 65535 = x mod (65535 :: nat)" for x
  proof -
    have "(256 ^ (i + i) :: nat) mod 65535 = 1" using pow256_mod [of "i + i"] by simp
    then have "(256 ^ (i + i) * x) mod 65535 = x mod (65535 :: nat)"
      using mod_mult_left_eq [of "256 ^ (i + i)" 65535 x] by simp
    then show ?thesis by (simp add: power_add mult.assoc)
  qed
  show ?thesis using mod_mult_cong [OF refl assms, of "256 ^ i"] unfolding p .
qed

lemma sums_differ:
  assumes "sums (xs @ b # zs) s" and "sums (xs @ c # zs) s"
  shows "b = c"
proof -
  have "(wt xs + 256 ^ length xs * (unat b + 256 * wt zs)) mod 65535 = (wt xs + 256 ^ length xs * (unat c + 256 * wt zs)) mod 65535"
    using assms by (simp add: sums_def wt_append)
  from pow_cancel [OF mod_cancel_left [OF this]] have "(256 * wt zs + unat b) mod 65535 = (256 * wt zs + unat c) mod 65535"
    by (simp add: add.commute)
  from mod_cancel_left [OF this] have "unat b = unat c"
    using unat_u8_less [of b] unat_u8_less [of c] by simp
  then show ?thesis by (simp add: word_unat_eq_iff)
qed

lemma unat_not_u16: "unat (NOT (w :: u16)) = 65535 - unat w"
proof -
  have "NOT w = - 1 - w" by (simp add: not_eq_complement)
  moreover have "unat (- 1 - w) = unat (- 1 :: u16) - unat w" by (intro unat_sub) simp
  moreover have "unat (- 1 :: u16) = 65535" by (simp add: unsigned_minus_1_eq_mask mask_eq_exp_minus_1)
  ultimately show ?thesis by simp
qed

lemma get_put_mid:
  assumes "k + length bs \<le> n"
  shows "get_bytes p n (put_bytes (p + k) bs m) = get_bytes p k m @ bs @ get_bytes (p + k + length bs) (n - k - length bs) m"
  using assms by (intro nth_equalityI) (auto simp: nth_append put_bytes_def)

lemma get_upd:
  assumes "i < n"
  shows "get_bytes p n (m(p + i := b)) = get_bytes p i m @ b # get_bytes (p + i + 1) (n - i - 1) m"
proof -
  have n: "n = i + Suc (n - i - 1)" using assms by simp
  have e: "get_bytes q j (m(p + i := b)) = get_bytes q j m" if "q + j \<le> p + i \<or> p + i < q" for q j
    using that by (intro nth_equalityI) auto
  show ?thesis by (subst n, unfold get_bytes_append get_bytes_Cons) (simp add: e)
qed

lemma inet_chksum_zero: "inet_chksum chk p n m = 0 \<longleftrightarrow> unat (chk p (uint n) m) = 65535"
  using unat_u16_less [of "chk p (uint n) m"]
  by (auto simp: inet_chksum_def unat_eq_0 [symmetric] unat_not_u16 simp del: unat_eq_0)

lemma sums_zeros: "even (length xs) \<Longrightarrow> sums (xs @ [0, 0] @ zs) s \<Longrightarrow> sums (xs @ zs) s"
proof -
  assume a: "even (length xs)" "sums (xs @ [0, 0] @ zs) s"
  have "sums [0, 0 :: u8] 0" by (simp add: sums_def)
  from sums_insert [OF sums_self this a(1)] have "sums (xs @ [0, 0] @ zs) (wt (xs @ zs))" by simp
  with sums_self [of "xs @ zs"] a(2) show ?thesis by (metis sums_cong)
qed

text \<open>
  C29: the sender's and the receiver's side of a checksum fit together.  When a packet in
  memory is summed with its checksum field, at an even offset, set to zero and the result is stored in the
  field, \<open>inet_chksum\<close> of the packet is 0, which is what \<open>ip4_input\<close> and the other input functions ask
  for; when any single byte of such a packet is changed, it is not.
\<close>

theorem chksum_detects:
  fixes n :: u16
  assumes "even k" and "k + 2 \<le> unat n" and "m0 = put_bytes (p + k) [0, 0] m"
    and "c = inet_chksum lwip_standard_chksum p n m0" and "m1 = put_bytes (p + k) [lo8 c, hi8 c] m0"
  shows "inet_chksum lwip_standard_chksum p n m1 = 0 \<and>
    (\<forall>i b. i < unat n \<and> b \<noteq> m1 (p + i) \<longrightarrow> inet_chksum lwip_standard_chksum p n (m1(p + i := b)) \<noteq> 0)"
proof -
  let ?v = "\<lambda>m. lwip_standard_chksum p (uint n) m"
  let ?xs = "get_bytes p k m" and ?zs = "get_bytes (p + k + 2) (unat n - k - 2) m"
  have g: "get_bytes p (unat n) (put_bytes (p + k) [x, y] m) = ?xs @ [x, y] @ ?zs" for x y
    using get_put_mid [of k "[x, y]" "unat n" p m] assms(2) by simp
  have m1: "m1 = put_bytes (p + k) [lo8 c, hi8 c] m" by (rule ext) (auto simp: assms(3,5) put_bytes_def)
  have "sums (?xs @ [0, 0] @ ?zs) (unat (?v m0))"
    using std2.chk_u16 [of p n m0] unfolding assms(3) g .
  from sums_zeros [OF _ this] have x: "sums (?xs @ ?zs) (unat (?v m0))" using assms(1) by simp
  have "unat c = wt [lo8 c, hi8 c]" using unat_u16_of [of "lo8 c" "hi8 c"] by simp
  then have y: "sums [lo8 c, hi8 c] (unat c)" by (simp only: sums_self)
  have "unat (?v m0) + unat c = 65535"
    unfolding assms(4) inet_chksum_def unat_not_u16 using unat_u16_less [of "?v m0"] by simp
  with sums_insert [OF x y] assms(1) have s: "sums (get_bytes p (unat n) m1) 65535" by (simp add: m1 g [simplified])
  have "unat (?v m1) = 65535" by (rule sums_unique [OF std2.chk_u16 s]) (simp_all add: unat_u16_less)
  moreover have "unat (?v (m1(p + i := b))) \<noteq> 65535" if i: "i < unat n" "b \<noteq> m1 (p + i)" for i b
  proof
    assume "unat (?v (m1(p + i := b))) = 65535"
    with std2.chk_u16 [of p n "m1(p + i := b)"] have "sums (get_bytes p i m1 @ b # get_bytes (p + i + 1) (unat n - i - 1) m1) 65535"
      using get_upd [OF i(1), of p m1 b] by simp
    moreover have "sums (get_bytes p i m1 @ m1 (p + i) # get_bytes (p + i + 1) (unat n - i - 1) m1) 65535"
      using s get_upd [OF i(1), of p m1 "m1 (p + i)"] by simp
    ultimately show False using sums_differ i(2) by blast
  qed
  ultimately show ?thesis by (simp add: inet_chksum_zero)
qed

theorem chksum_detects_witness:
  "\<exists>c. inet_chksum lwip_standard_chksum 21 20 (put_bytes 31 [lo8 c, hi8 c] (put_bytes 31 [0, 0] (\<lambda>a. of_nat a))) = 0 \<and>
     inet_chksum lwip_standard_chksum 21 20 ((put_bytes 31 [lo8 c, hi8 c] (put_bytes 31 [0, 0] (\<lambda>a. of_nat a)))(25 := 26)) \<noteq> 0"
proof -
  let ?m0 = "put_bytes 31 [0, 0] (\<lambda>a. of_nat a) :: nat \<Rightarrow> u8"
  define c where "c = inet_chksum lwip_standard_chksum 21 20 ?m0"
  define m1 where "m1 = put_bytes 31 [lo8 c, hi8 c] ?m0"
  have "m1 (21 + 4) = 25" by (simp add: m1_def put_bytes_def)
  moreover have "inet_chksum lwip_standard_chksum 21 20 m1 = 0 \<and>
      (\<forall>i b. i < unat (20 :: u16) \<and> b \<noteq> m1 (21 + i) \<longrightarrow> inet_chksum lwip_standard_chksum 21 20 (m1(21 + i := b)) \<noteq> 0)"
    by (rule chksum_detects [of 10 20 ?m0 21 "\<lambda>a. of_nat a" c m1]) (simp_all add: c_def m1_def)
  ultimately have "inet_chksum lwip_standard_chksum 21 20 m1 = 0"
    "4 < unat (20 :: u16) \<and> 26 \<noteq> m1 (21 + 4) \<longrightarrow> inet_chksum lwip_standard_chksum 21 20 (m1(21 + 4 := 26)) \<noteq> 0"
    "m1 25 = 25" by (blast, blast, simp)
  then show ?thesis by (intro exI [of _ c]) (simp add: m1_def)
qed

end
