(* ===== verification/Lwip_Addr.thy ===== *)
theory Lwip_Addr
  imports Lwip_Chksum
begin

text \<open>
  IPv4 addresses (\<open>ip4_addr.c\<close>): parsing, printing, the netmask check and the broadcast test.  A C string
  is the list of its characters up to the terminating NUL; reading at the end of the list gives NUL.
  An address is the 32-bit word in network order that \<open>ip4_addr_t\<close> holds.
\<close>

unbundle bit_operations_syntax

section \<open>Characters\<close>

definition lwip_in_range :: "char \<Rightarrow> char \<Rightarrow> char \<Rightarrow> bool" where
  "lwip_in_range c lo up \<longleftrightarrow> (of_char lo :: nat) \<le> of_char c \<and> (of_char c :: nat) \<le> of_char up"

definition lwip_isdigit :: "char \<Rightarrow> bool" where
  "lwip_isdigit c \<longleftrightarrow> lwip_in_range c CHR ''0'' CHR ''9''"

definition lwip_isxdigit :: "char \<Rightarrow> bool" where
  "lwip_isxdigit c \<longleftrightarrow> lwip_isdigit c \<or> lwip_in_range c CHR ''a'' CHR ''f'' \<or> lwip_in_range c CHR ''A'' CHR ''F''"

definition lwip_islower :: "char \<Rightarrow> bool" where
  "lwip_islower c \<longleftrightarrow> lwip_in_range c CHR ''a'' CHR ''z''"

definition lwip_isspace :: "char \<Rightarrow> bool" where
  "lwip_isspace c \<longleftrightarrow> c \<in> {CHR '' '', CHR 0x0C, CHR 0x0A, CHR 0x0D, CHR 0x09, CHR 0x0B}"

section \<open>Parsing\<close>

fun number_loop :: "u32 \<Rightarrow> u32 \<Rightarrow> string \<Rightarrow> u32 \<times> string" where
  "number_loop base val [] = (val, [])"
| "number_loop base val (c # cp) = (
     if lwip_isdigit c then
       if base = 8 \<and> 8 \<le> (of_char c - 48 :: nat) then (val, c # cp)
       else number_loop base (val * base + of_nat (of_char c - 48)) cp
     else if base = 16 \<and> lwip_isxdigit c then
       number_loop base (push_bit 4 val OR of_nat (of_char c + 10 - (if lwip_islower c then 97 else 65))) cp
     else (val, c # cp))"

lemma number_loop_shorter: "length (snd (number_loop base val cp)) \<le> length cp"
  by (induction base val cp rule: number_loop.induct) auto

definition number_base :: "string \<Rightarrow> u32 \<times> string" where
  "number_base cp = (case cp of [] \<Rightarrow> (10, cp) | c # cp' \<Rightarrow>
     if c = CHR ''0'' then
       (case cp' of x # cp'' \<Rightarrow> if x = CHR ''x'' \<or> x = CHR ''X'' then (16, cp'') else (8, cp') | [] \<Rightarrow> (8, cp'))
     else (10, cp))"

lemma number_base_shorter: "length (snd (number_base cp)) \<le> length cp"
  by (auto simp: number_base_def split: list.splits)

text \<open>The parts in front of the last number are collected in \<open>parts\<close>; None is the return value 0.\<close>

function parts_loop :: "u32 list \<Rightarrow> string \<Rightarrow> (u32 list \<times> u32 \<times> string) option" where
  "parts_loop parts cp = (
     if cp = [] \<or> \<not> lwip_isdigit (hd cp) then None
     else let (base, cp') = number_base cp;
              (val, cp'') = number_loop base 0 cp'
          in case cp'' of
               c # cp3 \<Rightarrow>
                 if c = CHR ''.'' then if 3 \<le> length parts then None else parts_loop (parts @ [val]) cp3
                 else Some (parts, val, cp'')
             | [] \<Rightarrow> Some (parts, val, cp''))"
  by pat_completeness auto
termination
proof (relation "measure (\<lambda>(parts, cp). length cp)")
  fix parts :: "u32 list" and cp :: string and x :: "u32 \<times> string" and base cp' y val cp'' c cp3
  assume x: "x = number_base cp" "(base, cp') = x" and y: "y = number_loop base 0 cp'" "(val, cp'') = y" "cp'' = c # cp3"
  have "length cp'' \<le> length cp'" using number_loop_shorter [of base 0 cp'] y by (metis snd_conv)
  moreover have "length cp' \<le> length cp" using number_base_shorter [of cp] x by (metis snd_conv)
  ultimately show "((parts @ [val], cp3), (parts, cp)) \<in> measure (\<lambda>(parts, cp). length cp)" using y(3) by simp
qed simp

declare parts_loop.simps [simp del]

definition ip4addr_aton :: "string \<Rightarrow> u32 option" where
  "ip4addr_aton cp = (case parts_loop [] cp of None \<Rightarrow> None
     | Some (parts, val, cp) \<Rightarrow>
         if cp \<noteq> [] \<and> hd cp \<noteq> CHR 0x00 \<and> \<not> lwip_isspace (hd cp) then None
         else map_option lwip_htonl (case parts of
             [] \<Rightarrow> Some val
           | [a] \<Rightarrow> if 0xFFFFFF < val then None else if 0xFF < a then None else Some (val OR push_bit 24 a)
           | [a, b] \<Rightarrow> if 0xFFFF < val then None else if 0xFF < a \<or> 0xFF < b then None
               else Some (val OR (push_bit 24 a OR push_bit 16 b))
           | [a, b, c] \<Rightarrow> if 0xFF < val then None else if 0xFF < a \<or> 0xFF < b \<or> 0xFF < c then None
               else Some (val OR (push_bit 24 a OR push_bit 16 b OR push_bit 8 c))
           | _ \<Rightarrow> Some val))"

definition IPADDR_NONE :: u32 where "IPADDR_NONE = 0xFFFFFFFF"
definition IPADDR_ANY :: u32 where "IPADDR_ANY = 0"
definition IPADDR_BROADCAST :: u32 where "IPADDR_BROADCAST = 0xFFFFFFFF"

definition ipaddr_addr :: "string \<Rightarrow> u32" where
  "ipaddr_addr cp = (case ip4addr_aton cp of Some val \<Rightarrow> val | None \<Rightarrow> IPADDR_NONE)"

section \<open>Printing\<close>

definition IP4ADDR_STRLEN_MAX :: int where "IP4ADDR_STRLEN_MAX = 16"

text \<open>The digits of a byte in \<open>inv\<close>, the last one first.\<close>

function inv_digits :: "nat \<Rightarrow> string" where
  "inv_digits ap = (let d = char_of (48 + ap mod 10); ap = ap div 10 in if ap = 0 then [d] else d # inv_digits ap)"
  by pat_completeness auto
termination by (relation "measure id") auto

declare inv_digits.simps [simp del]

text \<open>
  \<open>*rp++ = c\<close> behind the test of \<open>len\<close> against the size of the buffer.  \<open>Inl out\<close> is the return value NULL,
  with \<open>out\<close> written to the buffer so far.
\<close>

definition put_char :: "int \<Rightarrow> char \<Rightarrow> int \<times> string \<Rightarrow> string + (int \<times> string)" where
  "put_char buflen c = (\<lambda>(n, out). if buflen \<le> n then Inl out else Inr (n + 1, out @ [c]))"

fun put_chars :: "int \<Rightarrow> string \<Rightarrow> int \<times> string \<Rightarrow> string + (int \<times> string)" where
  "put_chars buflen [] st = Inr st"
| "put_chars buflen (c # cs) st = (case put_char buflen c st of Inl out \<Rightarrow> Inl out | Inr st \<Rightarrow> put_chars buflen cs st)"

fun bytes_loop :: "int \<Rightarrow> u8 list \<Rightarrow> int \<times> string \<Rightarrow> string + (int \<times> string)" where
  "bytes_loop buflen [] st = Inr st"
| "bytes_loop buflen (ap # aps) st = (case put_chars buflen (rev (inv_digits (unat ap))) st of Inl out \<Rightarrow> Inl out
     | Inr st \<Rightarrow> (case put_char buflen CHR ''.'' st of Inl out \<Rightarrow> Inl out | Inr st \<Rightarrow> bytes_loop buflen aps st))"

text \<open>The last dot is overwritten by the NUL.\<close>

definition ip4addr_ntoa_r :: "u32 \<Rightarrow> int \<Rightarrow> string + string" where
  "ip4addr_ntoa_r s_addr buflen =
     (case bytes_loop buflen (addr_bytes s_addr) (0, []) of Inl out \<Rightarrow> Inl out | Inr (n, out) \<Rightarrow> Inr (butlast out))"

definition ip4addr_ntoa :: "u32 \<Rightarrow> string + string" where
  "ip4addr_ntoa addr = ip4addr_ntoa_r addr IP4ADDR_STRLEN_MAX"

section \<open>Netmasks and broadcasts\<close>

lemma mask_shorter: "mk \<noteq> 0 \<Longrightarrow> unat (drop_bit 1 mk :: u32) < unat mk"
  unfolding unat_drop_bit_eq by (simp add: drop_bit_eq_div unat_eq_0 [symmetric] del: unat_eq_0)

function first_zero :: "u32 \<Rightarrow> u32 \<Rightarrow> u32" where
  "first_zero nm mk = (if mk = 0 then 0 else if nm AND mk = 0 then mk else first_zero nm (drop_bit 1 mk))"
  by pat_completeness auto
termination by (relation "measure (\<lambda>(nm, mk). unat mk)") (simp_all add: mask_shorter [simplified])

function all_zero :: "u32 \<Rightarrow> u32 \<Rightarrow> bool" where
  "all_zero nm mk = (if mk = 0 then True else if nm AND mk \<noteq> 0 then False else all_zero nm (drop_bit 1 mk))"
  by pat_completeness auto
termination by (relation "measure (\<lambda>(nm, mk). unat mk)") (simp_all add: mask_shorter [simplified])

declare first_zero.simps [simp del] all_zero.simps [simp del]

definition ip4_addr_netmask_valid :: "u32 \<Rightarrow> bool" where
  "ip4_addr_netmask_valid netmask = (
     let nm_hostorder = lwip_htonl netmask; mk = first_zero nm_hostorder (push_bit 31 1) in all_zero nm_hostorder mk)"

definition ip4_addr_net_eq :: "u32 \<Rightarrow> u32 \<Rightarrow> u32 \<Rightarrow> bool" where
  "ip4_addr_net_eq addr1 addr2 mk \<longleftrightarrow> addr1 AND mk = addr2 AND mk"

record netif_ip4 =
  netif_ip4_flags :: u8
  netif_ip4_addr :: u32
  netif_ip4_netmask :: u32

definition NETIF_FLAG_BROADCAST :: u8 where "NETIF_FLAG_BROADCAST = 0x02"

definition ip4_addr_isbroadcast_u32 :: "u32 \<Rightarrow> netif_ip4 \<Rightarrow> bool" where
  "ip4_addr_isbroadcast_u32 addr netif = (
     if NOT addr = IPADDR_ANY \<or> addr = IPADDR_ANY then True
     else if netif_ip4_flags netif AND NETIF_FLAG_BROADCAST = 0 then False
     else if addr = netif_ip4_addr netif then False
     else if ip4_addr_net_eq addr (netif_ip4_addr netif) (netif_ip4_netmask netif) \<and>
       addr AND NOT (netif_ip4_netmask netif) = IPADDR_BROADCAST AND NOT (netif_ip4_netmask netif) then True
     else False)"

section \<open>What the netmask check accepts\<close>

lemma and_pow: "(nm :: u32) AND 2 ^ j = 0 \<longleftrightarrow> \<not> bit nm j"
  by (simp add: and_exp_eq_0_iff_not_bit)

lemma pow_neq: "j < 32 \<Longrightarrow> (2 ^ j :: u32) \<noteq> 0"
proof -
  assume "j < 32"
  then have "bit (2 ^ j :: u32) j" by (simp add: bit_exp_iff)
  then show ?thesis by (metis bit_0_eq bot_apply bot_bool_def)
qed

lemma all_zero_pow: "j < 32 \<Longrightarrow> all_zero nm (2 ^ j) \<longleftrightarrow> (\<forall>i \<le> j. \<not> bit nm i)"
proof (induction j)
  case 0
  show ?case by (subst all_zero.simps, subst all_zero.simps) (use and_pow [of nm 0] in auto)
next
  case (Suc j)
  have "drop_bit 1 (2 ^ Suc j :: u32) = 2 ^ j" using Suc.prems by (intro bit_word_eqI) (auto simp: bit_simps)
  then show ?case using Suc and_pow [of nm "Suc j"] pow_neq [of "Suc j"]
    by (subst all_zero.simps) (auto simp: le_Suc_eq simp del: power_Suc)
qed

lemma first_zero_pow:
  "j < 32 \<Longrightarrow> all_zero nm (first_zero nm (2 ^ j)) \<longleftrightarrow> (\<exists>k \<le> Suc j. \<forall>i \<le> j. bit nm i \<longleftrightarrow> k \<le> i)"
proof (induction j)
  case 0
  have "all_zero nm 0" by (subst all_zero.simps) simp
  then show ?case using all_zero_pow [of 0 nm] and_pow [of nm 0]
    by (subst first_zero.simps, subst first_zero.simps) (auto intro: exI [of _ 0] exI [of _ 1])
next
  case (Suc j)
  have d: "drop_bit 1 (2 ^ Suc j :: u32) = 2 ^ j" using Suc.prems by (intro bit_word_eqI) (auto simp: bit_simps)
  show ?case
  proof (cases "bit nm (Suc j)")
    case True
    have "first_zero nm (2 ^ Suc j) = first_zero nm (2 ^ j)"
      using True and_pow [of nm "Suc j"] pow_neq [of "Suc j"] Suc.prems
      by (subst first_zero.simps) (simp add: d [simplified One_nat_def] del: power_Suc)
    moreover have "(\<exists>k \<le> Suc (Suc j). \<forall>i \<le> Suc j. bit nm i \<longleftrightarrow> k \<le> i) \<longleftrightarrow> (\<exists>k \<le> Suc j. \<forall>i \<le> j. bit nm i \<longleftrightarrow> k \<le> i)"
      using True by (auto simp: le_Suc_eq)
    ultimately show ?thesis using Suc by simp
  next
    case False
    have "first_zero nm (2 ^ Suc j) = 2 ^ Suc j"
      using False and_pow [of nm "Suc j"] by (subst first_zero.simps) (simp add: d [simplified One_nat_def] del: power_Suc)
    then have "all_zero nm (first_zero nm (2 ^ Suc j)) \<longleftrightarrow> (\<forall>i \<le> Suc j. \<not> bit nm i)"
      using all_zero_pow [OF Suc.prems] by simp
    also have "\<dots> \<longleftrightarrow> (\<exists>k \<le> Suc (Suc j). \<forall>i \<le> Suc j. bit nm i \<longleftrightarrow> k \<le> i)"
    proof
      assume "\<forall>i \<le> Suc j. \<not> bit nm i"
      then show "\<exists>k \<le> Suc (Suc j). \<forall>i \<le> Suc j. bit nm i \<longleftrightarrow> k \<le> i" by (intro exI [of _ "Suc (Suc j)"]) auto
    next
      assume "\<exists>k \<le> Suc (Suc j). \<forall>i \<le> Suc j. bit nm i \<longleftrightarrow> k \<le> i"
      with False show "\<forall>i \<le> Suc j. \<not> bit nm i" by (meson order.trans nat_le_linear order_refl)
    qed
    finally show ?thesis .
  qed
qed

section \<open>Decimal numbers\<close>

fun dec :: "nat \<Rightarrow> string" where
  "dec n = (if n < 10 then [char_of (48 + n)] else dec (n div 10) @ [char_of (48 + n mod 10)])"

declare dec.simps [simp del]

lemma inv_dec: "rev (inv_digits n) = dec n"
proof (induction n rule: dec.induct)
  case (1 n)
  then show ?case by (subst inv_digits.simps, subst dec.simps) (auto simp: Let_def div_eq_0_iff)
qed

lemma of_digit: "k < 10 \<Longrightarrow> of_char (char_of (48 + k) :: char) = (48 + k :: nat)"
  by simp

lemma digit_zero: "char_of (48 :: nat) = CHR ''0''"
proof -
  have "of_char CHR ''0'' = (48 :: nat)" by simp
  then show ?thesis by (metis char_of_char)
qed

lemma isdigit_digit: "k < (10 :: nat) \<Longrightarrow> lwip_isdigit (char_of (48 + k))"
  by (simp add: lwip_isdigit_def lwip_in_range_def)

lemma number_dec: "number_loop 10 v (dec n @ cp) = number_loop 10 (v * 10 ^ length (dec n) + of_nat n) cp"
proof (induction n arbitrary: cp rule: dec.induct)
  case (1 n)
  show ?case
  proof (cases "n < 10")
    case True
    then show ?thesis by (subst (1 2) dec.simps) (simp add: isdigit_digit)
  next
    case False
    have "(of_nat n :: u32) = of_nat (n div 10 * 10 + n mod 10)" by simp
    also have "\<dots> = of_nat (n div 10) * 10 + of_nat (n mod 10)" by (simp only: of_nat_add of_nat_mult) simp
    finally have n: "(of_nat n :: u32) = of_nat (n div 10) * 10 + of_nat (n mod 10)" .
    show ?thesis using False 1 [OF False, of "char_of (48 + n mod 10) # cp"]
      by (subst (1 2) dec.simps) (simp add: isdigit_digit n algebra_simps)
  qed
qed

lemma dec_head: "\<exists>k cs. dec n = char_of (48 + k) # cs \<and> k < (10 :: nat) \<and> (k = 0 \<longrightarrow> n = 0 \<and> cs = [])"
proof (induction n rule: dec.induct)
  case (1 n)
  show ?case
  proof (cases "n < 10")
    case True
    then show ?thesis by (subst dec.simps) (auto intro!: exI [of _ n])
  next
    case False
    with 1 [OF False] obtain k cs where "dec (n div 10) = char_of (48 + k) # cs" "k < (10 :: nat)" "k \<noteq> 0"
      by (auto simp: div_eq_0_iff)
    with False show ?thesis by (subst dec.simps) (auto intro!: exI [of _ k])
  qed
qed

text \<open>A decimal number of any size is read modulo 2 to the 32.\<close>

lemma read_dec:
  assumes "cp = [] \<or> hd cp = CHR ''.''"
  obtains base cp' where "number_base (dec n @ cp) = (base, cp')" "number_loop base 0 cp' = (of_nat n, cp)"
    "lwip_isdigit (hd (dec n @ cp))"
proof -
  obtain k cs where k: "dec n = char_of (48 + k) # cs" "k < (10 :: nat)" "k = 0 \<longrightarrow> n = 0 \<and> cs = []" using dec_head by blast
  have stop: "number_loop b v cp = (v, cp)" for b v
    using assms by (cases cp) (auto simp: lwip_isdigit_def lwip_isxdigit_def lwip_in_range_def)
  have d: "lwip_isdigit (hd (dec n @ cp))" using k by (simp add: isdigit_digit)
  show ?thesis
  proof (cases "k = 0")
    case True
    with k assms have "number_base (dec n @ cp) = (8, cp)"
      by (cases cp) (auto simp: number_base_def digit_zero)
    with True k stop d show ?thesis by (intro that [of 8 cp]) simp_all
  next
    case False
    have "(char_of (48 + k) :: char) \<noteq> CHR ''0''"
    proof
      assume "(char_of (48 + k) :: char) = CHR ''0''"
      then have "of_char (char_of (48 + k) :: char) = (48 :: nat)" by simp
      with False k(2) of_digit [of k] show False by simp
    qed
    then have "number_base (dec n @ cp) = (10, dec n @ cp)"
      unfolding k(1) by (simp add: number_base_def)
    with d stop show ?thesis by (intro that [of 10 "dec n @ cp"]) (simp_all add: number_dec)
  qed
qed

section \<open>Dotted addresses\<close>

definition dotted :: "nat \<Rightarrow> nat \<Rightarrow> nat \<Rightarrow> nat \<Rightarrow> string" where
  "dotted a b c d = dec a @ CHR ''.'' # dec b @ CHR ''.'' # dec c @ CHR ''.'' # dec d"

lemma parts_dec_dot:
  assumes "length parts < 3"
  shows "parts_loop parts (dec n @ CHR ''.'' # cp) = parts_loop (parts @ [of_nat n]) cp"
proof -
  obtain base cp' where r: "number_base (dec n @ CHR ''.'' # cp) = (base, cp')"
    "number_loop base 0 cp' = (of_nat n, CHR ''.'' # cp)" "lwip_isdigit (hd (dec n @ CHR ''.'' # cp))"
    by (rule read_dec [of "CHR ''.'' # cp" n]) simp_all
  with assms show ?thesis by (subst parts_loop.simps) simp
qed

lemma parts_dec: "parts_loop parts (dec n) = Some (parts, of_nat n, [])"
proof -
  obtain base cp' where r: "number_base (dec n @ []) = (base, cp')" "number_loop base 0 cp' = (of_nat n, [])"
    "lwip_isdigit (hd (dec n @ []))" by (rule read_dec [of "[]" n]) simp_all
  moreover have "dec n \<noteq> []" using dec_head [of n] by auto
  ultimately show ?thesis by (subst parts_loop.simps) simp
qed

definition addr_of :: "u8 \<Rightarrow> u8 \<Rightarrow> u8 \<Rightarrow> u8 \<Rightarrow> u32" where
  "addr_of a b c d = ucast a OR push_bit 8 (ucast b) OR push_bit 16 (ucast c) OR push_bit 24 (ucast d)"

lemma no_bit: "8 \<le> k \<Longrightarrow> \<not> bit (w :: u8) k"
  by (auto dest: bit_imp_le_length)

lemma byte_index:
  assumes "n < LENGTH(32)"
  obtains i where "i < 8" "n = i \<or> n = 8 + i \<or> n = 16 + i \<or> n = 24 + i"
proof -
  have "n mod 8 < 8" "n = n mod 8 \<or> n = 8 + n mod 8 \<or> n = 16 + n mod 8 \<or> n = 24 + n mod 8"
    using assms by (simp, simp) presburger
  then show ?thesis by (rule that)
qed

lemma htonl_bytes:
  "lwip_htonl (ucast d OR (push_bit 24 (ucast a) OR push_bit 16 (ucast b) OR push_bit 8 (ucast c))) = addr_of a b c d"
proof -
  have m: "(0xFF :: u32) = mask 8" "(0xFF00 :: u32) = push_bit 8 (mask 8)"
    "(0xFF0000 :: u32) = push_bit 16 (mask 8)" "(0xFF000000 :: u32) = push_bit 24 (mask 8)"
    by (simp_all add: mask_eq_exp_minus_1 push_bit_eq_mult)
  show ?thesis
  proof (rule bit_word_eqI)
    fix n assume "n < LENGTH(32)"
    then obtain i where "i < 8" "n = i \<or> n = 8 + i \<or> n = 16 + i \<or> n = 24 + i" by (rule byte_index)
    then show "bit (lwip_htonl (ucast d OR (push_bit 24 (ucast a) OR push_bit 16 (ucast b) OR push_bit 8 (ucast c)))) n =
        bit (addr_of a b c d) n"
      unfolding lwip_htonl_def addr_of_def m by (elim disjE) (simp_all add: bit_simps bit_mask_iff no_bit)
  qed
qed

lemma htonl_parts:
  assumes "unat a < 256" "unat b < 256" "unat c < 256" "unat d < 256"
  shows "lwip_htonl (d OR (push_bit 24 a OR push_bit 16 b OR push_bit 8 c)) =
    addr_of (ucast a) (ucast b) (ucast c) (ucast d)"
proof -
  have h: "ucast (ucast w :: u8) = w" if "unat (w :: u32) < 256" for w
    using that by (simp add: word_unat_eq_iff unsigned_ucast_eq unsigned_take_bit_eq take_bit_nat_eq_self)
  show ?thesis using htonl_bytes [of "ucast d" "ucast a" "ucast b" "ucast c"] unfolding h [OF assms(1)] h [OF assms(2)]
    h [OF assms(3)] h [OF assms(4)] .
qed

lemma of_nat_byte: "unat (of_nat n :: u32) < 256 \<Longrightarrow> (ucast (of_nat n :: u32) :: u8) = of_nat n"
  by (rule bit_word_eqI) (simp add: bit_simps)

lemma aton_parts:
  "ip4addr_aton (dotted a b c d) = (if \<forall>x \<in> {a, b, c, d}. x mod 4294967296 \<le> 255
     then Some (addr_of (of_nat a) (of_nat b) (of_nat c) (of_nat d)) else None)"
proof -
  have p: "parts_loop [] (dotted a b c d) = Some ([of_nat a, of_nat b, of_nat c], of_nat d, [])"
    unfolding dotted_def by (simp add: parts_dec_dot parts_dec)
  have u: "(0xFF :: u32) < of_nat x \<longleftrightarrow> \<not> x mod 4294967296 \<le> 255" for x :: nat
    by (auto simp: word_less_nat_alt unat_of_nat)
  have v: "x mod 4294967296 \<le> 255 \<Longrightarrow> unat (of_nat x :: u32) < 256" for x
    by (simp add: unat_of_nat)
  show ?thesis unfolding ip4addr_aton_def p
    using htonl_parts [of "of_nat a" "of_nat b" "of_nat c" "of_nat d"] v [of a] v [of b] v [of c] v [of d]
      of_nat_byte [of a] of_nat_byte [of b] of_nat_byte [of c] of_nat_byte [of d]
    by (simp add: u)
qed

lemma addr_of_bytes: "addr_bytes w = [a, b, c, d] \<Longrightarrow> addr_of a b c d = w"
proof (rule bit_word_eqI)
  fix n assume "n < LENGTH(32)" and w: "addr_bytes w = [a, b, c, d]"
  then obtain i where "i < 8" "n = i \<or> n = 8 + i \<or> n = 16 + i \<or> n = 24 + i" by (elim byte_index)
  moreover have "a = ucast w" "b = ucast (drop_bit 8 w)" "c = ucast (drop_bit 16 w)" "d = ucast (drop_bit 24 w)"
    using w by (simp_all add: addr_bytes_def)
  ultimately show "bit (addr_of a b c d) n = bit w n"
    unfolding addr_of_def by (elim disjE) (simp_all add: bit_simps no_bit)
qed

lemma not_mask_bits: "(w :: u32) = NOT (mask k) \<longleftrightarrow> (\<forall>i \<le> 31. bit w i \<longleftrightarrow> k \<le> i)"
proof
  assume "\<forall>i \<le> 31. bit w i \<longleftrightarrow> k \<le> i"
  then show "w = NOT (mask k)" by (intro bit_word_eqI) (auto simp: bit_simps bit_mask_iff)
qed (auto simp: bit_simps bit_mask_iff)

text \<open>A netmask is valid when it is, in host order, ones followed by zeros.\<close>

lemma netmask_valid_iff: "ip4_addr_netmask_valid nm \<longleftrightarrow> (\<exists>k \<le> 32. lwip_htonl nm = NOT (mask k))"
proof -
  have "(push_bit 31 1 :: u32) = 2 ^ 31" by (simp add: push_bit_of_1)
  then show ?thesis using first_zero_pow [of 31 "lwip_htonl nm"]
    by (simp add: ip4_addr_netmask_valid_def not_mask_bits)
qed

lemma put_chars_append:
  "put_chars buflen (xs @ ys) st = (case put_chars buflen xs st of Inl out \<Rightarrow> Inl out | Inr st \<Rightarrow> put_chars buflen ys st)"
  by (induction xs arbitrary: st) (auto split: sum.splits)

lemma put_chars_spec:
  "put_chars buflen cs (n, out) = (if n + int (length cs) \<le> buflen \<or> cs = [] then Inr (n + int (length cs), out @ cs)
     else Inl (out @ take (nat (buflen - n)) cs))"
proof (induction cs arbitrary: n out)
  case (Cons c cs)
  show ?case
  proof (cases "buflen \<le> n")
    case False
    then have "nat (buflen - n) = Suc (nat (buflen - (n + 1)))" by simp
    with False Cons [of "n + 1" "out @ [c]"] show ?thesis by (auto simp: put_char_def)
  qed (simp add: put_char_def)
qed simp

definition text_of :: "u8 list \<Rightarrow> string" where
  "text_of aps = concat (map (\<lambda>ap. dec (unat ap) @ ''.'') aps)"

lemma bytes_loop_text: "bytes_loop buflen aps st = put_chars buflen (text_of aps) st"
proof (induction aps arbitrary: st)
  case (Cons ap aps)
  have "put_chars buflen [CHR ''.''] st = put_char buflen CHR ''.'' st" for st by (simp split: sum.splits)
  with Cons show ?case
    by (simp add: text_of_def inv_dec put_chars_append split: sum.splits)
qed (simp add: text_of_def)

definition ip4_text :: "u32 \<Rightarrow> string" where
  "ip4_text w = dotted (unat (ucast w :: u8)) (unat (ucast (drop_bit 8 w) :: u8))
     (unat (ucast (drop_bit 16 w) :: u8)) (unat (ucast (drop_bit 24 w) :: u8))"

lemma text_of_addr: "text_of (addr_bytes w) = ip4_text w @ ''.''"
  by (simp add: text_of_def addr_bytes_def ip4_text_def dotted_def)

lemma length_dec: "n < 1000 \<Longrightarrow> length (dec n) \<le> 3"
proof -
  assume "n < 1000"
  then have "n div 10 div 10 < 10" by (simp add: div_less_iff_less_mult)
  then show ?thesis by (subst dec.simps, subst dec.simps, subst dec.simps) simp
qed

lemma length_ip4_text: "length (ip4_text w) < 16"
proof -
  have l: "length (dec (unat (b :: u8))) \<le> 3" for b using unat_u8_less [of b] by (intro length_dec) simp
  show ?thesis unfolding ip4_text_def dotted_def
    using l [of "ucast w"] l [of "ucast (drop_bit 8 w)"] l [of "ucast (drop_bit 16 w)"] l [of "ucast (drop_bit 24 w)"] by simp
qed

lemma ntoa_r_spec:
  "ip4addr_ntoa_r w buflen = (if int (length (ip4_text w)) < buflen then Inr (ip4_text w) else Inl (take (nat buflen) (ip4_text w @ ''.'')))"
  by (simp add: ip4addr_ntoa_r_def bytes_loop_text text_of_addr put_chars_spec)

lemma aton_text: "ip4addr_aton (ip4_text w) = Some w"
proof -
  have b: "unat (v :: u8) mod 4294967296 \<le> 255" for v using unat_u8_less [of v] by simp
  have "addr_of (ucast w) (ucast (drop_bit 8 w)) (ucast (drop_bit 16 w)) (ucast (drop_bit 24 w)) = w"
    by (rule addr_of_bytes) (simp add: addr_bytes_def)
  then show ?thesis unfolding ip4_text_def aton_parts using b by simp
qed

section \<open>Properties\<close>

text \<open>
  C40: \<open>ip4addr_ntoa_r\<close> writes the dotted decimal form of an address when the buffer has room for
  it and its NUL, and otherwise returns NULL having filled the buffer and nothing behind it; the static buffer of
  \<open>ip4addr_ntoa\<close> is always large enough, and \<open>ip4addr_aton\<close> reads every printed address back.
\<close>

theorem addr_roundtrip:
  "ip4addr_ntoa_r a buflen = (if int (length (ip4_text a)) < buflen then Inr (ip4_text a)
      else Inl (take (nat buflen) (ip4_text a @ ''.''))) \<and>
   ip4addr_ntoa a = Inr (ip4_text a) \<and> ip4addr_aton (ip4_text a) = Some a \<and> ipaddr_addr (ip4_text a) = a"
  using length_ip4_text [of a]
  by (simp add: ntoa_r_spec ip4addr_ntoa_def IP4ADDR_STRLEN_MAX_def aton_text ipaddr_addr_def)

text \<open>
  What \<open>ip4addr_aton\<close> makes of four decimal numbers of any size.  The range check of each part is
  applied to the value modulo 2 to the 32 that the multiplication leaves, so a number that overflows is accepted
  when its remainder is below 256: \<open>1.2.3.4294967300\<close> is read as 1.2.3.4.
\<close>

theorem aton_modulo:
  "ip4addr_aton (dotted a b c d) = (if a mod 4294967296 \<le> 255 \<and> b mod 4294967296 \<le> 255 \<and> c mod 4294967296 \<le> 255 \<and>
     d mod 4294967296 \<le> 255 then Some (addr_of (of_nat a) (of_nat b) (of_nat c) (of_nat d)) else None)"
  by (simp add: aton_parts)

end
