(* ===== verification/Mqtt_Ring.thy ===== *)
theory Mqtt_Ring
  imports Lwip_Base "HOL-Library.Monad_Syntax"
begin

text \<open>
  The output side of the MQTT client \<open>apps/mqtt/mqtt.c\<close>: the ring buffer, the helpers that build messages in
  it, and \<open>mqtt_output_send\<close>, which hands its bytes to TCP.  The TCP functions are the argument
  \<open>altcp\<close>; what the client relies on is the predicate \<open>streams\<close>.

  The locale \<open>byte_queue\<close> is the contract of a bounded queue of bytes; messages are appended against it.
  The ring buffer satisfies it for one byte less than its size.
\<close>

unbundle bit_operations_syntax

section \<open>The ring buffer\<close>

definition MQTT_OUTPUT_RINGBUF_SIZE :: nat where "MQTT_OUTPUT_RINGBUF_SIZE = 256"

record mqtt_ringbuf_t =
  rb_put :: u16
  rb_get :: u16
  rb_buf :: "u8 list"

definition mqtt_ringbuf_put :: "u8 \<Rightarrow> mqtt_ringbuf_t \<Rightarrow> mqtt_ringbuf_t" where
  "mqtt_ringbuf_put item rb = (
     let rb = rb\<lparr>rb_buf := (rb_buf rb)[unat (rb_put rb) := item]\<rparr>;
         rb = rb\<lparr>rb_put := rb_put rb + 1\<rparr>
     in if MQTT_OUTPUT_RINGBUF_SIZE \<le> unat (rb_put rb) then rb\<lparr>rb_put := 0\<rparr> else rb)"

definition mqtt_ringbuf_advance_get_idx :: "u16 \<Rightarrow> mqtt_ringbuf_t \<Rightarrow> mqtt_ringbuf_t" where
  "mqtt_ringbuf_advance_get_idx n rb = (
     let rb = rb\<lparr>rb_get := rb_get rb + n\<rparr>
     in if MQTT_OUTPUT_RINGBUF_SIZE \<le> unat (rb_get rb)
        then rb\<lparr>rb_get := rb_get rb - of_nat MQTT_OUTPUT_RINGBUF_SIZE\<rparr> else rb)"

definition mqtt_ringbuf_len :: "mqtt_ringbuf_t \<Rightarrow> u16" where
  "mqtt_ringbuf_len rb = (
     let n = ucast (rb_put rb) - ucast (rb_get rb) :: u32;
         n = (if 0xFFFF < n then n + of_nat MQTT_OUTPUT_RINGBUF_SIZE else n)
     in ucast n)"

definition mqtt_ringbuf_free :: "mqtt_ringbuf_t \<Rightarrow> int" where
  "mqtt_ringbuf_free rb = int MQTT_OUTPUT_RINGBUF_SIZE - uint (mqtt_ringbuf_len rb)"

definition mqtt_ringbuf_linear_read_length :: "mqtt_ringbuf_t \<Rightarrow> u16" where
  "mqtt_ringbuf_linear_read_length rb =
     of_int (min (uint (mqtt_ringbuf_len rb)) (int MQTT_OUTPUT_RINGBUF_SIZE - uint (rb_get rb)))"

text \<open>The \<open>n\<close> bytes at \<open>mqtt_ringbuf_get_ptr\<close>.\<close>

definition mqtt_ringbuf_get_ptr :: "nat \<Rightarrow> mqtt_ringbuf_t \<Rightarrow> u8 list" where
  "mqtt_ringbuf_get_ptr n rb = take n (drop (unat (rb_get rb)) (rb_buf rb))"

section \<open>Sending\<close>

datatype altcp_callback = altcp_recv | altcp_sent | altcp_poll | altcp_err | altcp_arg

record 't altcp =
  altcp_sndbuf :: "'t \<Rightarrow> u16"
  altcp_write :: "u8 list \<Rightarrow> bool \<Rightarrow> 't \<Rightarrow> err_enum_t \<times> 't"
  altcp_output :: "'t \<Rightarrow> 't"
  altcp_set :: "altcp_callback \<Rightarrow> bool \<Rightarrow> 't \<Rightarrow> 't"
  altcp_close :: "'t \<Rightarrow> err_enum_t \<times> 't"
  altcp_abort :: "'t \<Rightarrow> 't"
  altcp_new :: "'t \<Rightarrow> bool \<times> 't"
  altcp_bind :: "'t \<Rightarrow> err_enum_t \<times> 't"
  altcp_connect :: "u32 \<Rightarrow> u16 \<Rightarrow> 't \<Rightarrow> err_enum_t \<times> 't"
  altcp_recved :: "u16 \<Rightarrow> 't \<Rightarrow> 't"

definition mqtt_output_send :: "'t altcp \<Rightarrow> mqtt_ringbuf_t \<Rightarrow> 't \<Rightarrow> mqtt_ringbuf_t \<times> 't" where
  "mqtt_output_send e rb tpcb = (
     let ringbuf_lin_len = mqtt_ringbuf_linear_read_length rb;
         send_len = altcp_sndbuf e tpcb
     in if send_len = 0 \<or> ringbuf_lin_len = 0 then (rb, tpcb)
        else
          let (send_len, wrap) = (if ringbuf_lin_len < send_len
                then (ringbuf_lin_len, ringbuf_lin_len < mqtt_ringbuf_len rb) else (send_len, False));
              (err, tpcb) = altcp_write e (mqtt_ringbuf_get_ptr (unat send_len) rb) wrap tpcb;
              (err, send_len, rb, tpcb) = (if err = ERR_OK \<and> wrap then
                  let rb = mqtt_ringbuf_advance_get_idx send_len rb;
                      send_len = min (altcp_sndbuf e tpcb) (mqtt_ringbuf_linear_read_length rb);
                      (err, tpcb) = altcp_write e (mqtt_ringbuf_get_ptr (unat send_len) rb) False tpcb
                  in (err, send_len, rb, tpcb)
                else (err, send_len, rb, tpcb))
          in if err = ERR_OK then (mqtt_ringbuf_advance_get_idx send_len rb, altcp_output e tpcb) else (rb, tpcb))"

section \<open>Building messages\<close>

definition mqtt_output_append_u8 :: "u8 \<Rightarrow> mqtt_ringbuf_t \<Rightarrow> mqtt_ringbuf_t" where
  "mqtt_output_append_u8 v rb = mqtt_ringbuf_put v rb"

definition mqtt_output_append_u16 :: "u16 \<Rightarrow> mqtt_ringbuf_t \<Rightarrow> mqtt_ringbuf_t" where
  "mqtt_output_append_u16 v rb = mqtt_ringbuf_put (ucast (v AND 0xFF)) (mqtt_ringbuf_put (ucast (drop_bit 8 v)) rb)"

fun mqtt_output_append_buf :: "u8 list \<Rightarrow> mqtt_ringbuf_t \<Rightarrow> mqtt_ringbuf_t" where
  "mqtt_output_append_buf [] rb = rb"
| "mqtt_output_append_buf (b # data) rb = mqtt_output_append_buf data (mqtt_ringbuf_put b rb)"

definition mqtt_output_append_string :: "u8 list \<Rightarrow> u16 \<Rightarrow> mqtt_ringbuf_t \<Rightarrow> mqtt_ringbuf_t" where
  "mqtt_output_append_string str n rb = (
     let rb = mqtt_ringbuf_put (ucast (drop_bit 8 n)) rb;
         rb = mqtt_ringbuf_put (ucast (n AND 0xFF)) rb
     in mqtt_output_append_buf (take (unat n) str) rb)"

lemma shift7: "drop_bit 7 r \<noteq> 0 \<Longrightarrow> unat (drop_bit 7 r :: u16) < unat r"
proof -
  assume "drop_bit 7 r \<noteq> 0"
  then have "unat (drop_bit 7 r) \<noteq> 0" by (simp only: unat_eq_0 not_False_eq_True)
  then show ?thesis unfolding unat_drop_bit_eq by (simp add: drop_bit_eq_div)
qed

function remlen_loop :: "u16 \<Rightarrow> mqtt_ringbuf_t \<Rightarrow> mqtt_ringbuf_t" where
  "remlen_loop r_length rb = (
     let rb = mqtt_output_append_u8 (ucast (r_length AND 0x7F) OR (if 128 \<le> r_length then 0x80 else 0)) rb;
         r_length = drop_bit 7 r_length
     in if r_length \<noteq> 0 then remlen_loop r_length rb else rb)"
  by pat_completeness auto
termination by (relation "measure (\<lambda>(r, rb). unat r)") (auto simp: shift7)

definition mqtt_output_append_fixed_header :: "u8 \<Rightarrow> u8 \<Rightarrow> u8 \<Rightarrow> u8 \<Rightarrow> u16 \<Rightarrow> mqtt_ringbuf_t \<Rightarrow> mqtt_ringbuf_t" where
  "mqtt_output_append_fixed_header msg_type fdup fqos fretain r_length rb = (
     let rb = mqtt_output_append_u8 (push_bit 4 (msg_type AND 0x0F) OR push_bit 3 (fdup AND 1) OR
           push_bit 1 (fqos AND 3) OR (fretain AND 1)) rb
     in remlen_loop r_length rb)"

function space_loop :: "u16 \<Rightarrow> u16 \<Rightarrow> u16" where
  "space_loop total_len r_length = (
     let total_len = total_len + 1; r_length = drop_bit 7 r_length
     in if r_length \<noteq> 0 then space_loop total_len r_length else total_len)"
  by pat_completeness auto
termination by (relation "measure (\<lambda>(t, r). unat r)") (auto simp: shift7)

definition mqtt_output_check_space :: "u16 \<Rightarrow> mqtt_ringbuf_t \<Rightarrow> bool" where
  "mqtt_output_check_space r_length rb \<longleftrightarrow> uint (space_loop (1 + r_length) r_length) \<le> mqtt_ringbuf_free rb"

declare remlen_loop.simps [simp del] space_loop.simps [simp del]

section \<open>The ring as a queue\<close>

text \<open>The contract of a queue of bytes with a capacity.\<close>

locale byte_queue =
  fixes put :: "u8 \<Rightarrow> 'q \<Rightarrow> 'q" and content :: "'q \<Rightarrow> u8 list" and invar :: "'q \<Rightarrow> bool" and cap :: nat
  assumes put_invar: "invar q \<Longrightarrow> invar (put b q)"
    and put_content: "invar q \<Longrightarrow> length (content q) < cap \<Longrightarrow> content (put b q) = content q @ [b]"
begin

lemma fold_invar: "invar q \<Longrightarrow> invar (fold put bs q)"
  by (induction bs arbitrary: q) (simp_all add: put_invar)

lemma fold_content:
  "invar q \<Longrightarrow> length (content q) + length bs \<le> cap \<Longrightarrow> content (fold put bs q) = content q @ bs"
  by (induction bs arbitrary: q) (simp_all add: put_invar put_content)

end

definition ring_ok :: "mqtt_ringbuf_t \<Rightarrow> bool" where
  "ring_ok rb \<longleftrightarrow> length (rb_buf rb) = 256 \<and> unat (rb_put rb) < 256 \<and> unat (rb_get rb) < 256"

definition ring_count :: "mqtt_ringbuf_t \<Rightarrow> nat" where
  "ring_count rb = (unat (rb_put rb) + 256 - unat (rb_get rb)) mod 256"

definition ring_content :: "mqtt_ringbuf_t \<Rightarrow> u8 list" where
  "ring_content rb = map (\<lambda>i. rb_buf rb ! ((unat (rb_get rb) + i) mod 256)) [0 ..< ring_count rb]"

lemma length_content [simp]: "length (ring_content rb) = ring_count rb"
  by (simp add: ring_content_def)

lemma count_less: "ring_count rb < 256"
  by (simp add: ring_count_def)

lemma unat_plus1: "unat (p :: u16) < 256 \<Longrightarrow> unat (p + 1) = unat p + 1"
  by (simp add: unat_word_ariths)

lemma wrap256: "n < 512 \<Longrightarrow> n mod 256 = (if n < 256 then n else n - (256 :: nat))"
  by (simp add: mod_if)

lemma put_pos:
  "unat (rb_put rb) < 256 \<Longrightarrow> unat (rb_put (mqtt_ringbuf_put b rb)) = (if unat (rb_put rb) = 255 then 0 else unat (rb_put rb) + 1)"
  by (auto simp: mqtt_ringbuf_put_def MQTT_OUTPUT_RINGBUF_SIZE_def Let_def unat_plus1)

lemma put_fields: "rb_get (mqtt_ringbuf_put b rb) = rb_get rb"
  "rb_buf (mqtt_ringbuf_put b rb) = (rb_buf rb)[unat (rb_put rb) := b]"
  by (simp_all add: mqtt_ringbuf_put_def Let_def)

lemma ring_ok_put: "ring_ok rb \<Longrightarrow> ring_ok (mqtt_ringbuf_put b rb)"
  by (simp add: ring_ok_def put_fields put_pos)

lemma count_alt: "ring_ok rb \<Longrightarrow> ring_count rb = (if unat (rb_get rb) \<le> unat (rb_put rb)
    then unat (rb_put rb) - unat (rb_get rb) else unat (rb_put rb) + 256 - unat (rb_get rb))"
  by (auto simp: ring_ok_def ring_count_def wrap256)

lemma count_put: "ring_ok rb \<Longrightarrow> ring_count (mqtt_ringbuf_put b rb) = (if ring_count rb = 255 then 0 else ring_count rb + 1)"
  using ring_ok_put [of rb b] by (auto simp: count_alt put_pos put_fields) (auto simp: ring_ok_def put_pos)

lemma ring_pos: "ring_ok rb \<Longrightarrow> (unat (rb_get rb) + ring_count rb) mod 256 = unat (rb_put rb)"
  by (auto simp: count_alt wrap256) (auto simp: ring_ok_def)

lemma ring_other: "i < n \<Longrightarrow> n < 256 \<Longrightarrow> g < 256 \<Longrightarrow> (g + i) mod 256 \<noteq> (g + n) mod (256 :: nat)"
  by (auto simp: wrap256)

lemma ring_put_content:
  assumes "ring_ok rb" and "ring_count rb < 255"
  shows "ring_content (mqtt_ringbuf_put b rb) = ring_content rb @ [b]"
proof (rule nth_equalityI)
  have c: "ring_count (mqtt_ringbuf_put b rb) = ring_count rb + 1" using assms by (simp add: count_put)
  then show "length (ring_content (mqtt_ringbuf_put b rb)) = length (ring_content rb @ [b])" by simp
  fix i assume "i < length (ring_content (mqtt_ringbuf_put b rb))"
  then have i: "i < ring_count rb + 1" by (simp add: c)
  have p: "unat (rb_put rb) = (unat (rb_get rb) + ring_count rb) mod 256" "unat (rb_put rb) < length (rb_buf rb)"
    using assms(1) by (simp_all add: ring_pos) (simp add: ring_ok_def)
  show "ring_content (mqtt_ringbuf_put b rb) ! i = (ring_content rb @ [b]) ! i"
  proof (cases "i < ring_count rb")
    case True
    then have "(unat (rb_get rb) + i) mod 256 \<noteq> unat (rb_put rb)"
      unfolding p(1) using assms by (intro ring_other) (simp_all add: ring_ok_def)
    with True i c show ?thesis by (simp add: ring_content_def put_fields nth_append)
  next
    case False
    with i have "i = ring_count rb" by simp
    with c p show ?thesis by (simp add: ring_content_def put_fields nth_append)
  qed
qed

interpretation ring: byte_queue mqtt_ringbuf_put ring_content ring_ok 255
  by unfold_locales (simp_all add: ring_ok_put ring_put_content)

text \<open>The 256th byte makes the full ring look empty.\<close>

lemma put_full: "ring_ok rb \<Longrightarrow> ring_count rb = 255 \<Longrightarrow> ring_content (mqtt_ringbuf_put b rb) = []"
  by (simp add: ring_content_def count_put)

lemma ring_len: "ring_ok rb \<Longrightarrow> unat (mqtt_ringbuf_len rb) = ring_count rb"
proof -
  assume r: "ring_ok rb"
  let ?p = "unat (rb_put rb)" and ?g = "unat (rb_get rb)"
  have b: "?p < 256" "?g < 256" using r by (simp_all add: ring_ok_def)
  have u: "unat (ucast (rb_put rb) :: u32) = ?p" "unat (ucast (rb_get rb) :: u32) = ?g"
    using b by (simp_all add: unsigned_ucast_eq take_bit_nat_eq_self)
  show ?thesis
  proof (cases "?g \<le> ?p")
    case True
    have "unat (ucast (rb_put rb) - ucast (rb_get rb) :: u32) = ?p - ?g"
      using True by (subst unat_sub) (simp_all add: word_le_nat_alt u)
    with True b show ?thesis
      by (simp add: mqtt_ringbuf_len_def Let_def word_less_nat_alt unsigned_ucast_eq take_bit_nat_eq_self ring_count_def
        mod_if)
  next
    case False
    have n: "unat (ucast (rb_put rb) - ucast (rb_get rb) :: u32) = 4294967296 + ?p - ?g"
      using False b by (simp add: unat_sub_if' u word_le_nat_alt)
    have "unat (ucast (rb_put rb) - ucast (rb_get rb) + 256 :: u32) = 256 + ?p - ?g"
      using False b n by (simp add: unat_word_ariths(1) mod_if)
    with False b n show ?thesis
      by (simp add: mqtt_ringbuf_len_def Let_def word_less_nat_alt unsigned_ucast_eq take_bit_nat_eq_self ring_count_def
        MQTT_OUTPUT_RINGBUF_SIZE_def mod_if) linarith
  qed
qed

lemma adv_get: "ring_ok rb \<Longrightarrow> unat n < 256 \<Longrightarrow>
    unat (rb_get (mqtt_ringbuf_advance_get_idx n rb)) = (unat (rb_get rb) + unat n) mod 256"
proof -
  assume r: "ring_ok rb" "unat n < 256"
  then have g: "unat (rb_get rb) < 256" by (simp add: ring_ok_def)
  have u: "unat (rb_get rb + n) = unat (rb_get rb) + unat n" using g r(2) by (simp add: unat_word_ariths)
  have "unat (rb_get rb + n - 256) = unat (rb_get rb) + unat n - 256" if "256 \<le> unat (rb_get rb) + unat n"
    using that by (subst unat_sub) (simp_all add: word_le_nat_alt u)
  with u g r(2) show ?thesis
    by (auto simp: mqtt_ringbuf_advance_get_idx_def MQTT_OUTPUT_RINGBUF_SIZE_def Let_def wrap256)
qed

lemma adv_fields: "rb_put (mqtt_ringbuf_advance_get_idx n rb) = rb_put rb"
  "rb_buf (mqtt_ringbuf_advance_get_idx n rb) = rb_buf rb"
  by (simp_all add: mqtt_ringbuf_advance_get_idx_def Let_def)

lemma ring_ok_adv: "ring_ok rb \<Longrightarrow> unat n \<le> ring_count rb \<Longrightarrow> ring_ok (mqtt_ringbuf_advance_get_idx n rb)"
  using count_less [of rb] by (simp add: ring_ok_def adv_fields adv_get)

lemma count_adv:
  assumes "ring_ok rb" and "unat n \<le> ring_count rb"
  shows "ring_count (mqtt_ringbuf_advance_get_idx n rb) = ring_count rb - unat n"
proof -
  have n: "unat n < 256" using assms(2) count_less [of rb] by simp
  have g: "unat (rb_get rb) < 256" "unat (rb_put rb) < 256" using assms(1) by (simp_all add: ring_ok_def)
  from assms show ?thesis
    unfolding count_alt [OF ring_ok_adv [OF assms]] count_alt [OF assms(1)] adv_fields adv_get [OF assms(1) n]
    using g n by (auto simp: wrap256 split: if_splits)
qed

lemma adv_content:
  assumes "ring_ok rb" and "unat n \<le> ring_count rb"
  shows "ring_content (mqtt_ringbuf_advance_get_idx n rb) = drop (unat n) (ring_content rb)"
proof (rule nth_equalityI)
  have n: "unat n < 256" using assms(2) count_less [of rb] by simp
  fix i assume "i < length (ring_content (mqtt_ringbuf_advance_get_idx n rb))"
  then have i: "i < ring_count rb - unat n" by (simp add: count_adv assms)
  have "((unat (rb_get rb) + unat n) mod 256 + i) mod 256 = (unat (rb_get rb) + (unat n + i)) mod 256"
    by (simp add: mod_add_left_eq add.assoc)
  moreover have "unat n + i < ring_count rb" using i by simp
  ultimately show "ring_content (mqtt_ringbuf_advance_get_idx n rb) ! i = drop (unat n) (ring_content rb) ! i"
    using i assms by (simp add: ring_content_def adv_fields adv_get n count_adv)
qed (simp add: count_adv assms)

lemma linear_len:
  assumes "ring_ok rb"
  shows "unat (mqtt_ringbuf_linear_read_length rb) = min (ring_count rb) (256 - unat (rb_get rb))"
proof -
  have g: "unat (rb_get rb) < 256" using assms by (simp add: ring_ok_def)
  have "uint (mqtt_ringbuf_len rb) = int (ring_count rb)" by (simp only: ring_len [OF assms, symmetric]) simp
  moreover have "int 256 - uint (rb_get rb) = int (256 - unat (rb_get rb))" using g by (simp add: of_nat_diff)
  ultimately have "mqtt_ringbuf_linear_read_length rb = of_int (int (min (ring_count rb) (256 - unat (rb_get rb))))"
    unfolding mqtt_ringbuf_linear_read_length_def MQTT_OUTPUT_RINGBUF_SIZE_def by (simp only: of_nat_min)
  then show ?thesis using count_less [of rb] by (simp add: unat_of_nat)
qed

lemma get_ptr_content:
  assumes "ring_ok rb" and "n \<le> ring_count rb" and "n \<le> 256 - unat (rb_get rb)"
  shows "mqtt_ringbuf_get_ptr n rb = take n (ring_content rb)"
  using assms by (intro nth_equalityI) (auto simp: mqtt_ringbuf_get_ptr_def ring_content_def ring_ok_def)

section \<open>Handing bytes to TCP\<close>

text \<open>
  What the client relies on: a write that returns \<open>ERR_OK\<close> has appended the bytes to the stream, any other write and
  \<open>altcp_output\<close> leave it alone.
\<close>

definition streams :: "'t altcp \<Rightarrow> ('t \<Rightarrow> u8 list) \<Rightarrow> bool" where
  "streams e st \<longleftrightarrow> (\<forall>data flag c. st (snd (altcp_write e data flag c)) =
      (if fst (altcp_write e data flag c) = ERR_OK then st c @ data else st c)) \<and> (\<forall>c. st (altcp_output e c) = st c)"

lemma streams_write: "streams e st \<Longrightarrow> altcp_write e data flag c = (err, c') \<Longrightarrow>
    st c' = (if err = ERR_OK then st c @ data else st c)"
  unfolding streams_def by (metis fst_conv snd_conv)

lemma streams_output: "streams e st \<Longrightarrow> st (altcp_output e c) = st c"
  by (simp add: streams_def)

definition handed :: "('t \<Rightarrow> u8 list) \<Rightarrow> mqtt_ringbuf_t \<times> 't \<Rightarrow> mqtt_ringbuf_t \<times> 't \<Rightarrow> bool" where
  "handed st s s' \<longleftrightarrow> ring_ok (fst s') \<and> st (snd s') @ ring_content (fst s') = st (snd s) @ ring_content (fst s)"

lemma handed_chunk:
  assumes "streams e st" and "ring_ok rb" and "unat n \<le> unat (mqtt_ringbuf_linear_read_length rb)"
    and "altcp_write e (mqtt_ringbuf_get_ptr (unat n) rb) flag c = (ERR_OK, c')"
  shows "handed st (rb, c) (mqtt_ringbuf_advance_get_idx n rb, c')"
proof -
  have l: "unat n \<le> ring_count rb" "unat n \<le> 256 - unat (rb_get rb)" using assms(3) linear_len [OF assms(2)] by simp_all
  have "st c' = st c @ take (unat n) (ring_content rb)"
    using streams_write [OF assms(1,4)] get_ptr_content [OF assms(2) l] by simp
  then show ?thesis using assms(2) l(1) by (simp add: handed_def ring_ok_adv adv_content)
qed

lemma handed_trans: "handed st a b \<Longrightarrow> handed st b c \<Longrightarrow> handed st a c"
  by (simp add: handed_def)

lemma handed_fail:
  assumes "streams e st" and "ring_ok rb" and "altcp_write e data flag c = (err, c')" and "err \<noteq> ERR_OK"
  shows "handed st (rb, c) (rb, c')"
  using assms by (simp add: handed_def streams_write)

lemma handed_output: "streams e st \<Longrightarrow> handed st s (rb, c) \<Longrightarrow> handed st s (rb, altcp_output e c)"
  by (simp add: handed_def streams_output)

lemma send_handed:
  assumes "streams e st" and "ring_ok rb"
  shows "handed st (rb, c) (mqtt_output_send e rb c)"
proof (cases "altcp_sndbuf e c = 0 \<or> mqtt_ringbuf_linear_read_length rb = 0")
  case True
  with assms(2) show ?thesis by (simp add: mqtt_output_send_def handed_def Let_def)
next
  case False
  define n where "n = min (altcp_sndbuf e c) (mqtt_ringbuf_linear_read_length rb)"
  define wrap where "wrap \<longleftrightarrow> mqtt_ringbuf_linear_read_length rb < altcp_sndbuf e c \<and>
    mqtt_ringbuf_linear_read_length rb < mqtt_ringbuf_len rb"
  have s: "(if mqtt_ringbuf_linear_read_length rb < altcp_sndbuf e c
      then (mqtt_ringbuf_linear_read_length rb, mqtt_ringbuf_linear_read_length rb < mqtt_ringbuf_len rb)
      else (altcp_sndbuf e c, False)) = (n, wrap)"
    by (auto simp: n_def wrap_def min_def)
  obtain err1 c1 where w1: "altcp_write e (mqtt_ringbuf_get_ptr (unat n) rb) wrap c = (err1, c1)" by fastforce
  have n: "unat n \<le> unat (mqtt_ringbuf_linear_read_length rb)" by (simp add: n_def word_le_nat_alt [symmetric])
  show ?thesis
  proof (cases "err1 = ERR_OK \<and> wrap")
    case True
    let ?rb = "mqtt_ringbuf_advance_get_idx n rb"
    define k where "k = min (altcp_sndbuf e c1) (mqtt_ringbuf_linear_read_length ?rb)"
    obtain err2 c2 where w2: "altcp_write e (mqtt_ringbuf_get_ptr (unat k) ?rb) False c1 = (err2, c2)" by fastforce
    have h1: "handed st (rb, c) (?rb, c1)" using handed_chunk [OF assms n] w1 True by simp
    then have ok: "ring_ok ?rb" by (simp add: handed_def)
    have k: "unat k \<le> unat (mqtt_ringbuf_linear_read_length ?rb)" by (simp add: k_def word_le_nat_alt [symmetric])
    have e: "mqtt_output_send e rb c = (if err2 = ERR_OK then (mqtt_ringbuf_advance_get_idx k ?rb, altcp_output e c2) else (?rb, c2))"
      using False True w1 w2 by (simp add: mqtt_output_send_def Let_def s k_def)
    show ?thesis
    proof (cases "err2 = ERR_OK")
      case True
      with handed_chunk [OF assms(1) ok k] w2 h1 show ?thesis
        unfolding e by (simp add: handed_output [OF assms(1)] handed_trans [OF h1])
    next
      case False
      with handed_fail [OF assms(1) ok w2] handed_trans [OF h1] show ?thesis unfolding e by simp
    qed
  next
    case n2: False
    have e: "mqtt_output_send e rb c = (if err1 = ERR_OK then (mqtt_ringbuf_advance_get_idx n rb, altcp_output e c1) else (rb, c1))"
      using False n2 w1 by (simp add: mqtt_output_send_def Let_def s)
    show ?thesis
    proof (cases "err1 = ERR_OK")
      case True
      with handed_chunk [OF assms n] w1 show ?thesis unfolding e by (simp add: handed_output [OF assms(1)])
    next
      case False
      with handed_fail [OF assms w1] show ?thesis unfolding e by simp
    qed
  qed
qed

section \<open>The bytes of a message\<close>

text \<open>The remaining length as the protocol defines it: seven bits per byte, the low ones first.\<close>

fun remlen :: "nat \<Rightarrow> u8 list" where
  "remlen n = (if n < 128 then [of_nat n] else of_nat (n mod 128 + 128) # remlen (n div 128))"

declare remlen.simps [simp del]

definition control_byte :: "u8 \<Rightarrow> u8 \<Rightarrow> u8 \<Rightarrow> u8 \<Rightarrow> u8" where
  "control_byte msg_type fdup fqos fretain = (push_bit 4 (msg_type AND 0x0F) OR push_bit 3 (fdup AND 1) OR
     push_bit 1 (fqos AND 3) OR (fretain AND 1))"

definition fixed_header :: "u8 \<Rightarrow> u8 \<Rightarrow> u8 \<Rightarrow> u8 \<Rightarrow> nat \<Rightarrow> u8 list" where
  "fixed_header msg_type fdup fqos fretain n = control_byte msg_type fdup fqos fretain # remlen n"

definition u16_bytes :: "u16 \<Rightarrow> u8 list" where
  "u16_bytes v = [hi8 v, lo8 v]"

definition string_bytes :: "u8 list \<Rightarrow> u8 list" where
  "string_bytes str = u16_bytes (of_nat (length str)) @ str"

lemma append_buf_fold: "mqtt_output_append_buf bs rb = fold mqtt_ringbuf_put bs rb"
  by (induction bs arbitrary: rb) simp_all

lemma append_u16_fold: "mqtt_output_append_u16 v rb = fold mqtt_ringbuf_put (u16_bytes v) rb"
  by (simp add: mqtt_output_append_u16_def u16_bytes_def shift8_hi8 mask255_lo8)

lemma append_string_fold:
  "length str < 65536 \<Longrightarrow> mqtt_output_append_string str (of_nat (length str)) rb = fold mqtt_ringbuf_put (string_bytes str) rb"
  by (simp add: mqtt_output_append_string_def string_bytes_def u16_bytes_def append_buf_fold shift8_hi8 mask255_lo8 Let_def
    unat_of_nat)

lemma unat_shift7: "unat (drop_bit 7 r :: u16) = unat r div 128"
  unfolding unat_drop_bit_eq by (simp add: drop_bit_eq_div)

lemma remlen_byte:
  "ucast (r AND 0x7F :: u16) OR (if 128 \<le> r then 0x80 else 0) =
     (if unat r < 128 then of_nat (unat r) else of_nat (unat r mod 128 + 128) :: u8)"
proof -
  have "r AND 0x7F = take_bit 7 r" by (simp add: take_bit_eq_mask mask_eq_exp_minus_1)
  then have u: "unat (r AND 0x7F) = unat r mod 128" by (simp only: unsigned_take_bit_eq) (simp add: take_bit_eq_mod)
  then have l: "unat (ucast (r AND 0x7F) :: u8) = unat r mod 128"
    by (simp add: unsigned_ucast_eq take_bit_nat_eq_self less_trans [of _ 128])
  have "\<not> bit (ucast (r AND 0x7F) :: u8) i \<or> \<not> bit (0x80 :: u8) i" for i
  proof -
    have "(0x80 :: u8) = push_bit 7 1" by simp
    moreover have "(0x7F :: u16) = mask 7" by (simp add: mask_eq_exp_minus_1)
    ultimately show ?thesis by (simp only: bit_simps bit_mask_iff) (auto simp: bit_simps)
  qed
  then have "ucast (r AND 0x7F) OR (0x80 :: u8) = ucast (r AND 0x7F) + 0x80" by (intro disjunctive_add [symmetric]) blast
  moreover have "ucast (r AND 0x7F) = (of_nat (unat r mod 128) :: u8)"
    using l by (simp add: word_unat_eq_iff unat_of_nat)
  ultimately show ?thesis by (auto simp: word_le_nat_alt)
qed

lemma remlen_fold: "remlen_loop r rb = fold mqtt_ringbuf_put (remlen (unat r)) rb"
proof (induction r rb rule: remlen_loop.induct)
  case (1 r rb)
  have z: "drop_bit 7 r = 0 \<longleftrightarrow> unat r < 128"
    by (simp only: unat_eq_0 [symmetric] unat_shift7) (simp add: div_eq_0_iff)
  show ?case
  proof (cases "unat r < 128")
    case True
    then show ?thesis using z by (subst remlen_loop.simps, subst remlen.simps) (simp add: remlen_byte mqtt_output_append_u8_def Let_def)
  next
    case False
    with 1 [OF refl refl] z show ?thesis
      by (subst remlen_loop.simps, subst remlen.simps) (simp add: remlen_byte mqtt_output_append_u8_def Let_def unat_shift7)
  qed
qed

lemma fixed_header_fold:
  "mqtt_output_append_fixed_header ty d q re r rb = fold mqtt_ringbuf_put (fixed_header ty d q re (unat r)) rb"
  by (simp add: mqtt_output_append_fixed_header_def fixed_header_def control_byte_def remlen_fold mqtt_output_append_u8_def Let_def)

lemma space_loop_length: "space_loop t r = t + of_nat (length (remlen (unat r)))"
proof (induction t r rule: space_loop.induct)
  case (1 t r)
  have z: "drop_bit 7 r = 0 \<longleftrightarrow> unat r < 128"
    by (simp only: unat_eq_0 [symmetric] unat_shift7) (simp add: div_eq_0_iff)
  show ?case
  proof (cases "unat r < 128")
    case True
    then show ?thesis using z by (subst space_loop.simps, subst remlen.simps) (simp add: Let_def)
  next
    case False
    with 1 [OF refl refl] z show ?thesis
      by (subst space_loop.simps, subst remlen.simps) (simp add: Let_def unat_shift7)
  qed
qed

lemma length_remlen: "n < 65536 \<Longrightarrow> 1 \<le> length (remlen n) \<and> length (remlen n) \<le> 3"
proof -
  assume "n < 65536"
  then have "n div 128 div 128 < 128" by (simp add: div_less_iff_less_mult)
  then show ?thesis by (subst (1 2) remlen.simps, subst (1 2) remlen.simps, subst (1 2) remlen.simps) simp
qed

text \<open>The test for space compares 16-bit lengths, and lets a message fill the ring to the last byte.\<close>

lemma check_space_iff:
  assumes "ring_ok rb"
  shows "mqtt_output_check_space r rb \<longleftrightarrow> (1 + unat r + length (remlen (unat r))) mod 65536 + ring_count rb \<le> 256"
proof -
  have u: "uint (space_loop (1 + r) r) = int ((1 + unat r + length (remlen (unat r))) mod 65536)"
  proof -
    have "space_loop (1 + r) r = of_nat (1 + unat r + length (remlen (unat r)))" by (simp add: space_loop_length)
    then show ?thesis by (simp only: uint_nat unat_of_nat) simp
  qed
  have "uint (mqtt_ringbuf_len rb) = int (ring_count rb)" by (simp only: ring_len [OF assms, symmetric]) simp
  then show ?thesis
    unfolding mqtt_output_check_space_def u mqtt_ringbuf_free_def MQTT_OUTPUT_RINGBUF_SIZE_def by auto
qed

end
