(* ===== verification/Mqtt_Client.thy ===== *)
theory Mqtt_Client
  imports Mqtt_Ring
begin

text \<open>
  The MQTT client of \<open>apps/mqtt/mqtt.c\<close>: its requests, its timer, closing, connecting, publishing and
  subscribing.  The request objects are an array whose \<open>next\<close> pointers are indices; an object that points to
  itself is free.  A call of a user's callback is a note in the state: the callbacks of the application
  do not call the client back.  The pcb is the state of the TCP functions; \<open>conn\<close> tells whether the client holds one.
  \<open>None\<close> is undefined behaviour: a NULL or wild pointer is followed.
\<close>

unbundle bit_operations_syntax

section \<open>State\<close>

datatype mqtt_conn_state = TCP_DISCONNECTED | TCP_CONNECTING | MQTT_CONNECTING | MQTT_CONNECTED

definition STATUS_ACCEPTED :: u16 where "STATUS_ACCEPTED = 0"
definition STATUS_DISCONNECTED :: u16 where "STATUS_DISCONNECTED = 256"
definition STATUS_TIMEOUT :: u16 where "STATUS_TIMEOUT = 257"

definition MQTT_VAR_HEADER_BUFFER_LEN :: nat where "MQTT_VAR_HEADER_BUFFER_LEN = 128"
definition MQTT_REQ_MAX_IN_FLIGHT :: nat where "MQTT_REQ_MAX_IN_FLIGHT = 4"
definition MQTT_CYCLIC_TIMER_INTERVAL :: nat where "MQTT_CYCLIC_TIMER_INTERVAL = 5"
definition MQTT_REQ_TIMEOUT :: nat where "MQTT_REQ_TIMEOUT = 30"
definition MQTT_CONNECT_TIMOUT :: nat where "MQTT_CONNECT_TIMOUT = 100"

datatype mqtt_note = Connection u16 | Request nat err_enum_t | Incoming_publish "u8 list" u32 | Incoming_data "u8 list" bool

record mqtt_request_t =
  req_next :: "nat option"
  req_cb :: "nat option"
  pkt_id :: u16
  timeout_diff :: u16

record mqtt_client_s =
  cyclic_tick :: u16
  client_keep_alive :: u16
  server_watchdog :: u16
  pkt_id_seq :: u16
  inpub_pkt_id :: u16
  conn_state :: mqtt_conn_state
  conn :: bool
  connect_cb :: bool
  pend_req_queue :: "nat option"
  req_list :: "mqtt_request_t list"
  data_cb :: bool
  pub_cb :: bool
  msg_idx :: u32
  rx_buffer :: "u8 list"
  outbuf :: mqtt_ringbuf_t

record 't mst =
  client :: mqtt_client_s
  tcp :: 't
  cyclic_timers :: nat
  events :: "mqtt_note list"

definition upd_client :: "(mqtt_client_s \<Rightarrow> mqtt_client_s) \<Rightarrow> 't mst \<Rightarrow> 't mst" where
  "upd_client f s = s\<lparr>client := f (client s)\<rparr>"

definition notify :: "mqtt_note \<Rightarrow> 't mst \<Rightarrow> 't mst" where
  "notify n s = s\<lparr>events := events s @ [n]\<rparr>"

definition upd_output :: "(mqtt_ringbuf_t \<Rightarrow> mqtt_ringbuf_t) \<Rightarrow> 't mst \<Rightarrow> 't mst" where
  "upd_output f = upd_client (\<lambda>c. c\<lparr>outbuf := f (outbuf c)\<rparr>)"

text \<open>\<open>mqtt_output_send(&client->output, client->conn)\<close>\<close>

definition client_send :: "'t altcp \<Rightarrow> 't mst \<Rightarrow> 't mst option" where
  "client_send e s = (if conn (client s)
     then let (rb, c) = mqtt_output_send e (outbuf (client s)) (tcp s)
          in Some (upd_client (\<lambda>cl. cl\<lparr>outbuf := rb\<rparr>) (s\<lparr>tcp := c\<rparr>))
     else None)"

section \<open>Requests\<close>

definition msg_generate_packet_id :: "mqtt_client_s \<Rightarrow> u16 \<times> mqtt_client_s" where
  "msg_generate_packet_id c = (
     let c = c\<lparr>pkt_id_seq := pkt_id_seq c + 1\<rparr>;
         c = (if pkt_id_seq c = 0 then c\<lparr>pkt_id_seq := pkt_id_seq c + 1\<rparr> else c)
     in (pkt_id_seq c, c))"

definition mqtt_create_request :: "u16 \<Rightarrow> nat option \<Rightarrow> mqtt_request_t list \<Rightarrow> nat option \<times> mqtt_request_t list" where
  "mqtt_create_request i cb rs = (case find (\<lambda>n. req_next (rs ! n) = Some n) [0 ..< length rs] of
       Some n \<Rightarrow> (Some n, rs[n := (rs ! n)\<lparr>req_next := None, req_cb := cb, pkt_id := i\<rparr>])
     | None \<Rightarrow> (None, rs))"

partial_function (option) find_head ::
    "nat option \<Rightarrow> nat option \<Rightarrow> u16 \<Rightarrow> mqtt_request_t list \<Rightarrow> (nat option \<times> u16) option" where
  "find_head iter head time_before rs = (case iter of None \<Rightarrow> Some (head, time_before)
     | Some i \<Rightarrow> if i < length rs
         then find_head (req_next (rs ! i)) (Some i) (time_before + timeout_diff (rs ! i)) rs else None)"

definition mqtt_append_request :: "nat option \<Rightarrow> nat \<Rightarrow> mqtt_request_t list \<Rightarrow> (nat option \<times> mqtt_request_t list) option" where
  "mqtt_append_request tail r rs = do {
     (head, time_before) \<leftarrow> find_head tail None 0 rs;
     let rs = rs[r := (rs ! r)\<lparr>timeout_diff := of_nat MQTT_REQ_TIMEOUT - time_before\<rparr>];
     Some (case head of None \<Rightarrow> (Some r, rs) | Some h \<Rightarrow> (tail, rs[h := (rs ! h)\<lparr>req_next := Some r\<rparr>]))
   }"

definition mqtt_delete_request :: "nat \<Rightarrow> mqtt_request_t list \<Rightarrow> mqtt_request_t list" where
  "mqtt_delete_request r rs = rs[r := (rs ! r)\<lparr>req_next := Some r\<rparr>]"

partial_function (option) find_request ::
    "nat option \<Rightarrow> nat option \<Rightarrow> u16 \<Rightarrow> mqtt_request_t list \<Rightarrow> (nat option \<times> nat option) option" where
  "find_request iter prev i rs = (case iter of None \<Rightarrow> Some (None, prev)
     | Some n \<Rightarrow> if n < length rs
         then if pkt_id (rs ! n) = i then Some (iter, prev) else find_request (req_next (rs ! n)) iter i rs
         else None)"

definition mqtt_take_request ::
    "nat option \<Rightarrow> u16 \<Rightarrow> mqtt_request_t list \<Rightarrow> (nat option \<times> nat option \<times> mqtt_request_t list) option" where
  "mqtt_take_request tail i rs = do {
     (iter, prev) \<leftarrow> find_request tail None i rs;
     case iter of None \<Rightarrow> Some (None, tail, rs)
     | Some n \<Rightarrow>
         let (tail, rs) = (case prev of None \<Rightarrow> (req_next (rs ! n), rs)
                | Some p \<Rightarrow> (tail, rs[p := (rs ! p)\<lparr>req_next := req_next (rs ! n)\<rparr>]));
             rs = (case req_next (rs ! n) of None \<Rightarrow> rs
                | Some k \<Rightarrow> rs[k := (rs ! k)\<lparr>timeout_diff := timeout_diff (rs ! k) + timeout_diff (rs ! n)\<rparr>]);
             rs = rs[n := (rs ! n)\<lparr>req_next := None\<rparr>]
         in Some (Some n, tail, rs)
   }"

text \<open>The loop of \<open>mqtt_request_time_elapsed\<close> over the queue \<open>tail\<close> with the time \<open>t\<close> that is left.\<close>

partial_function (option) mqtt_request_time_elapsed ::
    "u8 \<Rightarrow> nat option \<Rightarrow> mqtt_request_t list \<Rightarrow> mqtt_note list \<Rightarrow>
     (nat option \<times> mqtt_request_t list \<times> mqtt_note list) option" where
  "mqtt_request_time_elapsed t tail rs ns = (case tail of None \<Rightarrow> Some (tail, rs, ns)
     | Some r \<Rightarrow>
         if t = 0 then Some (tail, rs, ns)
         else if length rs \<le> r then None
         else if timeout_diff (rs ! r) \<le> ucast t then
           let t = t - ucast (timeout_diff (rs ! r));
               tail = req_next (rs ! r);
               ns = (case req_cb (rs ! r) of None \<Rightarrow> ns | Some cb \<Rightarrow> ns @ [Request cb ERR_TIMEOUT]);
               rs = mqtt_delete_request r rs
           in mqtt_request_time_elapsed t tail rs ns
         else Some (tail, rs[r := (rs ! r)\<lparr>timeout_diff := timeout_diff (rs ! r) - ucast t\<rparr>], ns))"

partial_function (option) clear_loop :: "nat option \<Rightarrow> mqtt_request_t list \<Rightarrow> mqtt_request_t list option" where
  "clear_loop iter rs = (case iter of None \<Rightarrow> Some rs
     | Some r \<Rightarrow> if r < length rs then clear_loop (req_next (rs ! r)) (mqtt_delete_request r rs) else None)"

definition mqtt_clear_requests :: "mqtt_client_s \<Rightarrow> mqtt_client_s option" where
  "mqtt_clear_requests c = do {
     rs \<leftarrow> clear_loop (pend_req_queue c) (req_list c);
     Some (c\<lparr>req_list := rs, pend_req_queue := None\<rparr>)
   }"

definition mqtt_init_requests :: "mqtt_request_t list \<Rightarrow> mqtt_request_t list" where
  "mqtt_init_requests rs = map (\<lambda>n. (rs ! n)\<lparr>req_next := Some n\<rparr>) [0 ..< length rs]"

section \<open>Closing and the cyclic timer\<close>

definition mqtt_close :: "'t altcp \<Rightarrow> u16 \<Rightarrow> 't mst \<Rightarrow> 't mst option" where
  "mqtt_close e reason s = do {
     let s = (if conn (client s) then
           let c = altcp_set e altcp_recv False (tcp s);
               c = altcp_set e altcp_err False c;
               c = altcp_set e altcp_sent False c;
               (res, c) = altcp_close e c;
               c = (if res \<noteq> ERR_OK then altcp_abort e c else c)
           in upd_client (\<lambda>cl. cl\<lparr>conn := False\<rparr>) (s\<lparr>tcp := c\<rparr>)
         else s);
     cl \<leftarrow> mqtt_clear_requests (client s);
     let s = s\<lparr>client := cl, cyclic_timers := cyclic_timers s - 1\<rparr>;
     Some (if conn_state (client s) \<noteq> TCP_DISCONNECTED then
         let s = upd_client (\<lambda>cl. cl\<lparr>conn_state := TCP_DISCONNECTED\<rparr>) s
         in if connect_cb (client s) then notify (Connection reason) s else s
       else s)
   }"

text \<open>The message type codes of the fixed header.\<close>

definition MSG_CONNECT :: u8 where "MSG_CONNECT = 1"
definition MSG_CONNACK :: u8 where "MSG_CONNACK = 2"
definition MSG_PUBLISH :: u8 where "MSG_PUBLISH = 3"
definition MSG_PUBACK :: u8 where "MSG_PUBACK = 4"
definition MSG_PUBREC :: u8 where "MSG_PUBREC = 5"
definition MSG_PUBREL :: u8 where "MSG_PUBREL = 6"
definition MSG_PUBCOMP :: u8 where "MSG_PUBCOMP = 7"
definition MSG_SUBSCRIBE :: u8 where "MSG_SUBSCRIBE = 8"
definition MSG_SUBACK :: u8 where "MSG_SUBACK = 9"
definition MSG_UNSUBSCRIBE :: u8 where "MSG_UNSUBSCRIBE = 10"
definition MSG_UNSUBACK :: u8 where "MSG_UNSUBACK = 11"
definition MSG_PINGREQ :: u8 where "MSG_PINGREQ = 12"
definition MSG_PINGRESP :: u8 where "MSG_PINGRESP = 13"

text \<open>The keep-alive part of the timer: whether the timer goes on, and the new state.\<close>

definition keep_alive_tick :: "'t altcp \<Rightarrow> 't mst \<Rightarrow> (bool \<times> 't mst) option" where
  "keep_alive_tick e s = do {
     let s = upd_client (\<lambda>cl. cl\<lparr>server_watchdog := server_watchdog cl + 1\<rparr>) s;
     let ka = unat (client_keep_alive (client s));
     (go, s) \<leftarrow> (if ka + ka div 2 < unat (server_watchdog (client s)) * MQTT_CYCLIC_TIMER_INTERVAL
       then map_option (Pair False) (mqtt_close e STATUS_TIMEOUT s) else Some (True, s));
     let s = upd_client (\<lambda>cl. cl\<lparr>cyclic_tick := cyclic_tick cl + 1\<rparr>) s;
     Some (go, if ka \<le> unat (cyclic_tick (client s)) * MQTT_CYCLIC_TIMER_INTERVAL \<and>
          mqtt_output_check_space 0 (outbuf (client s))
       then upd_client (\<lambda>cl. cl\<lparr>cyclic_tick := 0\<rparr>) (upd_output (mqtt_output_append_fixed_header MSG_PINGREQ 0 0 0 0) s)
       else s)
   }"

text \<open>The timer that has just run is no longer armed, and its element of the pool is free for the next one.\<close>

definition mqtt_cyclic_timer :: "'t altcp \<Rightarrow> 't mst \<Rightarrow> 't mst option" where
  "mqtt_cyclic_timer e s = do {
     (restart_timer, s) \<leftarrow> (case conn_state (client s) of
         MQTT_CONNECTING \<Rightarrow>
           let s = upd_client (\<lambda>cl. cl\<lparr>cyclic_tick := cyclic_tick cl + 1\<rparr>) s
           in if MQTT_CONNECT_TIMOUT \<le> unat (cyclic_tick (client s)) * MQTT_CYCLIC_TIMER_INTERVAL
              then map_option (Pair False) (mqtt_close e STATUS_TIMEOUT s) else Some (True, s)
       | MQTT_CONNECTED \<Rightarrow> do {
           (q, rs, ns) \<leftarrow> mqtt_request_time_elapsed (of_nat MQTT_CYCLIC_TIMER_INTERVAL) (pend_req_queue (client s))
             (req_list (client s)) (events s);
           let s = upd_client (\<lambda>cl. cl\<lparr>pend_req_queue := q, req_list := rs\<rparr>) (s\<lparr>events := ns\<rparr>);
           if 0 < client_keep_alive (client s) then keep_alive_tick e s else Some (True, s)
         }
       | _ \<Rightarrow> Some (False, s));
     Some (if restart_timer then s\<lparr>cyclic_timers := cyclic_timers s + 1\<rparr> else s)
   }"

definition pub_ack_rec_rel_response :: "'t altcp \<Rightarrow> u8 \<Rightarrow> u16 \<Rightarrow> u8 \<Rightarrow> 't mst \<Rightarrow> (err_enum_t \<times> 't mst) option" where
  "pub_ack_rec_rel_response e msg i qos s = (
     if mqtt_output_check_space 2 (outbuf (client s)) then
       map_option (Pair ERR_OK) (client_send e (upd_output
         (\<lambda>rb. mqtt_output_append_u16 i (mqtt_output_append_fixed_header msg 0 qos 0 2 rb)) s))
     else Some (ERR_MEM, s))"

section \<open>Public functions\<close>

text \<open>A payload is NULL or a pointer to \<open>payload_length\<close> bytes.\<close>

definition append_publish ::
    "u8 list \<Rightarrow> u8 list option \<Rightarrow> u16 \<Rightarrow> u8 \<Rightarrow> u8 \<Rightarrow> u16 \<Rightarrow> u16 \<Rightarrow> mqtt_ringbuf_t \<Rightarrow> mqtt_ringbuf_t" where
  "append_publish topic payload payload_length qos retain i remaining_length rb = (
     let rb = mqtt_output_append_fixed_header MSG_PUBLISH 0 qos retain remaining_length rb;
         rb = mqtt_output_append_string topic (of_nat (length topic)) rb;
         rb = (if 0 < qos then mqtt_output_append_u16 i rb else rb)
     in case payload of
          Some bs \<Rightarrow> if 0 < payload_length then mqtt_output_append_buf (take (unat payload_length) bs) rb else rb
        | None \<Rightarrow> rb)"

text \<open>The end of \<open>mqtt_publish\<close> and \<open>mqtt_sub_unsub\<close>: the request is queued and the output sent.\<close>

definition queue_and_send :: "'t altcp \<Rightarrow> nat \<Rightarrow> 't mst \<Rightarrow> (err_enum_t \<times> 't mst) option" where
  "queue_and_send e r s = do {
     (q, rs) \<leftarrow> mqtt_append_request (pend_req_queue (client s)) r (req_list (client s));
     let s = upd_client (\<lambda>cl. cl\<lparr>pend_req_queue := q, req_list := rs\<rparr>) s;
     s \<leftarrow> client_send e s;
     Some (ERR_OK, s)
   }"

definition mqtt_publish ::
    "'t altcp \<Rightarrow> u8 list \<Rightarrow> u8 list option \<Rightarrow> u16 \<Rightarrow> u8 \<Rightarrow> u8 \<Rightarrow> nat option \<Rightarrow> 't mst \<Rightarrow> (err_enum_t \<times> 't mst) option" where
  "mqtt_publish e topic payload payload_length qos retain cb s = (
     if conn_state (client s) = TCP_DISCONNECTED then Some (ERR_CONN, s)
     else if 0xFFFF - 2 < length topic then Some (ERR_ARG, s)
     else
       let total_len = 2 + length topic + unat payload_length;
           (total_len, i, s) = (if 0 < qos
              then let (i, c) = msg_generate_packet_id (client s) in (total_len + 2, i, s\<lparr>client := c\<rparr>)
              else (total_len, 0, s))
       in if 0xFFFF < total_len then Some (ERR_ARG, s)
          else
            let remaining_length = of_nat total_len :: u16;
                (r, rs) = mqtt_create_request i cb (req_list (client s));
                s = upd_client (\<lambda>cl. cl\<lparr>req_list := rs\<rparr>) s
            in case r of None \<Rightarrow> Some (ERR_MEM, s)
               | Some r \<Rightarrow>
                   if \<not> mqtt_output_check_space remaining_length (outbuf (client s))
                   then Some (ERR_MEM, upd_client (\<lambda>cl. cl\<lparr>req_list := mqtt_delete_request r (req_list cl)\<rparr>) s)
                   else queue_and_send e r (upd_output (append_publish topic payload payload_length qos retain i remaining_length) s))"

definition append_subscribe :: "u8 list \<Rightarrow> u8 \<Rightarrow> bool \<Rightarrow> u16 \<Rightarrow> u16 \<Rightarrow> mqtt_ringbuf_t \<Rightarrow> mqtt_ringbuf_t" where
  "append_subscribe topic qos sub i remaining_length rb = (
     let rb = mqtt_output_append_fixed_header (if sub then MSG_SUBSCRIBE else MSG_UNSUBSCRIBE) 0 1 0 remaining_length rb;
         rb = mqtt_output_append_u16 i rb;
         rb = mqtt_output_append_string topic (of_nat (length topic)) rb
     in if sub then mqtt_output_append_u8 (min qos 2) rb else rb)"

definition mqtt_sub_unsub ::
    "'t altcp \<Rightarrow> u8 list \<Rightarrow> u8 \<Rightarrow> nat option \<Rightarrow> bool \<Rightarrow> 't mst \<Rightarrow> (err_enum_t \<times> 't mst) option" where
  "mqtt_sub_unsub e topic qos cb sub s = (
     if 0xFFFF - 2 < length topic then Some (ERR_ARG, s)
     else
       let total_len = length topic + 2 + 2 + (if sub then 1 else 0)
       in if 0xFFFF < total_len then Some (ERR_ARG, s)
          else if conn_state (client s) = TCP_DISCONNECTED then Some (ERR_CONN, s)
          else
            let remaining_length = of_nat total_len :: u16;
                (i, c) = msg_generate_packet_id (client s);
                s = s\<lparr>client := c\<rparr>;
                (r, rs) = mqtt_create_request i cb (req_list (client s));
                s = upd_client (\<lambda>cl. cl\<lparr>req_list := rs\<rparr>) s
            in case r of None \<Rightarrow> Some (ERR_MEM, s)
               | Some r \<Rightarrow>
                   if \<not> mqtt_output_check_space remaining_length (outbuf (client s))
                   then Some (ERR_MEM, upd_client (\<lambda>cl. cl\<lparr>req_list := mqtt_delete_request r (req_list cl)\<rparr>) s)
                   else queue_and_send e r (upd_output (append_subscribe topic qos sub i remaining_length) s))"

definition mqtt_set_inpub_callback :: "bool \<Rightarrow> bool \<Rightarrow> 't mst \<Rightarrow> 't mst" where
  "mqtt_set_inpub_callback pub data s = upd_client (\<lambda>cl. cl\<lparr>data_cb := data, pub_cb := pub\<rparr>) s"

definition mqtt_disconnect :: "'t altcp \<Rightarrow> 't mst \<Rightarrow> 't mst option" where
  "mqtt_disconnect e s = (if conn_state (client s) \<noteq> TCP_DISCONNECTED
     then mqtt_close e 0 (upd_client (\<lambda>cl. cl\<lparr>conn_state := TCP_DISCONNECTED\<rparr>) s) else Some s)"

definition mqtt_client_is_connected :: "mqtt_client_s \<Rightarrow> bool" where
  "mqtt_client_is_connected c \<longleftrightarrow> conn_state c = MQTT_CONNECTED"

section \<open>Connecting\<close>

record client_info =
  ci_id :: "u8 list"
  ci_user :: "u8 list option"
  ci_pass :: "u8 list option"
  ci_keep_alive :: u16
  ci_will_topic :: "u8 list option"
  ci_will_msg :: "u8 list option"
  ci_will_msg_len :: u8
  ci_will_qos :: u8
  ci_will_retain :: u8

definition FLAG_USERNAME :: u8 where "FLAG_USERNAME = 0x80"
definition FLAG_PASSWORD :: u8 where "FLAG_PASSWORD = 0x40"
definition FLAG_WILL_RETAIN :: u8 where "FLAG_WILL_RETAIN = 0x20"
definition FLAG_WILL :: u8 where "FLAG_WILL = 0x04"
definition FLAG_CLEAN_SESSION :: u8 where "FLAG_CLEAN_SESSION = 0x02"

text \<open>The zeroed structure of \<open>mem_calloc\<close> and \<open>memset\<close>, and what \<open>mqtt_client_connect\<close> keeps or sets first.\<close>

definition zeroed_client :: mqtt_client_s where
  "zeroed_client = \<lparr>cyclic_tick = 0, client_keep_alive = 0, server_watchdog = 0, pkt_id_seq = 0, inpub_pkt_id = 0,
     conn_state = TCP_DISCONNECTED, conn = False, connect_cb = False, pend_req_queue = None,
     req_list = replicate MQTT_REQ_MAX_IN_FLIGHT \<lparr>req_next = None, req_cb = None, pkt_id = 0, timeout_diff = 0\<rparr>,
     data_cb = False, pub_cb = False, msg_idx = 0, rx_buffer = replicate MQTT_VAR_HEADER_BUFFER_LEN 0,
     outbuf = \<lparr>rb_put = 0, rb_get = 0, rb_buf = replicate MQTT_OUTPUT_RINGBUF_SIZE 0\<rparr>\<rparr>"

text \<open>The argument says whether the heap had room.\<close>

definition mqtt_client_new :: "bool \<Rightarrow> mqtt_client_s option" where
  "mqtt_client_new room = (if room then Some zeroed_client else None)"

definition wiped_client :: "mqtt_client_s \<Rightarrow> client_info \<Rightarrow> bool \<Rightarrow> mqtt_client_s" where
  "wiped_client c info cb = zeroed_client\<lparr>data_cb := data_cb c, pub_cb := pub_cb c, connect_cb := cb,
     client_keep_alive := ci_keep_alive info, req_list := mqtt_init_requests (req_list zeroed_client)\<rparr>"

text \<open>The flags and the remaining length grow with each optional field; \<open>Inl\<close> is an early return.\<close>

definition will_msg_length :: "client_info \<Rightarrow> u8 list \<Rightarrow> err_enum_t + nat" where
  "will_msg_length info wm = (if ci_will_msg_len info = 0
     then if length wm \<le> 0xFF then Inr (length wm) else Inl ERR_VAL else Inr (unat (ci_will_msg_len info)))"

definition will_part :: "client_info \<Rightarrow> u8 \<times> nat \<Rightarrow> err_enum_t + (u8 \<times> nat)" where
  "will_part info = (\<lambda>(flags, remaining_length). case (ci_will_topic info, ci_will_msg info) of
       (Some wt, Some wm) \<Rightarrow>
         let flags = flags OR FLAG_WILL;
             flags = flags OR push_bit 3 (ci_will_qos info AND 3);
             flags = (if ci_will_retain info \<noteq> 0 then flags OR FLAG_WILL_RETAIN else flags)
         in if 0xFF < length wt then Inl ERR_VAL
            else if length wt = 0 then Inl ERR_VAL
            else (case will_msg_length info wm of Inl err \<Rightarrow> Inl err
              | Inr wl \<Rightarrow> let n = remaining_length + 2 + length wt + 2 + wl in if n \<le> 0xFFFF then Inr (flags, n) else Inl ERR_VAL)
     | _ \<Rightarrow> Inr (flags, remaining_length))"

definition credential_part :: "u8 \<Rightarrow> u8 list option \<Rightarrow> u8 \<times> nat \<Rightarrow> err_enum_t + (u8 \<times> nat)" where
  "credential_part flag str = (\<lambda>(flags, remaining_length). case str of None \<Rightarrow> Inr (flags, remaining_length)
     | Some v \<Rightarrow>
         if 0xFFFF < length v then Inl ERR_VAL
         else if length v = 0 then Inl ERR_VAL
         else let n = remaining_length + 2 + length v in if n \<le> 0xFFFF then Inr (flags OR flag, n) else Inl ERR_VAL)"

definition id_part :: "u8 list \<Rightarrow> u8 \<times> nat \<Rightarrow> err_enum_t + (u8 \<times> nat)" where
  "id_part v = (\<lambda>(flags, remaining_length).
     if 0xFFFF < length v then Inl ERR_VAL
     else let n = remaining_length + 2 + length v in if n \<le> 0xFFFF then Inr (flags OR FLAG_CLEAN_SESSION, n) else Inl ERR_VAL)"

definition connect_lengths :: "client_info \<Rightarrow> err_enum_t + (u8 \<times> nat)" where
  "connect_lengths info = (case will_part info (0, 2 + 4 + 1 + 1 + 2) of Inl err \<Rightarrow> Inl err | Inr a \<Rightarrow>
     (case credential_part FLAG_USERNAME (ci_user info) a of Inl err \<Rightarrow> Inl err | Inr a \<Rightarrow>
     (case credential_part FLAG_PASSWORD (ci_pass info) a of Inl err \<Rightarrow> Inl err | Inr a \<Rightarrow>
      id_part (ci_id info) a)))"

definition append_optional :: "bool \<Rightarrow> u8 list option \<Rightarrow> mqtt_ringbuf_t \<Rightarrow> mqtt_ringbuf_t" where
  "append_optional present str rb =
     (if present then mqtt_output_append_string (the str) (of_nat (length (the str))) rb else rb)"

definition will_msg_bytes :: "client_info \<Rightarrow> u8 list option" where
  "will_msg_bytes info = map_option (\<lambda>wm. if ci_will_msg_len info = 0 then wm else take (unat (ci_will_msg_len info)) wm)
     (ci_will_msg info)"

definition append_connect :: "client_info \<Rightarrow> u8 \<Rightarrow> u16 \<Rightarrow> mqtt_ringbuf_t \<Rightarrow> mqtt_ringbuf_t" where
  "append_connect info flags remaining_length rb = (
     let rb = mqtt_output_append_fixed_header MSG_CONNECT 0 0 0 remaining_length rb;
         rb = mqtt_output_append_string [77, 81, 84, 84] 4 rb;
         rb = mqtt_output_append_u8 4 rb;
         rb = mqtt_output_append_u8 flags rb;
         rb = mqtt_output_append_u16 (ci_keep_alive info) rb;
         rb = mqtt_output_append_string (ci_id info) (of_nat (length (ci_id info))) rb;
         rb = append_optional (flags AND FLAG_WILL \<noteq> 0) (ci_will_topic info) rb;
         rb = append_optional (flags AND FLAG_WILL \<noteq> 0) (will_msg_bytes info) rb;
         rb = append_optional (flags AND FLAG_USERNAME \<noteq> 0) (ci_user info) rb
     in append_optional (flags AND FLAG_PASSWORD \<noteq> 0) (ci_pass info) rb)"

definition tcp_fail :: "'t altcp \<Rightarrow> 't mst \<Rightarrow> 't mst" where
  "tcp_fail e s = upd_client (\<lambda>cl. cl\<lparr>conn := False\<rparr>) (s\<lparr>tcp := altcp_abort e (tcp s)\<rparr>)"

definition mqtt_client_connect ::
    "'t altcp \<Rightarrow> u32 \<Rightarrow> u16 \<Rightarrow> bool \<Rightarrow> client_info \<Rightarrow> 't mst \<Rightarrow> err_enum_t \<times> 't mst" where
  "mqtt_client_connect e ip_addr port cb info s = (
     if conn_state (client s) \<noteq> TCP_DISCONNECTED then (ERR_ISCONN, s)
     else
       let s = upd_client (\<lambda>cl. wiped_client cl info cb) s
       in case connect_lengths info of Inl err \<Rightarrow> (err, s)
          | Inr (flags, n) \<Rightarrow>
              let remaining_length = of_nat n :: u16
              in if \<not> mqtt_output_check_space remaining_length (outbuf (client s)) then (ERR_MEM, s)
                 else
                   let (got, c) = altcp_new e (tcp s); s = s\<lparr>tcp := c\<rparr>
                   in if \<not> got then (ERR_MEM, s)
                      else
                        let s = upd_client (\<lambda>cl. cl\<lparr>conn := True\<rparr>) (s\<lparr>tcp := altcp_set e altcp_arg True (tcp s)\<rparr>);
                            (err, c) = altcp_bind e (tcp s); s = s\<lparr>tcp := c\<rparr>
                        in if err \<noteq> ERR_OK then (err, tcp_fail e s)
                           else
                             let (err, c) = altcp_connect e ip_addr port (tcp s); s = s\<lparr>tcp := c\<rparr>
                             in if err \<noteq> ERR_OK then (err, tcp_fail e s)
                                else
                                  let s = s\<lparr>tcp := altcp_set e altcp_err True (tcp s)\<rparr>;
                                      s = upd_client (\<lambda>cl. cl\<lparr>conn_state := TCP_CONNECTING\<rparr>) s
                                  in (ERR_OK, upd_output (append_connect info flags remaining_length) s))"

section \<open>Callbacks of TCP\<close>

text \<open>\<open>armed\<close> says whether \<open>sys_timeout\<close> found a free element in the pool of timeouts.\<close>

definition mqtt_tcp_connect_cb :: "'t altcp \<Rightarrow> bool \<Rightarrow> err_enum_t \<Rightarrow> 't mst \<Rightarrow> (err_enum_t \<times> 't mst) option" where
  "mqtt_tcp_connect_cb e armed err s = (if err \<noteq> ERR_OK then Some (err, s)
     else do {
       let s = upd_client (\<lambda>cl. cl\<lparr>msg_idx := 0\<rparr>) s;
       let s = s\<lparr>tcp := altcp_set e altcp_poll True (altcp_set e altcp_sent True (altcp_set e altcp_recv True (tcp s)))\<rparr>;
       let s = upd_client (\<lambda>cl. cl\<lparr>conn_state := MQTT_CONNECTING\<rparr>) s;
       let s = (if armed then s\<lparr>cyclic_timers := cyclic_timers s + 1\<rparr> else s);
       let s = upd_client (\<lambda>cl. cl\<lparr>cyclic_tick := 0\<rparr>) s;
       s \<leftarrow> client_send e s;
       Some (ERR_OK, s)
     })"

definition mqtt_tcp_err_cb :: "'t altcp \<Rightarrow> 't mst \<Rightarrow> 't mst option" where
  "mqtt_tcp_err_cb e s = mqtt_close e STATUS_DISCONNECTED (upd_client (\<lambda>cl. cl\<lparr>conn := False\<rparr>) s)"

definition mqtt_tcp_poll_cb :: "'t altcp \<Rightarrow> 't mst \<Rightarrow> 't mst option" where
  "mqtt_tcp_poll_cb e s = (if conn_state (client s) = MQTT_CONNECTED then client_send e s else Some s)"

partial_function (option) qos0_loop ::
    "nat option \<Rightarrow> mqtt_request_t list \<Rightarrow> mqtt_note list \<Rightarrow> (nat option \<times> mqtt_request_t list \<times> mqtt_note list) option" where
  "qos0_loop tail rs ns = do {
     (r, tail, rs) \<leftarrow> mqtt_take_request tail 0 rs;
     case r of None \<Rightarrow> Some (tail, rs, ns)
     | Some n \<Rightarrow>
         let ns = (case req_cb (rs ! n) of None \<Rightarrow> ns | Some cb \<Rightarrow> ns @ [Request cb ERR_OK])
         in qos0_loop tail (mqtt_delete_request n rs) ns
   }"

definition mqtt_tcp_sent_cb :: "'t altcp \<Rightarrow> 't mst \<Rightarrow> (err_enum_t \<times> 't mst) option" where
  "mqtt_tcp_sent_cb e s = (if conn_state (client s) = MQTT_CONNECTED
     then do {
       let s = upd_client (\<lambda>cl. cl\<lparr>cyclic_tick := 0, server_watchdog := 0\<rparr>) s;
       (q, rs, ns) \<leftarrow> qos0_loop (pend_req_queue (client s)) (req_list (client s)) (events s);
       let s = upd_client (\<lambda>cl. cl\<lparr>pend_req_queue := q, req_list := rs\<rparr>) (s\<lparr>events := ns\<rparr>);
       s \<leftarrow> client_send e s;
       Some (ERR_OK, s)
     }
     else Some (ERR_OK, s))"

end
