(* ===== verification/Mqtt_Input.thy ===== *)
theory Mqtt_Input
  imports Mqtt_Client Lwip_Chain
begin

text \<open>
  The input side of the MQTT client: \<open>mqtt_message_received\<close>, the parser \<open>mqtt_parse_incoming\<close> over a chain of
  pbufs, and the receive callback.  The variable header and payload that the parser hands on is the list of the
  bytes behind the pointer, or None for NULL.  The topic is terminated in place for the callback and
  restored afterwards, so only the callback sees it.  An access outside of \<open>rx_buffer\<close> is undefined behaviour: the
  iteration of the parser, \<open>parse_step\<close>, is \<open>None\<close>.  \<open>parse_loop\<close> repeats it, and is also \<open>None\<close> when it never returns.
  A shift of the remaining length by 32 bits or more, in a header of seven bytes or more, is taken to yield 0.
\<close>

unbundle bit_operations_syntax

section \<open>Messages\<close>

definition read_at :: "u8 list option \<Rightarrow> nat \<Rightarrow> u8 option" where
  "read_at p i = do { bs \<leftarrow> p; if i < length bs then Some (bs ! i) else None }"

definition MQTT_CTL_PACKET_TYPE :: "u8 \<Rightarrow> u8" where
  "MQTT_CTL_PACKET_TYPE b = drop_bit 4 (b AND 0xF0)"

definition MQTT_CTL_PACKET_QOS :: "u8 \<Rightarrow> u8" where
  "MQTT_CTL_PACKET_QOS b = drop_bit 1 (b AND 0x6)"

definition mqtt_incoming_suback :: "nat option \<Rightarrow> u8 \<Rightarrow> 't mst \<Rightarrow> 't mst" where
  "mqtt_incoming_suback cb result s =
     (case cb of None \<Rightarrow> s | Some f \<Rightarrow> notify (Request f (if result < 3 then ERR_OK else ERR_ABRT)) s)"

text \<open>
  The first frame of a PUBLISH: offset and length of the payload, or None for \<open>goto out_disconnect\<close>.
\<close>

definition publish_head ::
    "nat \<Rightarrow> nat \<Rightarrow> u32 \<Rightarrow> u8 list option \<Rightarrow> u8 \<Rightarrow> 't mst \<Rightarrow> ((nat \<times> nat) option \<times> 't mst) option" where
  "publish_head fixed_hdr_len n remaining_length var_hdr_payload qos s = (
     let bufsize = MQTT_VAR_HEADER_BUFFER_LEN - fixed_hdr_len;
         qos_len = (if qos \<noteq> 0 then 2 else 0)
     in if n < 2 + qos_len then Some (None, s)
        else do {
          t0 \<leftarrow> read_at var_hdr_payload 0;
          t1 \<leftarrow> read_at var_hdr_payload 1;
          let topic_len = unat t0 * 256 + unat t1;
          if n - (2 + qos_len) < topic_len \<or> bufsize - (2 + qos_len) < topic_len then Some (None, s)
          else
            let after_topic = 2 + topic_len
            in if bufsize < after_topic + (if qos \<noteq> 0 then 2 else 1) then Some (None, s)
               else if 0 < qos \<and> n < after_topic + 2 then Some (None, s)
               else do {
                 (after_topic, s) \<leftarrow> (if 0 < qos then do {
                     a \<leftarrow> read_at var_hdr_payload after_topic;
                     b \<leftarrow> read_at var_hdr_payload (after_topic + 1);
                     Some (after_topic + 2, upd_client (\<lambda>cl. cl\<lparr>inpub_pkt_id := push_bit 8 (ucast a) + ucast b\<rparr>) s)
                   }
                   else Some (after_topic, upd_client (\<lambda>cl. cl\<lparr>inpub_pkt_id := 0\<rparr>) s));
                 let payload_length = n - after_topic;
                 let topic = take topic_len (drop 2 (the var_hdr_payload));
                 Some (Some (after_topic, payload_length), if pub_cb (client s)
                   then notify (Incoming_publish topic (remaining_length + of_nat payload_length)) s else s)
               }
        })"

definition message_publish ::
    "'t altcp \<Rightarrow> nat \<Rightarrow> nat \<Rightarrow> u32 \<Rightarrow> u8 list option \<Rightarrow> 't mst \<Rightarrow> (u16 \<times> 't mst) option" where
  "message_publish e fixed_hdr_len n remaining_length var_hdr_payload s = do {
     let qos = MQTT_CTL_PACKET_QOS (rx_buffer (client s) ! 0);
     (r, s) \<leftarrow> (if msg_idx (client s) = of_nat (fixed_hdr_len + n)
       then publish_head fixed_hdr_len n remaining_length var_hdr_payload qos s else Some (Some (0, n), s));
     case r of None \<Rightarrow> Some (STATUS_DISCONNECTED, s)
     | Some (payload_offset, payload_length) \<Rightarrow>
         if 0 < payload_length \<or> remaining_length = 0 then
           if n < payload_offset + payload_length then Some (STATUS_DISCONNECTED, s)
           else do {
             s \<leftarrow> (if data_cb (client s)
               then if 0 < payload_length \<and> var_hdr_payload = None then None
                 else Some (notify (Incoming_data (case var_hdr_payload of None \<Rightarrow> []
                    | Some bs \<Rightarrow> take payload_length (drop payload_offset bs)) (remaining_length = 0)) s)
               else Some s);
             if remaining_length = 0 \<and> 0 < qos then do {
               (_, s) \<leftarrow> pub_ack_rec_rel_response e (if qos = 1 then MSG_PUBACK else MSG_PUBREC) (inpub_pkt_id (client s)) 0 s;
               Some (STATUS_ACCEPTED, s)
             }
             else Some (STATUS_ACCEPTED, s)
           }
         else Some (STATUS_ACCEPTED, s)
   }"

definition message_ack :: "'t altcp \<Rightarrow> u8 \<Rightarrow> nat \<Rightarrow> u8 list option \<Rightarrow> 't mst \<Rightarrow> (u16 \<times> 't mst) option" where
  "message_ack e pkt_type n var_hdr_payload s = (
     if n < 2 then Some (STATUS_DISCONNECTED, s)
     else do {
       a \<leftarrow> read_at var_hdr_payload 0;
       b \<leftarrow> read_at var_hdr_payload 1;
       let i = (push_bit 8 (ucast a) OR ucast b :: u16);
       if i = 0 then Some (STATUS_DISCONNECTED, s)
       else if pkt_type = MSG_PUBREC then
         map_option (\<lambda>(_, s). (STATUS_ACCEPTED, s)) (pub_ack_rec_rel_response e MSG_PUBREL i 1 s)
       else if pkt_type = MSG_PUBREL then
         map_option (\<lambda>(_, s). (STATUS_ACCEPTED, s)) (pub_ack_rec_rel_response e MSG_PUBCOMP i 0 s)
       else if pkt_type \<in> {MSG_SUBACK, MSG_UNSUBACK, MSG_PUBCOMP, MSG_PUBACK} then do {
         (r, q, rs) \<leftarrow> mqtt_take_request (pend_req_queue (client s)) i (req_list (client s));
         let s = upd_client (\<lambda>cl. cl\<lparr>pend_req_queue := q, req_list := rs\<rparr>) s;
         case r of None \<Rightarrow> Some (STATUS_ACCEPTED, s)
         | Some k \<Rightarrow>
             if pkt_type = MSG_SUBACK \<and> n < 3 then Some (STATUS_DISCONNECTED, s)
             else do {
               s \<leftarrow> (if pkt_type = MSG_SUBACK then do {
                     c \<leftarrow> read_at var_hdr_payload 2;
                     Some (mqtt_incoming_suback (req_cb (rs ! k)) c s)
                   }
                   else Some (case req_cb (rs ! k) of None \<Rightarrow> s | Some f \<Rightarrow> notify (Request f ERR_OK) s));
               Some (STATUS_ACCEPTED, upd_client (\<lambda>cl. cl\<lparr>req_list := mqtt_delete_request k (req_list cl)\<rparr>) s)
             }
       }
       else Some (STATUS_DISCONNECTED, s)
     })"

definition mqtt_message_received ::
    "'t altcp \<Rightarrow> u8 \<Rightarrow> u16 \<Rightarrow> u32 \<Rightarrow> u8 list option \<Rightarrow> 't mst \<Rightarrow> (u16 \<times> 't mst) option" where
  "mqtt_message_received e fixed_hdr_len n remaining_length var_hdr_payload s = (
     let pkt_type = MQTT_CTL_PACKET_TYPE (rx_buffer (client s) ! 0)
     in if MQTT_VAR_HEADER_BUFFER_LEN < unat fixed_hdr_len + unat n then Some (STATUS_DISCONNECTED, s)
        else if pkt_type = MSG_CONNACK then
          if conn_state (client s) = MQTT_CONNECTING then
            if n < 2 then Some (STATUS_DISCONNECTED, s)
            else do {
              c \<leftarrow> read_at var_hdr_payload 1;
              let res = (ucast c :: u16);
              Some (res, if res = STATUS_ACCEPTED then
                  let s = upd_client (\<lambda>cl. cl\<lparr>cyclic_tick := 0, conn_state := MQTT_CONNECTED\<rparr>) s
                  in if connect_cb (client s) then notify (Connection res) s else s
                else s)
            }
          else Some (STATUS_ACCEPTED, s)
        else if pkt_type = MSG_PINGRESP then Some (STATUS_ACCEPTED, s)
        else if pkt_type = MSG_PUBLISH then
          message_publish e (unat fixed_hdr_len) (unat n) remaining_length var_hdr_payload s
        else message_ack e pkt_type (unat n) var_hdr_payload s)"

section \<open>The parser\<close>

definition rx_store :: "u8 \<Rightarrow> 't mst \<Rightarrow> 't mst option" where
  "rx_store b s = (if unat (msg_idx (client s)) < length (rx_buffer (client s))
     then Some (upd_client (\<lambda>cl. cl\<lparr>rx_buffer := (rx_buffer cl)[unat (msg_idx cl) := b], msg_idx := msg_idx cl + 1\<rparr>) s)
     else None)"

text \<open>The next byte of the fixed header, from the buffer or from the chain.\<close>

definition header_byte :: "nat option \<Rightarrow> 'm pst \<Rightarrow> u8 \<Rightarrow> u16 \<Rightarrow> 't mst \<Rightarrow> (u8 \<times> u16 \<times> 't mst) option" where
  "header_byte p ps fixed_hdr_len in_offset s = (
     if ucast fixed_hdr_len < msg_idx (client s)
     then if unat fixed_hdr_len < length (rx_buffer (client s))
       then Some (rx_buffer (client s) ! unat fixed_hdr_len, in_offset, s) else None
     else do {
       b \<leftarrow> pbuf_get_at p in_offset ps;
       s \<leftarrow> rx_store b s;
       Some (b, in_offset + 1, s)
     })"

text \<open>How much of the message the parser takes in one step.\<close>

definition copy_length :: "pbuf \<Rightarrow> u8 \<Rightarrow> u16 \<Rightarrow> u32 \<Rightarrow> u32 \<Rightarrow> u16" where
  "copy_length b fixed_hdr_len in_offset msg_rem_len idx = (
     let cpy_len = ucast (min (ucast (tot_len b - in_offset) :: u32) msg_rem_len) :: u16;
         buffer_space = of_nat MQTT_VAR_HEADER_BUFFER_LEN - ucast fixed_hdr_len :: u16;
         cpy_len = (if buffer_space < cpy_len then buffer_space else cpy_len)
     in if MQTT_VAR_HEADER_BUFFER_LEN \<le> unat idx \<and> uint (len b) - uint in_offset < uint cpy_len
        then len b - in_offset else cpy_len)"

definition var_header ::
    "contiguous \<Rightarrow> u8 \<Rightarrow> u16 \<Rightarrow> 'm pst \<Rightarrow> 't mst \<Rightarrow> u8 list option \<times> 't mst" where
  "var_header c fixed_hdr_len cpy_len ps s = (case c of
       In_chain a \<Rightarrow> (Some (get_bytes a (unat cpy_len) (bytes ps)), s)
     | In_buffer bs \<Rightarrow> (Some bs, upd_client (\<lambda>cl. cl\<lparr>rx_buffer := take (unat fixed_hdr_len) (rx_buffer cl) @ bs @
         drop (unat fixed_hdr_len + length bs) (rx_buffer cl)\<rparr>) s)
     | Not_contiguous \<Rightarrow> (None, s))"

text \<open>
  One iteration of the loop, which ends the parser or goes on with new values of the loop's variables; \<open>None\<close> is an
  undefined access in it.  The loop is beside it, so that running for ever and undefined behaviour are told apart.
\<close>

datatype 't parse_outcome = Returned u16 "'t mst" | Going u16 u32 u8 u8 "'t mst"

definition parse_step ::
    "'t altcp \<Rightarrow> nat option \<Rightarrow> 'm pst \<Rightarrow> u16 \<Rightarrow> u32 \<Rightarrow> u8 \<Rightarrow> u8 \<Rightarrow> 't mst \<Rightarrow> 't parse_outcome option" where
  "parse_step e p ps in_offset msg_rem_len fixed_hdr_len b s = do {
     (_, pb) \<leftarrow> follow p ps;
     if tot_len pb \<le> in_offset then Some (Returned STATUS_ACCEPTED s)
     else if fixed_hdr_len < 2 \<or> b AND 0x80 \<noteq> 0 then do {
       (b, in_offset, s) \<leftarrow> header_byte p ps fixed_hdr_len in_offset s;
       let fixed_hdr_len = fixed_hdr_len + 1;
       if 2 \<le> fixed_hdr_len then
         let msg_rem_len = msg_rem_len OR push_bit ((unat fixed_hdr_len - 2) * 7) (ucast (b AND 0x7F))
         in if b AND 0x80 = 0 then
              if msg_rem_len = 0 then do {
                (_, s) \<leftarrow> mqtt_message_received e fixed_hdr_len 0 0 None s;
                Some (Going in_offset msg_rem_len 0 b (upd_client (\<lambda>cl. cl\<lparr>msg_idx := 0\<rparr>) s))
              }
              else Some (Going in_offset (msg_rem_len + ucast fixed_hdr_len - msg_idx (client s)) fixed_hdr_len b s)
            else Some (Going in_offset msg_rem_len fixed_hdr_len b s)
       else Some (Going in_offset msg_rem_len fixed_hdr_len b s)
     }
     else do {
       let cpy_len = copy_length pb fixed_hdr_len in_offset msg_rem_len (msg_idx (client s));
       let buffer_space = (of_nat MQTT_VAR_HEADER_BUFFER_LEN - ucast fixed_hdr_len :: u16);
       c \<leftarrow> pbuf_get_contiguous p (Some (unat buffer_space)) cpy_len in_offset ps;
       let (var_hdr_payload, s) = var_header c fixed_hdr_len cpy_len ps s;
       let s = upd_client (\<lambda>cl. cl\<lparr>msg_idx := msg_idx cl + ucast cpy_len\<rparr>) s;
       let in_offset = in_offset + cpy_len;
       let msg_rem_len = msg_rem_len - ucast cpy_len;
       (res, s) \<leftarrow> mqtt_message_received e fixed_hdr_len cpy_len msg_rem_len var_hdr_payload s;
       if res \<noteq> STATUS_ACCEPTED then Some (Returned res s)
       else if msg_rem_len = 0 then Some (Going in_offset msg_rem_len 0 b (upd_client (\<lambda>cl. cl\<lparr>msg_idx := 0\<rparr>) s))
       else Some (Going in_offset msg_rem_len fixed_hdr_len b s)
     }
   }"

partial_function (option) parse_loop ::
    "'t altcp \<Rightarrow> nat option \<Rightarrow> 'm pst \<Rightarrow> u16 \<Rightarrow> u32 \<Rightarrow> u8 \<Rightarrow> u8 \<Rightarrow> 't mst \<Rightarrow> (u16 \<times> 't mst) option" where
  "parse_loop e p ps in_offset msg_rem_len fixed_hdr_len b s = do {
     r \<leftarrow> parse_step e p ps in_offset msg_rem_len fixed_hdr_len b s;
     case r of Returned res s \<Rightarrow> Some (res, s)
     | Going in_offset msg_rem_len fixed_hdr_len b s \<Rightarrow> parse_loop e p ps in_offset msg_rem_len fixed_hdr_len b s
   }"

definition mqtt_parse_incoming :: "'t altcp \<Rightarrow> nat option \<Rightarrow> 'm pst \<Rightarrow> 't mst \<Rightarrow> (u16 \<times> 't mst) option" where
  "mqtt_parse_incoming e p ps s = parse_loop e p ps 0 0 0 0 s"

definition mqtt_tcp_recv_cb ::
    "'t altcp \<Rightarrow> 'm pbuf_env \<Rightarrow> nat option \<Rightarrow> err_enum_t \<Rightarrow> 'm pst \<Rightarrow> 't mst \<Rightarrow> (err_enum_t \<times> 'm pst \<times> 't mst) option" where
  "mqtt_tcp_recv_cb e pe p err ps s = (case p of
       None \<Rightarrow> do { s \<leftarrow> mqtt_close e STATUS_DISCONNECTED s; Some (ERR_OK, ps, s) }
     | Some _ \<Rightarrow>
         if err \<noteq> ERR_OK then do { (_, ps) \<leftarrow> pbuf_free pe p ps; Some (err, ps, s) }
         else do {
           (_, pb) \<leftarrow> follow p ps;
           let s = s\<lparr>tcp := altcp_recved e (tot_len pb) (tcp s)\<rparr>;
           (res, s) \<leftarrow> mqtt_parse_incoming e p ps s;
           (_, ps) \<leftarrow> pbuf_free pe p ps;
           s \<leftarrow> (if res \<noteq> STATUS_ACCEPTED then mqtt_close e res s else Some s);
           Some (ERR_OK, ps, if client_keep_alive (client s) \<noteq> 0
             then upd_client (\<lambda>cl. cl\<lparr>server_watchdog := 0\<rparr>) s else s)
         })"

end
