(* ===== verification/Mqtt_Requests.thy ===== *)
theory Mqtt_Requests
  imports Mqtt_Client
begin

text \<open>
  The request queue of the MQTT client: \<open>queue_but L rs p is\<close> says that the pending requests are the objects \<open>is\<close>
  in this order, that all other objects but those in \<open>L\<close> are free and that the timeout differences add up to at most the
  request timeout; \<open>queue_ok\<close> is the case that nothing is lost.  Creating, appending, taking, timing out and clearing are list operations on \<open>is\<close>.
\<close>

section \<open>Queues\<close>

fun rchain :: "mqtt_request_t list \<Rightarrow> nat option \<Rightarrow> nat list \<Rightarrow> bool" where
  "rchain rs p [] \<longleftrightarrow> p = None"
| "rchain rs p (i # is) \<longleftrightarrow> p = Some i \<and> i < length rs \<and> rchain rs (req_next (rs ! i)) is"

definition diff :: "mqtt_request_t list \<Rightarrow> nat \<Rightarrow> nat" where
  "diff rs i = unat (timeout_diff (rs ! i))"

definition total :: "mqtt_request_t list \<Rightarrow> nat list \<Rightarrow> nat" where
  "total rs is = sum_list (map (diff rs) is)"

definition free_others :: "mqtt_request_t list \<Rightarrow> nat set \<Rightarrow> bool" where
  "free_others rs A \<longleftrightarrow> (\<forall>n < length rs. n \<notin> A \<longrightarrow> req_next (rs ! n) = Some n)"

definition queue_but :: "nat set \<Rightarrow> mqtt_request_t list \<Rightarrow> nat option \<Rightarrow> nat list \<Rightarrow> bool" where
  "queue_but L rs p is \<longleftrightarrow> rchain rs p is \<and> distinct is \<and> free_others rs (set is \<union> L) \<and>
     total rs is \<le> MQTT_REQ_TIMEOUT"

abbreviation queue_ok :: "mqtt_request_t list \<Rightarrow> nat option \<Rightarrow> nat list \<Rightarrow> bool" where
  "queue_ok \<equiv> queue_but {}"

lemma upd_nth: "rs[k := v] ! i = (if i = k \<and> k < length rs then v else rs ! i)"
  by (cases "k < length rs") (auto simp: list_update_beyond)

lemma total_simps [simp]: "total rs [] = 0" "total rs (i # is) = diff rs i + total rs is"
  "total rs (is @ js) = total rs is + total rs js"
  by (simp_all add: total_def)

lemma rchain_less: "rchain rs p is \<Longrightarrow> i \<in> set is \<Longrightarrow> i < length rs"
  by (induction "is" arbitrary: p) auto

lemma rchain_cong:
  "length rs' = length rs \<Longrightarrow> (\<And>i. i \<in> set is \<Longrightarrow> req_next (rs' ! i) = req_next (rs ! i)) \<Longrightarrow> rchain rs' p is = rchain rs p is"
  by (induction "is" arbitrary: p) auto

lemma total_cong: "(\<And>i. i \<in> set is \<Longrightarrow> timeout_diff (rs' ! i) = timeout_diff (rs ! i)) \<Longrightarrow> total rs' is = total rs is"
  by (induction "is") (auto simp: diff_def)

lemma rchain_not_self: "rchain rs p is \<Longrightarrow> distinct is \<Longrightarrow> i \<in> set is \<Longrightarrow> req_next (rs ! i) \<noteq> Some i"
proof (induction "is" arbitrary: p)
  case (Cons j "is")
  show ?case
  proof (cases "i = j")
    case True
    have "req_next (rs ! j) = None \<or> (\<exists>k \<in> set is. req_next (rs ! j) = Some k)"
      using Cons.prems(1) by (cases "is") auto
    with True Cons.prems(2) show ?thesis by auto
  next
    case False
    with Cons show ?thesis by auto
  qed
qed simp

text \<open>An object that is not in use is found when there is one.\<close>

lemma create_spec:
  assumes "queue_but L rs p is"
  shows "(\<exists>n. n < length rs \<and> n \<notin> set is \<and>
      mqtt_create_request i cb rs = (Some n, rs[n := (rs ! n)\<lparr>req_next := None, req_cb := cb, pkt_id := i\<rparr>])) \<or>
    (\<forall>n < length rs. n \<in> set is \<union> L) \<and> mqtt_create_request i cb rs = (None, rs)"
proof (cases "find (\<lambda>n. req_next (rs ! n) = Some n) [0 ..< length rs]")
  case None
  then have "\<forall>n < length rs. req_next (rs ! n) \<noteq> Some n" by (simp add: find_None_iff)
  with assms None show ?thesis by (auto simp: queue_but_def free_others_def mqtt_create_request_def)
next
  case (Some n)
  then have n: "n < length rs" "req_next (rs ! n) = Some n" by (auto simp: find_Some_iff)
  then have "n \<notin> set is" using assms rchain_not_self by (auto simp: queue_but_def)
  with Some n show ?thesis by (auto simp: mqtt_create_request_def)
qed

lemma find_head_spec:
  "rchain rs p is \<Longrightarrow> find_head p h t rs = Some (if is = [] then h else Some (last is), t + of_nat (total rs is))"
proof (induction "is" arbitrary: p h t)
  case Nil
  then show ?case by (subst find_head.simps) simp
next
  case (Cons i "is")
  have "(of_nat (diff rs i) :: u16) = timeout_diff (rs ! i)" by (simp add: diff_def)
  with Cons show ?case by (subst find_head.simps) (simp add: add.assoc)
qed

lemma rchain_snoc:
  assumes "rchain rs p is" and "distinct is" and "r \<notin> set is" and "r < length rs" and "req_next (rs ! r) = None"
  shows "rchain (if is = [] then rs else rs[last is := (rs ! last is)\<lparr>req_next := Some r\<rparr>])
    (if is = [] then Some r else p) (is @ [r])"
  using assms(1-3)
proof (induction "is" arbitrary: p)
  case Nil
  with assms(4,5) show ?case by simp
next
  case (Cons i "is")
  let ?rs = "\<lambda>j. rs[j := (rs ! j)\<lparr>req_next := Some r\<rparr>]"
  show ?case
  proof (cases "is")
    case Nil
    with Cons.prems assms(4,5) show ?thesis by (auto simp: upd_nth)
  next
    case (Cons j js)
    then have "rchain (?rs (last is)) (req_next (rs ! i)) (is @ [r])" using Cons.IH [of "req_next (rs ! i)"] Cons.prems by simp
    moreover have "last is \<noteq> i" using Cons.prems(2) Cons by auto
    ultimately show ?thesis using Cons.prems Cons by (simp add: upd_nth)
  qed
qed

text \<open>A new request is due after exactly the request timeout.\<close>

lemma append_spec:
  assumes "rchain rs p is" and "distinct is" and "free_others rs (insert r (set is \<union> L))" and "total rs is \<le> MQTT_REQ_TIMEOUT"
    and "r \<notin> set is" and "r < length rs" and "req_next (rs ! r) = None"
  shows "\<exists>p' rs'. mqtt_append_request p r rs = Some (p', rs') \<and> queue_but L rs' p' (is @ [r]) \<and>
    total rs' (is @ [r]) = MQTT_REQ_TIMEOUT \<and> length rs' = length rs \<and>
    (\<forall>n. req_cb (rs' ! n) = req_cb (rs ! n) \<and> pkt_id (rs' ! n) = pkt_id (rs ! n)) \<and> total rs' is = total rs is"
proof -
  define rs1 where "rs1 = rs[r := (rs ! r)\<lparr>timeout_diff := of_nat MQTT_REQ_TIMEOUT - of_nat (total rs is)\<rparr>]"
  define rs2 where "rs2 = (if is = [] then rs1 else rs1[last is := (rs1 ! last is)\<lparr>req_next := Some r\<rparr>])"
  have c1: "rchain rs1 p is" using assms(1,5) rchain_cong [of rs1 rs "is" p] by (auto simp: rs1_def upd_nth)
  have n1: "req_next (rs1 ! r) = None" using assms(6,7) by (simp add: rs1_def)
  have c2: "rchain rs2 (if is = [] then Some r else p) (is @ [r])"
    unfolding rs2_def using rchain_snoc [OF c1 assms(2,5) _ n1] assms(6) by (simp add: rs1_def)
  have l2: "last is < length rs" if "is \<noteq> []" using rchain_less [OF assms(1)] that by simp
  have d1: "timeout_diff (rs2 ! n) = timeout_diff (rs1 ! n)" "req_cb (rs2 ! n) = req_cb (rs1 ! n)"
    "pkt_id (rs2 ! n) = pkt_id (rs1 ! n)" "n \<notin> set is \<Longrightarrow> rs2 ! n = rs1 ! n" for n
    by (auto simp: rs2_def upd_nth)
  have d: "req_cb (rs2 ! n) = req_cb (rs ! n)" "pkt_id (rs2 ! n) = pkt_id (rs ! n)" for n
    by (simp_all add: d1 rs1_def upd_nth)
  have t: "total rs2 is = total rs is"
    using assms(5) by (intro total_cong) (auto simp: d1 rs1_def upd_nth)
  have "unat (of_nat MQTT_REQ_TIMEOUT - of_nat (total rs is) :: u16) = MQTT_REQ_TIMEOUT - total rs is"
    using assms(4) by (simp add: MQTT_REQ_TIMEOUT_def unat_sub_if' unat_of_nat)
  then have "diff rs2 r = MQTT_REQ_TIMEOUT - total rs is" using assms(6) by (simp add: diff_def d1 rs1_def)
  with t assms(4) have tt: "total rs2 (is @ [r]) = MQTT_REQ_TIMEOUT" by simp
  have l3: "length rs2 = length rs" by (simp add: rs2_def rs1_def)
  have f: "free_others rs2 (set (is @ [r]) \<union> L)"
    using assms(3) d1(4) by (auto simp: free_others_def rs1_def upd_nth l3)
  have "mqtt_append_request p r rs = Some (if is = [] then Some r else p, rs2)"
    using find_head_spec [OF assms(1), of None 0]
    by (auto simp: mqtt_append_request_def rs1_def rs2_def Let_def)
  then show ?thesis using c2 f tt t d l3 assms(2,5) by (auto simp: queue_but_def)
qed

section \<open>Timeouts\<close>

definition timed_out :: "mqtt_request_t list \<Rightarrow> nat list \<Rightarrow> mqtt_note list" where
  "timed_out rs is = map (\<lambda>cb. Request cb ERR_TIMEOUT) (List.map_filter (\<lambda>i. req_cb (rs ! i)) is)"

lemma timed_out_Cons: "timed_out rs (i # is) = (case req_cb (rs ! i) of None \<Rightarrow> [] | Some cb \<Rightarrow> [Request cb ERR_TIMEOUT]) @ timed_out rs is"
  by (simp add: timed_out_def List.map_filter_simps split: option.split)

lemma delete_fields:
  "length (mqtt_delete_request r rs) = length rs" "i \<noteq> r \<Longrightarrow> mqtt_delete_request r rs ! i = rs ! i"
  "timeout_diff (mqtt_delete_request r rs ! i) = timeout_diff (rs ! i)"
  "req_cb (mqtt_delete_request r rs ! i) = req_cb (rs ! i)"
  "r < length rs \<Longrightarrow> req_next (mqtt_delete_request r rs ! r) = Some r"
  by (auto simp: mqtt_delete_request_def upd_nth)

lemma delete_queue:
  assumes "queue_but L rs p (r # is)"
  shows "queue_but L (mqtt_delete_request r rs) (req_next (rs ! r)) is"
proof -
  have "rchain (mqtt_delete_request r rs) (req_next (rs ! r)) is = rchain rs (req_next (rs ! r)) is"
    using assms by (intro rchain_cong) (auto simp: mqtt_delete_request_def upd_nth queue_but_def)
  moreover have "total (mqtt_delete_request r rs) is = total rs is" by (intro total_cong) (simp add: delete_fields)
  ultimately show ?thesis
    using assms by (auto simp: queue_but_def free_others_def delete_fields) (metis delete_fields(2,5))
qed

text \<open>
  After \<open>t\<close> seconds a prefix of the queue is gone, in its order; either nothing is left or exactly
  \<open>t\<close> has been taken off what remains.
\<close>

lemma elapsed_spec:
  assumes "queue_but L rs p is"
  shows "\<exists>k p' rs'. mqtt_request_time_elapsed t p rs ns = Some (p', rs', ns @ timed_out rs (take k is)) \<and>
    queue_but L rs' p' (drop k is) \<and> length rs' = length rs \<and> (\<forall>i. req_cb (rs' ! i) = req_cb (rs ! i)) \<and>
    (drop k is = [] \<or> total rs' (drop k is) + unat t = total rs is)"
  using assms
proof (induction "is" arbitrary: t p rs ns)
  case Nil
  then show ?case by (subst mqtt_request_time_elapsed.simps) (auto simp: queue_but_def timed_out_def intro!: exI [of _ 0])
next
  case (Cons r "is")
  then have p: "p = Some r" "r < length rs" by (simp_all add: queue_but_def)
  show ?case
  proof (cases "t = 0")
    case True
    with Cons.prems p show ?thesis
      by (subst mqtt_request_time_elapsed.simps) (auto simp: timed_out_def List.map_filter_simps intro!: exI [of _ 0])
  next
    case False
    have u: "unat (ucast t :: u16) = unat t"
      using unat_u8_less [of t] by (simp add: unsigned_ucast_eq take_bit_nat_eq_self)
    show ?thesis
    proof (cases "timeout_diff (rs ! r) \<le> ucast t")
      case True
      let ?d = "timeout_diff (rs ! r)"
      have d: "unat ?d \<le> unat t" using True by (simp add: word_le_nat_alt u)
      have ud: "unat (ucast ?d :: u8) = unat ?d"
        using d unat_u8_less [of t] by (simp add: unsigned_ucast_eq take_bit_nat_eq_self)
      then have t': "unat (t - ucast ?d) = unat t - unat ?d" using d by (subst unat_sub) (simp_all add: word_le_nat_alt)
      have tot: "total (mqtt_delete_request r rs) is = total rs is" by (intro total_cong) (simp add: delete_fields)
      define ns' where "ns' = (case req_cb (rs ! r) of None \<Rightarrow> ns | Some cb \<Rightarrow> ns @ [Request cb ERR_TIMEOUT])"
      obtain k p' rs' where i: "mqtt_request_time_elapsed (t - ucast ?d) (req_next (rs ! r)) (mqtt_delete_request r rs) ns' =
          Some (p', rs', ns' @ timed_out (mqtt_delete_request r rs) (take k is))"
        "queue_but L rs' p' (drop k is)" "length rs' = length rs" "\<forall>i. req_cb (rs' ! i) = req_cb (rs ! i)"
        "drop k is = [] \<or> total rs' (drop k is) + (unat t - unat ?d) = total rs is"
        using Cons.IH [OF delete_queue [OF Cons.prems], of "t - ucast ?d" ns']
        by (auto simp: delete_fields t' tot)
      have "ns' @ timed_out (mqtt_delete_request r rs) (take k is) = ns @ timed_out rs (take (Suc k) (r # is))"
        by (simp add: ns'_def timed_out_Cons delete_fields timed_out_def split: option.split)
      moreover have "mqtt_request_time_elapsed t p rs ns =
          mqtt_request_time_elapsed (t - ucast ?d) (req_next (rs ! r)) (mqtt_delete_request r rs) ns'"
        using p \<open>t \<noteq> 0\<close> True by (subst mqtt_request_time_elapsed.simps) (simp add: ns'_def Let_def)
      ultimately show ?thesis
        using i d by (intro exI [of _ "Suc k"] exI [of _ p'] exI [of _ rs']) (auto simp: diff_def)
    next
      case nd: False
      let ?rs = "rs[r := (rs ! r)\<lparr>timeout_diff := timeout_diff (rs ! r) - ucast t\<rparr>]"
      have d: "diff ?rs r + unat t = diff rs r"
        using nd p(2) u by (simp add: diff_def unat_sub_if' word_le_nat_alt)
      have dr: "r \<notin> set is" using Cons.prems by (simp add: queue_but_def)
      have tot: "total ?rs is = total rs is" using dr by (intro total_cong) (auto simp: upd_nth)
      have "rchain ?rs p (r # is) = rchain rs p (r # is)" by (intro rchain_cong) (auto simp: upd_nth)
      then have "queue_but L ?rs p (r # is)"
        using Cons.prems d tot by (auto simp: queue_but_def free_others_def upd_nth simp del: rchain.simps)
      with d tot p nd False show ?thesis
        by (subst mqtt_request_time_elapsed.simps)
          (auto simp: timed_out_def List.map_filter_simps upd_nth intro!: exI [of _ 0])
    qed
  qed
qed

section \<open>The PUBLISH packet\<close>

definition publish_body :: "u8 \<Rightarrow> u8 list \<Rightarrow> u16 \<Rightarrow> u8 list \<Rightarrow> u8 list" where
  "publish_body qos topic i payload = string_bytes topic @ (if 0 < qos then u16_bytes i else []) @ payload"

definition publish_packet :: "u8 \<Rightarrow> u8 \<Rightarrow> u8 list \<Rightarrow> u16 \<Rightarrow> u8 list \<Rightarrow> u8 list" where
  "publish_packet qos retain topic i payload =
     fixed_header MSG_PUBLISH 0 qos retain (length (publish_body qos topic i payload)) @ publish_body qos topic i payload"

end
