(* ===== verification/Mqtt_Parse.thy ===== *)
theory Mqtt_Parse
  imports Mqtt_Input Mqtt_Requests
begin

text \<open>
  What the parser of incoming messages does: a published message is delivered however the packet is split into pbufs,
  and two inputs that it does not survive, an endless loop on long messages in chains and a header without end.  Both
  are stated over \<open>parse_run\<close>, a number of iterations of the parser, which tells a parser that runs on (\<open>Going\<close>) from one
  that has returned and from undefined behaviour (\<open>None\<close>).
\<close>

unbundle bit_operations_syntax

section \<open>Iterations of the parser\<close>

fun parse_run :: "'t altcp \<Rightarrow> nat option \<Rightarrow> 'm pst \<Rightarrow> nat \<Rightarrow> 't parse_outcome \<Rightarrow> 't parse_outcome option" where
  "parse_run e p ps 0 r = Some r"
| "parse_run e p ps (Suc n) (Returned res s) = Some (Returned res s)"
| "parse_run e p ps (Suc n) (Going off rem fh b s) = do { r \<leftarrow> parse_step e p ps off rem fh b s; parse_run e p ps n r }"

lemma parse_run_returned [simp]: "parse_run e p ps n (Returned res s) = Some (Returned res s)"
  by (cases n) simp_all

lemma parse_run_add: "parse_run e p ps (m + n) r = do { r' \<leftarrow> parse_run e p ps m r; parse_run e p ps n r' }"
proof (induction m arbitrary: r)
  case (Suc m)
  then show ?case by (cases r) (simp_all cong: Option.bind_cong)
qed simp

lemma parse_run_trans: "parse_run e p ps m r = Some r' \<Longrightarrow> parse_run e p ps n r' = Some r'' \<Longrightarrow> parse_run e p ps (m + n) r = Some r''"
  by (simp add: parse_run_add)

lemma parse_run_1: "parse_step e p ps off rem fh b s = Some r \<Longrightarrow> parse_run e p ps 1 (Going off rem fh b s) = Some r"
  by simp

lemma parse_run_stays:
  assumes "parse_step e p ps off rem fh b s = Some (Going off rem fh b s)"
  shows "parse_run e p ps n (Going off rem fh b s) = Some (Going off rem fh b s)"
  using assms by (induction n) simp_all

text \<open>The loop returns exactly what some number of iterations returns.\<close>

lemma loop_after:
  assumes "parse_run e p ps n (Going off rem fh b s) = Some r"
  shows "parse_loop e p ps off rem fh b s =
    (case r of Returned res s' \<Rightarrow> Some (res, s') | Going off' rem' fh' b' s' \<Rightarrow> parse_loop e p ps off' rem' fh' b' s')"
  using assms
proof (induction n arbitrary: off rem fh b s)
  case (Suc n)
  from Suc.prems obtain r1 where r1: "parse_step e p ps off rem fh b s = Some r1" "parse_run e p ps n r1 = Some r"
    by (auto split: bind_splits)
  with Suc.IH show ?case by (subst parse_loop.simps) (auto split: parse_outcome.splits)
qed auto

lemma loop_returns:
  assumes "parse_loop e p ps off rem fh b s = Some r"
  shows "\<exists>n. parse_run e p ps n (Going off rem fh b s) = Some (Returned (fst r) (snd r))"
proof (rule parse_loop.raw_induct [where P = "\<lambda>e p ps off rem fh b s r.
    \<exists>n. parse_run e p ps n (Going off rem fh b s) = Some (Returned (fst r) (snd r))", OF _ assms], goal_cases)
  case (1 f e p ps off rem fh b s r)
  from 1(2) obtain r1 where r1: "parse_step e p ps off rem fh b s = Some r1"
    "(case r1 of Returned res s \<Rightarrow> Some (res, s) | Going off rem fh b s \<Rightarrow> f e p ps off rem fh b s) = Some r"
    by (auto split: bind_splits)
  show ?case
  proof (cases r1)
    case (Returned res s')
    with r1 have "parse_run e p ps 1 (Going off rem fh b s) = Some (Returned (fst r) (snd r))" by auto
    then show ?thesis ..
  next
    case (Going off' rem' fh' b' s')
    with r1(2) have "f e p ps off' rem' fh' b' s' = Some r" by simp
    from 1(1) [OF this] obtain n where "parse_run e p ps n (Going off' rem' fh' b' s') = Some (Returned (fst r) (snd r))" by blast
    with r1(1) Going have "parse_run e p ps (Suc n) (Going off rem fh b s) = Some (Returned (fst r) (snd r))" by simp
    then show ?thesis ..
  qed
qed

lemma loop_never:
  assumes "parse_run e p ps n (Going off rem fh b s) = Some (Going off' rem' fh' b' s')"
    and "parse_step e p ps off' rem' fh' b' s' = Some (Going off' rem' fh' b' s')"
  shows "parse_loop e p ps off rem fh b s = None"
proof -
  have "parse_loop e p ps off' rem' fh' b' s' = None"
  proof (rule ccontr)
    assume "parse_loop e p ps off' rem' fh' b' s' \<noteq> None"
    then obtain r where "parse_loop e p ps off' rem' fh' b' s' = Some r" by blast
    from loop_returns [OF this] show False using parse_run_stays [OF assms(2)] by auto
  qed
  then show ?thesis using loop_after [OF assms(1)] by simp
qed

lemma loop_undefined:
  assumes "parse_run e p ps n (Going off rem fh b s) = Some (Going off' rem' fh' b' s')"
    and "parse_step e p ps off' rem' fh' b' s' = None"
  shows "parse_loop e p ps off rem fh b s = None"
  using loop_after [OF assms(1)] assms(2) by (simp add: parse_loop.simps [of e p ps off' rem' fh' b' s'])

section \<open>Contiguous bytes of a chain\<close>

definition holds_slice :: "contiguous \<Rightarrow> u8 list \<Rightarrow> 'm pst \<Rightarrow> bool" where
  "holds_slice c bs ps = (case c of In_chain a \<Rightarrow> get_bytes a (length bs) (bytes ps) = bs
     | In_buffer ds \<Rightarrow> ds = bs | Not_contiguous \<Rightarrow> False)"

lemma contiguous_spec:
  assumes "chain ps p as" and "unat l \<le> n" and "unat off < length (content ps as)"
    and "unat off + unat l \<le> length (content ps as)"
  shows "\<exists>c. pbuf_get_contiguous p (Some n) l off ps = Some c \<and>
    holds_slice c (take (unat l) (drop (unat off) (content ps as))) ps"
proof -
  obtain q k cs where h: "skip_loop p off ps = Some (q, k)" "skip_at ps as off q k cs"
    using skip_loop_spec [OF assms(1)] by blast
  from h(2) assms(3) obtain x ds where cs: "cs = x # ds" by (cases cs) (auto simp: skip_at_def)
  with h(2) obtain b where b: "q = Some x" "pbufs ps x = Some b" and k: "unat k < unat (len b)"
    and d: "drop (unat k) (content ps cs) = drop (unat off) (content ps as)" and c: "chain ps q cs"
    by (auto simp: skip_at_def length_seg split: option.splits)
  have p: "p \<noteq> None" using assms(1,3) by (cases as) auto
  have s: "drop (unat off) (content ps as) = drop (unat k) (seg ps x @ content ps ds)" using d by (simp add: cs)
  show ?thesis
  proof (cases "unat (len b) \<ge> unat k + unat l")
    case True
    have "get_bytes (payload b + unat k) (unat l) (bytes ps) = take (unat l) (drop (unat k) (seg ps x))"
      using True by (intro nth_equalityI) (auto simp: seg_def b(2) add.assoc)
    also have "\<dots> = take (unat l) (drop (unat off) (content ps as))"
      unfolding s using True k by (simp add: length_seg [OF b(2)])
    finally show ?thesis using True h(1) b p assms(2,4)
      by (intro exI [of _ "In_chain (payload b + unat k)"])
        (simp add: pbuf_get_contiguous_def pbuf_skip_const_def holds_slice_def)
  next
    case False
    have "copy_partial_loop q l k [] 0 ps = Some (l, take (unat l) (drop (unat off) (content ps as)))"
      using copy_partial_loop_spec [OF c, of 0 l k "[]"] assms(4) unat_u16_less [of l] unfolding d by simp
    with False h(1) b p assms(2) show ?thesis
      by (intro exI [of _ "In_buffer (take (unat l) (drop (unat off) (content ps as)))"])
        (simp add: pbuf_get_contiguous_def pbuf_skip_const_def pbuf_copy_partial_def holds_slice_def)
  qed
qed

section \<open>The endless loop\<close>

lemma copy_length_stuck:
  assumes "in_offset = len b" and "MQTT_VAR_HEADER_BUFFER_LEN \<le> unat idx"
  shows "copy_length b fh in_offset rem idx = 0"
proof -
  define c where "c = (let cpy_len = ucast (min (ucast (tot_len b - in_offset) :: u32) rem) :: u16;
         buffer_space = of_nat MQTT_VAR_HEADER_BUFFER_LEN - ucast fh :: u16
     in if buffer_space < cpy_len then buffer_space else cpy_len)"
  have e: "copy_length b fh in_offset rem idx = (if 0 < uint c then 0 else c)"
    using assms by (simp add: copy_length_def c_def Let_def)
  have "c = 0" if "\<not> 0 < uint c" using that uint_ge_0 [of c] by (simp add: not_less uint_0_iff [symmetric] order.antisym del: uint_0_iff)
  with e show ?thesis by (cases "0 < uint c") simp_all
qed

lemma upd_client_same [simp]: "upd_client (\<lambda>cl. cl) s = s"
  by (simp add: upd_client_def)

definition stuck :: "nat \<Rightarrow> 'm pst \<Rightarrow> u16 \<Rightarrow> u32 \<Rightarrow> u8 \<Rightarrow> u8 \<Rightarrow> 't mst \<Rightarrow> bool" where
  "stuck a ps in_offset rem fh lb s \<longleftrightarrow> (\<exists>b as. pbufs ps a = Some b \<and> chain ps (Some a) (a # as) \<and> len b < tot_len b \<and>
     unat (len b) < length (content ps (a # as)) \<and> in_offset = len b) \<and> 128 \<le> unat (msg_idx (client s)) \<and> 2 \<le> fh \<and> unat fh \<le> 127 \<and>
     lb AND 0x80 = 0 \<and> rem \<noteq> 0 \<and> MQTT_CTL_PACKET_TYPE (rx_buffer (client s) ! 0) = MSG_PUBLISH"

lemma stuck_message:
  assumes "stuck a ps off rem fh lb s"
  shows "mqtt_message_received e fh 0 rem vh s = Some (STATUS_ACCEPTED, s)"
proof -
  have m: "128 \<le> unat (msg_idx (client s))" "unat fh \<le> 127" "rem \<noteq> 0"
    "MQTT_CTL_PACKET_TYPE (rx_buffer (client s) ! 0) = MSG_PUBLISH" using assms by (simp_all add: stuck_def)
  have "msg_idx (client s) \<noteq> of_nat (unat fh)"
  proof
    assume "msg_idx (client s) = of_nat (unat fh)"
    then have "unat (msg_idx (client s)) = unat fh" using m(2) by (simp add: unsigned_ucast_eq take_bit_nat_eq_self)
    with m(1,2) show False by simp
  qed
  with m show ?thesis
    by (simp add: mqtt_message_received_def message_publish_def MQTT_VAR_HEADER_BUFFER_LEN_def
      MSG_PUBLISH_def MSG_CONNACK_def MSG_PINGRESP_def)
qed

lemma stuck_step:
  assumes "stuck a ps off rem fh lb s" and "pbufs ps a = Some b"
  shows "tot_len b > off" and "\<not> (fh < 2 \<or> lb AND 0x80 \<noteq> 0)" and "copy_length b fh off rem (msg_idx (client s)) = 0"
    and "\<exists>c. pbuf_get_contiguous (Some a) (Some n) 0 off ps = Some c \<and> var_header c fh 0 ps s = (Some [], s)"
proof -
  obtain as where c: "chain ps (Some a) (a # as)" "len b < tot_len b" "unat (len b) < length (content ps (a # as))" "off = len b"
    using assms by (auto simp: stuck_def)
  show "tot_len b > off" using c by simp
  show "\<not> (fh < 2 \<or> lb AND 0x80 \<noteq> 0)" using assms(1) by (simp add: stuck_def not_less)
  show "copy_length b fh off rem (msg_idx (client s)) = 0"
    using assms(1) c(4) by (intro copy_length_stuck) (simp_all add: stuck_def MQTT_VAR_HEADER_BUFFER_LEN_def)
  obtain r where r: "pbuf_get_contiguous (Some a) (Some n) 0 off ps = Some r" "holds_slice r [] ps"
    using contiguous_spec [OF c(1), of 0 n off] c by auto
  have "var_header r fh 0 ps s = (Some [], s)"
    using r(2) by (auto simp: holds_slice_def var_header_def get_bytes_def upd_client_def split: contiguous.splits)
  with r(1) show "\<exists>c. pbuf_get_contiguous (Some a) (Some n) 0 off ps = Some c \<and> var_header c fh 0 ps s = (Some [], s)"
    by blast
qed

lemma stuck_stays:
  assumes "stuck a ps off rem fh lb s"
  shows "parse_step e (Some a) ps off rem fh lb s = Some (Going off rem fh lb s)"
proof -
  from assms obtain b where b: "pbufs ps a = Some b" by (auto simp: stuck_def)
  have rem: "rem \<noteq> 0" using assms by (simp add: stuck_def)
  obtain c where c: "pbuf_get_contiguous (Some a) (Some (unat (of_nat MQTT_VAR_HEADER_BUFFER_LEN - ucast fh :: u16))) 0 off ps = Some c"
    "var_header c fh 0 ps s = (Some [], s)"
    using stuck_step(4) [OF assms b] by blast
  have "\<not> tot_len b \<le> off" using stuck_step(1) [OF assms b] by simp
  then show ?thesis
    by (simp add: parse_step_def Let_def b c stuck_message [OF assms] rem stuck_step(2,3) [OF assms b])
qed

section \<open>Reading the fixed header\<close>

definition rx_stored :: "u8 \<Rightarrow> 't mst \<Rightarrow> 't mst" where
  "rx_stored b = upd_client (\<lambda>cl. cl\<lparr>rx_buffer := (rx_buffer cl)[unat (msg_idx cl) := b], msg_idx := msg_idx cl + 1\<rparr>)"

lemma rx_stored_fields: "msg_idx (client (rx_stored b s)) = msg_idx (client s) + 1"
  "rx_buffer (client (rx_stored b s)) = (rx_buffer (client s))[unat (msg_idx (client s)) := b]" "events (rx_stored b s) = events s"
  by (simp_all add: rx_stored_def upd_client_def)

lemma header_byte_spec:
  assumes "chain ps p as" and "unat off < length (content ps as)" and "msg_idx (client s) = of_nat k" and "k < 128"
    and "length (rx_buffer (client s)) = 128"
  shows "header_byte p ps (of_nat k) off s = Some (content ps as ! unat off, off + 1, rx_stored (content ps as ! unat off) s)"
  using assms get_at_spec [OF assms(1), of off]
  by (simp add: header_byte_def rx_store_def rx_stored_def upd_client_def unsigned_of_nat take_bit_nat_eq_self)

lemma follow_chain: "chain ps p (a # as) \<Longrightarrow> tot_ok ps (a # as) \<Longrightarrow>
    \<exists>b. follow p ps = Some (a, b) \<and> pbufs ps a = Some b \<and> unat (tot_len b) = length (content ps (a # as))"
  by (auto simp: follow_def split: option.splits)

section \<open>A header without end\<close>

lemma header_run:
  assumes "chain ps p (a # as)" and "tot_ok ps (a # as)" and "128 < length (content ps (a # as))"
    and "\<forall>i. 1 \<le> i \<and> i \<le> 128 \<longrightarrow> content ps (a # as) ! i AND 0x80 \<noteq> 0"
    and "msg_idx (client s) = 0" and "length (rx_buffer (client s)) = 128" and "k \<le> 128"
  shows "\<exists>rem b s'. parse_run e p ps k (Going 0 0 0 0 s) = Some (Going (of_nat k) rem (of_nat k) b s') \<and>
    msg_idx (client s') = of_nat k \<and> length (rx_buffer (client s')) = 128 \<and>
    take k (rx_buffer (client s')) = take k (content ps (a # as)) \<and> (k < 2 \<or> b AND 0x80 \<noteq> 0)"
  using assms(7)
proof (induction k)
  case 0
  show ?case using assms(5,6) by (intro exI [of _ 0] exI [of _ s]) auto
next
  case (Suc k)
  let ?c = "content ps (a # as)"
  from Suc obtain rem b s' where i: "parse_run e p ps k (Going 0 0 0 0 s) = Some (Going (of_nat k) rem (of_nat k) b s')"
    "msg_idx (client s') = of_nat k" "length (rx_buffer (client s')) = 128"
    "take k (rx_buffer (client s')) = take k ?c" "k < 2 \<or> b AND 0x80 \<noteq> 0"
    by auto
  obtain pb where pb: "follow p ps = Some (a, pb)" "unat (tot_len pb) = length ?c" using follow_chain [OF assms(1,2)] by blast
  have u: "unat (of_nat k :: u16) = k" "unat (of_nat k :: u8) = k" "unat (of_nat k :: u32) = k"
    using Suc.prems by (simp_all add: unat_of_nat)
  have "\<not> tot_len pb \<le> of_nat k" using pb(2) u Suc.prems assms(3) by (simp add: word_le_nat_alt)
  moreover have "(of_nat k :: u8) < 2 \<longleftrightarrow> k < 2" using u(2) by (simp add: word_less_nat_alt)
  moreover have "2 \<le> (of_nat k + 1 :: u8) \<longleftrightarrow> 1 \<le> k"
  proof -
    have "unat (of_nat k + 1 :: u8) = k + 1" using Suc.prems by (simp add: unat_word_ariths unat_of_nat)
    then show ?thesis by (simp only: word_le_nat_alt) simp
  qed
  moreover have "header_byte p ps (of_nat k) (of_nat k) s' = Some (?c ! k, of_nat k + 1, rx_stored (?c ! k) s')"
    using header_byte_spec [OF assms(1) _ i(2) _ i(3), of "of_nat k"] u Suc.prems assms(3) by simp
  moreover have "?c ! k AND 0x80 \<noteq> 0" if "1 \<le> k" using assms(4) that Suc.prems by simp
  ultimately have "parse_step e p ps (of_nat k) rem (of_nat k) b s' = Some (Going (of_nat (Suc k))
      (if 1 \<le> k then rem OR push_bit ((unat (of_nat k + 1 :: u8) - 2) * 7) (ucast (?c ! k AND 0x7F)) else rem)
      (of_nat (Suc k)) (?c ! k) (rx_stored (?c ! k) s'))"
    using pb(1) i(5) by (auto simp: parse_step_def Let_def ac_simps)
  note st = parse_run_trans [OF i(1) parse_run_1 [OF this], unfolded Suc_eq_plus1 [symmetric]]
  have b: "Suc k < 2 \<or> ?c ! k AND 0x80 \<noteq> 0" using assms(4) Suc.prems by (cases k) auto
  have s: "msg_idx (client (rx_stored (?c ! k) s')) = of_nat (Suc k)" "length (rx_buffer (client (rx_stored (?c ! k) s'))) = 128"
    using i(2,3) by (simp_all add: rx_stored_fields)
  have "take (Suc k) ((rx_buffer (client s'))[k := ?c ! k]) = take (Suc k) ?c"
    using i(3,4) Suc.prems assms(3) by (simp add: take_Suc_conv_app_nth del: content_simps)
  then have "take (Suc k) (rx_buffer (client (rx_stored (?c ! k) s'))) = take (Suc k) ?c"
    by (simp add: rx_stored_fields i(2) u(3))
  with st s b show ?case by blast
qed

lemma header_full:
  assumes "chain ps p (a # as)" and "tot_ok ps (a # as)" and "128 < length (content ps (a # as))"
    and "msg_idx (client s) = 128" and "length (rx_buffer (client s)) = 128" and "b AND 0x80 \<noteq> 0"
  shows "pbuf_get_at p 128 ps = Some (content ps (a # as) ! 128)" and "rx_store x s = None"
    and "parse_step e p ps 128 rem 128 b s = None"
proof -
  show g: "pbuf_get_at p 128 ps = Some (content ps (a # as) ! 128)"
    using get_at_spec [OF assms(1), of 128] assms(3) by (simp del: content_simps)
  show r: "rx_store x s = None" for x using assms(4,5) by (simp add: rx_store_def)
  obtain pb where pb: "follow p ps = Some (a, pb)" "unat (tot_len pb) = length (content ps (a # as))"
    using follow_chain [OF assms(1,2)] by blast
  have "\<not> tot_len pb \<le> 128" using pb(2) assms(3) by (simp add: word_le_nat_alt)
  then show "parse_step e p ps 128 rem 128 b s = None"
    using pb(1) assms(4,6) by (simp add: parse_step_def header_byte_def g r)
qed

section \<open>Published messages\<close>

lemma control_publish: "MQTT_CTL_PACKET_TYPE (control_byte MSG_PUBLISH 0 0 r) = MSG_PUBLISH"
  "MQTT_CTL_PACKET_QOS (control_byte MSG_PUBLISH 0 0 r) = 0"
proof -
  have "r AND 1 = 0 \<or> r AND 1 = 1" by (simp add: and_one_eq mod_2_eq_odd)
  then show "MQTT_CTL_PACKET_TYPE (control_byte MSG_PUBLISH 0 0 r) = MSG_PUBLISH"
    "MQTT_CTL_PACKET_QOS (control_byte MSG_PUBLISH 0 0 r) = 0"
    by (auto simp: control_byte_def MQTT_CTL_PACKET_TYPE_def MQTT_CTL_PACKET_QOS_def MSG_PUBLISH_def)
qed

definition listening :: "'t mst \<Rightarrow> bool" where
  "listening s \<longleftrightarrow> pub_cb (client s) \<and> data_cb (client s) \<and> msg_idx (client s) = 0 \<and> length (rx_buffer (client s)) = 128"

definition delivered :: "u8 list \<Rightarrow> u8 list \<Rightarrow> mqtt_note list" where
  "delivered topic pay = [Incoming_publish topic (of_nat (length pay)), Incoming_data pay True]"

lemma topic_length: "n < 65536 \<Longrightarrow> unat (hi8 (of_nat n)) * 256 + unat (lo8 (of_nat n)) = n"
  using unat_u16_of [of "lo8 (of_nat n)" "hi8 (of_nat n)"] by (simp add: unat_of_nat)

lemma publish_received:
  assumes "length topic + length pay \<le> 123" and "n = 2 + length topic + length pay"
    and "msg_idx (client s) = of_nat (2 + n)" and "rx_buffer (client s) ! 0 = control_byte MSG_PUBLISH 0 0 r"
    and "pub_cb (client s)" and "data_cb (client s)"
  shows "mqtt_message_received e 2 (of_nat n) 0 (Some (publish_body 0 topic i pay)) s =
    Some (STATUS_ACCEPTED, (upd_client (\<lambda>cl. cl\<lparr>inpub_pkt_id := 0\<rparr>) s)\<lparr>events := events s @ delivered topic pay\<rparr>)"
proof -
  let ?b = "publish_body 0 topic i pay"
  have l: "length ?b = n" using assms(2) by (simp add: publish_body_def string_bytes_def u16_bytes_def)
  have b: "?b = hi8 (of_nat (length topic)) # lo8 (of_nat (length topic)) # topic @ pay"
    by (simp add: publish_body_def string_bytes_def u16_bytes_def)
  have t: "unat (hi8 (of_nat (length topic))) * 256 + unat (lo8 (of_nat (length topic))) = length topic"
    using assms(1) by (intro topic_length) simp
  have r: "read_at (Some ?b) 0 = Some (hi8 (of_nat (length topic)))" "read_at (Some ?b) 1 = Some (lo8 (of_nat (length topic)))"
    by (simp_all add: read_at_def b)
  have h: "publish_head 2 n 0 (Some ?b) 0 s = Some (Some (2 + length topic, length pay),
      (upd_client (\<lambda>cl. cl\<lparr>inpub_pkt_id := 0\<rparr>) s)\<lparr>events := events s @ [Incoming_publish topic (of_nat (length pay))]\<rparr>)"
    using assms(1,2,5) r t by (simp add: publish_head_def MQTT_VAR_HEADER_BUFFER_LEN_def Let_def b notify_def upd_client_def)
  have "message_publish e 2 n 0 (Some ?b) s = Some (STATUS_ACCEPTED,
      (upd_client (\<lambda>cl. cl\<lparr>inpub_pkt_id := 0\<rparr>) s)\<lparr>events := events s @ delivered topic pay\<rparr>)"
    using assms(3,4,6) h control_publish assms(2)
    by (simp add: message_publish_def delivered_def notify_def upd_client_def b)
  moreover have "n < 65536" using assms(1,2) by simp
  then have "unat (of_nat n :: u16) = n" by (simp only: unat_of_nat) simp
  ultimately show ?thesis
    using assms(1,2,4) control_publish(1) [of r]
    by (simp add: mqtt_message_received_def MQTT_VAR_HEADER_BUFFER_LEN_def MSG_PUBLISH_def MSG_CONNACK_def MSG_PINGRESP_def Let_def)
qed

lemma packet_bytes:
  assumes "length topic + length pay \<le> 123" and "n = 2 + length topic + length pay"
  shows "publish_packet 0 r topic i pay = control_byte MSG_PUBLISH 0 0 r # of_nat n # publish_body 0 topic i pay"
    and "length (publish_body 0 topic i pay) = n"
proof -
  show l: "length (publish_body 0 topic i pay) = n" using assms(2) by (simp add: publish_body_def string_bytes_def u16_bytes_def)
  have "remlen n = [of_nat n]" using assms by (subst remlen.simps) simp
  then show "publish_packet 0 r topic i pay = control_byte MSG_PUBLISH 0 0 r # of_nat n # publish_body 0 topic i pay"
    by (simp add: publish_packet_def fixed_header_def l)
qed

lemma low_byte:
  assumes "n \<le> 127"
  shows "(of_nat n :: u8) AND 0x80 = 0" and "(of_nat n :: u8) AND 0x7F = of_nat n"
proof -
  have "unat (of_nat n :: u8) < 128" using assms by (simp add: unat_of_nat)
  then have "take_bit 7 (of_nat n :: u8) = of_nat n"
    by (simp add: word_unat_eq_iff unsigned_take_bit_eq take_bit_nat_eq_self)
  moreover have "(0x7F :: u8) = mask 7" by (simp add: mask_eq_exp_minus_1)
  ultimately show a: "(of_nat n :: u8) AND 0x7F = of_nat n" by (simp only: take_bit_eq_mask)
  have "((of_nat n :: u8) AND 0x7F) AND 0x80 = 0" by (simp only: and.assoc) simp
  then show "(of_nat n :: u8) AND 0x80 = 0" unfolding a .
qed

text \<open>One message at offset \<open>off\<close> of the chain, up to the state in which the next one is read.\<close>

lemma parse_header:
  assumes "chain ps p (a # as)" and "tot_ok ps (a # as)" and "listening s"
    and "drop (unat off) (content ps (a # as)) = c0 # of_nat n # body @ rest" and "length body = n" and "2 \<le> n" and "n \<le> 125"
  shows "parse_loop e p ps off 0 0 b s = parse_loop e p ps (off + 2) (of_nat n) 2 (of_nat n) (rx_stored (of_nat n) (rx_stored c0 s))"
proof -
  let ?c = "content ps (a # as)"
  obtain pb where pb: "follow p ps = Some (a, pb)" "unat (tot_len pb) = length ?c" using follow_chain [OF assms(1,2)] by blast
  have s: "msg_idx (client s) = 0" "length (rx_buffer (client s)) = 128" using assms(3) by (simp_all add: listening_def)
  have l: "unat off + (2 + n) \<le> length ?c"
    using arg_cong [OF assms(4), of length] assms(5) by simp
  have c0: "?c ! unat off = c0" and c1: "?c ! Suc (unat off) = of_nat n"
    using arg_cong [OF assms(4), of "\<lambda>xs. xs ! 0"] arg_cong [OF assms(4), of "\<lambda>xs. xs ! 1"] l
    by (simp_all del: content_simps)
  have u1: "unat (off + 1) = Suc (unat off)"
    using l pb(2) unat_u16_less [of "tot_len pb"] assms(6) by (simp add: unat_word_ariths)
  have h1: "header_byte p ps 0 off s = Some (c0, off + 1, rx_stored c0 s)"
    using header_byte_spec [OF assms(1) _ _ _ s(2), of off 0] l assms(6) s(1) c0 by simp
  have h2: "header_byte p ps 1 (off + 1) (rx_stored c0 s) = Some (of_nat n, off + 1 + 1, rx_stored (of_nat n) (rx_stored c0 s))"
    using header_byte_spec [OF assms(1), of "off + 1" "rx_stored c0 s" 1] l assms(6) s c1 u1 by (simp add: rx_stored_fields)
  have t: "\<not> tot_len pb \<le> off" "\<not> tot_len pb \<le> off + 1"
    using pb(2) l assms(6) u1 by (simp_all add: word_le_nat_alt)
  have nb: "(of_nat n :: u8) AND 0x80 = 0" "(of_nat n :: u8) AND 0x7F = of_nat n" using low_byte [of n] assms(7) by simp_all
  have un: "unat (of_nat n :: u8) = n" using assms(7) by (simp add: unat_of_nat)
  then have nz: "ucast (of_nat n :: u8) = (of_nat n :: u32)"
    using assms(7) by (simp add: word_unat_eq_iff unsigned_ucast_eq take_bit_nat_eq_self unat_of_nat)
  have n0: "(of_nat n :: u32) \<noteq> 0" using assms(6,7) by (simp add: word_unat_eq_iff unat_of_nat)
  have two: "\<not> (2 :: u8) \<le> 1" by (simp add: word_le_nat_alt)
  have "parse_loop e p ps off 0 0 b s = parse_loop e p ps (off + 1) 0 1 c0 (rx_stored c0 s)"
    using pb(1) t(1) h1 two by (subst parse_loop.simps) (simp add: parse_step_def Let_def)
  also have "\<dots> = parse_loop e p ps (off + 1 + 1) (of_nat n + 2 - msg_idx (client (rx_stored (of_nat n) (rx_stored c0 s)))) 2 (of_nat n)
      (rx_stored (of_nat n) (rx_stored c0 s))"
    using pb(1) t(2) h2 nb nz n0 by (subst parse_loop.simps) (simp add: parse_step_def Let_def)
  also have "msg_idx (client (rx_stored (of_nat n) (rx_stored c0 s))) = 2" by (simp add: rx_stored_fields s(1))
  finally show ?thesis by (simp add: add.assoc)
qed

lemma copy_length_body:
  assumes "unat off + n \<le> unat (tot_len b)" and "n \<le> 125" and "unat idx < 128"
  shows "copy_length b 2 off (of_nat n) idx = of_nat n"
proof -
  have "unat (tot_len b - off) = unat (tot_len b) - unat off" using assms(1) by (intro unat_sub) (simp add: word_le_nat_alt)
  then have "unat (ucast (tot_len b - off) :: u32) = unat (tot_len b) - unat off"
    using unat_u16_less [of "tot_len b"] by (simp add: unsigned_ucast_eq take_bit_nat_eq_self)
  then have "min (ucast (tot_len b - off) :: u32) (of_nat n) = of_nat n"
    using assms(1,2) by (intro min_absorb2) (simp add: word_le_nat_alt unat_of_nat)
  moreover have "ucast (of_nat n :: u32) = (of_nat n :: u16)"
    using assms(2) by (simp add: word_unat_eq_iff unsigned_ucast_eq take_bit_nat_eq_self unat_of_nat)
  moreover have "\<not> (126 :: u16) < of_nat n" using assms(2) by (simp add: word_less_nat_alt unat_of_nat)
  ultimately show ?thesis using assms(3) by (simp add: copy_length_def MQTT_VAR_HEADER_BUFFER_LEN_def Let_def)
qed

text \<open>What the parser has of a message when it hands a piece on: only \<open>rx_buffer\<close> behind the first byte and \<open>msg_idx\<close> change.\<close>

definition piece_taken :: "nat \<Rightarrow> 't mst \<Rightarrow> 't mst \<Rightarrow> bool" where
  "piece_taken k s s' \<longleftrightarrow> msg_idx (client s') = msg_idx (client s) + of_nat k \<and> length (rx_buffer (client s')) = 128 \<and>
     rx_buffer (client s') ! 0 = rx_buffer (client s) ! 0 \<and> pub_cb (client s') = pub_cb (client s) \<and>
     data_cb (client s') = data_cb (client s) \<and> events s' = events s"

lemma data_step:
  assumes "chain ps p (a # as)" and "tot_ok ps (a # as)" and "pbufs ps a = Some pb" and "unat off + k \<le> length (content ps (a # as))"
    and "0 < k" and "k + unat fh \<le> 128" and "2 \<le> fh" and "lb AND 0x80 = 0" and "length (rx_buffer (client s)) = 128"
    and "copy_length pb fh off rem (msg_idx (client s)) = of_nat k" and "bs = take k (drop (unat off) (content ps (a # as)))"
  shows "\<exists>s'. piece_taken k s s' \<and> parse_step e p ps off rem fh lb s =
    do { (res, s) \<leftarrow> mqtt_message_received e fh (of_nat k) (rem - of_nat k) (Some bs) s';
         if res \<noteq> STATUS_ACCEPTED then Some (Returned res s)
         else if rem - of_nat k = 0 then Some (Going (off + of_nat k) (rem - of_nat k) 0 lb (upd_client (\<lambda>cl. cl\<lparr>msg_idx := 0\<rparr>) s))
         else Some (Going (off + of_nat k) (rem - of_nat k) fh lb s) }"
proof -
  let ?C = "content ps (a # as)"
  have pb: "follow p ps = Some (a, pb)" "unat (tot_len pb) = length ?C" using follow_chain [OF assms(1,2)] assms(3) by (auto simp del: content_simps)
  have uk: "unat (of_nat k :: u16) = k" using assms(6) by (simp add: unat_of_nat)
  have uc: "ucast (of_nat k :: u16) = (of_nat k :: u32)"
    using assms(6) by (simp add: word_unat_eq_iff unsigned_ucast_eq take_bit_nat_eq_self unat_of_nat)
  have k: "k \<le> 128 - unat fh" using assms(6) by simp
  have f2: "2 \<le> unat fh" using assms(7) by (simp add: word_le_nat_alt)
  have "unat (ucast fh :: u16) = unat fh" using unat_u8_less [of fh] by (simp add: unsigned_ucast_eq take_bit_nat_eq_self)
  then have sp: "unat (of_nat MQTT_VAR_HEADER_BUFFER_LEN - ucast fh :: u16) = 128 - unat fh"
    using assms(6) by (simp add: MQTT_VAR_HEADER_BUFFER_LEN_def unat_sub_if')
  have lb: "length bs = k" unfolding assms(11) using assms(4) by (simp del: content_simps)
  obtain c where c: "pbuf_get_contiguous p (Some (128 - unat fh)) (of_nat k) off ps = Some c" "holds_slice c bs ps"
    using contiguous_spec [OF assms(1), of "of_nat k" "128 - unat fh" off] uk k assms(4,5,11) by (auto simp del: content_simps)
  obtain s1 where s1: "var_header c fh (of_nat k) ps s = (Some bs, s1)" "msg_idx (client s1) = msg_idx (client s)"
    "length (rx_buffer (client s1)) = 128" "rx_buffer (client s1) ! 0 = rx_buffer (client s) ! 0" "pub_cb (client s1) = pub_cb (client s)"
    "data_cb (client s1) = data_cb (client s)" "events s1 = events s"
    using c(2) uk lb assms(6,9) f2 by (cases c) (auto simp: holds_slice_def var_header_def upd_client_def nth_append)
  define s2 where "s2 = upd_client (\<lambda>cl. cl\<lparr>msg_idx := msg_idx cl + of_nat k\<rparr>) s1"
  have "piece_taken k s s2" using s1 by (simp add: s2_def piece_taken_def upd_client_def)
  moreover have "\<not> tot_len pb \<le> off" using pb(2) assms(4,5) by (simp add: word_le_nat_alt del: content_simps)
  moreover have "\<not> (fh < 2 \<or> lb AND 0x80 \<noteq> 0)" using assms(7,8) by (simp add: not_less)
  ultimately show ?thesis using pb(1) c(1) s1(1) assms(10)
    by (intro exI [of _ s2]) (simp add: parse_step_def Let_def sp uc s2_def [symmetric], simp only: uc)
qed

lemma parse_message:
  assumes "chain ps p (a # as)" and "tot_ok ps (a # as)" and "listening s" and "length topic + length pay \<le> 123"
    and "drop (unat off) (content ps (a # as)) = publish_packet 0 r topic i pay @ rest"
  shows "\<exists>b' s'. parse_loop e p ps off 0 0 b s = parse_loop e p ps (off + of_nat (length (publish_packet 0 r topic i pay))) 0 0 b' s' \<and>
    listening s' \<and> events s' = events s @ delivered topic pay"
proof -
  let ?C = "content ps (a # as)" and ?body = "publish_body 0 topic i pay" and ?CB = "control_byte MSG_PUBLISH 0 0 r"
  define n where "n = 2 + length topic + length pay"
  note pk = packet_bytes [OF assms(4) n_def]
  have n: "2 \<le> n" "n \<le> 125" using assms(4) by (simp_all add: n_def)
  have dr: "drop (unat off) ?C = ?CB # of_nat n # ?body @ rest" using assms(5) pk(1) by simp
  define s1 where "s1 = rx_stored (of_nat n) (rx_stored ?CB s)"
  have h: "parse_loop e p ps off 0 0 b s = parse_loop e p ps (off + 2) (of_nat n) 2 (of_nat n) s1"
    unfolding s1_def by (rule parse_header [OF assms(1-3) dr pk(2) n])
  obtain pb where pb: "pbufs ps a = Some pb" "unat (tot_len pb) = length ?C" using follow_chain [OF assms(1,2)] by blast
  have l: "unat off + (2 + n) \<le> length ?C" using arg_cong [OF dr, of length] pk(2) by (simp del: content_simps)
  have u2: "unat (off + 2) = unat off + 2"
    using l pb(2) unat_u16_less [of "tot_len pb"] n by (simp add: unat_word_ariths del: content_simps)
  have s1: "msg_idx (client s1) = 2" "length (rx_buffer (client s1)) = 128" "rx_buffer (client s1) ! 0 = ?CB"
    "pub_cb (client s1)" "data_cb (client s1)" "events s1 = events s"
    using assms(3) by (simp_all add: s1_def rx_stored_fields listening_def) (simp_all add: rx_stored_def upd_client_def)
  have "drop (unat (off + 2)) ?C = drop 2 (drop (unat off) ?C)" by (simp only: u2 drop_drop add.commute)
  then have body: "?body = take n (drop (unat (off + 2)) ?C)" unfolding dr using pk(2) [of i] by simp
  have nb: "(of_nat n :: u8) AND 0x80 = 0" using low_byte(1) [of n] n by simp
  have cl: "copy_length pb 2 (off + 2) (of_nat n) (msg_idx (client s1)) = of_nat n"
    using pb(2) l u2 n s1(1) by (intro copy_length_body) (simp_all del: content_simps)
  obtain s2 where s2: "piece_taken n s1 s2" and st: "parse_step e p ps (off + 2) (of_nat n) 2 (of_nat n) s1 =
    do { (res, s) \<leftarrow> mqtt_message_received e 2 (of_nat n) 0 (Some ?body) s2;
         if res \<noteq> STATUS_ACCEPTED then Some (Returned res s)
         else Some (Going (off + 2 + of_nat n) 0 0 (of_nat n) (upd_client (\<lambda>cl. cl\<lparr>msg_idx := 0\<rparr>) s)) }"
    using data_step [OF assms(1,2) pb(1) _ _ _ _ nb s1(2) cl body, of e] l u2 n by (auto simp del: content_simps cong: if_cong)
  have s3: "msg_idx (client s2) = of_nat (2 + n)" "rx_buffer (client s2) ! 0 = ?CB" "pub_cb (client s2)" "data_cb (client s2)"
    using s2 s1 by (simp_all add: piece_taken_def)
  let ?s' = "upd_client (\<lambda>cl. cl\<lparr>msg_idx := 0\<rparr>)
    ((upd_client (\<lambda>cl. cl\<lparr>inpub_pkt_id := 0\<rparr>) s2)\<lparr>events := events s2 @ delivered topic pay\<rparr>)"
  have "parse_loop e p ps (off + 2) (of_nat n) 2 (of_nat n) s1 = parse_loop e p ps (off + 2 + of_nat n) 0 0 (of_nat n) ?s'"
    using publish_received [OF assms(4) n_def s3, of e i] st by (subst parse_loop.simps) simp
  moreover have "off + 2 + of_nat n = off + of_nat (length (publish_packet 0 r topic i pay))"
    by (simp add: pk(1) pk(2) ac_simps)
  moreover have "listening ?s'" "events ?s' = events s @ delivered topic pay"
    using s2 s1 by (simp_all add: listening_def upd_client_def piece_taken_def)
  ultimately show ?thesis using h by metis
qed

text \<open>Messages of QoS 0 as the sender's retain flag, topic and payload.\<close>

type_synonym message = "u8 \<times> u8 list \<times> u8 list"

fun packet :: "message \<Rightarrow> u8 list" where
  "packet (r, topic, pay) = publish_packet 0 r topic 0 pay"

fun small :: "message \<Rightarrow> bool" where
  "small (r, topic, pay) \<longleftrightarrow> length topic + length pay \<le> 123"

fun announced :: "message \<Rightarrow> mqtt_note list" where
  "announced (r, topic, pay) = delivered topic pay"

lemma parse_end:
  assumes "chain ps p (a # as)" and "tot_ok ps (a # as)" and "length (content ps (a # as)) \<le> unat off"
  shows "parse_loop e p ps off 0 0 b s = Some (STATUS_ACCEPTED, s)"
  using follow_chain [OF assms(1,2)] assms(3) by (subst parse_loop.simps) (auto simp: parse_step_def word_le_nat_alt)

lemma parse_messages:
  assumes "chain ps p (a # as)" and "tot_ok ps (a # as)" and "list_all small ms" and "listening s"
    and "drop (unat off) (content ps (a # as)) = concat (map packet ms)" and "unat off \<le> length (content ps (a # as))"
  shows "\<exists>s'. parse_loop e p ps off 0 0 b s = Some (STATUS_ACCEPTED, s') \<and> listening s' \<and>
    events s' = events s @ concat (map announced ms)"
  using assms(3-6)
proof (induction ms arbitrary: off b s)
  case Nil
  with parse_end [OF assms(1,2), of off e b s] show ?case by auto
next
  case (Cons m ms)
  obtain r topic pay where m: "m = (r, topic, pay)" by (cases m)
  let ?C = "content ps (a # as)" and ?pk = "publish_packet 0 r topic 0 pay"
  have d: "drop (unat off) ?C = ?pk @ concat (map packet ms)" using Cons.prems(3) by (simp add: m)
  have sm: "length topic + length pay \<le> 123" using Cons.prems(1) by (simp add: m)
  obtain b' s' where h: "parse_loop e p ps off 0 0 b s = parse_loop e p ps (off + of_nat (length ?pk)) 0 0 b' s'"
    "listening s'" "events s' = events s @ delivered topic pay"
    using parse_message [OF assms(1,2) Cons.prems(2) sm d] by blast
  obtain pb :: pbuf where pb: "unat (tot_len pb) = length ?C" using follow_chain [OF assms(1,2)] by blast
  have l: "unat off + length ?pk \<le> length ?C"
    using arg_cong [OF d, of length] Cons.prems(4) by (simp del: content_simps)
  then have lp: "length ?pk < 65536" using pb unat_u16_less [of "tot_len pb"] by linarith
  have "unat (of_nat (length ?pk) :: u16) = length ?pk" using lp by (simp only: unat_of_nat) simp
  then have u: "unat (off + of_nat (length ?pk)) = unat off + length ?pk"
    using l pb unat_u16_less [of "tot_len pb"] by (simp add: unat_word_ariths(1) del: content_simps)
  have "drop (unat (off + of_nat (length ?pk))) ?C = drop (length ?pk) (drop (unat off) ?C)"
    by (simp only: u drop_drop add.commute)
  then have "drop (unat (off + of_nat (length ?pk))) ?C = concat (map packet ms)" unfolding d by simp
  from Cons.IH [OF _ h(2) this] Cons.prems(1) l u h(1,3) show ?case by (auto simp: m)
qed

end
