(* ===== verification/Mqtt_Hang.thy ===== *)
theory Mqtt_Hang
  imports Mqtt_Parse
begin

text \<open>
  Long messages in chains: once 128 bytes of a PUBLISH are through, the parser takes the rest from the first pbuf only,
  and when that is used up it takes nothing, again and again: an iteration (\<open>parse_step\<close>) returns the state it started from.
\<close>

unbundle bit_operations_syntax

section \<open>The header of a long message\<close>

lemma remlen2: "128 \<le> n \<Longrightarrow> n < 16384 \<Longrightarrow> remlen n = [of_nat (n mod 128 + 128), of_nat (n div 128)]"
  by (subst remlen.simps, subst remlen.simps) (simp add: div_less_iff_less_mult)

lemma seven_bits: "m < 128 \<Longrightarrow> (of_nat (m + 128) :: u8) AND 0x80 \<noteq> 0 \<and> (of_nat (m + 128) :: u8) AND 0x7F = of_nat m"
proof -
  assume m: "m < 128"
  have "\<not> bit (of_nat m :: u8) i \<or> \<not> bit (0x80 :: u8) i" for i
  proof -
    have "(of_nat m :: u8) AND 0x80 = 0" using low_byte(1) [of m] m by simp
    then have "\<not> bit ((of_nat m :: u8) AND 0x80) i" by simp
    then show ?thesis unfolding bit_and_iff by blast
  qed
  then have "(of_nat m :: u8) OR 0x80 = of_nat m + 0x80" by (intro disjunctive_add [symmetric]) blast
  then have o: "of_nat (m + 128) = (of_nat m :: u8) OR 0x80" by simp
  have a: "(of_nat m OR 0x80 :: u8) AND 0x80 = (of_nat m AND 0x80) OR (0x80 AND 0x80)" by (simp only: bit.conj_disj_distrib2)
  have b: "(of_nat m OR 0x80 :: u8) AND 0x7F = (of_nat m AND 0x7F) OR (0x80 AND 0x7F)" by (simp only: bit.conj_disj_distrib2)
  show ?thesis unfolding o a b using low_byte [of m] m by simp
qed

lemma remlen_join: "n < 16384 \<Longrightarrow> (of_nat (n mod 128) OR push_bit 7 (of_nat (n div 128)) :: u32) = of_nat n"
proof -
  have "(of_nat n :: u32) = of_nat (take_bit 7 n OR push_bit 7 (drop_bit 7 n))"
    by (metis bits_ident disjunctive_add add.commute bit_push_bit_iff bit_take_bit_iff not_le)
  also have "\<dots> = of_nat (take_bit 7 n) OR push_bit 7 (of_nat (drop_bit 7 n))" by (simp add: of_nat_or_eq push_bit_of_nat)
  finally show ?thesis by (simp add: take_bit_eq_mod drop_bit_eq_div)
qed

section \<open>The rest of the first pbuf\<close>

definition draining :: "u16 \<Rightarrow> nat \<Rightarrow> u32 \<Rightarrow> 't mst \<Rightarrow> bool" where
  "draining off n rem s \<longleftrightarrow> 128 \<le> unat off \<and> msg_idx (client s) = of_nat (unat off) \<and> rem = of_nat (n + 3 - unat off) \<and>
     length (rx_buffer (client s)) = 128 \<and> MQTT_CTL_PACKET_TYPE (rx_buffer (client s) ! 0) = MSG_PUBLISH"

lemma copy_length_drain:
  assumes "k = min 125 (unat (len b) - unat off)" and "unat off < unat (len b)" and "unat (len b) < unat (tot_len b)"
    and "unat (len b) - unat off < m" and "m < 65536" and "128 \<le> unat idx"
  shows "copy_length b 3 off (of_nat m) idx = of_nat k"
proof -
  have "unat (tot_len b - off) = unat (tot_len b) - unat off" using assms(2,3) by (intro unat_sub) (simp add: word_le_nat_alt)
  then have "unat (ucast (tot_len b - off) :: u32) = unat (tot_len b) - unat off"
    using unat_u16_less [of "tot_len b"] by (simp add: unsigned_ucast_eq take_bit_nat_eq_self)
  then have m: "unat (min (ucast (tot_len b - off) :: u32) (of_nat m)) = min (unat (tot_len b) - unat off) m"
    using assms(5) by (auto simp: min_def word_le_nat_alt unat_of_nat)
  define c where "c = (ucast (min (ucast (tot_len b - off) :: u32) (of_nat m)) :: u16)"
  have c: "unat c = min (unat (tot_len b) - unat off) m"
    unfolding c_def using m assms(5) by (simp add: unsigned_ucast_eq take_bit_nat_eq_self min_less_iff_disj)
  define d where "d = (if 125 < c then 125 else c)"
  have d: "unat d = min 125 (min (unat (tot_len b) - unat off) m)" using c by (auto simp: d_def word_less_nat_alt)
  have l: "unat (len b - off) = unat (len b) - unat off" using assms(2) by (intro unat_sub) (simp add: word_le_nat_alt)
  have i: "uint (len b) - uint off < uint d \<longleftrightarrow> unat (len b) - unat off < unat d" using assms(2) by (simp only: uint_nat) arith
  have k: "unat (of_nat k :: u16) = k" using assms(1) by (simp add: unat_of_nat)
  have "(if uint (len b) - uint off < uint d then len b - off else d) = of_nat k"
  proof (cases "unat (len b) - unat off < unat d")
    case True
    then have "unat (len b - off) = k" unfolding l d assms(1) by linarith
    with True i k show ?thesis by (metis unsigned_word_eqI)
  next
    case False
    then have "unat d = k" unfolding d assms(1) using assms(3,4) by linarith
    with False i k show ?thesis by (metis unsigned_word_eqI)
  qed
  then show ?thesis using assms(6) by (simp add: copy_length_def MQTT_VAR_HEADER_BUFFER_LEN_def Let_def c_def [symmetric] d_def [symmetric] split: if_splits)
qed

lemma drain_message:
  assumes "128 \<le> off" and "off + k < 65536" and "0 < k" and "k \<le> 125" and "msg_idx (client s) = of_nat (off + k)" and "rem \<noteq> 0"
    and "MQTT_CTL_PACKET_TYPE (rx_buffer (client s) ! 0) = MSG_PUBLISH"
  shows "\<exists>s'. mqtt_message_received e 3 (of_nat k) rem (Some bs) s = Some (STATUS_ACCEPTED, s') \<and> client s' = client s"
proof -
  have k: "unat (of_nat k :: u16) = k" using assms(4) by (simp add: unat_of_nat)
  have "(of_nat (off + k) :: u32) \<noteq> of_nat (3 + k)"
  proof
    assume "(of_nat (off + k) :: u32) = of_nat (3 + k)"
    then have "unat (of_nat (off + k) :: u32) = unat (of_nat (3 + k) :: u32)" by simp
    then show False using assms(1,2,4) by (simp only: unat_of_nat) simp
  qed
  then show ?thesis using assms(3-7)
    by (simp add: mqtt_message_received_def message_publish_def MQTT_VAR_HEADER_BUFFER_LEN_def k notify_def
      MSG_PUBLISH_def MSG_CONNACK_def MSG_PINGRESP_def Let_def)
qed

lemma drain_step:
  assumes "chain ps (Some a) (a # as)" and "tot_ok ps (a # as)" and "pbufs ps a = Some b" and "unat (len b) < length (content ps (a # as))"
    and "unat (len b) < n + 3" and "n < 16384" and "lb AND 0x80 = 0" and "draining off n rem s" and "unat off < unat (len b)"
    and "k = min 125 (unat (len b) - unat off)"
  shows "\<exists>s'. parse_step e (Some a) ps off rem 3 lb s = Some (Going (off + of_nat k) (rem - of_nat k) 3 lb s') \<and>
    draining (off + of_nat k) n (rem - of_nat k) s' \<and> unat (off + of_nat k) = unat off + k"
proof -
  note d = assms(8) [unfolded draining_def]
  have k: "0 < k" "k \<le> 125" "unat off + k \<le> unat (len b)" using assms(9,10) by auto
  have "unat (of_nat k :: u16) = k" using k by (simp add: unat_of_nat)
  then have ok: "unat (off + of_nat k) = unat off + k" using k unat_u16_less [of "len b"] by (simp add: unat_word_ariths)
  have tl: "unat (len b) < unat (tot_len b)" using follow_chain [OF assms(1,2)] assms(3,4) by (auto simp del: content_simps)
  have ui: "unat (msg_idx (client s)) = unat off" using d unat_u16_less [of off] by (simp add: unsigned_ucast_eq take_bit_nat_eq_self)
  have cl: "copy_length b 3 off rem (msg_idx (client s)) = of_nat k"
    using d copy_length_drain [OF assms(10,9) tl, of "n + 3 - unat off" "msg_idx (client s)"] assms(5,6,9) ui by simp
  define bs where "bs = take k (drop (unat off) (content ps (a # as)))"
  obtain s2 where s2: "piece_taken k s s2" and st: "parse_step e (Some a) ps off rem 3 lb s =
    do { (res, s) \<leftarrow> mqtt_message_received e 3 (of_nat k) (rem - of_nat k) (Some bs) s2;
         if res \<noteq> STATUS_ACCEPTED then Some (Returned res s)
         else if rem - of_nat k = 0 then Some (Going (off + of_nat k) (rem - of_nat k) 0 lb (upd_client (\<lambda>cl. cl\<lparr>msg_idx := 0\<rparr>) s))
         else Some (Going (off + of_nat k) (rem - of_nat k) 3 lb s) }"
    using data_step [OF assms(1-3) _ k(1) _ _ assms(7) _ cl bs_def, of e] k assms(4) d by (auto simp: word_le_nat_alt simp del: content_simps)
  have m2: "msg_idx (client s2) = of_nat (unat off + k)" "length (rx_buffer (client s2)) = 128"
    "MQTT_CTL_PACKET_TYPE (rx_buffer (client s2) ! 0) = MSG_PUBLISH"
    using s2 d by (simp_all add: piece_taken_def)
  have r': "rem - of_nat k = of_nat (n + 3 - unat (off + of_nat k))" using d k assms(5) by (simp add: ok of_nat_diff)
  have "unat (rem - of_nat k) = n + 3 - unat (off + of_nat k)" unfolding r' using assms(6) by (simp only: unat_of_nat) simp
  then have r0: "rem - of_nat k \<noteq> 0" using ok k assms(5) by (metis diff_is_0_eq not_le order.strict_trans1 unsigned_0)
  obtain s3 where s3: "mqtt_message_received e 3 (of_nat k) (rem - of_nat k) (Some bs) s2 = Some (STATUS_ACCEPTED, s3)" "client s3 = client s2"
    using drain_message [OF _ _ k(1,2) m2(1) r0 m2(3)] d k unat_u16_less [of "len b"] by (meson order.strict_trans1)
  then show ?thesis using st r0 r' ok m2 d by (intro exI [of _ s3]) (simp add: draining_def)
qed

lemma drain_stuck:
  assumes "chain ps (Some a) (a # as)" and "tot_ok ps (a # as)" and "pbufs ps a = Some b" and "unat (len b) < length (content ps (a # as))"
    and "unat (len b) < n + 3" and "n < 16384" and "lb AND 0x80 = 0" and "draining (len b) n rem s"
  shows "stuck a ps (len b) rem 3 lb s"
proof -
  note d = assms(8) [unfolded draining_def]
  have ui: "unat (msg_idx (client s)) = unat (len b)"
    using d unat_u16_less [of "len b"] by (simp add: unsigned_ucast_eq take_bit_nat_eq_self)
  have "unat rem = n + 3 - unat (len b)" using d assms(6) by (simp add: unat_of_nat)
  then have "rem \<noteq> 0" using assms(5) by (metis diff_is_0_eq not_le unsigned_0)
  moreover have "len b < tot_len b"
    using follow_chain [OF assms(1,2)] assms(3,4) by (auto simp: word_less_nat_alt simp del: content_simps)
  ultimately show ?thesis using assms d ui by (auto simp: stuck_def word_le_nat_alt simp del: content_simps)
qed

lemma drain_run:
  assumes "chain ps (Some a) (a # as)" and "tot_ok ps (a # as)" and "pbufs ps a = Some b" and "unat (len b) < length (content ps (a # as))"
    and "unat (len b) < n + 3" and "n < 16384" and "lb AND 0x80 = 0" and "draining off n rem s" and "unat off \<le> unat (len b)"
  shows "\<exists>m rem' s'. parse_run e (Some a) ps m (Going off rem 3 lb s) = Some (Going (len b) rem' 3 lb s') \<and> stuck a ps (len b) rem' 3 lb s'"
  using assms(8,9)
proof (induction "unat (len b) - unat off" arbitrary: off rem s rule: less_induct)
  case less
  show ?case
  proof (cases "unat off < unat (len b)")
    case True
    define k where "k = min 125 (unat (len b) - unat off)"
    then have k: "0 < k" "unat off + k \<le> unat (len b)" using True by auto
    obtain s1 where s1: "parse_step e (Some a) ps off rem 3 lb s = Some (Going (off + of_nat k) (rem - of_nat k) 3 lb s1)"
      "draining (off + of_nat k) n (rem - of_nat k) s1" "unat (off + of_nat k) = unat off + k"
      using drain_step [OF assms(1-7) less.prems(1) True k_def, of e] by blast
    obtain m rem' s' where m: "parse_run e (Some a) ps m (Going (off + of_nat k) (rem - of_nat k) 3 lb s1) = Some (Going (len b) rem' 3 lb s')"
      "stuck a ps (len b) rem' 3 lb s'"
      using less.hyps [OF _ s1(2)] s1(3) k by force
    with parse_run_trans [OF parse_run_1 [OF s1(1)] m(1)] show ?thesis by blast
  next
    case False
    then have off: "off = len b" using less.prems(2) by (simp add: word_unat_eq_iff)
    have "parse_run e (Some a) ps 0 (Going off rem 3 lb s) = Some (Going (len b) rem 3 lb s)" by (simp add: off)
    with drain_stuck [OF assms(1-7) less.prems(1) [unfolded off]] show ?thesis by blast
  qed
qed

section \<open>The first 128 bytes\<close>

lemma two_byte_header:
  assumes "chain ps p (a # as)" and "tot_ok ps (a # as)" and "listening s" and "128 \<le> n" and "n < 16384"
    and "content ps (a # as) = c0 # of_nat (n mod 128 + 128) # of_nat (n div 128) # rest"
    and "s' = rx_stored (of_nat (n div 128)) (rx_stored (of_nat (n mod 128 + 128)) (rx_stored c0 s))"
  shows "parse_run e p ps 3 (Going 0 0 0 0 s) = Some (Going 3 (of_nat n) 3 (of_nat (n div 128)) s')"
proof -
  let ?C = "content ps (a # as)" and ?b1 = "of_nat (n mod 128 + 128) :: u8" and ?b2 = "of_nat (n div 128) :: u8"
  obtain pb where pb: "follow p ps = Some (a, pb)" "unat (tot_len pb) = length ?C" using follow_chain [OF assms(1,2)] by blast
  have s: "msg_idx (client s) = 0" "length (rx_buffer (client s)) = 128" using assms(3) by (simp_all add: listening_def)
  have l: "2 < length ?C" and ne: "?C \<noteq> []" unfolding assms(6) by simp_all
  have C: "?C ! 0 = c0" "?C ! 1 = ?b1" "?C ! 2 = ?b2" unfolding assms(6) by simp_all
  have h0: "header_byte p ps 0 0 s = Some (c0, 1, rx_stored c0 s)"
    using header_byte_spec [OF assms(1) _ _ _ s(2), of 0 0] l ne s(1) C(1) by (simp del: content_simps)
  have h1: "header_byte p ps 1 1 (rx_stored c0 s) = Some (?b1, 2, rx_stored ?b1 (rx_stored c0 s))"
    using header_byte_spec [OF assms(1), of 1 "rx_stored c0 s" 1] l s C(2) by (simp add: rx_stored_fields del: content_simps)
  have h2: "header_byte p ps 2 2 (rx_stored ?b1 (rx_stored c0 s)) = Some (?b2, 3, s')"
    using header_byte_spec [OF assms(1), of 2 "rx_stored ?b1 (rx_stored c0 s)" 2] l s C(3) unfolding assms(7)
    by (simp add: rx_stored_fields del: content_simps)
  have t: "\<not> tot_len pb \<le> 0" "\<not> tot_len pb \<le> 1" "\<not> tot_len pb \<le> 2" using pb(2) l ne by (simp_all add: word_le_nat_alt del: content_simps)
  have b1: "?b1 AND 0x80 \<noteq> 0" "?b1 AND 0x7F = of_nat (n mod 128)" using seven_bits [of "n mod 128"] by simp_all
  have b2: "?b2 AND 0x80 = 0" "?b2 AND 0x7F = of_nat (n div 128)" using low_byte [of "n div 128"] assms(5) by (simp_all add: div_le_mono)
  have two: "\<not> (2 :: u8) \<le> 1" "\<not> (2 :: u8) < 2" "(2 :: u8) \<le> 3" "(2 :: u8) \<le> 2" "(1 :: u8) < 2" by (simp_all add: word_le_nat_alt word_less_nat_alt)
  have u: "ucast (of_nat (n mod 128) :: u8) = (of_nat (n mod 128) :: u32)" "ucast (of_nat (n div 128) :: u8) = (of_nat (n div 128) :: u32)"
    using assms(5) by (simp_all add: word_unat_eq_iff unsigned_ucast_eq take_bit_nat_eq_self unat_of_nat div_less_iff_less_mult)
  have n0: "(of_nat n :: u32) \<noteq> 0" using assms(4,5) by (simp add: word_unat_eq_iff unat_of_nat)
  have i: "msg_idx (client s') = 3" by (simp add: rx_stored_fields s(1) assms(7))
  have "parse_step e p ps 0 0 0 0 s = Some (Going 1 0 1 c0 (rx_stored c0 s))"
    using pb(1) t(1) h0 two by (simp add: parse_step_def Let_def)
  moreover have "parse_step e p ps 1 0 1 c0 (rx_stored c0 s) = Some (Going 2 (of_nat (n mod 128)) 2 ?b1 (rx_stored ?b1 (rx_stored c0 s)))"
    using pb(1) t(2) h1 two b1 u by (simp add: parse_step_def Let_def)
  moreover have "parse_step e p ps 2 (of_nat (n mod 128)) 2 ?b1 (rx_stored ?b1 (rx_stored c0 s)) = Some (Going 3 (of_nat n) 3 ?b2 s')"
    using pb(1) t(3) h2 two b1(1) b2 u n0 i remlen_join [OF assms(5)] by (simp add: parse_step_def Let_def)
  ultimately show ?thesis by (simp only: numeral_3_eq_3 parse_run.simps Option.bind.simps)
qed

lemma copy_length_first:
  assumes "128 \<le> unat (tot_len b)" and "128 \<le> n" and "n < 16384"
  shows "copy_length b 3 3 (of_nat n) 3 = 125"
proof -
  have "unat (tot_len b - 3) = unat (tot_len b) - 3" using assms(1) by (subst unat_sub) (simp_all add: word_le_nat_alt)
  then have "unat (ucast (tot_len b - 3) :: u32) = unat (tot_len b) - 3"
    using unat_u16_less [of "tot_len b"] by (simp add: unsigned_ucast_eq take_bit_nat_eq_self)
  then have m: "unat (min (ucast (tot_len b - 3) :: u32) (of_nat n)) = min (unat (tot_len b) - 3) n"
    using assms(3) by (auto simp: min_def word_le_nat_alt unat_of_nat)
  define c where "c = (ucast (min (ucast (tot_len b - 3) :: u32) (of_nat n)) :: u16)"
  have "unat c = min (unat (tot_len b) - 3) n"
    unfolding c_def using m assms(3) by (simp add: unsigned_ucast_eq take_bit_nat_eq_self min_less_iff_disj)
  then have "(if 125 < c then 125 else c) = 125" using assms(1,2) by (auto simp: word_less_nat_alt word_unat_eq_iff)
  then show ?thesis by (simp add: copy_length_def MQTT_VAR_HEADER_BUFFER_LEN_def Let_def c_def [symmetric])
qed

lemma first_received:
  assumes "length topic \<le> 122" and "bs = take 125 (publish_body 0 topic i pay)" and "length bs = 125" and "rem \<noteq> 0"
    and "msg_idx (client s) = 128" and "rx_buffer (client s) ! 0 = control_byte MSG_PUBLISH 0 0 r"
  shows "\<exists>s'. mqtt_message_received e 3 125 rem (Some bs) s = Some (STATUS_ACCEPTED, s') \<and>
    client s' = (client s)\<lparr>inpub_pkt_id := 0\<rparr>"
proof -
  have b: "bs = hi8 (of_nat (length topic)) # lo8 (of_nat (length topic)) # topic @ take (123 - length topic) pay"
    unfolding assms(2) using assms(1) by (simp add: publish_body_def string_bytes_def u16_bytes_def)
  have t: "unat (hi8 (of_nat (length topic))) * 256 + unat (lo8 (of_nat (length topic))) = length topic"
    using assms(1) by (intro topic_length) simp
  have r: "read_at (Some bs) 0 = Some (hi8 (of_nat (length topic)))" "read_at (Some bs) 1 = Some (lo8 (of_nat (length topic)))"
    by (simp_all add: read_at_def b)
  obtain s1 where h: "publish_head 3 125 rem (Some bs) 0 s = Some (Some (2 + length topic, 123 - length topic), s1)"
    "client s1 = (client s)\<lparr>inpub_pkt_id := 0\<rparr>"
    using assms(1) r t by (simp add: publish_head_def MQTT_VAR_HEADER_BUFFER_LEN_def Let_def notify_def upd_client_def)
  have "\<exists>s'. message_publish e 3 125 rem (Some bs) s = Some (STATUS_ACCEPTED, s') \<and> client s' = (client s)\<lparr>inpub_pkt_id := 0\<rparr>"
    using assms(1,4,5,6) h control_publish [of r] by (simp add: message_publish_def notify_def)
  then show ?thesis
    using assms(6) control_publish(1) [of r]
    by (simp add: mqtt_message_received_def MQTT_VAR_HEADER_BUFFER_LEN_def MSG_PUBLISH_def MSG_CONNACK_def MSG_PINGRESP_def Let_def)
qed

lemma long_message_stuck:
  assumes "chain ps (Some a) (a # as)" and "tot_ok ps (a # as)" and "listening s" and "length topic \<le> 122"
    and "content ps (a # as) = publish_packet 0 r topic i pay @ rest" and "n = 2 + length topic + length pay"
    and "128 \<le> n" and "n < 16384" and "pbufs ps a = Some b" and "128 \<le> unat (len b)" and "unat (len b) < n + 3"
  shows "\<exists>m rem lb s'. parse_run e (Some a) ps m (Going 0 0 0 0 s) = Some (Going (len b) rem 3 lb s') \<and> stuck a ps (len b) rem 3 lb s'"
proof -
  let ?C = "content ps (a # as)" and ?CB = "control_byte MSG_PUBLISH 0 0 r"
  define body where "body = publish_body 0 topic i pay"
  have lb: "length body = n" using assms(6) by (simp add: body_def publish_body_def string_bytes_def u16_bytes_def)
  have C: "?C = ?CB # of_nat (n mod 128 + 128) # of_nat (n div 128) # body @ rest"
    unfolding assms(5) publish_packet_def fixed_header_def body_def [symmetric] lb using remlen2 [OF assms(7,8)] by simp
  define s1 where "s1 = rx_stored (of_nat (n div 128)) (rx_stored (of_nat (n mod 128 + 128)) (rx_stored ?CB s))"
  note h = two_byte_header [OF assms(1-3,7,8) C s1_def, of e]
  have lC: "n + 3 \<le> length ?C" using lb unfolding C by simp
  have tl: "n + 3 \<le> unat (tot_len b)" using follow_chain [OF assms(1,2)] assms(9) lC by (auto simp del: content_simps)
  have s1: "msg_idx (client s1) = 3" "length (rx_buffer (client s1)) = 128" "rx_buffer (client s1) ! 0 = ?CB"
    using assms(3) by (simp_all add: s1_def rx_stored_fields listening_def)
  define bs where "bs = take 125 body"
  have lbs: "length bs = 125" using assms(7) lb by (simp add: bs_def)
  have "drop (unat (3 :: u16)) ?C = body @ rest" unfolding C by simp
  then have sl: "bs = take 125 (drop (unat (3 :: u16)) ?C)" using lb assms(7) by (simp add: bs_def del: content_simps)
  have b2: "(of_nat (n div 128) :: u8) AND 0x80 = 0" using low_byte(1) [of "n div 128"] assms(8) by (simp add: div_le_mono)
  have cl: "copy_length b 3 3 (of_nat n) (msg_idx (client s1)) = of_nat 125"
    using tl assms(7,8) s1(1) copy_length_first [of b n] by simp
  obtain s2 where s2: "piece_taken 125 s1 s2" and st: "parse_step e (Some a) ps 3 (of_nat n) 3 (of_nat (n div 128)) s1 =
    do { (res, s) \<leftarrow> mqtt_message_received e 3 (of_nat 125) (of_nat n - of_nat 125) (Some bs) s2;
         if res \<noteq> STATUS_ACCEPTED then Some (Returned res s)
         else if of_nat n - of_nat 125 = (0 :: u32)
         then Some (Going (3 + of_nat 125) (of_nat n - of_nat 125) 0 (of_nat (n div 128)) (upd_client (\<lambda>cl. cl\<lparr>msg_idx := 0\<rparr>) s))
         else Some (Going (3 + of_nat 125) (of_nat n - of_nat 125) 3 (of_nat (n div 128)) s) }"
    using data_step [OF assms(1,2,9) _ _ _ _ b2 s1(2) cl sl, of e] lC assms(7) by (auto simp: word_le_nat_alt simp del: content_simps)
  have m2: "msg_idx (client s2) = 128" "length (rx_buffer (client s2)) = 128" "rx_buffer (client s2) ! 0 = ?CB"
    using s2 s1 by (simp_all add: piece_taken_def)
  have r': "of_nat n - 125 = (of_nat (n + 3 - unat (128 :: u16)) :: u32)" using assms(7) by (simp add: of_nat_diff)
  have ur: "unat (of_nat n - 125 :: u32) = n - 125" unfolding r' using assms(8) by (simp only: unat_of_nat) simp
  have r0: "of_nat n - 125 \<noteq> (0 :: u32)"
  proof
    assume "of_nat n - 125 = (0 :: u32)"
    then have "n - 125 = 0" unfolding ur [symmetric] by (simp only: unsigned_0)
    with assms(7) show False by simp
  qed
  obtain s4 where s4: "mqtt_message_received e 3 125 (of_nat n - 125) (Some bs) s2 = Some (STATUS_ACCEPTED, s4)"
    "client s4 = (client s2)\<lparr>inpub_pkt_id := 0\<rparr>"
    using first_received [OF assms(4) bs_def [unfolded body_def] lbs r0 m2(1,3)] by blast
  have st': "parse_step e (Some a) ps 3 (of_nat n) 3 (of_nat (n div 128)) s1 = Some (Going 128 (of_nat n - 125) 3 (of_nat (n div 128)) s4)"
    using s4(1) r0 by (simp add: st)
  have d: "draining 128 n (of_nat n - 125) s4" using m2 s4(2) control_publish(1) [of r] r' by (simp add: draining_def)
  have "unat (len b) < length ?C" using lC assms(11) by simp
  from drain_run [OF assms(1,2,9) this assms(11,8) b2 d, of e] assms(10) obtain m rem s' where
    m: "parse_run e (Some a) ps m (Going 128 (of_nat n - 125) 3 (of_nat (n div 128)) s4) = Some (Going (len b) rem 3 (of_nat (n div 128)) s')"
    "stuck a ps (len b) rem 3 (of_nat (n div 128)) s'" by auto
  from parse_run_trans [OF parse_run_trans [OF h parse_run_1 [OF st']] m(1)] m(2) show ?thesis by blast
qed

end
