(* ===== verification/Mqtt_Spec.thy ===== *)
theory Mqtt_Spec
  imports Mqtt_Hang
begin

text \<open>
  What the MQTT client promises: the stream of bytes a publication adds, the message that empties the ring, requests
  that time out, and the messages the parser delivers or does not survive.
\<close>

unbundle bit_operations_syntax

section \<open>Sending\<close>

definition sent :: "('t \<Rightarrow> u8 list) \<Rightarrow> 't mst \<Rightarrow> u8 list" where
  "sent st s = st (tcp s) @ ring_content (outbuf (client s))"

definition pending :: "'t mst \<Rightarrow> nat list \<Rightarrow> bool" where
  "pending s is \<longleftrightarrow> queue_ok (req_list (client s)) (pend_req_queue (client s)) is"

definition silent :: "'t mst \<Rightarrow> 't mst \<Rightarrow> bool" where
  "silent s s' \<longleftrightarrow> events s' = events s \<and> cyclic_timers s' = cyclic_timers s \<and> conn_state (client s') = conn_state (client s) \<and>
     conn (client s') = conn (client s)"

lemma client_send_spec:
  assumes "streams e st" and "conn (client s)" and "ring_ok (outbuf (client s))"
  shows "\<exists>rb c. client_send e s = Some (upd_client (\<lambda>cl. cl\<lparr>outbuf := rb\<rparr>) (s\<lparr>tcp := c\<rparr>)) \<and> ring_ok rb \<and>
    st c @ ring_content rb = sent st s"
  using send_handed [OF assms(1,3), of "tcp s"] assms(2)
  by (cases "mqtt_output_send e (outbuf (client s)) (tcp s)") (auto simp: client_send_def handed_def sent_def)

lemma upd_output_fields: "req_list (client (upd_output f s)) = req_list (client s)"
  "pend_req_queue (client (upd_output f s)) = pend_req_queue (client s)" "conn (client (upd_output f s)) = conn (client s)"
  "conn_state (client (upd_output f s)) = conn_state (client s)"
  "outbuf (client (upd_output f s)) = f (outbuf (client s))" "tcp (upd_output f s) = tcp s" "events (upd_output f s) = events s"
  "cyclic_timers (upd_output f s) = cyclic_timers s"
  by (simp_all add: upd_output_def upd_client_def)

lemma pigeon:
  assumes "rchain rs p is" and "distinct is"
  shows "(\<forall>n < length rs. n \<in> set is) \<longleftrightarrow> length is \<ge> length rs"
proof
  assume "\<forall>n < length rs. n \<in> set is"
  then have "card {..< length rs} \<le> card (set is)" by (intro card_mono) auto
  then show "length is \<ge> length rs" using assms(2) by (simp add: distinct_card)
next
  assume l: "length is \<ge> length rs"
  have "set is \<subseteq> {..< length rs}" using rchain_less [OF assms(1)] by auto
  moreover have "card {..< length rs} \<le> card (set is)" using l assms(2) by (simp add: distinct_card)
  ultimately have "set is = {..< length rs}" by (intro card_seteq) auto
  then show "\<forall>n < length rs. n \<in> set is" by auto
qed

lemma create_free:
  assumes "queue_ok rs p is" and "length is < length rs"
  obtains n where "n < length rs" "n \<notin> set is"
    "mqtt_create_request i cb rs = (Some n, rs[n := (rs ! n)\<lparr>req_next := None, req_cb := cb, pkt_id := i\<rparr>])"
proof -
  have "\<not> (\<forall>n < length rs. n \<in> set is)" using assms pigeon [of rs p "is"] by (simp add: queue_but_def)
  with create_spec [OF assms(1), of i cb] that show ?thesis by blast
qed

lemma create_none:
  assumes "queue_ok rs p is" and "length rs \<le> length is"
  shows "mqtt_create_request i cb rs = (None, rs)"
proof -
  have "\<forall>n < length rs. n \<in> set is" using assms pigeon [of rs p "is"] by (simp add: queue_but_def)
  with create_spec [OF assms(1), of i cb] show ?thesis by blast
qed

text \<open>A request that was created and deleted again leaves the queue as it was.\<close>

lemma created_queue:
  assumes "queue_but L rs p is" and "n \<notin> set is" and "n < length rs" and "rs' = rs[n := v]"
  shows "rchain rs' p is" and "total rs' is = total rs is" and "free_others rs' (insert n (set is \<union> L))"
proof -
  have "rs' ! i = rs ! i" if "i \<in> set is" for i using assms(2,4) that by (auto simp: upd_nth)
  then show "rchain rs' p is" "total rs' is = total rs is"
    using assms(1,4) rchain_cong [of rs' rs "is" p] by (auto simp: queue_but_def intro: total_cong)
  show "free_others rs' (insert n (set is \<union> L))" using assms by (auto simp: queue_but_def free_others_def upd_nth)
qed

lemma deleted_queue:
  assumes "queue_but L rs p is" and "n \<notin> set is" and "n < length rs" and "rs' = rs[n := v]"
  shows "queue_but L (mqtt_delete_request n rs') p is"
proof -
  have e: "mqtt_delete_request n rs' = rs[n := v\<lparr>req_next := Some n\<rparr>]"
    using assms(3,4) by (simp add: mqtt_delete_request_def)
  note c = created_queue [OF assms(1-3) e]
  have "free_others (mqtt_delete_request n rs') (set is \<union> L)"
    using c(3) assms(3) by (auto simp: free_others_def) (auto simp: e upd_nth)
  with c assms(1) show ?thesis by (simp add: queue_but_def)
qed

lemma queued_and_sent:
  assumes "streams e st" and "conn (client s)" and "ring_ok (outbuf (client s))"
    and "queue_but L rs p is" and "n \<notin> set is" and "n < length rs"
    and "req_list (client s) = rs[n := (rs ! n)\<lparr>req_next := None, req_cb := cb, pkt_id := i\<rparr>]" and "pend_req_queue (client s) = p"
  shows "\<exists>s'. queue_and_send e n s = Some (ERR_OK, s') \<and>
     sent st s' = sent st s \<and> ring_ok (outbuf (client s')) \<and> queue_but L (req_list (client s')) (pend_req_queue (client s')) (is @ [n]) \<and> silent s s' \<and>
     req_cb (req_list (client s') ! n) = cb \<and> pkt_id (req_list (client s') ! n) = i"
proof -
  note c = created_queue [OF assms(4-7)]
  obtain p' rs' where a: "mqtt_append_request (pend_req_queue (client s)) n (req_list (client s)) = Some (p', rs')"
    "queue_but L rs' p' (is @ [n])" "req_cb (rs' ! n) = cb" "pkt_id (rs' ! n) = i"
    using append_spec [OF c(1) _ c(3) _ assms(5)] assms(4,6,7,8) c(2) by (auto simp: queue_but_def)
  let ?s = "upd_client (\<lambda>cl. cl\<lparr>pend_req_queue := p', req_list := rs'\<rparr>) s"
  obtain rb t where t: "client_send e ?s = Some (upd_client (\<lambda>cl. cl\<lparr>outbuf := rb\<rparr>) (?s\<lparr>tcp := t\<rparr>))" "ring_ok rb"
    "st t @ ring_content rb = sent st ?s"
    using client_send_spec [OF assms(1), of ?s] assms(2,3) by (auto simp: upd_client_def)
  show ?thesis using a t
    by (intro exI [of _ "upd_client (\<lambda>cl. cl\<lparr>outbuf := rb\<rparr>) (?s\<lparr>tcp := t\<rparr>)"])
      (simp add: queue_and_send_def Let_def, simp add: upd_client_def sent_def pending_def silent_def)
qed

text \<open>The identifier and the client after it was drawn.\<close>

definition drawn :: "u8 \<Rightarrow> 't mst \<Rightarrow> u16 \<times> 't mst" where
  "drawn qos s = (if 0 < qos then let (i, c) = msg_generate_packet_id (client s) in (i, s\<lparr>client := c\<rparr>) else (0, s))"

lemma drawn_spec:
  assumes "drawn qos s = (i, s1)"
  shows "silent s s1" "tcp s1 = tcp s" "outbuf (client s1) = outbuf (client s)" "req_list (client s1) = req_list (client s)"
    "pend_req_queue (client s1) = pend_req_queue (client s)" "i = 0 \<longleftrightarrow> qos = 0"
proof -
  have "pkt_id_seq (client s) + 1 = 0 \<Longrightarrow> (1 :: u16) \<noteq> 0" by simp
  moreover have "0 < qos \<longleftrightarrow> qos \<noteq> 0" by (simp add: word_neq_0_conv)
  ultimately show "silent s s1" "tcp s1 = tcp s" "outbuf (client s1) = outbuf (client s)" "req_list (client s1) = req_list (client s)"
    "pend_req_queue (client s1) = pend_req_queue (client s)" "i = 0 \<longleftrightarrow> qos = 0"
    using assms by (auto simp: drawn_def msg_generate_packet_id_def Let_def silent_def split: if_splits)
qed

text \<open>\<open>mqtt_publish\<close> of a payload in memory, from the test for space on.\<close>

definition body_length :: "u8 \<Rightarrow> u8 list \<Rightarrow> u8 list \<Rightarrow> nat" where
  "body_length qos topic pay = 2 + length topic + length pay + (if 0 < qos then 2 else 0)"

lemma length_body: "length (publish_body qos topic i pay) = body_length qos topic pay"
  by (simp add: publish_body_def body_length_def string_bytes_def u16_bytes_def)

lemma append_publish_fold:
  assumes "body_length qos topic pay < 65532"
  shows "append_publish topic (Some pay) (of_nat (length pay)) qos retain i (of_nat (body_length qos topic pay)) =
    fold mqtt_ringbuf_put (publish_packet qos retain topic i pay)"
proof
  fix rb
  have l: "length topic < 65536" "length pay < 65536" using assms by (auto simp: body_length_def)
  have u: "unat (of_nat (length pay) :: u16) = length pay" using l by (simp only: unat_of_nat) simp
  have ub: "unat (of_nat (body_length qos topic pay) :: u16) = body_length qos topic pay"
    using assms by (simp only: unat_of_nat) simp
  have z: "(0 :: u16) < of_nat (length pay) \<longleftrightarrow> pay \<noteq> []" using u by (auto simp: word_less_nat_alt)
  have pk: "publish_packet qos retain topic i pay = fixed_header MSG_PUBLISH 0 qos retain (body_length qos topic pay) @
      string_bytes topic @ (if 0 < qos then u16_bytes i else []) @ pay"
    by (simp only: publish_packet_def length_body) (simp only: publish_body_def)
  show "append_publish topic (Some pay) (of_nat (length pay)) qos retain i (of_nat (body_length qos topic pay)) rb =
      fold mqtt_ringbuf_put (publish_packet qos retain topic i pay) rb"
    by (simp add: append_publish_def append_buf_fold append_u16_fold append_string_fold [OF l(1)] fixed_header_fold ub pk u z Let_def)
qed

text \<open>\<open>mqtt_publish\<close> of a payload in memory, from the request on.\<close>

lemma publish_unfold:
  assumes "conn_state (client s) \<noteq> TCP_DISCONNECTED" and "body_length qos topic pay < 65532" and "drawn qos s = (i, s1)"
  shows "mqtt_publish e topic (Some pay) (of_nat (length pay)) qos retain cb s = (
    let (r, rs) = mqtt_create_request i cb (req_list (client s1)); s = upd_client (\<lambda>cl. cl\<lparr>req_list := rs\<rparr>) s1
    in case r of None \<Rightarrow> Some (ERR_MEM, s)
       | Some r \<Rightarrow>
           if \<not> mqtt_output_check_space (of_nat (body_length qos topic pay)) (outbuf (client s))
           then Some (ERR_MEM, upd_client (\<lambda>cl. cl\<lparr>req_list := mqtt_delete_request r (req_list cl)\<rparr>) s)
           else queue_and_send e r (upd_output (fold mqtt_ringbuf_put (publish_packet qos retain topic i pay)) s))"
proof -
  have l: "length pay < 65536" "\<not> 65533 < length topic" "\<not> 65535 < body_length qos topic pay"
    using assms(2) by (auto simp: body_length_def)
  have u: "unat (of_nat (length pay) :: u16) = length pay" using l by (simp only: unat_of_nat) simp
  define total_len where "total_len = 2 + length topic + length pay"
  have d: "(if 0 < qos then let (i, c) = msg_generate_packet_id (client s) in (total_len + 2, i, s\<lparr>client := c\<rparr>)
      else (total_len, 0, s)) = (body_length qos topic pay, i, s1)"
    using assms(3) by (auto simp: drawn_def body_length_def total_len_def split: if_splits prod.splits)
  show ?thesis using assms(1) l
    unfolding mqtt_publish_def u total_len_def [symmetric] Let_def [of total_len] d
    by (simp add: append_publish_fold [OF assms(2)] Let_def split: prod.split option.split)
qed

definition fits :: "u8 list \<Rightarrow> 't mst \<Rightarrow> bool" where
  "fits bs s \<longleftrightarrow> ring_count (outbuf (client s)) + length bs \<le> 255"

lemma length_packet: "length (publish_packet qos retain topic i pay) =
    1 + body_length qos topic pay + length (remlen (body_length qos topic pay))"
  by (simp add: publish_packet_def fixed_header_def length_body)

lemma publish_space:
  assumes "ring_ok (outbuf (client s))" and "body_length qos topic pay < 65532"
  shows "mqtt_output_check_space (of_nat (body_length qos topic pay)) (outbuf (client s)) \<longleftrightarrow>
    ring_count (outbuf (client s)) + length (publish_packet qos retain topic i pay) \<le> 256"
proof -
  have "unat (of_nat (body_length qos topic pay) :: u16) = body_length qos topic pay"
    using assms(2) by (simp only: unat_of_nat) simp
  moreover have "(1 + body_length qos topic pay + length (remlen (body_length qos topic pay))) mod 65536 =
      1 + body_length qos topic pay + length (remlen (body_length qos topic pay))"
    using length_remlen [of "body_length qos topic pay"] assms(2) by simp
  ultimately show ?thesis using check_space_iff [OF assms(1)] by (auto simp: length_packet)
qed

text \<open>The bytes of a message that does not fit, and of one that does, one byte of the ring being left over.\<close>

lemma publish_queued:
  assumes "streams e st" and "conn_state (client s) \<noteq> TCP_DISCONNECTED" and "conn (client s)" and "ring_ok (outbuf (client s))"
    and "pending s is" and "length is < length (req_list (client s))" and "drawn qos s = (i, s1)"
    and "body_length qos topic pay < 65532" and "bs = publish_packet qos retain topic i pay"
    and "ring_count (outbuf (client s)) + length bs \<le> 256"
  shows "\<exists>n s'. mqtt_publish e topic (Some pay) (of_nat (length pay)) qos retain cb s = Some (ERR_OK, s') \<and>
    sent st s' = st (tcp s) @ ring_content (fold mqtt_ringbuf_put bs (outbuf (client s))) \<and> ring_ok (outbuf (client s')) \<and>
    pending s' (is @ [n]) \<and> silent s s' \<and> req_cb (req_list (client s') ! n) = cb \<and> pkt_id (req_list (client s') ! n) = i"
proof -
  note d = drawn_spec [OF assms(7)]
  let ?rs = "req_list (client s)"
  obtain n where n: "n < length ?rs" "n \<notin> set is"
    "mqtt_create_request i cb ?rs = (Some n, ?rs[n := (?rs ! n)\<lparr>req_next := None, req_cb := cb, pkt_id := i\<rparr>])"
    using create_free [OF assms(5) [unfolded pending_def] assms(6)] by metis
  let ?s = "upd_client (\<lambda>cl. cl\<lparr>req_list := ?rs[n := (?rs ! n)\<lparr>req_next := None, req_cb := cb, pkt_id := i\<rparr>]\<rparr>) s1"
  let ?t = "upd_output (fold mqtt_ringbuf_put bs) ?s"
  have e: "mqtt_publish e topic (Some pay) (of_nat (length pay)) qos retain cb s = queue_and_send e n ?t"
    using publish_unfold [OF assms(2,8,7), of e retain cb] publish_space [OF _ assms(8), of ?s retain i] assms(4,9,10) d n(3)
    by (simp add: upd_client_def)
  have t: "conn (client ?t)" "ring_ok (outbuf (client ?t))" "pend_req_queue (client ?t) = pend_req_queue (client s)" "silent s ?t"
    "req_list (client ?t) = ?rs[n := (?rs ! n)\<lparr>req_next := None, req_cb := cb, pkt_id := i\<rparr>]"
    "sent st ?t = st (tcp s) @ ring_content (fold mqtt_ringbuf_put bs (outbuf (client s)))"
    using assms(3,4) d by (simp_all add: upd_output_fields silent_def sent_def) (simp_all add: upd_client_def silent_def ring.fold_invar)
  obtain s' where "queue_and_send e n ?t = Some (ERR_OK, s')" "sent st s' = sent st ?t" "ring_ok (outbuf (client s'))"
    "queue_ok (req_list (client s')) (pend_req_queue (client s')) (is @ [n])" "silent ?t s'" "req_cb (req_list (client s') ! n) = cb" "pkt_id (req_list (client s') ! n) = i"
    using queued_and_sent [OF assms(1) t(1,2) assms(5) [unfolded pending_def] n(2,1) t(5,3)] by blast
  with e t(4,6) show ?thesis unfolding pending_def by (auto simp: silent_def)
qed

lemma publish_no_room:
  assumes "conn_state (client s) \<noteq> TCP_DISCONNECTED" and "ring_ok (outbuf (client s))"
    and "pending s is" and "drawn qos s = (i, s1)" and "body_length qos topic pay < 65532"
    and "length (req_list (client s)) \<le> length is \<or>
      256 < ring_count (outbuf (client s)) + length (publish_packet qos retain topic i pay)"
  shows "\<exists>s'. mqtt_publish e topic (Some pay) (of_nat (length pay)) qos retain cb s = Some (ERR_MEM, s') \<and>
    sent st s' = sent st s \<and> ring_ok (outbuf (client s')) \<and> pending s' is \<and> silent s s'"
proof -
  note d = drawn_spec [OF assms(4)] and q = assms(3) [unfolded pending_def]
  let ?rs = "req_list (client s)"
  show ?thesis
  proof (cases "length is < length ?rs")
    case False
    then have "mqtt_create_request i cb ?rs = (None, ?rs)" using create_none [OF q] by simp
    with publish_unfold [OF assms(1,5,4), of e retain cb] d assms(2) q show ?thesis
      by (simp add: upd_client_def sent_def pending_def silent_def)
  next
    case True
    obtain n where n: "n < length ?rs" "n \<notin> set is"
      "mqtt_create_request i cb ?rs = (Some n, ?rs[n := (?rs ! n)\<lparr>req_next := None, req_cb := cb, pkt_id := i\<rparr>])"
      using create_free [OF q True] by metis
    note dq = deleted_queue [OF q n(2,1) refl, of "(?rs ! n)\<lparr>req_next := None, req_cb := cb, pkt_id := i\<rparr>"]
    have "\<not> mqtt_output_check_space (of_nat (body_length qos topic pay)) (outbuf (client s))"
      using publish_space [OF assms(2,5), of retain i] assms(6) True by simp
    with publish_unfold [OF assms(1,5,4), of e retain cb] d n(3) assms(2) dq show ?thesis
      by (simp add: upd_client_def sent_def pending_def silent_def)
  qed
qed

lemma publish_result:
  assumes "streams e st" and "conn_state (client s) \<noteq> TCP_DISCONNECTED" and "conn (client s)" and "ring_ok (outbuf (client s))"
    and "pending s is" and "body_length qos topic pay < 65532" and "bs = publish_packet qos retain topic (fst (drawn qos s)) pay"
    and "ring_count (outbuf (client s)) + length bs \<noteq> 256"
  shows "\<exists>s'. ring_ok (outbuf (client s')) \<and> silent s s' \<and> (if length is < length (req_list (client s)) \<and> fits bs s
    then mqtt_publish e topic (Some pay) (of_nat (length pay)) qos retain cb s = Some (ERR_OK, s') \<and> sent st s' = sent st s @ bs \<and>
      (\<exists>n. pending s' (is @ [n]) \<and> req_cb (req_list (client s') ! n) = cb \<and> pkt_id (req_list (client s') ! n) = fst (drawn qos s))
    else mqtt_publish e topic (Some pay) (of_nat (length pay)) qos retain cb s = Some (ERR_MEM, s') \<and> sent st s' = sent st s \<and>
      pending s' is)"
proof (cases "length is < length (req_list (client s)) \<and> fits bs s")
  case True
  obtain i s1 where d: "drawn qos s = (i, s1)" by fastforce
  have c: "ring_content (fold mqtt_ringbuf_put bs (outbuf (client s))) = ring_content (outbuf (client s)) @ bs"
    using True assms(4) by (intro ring.fold_content) (simp_all add: fits_def)
  have "bs = publish_packet qos retain topic i pay" using assms(7) d by simp
  from publish_queued [OF assms(1-5) _ d assms(6) this, of cb] True show ?thesis unfolding c by (auto simp: fits_def sent_def d)
next
  case False
  obtain i s1 where d: "drawn qos s = (i, s1)" by fastforce
  have "length (req_list (client s)) \<le> length is \<or> 256 < ring_count (outbuf (client s)) + length bs"
    using False assms(8) by (auto simp: fits_def)
  with publish_no_room [OF assms(2,4,5) d assms(6), of retain e cb st] assms(7) d show ?thesis
    unfolding if_not_P [OF False] by auto
qed

lemma ring_overflow:
  assumes "ring_ok rb" and "ring_count rb + length bs = 256"
  shows "ring_content (fold mqtt_ringbuf_put bs rb) = []"
proof -
  have "bs \<noteq> []" using assms(2) count_less [of rb] by auto
  then obtain cs b where b: "bs = cs @ [b]" by (metis rev_exhaust)
  have "ring_content (fold mqtt_ringbuf_put cs rb) = ring_content rb @ cs"
    using assms b by (intro ring.fold_content) simp_all
  then have "ring_count (fold mqtt_ringbuf_put cs rb) = 255"
    using assms(2) b length_content [of "fold mqtt_ringbuf_put cs rb"] length_content [of rb] by (simp del: length_content)
  with ring.fold_invar [OF assms(1)] show ?thesis by (simp add: b put_full)
qed

section \<open>Requests that time out\<close>

text \<open>The cyclic timer, which is armed, runs once.\<close>

definition fire :: "'t altcp \<Rightarrow> 't mst \<Rightarrow> 't mst option" where
  "fire e s = mqtt_cyclic_timer e (s\<lparr>cyclic_timers := cyclic_timers s - 1\<rparr>)"

fun fires :: "nat \<Rightarrow> 't altcp \<Rightarrow> 't mst \<Rightarrow> 't mst option" where
  "fires 0 e s = Some s"
| "fires (Suc n) e s = Option.bind (fire e s) (fires n e)"

text \<open>The server watchdog does not bite within the next \<open>k\<close> runs.\<close>

definition patient :: "nat \<Rightarrow> 't mst \<Rightarrow> bool" where
  "patient k s \<longleftrightarrow> client_keep_alive (client s) = 0 \<or>
     (unat (server_watchdog (client s)) + k) * MQTT_CYCLIC_TIMER_INTERVAL \<le>
       unat (client_keep_alive (client s)) + unat (client_keep_alive (client s)) div 2"

definition waiting :: "'t mst \<Rightarrow> bool" where
  "waiting s \<longleftrightarrow> conn_state (client s) = MQTT_CONNECTED \<and> 0 < cyclic_timers s"

lemma tick_spec:
  assumes "patient (Suc k) s" and "0 < client_keep_alive (client s)"
  shows "\<exists>s'. keep_alive_tick e s = Some (True, s') \<and> patient k s' \<and> silent s s' \<and>
    req_list (client s') = req_list (client s) \<and> pend_req_queue (client s') = pend_req_queue (client s)"
proof -
  let ?ka = "unat (client_keep_alive (client s))" and ?w = "unat (server_watchdog (client s))"
  have ka: "client_keep_alive (client s) \<noteq> 0" using assms(2) by auto
  have w: "(?w + Suc k) * 5 \<le> ?ka + ?ka div 2" using assms(1) ka by (simp add: patient_def MQTT_CYCLIC_TIMER_INTERVAL_def)
  then have "?w + 1 < 65536" using unat_u16_less [of "client_keep_alive (client s)"] by simp
  then have u: "unat (server_watchdog (client s) + 1) = ?w + 1" by (simp add: unat_word_ariths)
  with w have "\<not> ?ka + ?ka div 2 < unat (server_watchdog (client s) + 1) * 5" by simp
  then show ?thesis using w u ka
    by (simp add: keep_alive_tick_def upd_client_def patient_def silent_def MQTT_CYCLIC_TIMER_INTERVAL_def upd_output_def Let_def)
qed

definition same_callbacks :: "'t mst \<Rightarrow> 't mst \<Rightarrow> bool" where
  "same_callbacks s s' \<longleftrightarrow> (\<forall>i. req_cb (req_list (client s') ! i) = req_cb (req_list (client s) ! i))"

definition due_in :: "'t mst \<Rightarrow> nat list \<Rightarrow> nat" where
  "due_in s is = total (req_list (client s)) is"

lemma fire_spec:
  assumes "waiting s" and "pending s is" and "patient (Suc k) s"
  shows "\<exists>j s'. fire e s = Some s' \<and> waiting s' \<and> patient k s' \<and> pending s' (drop j is) \<and> cyclic_timers s' = cyclic_timers s \<and>
    events s' = events s @ timed_out (req_list (client s)) (take j is) \<and> same_callbacks s s' \<and>
    (drop j is = [] \<or> due_in s' (drop j is) + 5 = due_in s is)"
proof -
  let ?rs = "req_list (client s)"
  obtain j p' rs' where j: "mqtt_request_time_elapsed 5 (pend_req_queue (client s)) ?rs (events s) =
      Some (p', rs', events s @ timed_out ?rs (take j is))"
    "queue_ok rs' p' (drop j is)" "\<forall>i. req_cb (rs' ! i) = req_cb (?rs ! i)"
    "drop j is = [] \<or> total rs' (drop j is) + 5 = total ?rs is"
    using elapsed_spec [OF assms(2) [unfolded pending_def], of 5 "events s"] by auto
  define s1 where "s1 = s\<lparr>cyclic_timers := cyclic_timers s - 1, events := events s @ timed_out ?rs (take j is),
      client := (client s)\<lparr>pend_req_queue := p', req_list := rs'\<rparr>\<rparr>"
  have s1: "patient (Suc k) s1" "client_keep_alive (client s1) = client_keep_alive (client s)"
    using assms(3) by (simp_all add: s1_def patient_def)
  have f: "fire e s = Option.bind (if 0 < client_keep_alive (client s1) then keep_alive_tick e s1 else Some (True, s1))
      (\<lambda>(restart_timer, s). Some (if restart_timer then s\<lparr>cyclic_timers := cyclic_timers s + 1\<rparr> else s))"
    using assms(1) j(1) by (simp add: fire_def mqtt_cyclic_timer_def waiting_def MQTT_CYCLIC_TIMER_INTERVAL_def s1_def upd_client_def Let_def)
  obtain s2 where s2: "fire e s = Some (s2\<lparr>cyclic_timers := cyclic_timers s2 + 1\<rparr>)" "patient k s2" "silent s1 s2"
    "req_list (client s2) = rs'" "pend_req_queue (client s2) = p'"
  proof (cases "0 < client_keep_alive (client s1)")
    case True
    obtain s' where "keep_alive_tick e s1 = Some (True, s')" "patient k s'" "silent s1 s'"
      "req_list (client s') = req_list (client s1)" "pend_req_queue (client s') = pend_req_queue (client s1)"
      using tick_spec [OF s1(1) True, of e] by blast
    with True f that [of s'] show ?thesis by (simp add: s1_def)
  next
    case False
    then have "client_keep_alive (client s1) = 0" using word_neq_0_conv by blast
    with False f that [of s1] show ?thesis by (simp add: s1_def patient_def silent_def)
  qed
  then show ?thesis using j assms(1)
    by (intro exI [of _ j] exI [of _ "s2\<lparr>cyclic_timers := cyclic_timers s2 + 1\<rparr>"])
      (auto simp: waiting_def silent_def s1_def pending_def same_callbacks_def due_in_def patient_def)
qed

lemma timed_out_cong: "same_callbacks s s' \<Longrightarrow> timed_out (req_list (client s')) is = timed_out (req_list (client s)) is"
  by (simp add: timed_out_def same_callbacks_def)

lemma timed_out_append: "timed_out rs (is @ js) = timed_out rs is @ timed_out rs js"
  by (induction "is") (simp_all add: timed_out_Cons, simp add: timed_out_def List.map_filter_simps)

lemma fires_spec:
  assumes "waiting s" and "pending s is" and "patient n s"
  shows "\<exists>j s'. fires n e s = Some s' \<and> waiting s' \<and> pending s' (drop j is) \<and> cyclic_timers s' = cyclic_timers s \<and>
    events s' = events s @ timed_out (req_list (client s)) (take j is) \<and>
    (drop j is = [] \<or> due_in s' (drop j is) + 5 * n = due_in s is)"
  using assms
proof (induction n arbitrary: s "is")
  case 0
  then show ?case by (intro exI [of _ 0] exI [of _ s]) (simp add: timed_out_def List.map_filter_simps)
next
  case (Suc n)
  obtain j s1 where f: "fire e s = Some s1" "waiting s1" "patient n s1" "pending s1 (drop j is)" "cyclic_timers s1 = cyclic_timers s"
    "events s1 = events s @ timed_out (req_list (client s)) (take j is)" "same_callbacks s s1"
    "drop j is = [] \<or> due_in s1 (drop j is) + 5 = due_in s is"
    using fire_spec [OF Suc.prems] by blast
  obtain k s2 where g: "fires n e s1 = Some s2" "waiting s2" "pending s2 (drop k (drop j is))" "cyclic_timers s2 = cyclic_timers s1"
    "events s2 = events s1 @ timed_out (req_list (client s1)) (take k (drop j is))"
    "drop k (drop j is) = [] \<or> due_in s2 (drop k (drop j is)) + 5 * n = due_in s1 (drop j is)"
    using Suc.IH [OF f(2,4,3)] by blast
  have "take (k + j) is = take j is @ take k (drop j is)" by (simp add: take_add add.commute)
  then have "events s2 = events s @ timed_out (req_list (client s)) (take (k + j) is)"
    using f(6) g(5) timed_out_cong [OF f(7)] by (simp add: timed_out_append)
  with f g show ?case
    by (intro exI [of _ "k + j"] exI [of _ s2]) auto
qed

section \<open>Examples\<close>

text \<open>A TCP that takes everything, a connected client and a packet in two pbufs.\<close>

definition demo_tcp :: "u8 list altcp" where
  "demo_tcp = \<lparr>altcp_sndbuf = (\<lambda>c. 100), altcp_write = (\<lambda>data flag c. (ERR_OK, c @ data)), altcp_output = (\<lambda>c. c),
     altcp_set = (\<lambda>f b c. c), altcp_close = (\<lambda>c. (ERR_OK, c)), altcp_abort = (\<lambda>c. c), altcp_new = (\<lambda>c. (True, c)),
     altcp_bind = (\<lambda>c. (ERR_OK, c)), altcp_connect = (\<lambda>a p c. (ERR_OK, c)), altcp_recved = (\<lambda>n c. c)\<rparr>"

definition idle_requests :: "mqtt_request_t list" where
  "idle_requests = mqtt_init_requests (replicate 4 \<lparr>req_next = None, req_cb = None, pkt_id = 0, timeout_diff = 0\<rparr>)"

definition demo_client :: mqtt_client_s where
  "demo_client = \<lparr>cyclic_tick = 0, client_keep_alive = 60, server_watchdog = 0, pkt_id_seq = 0, inpub_pkt_id = 0,
     conn_state = MQTT_CONNECTED, conn = True, connect_cb = True, pend_req_queue = None, req_list = idle_requests,
     data_cb = True, pub_cb = True, msg_idx = 0, rx_buffer = replicate 128 0,
     outbuf = \<lparr>rb_put = 0, rb_get = 0, rb_buf = replicate 256 0\<rparr>\<rparr>"

definition demo :: "u8 list mst" where
  "demo = \<lparr>client = demo_client, tcp = [], cyclic_timers = 1, events = []\<rparr>"

definition two_parts :: "u8 list \<Rightarrow> nat \<Rightarrow> unit pst" where
  "two_parts bs k = pool3\<lparr>pbufs := (\<lambda>a. if a = 8 then Some (new_pbuf 100 (of_nat (length bs)) (of_nat k)\<lparr>nxt := Some 40\<rparr>)
     else if a = 40 then Some (new_pbuf (100 + k) (of_nat (length bs - k)) (of_nat (length bs - k))) else None),
     bytes := (\<lambda>a. if 100 \<le> a \<and> a < 100 + length bs then bs ! (a - 100) else 0)\<rparr>"

lemma two_parts_chain:
  assumes "k \<le> length bs" and "length bs < 65536"
  shows "chain (two_parts bs k) (Some 8) [8, 40]" and "tot_ok (two_parts bs k) [8, 40]" and "content (two_parts bs k) [8, 40] = bs"
    and "pbufs (two_parts bs k) 8 = Some (new_pbuf 100 (of_nat (length bs)) (of_nat k)\<lparr>nxt := Some 40\<rparr>)"
proof -
  let ?s = "two_parts bs k"
  have u: "unat (of_nat k :: u16) = k" "unat (of_nat (length bs) :: u16) = length bs" "unat (of_nat (length bs - k) :: u16) = length bs - k"
    using assms by (simp_all only: unat_of_nat) simp_all
  have s8: "seg ?s 8 = take k bs"
    using assms u by (intro nth_equalityI) (auto simp: two_parts_def seg_def new_pbuf_def)
  have s40: "seg ?s 40 = drop k bs"
    using assms u by (intro nth_equalityI) (auto simp: two_parts_def seg_def new_pbuf_def ac_simps)
  show "chain ?s (Some 8) [8, 40]" by (simp add: two_parts_def new_pbuf_def)
  show c: "content ?s [8, 40] = bs" by (simp add: s8 s40)
  show "pbufs ?s 8 = Some (new_pbuf 100 (of_nat (length bs)) (of_nat k)\<lparr>nxt := Some 40\<rparr>)" by (simp add: two_parts_def)
  have "content ?s [40] = drop k bs" by (simp add: s40)
  then show "tot_ok ?s [8, 40]" using c u by (simp del: content_simps) (simp add: two_parts_def new_pbuf_def del: content_simps)
qed

lemma demo_ok: "streams demo_tcp (\<lambda>c. c)" "ring_ok (outbuf (client demo))" "ring_count (outbuf (client demo)) = 0" "pending demo []"
  "listening demo" "conn (client demo)" "conn_state (client demo) = MQTT_CONNECTED" "length (req_list (client demo)) = 4" "waiting demo"
  by (simp_all add: streams_def demo_tcp_def demo_def demo_client_def ring_ok_def ring_count_def pending_def queue_but_def
    idle_requests_def mqtt_init_requests_def free_others_def listening_def waiting_def)

section \<open>Properties\<close>

text \<open>
  C13: on a TCP connection that appends what it accepts to its stream, \<open>mqtt_publish\<close> always returns
  to a connected client.  When a request object is free and the packet leaves one byte of the ring buffer unused, it
  returns \<open>ERR_OK\<close>, the bytes on the connection and in the ring together grow by exactly the PUBLISH packet of the protocol,
  and a request with the packet identifier and the callback is the last of the queue.  Otherwise it returns
  \<open>ERR_MEM\<close> and stream and queue are as before.  In both cases nothing is reported to the application and the connection
  state stays.  Excluded is the one length with which the packet fills the ring.
\<close>

theorem mqtt_publish_outcome:
  assumes "streams e st" and "conn_state (client s) \<noteq> TCP_DISCONNECTED" and "conn (client s)" and "ring_ok (outbuf (client s))"
    and "pending s is" and "body_length qos topic pay < 65532" and "bs = publish_packet qos retain topic (fst (drawn qos s)) pay"
    and "ring_count (outbuf (client s)) + length bs \<noteq> 256"
  shows "\<exists>s'. ring_ok (outbuf (client s')) \<and> silent s s' \<and> (if length is < length (req_list (client s)) \<and> fits bs s
    then mqtt_publish e topic (Some pay) (of_nat (length pay)) qos retain cb s = Some (ERR_OK, s') \<and> sent st s' = sent st s @ bs \<and>
      (\<exists>n. pending s' (is @ [n]) \<and> req_cb (req_list (client s') ! n) = cb \<and> pkt_id (req_list (client s') ! n) = fst (drawn qos s))
    else mqtt_publish e topic (Some pay) (of_nat (length pay)) qos retain cb s = Some (ERR_MEM, s') \<and> sent st s' = sent st s \<and>
      pending s' is)"
  by (rule publish_result [OF assms])

theorem mqtt_publish_outcome_witness:
  "\<exists>s'. mqtt_publish demo_tcp [116] (Some [1, 2, 3]) 3 0 0 (Some 7) demo = Some (ERR_OK, s') \<and>
    sent (\<lambda>c. c) s' = [0x30, 6, 0, 1, 116, 1, 2, 3]"
proof -
  have pk: "publish_packet 0 0 [116] (fst (drawn 0 demo)) [1, 2, 3] = [0x30, 6, 0, 1, 116, 1, 2, 3]"
    by (simp add: publish_packet_def publish_body_def fixed_header_def control_byte_def MSG_PUBLISH_def string_bytes_def u16_bytes_def
      remlen.simps hi8_def lo8_def)
  have s: "sent (\<lambda>c. c) demo = []" by (simp add: sent_def ring_content_def demo_ok) (simp add: demo_def)
  have l: "body_length 0 [116] [1, 2, 3] < 65532" by (simp add: body_length_def)
  show ?thesis
    using mqtt_publish_outcome [OF demo_ok(1) _ demo_ok(6,2,4) l refl, of 0 "Some 7"] by (auto simp: demo_ok pk s fits_def)
qed

text \<open>
  C34: a packet that fills the ring buffer to its last byte is accepted with \<open>ERR_OK\<close> and its request is
  queued, but the ring then looks empty: the packet and everything that was waiting in the ring before it
  are lost, and the stream the server sees continues without them.
\<close>

theorem mqtt_ring_full:
  assumes "streams e st" and "conn_state (client s) \<noteq> TCP_DISCONNECTED" and "conn (client s)" and "ring_ok (outbuf (client s))"
    and "pending s is" and "length is < length (req_list (client s))" and "body_length qos topic pay < 65532"
    and "ring_count (outbuf (client s)) + length (publish_packet qos retain topic (fst (drawn qos s)) pay) = 256"
  shows "\<exists>n s'. mqtt_publish e topic (Some pay) (of_nat (length pay)) qos retain cb s = Some (ERR_OK, s') \<and>
    pending s' (is @ [n]) \<and> sent st s' = st (tcp s)"
proof -
  obtain i s1 where d: "drawn qos s = (i, s1)" by fastforce
  with assms(8) have f: "ring_count (outbuf (client s)) + length (publish_packet qos retain topic i pay) = 256" by simp
  have "ring_content (fold mqtt_ringbuf_put (publish_packet qos retain topic i pay) (outbuf (client s))) = []"
    by (rule ring_overflow [OF assms(4) f])
  with publish_queued [OF assms(1-6) d assms(7) refl, of retain cb] f show ?thesis by auto
qed

theorem mqtt_ring_full_witness:
  "\<exists>n s'. mqtt_publish demo_tcp [116] (Some (replicate 250 7)) 250 0 0 None demo = Some (ERR_OK, s') \<and> pending s' [n] \<and>
    sent (\<lambda>c. c) s' = []"
proof -
  have b: "body_length 0 [116] (replicate 250 7) = 253" by (simp add: body_length_def)
  have "length (remlen 253) = 2" by (simp add: remlen.simps)
  then have l: "ring_count (outbuf (client demo)) + length (publish_packet 0 0 [116] (fst (drawn 0 demo)) (replicate 250 7)) = 256"
    by (simp add: length_packet b demo_ok)
  show ?thesis
    using mqtt_ring_full [OF demo_ok(1) _ demo_ok(6,2,4) _ _ l, of None] by (simp add: demo_ok b) (simp add: demo_def)
qed

text \<open>
  C32: while the client stays connected and hears nothing, every pending request is reported to
  the application as \<open>ERR_TIMEOUT\<close>, in the order in which the requests were made, within seven runs of the cyclic timer;
  afterwards the queue is empty, all request objects are free and the timer is still armed.
\<close>

theorem requests_time_out:
  assumes "waiting s" and "pending s is" and "patient 7 s"
  shows "\<exists>s'. fires 7 e s = Some s' \<and> waiting s' \<and> cyclic_timers s' = cyclic_timers s \<and> pending s' [] \<and>
    pend_req_queue (client s') = None \<and> events s' = events s @ timed_out (req_list (client s)) is"
proof -
  obtain j s' where s': "fires 7 e s = Some s'" "waiting s'" "pending s' (drop j is)" "cyclic_timers s' = cyclic_timers s"
    "events s' = events s @ timed_out (req_list (client s)) (take j is)"
    "drop j is = [] \<or> due_in s' (drop j is) + 5 * 7 = due_in s is"
    using fires_spec [OF assms, of e] by blast
  have "due_in s is \<le> 30" using assms(2) by (simp add: pending_def queue_but_def due_in_def MQTT_REQ_TIMEOUT_def)
  then have "drop j is = []" using s'(6) by auto
  then have "take j is = is" "drop j is = []" by simp_all
  with s' show ?thesis by (auto simp: pending_def queue_but_def)
qed

definition busy_demo :: "u8 list mst" where
  "busy_demo = upd_client (\<lambda>cl. cl\<lparr>pend_req_queue := Some 2, req_list := idle_requests
     [2 := \<lparr>req_next = Some 0, req_cb = Some 7, pkt_id = 1, timeout_diff = 12\<rparr>,
      0 := \<lparr>req_next = None, req_cb = Some 8, pkt_id = 2, timeout_diff = 18\<rparr>]\<rparr>) demo"

theorem requests_time_out_witness:
  "\<exists>s'. fires 7 demo_tcp busy_demo = Some s' \<and> events s' = [Request 7 ERR_TIMEOUT, Request 8 ERR_TIMEOUT]"
proof -
  have "waiting busy_demo" by (simp add: busy_demo_def upd_client_def waiting_def demo_def demo_client_def)
  moreover have "pending busy_demo [2, 0]"
    by (simp add: busy_demo_def upd_client_def pending_def queue_but_def idle_requests_def mqtt_init_requests_def free_others_def
      total_def diff_def MQTT_REQ_TIMEOUT_def upd_nth)
  moreover have "patient 7 busy_demo"
    by (simp add: busy_demo_def upd_client_def patient_def demo_def demo_client_def MQTT_CYCLIC_TIMER_INTERVAL_def)
  ultimately obtain s' where "fires 7 demo_tcp busy_demo = Some s'"
    "events s' = events busy_demo @ timed_out (req_list (client busy_demo)) [2, 0]"
    using requests_time_out by blast
  then show ?thesis
    by (simp add: busy_demo_def upd_client_def demo_def timed_out_def List.map_filter_simps idle_requests_def mqtt_init_requests_def)
qed

text \<open>
  C14: what one client publishes another one reads.  When the content of a received pbuf chain is a
  sequence of QoS 0 PUBLISH packets, each with at most 123 bytes of topic and payload, \<open>mqtt_parse_incoming\<close> returns
  with \<open>MQTT_CONNECT_ACCEPTED\<close>; wherever the chain is split into pbufs, the application has been called for each message
  in order, with the topic and payload length and then the whole payload marked as last, and the parser is ready for the
  next message.
\<close>

theorem published_delivered:
  assumes "chain ps p (a # as)" and "tot_ok ps (a # as)" and "content ps (a # as) = concat (map packet ms)"
    and "list_all small ms" and "listening s"
  shows "\<exists>s'. mqtt_parse_incoming e p ps s = Some (STATUS_ACCEPTED, s') \<and> listening s' \<and>
    events s' = events s @ concat (map announced ms)"
  using parse_messages [OF assms(1,2,4,5), of 0 e 0] assms(3) by (simp add: mqtt_parse_incoming_def del: content_simps)

theorem published_delivered_witness:
  "\<exists>s'. mqtt_parse_incoming demo_tcp (Some 8) (two_parts [0x30, 5, 0, 1, 116, 1, 2, 0x31, 4, 0, 2, 97, 98] 4) demo =
      Some (STATUS_ACCEPTED, s') \<and>
    events s' = [Incoming_publish [116] 2, Incoming_data [1, 2] True, Incoming_publish [97, 98] 0, Incoming_data [] True]"
proof -
  let ?bs = "[0x30, 5, 0, 1, 116, 1, 2, 0x31, 4, 0, 2, 97, 98] :: u8 list" and ?ms = "[(0, [116], [1, 2]), (1, [97, 98], [])] :: message list"
  have c: "concat (map packet ?ms) = ?bs"
    by (simp add: publish_packet_def publish_body_def fixed_header_def control_byte_def MSG_PUBLISH_def string_bytes_def u16_bytes_def
      remlen.simps hi8_def lo8_def)
  have t: "4 \<le> length ?bs" "length ?bs < 65536" by simp_all
  have cc: "content (two_parts ?bs 4) [8, 40] = concat (map packet ?ms)" unfolding c by (rule two_parts_chain(3) [OF t])
  obtain s' where "mqtt_parse_incoming demo_tcp (Some 8) (two_parts ?bs 4) demo = Some (STATUS_ACCEPTED, s')"
    "events s' = events demo @ concat (map announced ?ms)"
    using published_delivered [OF two_parts_chain(1,2) [OF t] cc _ demo_ok(5), of demo_tcp] by auto
  then show ?thesis by (simp add: demo_def delivered_def)
qed

text \<open>
  C33: a QoS 0 PUBLISH packet of 131 to 16386 bytes with a topic of at most 122 bytes, at the start of a chain whose
  first pbuf holds at least 128 bytes but not the whole packet, makes the parser of a client that listens (callbacks set, no
  message begun) loop for ever.  No iteration is undefined
  or returns: from some iteration on, \<open>in_offset\<close> is the end of the first pbuf, which is before the end of the chain, and every
  further iteration leaves \<open>in_offset\<close>, the remaining length, the header and the client as they are.  So
  \<open>mqtt_parse_incoming\<close> has no result.  (A longer topic is answered by closing the connection.)
\<close>

theorem parse_hangs:
  assumes "chain ps (Some a) (a # as)" and "tot_ok ps (a # as)" and "listening s" and "length topic \<le> 122"
    and "content ps (a # as) = publish_packet 0 r topic i pay @ rest" and "128 \<le> 2 + length topic + length pay"
    and "2 + length topic + length pay < 16384" and "pbufs ps a = Some b" and "128 \<le> unat (len b)"
    and "unat (len b) < length (publish_packet 0 r topic i pay)"
  shows "\<exists>m rem lb s'. len b < tot_len b \<and>
    (\<forall>n \<ge> m. parse_run e (Some a) ps n (Going 0 0 0 0 s) = Some (Going (len b) rem 3 lb s')) \<and>
    mqtt_parse_incoming e (Some a) ps s = None"
proof -
  have "length (publish_packet 0 r topic i pay) = 2 + length topic + length pay + 3"
    using remlen2 [OF assms(6,7)] by (simp add: length_packet body_length_def)
  with assms(10) have l: "unat (len b) < 2 + length topic + length pay + 3" by simp
  obtain m rem lb s' where m: "parse_run e (Some a) ps m (Going 0 0 0 0 s) = Some (Going (len b) rem 3 lb s')"
    "stuck a ps (len b) rem 3 lb s'"
    using long_message_stuck [OF assms(1-5) refl assms(6-9) l, of e] by blast
  note st = stuck_stays [OF m(2), of e]
  have "parse_run e (Some a) ps n (Going 0 0 0 0 s) = Some (Going (len b) rem 3 lb s')" if "m \<le> n" for n
    using parse_run_trans [OF m(1) parse_run_stays [OF st], of "n - m"] that by simp
  moreover have "mqtt_parse_incoming e (Some a) ps s = None"
    unfolding mqtt_parse_incoming_def by (rule loop_never [OF m(1) st])
  moreover have "len b < tot_len b" using m(2) assms(8) by (auto simp: stuck_def)
  ultimately show ?thesis by blast
qed

theorem parse_hangs_witness:
  "\<exists>m rem lb s'. \<forall>n \<ge> m. parse_run demo_tcp (Some 8) (two_parts (publish_packet 0 0 [116] 0 (replicate 200 7)) 150) n
      (Going 0 0 0 0 demo) = Some (Going 150 rem 3 lb s')"
proof -
  let ?bs = "publish_packet 0 0 [116] 0 (replicate 200 7)"
  have b: "body_length 0 [116] (replicate 200 7) = 203" by (simp add: body_length_def)
  have "length (remlen 203) = 2" by (simp add: remlen.simps)
  then have l: "length ?bs = 206" by (simp add: length_packet b)
  then have t: "150 \<le> length ?bs" "length ?bs < 65536" by simp_all
  note ch = two_parts_chain [OF t]
  show ?thesis
    using parse_hangs [OF ch(1,2) demo_ok(5) _ _ _ _ ch(4), of "[116]" 0 0 "replicate 200 7" "[]" demo_tcp] ch(3) l
    by (simp add: new_pbuf_def)
qed

text \<open>
  C35: the parser stores every byte of a fixed header whose length field does not end.  When all but the first of
  129 bytes have the continuation bit, 128 iterations put the first 128 bytes into \<open>rx_buffer\<close>, which is then full, and the
  next iteration, which still reads the header, fetches byte 128 and stores it at index 128, behind the end of \<open>rx_buffer\<close>.
  Every access before that one is defined.  (The shifts of the remaining length by 32 bits and more, from the seventh byte
  of the header on, are taken to yield 0; they do not decide where a byte is stored.)
\<close>

theorem header_overrun:
  assumes "chain ps p (a # as)" and "tot_ok ps (a # as)" and "128 < length (content ps (a # as))"
    and "list_all (\<lambda>b. b AND 0x80 \<noteq> 0) (take 128 (drop 1 (content ps (a # as))))"
    and "msg_idx (client s) = 0" and "length (rx_buffer (client s)) = 128"
  shows "\<exists>rem b s'. parse_run e p ps 128 (Going 0 0 0 0 s) = Some (Going 128 rem 128 b s') \<and> b AND 0x80 \<noteq> 0 \<and>
    rx_buffer (client s') = take 128 (content ps (a # as)) \<and> unat (msg_idx (client s')) = length (rx_buffer (client s')) \<and>
    pbuf_get_at p 128 ps = Some (content ps (a # as) ! 128) \<and> rx_store (content ps (a # as) ! 128) s' = None \<and>
    parse_step e p ps 128 rem 128 b s' = None \<and> mqtt_parse_incoming e p ps s = None"
proof -
  let ?C = "content ps (a # as)"
  have "\<forall>i. 1 \<le> i \<and> i \<le> 128 \<longrightarrow> ?C ! i AND 0x80 \<noteq> 0"
  proof (intro allI impI)
    fix i :: nat assume "1 \<le> i \<and> i \<le> 128"
    then obtain j where j: "i = Suc j" "j < 128" by (cases i) auto
    define D where "D = drop 1 ?C"
    have l: "j < length (take 128 D)" and e: "take 128 D ! j = ?C ! i" using j assms(3) by (simp_all add: D_def del: content_simps)
    from assms(4) [folded D_def, unfolded list_all_length, rule_format, OF l] show "?C ! i AND 0x80 \<noteq> 0" unfolding e .
  qed
  from header_run [OF assms(1-3) this assms(5,6), of 128 e] obtain rem b s' where
    r: "parse_run e p ps 128 (Going 0 0 0 0 s) = Some (Going 128 rem 128 b s')" and m: "msg_idx (client s') = 128"
    and l: "length (rx_buffer (client s')) = 128" and t: "rx_buffer (client s') = take 128 ?C" and b: "b AND 0x80 \<noteq> 0"
    by (auto simp del: content_simps)
  note f = header_full [OF assms(1-3) m l b]
  from loop_undefined [OF r f(3)] have "mqtt_parse_incoming e p ps s = None" by (simp add: mqtt_parse_incoming_def)
  moreover have "unat (msg_idx (client s')) = length (rx_buffer (client s'))" using m l by simp
  ultimately show ?thesis using r t b f by blast
qed

theorem header_overrun_witness:
  "\<exists>rem b s'. parse_run demo_tcp (Some 8) (two_parts (replicate 129 0xFF) 64) 128 (Going 0 0 0 0 demo) = Some (Going 128 rem 128 b s') \<and>
      rx_buffer (client s') = replicate 128 0xFF \<and> rx_store 0xFF s' = None \<and>
      parse_step demo_tcp (Some 8) (two_parts (replicate 129 0xFF) 64) 128 rem 128 b s' = None"
proof -
  have t: "64 \<le> length (replicate 129 (0xFF :: u8))" "length (replicate 129 (0xFF :: u8)) < 65536" by simp_all
  note ch = two_parts_chain [OF t]
  have a: "list_all (\<lambda>b. b AND 0x80 \<noteq> 0) (take 128 (drop 1 (replicate 129 (0xFF :: u8))))" by (simp add: list_all_length)
  show ?thesis
    using header_overrun [OF ch(1,2), of demo demo_tcp] demo_ok(5) a unfolding ch(3) by (auto simp: listening_def simp del: parse_run.simps)
qed

end
