(* ===== verification/Mqtt_Safe.thy ===== *)
theory Mqtt_Safe
  imports Mqtt_Spec Lwip_Ram
begin

text \<open>
  The invariant of the MQTT client over all its entry points: the calls of the application, the callbacks of TCP and
  the cyclic timer.  While it holds every entry point but the receive callback returns, and every one keeps it.
  No assumption is made about TCP.  Requests that a broken SUBACK has lost are allowed for, so the
  queue is a \<open>queue_but UNIV\<close>.
\<close>

section \<open>The queue\<close>

abbreviation queued :: "mqtt_request_t list \<Rightarrow> nat option \<Rightarrow> nat list \<Rightarrow> bool" where
  "queued \<equiv> queue_but UNIV"

lemma free_UNIV [simp]: "free_others rs UNIV" "free_others rs (insert a UNIV)"
  by (simp_all add: free_others_def)

lemma queued_iff: "queued rs p is \<longleftrightarrow> rchain rs p is \<and> distinct is \<and> total rs is \<le> MQTT_REQ_TIMEOUT"
  by (simp add: queue_but_def)


lemma rchain_last: "rchain rs p (as @ bs) \<Longrightarrow> as \<noteq> [] \<Longrightarrow> rchain rs (req_next (rs ! last as)) bs"
  by (induction as arbitrary: p) (auto split: if_splits)

lemma rchain_relink:
  assumes "rchain rs p (as @ cs)" and "as \<noteq> []" and "distinct as"
    and "rchain (rs[last as := (rs ! last as)\<lparr>req_next := q\<rparr>]) q bs"
  shows "rchain (rs[last as := (rs ! last as)\<lparr>req_next := q\<rparr>]) p (as @ bs)"
  using assms
proof (induction as arbitrary: p)
  case (Cons a as)
  show ?case
  proof (cases "as = []")
    case True
    with Cons.prems show ?thesis by (simp add: upd_nth)
  next
    case False
    have "last as \<noteq> a" using Cons.prems(3) False by auto
    with Cons.IH [of "req_next (rs ! a)"] Cons.prems False show ?thesis by (simp add: upd_nth)
  qed
qed simp

lemma find_request_spec:
  assumes "rchain rs p is"
  shows "(\<forall>n \<in> set is. pkt_id (rs ! n) \<noteq> i) \<and> (\<exists>prev'. find_request p prev i rs = Some (None, prev')) \<or>
    (\<exists>as n bs. is = as @ n # bs \<and> pkt_id (rs ! n) = i \<and>
      find_request p prev i rs = Some (Some n, if as = [] then prev else Some (last as)))"
  using assms
proof (induction "is" arbitrary: p prev)
  case Nil
  then show ?case by (subst (1 2) find_request.simps) auto
next
  case (Cons a "is")
  then have p: "p = Some a" "a < length rs" "rchain rs (req_next (rs ! a)) is" by simp_all
  show ?case
  proof (cases "pkt_id (rs ! a) = i")
    case True
    then have "find_request p prev i rs = Some (Some a, prev)" using p by (subst find_request.simps) simp
    with True show ?thesis by (intro disjI2 exI [of _ "[]"]) auto
  next
    case False
    then have e: "find_request p prev i rs = find_request (req_next (rs ! a)) (Some a) i rs"
      using p by (subst find_request.simps) simp
    from Cons.IH [OF p(3), of "Some a"] show ?thesis
    proof (elim disjE exE conjE)
      fix as n bs
      assume h: "is = as @ n # bs" "pkt_id (rs ! n) = i"
        "find_request (req_next (rs ! a)) (Some a) i rs = Some (Some n, if as = [] then Some a else Some (last as))"
      then show ?thesis by (intro disjI2 exI [of _ "a # as"] exI [of _ n] exI [of _ bs]) (simp add: e)
    qed (use False e in auto)
  qed
qed

lemma unlink_chain:
  assumes "rchain rs p (as @ n # bs)" and "distinct (as @ n # bs)"
    and "rs1 = (if as = [] then rs else rs[last as := (rs ! last as)\<lparr>req_next := req_next (rs ! n)\<rparr>])"
  shows "rchain rs1 (if as = [] then req_next (rs ! n) else p) (as @ bs)" and "rchain rs (req_next (rs ! n)) bs"
    and "rs1 ! n = rs ! n" and "timeout_diff (rs1 ! j) = timeout_diff (rs ! j)" and "length rs1 = length rs"
proof -
  have d: "distinct as" "n \<notin> set as" "set as \<inter> set bs = {}" using assms(2) by auto
  show cb: "rchain rs (req_next (rs ! n)) bs" using rchain_last [of rs p "as @ [n]" bs] assms(1) by simp
  have "last as \<notin> set bs" if "as \<noteq> []" using d(3) last_in_set [OF that] by blast
  then have "rs1 ! j = rs ! j" if "j \<in> set bs" for j using that by (auto simp: assms(3) upd_nth)
  with cb rchain_cong [of rs1 rs bs "req_next (rs ! n)"] have "rchain rs1 (req_next (rs ! n)) bs" by (simp add: assms(3))
  with rchain_relink [OF assms(1) _ d(1), of "req_next (rs ! n)" bs]
  show "rchain rs1 (if as = [] then req_next (rs ! n) else p) (as @ bs)" by (auto simp: assms(3))
  show "rs1 ! n = rs ! n" using d(2) by (auto simp: assms(3) upd_nth)
  show "timeout_diff (rs1 ! j) = timeout_diff (rs ! j)" "length rs1 = length rs" by (auto simp: assms(3) upd_nth)
qed

text \<open>Taking a request out hands its remaining time to the next one.\<close>

lemma taken_total:
  assumes "rchain rs (req_next (rs ! n)) bs" and "distinct (as @ n # bs)" and "total rs (as @ n # bs) \<le> 30"
    and "\<And>j. timeout_diff (rs' ! j) = (if req_next (rs ! n) = Some j \<and> j < length rs then timeout_diff (rs ! j) + timeout_diff (rs ! n)
      else timeout_diff (rs ! j))"
  shows "total rs' (as @ bs) \<le> 30"
proof (cases bs)
  case Nil
  then have "req_next (rs ! n) = None" using assms(1) by simp
  then have "total rs' (as @ bs) = total rs (as @ bs)" by (intro total_cong) (simp add: assms(4))
  with assms(3) show ?thesis by simp
next
  case (Cons k bs')
  then have k: "req_next (rs ! n) = Some k" "k < length rs" using assms(1) by simp_all
  have "total rs' as = total rs as" "total rs' bs' = total rs bs'"
    using k assms(2) Cons by (auto intro!: total_cong simp: assms(4))
  moreover have "diff rs' k = diff rs k + diff rs n"
    using k assms(3) Cons by (simp add: diff_def assms(4) unat_word_ariths)
  ultimately show ?thesis using assms(3) Cons by simp
qed

lemma take_hit:
  assumes "queued rs p (as @ n # bs)" and "find_request p None i rs = Some (Some n, if as = [] then None else Some (last as))"
  shows "\<exists>q rs'. mqtt_take_request p i rs = Some (Some n, q, rs') \<and> queued rs' q (as @ bs) \<and> length rs' = length rs \<and> n < length rs"
proof -
  define rs1 where "rs1 = (if as = [] then rs else rs[last as := (rs ! last as)\<lparr>req_next := req_next (rs ! n)\<rparr>])"
  define q where "q = (if as = [] then req_next (rs ! n) else p)"
  define rs2 where "rs2 = (case req_next (rs1 ! n) of None \<Rightarrow> rs1
      | Some k \<Rightarrow> rs1[k := (rs1 ! k)\<lparr>timeout_diff := timeout_diff (rs1 ! k) + timeout_diff (rs1 ! n)\<rparr>])"
  define rs3 where "rs3 = rs2[n := (rs2 ! n)\<lparr>req_next := None\<rparr>]"
  have c: "rchain rs p (as @ n # bs)" and d: "distinct (as @ n # bs)" and tot: "total rs (as @ n # bs) \<le> 30"
    using assms(1) by (auto simp: queued_iff MQTT_REQ_TIMEOUT_def)
  note u = unlink_chain [OF c d rs1_def, folded q_def]
  have next3: "req_next (rs3 ! j) = req_next (rs1 ! j)" if "j \<noteq> n" for j
    using that by (auto simp: rs3_def rs2_def upd_nth split: option.split)
  have l3: "length rs3 = length rs1" by (simp add: rs3_def rs2_def split: option.split)
  have "j \<noteq> n" if "j \<in> set (as @ bs)" for j using d that by auto
  with u(1) rchain_cong [OF l3, of "as @ bs" q] next3 have c3: "rchain rs3 q (as @ bs)" by blast
  have "timeout_diff (rs3 ! j) = (if req_next (rs ! n) = Some j \<and> j < length rs then timeout_diff (rs ! j) + timeout_diff (rs ! n)
      else timeout_diff (rs ! j))" for j
    by (auto simp: rs3_def rs2_def upd_nth u(3,4,5) split: option.split)
  then have "total rs3 (as @ bs) \<le> 30" by (rule taken_total [OF u(2) d tot])
  moreover have "(case if as = [] then None else Some (last as) of None \<Rightarrow> (req_next (rs ! n), rs)
      | Some pr \<Rightarrow> (p, rs[pr := (rs ! pr)\<lparr>req_next := req_next (rs ! n)\<rparr>])) = (q, rs1)"
    by (simp add: q_def rs1_def)
  then have "mqtt_take_request p i rs = Some (Some n, q, rs3)"
    using assms(2) by (simp add: mqtt_take_request_def Let_def rs2_def [symmetric] rs3_def)
  ultimately show ?thesis using c3 d l3 u(5) rchain_less [OF c] by (auto simp: queued_iff MQTT_REQ_TIMEOUT_def)
qed

lemma take_spec:
  assumes "queued rs p is"
  shows "mqtt_take_request p i rs = Some (None, p, rs) \<or>
    (\<exists>n q rs' is'. mqtt_take_request p i rs = Some (Some n, q, rs') \<and> queued rs' q is' \<and> n < length rs \<and> n \<notin> set is' \<and>
      length rs' = length rs \<and> length is' < length is)"
proof -
  have c: "rchain rs p is" using assms by (simp add: queued_iff)
  from find_request_spec [OF c, of i None] show ?thesis
  proof (elim disjE exE conjE)
    fix as n bs
    assume h: "is = as @ n # bs" "find_request p None i rs = Some (Some n, if as = [] then None else Some (last as))"
    obtain q rs' where "mqtt_take_request p i rs = Some (Some n, q, rs')" "queued rs' q (as @ bs)" "length rs' = length rs" "n < length rs"
      using take_hit [OF assms [unfolded h(1)] h(2)] by blast
    moreover have "n \<notin> set (as @ bs)" using assms h(1) by (auto simp: queued_iff)
    ultimately show ?thesis using h(1) by (intro disjI2 exI [of _ n] exI [of _ q] exI [of _ rs'] exI [of _ "as @ bs"]) auto
  qed (auto simp: mqtt_take_request_def)
qed

lemma clear_spec: "queued rs p is \<Longrightarrow> \<exists>rs'. clear_loop p rs = Some rs' \<and> length rs' = length rs"
proof (induction "is" arbitrary: rs p)
  case Nil
  then show ?case by (subst clear_loop.simps) (simp add: queued_iff)
next
  case (Cons r "is")
  then have "p = Some r" "r < length rs" by (simp_all add: queued_iff)
  with Cons.IH [OF delete_queue [OF Cons.prems]] show ?case by (subst clear_loop.simps) (auto simp: delete_fields)
qed

lemma deleted_other:
  assumes "queued rs p is" and "n \<notin> set is"
  shows "queued (mqtt_delete_request n rs) p is"
proof -
  have "mqtt_delete_request n rs ! i = rs ! i" if "i \<in> set is" for i using assms(2) that by (intro delete_fields(2)) auto
  then show ?thesis
    using assms(1) rchain_cong [of "mqtt_delete_request n rs" rs "is" p] total_cong [of "is" "mqtt_delete_request n rs" rs]
    by (simp add: queued_iff delete_fields(1))
qed

lemma qos0_spec: "queued rs p is \<Longrightarrow> \<exists>q rs' ns' is'. qos0_loop p rs ns = Some (q, rs', ns') \<and> queued rs' q is' \<and> length rs' = length rs"
proof (induction "length is" arbitrary: rs p ns "is" rule: less_induct)
  case less
  from take_spec [OF less.prems, of 0] show ?case
  proof (elim disjE exE conjE)
    assume "mqtt_take_request p 0 rs = Some (None, p, rs)"
    with less.prems show ?thesis by (subst qos0_loop.simps) auto
  next
    fix n q rs' is'
    assume h: "mqtt_take_request p 0 rs = Some (Some n, q, rs')" "queued rs' q is'" "n \<notin> set is'" "length rs' = length rs" "length is' < length is"
    from less.hyps [OF h(5) deleted_other [OF h(2,3)]] h(1,4) show ?thesis
      by (subst qos0_loop.simps) (auto simp: Let_def delete_fields)
  qed
qed

section \<open>The ring\<close>

lemma ring_append:
  "ring_ok rb \<Longrightarrow> ring_ok (mqtt_output_append_u8 b rb)"
  "ring_ok rb \<Longrightarrow> ring_ok (mqtt_output_append_u16 v rb)"
  "ring_ok rb \<Longrightarrow> ring_ok (mqtt_output_append_buf bs rb)"
  "ring_ok rb \<Longrightarrow> ring_ok (mqtt_output_append_string bs n rb)"
  "ring_ok rb \<Longrightarrow> ring_ok (mqtt_output_append_fixed_header ty d q re r rb)"
  by (simp_all add: mqtt_output_append_u8_def append_u16_fold append_buf_fold mqtt_output_append_string_def fixed_header_fold
    ring_ok_put ring.fold_invar Let_def)

lemma ring_publish: "ring_ok rb \<Longrightarrow> ring_ok (append_publish topic pay n qos retain i r rb)"
  by (simp add: append_publish_def Let_def ring_append split: option.split)

lemma ring_subscribe: "ring_ok rb \<Longrightarrow> ring_ok (append_subscribe topic qos sub i r rb)"
  by (simp add: append_subscribe_def Let_def ring_append)

lemma ring_connect: "ring_ok rb \<Longrightarrow> ring_ok (append_connect info fl r rb)"
  by (simp add: append_connect_def append_optional_def Let_def ring_append)

lemma ring_ok_chunk: "ring_ok rb \<Longrightarrow> n \<le> mqtt_ringbuf_linear_read_length rb \<Longrightarrow> ring_ok (mqtt_ringbuf_advance_get_idx n rb)"
  by (intro ring_ok_adv) (simp_all add: word_le_nat_alt linear_len)

lemma send_ring: "ring_ok rb \<Longrightarrow> ring_ok (fst (mqtt_output_send e rb c))"
  by (auto simp: mqtt_output_send_def Let_def split: prod.split intro!: ring_ok_chunk)

section \<open>The invariant\<close>

definition timed :: "mqtt_conn_state \<Rightarrow> bool" where
  "timed st \<longleftrightarrow> st = MQTT_CONNECTING \<or> st = MQTT_CONNECTED"

definition mqtt_inv :: "'t mst \<Rightarrow> bool" where
  "mqtt_inv s \<longleftrightarrow> (\<exists>is. queued (req_list (client s)) (pend_req_queue (client s)) is) \<and>
     length (req_list (client s)) = MQTT_REQ_MAX_IN_FLIGHT \<and> ring_ok (outbuf (client s)) \<and>
     length (rx_buffer (client s)) = MQTT_VAR_HEADER_BUFFER_LEN \<and>
     (conn_state (client s) \<noteq> TCP_DISCONNECTED \<longrightarrow> conn (client s)) \<and>
     cyclic_timers s \<le> (if timed (conn_state (client s)) then 1 else 0)"

text \<open>An outcome: the call returns, and the invariant holds again.\<close>

definition fine :: "'t mst option \<Rightarrow> bool" where
  "fine r \<longleftrightarrow> (case r of None \<Rightarrow> False | Some s \<Rightarrow> mqtt_inv s)"

lemma fine_Some [simp]: "fine (Some s) \<longleftrightarrow> mqtt_inv s" "\<not> fine None"
  by (simp_all add: fine_def)

lemma send_fine: "mqtt_inv s \<Longrightarrow> conn (client s) \<Longrightarrow> fine (client_send e s)"
  using send_ring [of "outbuf (client s)" e "tcp s"]
  by (auto simp: client_send_def mqtt_inv_def upd_client_def split: prod.split)

lemma inv_upd_output: "mqtt_inv s \<Longrightarrow> ring_ok (f (outbuf (client s))) \<Longrightarrow> mqtt_inv (upd_output f s)"
  by (simp add: mqtt_inv_def upd_output_def upd_client_def)

lemma close_fine:
  assumes "\<exists>is. queued (req_list (client s)) (pend_req_queue (client s)) is" and "length (req_list (client s)) = MQTT_REQ_MAX_IN_FLIGHT"
    and "ring_ok (outbuf (client s))" and "length (rx_buffer (client s)) = MQTT_VAR_HEADER_BUFFER_LEN" and "cyclic_timers s \<le> 1"
  shows "\<exists>s'. mqtt_close e reason s = Some s' \<and> mqtt_inv s' \<and> conn_state (client s') = TCP_DISCONNECTED"
proof -
  obtain rs' where "clear_loop (pend_req_queue (client s)) (req_list (client s)) = Some rs'" "length rs' = length (req_list (client s))"
    using clear_spec assms(1) by blast
  moreover have "queued rs' None []" for rs' by (simp add: queued_iff)
  ultimately have "case mqtt_close e reason s of None \<Rightarrow> False | Some s' \<Rightarrow> mqtt_inv s' \<and> conn_state (client s') = TCP_DISCONNECTED"
    using assms(2-5)
    by (auto simp: mqtt_close_def mqtt_clear_requests_def mqtt_inv_def upd_client_def notify_def timed_def Let_def split: prod.split)
  then show ?thesis by (auto split: option.splits)
qed

lemma close_inv: "mqtt_inv s \<Longrightarrow> \<exists>s'. mqtt_close e reason s = Some s' \<and> mqtt_inv s' \<and> conn_state (client s') = TCP_DISCONNECTED"
  by (rule close_fine) (auto simp: mqtt_inv_def split: if_splits)

section \<open>The calls of the application\<close>

lemma created_inv:
  assumes "mqtt_inv s" and "mqtt_create_request i cb (req_list (client s)) = (r, rs)"
    and "s' = upd_client (\<lambda>cl. cl\<lparr>req_list := rs\<rparr>) s"
  shows "r = None \<and> mqtt_inv s' \<or> (\<exists>n is. r = Some n \<and> rchain rs (pend_req_queue (client s)) is \<and> distinct is \<and> n \<notin> set is \<and>
    n < length rs \<and> length rs = MQTT_REQ_MAX_IN_FLIGHT \<and> req_next (rs ! n) = None \<and> total rs is \<le> MQTT_REQ_TIMEOUT)"
proof -
  obtain "is" where q: "queued (req_list (client s)) (pend_req_queue (client s)) is" using assms(1) by (auto simp: mqtt_inv_def)
  show ?thesis
  proof (cases r)
    case None
    then have "rs = req_list (client s)" using create_spec [OF q, of i cb] assms(2) by auto
    with None assms(1,3) show ?thesis by (simp add: mqtt_inv_def upd_client_def)
  next
    case (Some n)
    then have n: "n < length (req_list (client s))" "n \<notin> set is"
      and rs: "rs = (req_list (client s))[n := (req_list (client s) ! n)\<lparr>req_next := None, req_cb := cb, pkt_id := i\<rparr>]"
      using create_spec [OF q, of i cb] assms(2) by auto
    from created_queue [OF q n(2,1) rs] Some n rs q assms(1) show ?thesis
      by (auto simp: queued_iff mqtt_inv_def)
  qed
qed

lemma queue_send_fine:
  assumes "mqtt_inv s" and "conn (client s)" and "rchain rs (pend_req_queue (client s)) is" and "distinct is" and "n \<notin> set is"
    and "n < length rs" and "length rs = MQTT_REQ_MAX_IN_FLIGHT" and "req_next (rs ! n) = None" and "total rs is \<le> MQTT_REQ_TIMEOUT"
    and "s' = upd_client (\<lambda>cl. cl\<lparr>req_list := rs\<rparr>) s" and "ring_ok (f (outbuf (client s)))"
  shows "mqtt_inv (upd_client (\<lambda>cl. cl\<lparr>req_list := mqtt_delete_request n (req_list cl)\<rparr>) s')"
    and "fine (map_option snd (queue_and_send e n (upd_output f s')))"
proof -
  have q: "queued rs (pend_req_queue (client s)) is" using assms(3,4,9) by (simp add: queued_iff)
  show "mqtt_inv (upd_client (\<lambda>cl. cl\<lparr>req_list := mqtt_delete_request n (req_list cl)\<rparr>) s')"
    using deleted_other [OF q assms(5)] assms(1,7,10) by (auto simp: mqtt_inv_def upd_client_def delete_fields)
  obtain p' rs' where a: "mqtt_append_request (pend_req_queue (client s)) n rs = Some (p', rs')" "queued rs' p' (is @ [n])"
    "length rs' = length rs"
    using append_spec [OF assms(3,4) _ assms(9,5,6,8), of UNIV] by auto
  let ?t = "upd_client (\<lambda>cl. cl\<lparr>pend_req_queue := p', req_list := rs'\<rparr>) (upd_output f s')"
  have "mqtt_inv ?t" "conn (client ?t)"
    using assms(1,2,7,10,11) a by (auto simp: mqtt_inv_def upd_client_def upd_output_def)
  from send_fine [OF this, of e] a(1) show "fine (map_option snd (queue_and_send e n (upd_output f s')))"
    by (auto simp: queue_and_send_def assms(10) upd_output_fields upd_client_def fine_def Let_def split: option.splits)
qed

lemma request_fine:
  assumes "mqtt_inv s" and "conn (client s)" and "\<And>rb. ring_ok rb \<Longrightarrow> ring_ok (f rb)"
    and "mqtt_create_request i cb (req_list (client s)) = (r, rs)" and "s' = upd_client (\<lambda>cl. cl\<lparr>req_list := rs\<rparr>) s"
  shows "fine (map_option snd (case r of None \<Rightarrow> Some (ERR_MEM, s')
    | Some n \<Rightarrow> if full then Some (ERR_MEM, upd_client (\<lambda>cl. cl\<lparr>req_list := mqtt_delete_request n (req_list cl)\<rparr>) s')
        else queue_and_send e n (upd_output f s')))"
  using created_inv [OF assms(1,4,5)]
proof (elim disjE exE conjE)
  fix n "is"
  assume h: "r = Some n" "rchain rs (pend_req_queue (client s)) is" "distinct is" "n \<notin> set is" "n < length rs"
    "length rs = MQTT_REQ_MAX_IN_FLIGHT" "req_next (rs ! n) = None" "total rs is \<le> MQTT_REQ_TIMEOUT"
  have "ring_ok (f (outbuf (client s)))" using assms(1,3) by (simp add: mqtt_inv_def)
  from queue_send_fine [where f = f, OF assms(1,2) h(2-8) assms(5) this] h(1) show ?thesis by simp
qed simp

lemma inv_draw:
  assumes "mqtt_inv s" and "msg_generate_packet_id (client s) = (i, c)"
  shows "mqtt_inv (s\<lparr>client := c\<rparr>)" and "conn c = conn (client s)"
  using assms by (auto simp: msg_generate_packet_id_def Let_def mqtt_inv_def split: if_splits)

lemma publish_fine:
  assumes "mqtt_inv s"
  shows "fine (map_option snd (mqtt_publish e topic pay n qos retain cb s))"
proof (cases "conn_state (client s) = TCP_DISCONNECTED \<or> 0xFFFF - 2 < length topic")
  case True
  with assms show ?thesis by (auto simp: mqtt_publish_def)
next
  case False
  have cn: "conn (client s)" using assms False by (simp add: mqtt_inv_def)
  define t where "t = 2 + length topic + unat n"
  obtain tl i s1 where d: "(if 0 < qos then let (i, c) = msg_generate_packet_id (client s) in (t + 2, i, s\<lparr>client := c\<rparr>) else (t, 0, s)) =
      (tl, i, s1)" "mqtt_inv s1" "conn (client s1)"
  proof (cases "0 < qos")
    case True
    obtain i c where "msg_generate_packet_id (client s) = (i, c)" by fastforce
    with inv_draw [OF assms this] True cn that show ?thesis by simp
  qed (use assms cn that in simp)
  obtain r rs where c: "mqtt_create_request i cb (req_list (client s1)) = (r, rs)" by fastforce
  show ?thesis
    using False d(2) request_fine [OF d(2,3) ring_publish c refl]
    unfolding mqtt_publish_def t_def [symmetric] Let_def [of t] d by (simp add: Let_def c)
qed

lemma subscribe_fine:
  assumes "mqtt_inv s"
  shows "fine (map_option snd (mqtt_sub_unsub e topic qos cb sub s))"
proof (cases "conn_state (client s) = TCP_DISCONNECTED \<or> 0xFFFF - 2 < length topic")
  case True
  with assms show ?thesis by (auto simp: mqtt_sub_unsub_def)
next
  case False
  obtain i c where d: "msg_generate_packet_id (client s) = (i, c)" by fastforce
  have i: "mqtt_inv (s\<lparr>client := c\<rparr>)" "conn (client (s\<lparr>client := c\<rparr>))"
    using inv_draw [OF assms d] assms False by (simp_all add: mqtt_inv_def [of s])
  obtain r rs where c: "mqtt_create_request i cb (req_list c) = (r, rs)" by fastforce
  then have c': "mqtt_create_request i cb (req_list (client (s\<lparr>client := c\<rparr>))) = (r, rs)" by simp
  show ?thesis
    using False assms request_fine [OF i ring_subscribe c' refl] by (simp add: mqtt_sub_unsub_def Let_def d c)
qed

lemma disconnect_fine: "mqtt_inv s \<Longrightarrow> fine (mqtt_disconnect e s)"
  using close_fine [of "upd_client (\<lambda>cl. cl\<lparr>conn_state := TCP_DISCONNECTED\<rparr>) s" e 0]
  by (auto simp: mqtt_disconnect_def mqtt_inv_def [of s] upd_client_def split: if_splits)

lemma connect_inv: "mqtt_inv s \<Longrightarrow> mqtt_inv (snd (mqtt_client_connect e ip port cb info s))"
proof -
  assume i: "mqtt_inv s"
  have q: "queued rs None []" for rs by (simp add: queued_iff)
  have w: "ring_ok (outbuf (wiped_client c info cb))" "conn_state (wiped_client c info cb) = TCP_DISCONNECTED"
    "length (req_list (wiped_client c info cb)) = MQTT_REQ_MAX_IN_FLIGHT" "pend_req_queue (wiped_client c info cb) = None"
    "length (rx_buffer (wiped_client c info cb)) = MQTT_VAR_HEADER_BUFFER_LEN" for c
    by (simp_all add: wiped_client_def zeroed_client_def ring_ok_def MQTT_OUTPUT_RINGBUF_SIZE_def mqtt_init_requests_def)
  show ?thesis using i w q [THEN exI [of "\<lambda>is. queued rs None is" for rs]]
    by (auto simp: mqtt_client_connect_def Let_def mqtt_inv_def upd_client_def upd_output_def tcp_fail_def timed_def ring_connect
      split: prod.split sum.split)
qed

section \<open>The timer and the callbacks of TCP\<close>

lemma inv_same:
  assumes "mqtt_inv s" and "req_list (client s') = req_list (client s)" and "pend_req_queue (client s') = pend_req_queue (client s)"
    and "outbuf (client s') = outbuf (client s)" and "length (rx_buffer (client s')) = length (rx_buffer (client s))"
    and "conn_state (client s') = conn_state (client s)" and "conn (client s') = conn (client s)"
    and "cyclic_timers s' = cyclic_timers s"
  shows "mqtt_inv s'"
  using assms by (simp add: mqtt_inv_def)

lemma tick_fine:
  assumes "mqtt_inv s" and "cyclic_timers s = 0"
  shows "\<exists>go s'. keep_alive_tick e s = Some (go, s') \<and> mqtt_inv s' \<and> cyclic_timers s' = 0 \<and> (go \<longrightarrow> conn_state (client s') = conn_state (client s))"
proof -
  define s1 where "s1 = upd_client (\<lambda>cl. cl\<lparr>server_watchdog := server_watchdog cl + 1\<rparr>) s"
  have s1: "mqtt_inv s1" "cyclic_timers s1 = 0" using assms by (auto simp: s1_def upd_client_def intro: inv_same)
  define ka where "ka = unat (client_keep_alive (client s1))"
  obtain s2 where s2: "mqtt_close e STATUS_TIMEOUT s1 = Some s2" "mqtt_inv s2" "conn_state (client s2) = TCP_DISCONNECTED"
    using close_inv [OF s1(1)] by blast
  obtain go s3 where s3: "(if ka + ka div 2 < unat (server_watchdog (client s1)) * MQTT_CYCLIC_TIMER_INTERVAL
      then map_option (Pair False) (mqtt_close e STATUS_TIMEOUT s1) else Some (True, s1)) = Some (go, s3)"
    "mqtt_inv s3" "cyclic_timers s3 = 0" "go \<Longrightarrow> conn_state (client s3) = conn_state (client s)"
  proof (cases "ka + ka div 2 < unat (server_watchdog (client s1)) * MQTT_CYCLIC_TIMER_INTERVAL")
    case True
    with s2 that [of False s2] show ?thesis by (simp add: mqtt_inv_def timed_def)
  next
    case False
    with s1 that [of True s1] show ?thesis by (simp add: s1_def upd_client_def)
  qed
  define s4 where "s4 = upd_client (\<lambda>cl. cl\<lparr>cyclic_tick := cyclic_tick cl + 1\<rparr>) s3"
  have s4: "mqtt_inv s4" "cyclic_timers s4 = 0" "conn_state (client s4) = conn_state (client s3)"
    using s3 by (auto simp: s4_def upd_client_def intro: inv_same)
  define s5 where "s5 = upd_client (\<lambda>cl. cl\<lparr>cyclic_tick := 0\<rparr>) (upd_output (mqtt_output_append_fixed_header MSG_PINGREQ 0 0 0 0) s4)"
  have "mqtt_inv (upd_output (mqtt_output_append_fixed_header MSG_PINGREQ 0 0 0 0) s4)"
    using s4(1) by (intro inv_upd_output ring_append) (simp_all add: mqtt_inv_def)
  then have s5: "mqtt_inv s5" "cyclic_timers s5 = 0" "conn_state (client s5) = conn_state (client s3)"
    using s4 by (auto simp: s5_def upd_client_def upd_output_def intro: inv_same)
  show ?thesis
    using s3(1,4) s4 s5 unfolding keep_alive_tick_def s1_def [symmetric] Let_def ka_def [symmetric] s3(1)
    by (auto simp: s4_def [symmetric] s5_def [symmetric])
qed

lemma connected_tick:
  assumes "mqtt_inv s" and "conn_state (client s) = MQTT_CONNECTED"
  shows "\<exists>q rs ns. mqtt_request_time_elapsed t (pend_req_queue (client s)) (req_list (client s)) ns0 = Some (q, rs, ns) \<and>
    mqtt_inv (upd_client (\<lambda>cl. cl\<lparr>pend_req_queue := q, req_list := rs\<rparr>) (s\<lparr>events := ns, cyclic_timers := 0\<rparr>))"
proof -
  obtain "is" where "queued (req_list (client s)) (pend_req_queue (client s)) is" using assms(1) by (auto simp: mqtt_inv_def)
  from elapsed_spec [OF this, of t ns0] assms show ?thesis by (fastforce simp: mqtt_inv_def upd_client_def)
qed

lemma rearm: "mqtt_inv s \<Longrightarrow> cyclic_timers s = 0 \<Longrightarrow> timed (conn_state (client s)) \<Longrightarrow> mqtt_inv (s\<lparr>cyclic_timers := cyclic_timers s + 1\<rparr>)"
  by (simp add: mqtt_inv_def)

lemma fire_fine:
  assumes "mqtt_inv s" and "0 < cyclic_timers s"
  shows "fine (fire e s)"
proof -
  define s0 where "s0 = s\<lparr>cyclic_timers := cyclic_timers s - 1\<rparr>"
  have f: "fire e s = mqtt_cyclic_timer e s0" by (simp only: fire_def s0_def)
  have t: "timed (conn_state (client s))" "cyclic_timers s = 1" using assms by (auto simp: mqtt_inv_def split: if_splits)
  have s0: "mqtt_inv s0" "cyclic_timers s0 = 0" "client s0 = client s" using assms(1) t by (simp_all add: s0_def mqtt_inv_def)
  show ?thesis
  proof (cases "conn_state (client s) = MQTT_CONNECTING")
    case True
    define s1 where "s1 = upd_client (\<lambda>cl. cl\<lparr>cyclic_tick := cyclic_tick cl + 1\<rparr>) s0"
    have s1: "mqtt_inv s1" "cyclic_timers s1 = 0" "conn_state (client s1) = MQTT_CONNECTING"
      using s0 True by (auto simp: s1_def upd_client_def intro: inv_same)
    obtain s2 where s2: "mqtt_close e STATUS_TIMEOUT s1 = Some s2" "mqtt_inv s2" using close_inv [OF s1(1)] by blast
    show ?thesis using True s0(3) s2 rearm [OF s1(1,2)] s1(3)
      by (simp add: f mqtt_cyclic_timer_def Let_def s1_def [symmetric] timed_def)
  next
    case False
    then have c: "conn_state (client s) = MQTT_CONNECTED" using t(1) by (simp add: timed_def)
    obtain q rs ns where e: "mqtt_request_time_elapsed (of_nat MQTT_CYCLIC_TIMER_INTERVAL) (pend_req_queue (client s0)) (req_list (client s0))
        (events s0) = Some (q, rs, ns)"
      "mqtt_inv (upd_client (\<lambda>cl. cl\<lparr>pend_req_queue := q, req_list := rs\<rparr>) (s0\<lparr>events := ns, cyclic_timers := 0\<rparr>))"
      using connected_tick [OF s0(1)] c s0(3) by metis
    define s1 where "s1 = upd_client (\<lambda>cl. cl\<lparr>pend_req_queue := q, req_list := rs\<rparr>) (s0\<lparr>events := ns\<rparr>)"
    have s1: "mqtt_inv s1" "cyclic_timers s1 = 0" "conn_state (client s1) = MQTT_CONNECTED"
      using e(2) c s0(2,3) by (auto simp: s1_def upd_client_def intro: inv_same)
    obtain go s2 where s2: "(if 0 < client_keep_alive (client s1) then keep_alive_tick e s1 else Some (True, s1)) = Some (go, s2)"
      "mqtt_inv s2" "cyclic_timers s2 = 0" "go \<Longrightarrow> conn_state (client s2) = MQTT_CONNECTED"
      using tick_fine [OF s1(1,2), of e] s1 by (cases "0 < client_keep_alive (client s1)") auto
    have "fire e s = Option.bind (if 0 < client_keep_alive (client s1) then keep_alive_tick e s1 else Some (True, s1))
        (\<lambda>(restart_timer, s). Some (if restart_timer then s\<lparr>cyclic_timers := cyclic_timers s + 1\<rparr> else s))"
      using c s0(3) e(1) by (simp add: f mqtt_cyclic_timer_def Let_def s1_def [symmetric])
    then have "fire e s = Some (if go then s2\<lparr>cyclic_timers := cyclic_timers s2 + 1\<rparr> else s2)" unfolding s2(1) by simp
    then show ?thesis using s2 rearm [OF s2(2,3)] by (cases go) (simp_all add: timed_def)
  qed
qed

lemma connected_fine:
  assumes "mqtt_inv s" and "conn_state (client s) = TCP_CONNECTING"
  shows "fine (map_option snd (mqtt_tcp_connect_cb e armed err s))"
proof (cases "err = ERR_OK")
  case True
  have c: "conn (client s)" "cyclic_timers s = 0" using assms by (simp_all add: mqtt_inv_def timed_def)
  define s1 where "s1 = upd_client (\<lambda>cl. cl\<lparr>msg_idx := 0, conn_state := MQTT_CONNECTING, cyclic_tick := 0\<rparr>)
    (s\<lparr>tcp := altcp_set e altcp_poll True (altcp_set e altcp_sent True (altcp_set e altcp_recv True (tcp s))),
      cyclic_timers := (if armed then 1 else 0)\<rparr>)"
  have "mqtt_inv s1" "conn (client s1)" using assms c by (simp_all add: s1_def upd_client_def mqtt_inv_def timed_def)
  from send_fine [OF this, of e] have "fine (map_option snd (Option.bind (client_send e s1) (\<lambda>s. Some (ERR_OK, s))))"
    by (auto simp: fine_def split: option.splits)
  moreover have "mqtt_tcp_connect_cb e armed err s = Option.bind (client_send e s1) (\<lambda>s. Some (ERR_OK, s))"
    using True c(2) by (cases s) (simp add: mqtt_tcp_connect_cb_def s1_def upd_client_def Let_def)
  ultimately show ?thesis by simp
qed (use assms in \<open>simp add: mqtt_tcp_connect_cb_def\<close>)

lemma error_fine: "mqtt_inv s \<Longrightarrow> fine (mqtt_tcp_err_cb e s)"
  using close_fine [of "upd_client (\<lambda>cl. cl\<lparr>conn := False\<rparr>) s" e STATUS_DISCONNECTED]
  by (auto simp: mqtt_tcp_err_cb_def mqtt_inv_def [of s] upd_client_def split: if_splits)

lemma poll_fine: "mqtt_inv s \<Longrightarrow> fine (mqtt_tcp_poll_cb e s)"
  using send_fine [of s e] by (auto simp: mqtt_tcp_poll_cb_def mqtt_inv_def)

lemma sent_fine:
  assumes "mqtt_inv s"
  shows "fine (map_option snd (mqtt_tcp_sent_cb e s))"
proof (cases "conn_state (client s) = MQTT_CONNECTED")
  case True
  define s0 where "s0 = upd_client (\<lambda>cl. cl\<lparr>cyclic_tick := 0, server_watchdog := 0\<rparr>) s"
  have s0: "mqtt_inv s0" "conn_state (client s0) = MQTT_CONNECTED"
    using assms True by (auto simp: s0_def upd_client_def intro: inv_same)
  obtain "is" where "queued (req_list (client s0)) (pend_req_queue (client s0)) is" using s0(1) by (auto simp: mqtt_inv_def)
  then obtain q rs ns is' where q: "qos0_loop (pend_req_queue (client s0)) (req_list (client s0)) (events s0) = Some (q, rs, ns)"
    "queued rs q is'" "length rs = length (req_list (client s0))" using qos0_spec by metis
  define s1 where "s1 = upd_client (\<lambda>cl. cl\<lparr>pend_req_queue := q, req_list := rs\<rparr>) (s0\<lparr>events := ns\<rparr>)"
  have "mqtt_inv s1" "conn (client s1)" using q s0 by (auto simp: s1_def upd_client_def mqtt_inv_def)
  from send_fine [OF this, of e] True q(1) show ?thesis
    by (auto simp: mqtt_tcp_sent_cb_def s0_def [symmetric] s1_def fine_def Let_def split: option.splits)
qed (use assms in \<open>simp add: mqtt_tcp_sent_cb_def\<close>)

section \<open>Receiving\<close>

lemma send_inv: "client_send e s = Some s' \<Longrightarrow> mqtt_inv s \<Longrightarrow> mqtt_inv s'"
  using send_fine [of s e] by (cases "conn (client s)") (auto simp: client_send_def fine_def)

lemma response_inv: "pub_ack_rec_rel_response e msg i q s = Some (r, s') \<Longrightarrow> mqtt_inv s \<Longrightarrow> mqtt_inv s'"
proof -
  assume h: "pub_ack_rec_rel_response e msg i q s = Some (r, s')" "mqtt_inv s"
  let ?f = "\<lambda>rb. mqtt_output_append_u16 i (mqtt_output_append_fixed_header msg 0 q 0 2 rb)"
  have "mqtt_inv (upd_output ?f s)" using h(2) by (intro inv_upd_output ring_append) (simp_all add: mqtt_inv_def)
  with h send_inv show ?thesis by (auto simp: pub_ack_rec_rel_response_def split: if_splits)
qed

lemma notify_inv [simp]: "mqtt_inv (notify x s) = mqtt_inv s"
  by (simp add: notify_def mqtt_inv_def)

lemma pkt_id_inv [simp]: "mqtt_inv (upd_client (\<lambda>cl. cl\<lparr>inpub_pkt_id := i\<rparr>) s) = mqtt_inv s"
  by (simp add: upd_client_def mqtt_inv_def)

lemma head_inv: "publish_head f n rem vh qos s = Some (r, s') \<Longrightarrow> mqtt_inv s \<Longrightarrow> mqtt_inv s'"
  by (auto simp: publish_head_def Let_def split: if_splits bind_splits)

lemma message_publish_inv: "message_publish e f n rem vh s = Some (res, s') \<Longrightarrow> mqtt_inv s \<Longrightarrow> mqtt_inv s'"
  by (auto simp: message_publish_def Let_def split: if_splits bind_splits option.splits dest!: head_inv response_inv)

lemma taken_inv:
  assumes "mqtt_inv s" and "mqtt_take_request (pend_req_queue (client s)) i (req_list (client s)) = Some (r, q, rs)"
    and "s' = upd_client (\<lambda>cl. cl\<lparr>pend_req_queue := q, req_list := rs\<rparr>) s"
  shows "mqtt_inv s'" and "r = Some k \<Longrightarrow> mqtt_inv (upd_client (\<lambda>cl. cl\<lparr>req_list := mqtt_delete_request k (req_list cl)\<rparr>) s')"
proof -
  obtain "is" where h: "queued (req_list (client s)) (pend_req_queue (client s)) is" using assms(1) by (auto simp: mqtt_inv_def)
  obtain is' where q: "queued rs q is'" "length rs = length (req_list (client s))" "\<And>k. r = Some k \<Longrightarrow> k \<notin> set is'"
    using take_spec [OF h, of i] h assms(2) by auto
  then show "mqtt_inv s'" using assms(1,3) by (auto simp: mqtt_inv_def upd_client_def)
  show "mqtt_inv (upd_client (\<lambda>cl. cl\<lparr>req_list := mqtt_delete_request k (req_list cl)\<rparr>) s')" if "r = Some k"
    using deleted_other [OF q(1) q(3) [OF that]] q(2) assms(1,3) by (auto simp: mqtt_inv_def upd_client_def delete_fields)
qed

lemma delete_notify: "upd_client f (notify x s) = notify x (upd_client f s)"
  by (simp add: upd_client_def notify_def)

lemma message_ack_inv:
  assumes "message_ack e ty n vh s = Some (res, s')" and "mqtt_inv s"
  shows "mqtt_inv s'"
  using assms taken_inv [OF assms(2) _ refl]
  by (auto simp: message_ack_def mqtt_incoming_suback_def Let_def delete_notify
    split: if_splits bind_splits option.splits dest!: response_inv)

lemma message_inv:
  assumes "mqtt_message_received e f n rem vh s = Some (res, s')" and "mqtt_inv s"
  shows "mqtt_inv s'"
proof -
  have c: "mqtt_inv (upd_client (\<lambda>cl. cl\<lparr>cyclic_tick := 0, conn_state := MQTT_CONNECTED\<rparr>) s)" if "conn_state (client s) = MQTT_CONNECTING"
    using assms(2) that by (simp add: mqtt_inv_def upd_client_def timed_def)
  show ?thesis using assms c
    by (auto simp: mqtt_message_received_def Let_def split: if_splits bind_splits dest: message_publish_inv message_ack_inv)
qed

lemma copy_partial_bound:
  assumes "copy_partial_loop p l off acc c ps = Some r"
  shows "length (snd r) \<le> length acc + unat l"
proof (rule copy_partial_loop.raw_induct [where P = "\<lambda>p l off acc c ps r. length (snd r) \<le> length acc + unat l", OF _ assms], goal_cases)
  case (1 f p l off acc c ps r)
  show ?case
  proof (cases "l \<noteq> 0 \<and> p \<noteq> None")
    case True
    with 1(2) obtain a b where b: "follow p ps = Some (a, b)" by (auto split: bind_splits)
    show ?thesis
    proof (cases "off \<noteq> 0 \<and> off \<ge> len b")
      case True
      then show ?thesis using 1(1) 1(2) b \<open>l \<noteq> 0 \<and> p \<noteq> None\<close> by auto
    next
      case False
      define k where "k = min (len b - off) l"
      have "k \<le> l" by (simp add: k_def)
      then have k: "unat (l - k) = unat l - unat k" "unat k \<le> unat l" by (simp_all add: unat_sub word_le_nat_alt)
      have "f (nxt b) (l - k) 0 (acc @ get_bytes (payload b + unat off) (unat k) (bytes ps)) (c + k) ps = Some r"
        using 1(2) b \<open>l \<noteq> 0 \<and> p \<noteq> None\<close> False by (auto simp: Let_def k_def)
      from 1(1) [OF this] k show ?thesis by simp
    qed
  qed (use 1 in auto)
qed

lemma contiguous_bound: "pbuf_get_contiguous p (Some n) l off ps = Some (In_buffer bs) \<Longrightarrow> length bs \<le> n"
  by (auto simp: pbuf_get_contiguous_def pbuf_copy_partial_def split: if_splits bind_splits dest!: copy_partial_bound)

text \<open>The state of the parser: while it reads the fixed header, what it has read is in \<open>rx_buffer\<close>.\<close>

definition parsing :: "u8 \<Rightarrow> u8 \<Rightarrow> 't mst \<Rightarrow> bool" where
  "parsing fh b s \<longleftrightarrow> mqtt_inv s \<and> unat fh \<le> 128 \<and> ((fh < 2 \<or> b AND 0x80 \<noteq> 0) \<longrightarrow> unat fh \<le> unat (msg_idx (client s)))"

lemma idx_inv [simp]: "mqtt_inv (upd_client (\<lambda>cl. cl\<lparr>msg_idx := f cl\<rparr>) s) = mqtt_inv s"
  by (simp add: upd_client_def mqtt_inv_def)

lemma parsing_0: "mqtt_inv s \<Longrightarrow> parsing 0 b (upd_client (\<lambda>cl. cl\<lparr>msg_idx := 0\<rparr>) s)" "mqtt_inv s \<Longrightarrow> parsing 0 b s"
  by (simp_all add: parsing_def)

lemma header_parsing:
  assumes "parsing fh b s" and "fh < 2 \<or> b AND 0x80 \<noteq> 0" and "header_byte p ps fh off s = Some (b', off', s')"
  shows "parsing (fh + 1) c s'"
proof -
  have r: "mqtt_inv s" "unat fh \<le> unat (msg_idx (client s))" "length (rx_buffer (client s)) = 128"
    using assms(1,2) by (auto simp: parsing_def mqtt_inv_def MQTT_VAR_HEADER_BUFFER_LEN_def)
  have u: "unat (ucast fh :: u32) = unat fh" using unat_u8_less [of fh] by (simp add: unsigned_ucast_eq take_bit_nat_eq_self)
  have "mqtt_inv s' \<and> unat fh < 128 \<and> unat fh + 1 \<le> unat (msg_idx (client s'))"
  proof (cases "ucast fh < msg_idx (client s)")
    case True
    then have "unat fh < unat (msg_idx (client s))" using u by (simp add: word_less_nat_alt)
    with True r assms(3) show ?thesis by (simp add: header_byte_def split: if_splits)
  next
    case False
    then have e: "unat fh = unat (msg_idx (client s))" using u r(2) by (simp add: word_less_nat_alt)
    from False assms(3) obtain x where s': "s' = upd_client (\<lambda>cl. cl\<lparr>rx_buffer := (rx_buffer cl)[unat (msg_idx cl) := x], msg_idx := msg_idx cl + 1\<rparr>) s"
      and l: "unat (msg_idx (client s)) < 128"
      using r(3) by (auto simp: header_byte_def rx_store_def split: if_splits bind_splits)
    have "unat (msg_idx (client s) + 1) = unat (msg_idx (client s)) + 1" using l by (simp add: unat_word_ariths)
    then show ?thesis using s' e l r(1) by (simp add: mqtt_inv_def upd_client_def)
  qed
  moreover from this have "unat (fh + 1) = unat fh + 1" by (simp add: unat_word_ariths)
  ultimately show ?thesis by (simp add: parsing_def)
qed

lemma var_header_inv:
  assumes "mqtt_inv s" and "unat fh \<le> 128"
    and "pbuf_get_contiguous p (Some (unat (of_nat MQTT_VAR_HEADER_BUFFER_LEN - ucast fh :: u16))) l off ps = Some c"
    and "var_header c fh l ps s = (vh, s')"
  shows "mqtt_inv s'"
proof -
  have u: "unat (ucast fh :: u16) = unat fh" using unat_u8_less [of fh] by (simp add: unsigned_ucast_eq take_bit_nat_eq_self)
  have "unat (of_nat MQTT_VAR_HEADER_BUFFER_LEN - ucast fh :: u16) = 128 - unat fh"
    using assms(2) u by (simp add: MQTT_VAR_HEADER_BUFFER_LEN_def unat_sub_if')
  then have "length bs \<le> 128 - unat fh" if "c = In_buffer bs" for bs using contiguous_bound [of p _ l off ps bs] assms(3) that by simp
  with assms show ?thesis
    by (cases c) (auto simp: var_header_def upd_client_def mqtt_inv_def MQTT_VAR_HEADER_BUFFER_LEN_def)
qed

text \<open>One iteration of the parser keeps what it relies on, and what it returns is a well-formed client.\<close>

lemma parse_step_inv:
  assumes "parse_step e p ps off rem fh b s = Some r" and "parsing fh b s"
  shows "case r of Returned res s' \<Rightarrow> mqtt_inv s' | Going off' rem' fh' b' s' \<Rightarrow> parsing fh' b' s'"
proof -
  have i: "mqtt_inv s" "unat fh \<le> 128" using assms(2) by (simp_all add: parsing_def)
  obtain a pb where pb: "follow p ps = Some (a, pb)" using assms(1) by (auto simp: parse_step_def split: bind_splits)
  consider "tot_len pb \<le> off" | "\<not> tot_len pb \<le> off" "fh < 2 \<or> b AND 0x80 \<noteq> 0" | "\<not> tot_len pb \<le> off" "\<not> (fh < 2 \<or> b AND 0x80 \<noteq> 0)"
    by blast
  then show ?thesis
  proof cases
    case 1
    with assms(1) pb i(1) show ?thesis by (auto simp: parse_step_def)
  next
    case 2
    then obtain b' off' s' where h: "header_byte p ps fh off s = Some (b', off', s')"
      using assms(1) pb by (auto simp: parse_step_def split: bind_splits)
    note rd' = header_parsing [OF assms(2) 2(2) h]
    then have i': "mqtt_inv s'" by (simp add: parsing_def)
    have restart: "parsing 0 c (upd_client (msg_idx_update (\<lambda>_. 0)) s1)"
      if "mqtt_message_received e (fh + 1) 0 0 None s' = Some (x, s1)" for x c s1
      by (rule parsing_0(1) [OF message_inv [OF that i']])
    from assms(1) pb 2 h show ?thesis
      by (auto simp: parse_step_def Let_def split: if_splits bind_splits intro: rd' restart)
  next
    case 3
    define l where "l = copy_length pb fh off rem (msg_idx (client s))"
    obtain c where c: "pbuf_get_contiguous p (Some (unat (of_nat MQTT_VAR_HEADER_BUFFER_LEN - ucast fh :: u16))) l off ps = Some c"
      using assms(1) pb 3 by (auto simp: parse_step_def l_def Let_def split: bind_splits)
    obtain vh s1 where v: "var_header c fh l ps s = (vh, s1)" by fastforce
    note i1 = var_header_inv [OF i c v]
    define s2 where "s2 = upd_client (\<lambda>cl. cl\<lparr>msg_idx := msg_idx cl + ucast l\<rparr>) s1"
    have i2: "mqtt_inv s2" using i1 by (simp add: s2_def)
    obtain res s3 where m: "mqtt_message_received e fh l (rem - ucast l) vh s2 = Some (res, s3)"
      using assms(1) pb 3 c v by (auto simp: parse_step_def l_def [symmetric] s2_def [symmetric] Let_def split: bind_splits)
    have i3: "mqtt_inv s3" by (rule message_inv [OF m i2])
    then have rd3: "parsing fh b s3" using i(2) 3(2) by (auto simp: parsing_def)
    from assms(1) pb 3 c v m i3 show ?thesis
      by (auto simp: parse_step_def l_def [symmetric] s2_def [symmetric] Let_def split: if_splits intro: rd3 parsing_0(1))
  qed
qed

lemma parse_run_inv:
  assumes "parse_run e p ps n (Going off rem fh b s) = Some (Returned res s')" and "parsing fh b s"
  shows "mqtt_inv s'"
  using assms
proof (induction n arbitrary: off rem fh b s)
  case (Suc n)
  from Suc.prems(1) obtain r where r: "parse_step e p ps off rem fh b s = Some r" "parse_run e p ps n r = Some (Returned res s')"
    by (auto split: bind_splits)
  note st = parse_step_inv [OF r(1) Suc.prems(2)]
  show ?case
  proof (cases r)
    case (Returned res1 s1)
    with r(2) st show ?thesis by simp
  next
    case (Going off1 rem1 fh1 b1 s1)
    with r(2) st Suc.IH show ?thesis by simp
  qed
qed simp

lemma parse_inv:
  assumes "parse_loop e p ps off rem fh b s = Some r" and "parsing fh b s"
  shows "mqtt_inv (snd r)"
  using loop_returns [OF assms(1)] parse_run_inv [OF _ assms(2)] by blast

lemma receive_inv:
  assumes "mqtt_inv s" and "mqtt_tcp_recv_cb e pe p err ps s = Some (r, ps', s')"
  shows "mqtt_inv s'"
proof -
  have t: "mqtt_inv (s\<lparr>tcp := x\<rparr>)" for x using assms(1) by (simp add: mqtt_inv_def)
  have w: "mqtt_inv (upd_client (\<lambda>cl. cl\<lparr>server_watchdog := 0\<rparr>) s) = mqtt_inv s" for s :: "'a mst"
    by (simp add: mqtt_inv_def upd_client_def)
  have c: "mqtt_close e x s1 = Some s2 \<Longrightarrow> mqtt_inv s1 \<Longrightarrow> mqtt_inv s2" for x s1 s2 using close_inv [of s1 e x] by auto
  have q: "mqtt_parse_incoming e p ps (s\<lparr>tcp := x\<rparr>) = Some (res, s1) \<Longrightarrow> mqtt_inv s1" for p x res s1
    using parse_inv [OF _ parsing_0(2) [OF t]] by (fastforce simp: mqtt_parse_incoming_def)
  show ?thesis using assms
    by (auto simp: mqtt_tcp_recv_cb_def Let_def w split: option.splits if_splits bind_splits dest!: q) (blast intro: c)+
qed

section \<open>All reachable states\<close>

text \<open>
  The entry points in any order: the calls of the application, the timer when it is armed, and the callbacks of TCP, which
  come while the client holds a connection; the connect callback comes while the client waits for it.
\<close>

inductive mqtt_step :: "'t altcp \<Rightarrow> 't mst \<Rightarrow> 't mst \<Rightarrow> bool" for e :: "'t altcp" where
  step_publish: "mqtt_publish e topic pay n qos retain cb s = Some (r, s') \<Longrightarrow> mqtt_step e s s'"
| step_subscribe: "mqtt_sub_unsub e topic qos cb sub s = Some (r, s') \<Longrightarrow> mqtt_step e s s'"
| step_connect: "mqtt_client_connect e ip port has_cb info s = (r, s') \<Longrightarrow> mqtt_step e s s'"
| step_disconnect: "mqtt_disconnect e s = Some s' \<Longrightarrow> mqtt_step e s s'"
| step_callbacks: "mqtt_set_inpub_callback pub data s = s' \<Longrightarrow> mqtt_step e s s'"
| step_timer: "0 < cyclic_timers s \<Longrightarrow> fire e s = Some s' \<Longrightarrow> mqtt_step e s s'"
| step_connected: "conn_state (client s) = TCP_CONNECTING \<Longrightarrow> mqtt_tcp_connect_cb e armed err s = Some (r, s') \<Longrightarrow> mqtt_step e s s'"
| step_error: "conn (client s) \<Longrightarrow> mqtt_tcp_err_cb e s = Some s' \<Longrightarrow> mqtt_step e s s'"
| step_poll: "conn (client s) \<Longrightarrow> mqtt_tcp_poll_cb e s = Some s' \<Longrightarrow> mqtt_step e s s'"
| step_sent: "conn (client s) \<Longrightarrow> mqtt_tcp_sent_cb e s = Some (r, s') \<Longrightarrow> mqtt_step e s s'"
| step_recv: "conn (client s) \<Longrightarrow> mqtt_tcp_recv_cb e pe p err (ps :: heap_regs pst) s = Some (r, ps', s') \<Longrightarrow> mqtt_step e s s'"

inductive mqtt_reach :: "'t altcp \<Rightarrow> 't mst \<Rightarrow> bool" for e :: "'t altcp" where
  reach_new: "mqtt_client_new True = Some c \<Longrightarrow> mqtt_reach e \<lparr>client = c, tcp = t, cyclic_timers = 0, events = []\<rparr>"
| reach_step: "mqtt_reach e s \<Longrightarrow> mqtt_step e s s' \<Longrightarrow> mqtt_reach e s'"

lemma fine_snd: "fine (map_option snd x) \<Longrightarrow> x = Some (r, s') \<Longrightarrow> mqtt_inv s'"
  "fine y \<Longrightarrow> y = Some s' \<Longrightarrow> mqtt_inv s'"
  by simp_all

lemma step_inv: "mqtt_step e s s' \<Longrightarrow> mqtt_inv s \<Longrightarrow> mqtt_inv s'"
proof (induction rule: mqtt_step.induct)
  case (step_connect ip port has_cb info s r s')
  with connect_inv [OF step_connect(2), of e ip port has_cb info] show ?case by simp
next
  case (step_callbacks pub data s s')
  then show ?case by (auto simp: mqtt_set_inpub_callback_def upd_client_def mqtt_inv_def)
qed (auto dest: fine_snd(1) [OF publish_fine] fine_snd(1) [OF subscribe_fine] fine_snd(1) [OF connected_fine] fine_snd(1) [OF sent_fine]
  fine_snd(2) [OF disconnect_fine] fine_snd(2) [OF fire_fine] fine_snd(2) [OF error_fine] fine_snd(2) [OF poll_fine] receive_inv)

lemma reach_inv_mqtt: "mqtt_reach e s \<Longrightarrow> mqtt_inv s"
proof (induction rule: mqtt_reach.induct)
  case (reach_new c t)
  then show ?case
    by (auto simp: mqtt_client_new_def zeroed_client_def mqtt_inv_def queued_iff ring_ok_def MQTT_OUTPUT_RINGBUF_SIZE_def
      intro!: exI [of _ "[]"])
qed (auto dest: step_inv)

section \<open>Property\<close>

text \<open>
  C15: whatever TCP does and in whatever order the application's calls, the timer and TCP's callbacks come, the
  client keeps its invariant: the pending requests form a chain without a cycle inside \<open>req_list\<close> whose timeouts add up to at most the
  request timeout, the indices of the output ring are in range, a client that is not disconnected holds a
  connection, and the cyclic timer is armed at most once and only while a session is set up or open.  So no such call but the receive
  callback ever follows a NULL or wild pointer or runs for ever, whatever topic, payload and lengths it is given.
\<close>

theorem mqtt_reach_safe:
  assumes "mqtt_reach e s"
  shows "mqtt_inv s \<and> mqtt_publish e topic pay n qos retain cb s \<noteq> None \<and> mqtt_sub_unsub e topic qos cb sub s \<noteq> None \<and>
    mqtt_disconnect e s \<noteq> None \<and> mqtt_tcp_err_cb e s \<noteq> None \<and> mqtt_tcp_poll_cb e s \<noteq> None \<and> mqtt_tcp_sent_cb e s \<noteq> None \<and>
    (0 < cyclic_timers s \<longrightarrow> fire e s \<noteq> None) \<and>
    (conn_state (client s) = TCP_CONNECTING \<longrightarrow> mqtt_tcp_connect_cb e armed err s \<noteq> None)"
proof -
  have i: "mqtt_inv s" by (rule reach_inv_mqtt [OF assms])
  have f: "x \<noteq> None" if "fine (map_option snd x)" for x :: "(err_enum_t \<times> 'a mst) option" using that by (cases x) simp_all
  have g: "x \<noteq> None" if "fine x" for x :: "'a mst option" using that by (cases x) simp_all
  show ?thesis using i
    by (intro conjI impI f [OF publish_fine] f [OF subscribe_fine] g [OF disconnect_fine] g [OF error_fine] g [OF poll_fine]
      f [OF sent_fine] g [OF fire_fine] f [OF connected_fine])
qed

definition demo_info :: client_info where
  "demo_info = \<lparr>ci_id = [99], ci_user = None, ci_pass = None, ci_keep_alive = 60, ci_will_topic = None, ci_will_msg = None,
     ci_will_msg_len = 0, ci_will_qos = 0, ci_will_retain = 0\<rparr>"

definition new_client :: "u8 list mst" where
  "new_client = \<lparr>client = zeroed_client, tcp = [], cyclic_timers = 0, events = []\<rparr>"

theorem mqtt_reach_safe_witness:
  "mqtt_publish demo_tcp [116] (Some [1]) 1 1 0 None (snd (mqtt_client_connect demo_tcp 1 1883 True demo_info new_client)) \<noteq> None"
proof -
  have "mqtt_reach demo_tcp new_client"
    unfolding new_client_def by (rule reach_new) (simp add: mqtt_client_new_def)
  then have "mqtt_reach demo_tcp (snd (mqtt_client_connect demo_tcp 1 1883 True demo_info new_client))"
    by (rule reach_step) (rule step_connect, rule prod.collapse [symmetric])
  from mqtt_reach_safe [OF this] show ?thesis by blast
qed

end
