(* ===== verification/Hal_Gpio.thy ===== *)
theory Hal_Gpio
  imports Hal_Regs
begin

text \<open>
  Pin configuration of the HAL (\<open>stm32f4xx_hal_gpio.c\<close>, \<open>HAL_GPIO_Init\<close>) over the registers of
  \<open>Hal_Regs\<close>.  \<open>HAL_GPIO_Init\<close> walks over the sixteen pins of a port; \<open>gpio_init_pin\<close> is the body of its
  loop, split as the comments of the source split it.  What it does to the registers is proved inside
  the locale \<open>plain\<close>: every selected pin gets its fields, no other field of any register changes.
\<close>

section \<open>Constants\<close>

definition GPIO_MODE :: u32 where "GPIO_MODE = push_bit 0 0x3"
definition MODE_INPUT :: u32 where "MODE_INPUT = push_bit 0 0x0"
definition MODE_OUTPUT :: u32 where "MODE_OUTPUT = push_bit 0 0x1"
definition MODE_AF :: u32 where "MODE_AF = push_bit 0 0x2"
definition MODE_ANALOG :: u32 where "MODE_ANALOG = push_bit 0 0x3"
definition OUTPUT_TYPE :: u32 where "OUTPUT_TYPE = push_bit 4 0x1"
definition OUTPUT_PP :: u32 where "OUTPUT_PP = push_bit 4 0x0"
definition EXTI_MODE :: u32 where "EXTI_MODE = push_bit 16 0x3"
definition EXTI_IT :: u32 where "EXTI_IT = push_bit 16 0x1"
definition EXTI_EVT :: u32 where "EXTI_EVT = push_bit 16 0x2"
definition TRIGGER_RISING :: u32 where "TRIGGER_RISING = push_bit 20 0x1"
definition TRIGGER_FALLING :: u32 where "TRIGGER_FALLING = push_bit 20 0x2"
definition GPIO_MODE_OUTPUT_PP :: u32 where "GPIO_MODE_OUTPUT_PP = MODE_OUTPUT OR OUTPUT_PP"
definition GPIO_MODE_AF_PP :: u32 where "GPIO_MODE_AF_PP = MODE_AF OR OUTPUT_PP"
definition GPIO_MODE_IT_FALLING :: u32 where "GPIO_MODE_IT_FALLING = MODE_INPUT OR EXTI_IT OR TRIGGER_FALLING"
definition GPIO_NOPULL :: u32 where "GPIO_NOPULL = 0"
definition GPIO_SPEED_FREQ_LOW :: u32 where "GPIO_SPEED_FREQ_LOW = 0"
definition GPIO_SPEED_FREQ_VERY_HIGH :: u32 where "GPIO_SPEED_FREQ_VERY_HIGH = 3"
definition RCC_APB2ENR_SYSCFGEN :: u32 where "RCC_APB2ENR_SYSCFGEN = push_bit 14 1"

lemmas gpio_consts [bitmask_simps] =
  GPIO_MODE_def MODE_INPUT_def MODE_OUTPUT_def MODE_AF_def MODE_ANALOG_def OUTPUT_TYPE_def OUTPUT_PP_def
  EXTI_MODE_def EXTI_IT_def EXTI_EVT_def TRIGGER_RISING_def TRIGGER_FALLING_def GPIO_MODE_OUTPUT_PP_def
  GPIO_MODE_AF_PP_def GPIO_MODE_IT_FALLING_def GPIO_NOPULL_def GPIO_SPEED_FREQ_LOW_def
  GPIO_SPEED_FREQ_VERY_HIGH_def RCC_APB2ENR_SYSCFGEN_def

record GPIO_InitTypeDef =
  Pin :: u32
  PinMode :: u32
  Pull :: u32
  Speed :: u32
  Alternate :: u32

fun GPIO_GET_INDEX :: "gpio_port \<Rightarrow> u32" where
  "GPIO_GET_INDEX GPIOA = 0"
| "GPIO_GET_INDEX GPIOB = 1"
| "GPIO_GET_INDEX GPIOC = 2"
| "GPIO_GET_INDEX GPIOD = 3"
| "GPIO_GET_INDEX GPIOE = 4"
| "GPIO_GET_INDEX GPIOH = 7"

section \<open>HAL_GPIO_Init\<close>

definition SYSCFG_CLK_ENABLE :: "'h hal_env \<Rightarrow> 'h hal_state \<Rightarrow> 'h hal_state" where
  "SYSCFG_CLK_ENABLE e = SET_BIT e RCC_APB2ENR RCC_APB2ENR_SYSCFGEN"

text \<open>In case of output or alternate function mode selection: speed and output type.\<close>

definition gpio_init_output ::
  "'h hal_env \<Rightarrow> gpio_port \<Rightarrow> GPIO_InitTypeDef \<Rightarrow> nat \<Rightarrow> 'h hal_state \<Rightarrow> 'h hal_state" where
  "gpio_init_output e GPIOx g position s =
     (if PinMode g AND GPIO_MODE = MODE_OUTPUT \<or> PinMode g AND GPIO_MODE = MODE_AF
      then let temp = READ_REG e (OSPEEDR GPIOx) s;
               temp = temp AND NOT (push_bit (position * 2) 0x3);
               temp = temp OR push_bit (position * 2) (Speed g);
               s = WRITE_REG e (OSPEEDR GPIOx) temp s;
               temp = READ_REG e (OTYPER GPIOx) s;
               temp = temp AND NOT (push_bit position 0x1);
               temp = temp OR push_bit position (drop_bit 4 (PinMode g AND OUTPUT_TYPE))
           in WRITE_REG e (OTYPER GPIOx) temp s
      else s)"

definition gpio_init_pull ::
  "'h hal_env \<Rightarrow> gpio_port \<Rightarrow> GPIO_InitTypeDef \<Rightarrow> nat \<Rightarrow> 'h hal_state \<Rightarrow> 'h hal_state" where
  "gpio_init_pull e GPIOx g position s =
     (if PinMode g AND GPIO_MODE \<noteq> MODE_ANALOG
      then let temp = READ_REG e (PUPDR GPIOx) s;
               temp = temp AND NOT (push_bit (position * 2) 0x3);
               temp = temp OR push_bit (position * 2) (Pull g)
           in WRITE_REG e (PUPDR GPIOx) temp s
      else s)"

definition gpio_init_alternate ::
  "'h hal_env \<Rightarrow> gpio_port \<Rightarrow> GPIO_InitTypeDef \<Rightarrow> nat \<Rightarrow> 'h hal_state \<Rightarrow> 'h hal_state" where
  "gpio_init_alternate e GPIOx g position s =
     (if PinMode g AND GPIO_MODE = MODE_AF
      then let temp = READ_REG e (AFR GPIOx (position div 8)) s;
               temp = temp AND NOT (push_bit (position mod 8 * 4) 0xF);
               temp = temp OR push_bit (position mod 8 * 4) (Alternate g)
           in WRITE_REG e (AFR GPIOx (position div 8)) temp s
      else s)"

definition gpio_init_direction ::
  "'h hal_env \<Rightarrow> gpio_port \<Rightarrow> GPIO_InitTypeDef \<Rightarrow> nat \<Rightarrow> 'h hal_state \<Rightarrow> 'h hal_state" where
  "gpio_init_direction e GPIOx g position s =
     (let temp = READ_REG e (MODER GPIOx) s;
          temp = temp AND NOT (push_bit (position * 2) 0x3);
          temp = temp OR push_bit (position * 2) (PinMode g AND GPIO_MODE)
      in WRITE_REG e (MODER GPIOx) temp s)"

text \<open>One of the four EXTI registers: clear the line, set it again if the mode asks for it.\<close>

definition exti_line :: "'h hal_env \<Rightarrow> mreg \<Rightarrow> u32 \<Rightarrow> u32 \<Rightarrow> u32 \<Rightarrow> 'h hal_state \<Rightarrow> 'h hal_state" where
  "exti_line e r iocurrent m f s =
     (let temp = READ_REG e r s;
          temp = temp AND NOT iocurrent;
          temp = (if m AND f \<noteq> 0 then temp OR iocurrent else temp)
      in WRITE_REG e r temp s)"

definition gpio_init_exti ::
  "'h hal_env \<Rightarrow> gpio_port \<Rightarrow> GPIO_InitTypeDef \<Rightarrow> nat \<Rightarrow> u32 \<Rightarrow> 'h hal_state \<Rightarrow> 'h hal_state" where
  "gpio_init_exti e GPIOx g position iocurrent s =
     (if PinMode g AND EXTI_MODE \<noteq> 0
      then let s = SYSCFG_CLK_ENABLE e s;
               temp = READ_REG e (SYSCFG_EXTICR (position div 4)) s;
               temp = temp AND NOT (push_bit (4 * (position mod 4)) 0x0F);
               temp = temp OR push_bit (4 * (position mod 4)) (GPIO_GET_INDEX GPIOx);
               s = WRITE_REG e (SYSCFG_EXTICR (position div 4)) temp s;
               s = exti_line e EXTI_RTSR iocurrent (PinMode g) TRIGGER_RISING s;
               s = exti_line e EXTI_FTSR iocurrent (PinMode g) TRIGGER_FALLING s;
               s = exti_line e EXTI_EMR iocurrent (PinMode g) EXTI_EVT s
           in exti_line e EXTI_IMR iocurrent (PinMode g) EXTI_IT s
      else s)"

definition gpio_init_pin ::
  "'h hal_env \<Rightarrow> gpio_port \<Rightarrow> GPIO_InitTypeDef \<Rightarrow> nat \<Rightarrow> 'h hal_state \<Rightarrow> 'h hal_state" where
  "gpio_init_pin e GPIOx g position s =
     (let ioposition = push_bit position 0x01;
          iocurrent = Pin g AND ioposition
      in if iocurrent = ioposition
         then let s = gpio_init_output e GPIOx g position s;
                  s = gpio_init_pull e GPIOx g position s;
                  s = gpio_init_alternate e GPIOx g position s;
                  s = gpio_init_direction e GPIOx g position s
              in gpio_init_exti e GPIOx g position iocurrent s
         else s)"

definition HAL_GPIO_Init :: "'h hal_env \<Rightarrow> gpio_port \<Rightarrow> GPIO_InitTypeDef \<Rightarrow> 'h hal_state \<Rightarrow> 'h hal_state" where
  "HAL_GPIO_Init e GPIOx g s = fold (gpio_init_pin e GPIOx g) [0 ..< 16] s"

section \<open>What it does\<close>

text \<open>
  The abstract configuration of the pins: fields by register.  \<open>pin_fields\<close> is what the initialisation
  promises for pin \<open>p\<close> of the port, \<open>pin_kept\<close> that another pin keeps its own.
\<close>

definition valid_init :: "GPIO_InitTypeDef \<Rightarrow> bool" where
  "valid_init g \<longleftrightarrow> Pull g \<le> 3 \<and> Speed g \<le> 3 \<and> Alternate g \<le> 15"

record pin_cfg =
  pin_mode :: u32
  pin_open_drain :: bool
  pin_speed :: u32
  pin_pull :: u32
  pin_af :: u32

definition pin_view :: "'h hal_env \<Rightarrow> gpio_port \<Rightarrow> nat \<Rightarrow> 'h hal_state \<Rightarrow> pin_cfg" where
  "pin_view e GPIOx p s =
     \<lparr>pin_mode = fld 2 p (READ_REG e (MODER GPIOx) s), pin_open_drain = bit (READ_REG e (OTYPER GPIOx) s) p,
      pin_speed = fld 2 p (READ_REG e (OSPEEDR GPIOx) s), pin_pull = fld 2 p (READ_REG e (PUPDR GPIOx) s),
      pin_af = fld 4 (p mod 8) (READ_REG e (AFR GPIOx (p div 8)) s)\<rparr>"

record line_cfg =
  line_port :: u32
  line_rising :: bool
  line_falling :: bool
  line_event :: bool
  line_irq :: bool

definition line_view :: "'h hal_env \<Rightarrow> nat \<Rightarrow> 'h hal_state \<Rightarrow> line_cfg" where
  "line_view e p s =
     \<lparr>line_port = fld 4 (p mod 4) (READ_REG e (SYSCFG_EXTICR (p div 4)) s), line_rising = bit (READ_REG e EXTI_RTSR s) p,
      line_falling = bit (READ_REG e EXTI_FTSR s) p, line_event = bit (READ_REG e EXTI_EMR s) p,
      line_irq = bit (READ_REG e EXTI_IMR s) p\<rparr>"

text \<open>What the configuration of a pin makes of its view.\<close>

definition drives_pin :: "GPIO_InitTypeDef \<Rightarrow> bool" where
  "drives_pin g \<longleftrightarrow> PinMode g AND GPIO_MODE = MODE_OUTPUT \<or> PinMode g AND GPIO_MODE = MODE_AF"

definition pin_config :: "GPIO_InitTypeDef \<Rightarrow> pin_cfg \<Rightarrow> pin_cfg" where
  "pin_config g v =
     \<lparr>pin_mode = PinMode g AND GPIO_MODE,
      pin_open_drain = (if drives_pin g then bit (PinMode g) 4 else pin_open_drain v),
      pin_speed = (if drives_pin g then Speed g else pin_speed v),
      pin_pull = (if PinMode g AND GPIO_MODE = MODE_ANALOG then pin_pull v else Pull g),
      pin_af = (if PinMode g AND GPIO_MODE = MODE_AF then Alternate g else pin_af v)\<rparr>"

definition line_config :: "gpio_port \<Rightarrow> GPIO_InitTypeDef \<Rightarrow> line_cfg \<Rightarrow> line_cfg" where
  "line_config GPIOx g v =
     (if PinMode g AND EXTI_MODE = 0 then v
      else \<lparr>line_port = GPIO_GET_INDEX GPIOx, line_rising = (PinMode g AND TRIGGER_RISING \<noteq> 0),
            line_falling = (PinMode g AND TRIGGER_FALLING \<noteq> 0), line_event = (PinMode g AND EXTI_EVT \<noteq> 0),
            line_irq = (PinMode g AND EXTI_IT \<noteq> 0)\<rparr>)"

text \<open>The registers the function writes.\<close>

fun gpio_reg :: "mreg \<Rightarrow> bool" where
  "gpio_reg (MODER _) = True"
| "gpio_reg (OTYPER _) = True"
| "gpio_reg (OSPEEDR _) = True"
| "gpio_reg (PUPDR _) = True"
| "gpio_reg (AFR _ _) = True"
| "gpio_reg (SYSCFG_EXTICR _) = True"
| "gpio_reg EXTI_RTSR = True"
| "gpio_reg EXTI_FTSR = True"
| "gpio_reg EXTI_EMR = True"
| "gpio_reg EXTI_IMR = True"
| "gpio_reg RCC_APB2ENR = True"
| "gpio_reg _ = False"

lemma small_and_mask:
  fixes x :: u32
  assumes "unat x < 2 ^ n"
  shows "x AND mask n = x"
proof -
  have "unat (take_bit n x) = unat x"
    using assms by (simp add: unsigned_take_bit_eq take_bit_nat_eq_self)
  then show ?thesis by (simp add: take_bit_eq_mask word_unat_eq_iff)
qed

lemma fld2_replace:
  assumes "x \<le> 3" "p < 16"
  shows "fld 2 p ((v AND NOT (push_bit (q * 2) 3)) OR push_bit (q * 2) x) = (if p = q then x else fld 2 p v)"
proof -
  have "x AND mask 2 = x" using assms(1) by (intro small_and_mask) (simp add: word_le_nat_alt)
  from fld_replace [OF this, of p v q] assms(2) show ?thesis
    by (simp add: mult.commute mask_eq_exp_minus_1)
qed

lemma fld4_replace:
  assumes "x \<le> 15" "p < 8"
  shows "fld 4 p ((v AND NOT (push_bit (q * 4) 0xF)) OR push_bit (q * 4) x) = (if p = q then x else fld 4 p v)"
proof -
  have "x AND mask 4 = x" using assms(1) by (intro small_and_mask) (simp add: word_le_nat_alt)
  from fld_replace [OF this, of p v q] assms(2) show ?thesis
    by (simp add: mult.commute mask_eq_exp_minus_1)
qed

lemma bit_put:
  fixes v :: u32
  assumes "p < 32"
  shows "bit ((v AND NOT (push_bit q 1)) OR push_bit q (drop_bit 4 (m AND OUTPUT_TYPE))) p =
      (if p = q then bit m 4 else bit v p)"
    and "bit (if c then (v AND NOT (push_bit q 1)) OR push_bit q 1 else v AND NOT (push_bit q 1)) p =
      (if p = q then c else bit v p)"
  using assms by (auto simp: bit_simps OUTPUT_TYPE_def)

lemma put_index: "GPIO_GET_INDEX x \<le> 15"
  by (cases x) simp_all

lemma mode_bound: "PinMode g AND GPIO_MODE \<le> 3"
  by (simp add: GPIO_MODE_def word_and_le1)

lemma pin_selected: "Pin g AND push_bit q 1 = push_bit q 1 \<longleftrightarrow> q < 32 \<longrightarrow> bit (Pin g) q"
  by (auto simp: bit_eq_iff [where 'a = "32 word"] bit_simps)

lemma gpio_init_pin_eq:
  assumes "q < 16"
  shows "gpio_init_pin e X g q s =
    (if bit (Pin g) q
     then gpio_init_exti e X g q (push_bit q 1)
       (gpio_init_direction e X g q (gpio_init_alternate e X g q (gpio_init_pull e X g q
         (gpio_init_output e X g q s))))
     else s)"
proof (cases "bit (Pin g) q")
  case True
  then have "Pin g AND push_bit q 1 = push_bit q 1"
    using pin_selected by blast
  with True show ?thesis by (simp add: gpio_init_pin_def Let_def del: push_bit_of_1)
next
  case False
  moreover have "bit (push_bit q 1 :: u32) q" using assms by (simp add: bit_simps)
  ultimately have "Pin g AND push_bit q 1 \<noteq> push_bit q 1" by (metis bit_and_iff)
  with False show ?thesis by (simp add: gpio_init_pin_def Let_def del: push_bit_of_1)
qed

section \<open>On registers that are storage\<close>

context plain
begin

lemma READ_output:
  assumes "P (OSPEEDR X)" "P (OTYPER X)"
  shows "READ_REG e r (gpio_init_output e X g q s) =
    (if drives_pin g \<and> r = OSPEEDR X
     then (READ_REG e r s AND NOT (push_bit (q * 2) 3)) OR push_bit (q * 2) (Speed g)
     else if drives_pin g \<and> r = OTYPER X
     then (READ_REG e r s AND NOT (push_bit q 1)) OR push_bit q (drop_bit 4 (PinMode g AND OUTPUT_TYPE))
     else READ_REG e r s)"
  using assms by (simp add: gpio_init_output_def READ_WRITE Let_def drives_pin_def)

lemma READ_pull:
  assumes "P (PUPDR X)"
  shows "READ_REG e r (gpio_init_pull e X g q s) =
    (if PinMode g AND GPIO_MODE \<noteq> MODE_ANALOG \<and> r = PUPDR X
     then (READ_REG e r s AND NOT (push_bit (q * 2) 3)) OR push_bit (q * 2) (Pull g) else READ_REG e r s)"
  using assms by (simp add: gpio_init_pull_def READ_WRITE Let_def)

lemma READ_alternate:
  assumes "P (AFR X (q div 8))"
  shows "READ_REG e r (gpio_init_alternate e X g q s) =
    (if PinMode g AND GPIO_MODE = MODE_AF \<and> r = AFR X (q div 8)
     then (READ_REG e r s AND NOT (push_bit (q mod 8 * 4) 0xF)) OR push_bit (q mod 8 * 4) (Alternate g)
     else READ_REG e r s)"
  using assms by (simp add: gpio_init_alternate_def READ_WRITE Let_def)

lemma READ_direction:
  assumes "P (MODER X)"
  shows "READ_REG e r (gpio_init_direction e X g q s) =
    (if r = MODER X
     then (READ_REG e r s AND NOT (push_bit (q * 2) 3)) OR push_bit (q * 2) (PinMode g AND GPIO_MODE)
     else READ_REG e r s)"
  using assms by (simp add: gpio_init_direction_def READ_WRITE Let_def)

lemma READ_line:
  assumes "P R"
  shows "READ_REG e r (exti_line e R i m f s) =
    (if r = R then if m AND f \<noteq> 0 then (READ_REG e r s AND NOT i) OR i else READ_REG e r s AND NOT i
     else READ_REG e r s)"
  using assms by (simp add: exti_line_def READ_WRITE Let_def)

lemma READ_clock:
  assumes "P RCC_APB2ENR"
  shows "READ_REG e r (SYSCFG_CLK_ENABLE e s) =
    (if r = RCC_APB2ENR then READ_REG e r s OR RCC_APB2ENR_SYSCFGEN else READ_REG e r s)"
  using assms by (simp add: SYSCFG_CLK_ENABLE_def READ_SET)

lemma READ_exti_pin:
  assumes "\<And>r. gpio_reg r \<Longrightarrow> P r" "\<And>Y. r \<noteq> SYSCFG_EXTICR Y"
    "r \<notin> {RCC_APB2ENR, EXTI_RTSR, EXTI_FTSR, EXTI_EMR, EXTI_IMR}"
  shows "READ_REG e r (gpio_init_exti e X g q i s) = READ_REG e r s"
  using assms by (simp add: gpio_init_exti_def READ_WRITE READ_line READ_clock Let_def)

lemma init_pin_view:
  assumes P: "\<And>r. gpio_reg r \<Longrightarrow> P r" and "valid_init g" "p < 16" "q < 16"
  shows "pin_view e Y p (gpio_init_pin e X g q s) =
    (if bit (Pin g) q \<and> p = q \<and> Y = X then pin_config g (pin_view e Y p s) else pin_view e Y p s)"
proof (cases "bit (Pin g) q")
  case True
  have small: "Pull g \<le> 3" "Speed g \<le> 3" "Alternate g \<le> 15" using assms(2) by (simp_all add: valid_init_def)
  note parts = READ_output READ_pull READ_alternate READ_direction READ_exti_pin P fld2_replace fld4_replace
    bit_put mode_bound small
  let ?t = "gpio_init_exti e X g q (push_bit q 1) (gpio_init_direction e X g q (gpio_init_alternate e X g q
    (gpio_init_pull e X g q (gpio_init_output e X g q s))))"
  have "fld 2 p (READ_REG e (MODER Y) ?t) =
      (if p = q \<and> Y = X then PinMode g AND GPIO_MODE else fld 2 p (READ_REG e (MODER Y) s))"
    using assms(3) by (auto simp: parts simp del: push_bit_and drop_bit_and push_bit_of_1)
  moreover have "bit (READ_REG e (OTYPER Y) ?t) p =
      (if p = q \<and> Y = X \<and> drives_pin g then bit (PinMode g) 4 else bit (READ_REG e (OTYPER Y) s) p)"
    using assms(3) by (auto simp: parts simp del: push_bit_and drop_bit_and push_bit_of_1)
  moreover have "fld 2 p (READ_REG e (OSPEEDR Y) ?t) =
      (if p = q \<and> Y = X \<and> drives_pin g then Speed g else fld 2 p (READ_REG e (OSPEEDR Y) s))"
    using assms(3) by (auto simp: parts simp del: push_bit_and drop_bit_and push_bit_of_1)
  moreover have "fld 2 p (READ_REG e (PUPDR Y) ?t) =
      (if p = q \<and> Y = X \<and> PinMode g AND GPIO_MODE \<noteq> MODE_ANALOG then Pull g else fld 2 p (READ_REG e (PUPDR Y) s))"
    using assms(3) by (auto simp: parts simp del: push_bit_and drop_bit_and push_bit_of_1)
  moreover have "fld 4 (p mod 8) (READ_REG e (AFR Y (p div 8)) ?t) =
      (if p = q \<and> Y = X \<and> PinMode g AND GPIO_MODE = MODE_AF then Alternate g
       else fld 4 (p mod 8) (READ_REG e (AFR Y (p div 8)) s))"
    by (cases "p = q") (auto simp: parts, metis div_mult_mod_eq)
  ultimately show ?thesis
    unfolding gpio_init_pin_eq [OF assms(4)] pin_view_def pin_config_def using True by simp
qed (simp add: gpio_init_pin_eq assms)

lemma init_line_view:
  assumes P: "\<And>r. gpio_reg r \<Longrightarrow> P r" and "p < 16" "q < 16"
  shows "line_view e p (gpio_init_pin e X g q s) =
    (if bit (Pin g) q \<and> p = q then line_config X g (line_view e p s) else line_view e p s)"
proof (cases "bit (Pin g) q")
  case True
  have idx: "p = q" if "p div 4 = q div 4" "p mod 4 = q mod 4"
    using that by (metis div_mult_mod_eq)
  have pre: "line_view e p (gpio_init_direction e X g q (gpio_init_alternate e X g q (gpio_init_pull e X g q
      (gpio_init_output e X g q s)))) = line_view e p s"
    by (simp add: line_view_def READ_output READ_pull READ_alternate READ_direction P)
  have exti: "line_view e p (gpio_init_exti e X g q (push_bit q 1) t) =
      (if p = q then line_config X g (line_view e p t) else line_view e p t)" for t
    using assms(2,3) idx put_index [of X] unfolding line_view_def line_config_def gpio_init_exti_def
    by (auto simp: READ_WRITE READ_line READ_clock P Let_def fld4_replace bit_put mult.commute [of 4]
        simp del: push_bit_of_1)
  show ?thesis
    unfolding gpio_init_pin_eq [OF assms(3)] using True by (simp only: exti pre if_True simp_thms)
qed (simp add: gpio_init_pin_eq assms)

lemma init_other:
  assumes P: "\<And>r. gpio_reg r \<Longrightarrow> P r" and "\<not> gpio_reg r"
  shows "READ_REG e r (gpio_init_pin e X g q s) = READ_REG e r s"
proof -
  have ne: "r \<noteq> R" if "gpio_reg R" for R using assms(2) that by blast
  have "READ_REG e r (gpio_init_exti e X g q i t) = READ_REG e r t" for i t
    by (simp add: gpio_init_exti_def READ_WRITE READ_line READ_clock Let_def P ne)
  then show ?thesis
    by (simp add: gpio_init_pin_def READ_output READ_pull READ_alternate READ_direction Let_def P ne
        del: push_bit_of_1)
qed

text \<open>The loop: each selected pin is configured once, the others are left alone.\<close>

lemma fold_pin_view:
  assumes "\<And>r. gpio_reg r \<Longrightarrow> P r" "valid_init g" "p < 16" "n \<le> 16"
  shows "pin_view e Y p (fold (gpio_init_pin e X g) [0 ..< n] s) =
    (if bit (Pin g) p \<and> p < n \<and> Y = X then pin_config g (pin_view e Y p s) else pin_view e Y p s)"
  using assms(4) by (induction n) (auto simp: init_pin_view assms less_Suc_eq)

lemma fold_line_view:
  assumes "\<And>r. gpio_reg r \<Longrightarrow> P r" "p < 16" "n \<le> 16"
  shows "line_view e p (fold (gpio_init_pin e X g) [0 ..< n] s) =
    (if bit (Pin g) p \<and> p < n then line_config X g (line_view e p s) else line_view e p s)"
  using assms(3) by (induction n) (auto simp: init_line_view assms less_Suc_eq)

lemma fold_other:
  assumes "\<And>r. gpio_reg r \<Longrightarrow> P r" "\<not> gpio_reg r"
  shows "READ_REG e r (fold (gpio_init_pin e X g) ps s) = READ_REG e r s"
  by (induction ps arbitrary: s) (simp_all add: init_other assms)

lemmas HAL_GPIO_Init_view = fold_pin_view [where n = 16, folded HAL_GPIO_Init_def]
  fold_line_view [where n = 16, folded HAL_GPIO_Init_def]
  fold_other [where ps = "[0 ..< 16]", folded HAL_GPIO_Init_def]

end

end
