(* ===== verification/Hal_Rcc.thy ===== *)
theory Hal_Rcc
  imports Hal_Regs
begin

text \<open>
  The clock tree: \<open>stm32f4xx_hal_rcc.c\<close> (\<open>HAL_RCC_OscConfig\<close>, \<open>HAL_RCC_ClockConfig\<close> and the
  frequencies it computes), the SysTick and interrupt-priority functions of \<open>core_cm4.h\<close> and the tick
  initialisation of \<open>stm32f4xx_hal.c\<close>.  The long functions are split where their comments split them.
\<close>

section \<open>Constants\<close>

definition RCC_OSCILLATORTYPE_HSE :: u32 where "RCC_OSCILLATORTYPE_HSE = 0x1"
definition RCC_OSCILLATORTYPE_HSI :: u32 where "RCC_OSCILLATORTYPE_HSI = 0x2"
definition RCC_OSCILLATORTYPE_LSE :: u32 where "RCC_OSCILLATORTYPE_LSE = 0x4"
definition RCC_OSCILLATORTYPE_LSI :: u32 where "RCC_OSCILLATORTYPE_LSI = 0x8"
definition RCC_CR_HSION :: u32 where "RCC_CR_HSION = push_bit 0 1"
definition RCC_CR_HSITRIM :: u32 where "RCC_CR_HSITRIM = push_bit 3 0x1F"
definition RCC_CR_HSEON :: u32 where "RCC_CR_HSEON = push_bit 16 1"
definition RCC_CR_HSEBYP :: u32 where "RCC_CR_HSEBYP = push_bit 18 1"
definition RCC_CR_PLLON :: u32 where "RCC_CR_PLLON = push_bit 24 1"
definition RCC_CSR_LSION :: u32 where "RCC_CSR_LSION = push_bit 0 1"
definition RCC_BDCR_LSEON :: u32 where "RCC_BDCR_LSEON = push_bit 0 1"
definition RCC_BDCR_LSEBYP :: u32 where "RCC_BDCR_LSEBYP = push_bit 2 1"
definition RCC_HSE_OFF :: u32 where "RCC_HSE_OFF = 0"
definition RCC_HSE_ON :: u32 where "RCC_HSE_ON = RCC_CR_HSEON"
definition RCC_HSE_BYPASS :: u32 where "RCC_HSE_BYPASS = RCC_CR_HSEBYP OR RCC_CR_HSEON"
definition RCC_LSE_OFF :: u32 where "RCC_LSE_OFF = 0"
definition RCC_LSE_ON :: u32 where "RCC_LSE_ON = RCC_BDCR_LSEON"
definition RCC_LSE_BYPASS :: u32 where "RCC_LSE_BYPASS = RCC_BDCR_LSEBYP OR RCC_BDCR_LSEON"
definition RCC_HSI_OFF :: u32 where "RCC_HSI_OFF = 0"
definition RCC_HSI_ON :: u32 where "RCC_HSI_ON = 1"
definition RCC_LSI_OFF :: u32 where "RCC_LSI_OFF = 0"
definition RCC_PLL_NONE :: u32 where "RCC_PLL_NONE = 0"
definition RCC_PLL_OFF :: u32 where "RCC_PLL_OFF = 1"
definition RCC_PLL_ON :: u32 where "RCC_PLL_ON = 2"
definition RCC_FLAG_HSIRDY :: u8 where "RCC_FLAG_HSIRDY = 0x21"
definition RCC_FLAG_HSERDY :: u8 where "RCC_FLAG_HSERDY = 0x31"
definition RCC_FLAG_PLLRDY :: u8 where "RCC_FLAG_PLLRDY = 0x39"
definition RCC_FLAG_LSERDY :: u8 where "RCC_FLAG_LSERDY = 0x41"
definition RCC_FLAG_LSIRDY :: u8 where "RCC_FLAG_LSIRDY = 0x61"
definition RCC_PLLCFGR_PLLM :: u32 where "RCC_PLLCFGR_PLLM = push_bit 0 0x3F"
definition RCC_PLLCFGR_PLLN :: u32 where "RCC_PLLCFGR_PLLN = push_bit 6 0x1FF"
definition RCC_PLLCFGR_PLLP :: u32 where "RCC_PLLCFGR_PLLP = push_bit 16 0x3"
definition RCC_PLLCFGR_PLLSRC :: u32 where "RCC_PLLCFGR_PLLSRC = push_bit 22 1"
definition RCC_PLLCFGR_PLLQ :: u32 where "RCC_PLLCFGR_PLLQ = push_bit 24 0xF"
definition RCC_PLLCFGR_PLLSRC_HSI :: u32 where "RCC_PLLCFGR_PLLSRC_HSI = 0"
definition RCC_PLLCFGR_PLLSRC_HSE :: u32 where "RCC_PLLCFGR_PLLSRC_HSE = RCC_PLLCFGR_PLLSRC"
definition RCC_CFGR_SW :: u32 where "RCC_CFGR_SW = push_bit 0 0x3"
definition RCC_CFGR_SWS :: u32 where "RCC_CFGR_SWS = push_bit 2 0x3"
definition RCC_CFGR_HPRE :: u32 where "RCC_CFGR_HPRE = push_bit 4 0xF"
definition RCC_CFGR_PPRE1 :: u32 where "RCC_CFGR_PPRE1 = push_bit 10 0x7"
definition RCC_CFGR_PPRE2 :: u32 where "RCC_CFGR_PPRE2 = push_bit 13 0x7"
definition RCC_CFGR_SWS_HSI :: u32 where "RCC_CFGR_SWS_HSI = 0x0"
definition RCC_CFGR_SWS_HSE :: u32 where "RCC_CFGR_SWS_HSE = 0x4"
definition RCC_CFGR_SWS_PLL :: u32 where "RCC_CFGR_SWS_PLL = 0x8"
definition RCC_SYSCLKSOURCE_HSE :: u32 where "RCC_SYSCLKSOURCE_HSE = 0x1"
definition RCC_SYSCLKSOURCE_PLLCLK :: u32 where "RCC_SYSCLKSOURCE_PLLCLK = 0x2"
definition RCC_SYSCLKSOURCE_PLLRCLK :: u32 where "RCC_SYSCLKSOURCE_PLLRCLK = 0x3"
definition RCC_CLOCKTYPE_SYSCLK :: u32 where "RCC_CLOCKTYPE_SYSCLK = 0x1"
definition RCC_CLOCKTYPE_HCLK :: u32 where "RCC_CLOCKTYPE_HCLK = 0x2"
definition RCC_CLOCKTYPE_PCLK1 :: u32 where "RCC_CLOCKTYPE_PCLK1 = 0x4"
definition RCC_CLOCKTYPE_PCLK2 :: u32 where "RCC_CLOCKTYPE_PCLK2 = 0x8"
definition RCC_SYSCLK_DIV1 :: u32 where "RCC_SYSCLK_DIV1 = 0"
definition RCC_HCLK_DIV1 :: u32 where "RCC_HCLK_DIV1 = 0"
definition RCC_HCLK_DIV2 :: u32 where "RCC_HCLK_DIV2 = 0x1000"
definition RCC_HCLK_DIV16 :: u32 where "RCC_HCLK_DIV16 = 0x1C00"
definition RCC_APB1ENR_PWREN :: u32 where "RCC_APB1ENR_PWREN = push_bit 28 1"
definition PWR_CR_DBP :: u32 where "PWR_CR_DBP = push_bit 8 1"
definition FLASH_ACR_LATENCY :: u32 where "FLASH_ACR_LATENCY = push_bit 0 0x7"
definition HSE_VALUE :: u32 where "HSE_VALUE = 8000000"
definition HSI_VALUE :: u32 where "HSI_VALUE = 16000000"
definition HSE_TIMEOUT_VALUE :: u32 where "HSE_TIMEOUT_VALUE = 100"
definition HSI_TIMEOUT_VALUE :: u32 where "HSI_TIMEOUT_VALUE = 2"
definition LSI_TIMEOUT_VALUE :: u32 where "LSI_TIMEOUT_VALUE = 2"
definition PLL_TIMEOUT_VALUE :: u32 where "PLL_TIMEOUT_VALUE = 2"
definition RCC_DBP_TIMEOUT_VALUE :: u32 where "RCC_DBP_TIMEOUT_VALUE = 2"
definition RCC_LSE_TIMEOUT_VALUE :: u32 where "RCC_LSE_TIMEOUT_VALUE = 5000"
definition CLOCKSWITCH_TIMEOUT_VALUE :: u32 where "CLOCKSWITCH_TIMEOUT_VALUE = 5000"

lemmas rcc_consts [bitmask_simps] =
  RCC_OSCILLATORTYPE_HSE_def RCC_OSCILLATORTYPE_HSI_def RCC_OSCILLATORTYPE_LSE_def RCC_OSCILLATORTYPE_LSI_def
  RCC_CR_HSION_def RCC_CR_HSITRIM_def RCC_CR_HSEON_def RCC_CR_HSEBYP_def RCC_CR_PLLON_def RCC_HSI_OFF_def
  RCC_HSI_ON_def RCC_PLL_NONE_def RCC_PLL_OFF_def RCC_PLL_ON_def RCC_FLAG_HSIRDY_def RCC_FLAG_HSERDY_def
  RCC_FLAG_PLLRDY_def RCC_PLLCFGR_PLLM_def RCC_PLLCFGR_PLLN_def RCC_PLLCFGR_PLLP_def RCC_PLLCFGR_PLLSRC_def
  RCC_PLLCFGR_PLLQ_def RCC_PLLCFGR_PLLSRC_HSI_def RCC_PLLCFGR_PLLSRC_HSE_def RCC_CFGR_SW_def RCC_CFGR_SWS_def
  RCC_CFGR_HPRE_def RCC_CFGR_PPRE1_def RCC_CFGR_PPRE2_def RCC_CFGR_SWS_HSI_def RCC_CFGR_SWS_HSE_def
  RCC_CFGR_SWS_PLL_def RCC_SYSCLKSOURCE_HSE_def RCC_SYSCLKSOURCE_PLLCLK_def RCC_SYSCLKSOURCE_PLLRCLK_def
  RCC_CLOCKTYPE_SYSCLK_def RCC_CLOCKTYPE_HCLK_def RCC_CLOCKTYPE_PCLK1_def RCC_CLOCKTYPE_PCLK2_def
  RCC_SYSCLK_DIV1_def RCC_HCLK_DIV1_def RCC_HCLK_DIV2_def RCC_HCLK_DIV16_def RCC_APB1ENR_PWREN_def
  FLASH_ACR_LATENCY_def HSE_VALUE_def HSI_VALUE_def

record RCC_PLLInitTypeDef =
  PLLState :: u32
  PLLSource :: u32
  PLLM :: u32
  PLLN :: u32
  PLLP :: u32
  PLLQ :: u32

record RCC_OscInitTypeDef =
  OscillatorType :: u32
  HSEState :: u32
  LSEState :: u32
  HSIState :: u32
  HSICalibrationValue :: u32
  LSIState :: u32
  PLL :: RCC_PLLInitTypeDef

record RCC_ClkInitTypeDef =
  ClockType :: u32
  SYSCLKSource :: u32
  AHBCLKDivider :: u32
  APB1CLKDivider :: u32
  APB2CLKDivider :: u32

section \<open>Macros\<close>

definition HAL_RCC_GET_FLAG :: "'h hal_env \<Rightarrow> u8 \<Rightarrow> 'h hal_state \<Rightarrow> bool" where
  "HAL_RCC_GET_FLAG e f s =
     (READ_REG e (if drop_bit 5 f = 1 then RCC_CR else if drop_bit 5 f = 2 then RCC_BDCR
                  else if drop_bit 5 f = 3 then RCC_CSR else RCC_CIR) s
        AND push_bit (unat (f AND 0x1F)) 1 \<noteq> 0)"

definition HAL_RCC_GET_SYSCLK_SOURCE :: "'h hal_env \<Rightarrow> 'h hal_state \<Rightarrow> u32" where
  "HAL_RCC_GET_SYSCLK_SOURCE e s = READ_REG e RCC_CFGR s AND RCC_CFGR_SWS"

definition HAL_RCC_HSE_CONFIG :: "'h hal_env \<Rightarrow> u32 \<Rightarrow> 'h hal_state \<Rightarrow> 'h hal_state" where
  "HAL_RCC_HSE_CONFIG e st s =
     (if st = RCC_HSE_ON then SET_BIT e RCC_CR RCC_CR_HSEON s
      else if st = RCC_HSE_BYPASS then SET_BIT e RCC_CR RCC_CR_HSEON (SET_BIT e RCC_CR RCC_CR_HSEBYP s)
      else CLEAR_BIT e RCC_CR RCC_CR_HSEBYP (CLEAR_BIT e RCC_CR RCC_CR_HSEON s))"

definition HAL_RCC_LSE_CONFIG :: "'h hal_env \<Rightarrow> u32 \<Rightarrow> 'h hal_state \<Rightarrow> 'h hal_state" where
  "HAL_RCC_LSE_CONFIG e st s =
     (if st = RCC_LSE_ON then SET_BIT e RCC_BDCR RCC_BDCR_LSEON s
      else if st = RCC_LSE_BYPASS
      then SET_BIT e RCC_BDCR RCC_BDCR_LSEON (SET_BIT e RCC_BDCR RCC_BDCR_LSEBYP s)
      else CLEAR_BIT e RCC_BDCR RCC_BDCR_LSEBYP (CLEAR_BIT e RCC_BDCR RCC_BDCR_LSEON s))"

definition HAL_RCC_HSI_CALIBRATIONVALUE_ADJUST :: "'h hal_env \<Rightarrow> u32 \<Rightarrow> 'h hal_state \<Rightarrow> 'h hal_state" where
  "HAL_RCC_HSI_CALIBRATIONVALUE_ADJUST e v = MODIFY_REG e RCC_CR RCC_CR_HSITRIM (push_bit 3 v)"

text \<open>The bit-band aliases of HSION, PLLON and LSION: a write of 1 or 0 sets or clears the bit.\<close>

definition HAL_RCC_HSI_ENABLE :: "'h hal_env \<Rightarrow> 'h hal_state \<Rightarrow> 'h hal_state" where
  "HAL_RCC_HSI_ENABLE e = SET_BIT e RCC_CR RCC_CR_HSION"

definition HAL_RCC_HSI_DISABLE :: "'h hal_env \<Rightarrow> 'h hal_state \<Rightarrow> 'h hal_state" where
  "HAL_RCC_HSI_DISABLE e = CLEAR_BIT e RCC_CR RCC_CR_HSION"

definition HAL_RCC_PLL_ENABLE :: "'h hal_env \<Rightarrow> 'h hal_state \<Rightarrow> 'h hal_state" where
  "HAL_RCC_PLL_ENABLE e = SET_BIT e RCC_CR RCC_CR_PLLON"

definition HAL_RCC_PLL_DISABLE :: "'h hal_env \<Rightarrow> 'h hal_state \<Rightarrow> 'h hal_state" where
  "HAL_RCC_PLL_DISABLE e = CLEAR_BIT e RCC_CR RCC_CR_PLLON"

definition HAL_RCC_LSI_ENABLE :: "'h hal_env \<Rightarrow> 'h hal_state \<Rightarrow> 'h hal_state" where
  "HAL_RCC_LSI_ENABLE e = SET_BIT e RCC_CSR RCC_CSR_LSION"

definition HAL_RCC_LSI_DISABLE :: "'h hal_env \<Rightarrow> 'h hal_state \<Rightarrow> 'h hal_state" where
  "HAL_RCC_LSI_DISABLE e = CLEAR_BIT e RCC_CSR RCC_CSR_LSION"

definition HAL_RCC_PWR_CLK_ENABLE :: "'h hal_env \<Rightarrow> 'h hal_state \<Rightarrow> 'h hal_state" where
  "HAL_RCC_PWR_CLK_ENABLE e = SET_BIT e RCC_APB1ENR RCC_APB1ENR_PWREN"

definition HAL_RCC_PWR_CLK_DISABLE :: "'h hal_env \<Rightarrow> 'h hal_state \<Rightarrow> 'h hal_state" where
  "HAL_RCC_PWR_CLK_DISABLE e = CLEAR_BIT e RCC_APB1ENR RCC_APB1ENR_PWREN"

definition HAL_FLASH_GET_LATENCY :: "'h hal_env \<Rightarrow> 'h hal_state \<Rightarrow> u32" where
  "HAL_FLASH_GET_LATENCY e s = READ_REG e FLASH_ACR s AND FLASH_ACR_LATENCY"

text \<open>A write to the low byte of the register.\<close>

definition HAL_FLASH_SET_LATENCY :: "'h hal_env \<Rightarrow> u32 \<Rightarrow> 'h hal_state \<Rightarrow> 'h hal_state" where
  "HAL_FLASH_SET_LATENCY e l s =
     WRITE_REG e FLASH_ACR ((READ_REG e FLASH_ACR s AND NOT 0xFF) OR (l AND 0xFF)) s"

section \<open>HAL_RCC_OscConfig\<close>

definition osc_hse :: "'h hal_env \<Rightarrow> RCC_OscInitTypeDef \<Rightarrow> 'h hal_state \<Rightarrow> 'h outcome" where
  "osc_hse e i s =
     (if OscillatorType i AND RCC_OSCILLATORTYPE_HSE = RCC_OSCILLATORTYPE_HSE
      then if HAL_RCC_GET_SYSCLK_SOURCE e s = RCC_CFGR_SWS_HSE
              \<or> HAL_RCC_GET_SYSCLK_SOURCE e s = RCC_CFGR_SWS_PLL
                \<and> READ_REG e RCC_PLLCFGR s AND RCC_PLLCFGR_PLLSRC = RCC_PLLCFGR_PLLSRC_HSE
           then if HAL_RCC_GET_FLAG e RCC_FLAG_HSERDY s \<and> HSEState i = RCC_HSE_OFF
                then Some (Some HAL_ERROR, s) else Some (None, s)
           else let s = HAL_RCC_HSE_CONFIG e (HSEState i) s
                in if HSEState i \<noteq> RCC_HSE_OFF
                   then wait_while e (\<lambda>s. \<not> HAL_RCC_GET_FLAG e RCC_FLAG_HSERDY s) HSE_TIMEOUT_VALUE s
                   else wait_while e (HAL_RCC_GET_FLAG e RCC_FLAG_HSERDY) HSE_TIMEOUT_VALUE s
      else Some (None, s))"

definition osc_hsi :: "'h hal_env \<Rightarrow> RCC_OscInitTypeDef \<Rightarrow> 'h hal_state \<Rightarrow> 'h outcome" where
  "osc_hsi e i s =
     (if OscillatorType i AND RCC_OSCILLATORTYPE_HSI = RCC_OSCILLATORTYPE_HSI
      then if HAL_RCC_GET_SYSCLK_SOURCE e s = RCC_CFGR_SWS_HSI
              \<or> HAL_RCC_GET_SYSCLK_SOURCE e s = RCC_CFGR_SWS_PLL
                \<and> READ_REG e RCC_PLLCFGR s AND RCC_PLLCFGR_PLLSRC = RCC_PLLCFGR_PLLSRC_HSI
           then if HAL_RCC_GET_FLAG e RCC_FLAG_HSIRDY s \<and> HSIState i \<noteq> RCC_HSI_ON
                then Some (Some HAL_ERROR, s)
                else Some (None, HAL_RCC_HSI_CALIBRATIONVALUE_ADJUST e (HSICalibrationValue i) s)
           else if HSIState i \<noteq> RCC_HSI_OFF
           then unless_returned
                  (wait_while e (\<lambda>s. \<not> HAL_RCC_GET_FLAG e RCC_FLAG_HSIRDY s) HSI_TIMEOUT_VALUE)
                  (\<lambda>s. Some (None, HAL_RCC_HSI_CALIBRATIONVALUE_ADJUST e (HSICalibrationValue i) s))
                  (HAL_RCC_HSI_ENABLE e s)
           else wait_while e (HAL_RCC_GET_FLAG e RCC_FLAG_HSIRDY) HSI_TIMEOUT_VALUE (HAL_RCC_HSI_DISABLE e s)
      else Some (None, s))"

definition osc_lsi :: "'h hal_env \<Rightarrow> RCC_OscInitTypeDef \<Rightarrow> 'h hal_state \<Rightarrow> 'h outcome" where
  "osc_lsi e i s =
     (if OscillatorType i AND RCC_OSCILLATORTYPE_LSI = RCC_OSCILLATORTYPE_LSI
      then if LSIState i \<noteq> RCC_LSI_OFF
           then wait_while e (\<lambda>s. \<not> HAL_RCC_GET_FLAG e RCC_FLAG_LSIRDY s) LSI_TIMEOUT_VALUE (HAL_RCC_LSI_ENABLE e s)
           else wait_while e (HAL_RCC_GET_FLAG e RCC_FLAG_LSIRDY) LSI_TIMEOUT_VALUE (HAL_RCC_LSI_DISABLE e s)
      else Some (None, s))"

definition osc_lse :: "'h hal_env \<Rightarrow> RCC_OscInitTypeDef \<Rightarrow> 'h hal_state \<Rightarrow> 'h outcome" where
  "osc_lse e i s =
     (if OscillatorType i AND RCC_OSCILLATORTYPE_LSE = RCC_OSCILLATORTYPE_LSE
      then let pwrclkchanged = (READ_REG e RCC_APB1ENR s AND RCC_APB1ENR_PWREN = 0);
               s = (if pwrclkchanged then HAL_RCC_PWR_CLK_ENABLE e s else s);
               closed = (\<lambda>s. READ_REG e PWR_CR s AND PWR_CR_DBP = 0)
           in unless_returned
                (\<lambda>s. if closed s then wait_while e closed RCC_DBP_TIMEOUT_VALUE (SET_BIT e PWR_CR PWR_CR_DBP s)
                     else Some (None, s))
                (unless_returned
                  (\<lambda>s. let s = HAL_RCC_LSE_CONFIG e (LSEState i) s
                       in if LSEState i \<noteq> RCC_LSE_OFF
                          then wait_while e (\<lambda>s. \<not> HAL_RCC_GET_FLAG e RCC_FLAG_LSERDY s) RCC_LSE_TIMEOUT_VALUE s
                          else wait_while e (HAL_RCC_GET_FLAG e RCC_FLAG_LSERDY) RCC_LSE_TIMEOUT_VALUE s)
                  (\<lambda>s. Some (None, if pwrclkchanged then HAL_RCC_PWR_CLK_DISABLE e s else s))) s
      else Some (None, s))"

definition pll_word :: "RCC_PLLInitTypeDef \<Rightarrow> u32" where
  "pll_word p = PLLSource p OR PLLM p OR push_bit 6 (PLLN p) OR push_bit 16 (drop_bit 1 (PLLP p) - 1)
     OR push_bit 24 (PLLQ p)"

definition osc_pll_on :: "'h hal_env \<Rightarrow> RCC_PLLInitTypeDef \<Rightarrow> 'h hal_state \<Rightarrow> 'h outcome" where
  "osc_pll_on e p s =
     unless_returned
       (\<lambda>s. wait_while e (HAL_RCC_GET_FLAG e RCC_FLAG_PLLRDY) PLL_TIMEOUT_VALUE (HAL_RCC_PLL_DISABLE e s))
       (\<lambda>s. let s = WRITE_REG e RCC_PLLCFGR (pll_word p) s;
                s = HAL_RCC_PLL_ENABLE e s
            in wait_while e (\<lambda>s. \<not> HAL_RCC_GET_FLAG e RCC_FLAG_PLLRDY s) PLL_TIMEOUT_VALUE s) s"

definition osc_pll_keep :: "'h hal_env \<Rightarrow> RCC_PLLInitTypeDef \<Rightarrow> 'h hal_state \<Rightarrow> 'h outcome" where
  "osc_pll_keep e p s =
     (if PLLState p = RCC_PLL_OFF then Some (Some HAL_ERROR, s)
      else let pll_config = READ_REG e RCC_PLLCFGR s
           in if PLLState p = RCC_PLL_OFF
                 \<or> pll_config AND RCC_PLLCFGR_PLLSRC \<noteq> PLLSource p
                 \<or> pll_config AND RCC_PLLCFGR_PLLM \<noteq> PLLM p
                 \<or> pll_config AND RCC_PLLCFGR_PLLN \<noteq> push_bit 6 (PLLN p)
                 \<or> pll_config AND RCC_PLLCFGR_PLLP \<noteq> push_bit 16 (drop_bit 1 (PLLP p) - 1)
                 \<or> pll_config AND RCC_PLLCFGR_PLLQ \<noteq> push_bit 24 (PLLQ p)
              then Some (Some HAL_ERROR, s) else Some (None, s))"

definition osc_pll :: "'h hal_env \<Rightarrow> RCC_OscInitTypeDef \<Rightarrow> 'h hal_state \<Rightarrow> 'h outcome" where
  "osc_pll e i s =
     (if PLLState (PLL i) \<noteq> RCC_PLL_NONE
      then if HAL_RCC_GET_SYSCLK_SOURCE e s \<noteq> RCC_CFGR_SWS_PLL
           then if PLLState (PLL i) = RCC_PLL_ON then osc_pll_on e (PLL i) s
                else wait_while e (HAL_RCC_GET_FLAG e RCC_FLAG_PLLRDY) PLL_TIMEOUT_VALUE (HAL_RCC_PLL_DISABLE e s)
           else osc_pll_keep e (PLL i) s
      else Some (None, s))"

definition HAL_RCC_OscConfig ::
  "'h hal_env \<Rightarrow> RCC_OscInitTypeDef option \<Rightarrow> 'h hal_state \<Rightarrow> (HAL_StatusTypeDef \<times> 'h hal_state) option" where
  "HAL_RCC_OscConfig e init s =
     (case init of
        None \<Rightarrow> Some (HAL_ERROR, s)
      | Some i \<Rightarrow> do {
          (r, s) \<leftarrow> unless_returned (osc_hse e i) (unless_returned (osc_hsi e i) (unless_returned (osc_lsi e i)
            (unless_returned (osc_lse e i) (osc_pll e i)))) s;
          Some (case r of None \<Rightarrow> HAL_OK | Some st \<Rightarrow> st, s) })"

section \<open>Frequencies\<close>

definition AHBPrescTable :: "nat list" where
  "AHBPrescTable = [0, 0, 0, 0, 0, 0, 0, 0, 1, 2, 3, 4, 6, 7, 8, 9]"

definition APBPrescTable :: "nat list" where
  "APBPrescTable = [0, 0, 0, 0, 1, 2, 3, 4]"

definition HAL_RCC_GetSysClockFreq :: "'h hal_env \<Rightarrow> 'h hal_state \<Rightarrow> u32" where
  "HAL_RCC_GetSysClockFreq e s =
     (let sws = READ_REG e RCC_CFGR s AND RCC_CFGR_SWS
      in if sws = RCC_CFGR_SWS_HSI then HSI_VALUE
         else if sws = RCC_CFGR_SWS_HSE then HSE_VALUE
         else if sws = RCC_CFGR_SWS_PLL
         then let pllcfgr = READ_REG e RCC_PLLCFGR s;
                  pllm = pllcfgr AND RCC_PLLCFGR_PLLM;
                  plln = drop_bit 6 (pllcfgr AND RCC_PLLCFGR_PLLN);
                  osc = (if pllcfgr AND RCC_PLLCFGR_PLLSRC \<noteq> RCC_PLLCFGR_PLLSRC_HSI then HSE_VALUE else HSI_VALUE);
                  pllvco = (ucast ((ucast osc * ucast plln :: 64 word) div ucast pllm) :: u32);
                  pllp = (drop_bit 16 (pllcfgr AND RCC_PLLCFGR_PLLP) + 1) * 2
              in pllvco div pllp
         else HSI_VALUE)"

definition HAL_RCC_GetHCLKFreq :: "'h hal_state \<Rightarrow> u32" where
  "HAL_RCC_GetHCLKFreq s = SystemCoreClock s"

definition HAL_RCC_GetPCLK1Freq :: "'h hal_env \<Rightarrow> 'h hal_state \<Rightarrow> u32" where
  "HAL_RCC_GetPCLK1Freq e s =
     drop_bit (APBPrescTable ! unat (drop_bit 10 (READ_REG e RCC_CFGR s AND RCC_CFGR_PPRE1))) (HAL_RCC_GetHCLKFreq s)"

definition HAL_RCC_GetPCLK2Freq :: "'h hal_env \<Rightarrow> 'h hal_state \<Rightarrow> u32" where
  "HAL_RCC_GetPCLK2Freq e s =
     drop_bit (APBPrescTable ! unat (drop_bit 13 (READ_REG e RCC_CFGR s AND RCC_CFGR_PPRE2))) (HAL_RCC_GetHCLKFreq s)"

section \<open>Interrupt priorities and SysTick\<close>

type_synonym IRQn_Type = int

definition SysTick_IRQn :: IRQn_Type where "SysTick_IRQn = - 1"
definition NVIC_PRIO_BITS :: nat where "NVIC_PRIO_BITS = 4"
definition SCB_AIRCR_VECTKEY_Msk :: u32 where "SCB_AIRCR_VECTKEY_Msk = push_bit 16 0xFFFF"
definition SCB_AIRCR_PRIGROUP_Msk :: u32 where "SCB_AIRCR_PRIGROUP_Msk = push_bit 8 7"
definition NVIC_PRIORITYGROUP_0 :: u32 where "NVIC_PRIORITYGROUP_0 = 7"
definition NVIC_PRIORITYGROUP_4 :: u32 where "NVIC_PRIORITYGROUP_4 = 3"
definition SysTick_LOAD_RELOAD_Msk :: u32 where "SysTick_LOAD_RELOAD_Msk = 0xFFFFFF"

definition NVIC_SetPriorityGrouping :: "'h hal_env \<Rightarrow> u32 \<Rightarrow> 'h hal_state \<Rightarrow> 'h hal_state" where
  "NVIC_SetPriorityGrouping e PriorityGroup s =
     (let PriorityGroupTmp = PriorityGroup AND 0x07;
          reg_value = READ_REG e SCB_AIRCR s;
          reg_value = reg_value AND NOT (SCB_AIRCR_VECTKEY_Msk OR SCB_AIRCR_PRIGROUP_Msk);
          reg_value = reg_value OR push_bit 16 0x5FA OR push_bit 8 PriorityGroupTmp
      in WRITE_REG e SCB_AIRCR reg_value s)"

definition NVIC_GetPriorityGrouping :: "'h hal_env \<Rightarrow> 'h hal_state \<Rightarrow> u32" where
  "NVIC_GetPriorityGrouping e s = drop_bit 8 (READ_REG e SCB_AIRCR s AND SCB_AIRCR_PRIGROUP_Msk)"

definition NVIC_EncodePriority :: "u32 \<Rightarrow> u32 \<Rightarrow> u32 \<Rightarrow> u32" where
  "NVIC_EncodePriority PriorityGroup PreemptPriority SubPriority =
     (let g = PriorityGroup AND 0x07;
          PreemptPriorityBits = (if 7 - g > of_nat NVIC_PRIO_BITS then of_nat NVIC_PRIO_BITS else 7 - g);
          SubPriorityBits = (if g + of_nat NVIC_PRIO_BITS < 7 then 0 else (g - 7) + of_nat NVIC_PRIO_BITS)
      in push_bit (unat SubPriorityBits) (PreemptPriority AND (push_bit (unat PreemptPriorityBits) 1 - 1))
         OR (SubPriority AND (push_bit (unat SubPriorityBits) 1 - 1)))"

definition NVIC_SetPriority :: "'h hal_env \<Rightarrow> IRQn_Type \<Rightarrow> u32 \<Rightarrow> 'h hal_state \<Rightarrow> 'h hal_state" where
  "NVIC_SetPriority e IRQn priority s =
     (let v = push_bit (8 - NVIC_PRIO_BITS) priority AND 0xFF
      in if IRQn \<ge> 0 then WRITE_REG e (NVIC_IP (nat IRQn)) v s
         else WRITE_REG e (SCB_SHP (nat (IRQn mod 16) - 4)) v s)"

definition NVIC_EnableIRQ :: "'h hal_env \<Rightarrow> IRQn_Type \<Rightarrow> 'h hal_state \<Rightarrow> 'h hal_state" where
  "NVIC_EnableIRQ e IRQn s =
     (if IRQn \<ge> 0 then WRITE_REG e (NVIC_ISER (nat IRQn div 32)) (push_bit (nat IRQn mod 32) 1) s else s)"

definition HAL_NVIC_SetPriorityGrouping :: "'h hal_env \<Rightarrow> u32 \<Rightarrow> 'h hal_state \<Rightarrow> 'h hal_state" where
  "HAL_NVIC_SetPriorityGrouping = NVIC_SetPriorityGrouping"

definition HAL_NVIC_SetPriority :: "'h hal_env \<Rightarrow> IRQn_Type \<Rightarrow> u32 \<Rightarrow> u32 \<Rightarrow> 'h hal_state \<Rightarrow> 'h hal_state" where
  "HAL_NVIC_SetPriority e IRQn PreemptPriority SubPriority s =
     (let prioritygroup = NVIC_GetPriorityGrouping e s
      in NVIC_SetPriority e IRQn (NVIC_EncodePriority prioritygroup PreemptPriority SubPriority) s)"

definition HAL_NVIC_EnableIRQ :: "'h hal_env \<Rightarrow> IRQn_Type \<Rightarrow> 'h hal_state \<Rightarrow> 'h hal_state" where
  "HAL_NVIC_EnableIRQ = NVIC_EnableIRQ"

definition SysTick_Config :: "'h hal_env \<Rightarrow> u32 \<Rightarrow> 'h hal_state \<Rightarrow> u32 \<times> 'h hal_state" where
  "SysTick_Config e ticks s =
     (if ticks - 1 > SysTick_LOAD_RELOAD_Msk then (1, s)
      else let s = WRITE_REG e SysTick_LOAD (ticks - 1) s;
               s = NVIC_SetPriority e SysTick_IRQn (push_bit NVIC_PRIO_BITS 1 - 1) s;
               s = WRITE_REG e SysTick_VAL 0 s;
               s = WRITE_REG e SysTick_CTRL (push_bit 2 1 OR push_bit 1 1 OR push_bit 0 1) s
           in (0, s))"

definition HAL_SYSTICK_Config :: "'h hal_env \<Rightarrow> u32 \<Rightarrow> 'h hal_state \<Rightarrow> u32 \<times> 'h hal_state" where
  "HAL_SYSTICK_Config = SysTick_Config"

definition HAL_InitTick :: "'h hal_env \<Rightarrow> u32 \<Rightarrow> 'h hal_state \<Rightarrow> HAL_StatusTypeDef \<times> 'h hal_state" where
  "HAL_InitTick e TickPriority s =
     (let (r, s) = HAL_SYSTICK_Config e (SystemCoreClock s div (1000 div uwTickFreq)) s
      in if r > 0 then (HAL_ERROR, s)
         else if TickPriority < push_bit NVIC_PRIO_BITS 1
         then (HAL_OK, (HAL_NVIC_SetPriority e SysTick_IRQn TickPriority 0 s)\<lparr>uwTickPrio := TickPriority\<rparr>)
         else (HAL_ERROR, s))"

section \<open>HAL_RCC_ClockConfig\<close>

definition clk_latency :: "'h hal_env \<Rightarrow> (u32 \<Rightarrow> u32 \<Rightarrow> bool) \<Rightarrow> u32 \<Rightarrow> 'h hal_state \<Rightarrow> 'h outcome" where
  "clk_latency e change FLatency s =
     (if change FLatency (HAL_FLASH_GET_LATENCY e s)
      then let s = HAL_FLASH_SET_LATENCY e FLatency s
           in if HAL_FLASH_GET_LATENCY e s \<noteq> FLatency then Some (Some HAL_ERROR, s) else Some (None, s)
      else Some (None, s))"

definition clk_hclk :: "'h hal_env \<Rightarrow> RCC_ClkInitTypeDef \<Rightarrow> 'h hal_state \<Rightarrow> 'h hal_state" where
  "clk_hclk e i s =
     (if ClockType i AND RCC_CLOCKTYPE_HCLK = RCC_CLOCKTYPE_HCLK
      then let s = (if ClockType i AND RCC_CLOCKTYPE_PCLK1 = RCC_CLOCKTYPE_PCLK1
                    then MODIFY_REG e RCC_CFGR RCC_CFGR_PPRE1 RCC_HCLK_DIV16 s else s);
               s = (if ClockType i AND RCC_CLOCKTYPE_PCLK2 = RCC_CLOCKTYPE_PCLK2
                    then MODIFY_REG e RCC_CFGR RCC_CFGR_PPRE2 (push_bit 3 RCC_HCLK_DIV16) s else s)
           in MODIFY_REG e RCC_CFGR RCC_CFGR_HPRE (AHBCLKDivider i) s
      else s)"

definition clk_source_ready :: "'h hal_env \<Rightarrow> u32 \<Rightarrow> 'h hal_state \<Rightarrow> bool" where
  "clk_source_ready e source s =
     (if source = RCC_SYSCLKSOURCE_HSE then HAL_RCC_GET_FLAG e RCC_FLAG_HSERDY s
      else if source = RCC_SYSCLKSOURCE_PLLCLK \<or> source = RCC_SYSCLKSOURCE_PLLRCLK
      then HAL_RCC_GET_FLAG e RCC_FLAG_PLLRDY s
      else HAL_RCC_GET_FLAG e RCC_FLAG_HSIRDY s)"

definition clk_sysclk :: "'h hal_env \<Rightarrow> RCC_ClkInitTypeDef \<Rightarrow> 'h hal_state \<Rightarrow> 'h outcome" where
  "clk_sysclk e i s =
     (if ClockType i AND RCC_CLOCKTYPE_SYSCLK = RCC_CLOCKTYPE_SYSCLK
      then if \<not> clk_source_ready e (SYSCLKSource i) s then Some (Some HAL_ERROR, s)
           else let s = MODIFY_REG e RCC_CFGR RCC_CFGR_SW (SYSCLKSource i) s
                in wait_while e (\<lambda>s. HAL_RCC_GET_SYSCLK_SOURCE e s \<noteq> push_bit 2 (SYSCLKSource i))
                     CLOCKSWITCH_TIMEOUT_VALUE s
      else Some (None, s))"

definition clk_pclk :: "'h hal_env \<Rightarrow> RCC_ClkInitTypeDef \<Rightarrow> 'h hal_state \<Rightarrow> 'h hal_state" where
  "clk_pclk e i s =
     (let s = (if ClockType i AND RCC_CLOCKTYPE_PCLK1 = RCC_CLOCKTYPE_PCLK1
               then MODIFY_REG e RCC_CFGR RCC_CFGR_PPRE1 (APB1CLKDivider i) s else s)
      in if ClockType i AND RCC_CLOCKTYPE_PCLK2 = RCC_CLOCKTYPE_PCLK2
         then MODIFY_REG e RCC_CFGR RCC_CFGR_PPRE2 (push_bit 3 (APB2CLKDivider i)) s else s)"

definition clk_update :: "'h hal_env \<Rightarrow> 'h hal_state \<Rightarrow> 'h hal_state" where
  "clk_update e s =
     (let core = drop_bit (AHBPrescTable ! unat (drop_bit 4 (READ_REG e RCC_CFGR s AND RCC_CFGR_HPRE)))
                   (HAL_RCC_GetSysClockFreq e s);
          s = s\<lparr>SystemCoreClock := core\<rparr>
      in snd (HAL_InitTick e (uwTickPrio s) s))"

definition HAL_RCC_ClockConfig ::
  "'h hal_env \<Rightarrow> RCC_ClkInitTypeDef option \<Rightarrow> u32 \<Rightarrow> 'h hal_state \<Rightarrow> (HAL_StatusTypeDef \<times> 'h hal_state) option" where
  "HAL_RCC_ClockConfig e init FLatency s =
     (case init of
        None \<Rightarrow> Some (HAL_ERROR, s)
      | Some i \<Rightarrow> do {
          (r, s) \<leftarrow> unless_returned (clk_latency e (>) FLatency)
            (unless_returned (\<lambda>s. clk_sysclk e i (clk_hclk e i s)) (clk_latency e (<) FLatency)) s;
          Some (case r of None \<Rightarrow> (HAL_OK, clk_update e (clk_pclk e i s)) | Some st \<Rightarrow> (st, s)) })"

end
