(* ===== verification/Mcu.thy ===== *)
theory Mcu
  imports Hal_Gpio Hal_Rcc
begin

text \<open>
  An executable instance of the hardware: the registers of the microcontroller with the documented
  effects of reads and writes the configuration code meets.  Ready bits and the switch status follow
  their controls when the hardware \<^emph>\<open>settles\<close>; when that is, and how many milliseconds pass at each reading
  of the tick counter, are parameters (\<open>settle\<close>, \<open>ms\<close>), so that every latency is covered.
  \<open>responsive T\<close> says that the hardware always settles within \<open>T\<close> milliseconds; under it a polling loop
  with that timeout ends with the settled registers.
\<close>

record mcu =
  mregs :: "mreg \<Rightarrow> u32"
  uwTick :: u32
  polls :: nat

definition CR_READY :: u32 where "CR_READY = push_bit 1 1 OR push_bit 17 1 OR push_bit 25 1"

definition switch_status :: "(mreg \<Rightarrow> u32) \<Rightarrow> u32" where
  "switch_status R =
     (let cfgr = R RCC_CFGR; ready = push_bit 1 (R RCC_CR)
      in if cfgr AND 3 = 0 \<and> bit ready 1 \<or> cfgr AND 3 = 1 \<and> bit ready 17 \<or> cfgr AND 3 = 2 \<and> bit ready 25
         then (cfgr AND NOT 0xC) OR push_bit 2 (cfgr AND 3) else cfgr)"

definition settle_regs :: "(mreg \<Rightarrow> u32) \<Rightarrow> mreg \<Rightarrow> u32" where
  "settle_regs R =
     R(RCC_CR := (R RCC_CR AND NOT CR_READY) OR (push_bit 1 (R RCC_CR) AND CR_READY),
       RCC_CFGR := switch_status R,
       RCC_CSR := (R RCC_CSR AND NOT 2) OR (push_bit 1 (R RCC_CSR) AND 2),
       RCC_BDCR := (R RCC_BDCR AND NOT 2) OR (push_bit 1 (R RCC_BDCR) AND 2))"

fun write_regs :: "mreg \<Rightarrow> u32 \<Rightarrow> (mreg \<Rightarrow> u32) \<Rightarrow> mreg \<Rightarrow> u32" where
  "write_regs RCC_CR v R = R(RCC_CR := (v AND NOT CR_READY) OR (R RCC_CR AND CR_READY))"
| "write_regs RCC_CFGR v R = R(RCC_CFGR := (v AND NOT 0xC) OR (R RCC_CFGR AND 0xC))"
| "write_regs EXTI_PR v R = R(EXTI_PR := R EXTI_PR AND NOT v)"
| "write_regs (TIM_SR t) v R = R(TIM_SR t := R (TIM_SR t) AND v)"
| "write_regs (TIM_EGR t) v R =
     (if bit v 0 \<and> \<not> bit (R (TIM_CR1 t)) 2 then R(TIM_SR t := R (TIM_SR t) OR 1) else R)"
| "write_regs (NVIC_ISER i) v R = R(NVIC_ISER i := R (NVIC_ISER i) OR v)"
| "write_regs SCB_AIRCR v R =
     (if drop_bit 16 v = 0x5FA then R(SCB_AIRCR := (R SCB_AIRCR AND NOT 0x700) OR (v AND 0x700)) else R)"
| "write_regs (BSRR g) v R =
     R(ODR g := (R (ODR g) AND NOT (drop_bit 16 v)) OR (v AND 0xFFFF))"
| "write_regs r v R = R(r := v)"

definition mcu_env :: "(nat \<Rightarrow> bool) \<Rightarrow> (nat \<Rightarrow> u32) \<Rightarrow> mcu hal_env" where
  "mcu_env settle ms =
     \<lparr>rd_reg = (\<lambda>r m. mregs m r),
      wr_reg = (\<lambda>r v m. m\<lparr>mregs := write_regs r v (mregs m)\<rparr>),
      rd_tick = (\<lambda>m. let t = uwTick m + ms (polls m)
        in (t, m\<lparr>mregs := (if settle (polls m) then settle_regs (mregs m) else mregs m),
                uwTick := t, polls := Suc (polls m)\<rparr>))\<rparr>"

fun stored :: "mreg \<Rightarrow> bool" where
  "stored RCC_CR = False"
| "stored RCC_CFGR = False"
| "stored EXTI_PR = False"
| "stored (TIM_SR _) = False"
| "stored (TIM_EGR _) = False"
| "stored (NVIC_ISER _) = False"
| "stored SCB_AIRCR = False"
| "stored (BSRR _) = False"
| "stored _ = True"

lemma write_stored: "stored r \<Longrightarrow> write_regs r v R = R(r := v)"
  by (cases r) simp_all

interpretation mcu: plain "mcu_env settle ms" stored for settle ms
  by unfold_locales (simp_all add: mcu_env_def write_stored)

lemma gpio_stored: "gpio_reg r \<Longrightarrow> stored r"
  by (cases r) simp_all

section \<open>Access\<close>

abbreviation (input) regs_of :: "mcu hal_state \<Rightarrow> mreg \<Rightarrow> u32" where
  "regs_of s \<equiv> mregs (periph s)"

definition with_regs :: "(mreg \<Rightarrow> u32) \<Rightarrow> mcu hal_state \<Rightarrow> mcu hal_state" where
  "with_regs R s = s\<lparr>periph := (periph s)\<lparr>mregs := R\<rparr>\<rparr>"

lemma with_regs_simps [simp]:
  "mregs (periph (with_regs R s)) = R"
  "with_regs R (with_regs R' s) = with_regs R s"
  "SystemCoreClock (with_regs R s) = SystemCoreClock s"
  "uwTickPrio (with_regs R s) = uwTickPrio s"
  by (simp_all add: with_regs_def)

lemma mcu_access [simp]:
  "READ_REG (mcu_env settle ms) r s = mregs (periph s) r"
  "WRITE_REG (mcu_env settle ms) r v s = with_regs (write_regs r v (mregs (periph s))) s"
  by (simp_all add: access_defs mcu_env_def with_regs_def)

lemma mcu_modify [simp]:
  "MODIFY_REG (mcu_env settle ms) r c v s =
     with_regs (write_regs r ((mregs (periph s) r AND NOT c) OR v) (mregs (periph s))) s"
  "SET_BIT (mcu_env settle ms) r b s = with_regs (write_regs r (mregs (periph s) r OR b) (mregs (periph s))) s"
  "CLEAR_BIT (mcu_env settle ms) r b s = with_regs (write_regs r (mregs (periph s) r AND NOT b) (mregs (periph s))) s"
  by (simp_all add: MODIFY_REG_def SET_BIT_def CLEAR_BIT_def)

section \<open>Polling loops\<close>

definition responsive :: "nat \<Rightarrow> (nat \<Rightarrow> bool) \<Rightarrow> (nat \<Rightarrow> u32) \<Rightarrow> bool" where
  "responsive T settle ms \<longleftrightarrow> (\<forall>n. \<exists>j. settle (n + j) \<and> (\<Sum>i\<in>{n<..n + j}. unat (ms i)) \<le> T)"

text \<open>The state after some readings of the tick counter.\<close>

definition later :: "(mreg \<Rightarrow> u32) \<Rightarrow> mcu hal_state \<Rightarrow> mcu hal_state \<Rightarrow> bool" where
  "later R s s' \<longleftrightarrow>
     mregs (periph s') = R \<and> SystemCoreClock s' = SystemCoreClock s \<and> uwTickPrio s' = uwTickPrio s"

lemma later_trans: "later R s s' \<Longrightarrow> later R' s' s'' \<Longrightarrow> later R' s s''"
  by (simp add: later_def)

lemma GetTick_mcu:
  assumes "periph s = \<lparr>mregs = R, uwTick = t, polls = n\<rparr>"
  shows "GetTick (mcu_env settle ms) s =
    (t + ms n, s\<lparr>periph := \<lparr>mregs = (if settle n then settle_regs R else R), uwTick = t + ms n, polls = Suc n\<rparr>\<rparr>)"
  using assms by (simp add: GetTick_def mcu_env_def Let_def)

lemma poll_stops: "\<not> cond s \<Longrightarrow> poll e cond start T s = Some (None, s)"
  by (simp add: poll.simps)

lemma later_same: "periph s = \<lparr>mregs = R, uwTick = t, polls = n\<rparr> \<Longrightarrow> later R s s"
  by (simp add: later_def)

lemma poll_diff:
  fixes t start T :: u32
  assumes "unat (t - start) + unat d \<le> unat T"
  shows "unat (t + d - start) = unat (t - start) + unat d"
proof -
  have "t + d - start = (t - start) + d" by simp
  then have "unat (t + d - start) = (unat (t - start) + unat d) mod 2 ^ 32"
    by (simp only: unat_word_ariths) simp
  then show ?thesis using assms unat_u32_less [of T] by simp
qed

lemma poll_step:
  assumes "cond s" "periph s = \<lparr>mregs = R, uwTick = t, polls = n\<rparr>"
    and "unat (t - start) + unat (ms n) \<le> unat T"
  shows "poll (mcu_env settle ms) cond start T s = poll (mcu_env settle ms) cond start T
      (s\<lparr>periph := \<lparr>mregs = (if settle n then settle_regs R else R), uwTick = t + ms n, polls = Suc n\<rparr>\<rparr>)"
proof -
  have "\<not> t + ms n - start > T" using poll_diff [OF assms(3)] assms(3) by (simp add: word_less_nat_alt)
  then show ?thesis using assms(1,2) by (subst poll.simps) (simp add: GetTick_mcu)
qed

lemma poll_mcu:
  assumes c: "\<And>s. cond s = c (mregs (periph s))"
    and stop: "\<not> c (settle_regs R)"
    and R: "c R \<or> settle_regs R = R"
    and s: "periph s = \<lparr>mregs = R, uwTick = t, polls = n\<rparr>"
    and j: "settle (n + j)" "unat (t - start) + (\<Sum>i\<in>{n..n + j}. unat (ms i)) \<le> unat T"
  shows "\<exists>s'. poll (mcu_env settle ms) cond start T s = Some (None, s') \<and> later (settle_regs R) s s'"
proof (cases "c R")
  case True
  then show ?thesis using s j
  proof (induction j arbitrary: s t n)
    case 0
    have "poll (mcu_env settle ms) cond start T s = poll (mcu_env settle ms) cond start T
        (s\<lparr>periph := \<lparr>mregs = settle_regs R, uwTick = t + ms n, polls = Suc n\<rparr>\<rparr>)"
      using 0 poll_step [of cond s R t n start ms T settle] by (simp add: c)
    moreover have "\<not> cond (s\<lparr>periph := \<lparr>mregs = settle_regs R, uwTick = t + ms n, polls = Suc n\<rparr>\<rparr>)"
      using stop by (simp add: c)
    ultimately show ?case by (auto simp: later_def poll_stops)
  next
    case (Suc j)
    have sum: "(\<Sum>i\<in>{n..n + Suc j}. unat (ms i)) = unat (ms n) + (\<Sum>i\<in>{Suc n..Suc n + j}. unat (ms i))"
      by (subst sum.atLeast_Suc_atMost) simp_all
    let ?s = "s\<lparr>periph := \<lparr>mregs = (if settle n then settle_regs R else R), uwTick = t + ms n, polls = Suc n\<rparr>\<rparr>"
    have fits: "unat (t - start) + unat (ms n) \<le> unat T" using Suc.prems sum by simp
    have step: "poll (mcu_env settle ms) cond start T s = poll (mcu_env settle ms) cond start T ?s"
      using poll_step [where cond = cond and settle = settle, of s R t n start ms T] fits Suc.prems(1,2) by (simp add: c)
    show ?case
    proof (cases "settle n")
      case True
      then have "\<not> cond ?s" using stop by (simp add: c)
      then show ?thesis using True step by (auto simp: later_def poll_stops)
    next
      case False
      then have "\<exists>s'. poll (mcu_env settle ms) cond start T ?s = Some (None, s') \<and> later (settle_regs R) ?s s'"
        using Suc.prems sum poll_diff [OF fits]
        by (intro Suc.IH [where n = "Suc n" and t = "t + ms n"]) simp_all
      then show ?thesis using step by (auto simp: later_def)
    qed
  qed
next
  case False
  with R s have "mregs (periph s) = settle_regs R" by simp
  then show ?thesis using False R s by (auto simp: c poll_stops later_same)
qed

lemma wait_while_mcu:
  assumes "responsive (unat T) settle ms"
    and c: "\<And>s. cond s = c (mregs (periph s))"
    and stop: "\<not> c (settle_regs R)"
    and R: "c R \<or> settle_regs R = R" and idem: "settle_regs (settle_regs R) = settle_regs R"
    and s: "mregs (periph s) = R"
  shows "\<exists>s'. wait_while (mcu_env settle ms) cond T s = Some (None, s') \<and> later (settle_regs R) s s'"
proof -
  obtain t n where periph: "periph s = \<lparr>mregs = R, uwTick = t, polls = n\<rparr>" using s by (cases "periph s") simp
  let ?s = "s\<lparr>periph := \<lparr>mregs = (if settle n then settle_regs R else R), uwTick = t + ms n, polls = Suc n\<rparr>\<rparr>"
  obtain j where j: "settle (n + j)" "(\<Sum>i\<in>{n<..n + j}. unat (ms i)) \<le> unat T"
    using assms(1) unfolding responsive_def by blast
  have "\<exists>s'. poll (mcu_env settle ms) cond (t + ms n) T ?s = Some (None, s') \<and> later (settle_regs R) ?s s'"
  proof (cases "settle n")
    case True
    then have "\<not> cond ?s" using stop by (simp add: c)
    then show ?thesis using True by (auto simp: later_def poll_stops)
  next
    case False
    with j(1) obtain k where k: "j = Suc k" by (cases j) simp_all
    have "{n<..n + j} = {Suc n..Suc n + k}" using k by auto
    then show ?thesis
      using False j k by (intro poll_mcu [where c = c and n = "Suc n" and j = k and t = "t + ms n"] c stop R) simp_all
  qed
  then show ?thesis
    by (auto simp: wait_while_def GetTick_mcu [OF periph] later_def)
qed

end
