(* ===== verification/Hal_Tim.thy ===== *)
theory Hal_Tim
  imports Hal_Regs
begin

text \<open>
  The time base of a timer (\<open>stm32f4xx_hal_tim.c\<close>, \<open>stm32f4xx_hal_tim_ex.c\<close>): initialisation, clock source, start with interrupt, and the
  interrupt handler.  The callbacks of the handler are an argument, a function from the handle's
  callback (\<open>tim_callback\<close>) to what the program does then: the program defines \<open>PeriodElapsed\<close>, the library's
  weak defaults of the others do nothing.
\<close>

section \<open>Types\<close>

datatype HAL_TIM_StateTypeDef = HAL_TIM_STATE_RESET | HAL_TIM_STATE_READY | HAL_TIM_STATE_BUSY
  | HAL_TIM_STATE_TIMEOUT | HAL_TIM_STATE_ERROR

datatype HAL_TIM_ActiveChannel = HAL_TIM_ACTIVE_CHANNEL_1 | HAL_TIM_ACTIVE_CHANNEL_2
  | HAL_TIM_ACTIVE_CHANNEL_3 | HAL_TIM_ACTIVE_CHANNEL_4 | HAL_TIM_ACTIVE_CHANNEL_CLEARED

record TIM_Base_InitTypeDef =
  Prescaler :: u32
  CounterMode :: u32
  Period :: u32
  ClockDivision :: u32
  RepetitionCounter :: u32
  AutoReloadPreload :: u32

record TIM_HandleTypeDef =
  Instance :: tim_instance
  TimInit :: TIM_Base_InitTypeDef
  Channel :: HAL_TIM_ActiveChannel
  TimLock :: HAL_LockTypeDef
  TimState :: HAL_TIM_StateTypeDef

section \<open>Constants\<close>

definition TIM_CR1_CEN :: u32 where "TIM_CR1_CEN = push_bit 0 1"
definition TIM_CR1_URS :: u32 where "TIM_CR1_URS = push_bit 2 1"
definition TIM_CR1_DIR :: u32 where "TIM_CR1_DIR = push_bit 4 1"
definition TIM_CR1_CMS :: u32 where "TIM_CR1_CMS = push_bit 5 3"
definition TIM_CR1_ARPE :: u32 where "TIM_CR1_ARPE = push_bit 7 1"
definition TIM_CR1_CKD :: u32 where "TIM_CR1_CKD = push_bit 8 3"
definition TIM_EGR_UG :: u32 where "TIM_EGR_UG = push_bit 0 1"
definition TIM_SMCR_SMS :: u32 where "TIM_SMCR_SMS = push_bit 0 7"
definition TIM_SMCR_TS :: u32 where "TIM_SMCR_TS = push_bit 4 7"
definition TIM_SMCR_MSM :: u32 where "TIM_SMCR_MSM = push_bit 7 1"
definition TIM_SMCR_ETF :: u32 where "TIM_SMCR_ETF = push_bit 8 0xF"
definition TIM_SMCR_ETPS :: u32 where "TIM_SMCR_ETPS = push_bit 12 3"
definition TIM_SMCR_ECE :: u32 where "TIM_SMCR_ECE = push_bit 14 1"
definition TIM_SMCR_ETP :: u32 where "TIM_SMCR_ETP = push_bit 15 1"
definition TIM_CR2_MMS :: u32 where "TIM_CR2_MMS = push_bit 4 7"
definition TIM_SLAVEMODE_TRIGGER :: u32 where "TIM_SLAVEMODE_TRIGGER = 0x6"
definition TIM_CCMR_CCxS_low :: u32 where "TIM_CCMR_CCxS_low = push_bit 0 3"
definition TIM_CCMR_CCxS_high :: u32 where "TIM_CCMR_CCxS_high = push_bit 8 3"
definition TIM_IT_UPDATE :: u32 where "TIM_IT_UPDATE = push_bit 0 1"
definition TIM_IT_CC1 :: u32 where "TIM_IT_CC1 = push_bit 1 1"
definition TIM_IT_CC2 :: u32 where "TIM_IT_CC2 = push_bit 2 1"
definition TIM_IT_CC3 :: u32 where "TIM_IT_CC3 = push_bit 3 1"
definition TIM_IT_CC4 :: u32 where "TIM_IT_CC4 = push_bit 4 1"
definition TIM_IT_COM :: u32 where "TIM_IT_COM = push_bit 5 1"
definition TIM_IT_TRIGGER :: u32 where "TIM_IT_TRIGGER = push_bit 6 1"
definition TIM_IT_BREAK :: u32 where "TIM_IT_BREAK = push_bit 7 1"
definition TIM_CLOCKSOURCE_INTERNAL :: u32 where "TIM_CLOCKSOURCE_INTERNAL = 0x1000"

lemmas tim_consts [bitmask_simps] =
  TIM_CR1_CEN_def TIM_CR1_URS_def TIM_CR1_DIR_def TIM_CR1_CMS_def TIM_CR1_ARPE_def TIM_CR1_CKD_def TIM_EGR_UG_def
  TIM_SMCR_SMS_def TIM_SMCR_TS_def TIM_SMCR_MSM_def TIM_SMCR_ETF_def TIM_SMCR_ETPS_def TIM_SMCR_ECE_def
  TIM_SMCR_ETP_def TIM_CR2_MMS_def TIM_SLAVEMODE_TRIGGER_def TIM_CCMR_CCxS_low_def TIM_CCMR_CCxS_high_def
  TIM_IT_UPDATE_def TIM_IT_CC1_def TIM_IT_CC2_def TIM_IT_CC3_def TIM_IT_CC4_def TIM_IT_COM_def TIM_IT_TRIGGER_def
  TIM_IT_BREAK_def TIM_CLOCKSOURCE_INTERNAL_def

definition IS_TIM_COUNTER_MODE_SELECT_INSTANCE :: "tim_instance \<Rightarrow> bool" where
  "IS_TIM_COUNTER_MODE_SELECT_INSTANCE t \<longleftrightarrow> t \<in> {TIM1, TIM2, TIM3, TIM4, TIM5}"

definition IS_TIM_CLOCK_DIVISION_INSTANCE :: "tim_instance \<Rightarrow> bool" where
  "IS_TIM_CLOCK_DIVISION_INSTANCE t \<longleftrightarrow> t \<in> {TIM1, TIM2, TIM3, TIM4, TIM5, TIM9, TIM10, TIM11}"

definition IS_TIM_REPETITION_COUNTER_INSTANCE :: "tim_instance \<Rightarrow> bool" where
  "IS_TIM_REPETITION_COUNTER_INSTANCE t \<longleftrightarrow> t = TIM1"

definition IS_TIM_SLAVE_INSTANCE :: "tim_instance \<Rightarrow> bool" where
  "IS_TIM_SLAVE_INSTANCE t \<longleftrightarrow> t \<in> {TIM1, TIM2, TIM3, TIM4, TIM5, TIM9}"

section \<open>Initialisation and start\<close>

definition TIM_Base_SetConfig ::
  "'h hal_env \<Rightarrow> tim_instance \<Rightarrow> TIM_Base_InitTypeDef \<Rightarrow> 'h hal_state \<Rightarrow> 'h hal_state" where
  "TIM_Base_SetConfig e TIMx i s =
     (let tmpcr1 = READ_REG e (TIM_CR1 TIMx) s;
          tmpcr1 = (if IS_TIM_COUNTER_MODE_SELECT_INSTANCE TIMx
                    then (tmpcr1 AND NOT (TIM_CR1_DIR OR TIM_CR1_CMS)) OR CounterMode i else tmpcr1);
          tmpcr1 = (if IS_TIM_CLOCK_DIVISION_INSTANCE TIMx
                    then (tmpcr1 AND NOT TIM_CR1_CKD) OR ClockDivision i else tmpcr1);
          tmpcr1 = (tmpcr1 AND NOT TIM_CR1_ARPE) OR AutoReloadPreload i;
          s = WRITE_REG e (TIM_ARR TIMx) (Period i) s;
          s = WRITE_REG e (TIM_PSC TIMx) (Prescaler i) s;
          s = (if IS_TIM_REPETITION_COUNTER_INSTANCE TIMx
               then WRITE_REG e (TIM_RCR TIMx) (RepetitionCounter i) s else s);
          s = SET_BIT e (TIM_CR1 TIMx) TIM_CR1_URS s;
          s = WRITE_REG e (TIM_EGR TIMx) TIM_EGR_UG s
      in WRITE_REG e (TIM_CR1 TIMx) tmpcr1 s)"

text \<open>
  \<open>msp\<close> is \<open>HAL_TIM_Base_MspInit\<close>, which the program defines.  The channel and DMA states the function
  also sets are not part of the handle here: the program uses neither.
\<close>

definition HAL_TIM_Base_Init ::
  "'h hal_env \<Rightarrow> (TIM_HandleTypeDef \<Rightarrow> 'h hal_state \<Rightarrow> 'h hal_state) \<Rightarrow> TIM_HandleTypeDef \<Rightarrow> 'h hal_state \<Rightarrow>
    HAL_StatusTypeDef \<times> TIM_HandleTypeDef \<times> 'h hal_state" where
  "HAL_TIM_Base_Init e msp htim s =
     (let (htim, s) = (if TimState htim = HAL_TIM_STATE_RESET
                       then (let htim = htim\<lparr>TimLock := HAL_UNLOCKED\<rparr> in (htim, msp htim s)) else (htim, s));
          htim = htim\<lparr>TimState := HAL_TIM_STATE_BUSY\<rparr>;
          s = TIM_Base_SetConfig e (Instance htim) (TimInit htim) s;
          htim = htim\<lparr>TimState := HAL_TIM_STATE_READY\<rparr>
      in (HAL_OK, htim, s))"

text \<open>
  Of the clock sources only the internal one, the one the program asks for, is followed further: the
  others are \<open>None\<close>.
\<close>

definition HAL_TIM_ConfigClockSource ::
  "'h hal_env \<Rightarrow> u32 \<Rightarrow> TIM_HandleTypeDef \<Rightarrow> 'h hal_state \<Rightarrow>
    (HAL_StatusTypeDef \<times> TIM_HandleTypeDef \<times> 'h hal_state) option" where
  "HAL_TIM_ConfigClockSource e ClockSource htim s =
     (if TimLock htim = HAL_LOCKED then Some (HAL_BUSY, htim, s)
      else let htim = htim\<lparr>TimLock := HAL_LOCKED, TimState := HAL_TIM_STATE_BUSY\<rparr>;
               tmpsmcr = READ_REG e (TIM_SMCR (Instance htim)) s;
               tmpsmcr = tmpsmcr AND NOT (TIM_SMCR_SMS OR TIM_SMCR_TS);
               tmpsmcr = tmpsmcr AND NOT (TIM_SMCR_ETF OR TIM_SMCR_ETPS OR TIM_SMCR_ECE OR TIM_SMCR_ETP);
               s = WRITE_REG e (TIM_SMCR (Instance htim)) tmpsmcr s
           in if ClockSource = TIM_CLOCKSOURCE_INTERNAL
              then Some (HAL_OK, htim\<lparr>TimState := HAL_TIM_STATE_READY, TimLock := HAL_UNLOCKED\<rparr>, s)
              else None)"

definition HAL_TIMEx_MasterConfigSynchronization ::
  "'h hal_env \<Rightarrow> u32 \<Rightarrow> u32 \<Rightarrow> TIM_HandleTypeDef \<Rightarrow> 'h hal_state \<Rightarrow>
    HAL_StatusTypeDef \<times> TIM_HandleTypeDef \<times> 'h hal_state" where
  "HAL_TIMEx_MasterConfigSynchronization e MasterOutputTrigger MasterSlaveMode htim s =
     (if TimLock htim = HAL_LOCKED then (HAL_BUSY, htim, s)
      else let htim = htim\<lparr>TimLock := HAL_LOCKED, TimState := HAL_TIM_STATE_BUSY\<rparr>;
               tmpcr2 = READ_REG e (TIM_CR2 (Instance htim)) s;
               tmpsmcr = READ_REG e (TIM_SMCR (Instance htim)) s;
               tmpcr2 = (tmpcr2 AND NOT TIM_CR2_MMS) OR MasterOutputTrigger;
               s = WRITE_REG e (TIM_CR2 (Instance htim)) tmpcr2 s;
               s = (if IS_TIM_SLAVE_INSTANCE (Instance htim)
                    then WRITE_REG e (TIM_SMCR (Instance htim)) ((tmpsmcr AND NOT TIM_SMCR_MSM) OR MasterSlaveMode) s
                    else s)
           in (HAL_OK, htim\<lparr>TimState := HAL_TIM_STATE_READY, TimLock := HAL_UNLOCKED\<rparr>, s))"

definition HAL_TIM_Base_Start_IT ::
  "'h hal_env \<Rightarrow> TIM_HandleTypeDef \<Rightarrow> 'h hal_state \<Rightarrow> HAL_StatusTypeDef \<times> TIM_HandleTypeDef \<times> 'h hal_state" where
  "HAL_TIM_Base_Start_IT e htim s =
     (if TimState htim \<noteq> HAL_TIM_STATE_READY then (HAL_ERROR, htim, s)
      else let htim = htim\<lparr>TimState := HAL_TIM_STATE_BUSY\<rparr>;
               t = Instance htim;
               s = SET_BIT e (TIM_DIER t) TIM_IT_UPDATE s;
               s = (if IS_TIM_SLAVE_INSTANCE t
                    then if READ_REG e (TIM_SMCR t) s AND TIM_SMCR_SMS \<noteq> TIM_SLAVEMODE_TRIGGER
                         then SET_BIT e (TIM_CR1 t) TIM_CR1_CEN s else s
                    else SET_BIT e (TIM_CR1 t) TIM_CR1_CEN s)
           in (HAL_OK, htim, s))"

section \<open>The interrupt handler\<close>

datatype tim_callback = IC_Capture | OC_DelayElapsed | PWM_PulseFinished | PeriodElapsed | Break | Trigger | Commut

text \<open>
  The state during the handler: the handle, the registers and whatever the callbacks work on.  The
  status flag of the timer has the same bit as its interrupt enable.
\<close>

type_synonym ('h, 'a) tim_run = "TIM_HandleTypeDef \<times> 'h hal_state \<times> 'a"

definition CLEAR_FLAG :: "'h hal_env \<Rightarrow> u32 \<Rightarrow> ('h, 'a) tim_run \<Rightarrow> ('h, 'a) tim_run" where
  "CLEAR_FLAG e flag = (\<lambda>(htim, s, a). (htim, WRITE_REG e (TIM_SR (Instance htim)) (NOT flag) s, a))"

definition set_channel :: "HAL_TIM_ActiveChannel \<Rightarrow> ('h, 'a) tim_run \<Rightarrow> ('h, 'a) tim_run" where
  "set_channel c = (\<lambda>(htim, s, a). (htim\<lparr>Channel := c\<rparr>, s, a))"

definition callback ::
  "(tim_callback \<Rightarrow> tim_instance \<Rightarrow> 'a \<Rightarrow> 'a) \<Rightarrow> tim_callback \<Rightarrow> ('h, 'a) tim_run \<Rightarrow> ('h, 'a) tim_run" where
  "callback cb c = (\<lambda>(htim, s, a). (htim, s, cb c (Instance htim) a))"

text \<open>Capture compare event of channel \<open>c\<close>, whose mode is the field \<open>sel\<close> of register \<open>ccmr\<close>.\<close>

definition cc_event ::
  "'h hal_env \<Rightarrow> (tim_callback \<Rightarrow> tim_instance \<Rightarrow> 'a \<Rightarrow> 'a) \<Rightarrow> u32 \<Rightarrow> u32 \<Rightarrow> u32 \<Rightarrow> HAL_TIM_ActiveChannel \<Rightarrow>
    (tim_instance \<Rightarrow> mreg) \<Rightarrow> u32 \<Rightarrow> ('h, 'a) tim_run \<Rightarrow> ('h, 'a) tim_run" where
  "cc_event e cb itflag itsource flag c ccmr sel r =
     (if itflag AND flag = flag \<and> itsource AND flag = flag
      then let r = set_channel c (CLEAR_FLAG e flag r);
               r = (case r of (htim, s, a) \<Rightarrow>
                      if READ_REG e (ccmr (Instance htim)) s AND sel \<noteq> 0 then callback cb IC_Capture r
                      else callback cb PWM_PulseFinished (callback cb OC_DelayElapsed r))
           in set_channel HAL_TIM_ACTIVE_CHANNEL_CLEARED r
      else r)"

definition plain_event ::
  "'h hal_env \<Rightarrow> (tim_callback \<Rightarrow> tim_instance \<Rightarrow> 'a \<Rightarrow> 'a) \<Rightarrow> u32 \<Rightarrow> u32 \<Rightarrow> u32 \<Rightarrow> tim_callback \<Rightarrow>
    ('h, 'a) tim_run \<Rightarrow> ('h, 'a) tim_run" where
  "plain_event e cb itflag itsource flag c r =
     (if itflag AND flag = flag \<and> itsource AND flag = flag then callback cb c (CLEAR_FLAG e flag r) else r)"

definition HAL_TIM_IRQHandler ::
  "'h hal_env \<Rightarrow> (tim_callback \<Rightarrow> tim_instance \<Rightarrow> 'a \<Rightarrow> 'a) \<Rightarrow> ('h, 'a) tim_run \<Rightarrow> ('h, 'a) tim_run" where
  "HAL_TIM_IRQHandler e cb r =
     (case r of (htim, s, _) \<Rightarrow>
        let itsource = READ_REG e (TIM_DIER (Instance htim)) s;
            itflag = READ_REG e (TIM_SR (Instance htim)) s;
            r = cc_event e cb itflag itsource TIM_IT_CC1 HAL_TIM_ACTIVE_CHANNEL_1 TIM_CCMR1 TIM_CCMR_CCxS_low r;
            r = cc_event e cb itflag itsource TIM_IT_CC2 HAL_TIM_ACTIVE_CHANNEL_2 TIM_CCMR1 TIM_CCMR_CCxS_high r;
            r = cc_event e cb itflag itsource TIM_IT_CC3 HAL_TIM_ACTIVE_CHANNEL_3 TIM_CCMR2 TIM_CCMR_CCxS_low r;
            r = cc_event e cb itflag itsource TIM_IT_CC4 HAL_TIM_ACTIVE_CHANNEL_4 TIM_CCMR2 TIM_CCMR_CCxS_high r;
            r = plain_event e cb itflag itsource TIM_IT_UPDATE PeriodElapsed r;
            r = plain_event e cb itflag itsource TIM_IT_BREAK Break r;
            r = plain_event e cb itflag itsource TIM_IT_TRIGGER Trigger r
        in plain_event e cb itflag itsource TIM_IT_COM Commut r)"

text \<open>With only the update interrupt enabled, the handler is the period callback when the flag is set.\<close>

lemma IRQHandler_update_only:
  assumes "READ_REG e (TIM_DIER (Instance htim)) s = 1"
  shows "HAL_TIM_IRQHandler e cb (htim, s, a) =
    (if bit (READ_REG e (TIM_SR (Instance htim)) s) 0
     then (htim, WRITE_REG e (TIM_SR (Instance htim)) (NOT 1) s, cb PeriodElapsed (Instance htim) a)
     else (htim, s, a))"
  using assms
  by (simp add: HAL_TIM_IRQHandler_def cc_event_def plain_event_def bitmask_simps CLEAR_FLAG_def callback_def
      Let_def and_one_eq bit_0 odd_iff_mod_2_eq_one)

end
