(* ===== verification/Board_Init.thy ===== *)
theory Board_Init
  imports Mcu Hal_Tim App_Main
begin

text \<open>
  The start-up of the board: the first part of \<open>main\<close> with the functions of \<open>main.c\<close> it calls, the
  \<open>Msp\<close> functions of \<open>stm32f4xx_hal_msp.c\<close>, and the handlers of \<open>stm32f4xx_it.c\<close>.  \<open>None\<close> is
  \<open>Error_Handler\<close>, which disables the interrupts and loops for ever.  The registers of SPI1 itself are
  those of \<open>Hal_Spi\<close>; here \<open>HAL_SPI_MspInit\<close> gives it its clock and pins.
\<close>

section \<open>Constants of main.h\<close>

definition B1_Pin :: u16 where "B1_Pin = 0x2000"
definition USART_TX_Pin :: u16 where "USART_TX_Pin = 0x0004"
definition USART_RX_Pin :: u16 where "USART_RX_Pin = 0x0008"
definition ENC28J60_INT_Pin :: u16 where "ENC28J60_INT_Pin = 0x0080"
definition GreenLED1_Pin :: u16 where "GreenLED1_Pin = 0x0400"
definition EXTI9_5_IRQn :: IRQn_Type where "EXTI9_5_IRQn = 23"
definition TIM2_IRQn :: IRQn_Type where "TIM2_IRQn = 28"
definition EXTI15_10_IRQn :: IRQn_Type where "EXTI15_10_IRQn = 40"

lemmas board_consts = B1_Pin_def USART_TX_Pin_def USART_RX_Pin_def ENC28J60_INT_Pin_def GreenLED1_Pin_def
  ENC28J60_CS_Pin_def EXTI9_5_IRQn_def TIM2_IRQn_def EXTI15_10_IRQn_def

section \<open>Msp functions\<close>

definition HAL_MspInit :: "'h hal_env \<Rightarrow> 'h hal_state \<Rightarrow> 'h hal_state" where
  "HAL_MspInit e s =
     (let s = SYSCFG_CLK_ENABLE e s;
          s = HAL_RCC_PWR_CLK_ENABLE e s
      in HAL_NVIC_SetPriorityGrouping e NVIC_PRIORITYGROUP_0 s)"

definition HAL_SPI_MspInit :: "'h hal_env \<Rightarrow> 'h hal_state \<Rightarrow> 'h hal_state" where
  "HAL_SPI_MspInit e s =
     (let s = SET_BIT e RCC_APB2ENR (push_bit 12 1) s;
          s = SET_BIT e RCC_AHB1ENR (push_bit 0 1) s
      in HAL_GPIO_Init e GPIOA \<lparr>Pin = 0x0020 OR 0x0040 OR 0x0080, PinMode = GPIO_MODE_AF_PP, Pull = GPIO_NOPULL,
           Speed = GPIO_SPEED_FREQ_VERY_HIGH, Alternate = 0x05\<rparr> s)"

definition HAL_UART_MspInit :: "'h hal_env \<Rightarrow> 'h hal_state \<Rightarrow> 'h hal_state" where
  "HAL_UART_MspInit e s =
     (let s = SET_BIT e RCC_APB1ENR (push_bit 17 1) s;
          s = SET_BIT e RCC_AHB1ENR (push_bit 0 1) s
      in HAL_GPIO_Init e GPIOA \<lparr>Pin = ucast (USART_TX_Pin OR USART_RX_Pin), PinMode = GPIO_MODE_AF_PP, Pull = GPIO_NOPULL,
           Speed = GPIO_SPEED_FREQ_LOW, Alternate = 0x07\<rparr> s)"

definition HAL_TIM_Base_MspInit :: "'h hal_env \<Rightarrow> TIM_HandleTypeDef \<Rightarrow> 'h hal_state \<Rightarrow> 'h hal_state" where
  "HAL_TIM_Base_MspInit e htim s =
     (if Instance htim = TIM2
      then let s = SET_BIT e RCC_APB1ENR (push_bit 0 1) s;
               s = HAL_NVIC_SetPriority e TIM2_IRQn 0 0 s
           in HAL_NVIC_EnableIRQ e TIM2_IRQn s
      else s)"

section \<open>Initialisation\<close>

definition TICK_INT_PRIORITY :: u32 where "TICK_INT_PRIORITY = 0"

definition HAL_Init :: "'h hal_env \<Rightarrow> 'h hal_state \<Rightarrow> 'h hal_state" where
  "HAL_Init e s =
     (let s = SET_BIT e FLASH_ACR (push_bit 9 1) s;
          s = SET_BIT e FLASH_ACR (push_bit 10 1) s;
          s = SET_BIT e FLASH_ACR (push_bit 8 1) s;
          s = HAL_NVIC_SetPriorityGrouping e NVIC_PRIORITYGROUP_4 s;
          s = snd (HAL_InitTick e TICK_INT_PRIORITY s)
      in HAL_MspInit e s)"

definition board_osc :: RCC_OscInitTypeDef where
  "board_osc = \<lparr>OscillatorType = RCC_OSCILLATORTYPE_HSI, HSEState = 0, LSEState = 0, HSIState = RCC_HSI_ON,
     HSICalibrationValue = 0x10, LSIState = 0,
     PLL = \<lparr>PLLState = RCC_PLL_ON, PLLSource = RCC_PLLCFGR_PLLSRC_HSI, PLLM = 8, PLLN = 80, PLLP = 2, PLLQ = 7\<rparr>\<rparr>"

definition board_clk :: RCC_ClkInitTypeDef where
  "board_clk = \<lparr>ClockType = RCC_CLOCKTYPE_HCLK OR RCC_CLOCKTYPE_SYSCLK OR RCC_CLOCKTYPE_PCLK1 OR RCC_CLOCKTYPE_PCLK2,
     SYSCLKSource = RCC_SYSCLKSOURCE_PLLCLK, AHBCLKDivider = RCC_SYSCLK_DIV1, APB1CLKDivider = RCC_HCLK_DIV2,
     APB2CLKDivider = RCC_HCLK_DIV1\<rparr>"

definition SystemClock_Config :: "'h hal_env \<Rightarrow> 'h hal_state \<Rightarrow> 'h hal_state option" where
  "SystemClock_Config e s = do {
     s \<leftarrow> Some (MODIFY_REG e PWR_CR (push_bit 14 3) (push_bit 14 2) (HAL_RCC_PWR_CLK_ENABLE e s));
     (r, s) \<leftarrow> HAL_RCC_OscConfig e (Some board_osc) s;
     if r \<noteq> HAL_OK then None
     else do {
       (r, s) \<leftarrow> HAL_RCC_ClockConfig e (Some board_clk) 2 s;
       if r \<noteq> HAL_OK then None else Some s
     }
   }"

definition MX_GPIO_Init :: "'h hal_env \<Rightarrow> 'h hal_state \<Rightarrow> 'h hal_state" where
  "MX_GPIO_Init e s =
     (let s = SET_BIT e RCC_AHB1ENR (push_bit 2 1) s;
          s = SET_BIT e RCC_AHB1ENR (push_bit 7 1) s;
          s = SET_BIT e RCC_AHB1ENR (push_bit 0 1) s;
          s = SET_BIT e RCC_AHB1ENR (push_bit 1 1) s;
          s = HAL_GPIO_WritePin (WRITE_REG e (BSRR GPIOA)) GreenLED1_Pin GPIO_PIN_RESET s;
          s = HAL_GPIO_WritePin (WRITE_REG e (BSRR GPIOB)) ENC28J60_CS_Pin GPIO_PIN_SET s;
          g = \<lparr>Pin = ucast (B1_Pin OR ENC28J60_INT_Pin), PinMode = GPIO_MODE_IT_FALLING, Pull = GPIO_NOPULL,
               Speed = 0, Alternate = 0\<rparr>;
          s = HAL_GPIO_Init e GPIOC g s;
          g = g\<lparr>Pin := ucast GreenLED1_Pin, PinMode := GPIO_MODE_OUTPUT_PP, Pull := GPIO_NOPULL,
                Speed := GPIO_SPEED_FREQ_VERY_HIGH\<rparr>;
          s = HAL_GPIO_Init e GPIOA g s;
          g = g\<lparr>Pin := ucast ENC28J60_CS_Pin, PinMode := GPIO_MODE_OUTPUT_PP, Pull := GPIO_NOPULL,
                Speed := GPIO_SPEED_FREQ_VERY_HIGH\<rparr>;
          s = HAL_GPIO_Init e GPIOB g s;
          s = HAL_NVIC_SetPriority e EXTI9_5_IRQn 0 0 s;
          s = HAL_NVIC_EnableIRQ e EXTI9_5_IRQn s;
          s = HAL_NVIC_SetPriority e EXTI15_10_IRQn 0 0 s
      in HAL_NVIC_EnableIRQ e EXTI15_10_IRQn s)"

definition tim2_Init :: TIM_Base_InitTypeDef where
  "tim2_Init = \<lparr>Prescaler = 9999, CounterMode = 0, Period = 3999, ClockDivision = 0, RepetitionCounter = 0,
     AutoReloadPreload = 0\<rparr>"

text \<open>The handle \<open>htim2\<close> is static: all zero at the start.\<close>

definition htim2_0 :: TIM_HandleTypeDef where
  "htim2_0 = \<lparr>Instance = TIM2, TimInit = tim2_Init, Channel = HAL_TIM_ACTIVE_CHANNEL_CLEARED,
     TimLock = HAL_UNLOCKED, TimState = HAL_TIM_STATE_RESET\<rparr>"

definition MX_TIM2_Init ::
  "'h hal_env \<Rightarrow> TIM_HandleTypeDef \<Rightarrow> 'h hal_state \<Rightarrow> (TIM_HandleTypeDef \<times> 'h hal_state) option" where
  "MX_TIM2_Init e htim2 s = do {
     let htim2 = htim2\<lparr>Instance := TIM2, TimInit := tim2_Init\<rparr>;
     let (r, htim2, s) = HAL_TIM_Base_Init e (HAL_TIM_Base_MspInit e) htim2 s;
     if r \<noteq> HAL_OK then None
     else do {
       (r, htim2, s) \<leftarrow> HAL_TIM_ConfigClockSource e TIM_CLOCKSOURCE_INTERNAL htim2 s;
       if r \<noteq> HAL_OK then None
       else (case HAL_TIMEx_MasterConfigSynchronization e 0 0 htim2 s of
               (r, htim2, s) \<Rightarrow> if r \<noteq> HAL_OK then None else Some (htim2, s))
     }
   }"

definition board_init ::
  "'h hal_env \<Rightarrow> TIM_HandleTypeDef \<Rightarrow> 'h hal_state \<Rightarrow> (TIM_HandleTypeDef \<times> 'h hal_state) option" where
  "board_init e htim2 s = do {
     s \<leftarrow> SystemClock_Config e (HAL_Init e s);
     s \<leftarrow> Some (HAL_UART_MspInit e (HAL_SPI_MspInit e (MX_GPIO_Init e s)));
     (htim2, s) \<leftarrow> MX_TIM2_Init e htim2 s;
     Some (snd (HAL_TIM_Base_Start_IT e htim2 s))
   }"

section \<open>Interrupt handlers\<close>

definition HAL_GPIO_EXTI_IRQHandler ::
  "'h hal_env \<Rightarrow> (u16 \<Rightarrow> 'a \<Rightarrow> 'a) \<Rightarrow> u16 \<Rightarrow> 'h hal_state \<times> 'a \<Rightarrow> 'h hal_state \<times> 'a" where
  "HAL_GPIO_EXTI_IRQHandler e cb GPIO_Pin = (\<lambda>(s, a).
     if READ_REG e EXTI_PR s AND ucast GPIO_Pin \<noteq> 0
     then (WRITE_REG e EXTI_PR (ucast GPIO_Pin) s, cb GPIO_Pin a) else (s, a))"

definition EXTI9_5_IRQHandler ::
  "'i hal_env \<Rightarrow> 'i hal_state \<times> ('w, 'h, 'm, 'n) app \<Rightarrow> 'i hal_state \<times> ('w, 'h, 'm, 'n) app" where
  "EXTI9_5_IRQHandler e = HAL_GPIO_EXTI_IRQHandler e HAL_GPIO_EXTI_Callback ENC28J60_INT_Pin"

definition EXTI15_10_IRQHandler ::
  "'i hal_env \<Rightarrow> 'i hal_state \<times> ('w, 'h, 'm, 'n) app \<Rightarrow> 'i hal_state \<times> ('w, 'h, 'm, 'n) app" where
  "EXTI15_10_IRQHandler e = HAL_GPIO_EXTI_IRQHandler e HAL_GPIO_EXTI_Callback B1_Pin"

text \<open>The callbacks the program does not define are the weak ones of the library, which do nothing.\<close>

definition app_tim_callback :: "tim_callback \<Rightarrow> tim_instance \<Rightarrow> ('w, 'h, 'm, 'n) app \<Rightarrow> ('w, 'h, 'm, 'n) app" where
  "app_tim_callback c t a = (if c = PeriodElapsed then HAL_TIM_PeriodElapsedCallback t a else a)"

definition TIM2_IRQHandler ::
  "'i hal_env \<Rightarrow> TIM_HandleTypeDef \<times> 'i hal_state \<times> ('w, 'h, 'm, 'n) app \<Rightarrow>
    TIM_HandleTypeDef \<times> 'i hal_state \<times> ('w, 'h, 'm, 'n) app" where
  "TIM2_IRQHandler e = HAL_TIM_IRQHandler e app_tim_callback"

definition HAL_IncTick :: "u32 \<Rightarrow> u32" where
  "HAL_IncTick t = t + uwTickFreq"

definition SysTick_Handler :: "mcu hal_state \<Rightarrow> mcu hal_state" where
  "SysTick_Handler s = s\<lparr>periph := (periph s)\<lparr>uwTick := HAL_IncTick (uwTick (periph s))\<rparr>\<rparr>"

end
