(* ===== verification/Board_Spec.thy ===== *)
theory Board_Spec
  imports Board_Init
begin

text \<open>
  What the start-up establishes on the microcontroller of \<open>Mcu\<close>, whatever its latencies up to the
  timeouts of the library: the clocks and the periods of SysTick and TIM2, the pins, and flat interrupt
  priorities; and what a falling edge of the controller's interrupt pin or an update of TIM2 then leads to.
\<close>

section \<open>Settled registers\<close>

lemma settle_other: "r \<notin> {RCC_CR, RCC_CFGR, RCC_CSR, RCC_BDCR} \<Longrightarrow> settle_regs R r = R r"
  by (simp add: settle_regs_def)

lemma bit_copy_up:
  fixes v m :: u32
  shows "bit ((v AND NOT m) OR (push_bit k v AND m)) n = (if bit m n then k \<le> n \<and> bit v (n - k) else bit v n)"
  by (auto simp: bit_simps dest: bit_imp_le_length)

lemma bit_CR_READY: "bit CR_READY n \<longleftrightarrow> n = 1 \<or> n = 17 \<or> n = 25"
  unfolding CR_READY_def bit_or_iff bit_push_bit_iff bit_1_iff by auto

lemma bit_two: "bit (2 :: u32) n \<longleftrightarrow> n = 1"
  using bit_exp_iff [where 'a = "32 word", of 1 n] by auto

lemma settle_CR:
  "bit (settle_regs R RCC_CR) n =
     (if n = 1 \<or> n = 17 \<or> n = 25 then bit (R RCC_CR) (n - 1) else bit (R RCC_CR) n)"
proof -
  have "settle_regs R RCC_CR = (R RCC_CR AND NOT CR_READY) OR (push_bit 1 (R RCC_CR) AND CR_READY)"
    by (simp only: settle_regs_def fun_upd_apply mreg.distinct if_True if_False simp_thms)
  then show ?thesis by (auto simp only: bit_copy_up bit_CR_READY split: if_splits)
qed

lemma settle_low:
  assumes "r = RCC_CSR \<or> r = RCC_BDCR"
  shows "bit (settle_regs R r) n = (if n = 1 then bit (R r) 0 else bit (R r) n)"
proof -
  have "settle_regs R r = (R r AND NOT 2) OR (push_bit 1 (R r) AND 2)"
    using assms by (auto simp only: settle_regs_def fun_upd_apply mreg.distinct if_True if_False simp_thms)
  then show ?thesis by (auto simp only: bit_copy_up bit_two diff_self_eq_0 split: if_splits)
qed

lemma settle_CFGR: "settle_regs R RCC_CFGR = switch_status R"
  by (simp add: settle_regs_def)

lemma settledI:
  assumes "bit (R RCC_CR) 1 = bit (R RCC_CR) 0" "bit (R RCC_CR) 17 = bit (R RCC_CR) 16"
    "bit (R RCC_CR) 25 = bit (R RCC_CR) 24" "switch_status R = R RCC_CFGR"
    "bit (R RCC_CSR) 1 = bit (R RCC_CSR) 0" "bit (R RCC_BDCR) 1 = bit (R RCC_BDCR) 0"
  shows "settle_regs R = R"
proof -
  have "settle_regs R RCC_CR = R RCC_CR"
    using assms by (intro bit_eqI) (auto simp: settle_CR)
  moreover have "settle_regs R RCC_CSR = R RCC_CSR" "settle_regs R RCC_BDCR = R RCC_BDCR"
    using assms by (auto intro!: bit_eqI simp: settle_low split: if_splits)
  ultimately show ?thesis
    using assms(4) settle_other [of _ R] settle_CFGR [of R] by (intro ext) (metis insert_iff empty_iff)
qed

lemma and_bit_flag:
  fixes v :: u32
  shows "k < 32 \<Longrightarrow> (v AND push_bit k 1 \<noteq> 0) = bit v k"
  by (simp add: and_exp_eq_0_iff_not_bit)

lemma flag_at:
  assumes "drop_bit 5 f = 1" "unat (f AND 0x1F) = k" "k < 32"
  shows "HAL_RCC_GET_FLAG (mcu_env settle ms) f s = bit (mregs (periph s) RCC_CR) k"
  using assms by (simp only: HAL_RCC_GET_FLAG_def refl if_True mcu_access and_bit_flag)

lemma flag_bits:
  "HAL_RCC_GET_FLAG (mcu_env settle ms) RCC_FLAG_HSERDY s = bit (mregs (periph s) RCC_CR) 17"
  "HAL_RCC_GET_FLAG (mcu_env settle ms) RCC_FLAG_HSIRDY s = bit (mregs (periph s) RCC_CR) 1"
  "HAL_RCC_GET_FLAG (mcu_env settle ms) RCC_FLAG_PLLRDY s = bit (mregs (periph s) RCC_CR) 25"
  by (intro flag_at; simp add: RCC_FLAG_HSERDY_def RCC_FLAG_HSIRDY_def RCC_FLAG_PLLRDY_def)+

lemma bit_low_masks:
  "bit (3 :: u32) n \<longleftrightarrow> n = 0 \<or> n = 1" "bit (12 :: u32) n \<longleftrightarrow> n = 2 \<or> n = 3"
proof -
  have "(3 :: u32) = 2 ^ 0 OR 2 ^ 1" "(12 :: u32) = 2 ^ 2 OR 2 ^ 3" by simp_all
  then show "bit (3 :: u32) n \<longleftrightarrow> n = 0 \<or> n = 1" "bit (12 :: u32) n \<longleftrightarrow> n = 2 \<or> n = 3"
    by (simp_all only: bit_or_iff bit_exp_iff) auto
qed

lemma copy_field:
  fixes c h m :: u32
  assumes "\<And>n. bit h n \<longleftrightarrow> 2 \<le> n \<and> bit m (n - 2)" "\<And>n. 2 \<le> n \<Longrightarrow> \<not> bit m n"
  shows "((c AND NOT h) OR push_bit 2 (c AND m)) AND m = c AND m"
    and "((c AND NOT h) OR push_bit 2 (c AND m)) AND NOT h = c AND NOT h"
  by (auto intro!: bit_eqI simp: bit_simps assms dest: bit_imp_le_length)

lemma sws_fields:
  fixes c :: u32
  shows "((c AND NOT 12) OR push_bit 2 (c AND 3)) AND 3 = c AND 3"
    and "((c AND NOT 12) OR push_bit 2 (c AND 3)) AND NOT 12 = c AND NOT 12"
  by (rule copy_field; simp only: bit_low_masks; arith)+

lemma switch_status_alt:
  "switch_status R =
     (let c = R RCC_CFGR
      in if c AND 3 = 0 \<and> bit (R RCC_CR) 0 \<or> c AND 3 = 1 \<and> bit (R RCC_CR) 16 \<or> c AND 3 = 2 \<and> bit (R RCC_CR) 24
         then (c AND NOT 12) OR push_bit 2 (c AND 3) else c)"
proof -
  have up: "bit (push_bit 1 (v :: u32)) 1 = bit v 0" "bit (push_bit 1 (v :: u32)) 17 = bit v 16"
    "bit (push_bit 1 (v :: u32)) 25 = bit v 24" for v
    unfolding bit_push_bit_iff by auto
  show ?thesis unfolding switch_status_def Let_def up by (rule refl)
qed

lemma settle_idem: "settle_regs (settle_regs R) = settle_regs R"
proof (rule settledI)
  have "bit (settle_regs R RCC_CR) 0 = bit (R RCC_CR) 0" "bit (settle_regs R RCC_CR) 16 = bit (R RCC_CR) 16"
    "bit (settle_regs R RCC_CR) 24 = bit (R RCC_CR) 24"
    by (simp_all add: settle_CR)
  then show "switch_status (settle_regs R) = settle_regs R RCC_CFGR"
    unfolding switch_status_alt [of "settle_regs R"] settle_CFGR Let_def
    by (simp only: switch_status_alt [of R] Let_def sws_fields split: if_split) simp
qed (simp_all add: settle_CR settle_low)

lemma bit_write_CR:
  "bit (write_regs RCC_CR v R RCC_CR) n =
    (if n = 1 \<or> n = 17 \<or> n = 25 then bit (R RCC_CR) n else bit v n)"
  by (auto simp: bit_simps bit_CR_READY dest: bit_imp_le_length)

lemma write_regs_other: "r \<noteq> RCC_CR \<Longrightarrow> write_regs RCC_CR v R r = R r"
  by simp

section \<open>The oscillators\<close>

text \<open>After reset: HSI on and ready, the other oscillators off, HSI the system clock.\<close>

definition reset_clocks :: "(mreg \<Rightarrow> u32) \<Rightarrow> bool" where
  "reset_clocks R \<longleftrightarrow> settle_regs R = R \<and> bit (R RCC_CR) 0 \<and> \<not> bit (R RCC_CR) 16 \<and> \<not> bit (R RCC_CR) 24 \<and> R RCC_CFGR = 0"

definition pll_off :: "(mreg \<Rightarrow> u32) \<Rightarrow> mreg \<Rightarrow> u32" where
  "pll_off R =
     (let R = write_regs RCC_CR ((R RCC_CR AND NOT RCC_CR_HSITRIM) OR push_bit 3 0x10) R
      in write_regs RCC_CR (R RCC_CR AND NOT RCC_CR_PLLON) R)"

definition pll_start :: "(mreg \<Rightarrow> u32) \<Rightarrow> mreg \<Rightarrow> u32" where
  "pll_start R =
     (let R = (pll_off R)(RCC_PLLCFGR := pll_word (PLL board_osc))
      in write_regs RCC_CR (R RCC_CR OR RCC_CR_PLLON) R)"

lemma pll_off_bits:
  assumes "n \<in> {0, 1, 16, 17, 24, 25}"
  shows "bit (pll_off R RCC_CR) n = (n \<noteq> 24 \<and> bit (R RCC_CR) n)"
  using assms
  by (auto simp: pll_off_def Let_def bit_write_CR bit_simps RCC_CR_HSITRIM_def RCC_CR_PLLON_def simp del: write_regs.simps)

lemma pll_start_bits:
  assumes "n \<in> {0, 1, 16, 17, 24, 25}"
  shows "bit (pll_start R RCC_CR) n = (n = 24 \<or> bit (R RCC_CR) n)"
  using assms pll_off_bits [OF assms, of R]
  by (auto simp: pll_start_def Let_def bit_write_CR bit_simps RCC_CR_PLLON_def simp del: write_regs.simps)

lemma pll_off_other: "r \<noteq> RCC_CR \<Longrightarrow> pll_off R r = R r"
  by (simp add: pll_off_def Let_def)

lemma pll_start_other:
  "r \<noteq> RCC_CR \<Longrightarrow> pll_start R r = (if r = RCC_PLLCFGR then pll_word (PLL board_osc) else R r)"
  by (simp add: pll_start_def Let_def pll_off_other)

lemma reset_clocks_bits:
  assumes "reset_clocks R"
  shows "bit (R RCC_CR) 1" "\<not> bit (R RCC_CR) 17" "\<not> bit (R RCC_CR) 25" "bit (R RCC_CSR) 1 = bit (R RCC_CSR) 0"
    "bit (R RCC_BDCR) 1 = bit (R RCC_BDCR) 0"
  using assms settle_CR [of R 1] settle_CR [of R 17] settle_CR [of R 25] settle_low [of RCC_CSR R 1]
    settle_low [of RCC_BDCR R 1]
  by (simp_all add: reset_clocks_def)

lemma pll_off_settled:
  assumes "reset_clocks R"
  shows "settle_regs (pll_off R) = pll_off R"
  using assms reset_clocks_bits [OF assms]
  by (intro settledI) (simp_all add: pll_off_bits pll_off_other switch_status_alt reset_clocks_def)

lemma OscConfig_mcu:
  assumes "responsive 2 settle ms" "reset_clocks R" "mregs (periph s) = R"
  shows "\<exists>s'. HAL_RCC_OscConfig (mcu_env settle ms) (Some board_osc) s = Some (HAL_OK, s') \<and>
    later (settle_regs (pll_start R)) s s'"
proof -
  let ?e = "mcu_env settle ms" and ?T = PLL_TIMEOUT_VALUE
  have resp: "responsive (unat ?T) settle ms" using assms(1) by (simp add: PLL_TIMEOUT_VALUE_def)
  note bits = reset_clocks_bits [OF assms(2)]
  have 1: "osc_hse ?e board_osc s = Some (None, s)" "\<And>s. osc_lsi ?e board_osc s = Some (None, s)"
    "\<And>s. osc_lse ?e board_osc s = Some (None, s)"
    by (simp_all add: osc_hse_def osc_lsi_def osc_lse_def board_osc_def RCC_OSCILLATORTYPE_HSE_def
        RCC_OSCILLATORTYPE_HSI_def RCC_OSCILLATORTYPE_LSI_def RCC_OSCILLATORTYPE_LSE_def)
  let ?s1 = "HAL_RCC_HSI_CALIBRATIONVALUE_ADJUST ?e 0x10 s"
  have 2: "osc_hsi ?e board_osc s = Some (None, ?s1)"
    using assms(2,3) by (simp add: osc_hsi_def board_osc_def RCC_OSCILLATORTYPE_HSI_def reset_clocks_def
        HAL_RCC_GET_SYSCLK_SOURCE_def RCC_CFGR_SWS_HSI_def)
  let ?s2 = "HAL_RCC_PLL_DISABLE ?e ?s1"
  have off: "mregs (periph ?s2) = pll_off R"
    using assms(3) by (simp add: HAL_RCC_PLL_DISABLE_def HAL_RCC_HSI_CALIBRATIONVALUE_ADJUST_def pll_off_def Let_def
        del: write_regs.simps)
  obtain s3 where 3: "wait_while ?e (HAL_RCC_GET_FLAG ?e RCC_FLAG_PLLRDY) ?T ?s2 = Some (None, s3)"
      "later (settle_regs (pll_off R)) ?s2 s3"
    using wait_while_mcu [OF resp, where c = "\<lambda>R. bit (R RCC_CR) 25" and s = ?s2,
        OF flag_bits(3) [of settle ms] _ _ settle_idem off] bits pll_off_settled [OF assms(2)]
    by (auto simp: pll_off_bits)
  have r3: "mregs (periph s3) = pll_off R" using 3(2) pll_off_settled [OF assms(2)] by (simp add: later_def)
  let ?s4 = "HAL_RCC_PLL_ENABLE ?e (WRITE_REG ?e RCC_PLLCFGR (pll_word (PLL board_osc)) s3)"
  have on: "mregs (periph ?s4) = pll_start R"
    using r3 by (simp add: HAL_RCC_PLL_ENABLE_def pll_start_def Let_def)
  obtain s5 where 5: "wait_while ?e (\<lambda>s. \<not> HAL_RCC_GET_FLAG ?e RCC_FLAG_PLLRDY s) ?T ?s4 = Some (None, s5)"
      "later (settle_regs (pll_start R)) ?s4 s5"
    using wait_while_mcu [OF resp, where c = "\<lambda>R. \<not> bit (R RCC_CR) 25" and s = ?s4 and R = "pll_start R" and
        cond = "\<lambda>s. \<not> HAL_RCC_GET_FLAG ?e RCC_FLAG_PLLRDY s", OF _ _ _ settle_idem on] bits
    by (auto simp: pll_start_bits settle_CR flag_bits)
  have "osc_pll ?e board_osc ?s1 = Some (None, s5)"
    using assms(2,3) 3 5 by (simp add: osc_pll_def osc_pll_on_def HAL_RCC_GET_SYSCLK_SOURCE_def
        HAL_RCC_HSI_CALIBRATIONVALUE_ADJUST_def reset_clocks_def board_osc_def RCC_PLL_NONE_def RCC_PLL_ON_def
        RCC_CFGR_SWS_PLL_def)
  moreover have "later (settle_regs (pll_start R)) s s5"
    using 3(2) 5(2) by (auto simp: later_def with_regs_def HAL_RCC_PLL_ENABLE_def
        HAL_RCC_PLL_DISABLE_def HAL_RCC_HSI_CALIBRATIONVALUE_ADJUST_def)
  ultimately show ?thesis by (simp add: HAL_RCC_OscConfig_def 1 2)
qed

section \<open>The buses\<close>

text \<open>The PLL runs and is selected by nobody yet; no flash wait states.\<close>

definition pll_ready :: "(mreg \<Rightarrow> u32) \<Rightarrow> bool" where
  "pll_ready R \<longleftrightarrow> settle_regs R = R \<and> bit (R RCC_CR) 24 \<and> R RCC_CFGR = 0 \<and> R RCC_PLLCFGR = pll_word (PLL board_osc)
     \<and> R FLASH_ACR AND 7 = 0"

definition on_pll :: "u32 \<Rightarrow> (mreg \<Rightarrow> u32) \<Rightarrow> mreg \<Rightarrow> u32" where
  "on_pll cfgr R = R(FLASH_ACR := (R FLASH_ACR AND NOT 0xFF) OR 2, RCC_CFGR := cfgr)"

definition ticking :: "u32 \<Rightarrow> (mreg \<Rightarrow> u32) \<Rightarrow> mreg \<Rightarrow> u32" where
  "ticking n R = R(SysTick_LOAD := n - 1, SCB_SHP 11 := 0, SysTick_VAL := 0, SysTick_CTRL := 7)"

lemma encode_zero [simp]: "NVIC_EncodePriority g 0 0 = 0"
  by (simp add: NVIC_EncodePriority_def Let_def)

lemma InitTick_mcu:
  assumes "SystemCoreClock s div 1000 = n" "n - 1 \<le> 0xFFFFFF" "mregs (periph s) = R"
  shows "HAL_InitTick (mcu_env settle ms) 0 s = (HAL_OK, (with_regs (ticking n R) s)\<lparr>uwTickPrio := 0\<rparr>)"
  using assms
  by (simp add: HAL_InitTick_def HAL_SYSTICK_Config_def SysTick_Config_def uwTickFreq_def
        NVIC_SetPriority_def HAL_NVIC_SetPriority_def SysTick_IRQn_def NVIC_PRIO_BITS_def Let_def
        SysTick_LOAD_RELOAD_Msk_def ticking_def fun_upd_twist not_less)

lemma flash_latency:
  fixes v :: u32
  shows "((v AND NOT 0xFF) OR 2) AND 7 = 2"
proof -
  have "((v AND NOT (mask 8)) OR 2) AND mask 3 = 2"
    by (rule bit_eqI) (auto simp: bit_simps bit_two)
  then show ?thesis by (simp add: mask_eq_exp_minus_1)
qed

lemma on_pll_0: "R RCC_CFGR = 0 \<Longrightarrow> R(FLASH_ACR := (R FLASH_ACR AND NOT 0xFF) OR 2) = on_pll 0 R"
  by (simp add: on_pll_def fun_eq_iff)

lemma on_pll_latency: "on_pll c R FLASH_ACR AND 7 = 2"
  unfolding on_pll_def by (simp only: fun_upd_apply mreg.distinct if_False refl if_True flash_latency)

lemma board_pll_word: "pll_word (PLL board_osc) = 0x07001408"
  by (simp add: pll_word_def board_osc_def RCC_PLLCFGR_PLLSRC_HSI_def)

lemma settle_on_pll:
  assumes "pll_ready R"
  shows "settle_regs (on_pll 0xFC02 R) = on_pll 0xFC0A R"
proof
  fix r
  have same: "settle_regs R r = R r" for r using assms by (simp add: pll_ready_def)
  have "settle_regs (on_pll 0xFC02 R) r = R r" if "r \<in> {RCC_CR, RCC_CSR, RCC_BDCR}"
    using that same [of r] by (auto simp: settle_regs_def on_pll_def)
  moreover have "settle_regs (on_pll 0xFC02 R) RCC_CFGR = 0xFC0A"
    using assms by (simp add: settle_CFGR switch_status_alt on_pll_def pll_ready_def Let_def)
  ultimately show "settle_regs (on_pll 0xFC02 R) r = on_pll 0xFC0A R r"
    using settle_other [of r "on_pll 0xFC02 R"]
    by (cases "r \<in> {RCC_CR, RCC_CSR, RCC_BDCR}") (auto simp: on_pll_def)
qed

lemma ClockConfig_mcu:
  assumes "responsive 5000 settle ms" "pll_ready R" "mregs (periph s) = R" "uwTickPrio s = 0"
  shows "\<exists>s'. HAL_RCC_ClockConfig (mcu_env settle ms) (Some board_clk) 2 s = Some (HAL_OK, s') \<and>
    mregs (periph s') = ticking 80000 (on_pll 0x100A R) \<and> SystemCoreClock s' = 80000000 \<and> uwTickPrio s' = 0"
proof -
  let ?e = "mcu_env settle ms"
  let ?s1 = "with_regs (on_pll 0 R) s" and ?s2 = "with_regs (on_pll 0xFC00 R) s" and ?s3 = "with_regs (on_pll 0xFC02 R) s"
  have ready: "bit (R RCC_CR) 25" using assms(2) settle_CR [of R 25] by (simp add: pll_ready_def)
  have 1: "clk_latency ?e (>) 2 s = Some (None, ?s1)"
    using assms(2,3) on_pll_0 [of R] on_pll_latency [of 0 R]
    by (simp add: Let_def clk_latency_def HAL_FLASH_GET_LATENCY_def HAL_FLASH_SET_LATENCY_def
        FLASH_ACR_LATENCY_def pll_ready_def)
  have 2: "clk_hclk ?e board_clk ?s1 = ?s2"
    by (simp add: clk_hclk_def board_clk_def rcc_consts on_pll_def)
  have 3: "MODIFY_REG ?e RCC_CFGR RCC_CFGR_SW (SYSCLKSource board_clk) ?s2 = ?s3"
    by (simp add: board_clk_def rcc_consts on_pll_def)
  obtain s4 where 4: "wait_while ?e (\<lambda>s. HAL_RCC_GET_SYSCLK_SOURCE ?e s \<noteq> push_bit 2 (SYSCLKSource board_clk))
        CLOCKSWITCH_TIMEOUT_VALUE ?s3 = Some (None, s4)" "later (on_pll 0xFC0A R) ?s3 s4"
  proof -
    have "responsive (unat CLOCKSWITCH_TIMEOUT_VALUE) settle ms"
      using assms(1) by (simp add: CLOCKSWITCH_TIMEOUT_VALUE_def)
    from wait_while_mcu [OF this, where c = "\<lambda>R. R RCC_CFGR AND 0xC \<noteq> 8" and s = ?s3 and R = "on_pll 0xFC02 R" and
        cond = "\<lambda>s. HAL_RCC_GET_SYSCLK_SOURCE ?e s \<noteq> push_bit 2 (SYSCLKSource board_clk)", OF _ _ _ settle_idem]
    show thesis
      using that unfolding settle_on_pll [OF assms(2)]
      by (auto simp: HAL_RCC_GET_SYSCLK_SOURCE_def board_clk_def RCC_CFGR_SWS_def RCC_SYSCLKSOURCE_PLLCLK_def
          on_pll_def)
  qed
  let ?s5 = "with_regs (on_pll 0x100A R) s4"
  have 5: "clk_sysclk ?e board_clk (clk_hclk ?e board_clk ?s1) = Some (None, s4)"
    unfolding 2 clk_sysclk_def 3 Let_def 4(1)
    using ready by (simp add: clk_source_ready_def flag_bits board_clk_def on_pll_def RCC_CLOCKTYPE_SYSCLK_def
        RCC_CLOCKTYPE_HCLK_def RCC_CLOCKTYPE_PCLK1_def RCC_CLOCKTYPE_PCLK2_def RCC_SYSCLKSOURCE_PLLCLK_def
        RCC_SYSCLKSOURCE_HSE_def)
  have 6: "clk_latency ?e (<) 2 s4 = Some (None, s4)"
    using 4(2) on_pll_latency [of _ R]
    by (simp add: clk_latency_def HAL_FLASH_GET_LATENCY_def later_def FLASH_ACR_LATENCY_def)
  have 7: "clk_pclk ?e board_clk s4 = ?s5"
    using 4(2) by (simp add: clk_pclk_def board_clk_def rcc_consts later_def on_pll_def Let_def)
  have "HAL_RCC_GetSysClockFreq ?e ?s5 = 80000000"
    using assms(2) by (simp add: HAL_RCC_GetSysClockFreq_def rcc_consts on_pll_def pll_ready_def board_pll_word Let_def)
  then have 8: "clk_update ?e ?s5 =
      (with_regs (ticking 80000 (on_pll 0x100A R)) (?s5\<lparr>SystemCoreClock := 80000000\<rparr>))\<lparr>uwTickPrio := 0\<rparr>"
    using InitTick_mcu [of "?s5\<lparr>SystemCoreClock := 80000000\<rparr>" 80000 "on_pll 0x100A R" settle ms] 4(2) assms(4)
    by (simp add: clk_update_def AHBPrescTable_def rcc_consts on_pll_def later_def with_regs_def)
  show ?thesis
    using 1 5 6 7 8 by (simp add: HAL_RCC_ClockConfig_def)
qed

section \<open>Priorities\<close>

lemma aircr_key:
  fixes old :: u32
  assumes "k AND mask 16 = k" "g AND mask 3 = g"
  defines "v \<equiv> (old AND NOT (push_bit 16 (mask 16) OR push_bit 8 (mask 3))) OR push_bit 16 k OR push_bit 8 g"
  shows "drop_bit 16 v = k" "v AND push_bit 8 (mask 3) = push_bit 8 g"
proof -
  have k: "n < 16" if "bit k n" for n
    using arg_cong [OF assms(1), of "\<lambda>y. bit y n"] that by (auto simp: bit_simps)
  have g: "n < 3" if "bit g n" for n
    using arg_cong [OF assms(2), of "\<lambda>y. bit y n"] that by (auto simp: bit_simps)
  show "drop_bit 16 v = k" "v AND push_bit 8 (mask 3) = push_bit 8 g"
    by (auto intro!: bit_eqI simp: v_def bit_simps) (auto dest: k g)
qed

lemma grouping_mcu:
  assumes "g \<in> {3, 7}"
  shows "NVIC_SetPriorityGrouping (mcu_env settle ms) g s =
    with_regs ((mregs (periph s))(SCB_AIRCR := (mregs (periph s) SCB_AIRCR AND NOT 0x700) OR push_bit 8 g)) s"
  using assms aircr_key [of "0x5FA" g "mregs (periph s) SCB_AIRCR"]
  by (auto simp: NVIC_SetPriorityGrouping_def SCB_AIRCR_VECTKEY_Msk_def SCB_AIRCR_PRIGROUP_Msk_def Let_def
      mask_eq_exp_minus_1)

text \<open>The registers after \<open>HAL_Init\<close>.\<close>

definition hal_inited :: "(mreg \<Rightarrow> u32) \<Rightarrow> mreg \<Rightarrow> u32" where
  "hal_inited R = (ticking 16000 R)(FLASH_ACR := R FLASH_ACR OR 0x700,
     SCB_AIRCR := (R SCB_AIRCR AND NOT 0x700) OR 0x700,
     RCC_APB2ENR := R RCC_APB2ENR OR RCC_APB2ENR_SYSCFGEN, RCC_APB1ENR := R RCC_APB1ENR OR RCC_APB1ENR_PWREN)"

lemma HAL_Init_mcu:
  assumes "SystemCoreClock s = 16000000" "mregs (periph s) = R"
  shows "HAL_Init (mcu_env settle ms) s = (with_regs (hal_inited R) s)\<lparr>uwTickPrio := 0\<rparr>"
proof -
  let ?R = "R(FLASH_ACR := R FLASH_ACR OR 0x700, SCB_AIRCR := (R SCB_AIRCR AND NOT 0x700) OR 0x300)"
  have tick: "HAL_InitTick (mcu_env settle ms) 0 (with_regs ?R s) =
      (HAL_OK, (with_regs (ticking 16000 ?R) s)\<lparr>uwTickPrio := 0\<rparr>)"
    using InitTick_mcu [of "with_regs ?R s" 16000 ?R settle ms] assms(1) by simp
  have low: "(((v AND NOT 0x700) OR 0x300) AND NOT 0x700) OR 0x700 = (v AND NOT 0x700) OR (0x700 :: u32)" for v
    by (simp add: bit.conj_disj_distrib2 and.assoc)
  have "HAL_Init (mcu_env settle ms) s = HAL_MspInit (mcu_env settle ms) (snd (HAL_InitTick (mcu_env settle ms) 0
      (with_regs ?R s)))"
    using assms(2) by (simp add: HAL_Init_def HAL_NVIC_SetPriorityGrouping_def grouping_mcu TICK_INT_PRIORITY_def
        NVIC_PRIORITYGROUP_4_def Let_def or.assoc)
  then show ?thesis
    unfolding tick using low [simplified]
    by (cases s) (simp add: HAL_MspInit_def HAL_NVIC_SetPriorityGrouping_def grouping_mcu NVIC_PRIORITYGROUP_0_def
        SYSCFG_CLK_ENABLE_def HAL_RCC_PWR_CLK_ENABLE_def Let_def hal_inited_def ticking_def fun_upd_twist
        with_regs_def)
qed

section \<open>The clocks\<close>

lemma responsive_mono: "responsive T settle ms \<Longrightarrow> T \<le> T' \<Longrightarrow> responsive T' settle ms"
  unfolding responsive_def by (meson order_trans)

definition powered :: "(mreg \<Rightarrow> u32) \<Rightarrow> mreg \<Rightarrow> u32" where
  "powered R = (hal_inited R)(RCC_APB1ENR := hal_inited R RCC_APB1ENR OR RCC_APB1ENR_PWREN,
     PWR_CR := (hal_inited R PWR_CR AND NOT (push_bit 14 3)) OR push_bit 14 2)"

definition clocked :: "(mreg \<Rightarrow> u32) \<Rightarrow> mreg \<Rightarrow> u32" where
  "clocked R = ticking 80000 (on_pll 0x100A (settle_regs (pll_start (powered R))))"

lemma powered_other:
  "r \<in> {RCC_CR, RCC_CFGR, RCC_CSR, RCC_BDCR} \<Longrightarrow> powered R r = R r"
  by (auto simp: powered_def hal_inited_def ticking_def)

lemma powered_reset:
  assumes "reset_clocks R"
  shows "reset_clocks (powered R)"
proof -
  have "settle_regs (powered R) = powered R"
    using assms reset_clocks_bits [OF assms]
    by (intro settledI) (simp_all add: powered_other switch_status_alt reset_clocks_def)
  then show ?thesis using assms by (simp add: reset_clocks_def powered_other)
qed

lemma pll_start_ready:
  assumes "reset_clocks R" "R FLASH_ACR = 0"
  shows "pll_ready (settle_regs (pll_start (powered R)))"
  using assms
  by (simp add: pll_ready_def settle_idem settle_CR settle_CFGR settle_other switch_status_alt pll_start_bits
      pll_start_other powered_other reset_clocks_def Let_def)
    (simp add: powered_def hal_inited_def ticking_def)

lemma clocks_mcu:
  assumes "responsive 2 settle ms" "reset_clocks R" "R FLASH_ACR = 0"
    and s: "mregs (periph s) = R" "SystemCoreClock s = 16000000"
  shows "\<exists>s'. SystemClock_Config (mcu_env settle ms) (HAL_Init (mcu_env settle ms) s) = Some s' \<and>
    mregs (periph s') = clocked R \<and> SystemCoreClock s' = 80000000 \<and> uwTickPrio s' = 0"
proof -
  let ?e = "mcu_env settle ms"
  let ?s1 = "(with_regs (powered R) s)\<lparr>uwTickPrio := 0\<rparr>"
  have start: "MODIFY_REG ?e PWR_CR (push_bit 14 3) (push_bit 14 2) (HAL_RCC_PWR_CLK_ENABLE ?e (HAL_Init ?e s)) = ?s1"
    using HAL_Init_mcu [OF s(2,1), of settle ms]
    by (cases s) (simp add: HAL_RCC_PWR_CLK_ENABLE_def powered_def with_regs_def)
  obtain s2 where 2: "HAL_RCC_OscConfig ?e (Some board_osc) ?s1 = Some (HAL_OK, s2)"
      "later (settle_regs (pll_start (powered R))) ?s1 s2"
    using OscConfig_mcu [OF assms(1) powered_reset [OF assms(2)], of ?s1] by auto
  obtain s3 where 3: "HAL_RCC_ClockConfig ?e (Some board_clk) 2 s2 = Some (HAL_OK, s3)"
      "mregs (periph s3) = clocked R" "SystemCoreClock s3 = 80000000" "uwTickPrio s3 = 0"
    using ClockConfig_mcu [OF responsive_mono [OF assms(1)] pll_start_ready [OF assms(2,3)], of s2] 2(2)
    by (auto simp: later_def clocked_def)
  show ?thesis
    unfolding SystemClock_Config_def bind.simps start using 2(1) 3 by simp
qed

section \<open>The pins\<close>

text \<open>Which registers the views of \<open>Hal_Gpio\<close> show.\<close>

definition pin_reg :: "mreg \<Rightarrow> bool" where
  "pin_reg r \<longleftrightarrow> gpio_reg r \<and> r \<noteq> RCC_APB2ENR"

lemma view_other [simp]:
  assumes "\<not> pin_reg r"
  shows "pin_view (mcu_env settle ms) X p (with_regs (F(r := v)) s) = pin_view (mcu_env settle ms) X p (with_regs F s)"
    and "line_view (mcu_env settle ms) p (with_regs (F(r := v)) s) = line_view (mcu_env settle ms) p (with_regs F s)"
  using assms by (auto simp: pin_view_def line_view_def pin_reg_def)

lemma with_own_regs [simp]: "with_regs (mregs (periph s)) s = s"
  by (simp add: with_regs_def)

lemma gpio_view [simp]:
  assumes "p < 16"
  shows "valid_init g \<Longrightarrow> pin_view (mcu_env settle ms) Y p (HAL_GPIO_Init (mcu_env settle ms) X g s) =
      (if bit (Pin g) p \<and> Y = X then pin_config g (pin_view (mcu_env settle ms) Y p s)
       else pin_view (mcu_env settle ms) Y p s)"
    and "line_view (mcu_env settle ms) p (HAL_GPIO_Init (mcu_env settle ms) X g s) =
      (if bit (Pin g) p then line_config X g (line_view (mcu_env settle ms) p s)
       else line_view (mcu_env settle ms) p s)"
  using mcu.HAL_GPIO_Init_view(1) [OF gpio_stored, of g p settle ms Y X s]
    mcu.HAL_GPIO_Init_view(2) [OF gpio_stored, of p settle ms X g s] assms by simp_all

lemma gpio_other [simp]:
  assumes "\<not> gpio_reg r"
  shows "mregs (periph (HAL_GPIO_Init (mcu_env settle ms) X g s)) r = mregs (periph s) r"
  using mcu.HAL_GPIO_Init_view(3) [OF gpio_stored assms, of settle ms X g s] by simp

lemma gpio_statics [simp]:
  "SystemCoreClock (HAL_GPIO_Init (mcu_env settle ms) X g s) = SystemCoreClock s"
  "uwTickPrio (HAL_GPIO_Init (mcu_env settle ms) X g s) = uwTickPrio s"
proof -
  let ?e = "mcu_env settle ms"
  have "SystemCoreClock (gpio_init_pin ?e X g q t) = SystemCoreClock t \<and> uwTickPrio (gpio_init_pin ?e X g q t) = uwTickPrio t"
    for q t
    by (simp add: gpio_init_pin_def gpio_init_output_def gpio_init_pull_def gpio_init_alternate_def
        gpio_init_direction_def gpio_init_exti_def exti_line_def SYSCFG_CLK_ENABLE_def Let_def)
  then have "SystemCoreClock (fold (gpio_init_pin ?e X g) qs t) = SystemCoreClock t \<and>
      uwTickPrio (fold (gpio_init_pin ?e X g) qs t) = uwTickPrio t" for qs t
    by (induction qs arbitrary: t) simp_all
  then show "SystemCoreClock (HAL_GPIO_Init ?e X g s) = SystemCoreClock s"
    "uwTickPrio (HAL_GPIO_Init ?e X g s) = uwTickPrio s"
    by (simp_all add: HAL_GPIO_Init_def)
qed

section \<open>The whole start-up\<close>

text \<open>The part after the clocks.  It cannot fail.\<close>

definition board_tail :: "mcu hal_env \<Rightarrow> mcu hal_state \<Rightarrow> mcu hal_state" where
  "board_tail e s = HAL_UART_MspInit e (HAL_SPI_MspInit e (MX_GPIO_Init e s))"

definition htim2_run :: TIM_HandleTypeDef where
  "htim2_run = htim2_0\<lparr>TimState := HAL_TIM_STATE_BUSY\<rparr>"

text \<open>TIM2 and its interrupt.\<close>

definition tim2_regs :: "(mreg \<Rightarrow> u32) \<Rightarrow> bool" where
  "tim2_regs R \<longleftrightarrow> R (TIM_PSC TIM2) = 9999 \<and> R (TIM_ARR TIM2) = 3999 \<and> R (TIM_DIER TIM2) = 1 \<and> R (TIM_CR1 TIM2) = 1
     \<and> R (TIM_SR TIM2) = 0 \<and> R (NVIC_IP 28) = 0 \<and> bit (R (NVIC_ISER 0)) 28"

fun tim2_reg :: "mreg \<Rightarrow> bool" where
  "tim2_reg (TIM_PSC t) = (t = TIM2)"
| "tim2_reg (TIM_ARR t) = (t = TIM2)"
| "tim2_reg (TIM_DIER t) = (t = TIM2)"
| "tim2_reg (TIM_CR1 t) = (t = TIM2)"
| "tim2_reg (TIM_CR2 t) = (t = TIM2)"
| "tim2_reg (TIM_SMCR t) = (t = TIM2)"
| "tim2_reg (TIM_SR t) = (t = TIM2)"
| "tim2_reg (NVIC_IP i) = (i = 28)"
| "tim2_reg (NVIC_ISER i) = (i = 0)"
| "tim2_reg RCC_APB1ENR = True"
| "tim2_reg _ = False"

lemma tim2_mcu:
  fixes settle ms
  assumes "mregs (periph s) (TIM_CR1 TIM2) = 0" "mregs (periph s) (TIM_SMCR TIM2) = 0"
    "mregs (periph s) (TIM_DIER TIM2) = 0" "mregs (periph s) (TIM_SR TIM2) = 0"
  defines "e \<equiv> mcu_env settle ms"
  shows "\<exists>s'. do { (htim2, s) \<leftarrow> MX_TIM2_Init e htim2_0 s; Some (snd (HAL_TIM_Base_Start_IT e htim2 s)) } =
      Some (htim2_run, s') \<and> tim2_regs (mregs (periph s')) \<and>
      (\<forall>r. \<not> tim2_reg r \<longrightarrow> mregs (periph s') r = mregs (periph s) r) \<and>
      mregs (periph s') (NVIC_ISER 0) = mregs (periph s) (NVIC_ISER 0) OR push_bit 28 1 \<and>
      SystemCoreClock s' = SystemCoreClock s"
proof -
  have keep: "(\<forall>r. \<not> tim2_reg r \<longrightarrow> (F(q := v)) r = G r) \<longleftrightarrow> (\<forall>r. \<not> tim2_reg r \<longrightarrow> F r = G r)" if "tim2_reg q"
    for F G :: "mreg \<Rightarrow> u32" and q v
    using that by auto
  note defs = MX_TIM2_Init_def HAL_TIM_Base_Init_def TIM_Base_SetConfig_def HAL_TIM_ConfigClockSource_def
    HAL_TIMEx_MasterConfigSynchronization_def HAL_TIM_Base_Start_IT_def HAL_TIM_Base_MspInit_def
    HAL_NVIC_SetPriority_def NVIC_SetPriority_def HAL_NVIC_EnableIRQ_def NVIC_EnableIRQ_def TIM2_IRQn_def
    IS_TIM_COUNTER_MODE_SELECT_INSTANCE_def IS_TIM_CLOCK_DIVISION_INSTANCE_def
    IS_TIM_REPETITION_COUNTER_INSTANCE_def IS_TIM_SLAVE_INSTANCE_def tim2_Init_def htim2_0_def htim2_run_def
  show ?thesis
    using assms(1-4) unfolding e_def
    by (simp add: defs tim_consts Let_def tim2_regs_def keep bit_simps)
qed

text \<open>The state of the chip and of the static variables when \<open>main\<close> begins.\<close>

definition reset_state :: "mcu hal_state \<Rightarrow> bool" where
  "reset_state s \<longleftrightarrow>
     (let R = mregs (periph s)
      in reset_clocks R \<and> R FLASH_ACR = 0 \<and> R (TIM_CR1 TIM2) = 0 \<and> R (TIM_SMCR TIM2) = 0 \<and> R (TIM_DIER TIM2) = 0
         \<and> R (TIM_SR TIM2) = 0 \<and> R EXTI_PR = 0 \<and> SystemCoreClock s = 16000000)"

lemma pins_valid [simp]:
  "valid_init \<lparr>Pin = a, PinMode = m, Pull = GPIO_NOPULL, Speed = GPIO_SPEED_FREQ_VERY_HIGH, Alternate = 5\<rparr>"
  "valid_init \<lparr>Pin = a, PinMode = m, Pull = GPIO_NOPULL, Speed = GPIO_SPEED_FREQ_VERY_HIGH, Alternate = 0\<rparr>"
  "valid_init \<lparr>Pin = a, PinMode = m, Pull = GPIO_NOPULL, Speed = GPIO_SPEED_FREQ_LOW, Alternate = 7\<rparr>"
  "valid_init \<lparr>Pin = a, PinMode = m, Pull = GPIO_NOPULL, Speed = 0, Alternate = 0\<rparr>"
  by (simp_all add: valid_init_def gpio_consts)

lemmas tail_defs = board_tail_def MX_GPIO_Init_def HAL_UART_MspInit_def HAL_SPI_MspInit_def HAL_GPIO_WritePin_def
  HAL_NVIC_SetPriority_def NVIC_SetPriority_def HAL_NVIC_EnableIRQ_def NVIC_EnableIRQ_def board_consts Let_def

text \<open>The registers outside the pins after the tail.\<close>

lemma tail_regs:
  fixes settle ms s
  defines "R \<equiv> mregs (periph s)" and "R' \<equiv> mregs (periph (board_tail (mcu_env settle ms) s))"
  shows "SystemCoreClock (board_tail (mcu_env settle ms) s) = SystemCoreClock s"
    and "bit (R' (NVIC_ISER 0)) 23" "bit (R' (NVIC_ISER 1)) 8" "R' (NVIC_IP 23) = 0" "R' (NVIC_IP 40) = 0"
    and "bit (R' (ODR GPIOB)) 6" "\<not> bit (R' (ODR GPIOA)) 10"
    and "r \<notin> {RCC_APB2ENR, RCC_AHB1ENR, RCC_APB1ENR, NVIC_ISER 0, NVIC_ISER 1, NVIC_IP 23, NVIC_IP 40,
      ODR GPIOA, ODR GPIOB} \<Longrightarrow> \<not> gpio_reg r \<Longrightarrow> R' r = R r"
  unfolding R_def R'_def by (simp_all add: tail_defs bit_simps)

lemma pin_reg_simps [simp]:
  "\<not> pin_reg (NVIC_ISER i)" "\<not> pin_reg (NVIC_IP i)" "\<not> pin_reg (ODR X)" "\<not> pin_reg RCC_AHB1ENR"
  "\<not> pin_reg RCC_APB1ENR" "\<not> pin_reg RCC_APB2ENR"
  by (simp_all add: pin_reg_def)

lemma tail_views:
  fixes settle ms
  defines "e \<equiv> mcu_env settle ms"
  shows "p \<in> {5, 6, 7} \<Longrightarrow> pin_view e GPIOA p (board_tail e s) =
      \<lparr>pin_mode = 2, pin_open_drain = False, pin_speed = 3, pin_pull = 0, pin_af = 5\<rparr>"
    and "p \<in> {2, 3} \<Longrightarrow> pin_view e GPIOA p (board_tail e s) =
      \<lparr>pin_mode = 2, pin_open_drain = False, pin_speed = 0, pin_pull = 0, pin_af = 7\<rparr>"
    and "pin_view e GPIOB 6 (board_tail e s) =
      \<lparr>pin_mode = 1, pin_open_drain = False, pin_speed = 3, pin_pull = 0, pin_af = pin_af (pin_view e GPIOB 6 s)\<rparr>"
    and "p \<in> {7, 13} \<Longrightarrow> line_view e p (board_tail e s) =
      \<lparr>line_port = 2, line_rising = False, line_falling = True, line_event = False, line_irq = True\<rparr>"
    and "p \<in> {7, 13} \<Longrightarrow> pin_mode (pin_view e GPIOC p (board_tail e s)) = 0"
  unfolding e_def
  by (auto simp: tail_defs pin_config_def line_config_def drives_pin_def gpio_consts bit_simps valid_init_def)

lemma clocked_other:
  "r \<notin> {SysTick_LOAD, SCB_SHP 11, SysTick_VAL, SysTick_CTRL, FLASH_ACR, RCC_CFGR, RCC_CR, RCC_CSR, RCC_BDCR,
      RCC_PLLCFGR, RCC_APB1ENR, RCC_APB2ENR, PWR_CR, SCB_AIRCR} \<Longrightarrow> clocked R r = R r"
  by (simp add: clocked_def ticking_def on_pll_def settle_other pll_start_other powered_def hal_inited_def)

lemma clocked_regs:
  "clocked R RCC_CFGR = 0x100A" "clocked R RCC_PLLCFGR = 0x07001408" "clocked R SysTick_LOAD = 79999"
  "clocked R SysTick_CTRL = 7" "clocked R (SCB_SHP 11) = 0"
  "clocked R SCB_AIRCR = (R SCB_AIRCR AND NOT 0x700) OR 0x700"
  by (simp_all add: clocked_def ticking_def on_pll_def settle_other pll_start_other powered_def hal_inited_def
      board_pll_word)

text \<open>
  The start-up ends, and its last state in three parts: what TIM2's functions left, over what the pin
  functions left, over the clocks.
\<close>

lemma board_init_mcu:
  fixes settle ms
  assumes "responsive 2 settle ms" "reset_state s"
  defines "e \<equiv> mcu_env settle ms"
  shows "\<exists>s0 s'. board_init e htim2_0 s = Some (htim2_run, s') \<and> mregs (periph s0) = clocked (mregs (periph s)) \<and>
    SystemCoreClock s' = 80000000 \<and> tim2_regs (mregs (periph s')) \<and>
    (\<forall>r. \<not> tim2_reg r \<longrightarrow> mregs (periph s') r = mregs (periph (board_tail e s0)) r) \<and>
    bit (mregs (periph s') (NVIC_ISER 0)) 23"
proof -
  have R: "reset_clocks (mregs (periph s))" "mregs (periph s) FLASH_ACR = 0" "SystemCoreClock s = 16000000"
    using assms(2) by (simp_all add: reset_state_def Let_def)
  obtain s0 where 0: "SystemClock_Config e (HAL_Init e s) = Some s0" "mregs (periph s0) = clocked (mregs (periph s))"
      "SystemCoreClock s0 = 80000000"
    using clocks_mcu [OF assms(1) R(1,2) refl R(3)] by (auto simp: e_def)
  have keep: "mregs (periph (board_tail e s0)) r = mregs (periph s) r"
    if "r \<in> {TIM_CR1 TIM2, TIM_SMCR TIM2, TIM_DIER TIM2, TIM_SR TIM2}" for r
    using that tail_regs(8) [of r settle ms s0] 0(2) clocked_other [of r] by (auto simp: e_def)
  obtain s' where 1: "do { (htim2, s) \<leftarrow> MX_TIM2_Init e htim2_0 (board_tail e s0); Some (snd (HAL_TIM_Base_Start_IT e htim2 s)) }
      = Some (htim2_run, s')" "tim2_regs (mregs (periph s'))"
      "\<forall>r. \<not> tim2_reg r \<longrightarrow> mregs (periph s') r = mregs (periph (board_tail e s0)) r"
      "mregs (periph s') (NVIC_ISER 0) = mregs (periph (board_tail e s0)) (NVIC_ISER 0) OR push_bit 28 1"
      "SystemCoreClock s' = SystemCoreClock (board_tail e s0)"
    using tim2_mcu [of "board_tail e s0" settle ms] keep assms(2) unfolding e_def reset_state_def Let_def
    by auto
  have "board_init e htim2_0 s = Some (htim2_run, s')"
    using 0(1) 1(1) by (simp add: board_init_def board_tail_def)
  moreover have "bit (mregs (periph s') (NVIC_ISER 0)) 23"
    using 1(4) tail_regs(2) [of settle ms s0] by (simp add: e_def bit_simps)
  ultimately show ?thesis
    using 0 1 tail_regs(1) [of settle ms s0] by (auto simp: e_def)
qed

section \<open>Properties\<close>

text \<open>
  The timers on APB1 run at the bus clock, doubled when the bus is divided; an update comes every
  \<open>(PSC + 1) * (ARR + 1)\<close> of their periods, SysTick one every \<open>LOAD + 1\<close> core periods.
\<close>

definition apb1_timer_clock :: "'h hal_env \<Rightarrow> 'h hal_state \<Rightarrow> u32" where
  "apb1_timer_clock e s =
     (if READ_REG e RCC_CFGR s AND 0x1000 = 0 then HAL_RCC_GetPCLK1Freq e s else 2 * HAL_RCC_GetPCLK1Freq e s)"

definition tim2_period_ms :: "'h hal_env \<Rightarrow> 'h hal_state \<Rightarrow> nat" where
  "tim2_period_ms e s =
     (unat (READ_REG e (TIM_PSC TIM2) s) + 1) * (unat (READ_REG e (TIM_ARR TIM2) s) + 1) * 1000
       div unat (apb1_timer_clock e s)"

definition systick_per_s :: "'h hal_env \<Rightarrow> 'h hal_state \<Rightarrow> nat" where
  "systick_per_s e s = unat (SystemCoreClock s) div (unat (READ_REG e SysTick_LOAD s) + 1)"

text \<open>
  C19: from reset, for every latency of the oscillators within the timeouts of the library, the
  start-up of the board ends with the core at 80 MHz, APB1 at 40 MHz and APB2 at 80 MHz; SysTick, which
  \<open>HAL_GetTick\<close> and \<open>HAL_Delay\<close> count in milliseconds, interrupts 1000 times a second, and TIM2, whose
  interrupt the timers of the main loop count in half seconds, every 500 ms; both are running.
\<close>

theorem board_clocks:
  fixes settle ms
  assumes "responsive 2 settle ms" "reset_state s"
  defines "e \<equiv> mcu_env settle ms"
  shows "\<exists>htim2 s'. board_init e htim2_0 s = Some (htim2, s') \<and>
    HAL_RCC_GetSysClockFreq e s' = 80000000 \<and> SystemCoreClock s' = 80000000 \<and>
    HAL_RCC_GetPCLK1Freq e s' = 40000000 \<and> HAL_RCC_GetPCLK2Freq e s' = 80000000 \<and>
    systick_per_s e s' = 1000 \<and> READ_REG e SysTick_CTRL s' = 7 \<and>
    tim2_period_ms e s' = 500 \<and> bit (READ_REG e (TIM_CR1 TIM2) s') 0 \<and> READ_REG e (TIM_DIER TIM2) s' = TIM_IT_UPDATE"
proof -
  obtain s0 s' where i: "board_init e htim2_0 s = Some (htim2_run, s')"
      "mregs (periph s0) = clocked (mregs (periph s))" "SystemCoreClock s' = 80000000" "tim2_regs (mregs (periph s'))"
      "\<forall>r. \<not> tim2_reg r \<longrightarrow> mregs (periph s') r = mregs (periph (board_tail e s0)) r"
    using board_init_mcu [OF assms(1,2)] unfolding e_def by blast
  have "mregs (periph s') r = clocked (mregs (periph s)) r"
    if "r \<in> {RCC_CFGR, RCC_PLLCFGR, SysTick_LOAD, SysTick_CTRL}" for r
    using that i(2,5) tail_regs(8) [of r settle ms s0] by (auto simp: e_def)
  then have r: "mregs (periph s') RCC_CFGR = 0x100A" "mregs (periph s') RCC_PLLCFGR = 0x07001408"
      "mregs (periph s') SysTick_LOAD = 79999" "mregs (periph s') SysTick_CTRL = 7"
    by (simp_all add: clocked_regs)
  then have "HAL_RCC_GetSysClockFreq e s' = 80000000" "HAL_RCC_GetPCLK1Freq e s' = 40000000"
      "HAL_RCC_GetPCLK2Freq e s' = 80000000"
    using i(3) by (simp_all add: e_def HAL_RCC_GetSysClockFreq_def HAL_RCC_GetPCLK1Freq_def HAL_RCC_GetPCLK2Freq_def
        HAL_RCC_GetHCLKFreq_def APBPrescTable_def rcc_consts Let_def)
  with i r show ?thesis
    by (simp add: e_def tim2_regs_def tim2_period_ms_def apb1_timer_clock_def systick_per_s_def TIM_IT_UPDATE_def)
qed

text \<open>A chip after reset and hardware that settles at every second look, a millisecond apart.\<close>

definition chip_reset :: "mcu hal_state" where
  "chip_reset = \<lparr>periph = \<lparr>mregs = (\<lambda>_. 0)(RCC_CR := 0x83, RCC_PLLCFGR := 0x24003010), uwTick = 0, polls = 0\<rparr>,
     SystemCoreClock = 16000000, uwTickPrio = 16\<rparr>"

lemma chip_reset_state: "reset_state chip_reset"
proof -
  let ?R = "(\<lambda>_. 0)(RCC_CR := 0x83, RCC_PLLCFGR := 0x24003010) :: mreg \<Rightarrow> u32"
  have "settle_regs ?R = ?R"
    by (intro settledI) (simp_all add: switch_status_alt)
  then show ?thesis by (simp add: reset_state_def chip_reset_def reset_clocks_def)
qed

lemma slow_responsive: "responsive 2 odd (\<lambda>_. 1)"
  unfolding responsive_def
proof
  fix n :: nat
  show "\<exists>j. odd (n + j) \<and> (\<Sum>i\<in>{n<..n + j}. unat (1 :: u32)) \<le> 2"
    by (rule exI [of _ "if odd n then 0 else 1"]) simp
qed

lemma board_clocks_witness:
  "responsive 2 odd (\<lambda>_. 1) \<and> reset_state chip_reset \<and>
   (\<exists>htim2 s'. board_init (mcu_env odd (\<lambda>_. 1)) htim2_0 chip_reset = Some (htim2, s') \<and>
      tim2_period_ms (mcu_env odd (\<lambda>_. 1)) s' = 500)"
  using board_clocks [OF slow_responsive chip_reset_state] slow_responsive chip_reset_state by blast

text \<open>
  After the start-up the pins are wired as the board needs them: PA5 to PA7 are the clock and
  data lines of SPI1 and PA2 and PA3 the lines of USART2, the chip select of the controller (PB6) is a
  push-pull output at high level, so that the controller is not selected, and its interrupt line (PC7)
  and the button (PC13) are inputs whose falling edges, and nothing else, raise their EXTI lines.
\<close>

theorem board_pins:
  fixes settle ms
  assumes "responsive 2 settle ms" "reset_state s"
  defines "e \<equiv> mcu_env settle ms"
  shows "\<exists>htim2 s'. board_init e htim2_0 s = Some (htim2, s') \<and>
    (\<forall>p\<in>{5, 6, 7}. pin_view e GPIOA p s' =
      \<lparr>pin_mode = 2, pin_open_drain = False, pin_speed = 3, pin_pull = 0, pin_af = 5\<rparr>) \<and>
    (\<forall>p\<in>{2, 3}. pin_view e GPIOA p s' =
      \<lparr>pin_mode = 2, pin_open_drain = False, pin_speed = 0, pin_pull = 0, pin_af = 7\<rparr>) \<and>
    pin_mode (pin_view e GPIOB 6 s') = 1 \<and> \<not> pin_open_drain (pin_view e GPIOB 6 s') \<and>
    bit (READ_REG e (ODR GPIOB) s') 6 \<and>
    (\<forall>p\<in>{7, 13}. pin_mode (pin_view e GPIOC p s') = 0 \<and> line_view e p s' =
      \<lparr>line_port = GPIO_GET_INDEX GPIOC, line_rising = False, line_falling = True, line_event = False,
        line_irq = True\<rparr>)"
proof -
  obtain s0 s' where i: "board_init e htim2_0 s = Some (htim2_run, s')"
      "\<forall>r. \<not> tim2_reg r \<longrightarrow> mregs (periph s') r = mregs (periph (board_tail e s0)) r"
    using board_init_mcu [OF assms(1,2)] unfolding e_def by blast
  have v: "pin_view e X p s' = pin_view e X p (board_tail e s0)" "line_view e p s' = line_view e p (board_tail e s0)"
    for X p
    using i(2) by (simp_all add: pin_view_def line_view_def e_def)
  have "bit (mregs (periph s') (ODR GPIOB)) 6" using i(2) tail_regs(6) [of settle ms s0] by (simp add: e_def)
  then show ?thesis
    using i(1) tail_views(1,2,4,5) [of _ settle ms s0] tail_views(3) [of settle ms s0]
    by (simp add: v) (simp add: e_def)
qed

lemma board_pins_witness:
  "\<exists>htim2 s'. board_init (mcu_env odd (\<lambda>_. 1)) htim2_0 chip_reset = Some (htim2, s') \<and>
     bit (READ_REG (mcu_env odd (\<lambda>_. 1)) (ODR GPIOB) s') 6"
  using board_pins [OF slow_responsive chip_reset_state] by blast

text \<open>
  Interrupts.  An edge of a pin sets the pending bit of its EXTI line when that line watches the pin's
  port and the edge; an update of TIM2 sets its flag.  \<open>irq_request n\<close> is a request of interrupt \<open>n\<close>
  that the NVIC accepts; a request of priority \<open>q\<close> preempts a handler of priority \<open>p\<close> when its group
  priority, the bits of the priority above the split of AIRCR, is lower.
\<close>

definition falling_edge :: "gpio_port \<Rightarrow> nat \<Rightarrow> mcu hal_state \<Rightarrow> mcu hal_state" where
  "falling_edge X p s =
     (let R = mregs (periph s)
      in if bit (R EXTI_FTSR) p \<and> fld 4 (p mod 4) (R (SYSCFG_EXTICR (p div 4))) = GPIO_GET_INDEX X
         then with_regs (R(EXTI_PR := R EXTI_PR OR push_bit p 1)) s else s)"

definition tim2_update :: "mcu hal_state \<Rightarrow> mcu hal_state" where
  "tim2_update s = (let R = mregs (periph s) in with_regs (R(TIM_SR TIM2 := R (TIM_SR TIM2) OR 1)) s)"

definition irq_request :: "IRQn_Type \<Rightarrow> mcu hal_state \<Rightarrow> bool" where
  "irq_request n s \<longleftrightarrow>
     (let R = mregs (periph s); lines = (\<lambda>ps. \<exists>p\<in>ps. bit (R EXTI_PR) p \<and> bit (R EXTI_IMR) p)
      in bit (R (NVIC_ISER (nat n div 32))) (nat n mod 32) \<and>
         (n = EXTI9_5_IRQn \<and> lines {5..9} \<or> n = EXTI15_10_IRQn \<and> lines {10..15} \<or>
          n = TIM2_IRQn \<and> R (TIM_DIER TIM2) AND R (TIM_SR TIM2) \<noteq> 0))"

definition preempts :: "mcu hal_state \<Rightarrow> u32 \<Rightarrow> u32 \<Rightarrow> bool" where
  "preempts s q p \<longleftrightarrow>
     (let split = unat (drop_bit 8 (mregs (periph s) SCB_AIRCR AND 0x700)) + 1
      in drop_bit split (q AND 0xFF) < drop_bit split (p AND 0xFF))"

lemma with_pending:
  assumes "mregs (periph s) r = 0"
  shows "with_regs ((mregs (periph s))(r := 0)) s = s"
  using assms by (simp add: fun_upd_idem)

text \<open>
  C20: after the start-up no interrupt is requested and no handler can preempt another.  A
  falling edge of the controller's line PC7 requests EXTI9_5, and only it; its handler clears the
  request and counts the edge in \<open>enc28j60intCounter\<close>, once.  Edges of pin 7 of another port do
  nothing.  An edge of the button requests EXTI15_10, whose handler clears it and changes nothing in the
  application.  An update of TIM2 requests its interrupt, whose handler clears it and runs the period callback once.
\<close>

theorem irqs_served:
  fixes settle ms and a :: "('w, 'h, 'm, 'n) app"
  assumes "responsive 2 settle ms" "reset_state s"
  defines "e \<equiv> mcu_env settle ms"
  shows "\<exists>htim2 s'. board_init e htim2_0 s = Some (htim2, s') \<and>
    (\<forall>n. \<not> irq_request n s') \<and> (\<forall>q p. \<not> preempts s' q p) \<and>
    (let t = falling_edge GPIOC 7 s'
     in (\<forall>n. irq_request n t \<longleftrightarrow> n = EXTI9_5_IRQn) \<and>
        EXTI9_5_IRQHandler e (t, a) = (s', a\<lparr>enc28j60intCounter := enc28j60intCounter a + 1\<rparr>)) \<and>
    (\<forall>X. X \<noteq> GPIOC \<longrightarrow> falling_edge X 7 s' = s') \<and>
    (let t = falling_edge GPIOC 13 s'
     in (\<forall>n. irq_request n t \<longleftrightarrow> n = EXTI15_10_IRQn) \<and> EXTI15_10_IRQHandler e (t, a) = (s', a)) \<and>
    (let t = tim2_update s'
     in (\<forall>n. irq_request n t \<longleftrightarrow> n = TIM2_IRQn) \<and>
        TIM2_IRQHandler e (htim2, t, a) = (htim2, s', HAL_TIM_PeriodElapsedCallback TIM2 a))"
proof -
  obtain s0 s' where i: "board_init e htim2_0 s = Some (htim2_run, s')"
      "mregs (periph s0) = clocked (mregs (periph s))" "tim2_regs (mregs (periph s'))"
      "\<forall>r. \<not> tim2_reg r \<longrightarrow> mregs (periph s') r = mregs (periph (board_tail e s0)) r"
      "bit (mregs (periph s') (NVIC_ISER 0)) 23"
    using board_init_mcu [OF assms(1,2)] unfolding e_def by blast
  let ?R = "mregs (periph s')"
  have iser: "bit (?R (NVIC_ISER 1)) 8"
    using i(4) tail_regs(3) [of settle ms s0] by (simp add: e_def)
  have pr: "?R EXTI_PR = 0"
    using i(2,4) tail_regs(8) [of EXTI_PR settle ms s0] clocked_other [of EXTI_PR] assms(2)
    by (simp add: e_def reset_state_def Let_def)
  have aircr: "?R SCB_AIRCR = (mregs (periph s) SCB_AIRCR AND NOT 0x700) OR 0x700"
    using i(2,4) tail_regs(8) [of SCB_AIRCR settle ms s0] by (simp add: e_def clocked_regs)
  have "line_view e p s' = line_view e p (board_tail e s0)" for p
    using i(4) by (simp add: line_view_def e_def)
  then have line: "bit (?R EXTI_FTSR) p" "fld 4 (p mod 4) (?R (SYSCFG_EXTICR (p div 4))) = 2" "bit (?R EXTI_IMR) p"
    if "p \<in> {7, 13}" for p
    using tail_views(4) [OF that, of settle ms s0] by (simp_all add: line_view_def e_def)
  have low: "drop_bit 8 (q AND 0xFF) = (0 :: u32)" for q
    by (rule bit_eqI) (auto simp: bit_simps bit_mask_iff simp flip: mask_numeral)
  have flat: "\<not> preempts s' q p" for q p
  proof -
    have "?R SCB_AIRCR AND 0x700 = 0x700"
      unfolding aircr by (simp add: bit.conj_disj_distrib2 and.assoc)
    then show ?thesis by (simp add: preempts_def low)
  qed
  have idle: "\<not> irq_request n s'" for n
    using pr i(3) by (simp add: irq_request_def tim2_regs_def Let_def)
  have restore: "with_regs (?R(EXTI_PR := 0)) s' = s'" "with_regs (?R(TIM_SR TIM2 := 0)) s' = s'"
    using with_pending [OF pr] with_pending [of s' "TIM_SR TIM2"] i(3) by (simp_all add: tim2_regs_def)
  let ?t7 = "with_regs (?R(EXTI_PR := 0x80)) s'" and ?t13 = "with_regs (?R(EXTI_PR := 0x2000)) s'"
    and ?tt = "with_regs (?R(TIM_SR TIM2 := 1)) s'"
  have edges: "falling_edge GPIOC 7 s' = ?t7" "falling_edge GPIOC 13 s' = ?t13" "tim2_update s' = ?tt"
    using line [of 7] line [of 13] pr i(3) by (simp_all add: falling_edge_def tim2_update_def tim2_regs_def Let_def)
  have one: "bit (0x80 :: u32) p \<longleftrightarrow> p = 7" "bit (0x2000 :: u32) p \<longleftrightarrow> p = 13" for p
    using bit_exp_iff [where 'a = "32 word", of 7 p] bit_exp_iff [where 'a = "32 word", of 13 p] by auto
  have sr: "?R (TIM_SR TIM2) = 0" "?R (TIM_DIER TIM2) = 1" "bit (?R (NVIC_ISER 0)) 28"
    using i(3) by (simp_all add: tim2_regs_def)
  have 7: "irq_request n ?t7 \<longleftrightarrow> n = EXTI9_5_IRQn" for n
    using line(3) [of 7] i(5) sr by (auto simp: irq_request_def one Let_def board_consts simp del: bit_numeral_word_iff)
  have 13: "irq_request n ?t13 \<longleftrightarrow> n = EXTI15_10_IRQn" for n
    using line(3) [of 13] iser sr by (auto simp: irq_request_def one Let_def board_consts simp del: bit_numeral_word_iff)
  have tim: "irq_request n ?tt \<longleftrightarrow> n = TIM2_IRQn" for n
    using pr sr by (auto simp: irq_request_def Let_def board_consts)
  have other: "falling_edge X 7 s' = s'" if "X \<noteq> GPIOC" for X
    using line [of 7] that by (cases X) (simp_all add: falling_edge_def Let_def)
  have served: "EXTI9_5_IRQHandler e (?t7, a) = (s', a\<lparr>enc28j60intCounter := enc28j60intCounter a + 1\<rparr>)"
    "EXTI15_10_IRQHandler e (?t13, a) = (s', a)"
    "TIM2_IRQHandler e (htim2_run, ?tt, a) = (htim2_run, s', HAL_TIM_PeriodElapsedCallback TIM2 a)"
    using restore sr IRQHandler_update_only [of e htim2_run ?tt app_tim_callback a]
    by (simp_all add: e_def EXTI9_5_IRQHandler_def EXTI15_10_IRQHandler_def TIM2_IRQHandler_def
        HAL_GPIO_EXTI_IRQHandler_def HAL_GPIO_EXTI_Callback_def GPIO_PIN_7_def board_consts htim2_run_def htim2_0_def
        app_tim_callback_def)
  show ?thesis
    by (rule exI [of _ htim2_run], rule exI [of _ s'], unfold edges Let_def,
        use i(1) idle flat other 7 13 tim served in blast)
qed

lemma irqs_served_witness:
  "\<exists>htim2 s'. board_init (mcu_env odd (\<lambda>_. 1)) htim2_0 chip_reset = Some (htim2, s') \<and>
     irq_request EXTI9_5_IRQn (falling_edge GPIOC 7 s') \<and> \<not> irq_request EXTI9_5_IRQn s'"
  using irqs_served [OF slow_responsive chip_reset_state] unfolding Let_def by blast

end
