(* ===== verification/Spec2Isabelle.thy ===== *)
theory Spec2Isabelle
  imports App_Frames Lwip_Ram Lwip_Sums Lwip_Addr Mqtt_Safe Board_Spec
begin

text \<open>
  \<^bold>\<open>The program.\<close>  A bare-metal application for an STM32F401 board with an ENC28J60 Ethernet
  controller on SPI1.  \<open>Core/Src/main.c\<close> initialises the board, starts the driver of the controller
  (\<open>enc28j60_driver/Src/enc28j60_hwd.c\<close>) and loops for ever: it feeds the timers of the TCP/IP stack
  lwIP 2.2.1, steps a small machine that obtains an address, resolves a name and keeps an MQTT
  connection, and serves the interrupt flags of the controller.  Frames go from the controller into
  packet buffers of lwIP and back; the driver reaches the controller through five function pointers
  that \<open>spiHwdInterface.c\<close> fills with calls of the vendor library (HAL).  Two interrupts change the
  state between the statements of the loop: TIM2 every 500 ms and the interrupt pin of the controller.

  \<^bold>\<open>Theories and sources.\<close>
  \<^item> \<^verbatim>\<open>Enc_Prelude\<close>: words, byte halves, masks.  Shared by all others.
  \<^item> \<^verbatim>\<open>Enc_Types\<close>, \<^verbatim>\<open>Enc_Driver\<close>: \<open>enc28j60_hwd.h\<close> and \<open>enc28j60_hwd.c\<close>.  The device structure with its
    register tables, and every function of the driver in the state of the device structure, the board and
    the log.  A call through a function pointer is a transition of the board, \<open>None\<close> is an execution
    that does not come back (NULL pointer, polling loop that never ends).
  \<^item> \<^verbatim>\<open>Spi_Bus\<close>: what the bytes on the bus mean to the chip (banks, op codes, buffer memory with wrap-around,
    MII registers) and the locale \<open>spi_bus\<close>, the contract of the five functions: they return, change only
    the board, and append to a log of bus events.  \<open>prog_chip\<close> is the chip as the log programs it.
  \<^item> \<^verbatim>\<open>Enc_Bank\<close>, \<^verbatim>\<open>Enc_Transfer\<close>, \<^verbatim>\<open>Enc_Phy\<close>, \<^verbatim>\<open>Enc_Start\<close>, \<^verbatim>\<open>Enc_Spec\<close>: the driver against that contract.
    Bank selection, register access, frames out and in, the PHY, the start sequence; the driver invariant
    and its reachability theorem; the properties.
  \<^item> \<^verbatim>\<open>Hal_Spi\<close>, \<^verbatim>\<open>Spi_Board\<close>: blocking SPI of \<open>stm32f4xx_hal_spi.c\<close>, delay, chip select and
    \<open>spiHwdInterface.c\<close>, over a peripheral given as register functions.  \<open>Spi_Board\<close> builds the
    peripheral of a board with an arbitrary byte-exchanging device and interprets \<open>spi_bus\<close> on the
    functions of the code.
  \<^item> \<^verbatim>\<open>Lwip_Base\<close>, \<^verbatim>\<open>Lwip_Pbuf\<close>, \<^verbatim>\<open>Lwip_Chain\<close>: \<open>memp.c\<close> and \<open>pbuf.c\<close>.  Pbufs are records in a store, payloads
    live in a flat byte memory; chains, contents and the laws of the operations.
  \<^item> \<^verbatim>\<open>Lwip_Mem\<close>, \<^verbatim>\<open>Lwip_Heap\<close>, \<^verbatim>\<open>Lwip_Malloc\<close>, \<^verbatim>\<open>Lwip_Client\<close>: \<open>mem.c\<close>, the headers of the blocks in the bytes of
    the memory.  The heap is a row of cells; every function refines an operation on rows, and the
    reachability relation \<open>heap_reach\<close> of clients that use their blocks carries the safety and leak theorems.
  \<^item> \<^verbatim>\<open>Lwip_Ram\<close>: pbufs whose memory comes from that heap, through the locale \<open>pbuf_heap\<close>.
  \<^item> \<^verbatim>\<open>Lwip_Chksum\<close>, \<^verbatim>\<open>Lwip_Sums\<close>: \<open>inet_chksum.c\<close> and the byte order functions of \<open>def.c\<close>.  The locale
    \<open>checksum\<close> is the contract of the configurable \<open>LWIP_CHKSUM\<close>; each of the three algorithms of the file
    keeps it.
  \<^item> \<^verbatim>\<open>Lwip_Addr\<close>: \<open>ip4_addr.c\<close>, parsing and printing of addresses, netmasks, broadcasts.
  \<^item> \<^verbatim>\<open>Lwip_Timeouts\<close>: \<open>timeouts.c\<close> and the clock of the port, with the wrap-around of time.
  \<^item> \<^verbatim>\<open>Mqtt_Ring\<close>, \<^verbatim>\<open>Mqtt_Client\<close>, \<^verbatim>\<open>Mqtt_Input\<close>: \<open>apps/mqtt/mqtt.c\<close>.  The output ring and the messages built in it, the array of
    request objects with its queue, the public functions, the cyclic timer, the parser of incoming messages over a pbuf
    chain (\<open>parse_step\<close> is one iteration, \<open>parse_loop\<close> the loop) and the callbacks of TCP.  TCP is the argument \<open>altcp\<close>, a user's callback is an entry in the list \<open>events\<close>.
    The ring keeps the contract of the locale \<open>byte_queue\<close> for 255 of its 256 bytes.
  \<^item> \<^verbatim>\<open>Mqtt_Requests\<close>, \<^verbatim>\<open>Mqtt_Parse\<close>, \<^verbatim>\<open>Mqtt_Hang\<close>, \<^verbatim>\<open>Mqtt_Spec\<close>, \<^verbatim>\<open>Mqtt_Safe\<close>: the queue as a list of objects, the parser on
    chains that hold whole packets, the packets it does not survive, the properties, and the step relation \<open>mqtt_step\<close> of
    all entry points with its invariant.  Iterations of the parser are counted by \<open>parse_run\<close>, so that an endless loop
    (every iteration defined, the state repeats) and an access behind a buffer (an iteration undefined) are told apart.
  \<^item> \<^verbatim>\<open>App_Main\<close>, \<^verbatim>\<open>App_Spec\<close>, \<^verbatim>\<open>App_Properties\<close>, \<^verbatim>\<open>App_Frames\<close>: \<open>main.c\<close>.  A call into lwIP is a tree
    of the callbacks it makes on the application (\<open>call\<close>), so that everything lwIP may do to the
    application through its interface is a case.  The program is the step relation \<open>app_step\<close>: the four
    blocks of the loop in turn, and the two interrupts between them.  A tower of locales (\<open>callback_inv\<close>,
    \<open>timer_inv\<close>, \<open>enc_inv\<close>, \<open>loop_inv\<close>) carries an invariant from the callbacks to the whole loop; it is
    interpreted on the driver invariant, on the pacing of connections and on the connection machine.
  \<^item> \<^verbatim>\<open>Hal_Regs\<close>, \<^verbatim>\<open>Hal_Gpio\<close>, \<^verbatim>\<open>Hal_Rcc\<close>, \<^verbatim>\<open>Hal_Tim\<close>: registers as the HAL reads, writes and polls them, and
    the configuration functions of the HAL for pins, clocks, tick, priorities and the time base.  The hardware is
    the argument \<open>hal_env\<close>; the locale \<open>plain\<close> names registers that hold what was written.
  \<^item> \<^verbatim>\<open>Mcu\<close>, \<^verbatim>\<open>Board_Init\<close>, \<^verbatim>\<open>Board_Spec\<close>: a microcontroller whose clock flags follow their enable bits after any
    latency up to a bound, the start-up of \<open>main.c\<close> with the callbacks of \<open>stm32f4xx_hal_msp.c\<close>, and the
    interrupt handlers of \<open>stm32f4xx_it.c\<close>, run on it.

  \<^bold>\<open>What is shown.\<close>  The driver invariant holds in every reachable state of the program; frames handed
  to the interface arrive byte for byte in the transmit buffer with the control byte and the end
  pointer of the data sheet, and frames of the controller arrive in lwIP; interrupt flags are
  acknowledged and nothing else is; the start sequence returns and programs the registers; the HAL
  puts the bytes on the wire and stays ready; packet buffers, heap and timers satisfy the laws of their data
  structures, under exhaustion too; the heap keeps its clients apart and leaks nothing; checksums are those of RFC 1071
  however a packet is fragmented; the MQTT client puts exactly the packets of the protocol into the TCP stream, delivers
  published messages however they are fragmented as long as they are short, times out its requests and never follows a wild
  pointer outside of its parser; the board starts with the intended clocks and pins whatever the latency of its
  oscillators, and interrupts are acknowledged.  Where the code misbehaves, the theorem states what it does.

  \<^bold>\<open>Bounds.\<close>  No model uses fuel.  Loops over data are recursive; polling loops and loops over
  pointers are partial functions into \<open>option\<close>, and returning is part of what the theorems
  state; the endless loop of the MQTT parser is stated over its iterations.  Words have their C widths;
  addresses are natural numbers below \<^verbatim>\<open>2 ^ 32\<close> where that matters.

  \<^bold>\<open>Not modelled.\<close>  The protocols of lwIP below MQTT (TCP, UDP, DNS, DHCP, ARP, IP) are vendored code that
  is reached through a few functions: they are parameters of \<open>App_Main\<close> and of the MQTT client.  \<open>App_Main\<close> takes the
  calls of the MQTT client as parameters too: there any callback may come from any call.  The interrupt and
  DMA variants of the HAL, the UART and its driver behind the log, fault handlers, the start-up assembly and the text formatting of the C library are left out; the
  components of the manifest name the rest.  Instruction-level interleaving of the
  interrupts with a statement is not modelled: an interrupt happens between two blocks of the loop.
\<close>

end
